(* ===== verification/Alli_Prelude.thy ===== *)
theory Alli_Prelude
  imports
    Main
    "HOL-Library.Word"
    "HOL-Library.Char_ord"
    "HOL-Library.List_Lexorder"
    "HOL-Library.AList"
    "HOL-Library.Multiset"
    "HOL-Library.Sublist"
begin

text \<open>
  What every component of the development shares: the Go value types, the error result and its
  sequencing, byte slices with Go's bounds check, the little-endian integers of
  \<^verbatim>\<open>encoding/binary\<close>, the IEEE CRC-32 of \<^verbatim>\<open>hash/crc32\<close>, the binary search of
  \<^verbatim>\<open>sort.Search\<close>, the sorting of \<^verbatim>\<open>sort.Slice\<close> and decimal numerals.
  The interfaces \<open>codec\<close> (an encoder and a cursor decoder that inverts it) and
  \<open>sort_order\<close> (the strict weak order that \<^verbatim>\<open>sort.Slice\<close> is given) are locales.
  Go strings are byte strings: here a \<open>string\<close>, whose characters are bytes.
\<close>

section \<open>Automation collections\<close>

named_theorems no_panic \<open>introduction rules for results that are not a panic\<close>
named_theorems reads \<open>what a cursor read returns where the bytes are known\<close>

section \<open>Results\<close>

text \<open>
  A Go function returns a value, returns an error or panics. An error is known by its message
  (its format string, without the arguments).
\<close>

datatype go_error = Panic | Fail string

type_synonym 'a go = "go_error + 'a"

definition rbind :: "'a go \<Rightarrow> ('a \<Rightarrow> 'b go) \<Rightarrow> 'b go" where
  "rbind m f = (case m of Inl e \<Rightarrow> Inl e | Inr x \<Rightarrow> f x)"

lemma rbind_simps [simp]:
  "rbind (Inl e) f = Inl e"
  "rbind (Inr x) f = f x"
  by (simp_all add: rbind_def)

lemma rbind_eq_Inr: "rbind m f = Inr y \<longleftrightarrow> (\<exists>x. m = Inr x \<and> f x = Inr y)"
  by (cases m) auto

lemma rbind_eq_Inl: "rbind m f = Inl e \<longleftrightarrow> m = Inl e \<or> (\<exists>x. m = Inr x \<and> f x = Inl e)"
  by (cases m) auto

text \<open>\<open>rwrap msg m\<close>: an error of \<open>m\<close> wrapped with \<^verbatim>\<open>fmt.Errorf("msg: %w", err)\<close>;
  a panic passes through unchanged.\<close>

definition rwrap :: "string \<Rightarrow> 'a go \<Rightarrow> 'a go" where
  "rwrap msg m = (case m of Inl (Fail s) \<Rightarrow> Inl (Fail (msg @ '': '' @ s)) | r \<Rightarrow> r)"

lemma rwrap_Inr [simp]: "rwrap msg (Inr x) = Inr x"
  by (simp add: rwrap_def)

lemma rwrap_eq_Inr [simp]: "rwrap msg m = Inr x \<longleftrightarrow> m = Inr x"
  by (auto simp: rwrap_def split: sum.splits go_error.splits)

lemma rwrap_eq_Panic [simp]: "rwrap msg m = Inl Panic \<longleftrightarrow> m = Inl Panic"
  by (auto simp: rwrap_def split: sum.splits go_error.splits)

lemma no_panic_basics [no_panic]:
  "Inr x \<noteq> Inl Panic"
  "Inl (Fail s) \<noteq> Inl Panic"
  by simp_all

lemma no_panic_rbind [no_panic]:
  "m \<noteq> Inl Panic \<Longrightarrow> (\<And>x. m = Inr x \<Longrightarrow> f x \<noteq> Inl Panic) \<Longrightarrow> rbind m f \<noteq> Inl Panic"
  by (auto simp: rbind_eq_Inl)

lemma no_panic_rwrap [no_panic]: "m \<noteq> Inl Panic \<Longrightarrow> rwrap msg m \<noteq> Inl Panic"
  by simp

section \<open>Go types\<close>

type_synonym byte = "8 word"
type_synonym bytes = "byte list"

text \<open>
  A float is its IEEE 754 bit pattern, which is what \<^verbatim>\<open>math.Float32bits\<close> and
  \<^verbatim>\<open>math.Float64bits\<close> return and what copies and encodings preserve. No arithmetic on
  floats is modelled. An instant (\<^verbatim>\<open>time.Time\<close>) and a \<^verbatim>\<open>time.Duration\<close> are
  integers counting nanoseconds, an instant from the Unix epoch.
\<close>

type_synonym float32 = "32 word"
type_synonym float64 = "64 word"
type_synonym time = int

text \<open>\<^verbatim>\<open>Time.UnixNano\<close> and \<^verbatim>\<open>time.Unix(0, n)\<close>: an instant outside the int64 range wraps.\<close>

definition UnixNano :: "time \<Rightarrow> 64 word" where
  "UnixNano t = word_of_int t"

definition time_Unix0 :: "64 word \<Rightarrow> time" where
  "time_Unix0 n = sint n"

text \<open>The zero value of \<^verbatim>\<open>time.Time\<close> is the first of January of the year 1.\<close>

definition time_zero :: time where
  "time_zero = - 62135596800 * 1000000000"

definition representable :: "time \<Rightarrow> bool" where
  "representable t \<longleftrightarrow> - (2 ^ 63) \<le> t \<and> t < 2 ^ 63"

lemma time_roundtrip [simp]: "representable t \<Longrightarrow> time_Unix0 (UnixNano t) = t"
  by (simp add: representable_def time_Unix0_def UnixNano_def sint_sbintrunc' signed_take_bit_int_eq_self_iff)

definition bytes_of :: "string \<Rightarrow> bytes" where
  "bytes_of s = map (\<lambda>c. word_of_nat (of_char c)) s"

definition string_of :: "bytes \<Rightarrow> string" where
  "string_of bs = map (\<lambda>b. char_of (unat b)) bs"

lemma length_bytes_of [simp]: "length (bytes_of s) = length s"
  by (simp add: bytes_of_def)

lemma length_string_of [simp]: "length (string_of bs) = length bs"
  by (simp add: string_of_def)

lemma of_char_less: "(of_char c :: nat) < 256"
  using of_char_mod_256 [of c, where ?'a = nat] by (metis mod_less_divisor zero_less_numeral)

lemma string_of_bytes_of [simp]: "string_of (bytes_of s) = s"
  by (simp add: string_of_def bytes_of_def o_def unat_of_nat take_bit_eq_mod of_char_less map_idI)

section \<open>Byte slices\<close>

text \<open>\<^verbatim>\<open>data[lo:hi]\<close> and \<^verbatim>\<open>data[lo:]\<close> panic out of range.\<close>

definition slice :: "bytes \<Rightarrow> nat \<Rightarrow> nat \<Rightarrow> bytes go" where
  "slice data lo hi =
     (if lo \<le> hi \<and> hi \<le> length data then Inr (take (hi - lo) (drop lo data)) else Inl Panic)"

definition slice_from :: "bytes \<Rightarrow> nat \<Rightarrow> bytes go" where
  "slice_from data lo = (if lo \<le> length data then Inr (drop lo data) else Inl Panic)"

lemma slice_Inr: "lo \<le> hi \<Longrightarrow> hi \<le> length data \<Longrightarrow> slice data lo hi = Inr (take (hi - lo) (drop lo data))"
  by (simp add: slice_def)

lemma slice_from_Inr: "lo \<le> length data \<Longrightarrow> slice_from data lo = Inr (drop lo data)"
  by (simp add: slice_from_def)

section \<open>Little-endian integers\<close>

fun le_put :: "nat \<Rightarrow> nat \<Rightarrow> bytes" where
  "le_put 0 n = []"
| "le_put (Suc k) n = word_of_nat (n mod 256) # le_put k (n div 256)"

fun le_get :: "bytes \<Rightarrow> nat" where
  "le_get [] = 0"
| "le_get (b # bs) = unat b + 256 * le_get bs"

lemma length_le_put [simp]: "length (le_put k n) = k"
  by (induction k arbitrary: n) auto

lemma unat_byte_of_nat: "n < 256 \<Longrightarrow> unat (word_of_nat n :: 8 word) = n"
  by (simp add: unat_of_nat take_bit_eq_mod)

lemma le_get_put [simp]: "le_get (le_put k n) = n mod 256 ^ k"
proof (induction k arbitrary: n)
  case 0
  then show ?case by simp
next
  case (Suc k)
  have "n mod (256 * 256 ^ k) = 256 * (n div 256 mod 256 ^ k) + n mod 256"
    by (rule mod_mult2_eq)
  with Suc show ?case by (simp add: unat_byte_of_nat)
qed

lemma le_get_less: "le_get bs < 256 ^ length bs"
proof (induction bs)
  case Nil
  then show ?case by simp
next
  case (Cons b bs)
  have "unat b < 256" using unsigned_less [of b, where ?'a = nat] by simp
  with Cons show ?case by simp
qed

definition put_u16 :: "16 word \<Rightarrow> bytes" where "put_u16 w = le_put 2 (unat w)"
definition put_u32 :: "32 word \<Rightarrow> bytes" where "put_u32 w = le_put 4 (unat w)"
definition put_u64 :: "64 word \<Rightarrow> bytes" where "put_u64 w = le_put 8 (unat w)"

definition get_u16 :: "bytes \<Rightarrow> 16 word" where "get_u16 bs = word_of_nat (le_get bs)"
definition get_u32 :: "bytes \<Rightarrow> 32 word" where "get_u32 bs = word_of_nat (le_get bs)"
definition get_u64 :: "bytes \<Rightarrow> 64 word" where "get_u64 bs = word_of_nat (le_get bs)"

lemma length_put_u [simp]:
  "length (put_u16 a) = 2" "length (put_u32 b) = 4" "length (put_u64 c) = 8"
  by (simp_all add: put_u16_def put_u32_def put_u64_def)

lemma get_put_u16 [simp]: "get_u16 (put_u16 w) = w"
  using unsigned_less [of w, where ?'a = nat] by (simp add: get_u16_def put_u16_def)

lemma get_put_u32 [simp]: "get_u32 (put_u32 w) = w"
  using unsigned_less [of w, where ?'a = nat] by (simp add: get_u32_def put_u32_def)

lemma get_put_u64 [simp]: "get_u64 (put_u64 w) = w"
  using unsigned_less [of w, where ?'a = nat] by (simp add: get_u64_def put_u64_def)

text \<open>An int64 is an \<open>int\<close> in its range, encoded and decoded through 64 bits.\<close>

type_synonym int64 = int

definition wrap64 :: "int \<Rightarrow> int64" where
  "wrap64 i = sint (word_of_int i :: 64 word)"

definition put_i64 :: "int64 \<Rightarrow> bytes" where "put_i64 i = put_u64 (word_of_int i)"
definition get_i64 :: "bytes \<Rightarrow> int64" where "get_i64 bs = sint (get_u64 bs)"

lemma length_put_i64 [simp]: "length (put_i64 i) = 8"
  by (simp add: put_i64_def)

lemma wrap64_id: "- (2 ^ 63) \<le> i \<Longrightarrow> i < 2 ^ 63 \<Longrightarrow> wrap64 i = i"
  by (simp add: wrap64_def sint_sbintrunc' signed_take_bit_int_eq_self_iff)

lemma wrap64_above:
  assumes "2 ^ 63 \<le> i" and "i < 2 ^ 64"
  shows "wrap64 i = i - 2 ^ 64"
proof -
  have "word_of_int i = (word_of_int (i - 2 ^ 64) :: 64 word)"
    by (simp only: word_of_int_eq_iff take_bit_eq_mod) simp
  then have "wrap64 i = wrap64 (i - 2 ^ 64)" by (simp only: wrap64_def)
  with assms show ?thesis by (simp add: wrap64_id)
qed

lemma get_put_i64: "- (2 ^ 63) \<le> i \<Longrightarrow> i < 2 ^ 63 \<Longrightarrow> get_i64 (put_i64 i) = i"
  using wrap64_id [of i] by (simp add: get_i64_def put_i64_def wrap64_def)

text \<open>\<^verbatim>\<open>uint32(len(x))\<close>: the conversion truncates lengths of \<open>2 ^ 32\<close> and more.\<close>

definition len32 :: "'a list \<Rightarrow> 32 word" where
  "len32 xs = word_of_nat (length xs)"

definition fits32 :: "'a list \<Rightarrow> bool" where
  "fits32 xs \<longleftrightarrow> length xs < 2 ^ 32"

lemma unat_len32 [simp]: "fits32 xs \<Longrightarrow> unat (len32 xs) = length xs"
  by (simp add: len32_def fits32_def unat_of_nat take_bit_eq_mod)

lemma unat_len32_le: "unat (len32 xs) \<le> length xs"
  by (simp add: len32_def unat_of_nat take_bit_eq_mod)

section \<open>Reading at a cursor\<close>

text \<open>
  The decoders keep an offset into \<^verbatim>\<open>data\<close> and read with a guard
  (\<^verbatim>\<open>if offset+4 > len(data) { return error }\<close>) before they slice. A read returns what
  it read and the advanced offset.
\<close>

definition read_u32 :: "string \<Rightarrow> bytes \<Rightarrow> nat \<Rightarrow> (32 word \<times> nat) go" where
  "read_u32 msg data off =
     (if off + 4 > length data then Inl (Fail msg)
      else rbind (slice data off (off + 4)) (\<lambda>b. Inr (get_u32 b, off + 4)))"

definition read_u64 :: "string \<Rightarrow> bytes \<Rightarrow> nat \<Rightarrow> (64 word \<times> nat) go" where
  "read_u64 msg data off =
     (if off + 8 > length data then Inl (Fail msg)
      else rbind (slice data off (off + 8)) (\<lambda>b. Inr (get_u64 b, off + 8)))"

definition read_bytes :: "string \<Rightarrow> nat \<Rightarrow> bytes \<Rightarrow> nat \<Rightarrow> (bytes \<times> nat) go" where
  "read_bytes msg n data off =
     (if off + n > length data then Inl (Fail msg)
      else rbind (slice data off (off + n)) (\<lambda>b. Inr (b, off + n)))"

text \<open>A length-prefixed string: its length as a \<^verbatim>\<open>uint32\<close>, then its bytes.\<close>

definition put_string :: "string \<Rightarrow> bytes" where
  "put_string s = put_u32 (len32 s) @ bytes_of s"

definition read_string :: "string \<Rightarrow> string \<Rightarrow> bytes \<Rightarrow> nat \<Rightarrow> (string \<times> nat) go" where
  "read_string len_msg msg data off =
     rbind (read_u32 len_msg data off) (\<lambda>(n, off).
     rbind (read_bytes msg (unat n) data off) (\<lambda>(b, off). Inr (string_of b, off)))"

lemma length_put_string [simp]: "length (put_string s) = 4 + length s"
  by (simp add: put_string_def)

text \<open>\<open>holds data off bs\<close>: the bytes of \<open>data\<close> at \<open>off\<close> are \<open>bs\<close>.\<close>

definition holds :: "bytes \<Rightarrow> nat \<Rightarrow> bytes \<Rightarrow> bool" where
  "holds data off bs \<longleftrightarrow> off + length bs \<le> length data \<and> take (length bs) (drop off data) = bs"

lemma holds_Nil [simp]: "holds data off [] \<longleftrightarrow> off \<le> length data"
  by (simp add: holds_def)

lemma holds_append [simp]:
  "holds data off (as @ bs) \<longleftrightarrow> holds data off as \<and> holds data (off + length as) bs"
  by (auto simp: holds_def take_add add.commute add.left_commute)

lemma holds_self: "holds bs 0 bs"
  by (simp add: holds_def)

lemma holds_prefix: "holds (bs @ cs) 0 bs"
  by (simp add: holds_def)

lemma holds_middle: "holds (as @ bs @ cs) (length as) bs"
  by (simp add: holds_def)

lemma holds_bound: "holds data off bs \<Longrightarrow> off + length bs \<le> length data"
  by (simp add: holds_def)

lemma holds_drop: "off \<le> length data \<Longrightarrow> holds (drop off data) n bs \<longleftrightarrow> holds data (off + n) bs"
  by (auto simp: holds_def add.commute add.left_commute)

lemma read_u32_holds [reads]: "holds data off (put_u32 w) \<Longrightarrow> read_u32 msg data off = Inr (w, off + 4)"
  by (simp add: read_u32_def slice_def holds_def)

lemma read_u64_holds [reads]: "holds data off (put_u64 w) \<Longrightarrow> read_u64 msg data off = Inr (w, off + 8)"
  by (simp add: read_u64_def slice_def holds_def)

lemma read_bytes_holds:
  "holds data off bs \<Longrightarrow> length bs = n \<Longrightarrow> read_bytes msg n data off = Inr (bs, off + n)"
  by (auto simp: read_bytes_def slice_def holds_def)

lemma read_string_holds [reads]:
  assumes "holds data off (put_string s)" and "fits32 s"
  shows "read_string m1 m2 data off = Inr (s, off + (4 + length s))"
proof -
  from assms(1) have u: "holds data off (put_u32 (len32 s))" and b: "holds data (off + 4) (bytes_of s)"
    by (simp_all add: put_string_def)
  from read_bytes_holds [OF b] assms(2)
  show ?thesis
    by (simp add: read_string_def read_u32_holds [OF u] add.assoc)
qed

lemma read_u32_Inr: "read_u32 msg data off = Inr (w, off') \<longleftrightarrow>
    off + 4 \<le> length data \<and> off' = off + 4 \<and> w = get_u32 (take 4 (drop off data))"
  by (auto simp: read_u32_def slice_def)

lemma read_u64_Inr: "read_u64 msg data off = Inr (w, off') \<longleftrightarrow>
    off + 8 \<le> length data \<and> off' = off + 8 \<and> w = get_u64 (take 8 (drop off data))"
  by (auto simp: read_u64_def slice_def)

lemma read_bytes_Inr: "read_bytes msg n data off = Inr (b, off') \<longleftrightarrow>
    off + n \<le> length data \<and> off' = off + n \<and> b = take n (drop off data)"
  by (auto simp: read_bytes_def slice_def)

lemma read_string_Inr:
  "read_string m1 m2 data off = Inr (s, off') \<Longrightarrow>
     off' = off + 4 + length s \<and> off' \<le> length data \<and> fits32 s"
  using unsigned_less [of "get_u32 (take 4 (drop off data))", where ?'a = nat]
  by (auto simp: read_string_def rbind_eq_Inr read_u32_Inr read_bytes_Inr fits32_def)

lemma read_u32_eq: "read_u32 msg data off =
    (if off + 4 > length data then Inl (Fail msg) else Inr (get_u32 (take 4 (drop off data)), off + 4))"
  by (simp add: read_u32_def slice_def)

lemma read_u64_eq: "read_u64 msg data off =
    (if off + 8 > length data then Inl (Fail msg) else Inr (get_u64 (take 8 (drop off data)), off + 8))"
  by (simp add: read_u64_def slice_def)

lemma no_panic_reads [no_panic]:
  "read_u32 msg data off \<noteq> Inl Panic"
  "read_u64 msg data off \<noteq> Inl Panic"
  "read_bytes msg n data off \<noteq> Inl Panic"
  "read_string m1 m2 data off \<noteq> Inl Panic"
  by (auto simp: read_u32_def read_u64_def read_bytes_def read_string_def slice_def rbind_eq_Inl)

section \<open>Writing a buffer\<close>

text \<open>
  The encoders compute a size, allocate \<^verbatim>\<open>buf := make([]byte, size)\<close> and write one
  field after the other at a moving offset; a field that does not fit is a slice out of range.
\<close>

definition write_at :: "bytes \<Rightarrow> bytes \<times> nat \<Rightarrow> (bytes \<times> nat) go" where
  "write_at bs = (\<lambda>(buf, off).
     if off + length bs \<le> length buf
     then Inr (take off buf @ bs @ drop (off + length bs) buf, off + length bs)
     else Inl Panic)"

fun write_fields :: "bytes list \<Rightarrow> bytes \<times> nat \<Rightarrow> (bytes \<times> nat) go" where
  "write_fields [] st = Inr st"
| "write_fields (b # bs) st = rbind (write_at b st) (write_fields bs)"

definition fill_buffer :: "nat \<Rightarrow> bytes list \<Rightarrow> bytes go" where
  "fill_buffer sz fields = rbind (write_fields fields (replicate sz 0, 0)) (\<lambda>(buf, off). Inr buf)"

lemma write_fields_fill:
  "write_fields bs (pre @ replicate (length (concat bs) + n) 0, length pre)
     = Inr (pre @ concat bs @ replicate n 0, length pre + length (concat bs))"
proof (induction bs arbitrary: pre)
  case Nil
  then show ?case by simp
next
  case (Cons b bs)
  from Cons [of "pre @ b"] show ?case by (simp add: write_at_def add.assoc)
qed

text \<open>The precomputed size is the only thing that can go wrong.\<close>

lemma fill_buffer_exact: "sz = length (concat fields) \<Longrightarrow> fill_buffer sz fields = Inr (concat fields)"
  using write_fields_fill [of fields "[]" 0] by (simp add: fill_buffer_def)

text \<open>A loop that calls a function which may fail on each element.\<close>

fun go_map :: "('a \<Rightarrow> 'b go) \<Rightarrow> 'a list \<Rightarrow> 'b list go" where
  "go_map f [] = Inr []"
| "go_map f (x # xs) = rbind (f x) (\<lambda>y. rbind (go_map f xs) (\<lambda>ys. Inr (y # ys)))"

lemma go_map_Inr [simp]: "go_map (\<lambda>x. Inr (f x)) xs = Inr (map f xs)"
  by (induction xs) auto

lemma go_map_ok: "(\<And>x. x \<in> set xs \<Longrightarrow> g x = Inr (f x)) \<Longrightarrow> go_map g xs = Inr (map f xs)"
  by (induction xs) auto

lemma go_map_eq_Inr: "go_map f xs = Inr ys \<longleftrightarrow> list_all2 (\<lambda>x y. f x = Inr y) xs ys"
  by (induction xs arbitrary: ys) (auto simp: rbind_eq_Inr list_all2_Cons1)

section \<open>Codecs\<close>

text \<open>
  The interface of everything the program writes to bytes and reads back: \<open>dec\<close> at a cursor
  that holds \<open>enc x\<close> returns \<open>x\<close> and the cursor after it; on any other bytes it returns an
  error or a value, moves the cursor forward and inside the data, and never panics.
\<close>

locale codec =
  fixes enc :: "'a \<Rightarrow> bytes"
    and dec :: "bytes \<Rightarrow> nat \<Rightarrow> ('a \<times> nat) go"
    and ok :: "'a \<Rightarrow> bool"
  assumes dec_enc: "ok x \<Longrightarrow> holds data off (enc x) \<Longrightarrow> dec data off = Inr (x, off + length (enc x))"
    and dec_total: "off \<le> length data \<Longrightarrow> dec data off \<noteq> Inl Panic"
    and dec_forward: "off \<le> length data \<Longrightarrow> dec data off = Inr (x, off') \<Longrightarrow> off \<le> off' \<and> off' \<le> length data"

text \<open>The loop \<^verbatim>\<open>for i := 0; i < count; i++\<close> of the decoders.\<close>

fun decode_n :: "(bytes \<Rightarrow> nat \<Rightarrow> ('a \<times> nat) go) \<Rightarrow> nat \<Rightarrow> bytes \<Rightarrow> nat \<Rightarrow> ('a list \<times> nat) go" where
  "decode_n dec 0 data off = Inr ([], off)"
| "decode_n dec (Suc n) data off =
     rbind (dec data off) (\<lambda>(x, off).
     rbind (decode_n dec n data off) (\<lambda>(xs, off). Inr (x # xs, off)))"

lemma decode_n_length: "decode_n dec n data off = Inr (xs, off') \<Longrightarrow> length xs = n"
  by (induction n arbitrary: off xs) (auto simp: rbind_eq_Inr)

context codec
begin

lemma decode_n_enc:
  assumes "list_all ok xs" and "holds data off (concat (map enc xs))"
  shows "decode_n dec (length xs) data off = Inr (xs, off + length (concat (map enc xs)))"
  using assms
proof (induction xs arbitrary: off)
  case Nil
  then show ?case by simp
next
  case (Cons x xs)
  then have d: "dec data off = Inr (x, off + length (enc x))"
    by (simp add: dec_enc)
  have "decode_n dec (length xs) data (off + length (enc x))
      = Inr (xs, off + length (enc x) + length (concat (map enc xs)))"
    using Cons by simp
  with d show ?case by (simp add: add.assoc)
qed

lemma decode_n_total: "off \<le> length data \<Longrightarrow> decode_n dec n data off \<noteq> Inl Panic"
proof (induction n arbitrary: off)
  case 0
  then show ?case by simp
next
  case (Suc n)
  show ?case
  proof (cases "dec data off")
    case (Inl e)
    with Suc.prems dec_total show ?thesis by auto
  next
    case (Inr p)
    then obtain x o' where p: "dec data off = Inr (x, o')" by (cases p) simp
    with Suc.prems have "o' \<le> length data" using dec_forward by blast
    with Suc.IH p show ?thesis by (auto simp: rbind_eq_Inl)
  qed
qed

lemma decode_n_forward:
  "off \<le> length data \<Longrightarrow> decode_n dec n data off = Inr (xs, off') \<Longrightarrow> off \<le> off' \<and> off' \<le> length data"
proof (induction n arbitrary: off xs)
  case 0
  then show ?case by simp
next
  case (Suc n)
  then obtain x o' ys where d: "dec data off = Inr (x, o')" and r: "decode_n dec n data o' = Inr (ys, off')"
    by (auto simp: rbind_eq_Inr)
  from dec_forward [OF Suc.prems(1) d] Suc.IH [OF _ r] show ?case by simp
qed

end

section \<open>CRC-32\<close>

text \<open>\<^verbatim>\<open>crc32.ChecksumIEEE\<close>: the reflected polynomial \<open>0xEDB88320\<close>, bit by bit.\<close>

fun crc_shift :: "nat \<Rightarrow> 32 word \<Rightarrow> 32 word" where
  "crc_shift 0 c = c"
| "crc_shift (Suc k) c =
     crc_shift k (if bit c 0 then xor (drop_bit 1 c) 0xEDB88320 else drop_bit 1 c)"

definition crc_byte :: "byte \<Rightarrow> 32 word \<Rightarrow> 32 word" where
  "crc_byte b c = crc_shift 8 (xor c (ucast b))"

definition crc32 :: "bytes \<Rightarrow> 32 word" where
  "crc32 bs = not (fold crc_byte bs (not 0))"

section \<open>Binary search\<close>

text \<open>\<^verbatim>\<open>sort.Search(n, f)\<close>, with its loop over \<open>i\<close> and \<open>j\<close>.\<close>

function search_loop :: "(nat \<Rightarrow> bool) \<Rightarrow> nat \<Rightarrow> nat \<Rightarrow> nat" where
  "search_loop f i j =
     (if i < j then let h = (i + j) div 2 in
        if \<not> f h then search_loop f (h + 1) j else search_loop f i h
      else i)"
  by pat_completeness auto
termination
  by (relation "measure (\<lambda>(f, i, j). j - i)") auto

declare search_loop.simps [simp del]

definition sort_Search :: "nat \<Rightarrow> (nat \<Rightarrow> bool) \<Rightarrow> nat" where
  "sort_Search n f = search_loop f 0 n"

definition monotone_below :: "nat \<Rightarrow> (nat \<Rightarrow> bool) \<Rightarrow> bool" where
  "monotone_below n f \<longleftrightarrow> (\<forall>a b. a \<le> b \<longrightarrow> b < n \<longrightarrow> f a \<longrightarrow> f b)"

definition splits_at :: "nat \<Rightarrow> (nat \<Rightarrow> bool) \<Rightarrow> nat \<Rightarrow> bool" where
  "splits_at n f s \<longleftrightarrow> s \<le> n \<and> (\<forall>k < s. \<not> f k) \<and> (\<forall>k. s \<le> k \<longrightarrow> k < n \<longrightarrow> f k)"

lemma search_loop_splits:
  "monotone_below n f \<Longrightarrow> i \<le> j \<Longrightarrow> j \<le> n \<Longrightarrow> \<forall>k<i. \<not> f k \<Longrightarrow> \<forall>k. j \<le> k \<longrightarrow> k < n \<longrightarrow> f k
     \<Longrightarrow> splits_at n f (search_loop f i j)"
proof (induction f i j rule: search_loop.induct)
  case (1 f i j)
  show ?case
  proof (cases "i < j")
    case False
    with 1 have "i = j" by simp
    moreover from False have "search_loop f i j = i" by (subst search_loop.simps) simp
    ultimately show ?thesis using 1 by (simp add: splits_at_def)
  next
    case True
    define h where "h = (i + j) div 2"
    from True have h: "i \<le> h" "h < j" by (auto simp: h_def)
    show ?thesis
    proof (cases "f h")
      case True
      with 1 h have "\<forall>k. h \<le> k \<longrightarrow> k < n \<longrightarrow> f k" unfolding monotone_below_def by blast
      with 1(2) [OF \<open>i < j\<close> h_def] 1 True h show ?thesis
        by (simp add: search_loop.simps [of f i j] Let_def \<open>i < j\<close> flip: h_def)
    next
      case False
      have "\<forall>k<h + 1. \<not> f k"
      proof (intro allI impI)
        fix k assume "k < h + 1"
        with 1 h False show "\<not> f k" unfolding monotone_below_def by (metis less_trans_Suc Suc_eq_plus1 less_Suc_eq_le order_less_le_trans)
      qed
      with 1(1) [OF \<open>i < j\<close> h_def] 1 False h show ?thesis
        by (simp add: search_loop.simps [of f i j] Let_def \<open>i < j\<close> flip: h_def)
    qed
  qed
qed

lemma sort_Search_splits: "monotone_below n f \<Longrightarrow> splits_at n f (sort_Search n f)"
  by (simp add: sort_Search_def search_loop_splits)

lemma splits_at_unique: "splits_at n f s \<Longrightarrow> splits_at n f t \<Longrightarrow> s = t"
  unfolding splits_at_def by (metis linorder_neqE_nat order_less_le_trans order_refl)

section \<open>Sorting\<close>

text \<open>
  \<^verbatim>\<open>sort.Slice(xs, less)\<close> permutes \<open>xs\<close> so that no later element is less than an earlier
  one; which of the permitted orders of equal elements it picks is not specified. The model picks
  the one of a stable insertion sort, and no theorem of the development rests on that choice.
\<close>

fun sort_insert :: "('a \<Rightarrow> 'a \<Rightarrow> bool) \<Rightarrow> 'a \<Rightarrow> 'a list \<Rightarrow> 'a list" where
  "sort_insert lt x [] = [x]"
| "sort_insert lt x (y # ys) = (if lt y x then y # sort_insert lt x ys else x # y # ys)"

fun sort_Slice :: "('a \<Rightarrow> 'a \<Rightarrow> bool) \<Rightarrow> 'a list \<Rightarrow> 'a list" where
  "sort_Slice lt [] = []"
| "sort_Slice lt (x # xs) = sort_insert lt x (sort_Slice lt xs)"

lemma mset_sort_insert [simp]: "mset (sort_insert lt x ys) = add_mset x (mset ys)"
  by (induction ys) auto

lemma mset_sort_Slice [simp]: "mset (sort_Slice lt xs) = mset xs"
  by (induction xs) auto

lemma set_sort_Slice [simp]: "set (sort_Slice lt xs) = set xs"
  using mset_sort_Slice [of lt xs] by (metis set_mset_mset)

lemma length_sort_Slice [simp]: "length (sort_Slice lt xs) = length xs"
  using mset_sort_Slice [of lt xs] by (metis size_mset)

lemma distinct_sort_Slice [simp]: "distinct (sort_Slice lt xs) = distinct xs"
  using mset_sort_Slice [of lt xs] by (metis mset_eq_imp_distinct_iff)

lemma sort_Slice_id: "sorted_wrt (\<lambda>x y. \<not> lt y x) xs \<Longrightarrow> sort_Slice lt xs = xs"
proof (induction xs)
  case Nil
  then show ?case by simp
next
  case (Cons x xs)
  then show ?case by (cases xs) auto
qed

lemma filter_thirds:
  "sorted (map f xs) \<Longrightarrow>
     xs = filter (\<lambda>x. f x < k) xs @ filter (\<lambda>x. f x = k) xs @ filter (\<lambda>x. k < (f x :: 'b :: linorder)) xs"
proof (induction xs)
  case Nil
  then show ?case by simp
next
  case (Cons x xs)
  then have ge: "\<forall>y\<in>set xs. f x \<le> f y" and IH: "xs = filter (\<lambda>x. f x < k) xs @
      filter (\<lambda>x. f x = k) xs @ filter (\<lambda>x. k < f x) xs"
    by simp_all
  consider "f x < k" | "f x = k" | "k < f x" by fastforce
  then show ?case
  proof cases
    case 1
    then have "f x \<noteq> k" "\<not> k < f x" by auto
    with 1 IH show ?thesis by simp
  next
    case 2
    with ge have "filter (\<lambda>x. f x < k) xs = []" by (auto simp: filter_empty_conv not_less)
    with 2 IH show ?thesis by simp
  next
    case 3
    with ge have "filter (\<lambda>x. f x < k) xs = []" "filter (\<lambda>x. f x = k) xs = []"
      by (auto simp: filter_empty_conv not_less)
    moreover from 3 have "f x \<noteq> k" "\<not> f x < k" by auto
    ultimately show ?thesis using 3 IH by simp
  qed
qed

lemma distinct_map_sort_Slice [simp]: "distinct (map f (sort_Slice lt xs)) = distinct (map f xs)"
  by (rule mset_eq_imp_distinct_iff) simp

text \<open>The contract of the comparison that \<^verbatim>\<open>sort.Slice\<close> is given.\<close>

locale sort_order =
  fixes lt :: "'a \<Rightarrow> 'a \<Rightarrow> bool"
  assumes asym: "lt x y \<Longrightarrow> \<not> lt y x"
    and neg_trans: "\<not> lt y x \<Longrightarrow> \<not> lt z y \<Longrightarrow> \<not> lt z x"
begin

abbreviation in_order :: "'a list \<Rightarrow> bool" where
  "in_order \<equiv> sorted_wrt (\<lambda>x y. \<not> lt y x)"

lemma sort_insert_in_order: "in_order ys \<Longrightarrow> in_order (sort_insert lt x ys)"
proof (induction ys)
  case Nil
  then show ?case by simp
next
  case (Cons y ys)
  have s: "set (sort_insert lt x ys) = insert x (set ys)"
    using mset_sort_insert [of lt x ys] by (metis set_mset_mset set_mset_add_mset_insert)
  show ?case
  proof (cases "lt y x")
    case True
    with Cons show ?thesis by (auto simp: s dest: asym)
  next
    case False
    with Cons show ?thesis using neg_trans [OF False] by auto
  qed
qed

lemma sort_Slice_in_order: "in_order (sort_Slice lt xs)"
  by (induction xs) (auto intro: sort_insert_in_order)

end

lemma sort_order_key: "sort_order (\<lambda>x y. (k x :: 'b :: linorder) < k y)"
  by unfold_locales auto

lemma sort_order_key_desc: "sort_order (\<lambda>x y. (k x :: 'b :: linorder) > k y)"
  by unfold_locales auto

lemma sort_Slice_sorted_key: "sorted (map k (sort_Slice (\<lambda>x y. (k x :: 'b :: linorder) < k y) xs))"
  using sort_order.sort_Slice_in_order [OF sort_order_key, of k xs]
  by (simp add: sorted_map not_less)

lemma sort_Slice_sorted_key_desc:
  "sorted_wrt (\<lambda>x y. k x \<ge> k y) (sort_Slice (\<lambda>x y. (k x :: 'b :: linorder) > k y) xs)"
  using sort_order.sort_Slice_in_order [OF sort_order_key_desc, of k xs]
  by (simp add: not_less)

lemma sort_Slice_set:
  "distinct xs \<Longrightarrow> sort_Slice (<) xs = sorted_list_of_set (set (xs :: 'a :: linorder list))"
  using sort_Slice_sorted_key [of "\<lambda>x. x" xs]
  by (intro sorted_distinct_set_unique) simp_all

section \<open>Maps as association lists\<close>

text \<open>
  A Go map is the list of its entries, with distinct keys, in the order in which a
  \<^verbatim>\<open>range\<close> loop meets them; Go leaves that order open.
\<close>

lemma alist_update_fresh: "k \<notin> fst ` set al \<Longrightarrow> AList.update k v al = al @ [(k, v)]"
  by (induction al) auto

lemma alist_fold_update_fresh:
  "distinct (map fst (al @ kvs)) \<Longrightarrow> fold (\<lambda>(k, v). AList.update k v) kvs al = al @ kvs"
proof (induction kvs arbitrary: al)
  case Nil
  then show ?case by simp
next
  case (Cons kv kvs)
  obtain k v where kv: "kv = (k, v)" by (cases kv)
  with Cons.prems have "AList.update k v al = al @ [(k, v)]" by (intro alist_update_fresh) auto
  with Cons.IH [of "al @ [(k, v)]"] Cons.prems kv show ?case by simp
qed

lemma alist_update_weight:
  "sum_list (map f (AList.update k v al)) \<le> sum_list (map f al) + (f (k, v) :: nat)"
  by (induction al) auto

lemma alist_update_distinct [simp, intro]:
  "distinct (map fst al) \<Longrightarrow> distinct (map fst (AList.update k v al))"
  by (rule AList.distinct_update)

lemma map_of_alist_update [simp]: "map_of (AList.update k v al) = (map_of al)(k \<mapsto> v)"
  by (rule AList.update_conv')

lemma alist_delete_distinct [simp, intro]:
  "distinct (map fst al) \<Longrightarrow> distinct (map fst (AList.delete k al))"
  by (rule AList.distinct_delete)

lemma map_of_alist_delete [simp]: "map_of (AList.delete k al) = (map_of al)(k := None)"
  by (rule AList.delete_conv')

text \<open>What a \<^verbatim>\<open>range\<close> loop over a map may do with its entries.\<close>

definition reorders :: "('a list \<Rightarrow> 'a list) \<Rightarrow> bool" where
  "reorders rng \<longleftrightarrow> (\<forall>xs. mset (rng xs) = mset xs)"

lemma reorders_id: "reorders (\<lambda>xs. xs)" "reorders rev"
  by (simp_all add: reorders_def)

lemma reorders_set: "reorders rng \<Longrightarrow> set (rng xs) = set xs"
  by (metis reorders_def mset_eq_setD)

lemma reorders_distinct: "reorders rng \<Longrightarrow> distinct (rng xs) = distinct xs"
  by (metis reorders_def mset_eq_imp_distinct_iff)

lemma reorders_length: "reorders rng \<Longrightarrow> length (rng xs) = length xs"
  by (metis reorders_def mset_eq_length)

text \<open>The keys of an association list.\<close>

definition keys_of :: "('k \<times> 'v) list \<Rightarrow> 'k set" where
  "keys_of m = fst ` set m"

lemma keys_of_simps [simp]:
  "keys_of [] = {}"
  "keys_of ((k, v) # m) = insert k (keys_of m)"
  "keys_of (AList.update k v m) = insert k (keys_of m)"
  "keys_of (AList.delete k m) = keys_of m - {k}"
  "keys_of (map (\<lambda>(k, v). (k, f k v)) m) = keys_of m"
  using arg_cong [OF AList.delete_keys [of k m], of set]
  by (simp_all add: keys_of_def AList.dom_update image_image case_prod_beta)

lemma map_of_keys: "map_of m k = None \<longleftrightarrow> k \<notin> keys_of m" "map_of m k = Some v \<Longrightarrow> k \<in> keys_of m"
  by (auto simp: keys_of_def map_of_eq_None_iff dest: map_of_SomeD intro: rev_image_eqI)

section \<open>Counters\<close>

lemma unat_max64: "unat (- 1 :: 64 word) = 2 ^ 64 - 1"
  by (simp add: unsigned_minus_1_eq_mask mask_eq_exp_minus_1)

lemma unat_Suc_word: "a < (- 1 :: 'a :: len word) \<Longrightarrow> unat (a + 1) = unat a + 1"
proof -
  assume "a < - 1"
  then have "1 + a \<noteq> 0" using max_word_wrap [of a] by (auto simp: add.commute)
  from unatSuc [OF this] show ?thesis by (simp add: add.commute)
qed

lemma less_Suc_word: "a < (- 1 :: 'a :: len word) \<Longrightarrow> s < a + 1 \<longleftrightarrow> s \<le> a"
  using unat_Suc_word [of a] by (auto simp: word_less_nat_alt word_le_nat_alt)

section \<open>Filtering loops\<close>

lemma set_map_filter: "set (List.map_filter f xs) = {y. \<exists>x\<in>set xs. f x = Some y}"
  by (induction xs) (auto split: option.splits)

lemma distinct_map_filter_tagged:
  "distinct xs \<Longrightarrow> distinct (map fst (List.map_filter (\<lambda>m. map_option (Pair m) (g m)) xs))"
  by (induction xs) (auto simp: set_map_filter split: option.splits)

lemma filter_eq_single: "distinct xs \<Longrightarrow> x \<in> set xs \<Longrightarrow> filter (\<lambda>y. y = x) xs = [x]"
proof (induction xs)
  case (Cons y ys)
  then show ?case by (cases "y = x") (auto simp: filter_empty_conv)
qed simp

lemma subseq_distinct: "subseq xs ys \<Longrightarrow> distinct ys \<Longrightarrow> distinct xs"
proof (induction rule: list_emb.induct)
  case (list_emb_Cons2 x y xs ys)
  then have "set xs \<subseteq> set ys" by (auto elim: list_emb_set)
  with list_emb_Cons2 show ?case by auto
qed auto

lemma subseq_set: "subseq xs ys \<Longrightarrow> set xs \<subseteq> set ys"
  by (auto elim: list_emb_set)

section \<open>Numbered file names\<close>

text \<open>
  \<^verbatim>\<open>fmt.Sprintf("%s-%d.wal", prefix, seq)\<close> and
  \<^verbatim>\<open>fmt.Sscanf(name, prefix+"-%d.wal", &seq)\<close> for a \<^verbatim>\<open>uint64\<close>: the scan
  needs the literal prefix, at least one digit, a value below \<open>2 ^ 64\<close> and the literal suffix,
  and ignores what follows. The prefix has no \<^verbatim>\<open>%\<close> and no wildcard, and names with
  blanks before the digits (which \<^verbatim>\<open>Sscanf\<close> skips) do not occur.
\<close>

definition digit :: "nat \<Rightarrow> char" where "digit d = char_of (48 + d)"

definition is_digit :: "char \<Rightarrow> bool" where
  "is_digit c \<longleftrightarrow> 48 \<le> (of_char c :: nat) \<and> (of_char c :: nat) \<le> 57"

fun decimal :: "nat \<Rightarrow> string" where
  "decimal n = (if n < 10 then [digit n] else decimal (n div 10) @ [digit (n mod 10)])"

declare decimal.simps [simp del]

definition undecimal :: "string \<Rightarrow> nat" where
  "undecimal ds = foldl (\<lambda>a c. a * 10 + (of_char c - 48)) 0 ds"

definition numbered_name :: "string \<Rightarrow> string \<Rightarrow> 64 word \<Rightarrow> string" where
  "numbered_name pre suf seq = pre @ ''-'' @ decimal (unat seq) @ suf"

definition scan_name :: "string \<Rightarrow> string \<Rightarrow> string \<Rightarrow> 64 word option" where
  "scan_name pre suf name =
     (if \<not> prefix (pre @ ''-'') name then None
      else let rest = drop (length pre + 1) name;
               ds = takeWhile is_digit rest
           in if ds \<noteq> [] \<and> undecimal ds < 2 ^ 64 \<and> prefix suf (dropWhile is_digit rest)
              then Some (word_of_nat (undecimal ds)) else None)"

text \<open>\<^verbatim>\<open>filepath.Glob(dir/prefix-*suffix)\<close>: the matching names in lexical order.\<close>

definition glob_names :: "string \<Rightarrow> string \<Rightarrow> string list \<Rightarrow> string list" where
  "glob_names pre suf names =
     sort (filter (\<lambda>n. prefix (pre @ ''-'') n \<and> suffix suf n \<and>
                       length pre + 1 + length suf \<le> length n) names)"

lemma of_char_digit: "d < 10 \<Longrightarrow> (of_char (digit d) :: nat) = 48 + d"
  by (simp add: digit_def)

lemma is_digit_digit [simp]: "d < 10 \<Longrightarrow> is_digit (digit d)"
  by (simp add: is_digit_def of_char_digit)

lemma decimal_digits: "list_all is_digit (decimal n)"
  by (induction n rule: decimal.induct) (subst decimal.simps, auto)

lemma decimal_nonempty [simp]: "decimal n \<noteq> []"
  by (subst decimal.simps) simp

lemma undecimal_decimal [simp]: "undecimal (decimal n) = n"
proof (induction n rule: decimal.induct)
  case (1 n)
  show ?case
  proof (cases "n < 10")
    case True
    then show ?thesis by (subst decimal.simps) (simp add: undecimal_def of_char_digit)
  next
    case False
    with 1 have "undecimal (decimal (n div 10)) = n div 10" by simp
    with False show ?thesis by (subst decimal.simps) (simp add: undecimal_def of_char_digit)
  qed
qed

definition plain_suffix :: "string \<Rightarrow> bool" where
  "plain_suffix suf \<longleftrightarrow> suf \<noteq> [] \<and> \<not> is_digit (hd suf)"

lemma takeWhile_digits:
  "list_all is_digit ds \<Longrightarrow> plain_suffix suf \<Longrightarrow>
     takeWhile is_digit (ds @ suf) = ds \<and> dropWhile is_digit (ds @ suf) = suf"
  by (induction ds) (cases suf; auto simp: plain_suffix_def)+

text \<open>A printed name scans back to its number, so names of different numbers differ.\<close>

lemma scan_numbered_name [simp]: "plain_suffix suf \<Longrightarrow> scan_name pre suf (numbered_name pre suf seq) = Some seq"
  using takeWhile_digits [OF decimal_digits, of suf "unat seq"] unsigned_less [of seq, where ?'a = nat]
  by (simp add: scan_name_def numbered_name_def)

lemma numbered_name_inject [simp]:
  "plain_suffix suf \<Longrightarrow> numbered_name pre suf a = numbered_name pre suf b \<longleftrightarrow> a = b"
  using scan_numbered_name by (metis option.inject)

lemma glob_numbered_name [simp]:
  "numbered_name pre suf seq \<in> set (glob_names pre suf names) \<longleftrightarrow> numbered_name pre suf seq \<in> set names"
  by (auto simp: glob_names_def numbered_name_def suffix_def)

end
