(* ===== verification/Entity_Codec.thy ===== *)
theory Entity_Codec
  imports Alli_Prelude "HOL-Library.Sublist"
begin

text \<open>
  The data model of \<^verbatim>\<open>src/core/entity\<close> and its binary format: graph edges
  (\<^verbatim>\<open>edge.go\<close>), text chunks (\<^verbatim>\<open>chunk.go\<close>) and unified entities with their
  versioned embeddings (\<^verbatim>\<open>entity.go\<close>).

  \<open>X_ToBytes\<close> is the encoder as written: a computed size, then writes into a buffer of that
  size. \<open>X_enc\<close> is its specification, the concatenation of the fields; \<open>X_ToBytes_enc\<close>
  shows that the size is exact. \<open>X_FromBytes\<close> is the decoder, with each guard and error.
  A method that locks the entity's mutex runs as one step. A method that returns
  \<^verbatim>\<open>time.Now()\<close> into the entity takes the readings of the clock as arguments. A decoder
  that returns an error leaves its receiver half filled; the callers drop it, and so does the model.
  Memory is not bounded, and the JSON methods (reflection of \<^verbatim>\<open>encoding/json\<close>) are left out.
\<close>

section \<open>Graph edges\<close>

record GraphEdge =
  FromEntity :: string
  ToEntity :: string
  Relation :: string
  Weight :: float64
  edge_Timestamp :: time

definition edge_fields :: "GraphEdge \<Rightarrow> bytes list" where
  "edge_fields e =
     [put_u32 (len32 (FromEntity e)), bytes_of (FromEntity e),
      put_u32 (len32 (ToEntity e)), bytes_of (ToEntity e),
      put_u32 (len32 (Relation e)), bytes_of (Relation e),
      put_u64 (Weight e),
      put_u64 (UnixNano (edge_Timestamp e))]"

definition edge_ToBytes :: "GraphEdge \<Rightarrow> bytes go" where
  "edge_ToBytes e =
     fill_buffer
       (4 + length (FromEntity e) + 4 + length (ToEntity e) + 4 + length (Relation e) + 8 + 8)
       (edge_fields e)"

definition edge_FromBytes :: "bytes \<Rightarrow> GraphEdge go" where
  "edge_FromBytes data =
     rbind (read_string ''insufficient data for from entity length''
              ''insufficient data for from entity'' data 0) (\<lambda>(from, off).
     rbind (read_string ''insufficient data for to entity length''
              ''insufficient data for to entity'' data off) (\<lambda>(to, off).
     rbind (read_string ''insufficient data for relation length''
              ''insufficient data for relation'' data off) (\<lambda>(rel, off).
     rbind (read_u64 ''insufficient data for weight'' data off) (\<lambda>(bits, off).
     rbind (read_u64 ''insufficient data for timestamp'' data off) (\<lambda>(nanos, off).
     Inr \<lparr>FromEntity = from, ToEntity = to, Relation = rel, Weight = bits,
          edge_Timestamp = time_Unix0 nanos\<rparr>)))))"

definition edge_enc :: "GraphEdge \<Rightarrow> bytes" where
  "edge_enc e = concat (edge_fields e)"

definition edge_ok :: "GraphEdge \<Rightarrow> bool" where
  "edge_ok e \<longleftrightarrow> fits32 (FromEntity e) \<and> fits32 (ToEntity e) \<and> fits32 (Relation e) \<and>
     representable (edge_Timestamp e)"

lemma edge_ToBytes_enc [simp]: "edge_ToBytes e = Inr (edge_enc e)"
  unfolding edge_ToBytes_def edge_enc_def by (rule fill_buffer_exact) (simp add: edge_fields_def)

lemma length_edge_enc:
  "length (edge_enc e) = 28 + length (FromEntity e) + length (ToEntity e) + length (Relation e)"
  by (simp add: edge_enc_def edge_fields_def)

lemma edge_enc_strings: "edge_enc e =
    put_string (FromEntity e) @ put_string (ToEntity e) @ put_string (Relation e) @
    put_u64 (Weight e) @ put_u64 (UnixNano (edge_Timestamp e))"
  by (simp add: edge_enc_def edge_fields_def put_string_def)

lemma edge_FromBytes_holds:
  assumes "edge_ok e" and "holds data 0 (edge_enc e)"
  shows "edge_FromBytes data = Inr e"
proof -
  from assms(2) have h:
    "holds data 0 (put_string (FromEntity e))"
    "holds data (4 + length (FromEntity e)) (put_string (ToEntity e))"
    "holds data (4 + length (FromEntity e) + (4 + length (ToEntity e))) (put_string (Relation e))"
    "holds data (4 + length (FromEntity e) + (4 + length (ToEntity e)) + (4 + length (Relation e)))
       (put_u64 (Weight e))"
    "holds data (4 + length (FromEntity e) + (4 + length (ToEntity e)) + (4 + length (Relation e)) + 8)
       (put_u64 (UnixNano (edge_Timestamp e)))"
    by (simp_all add: edge_enc_strings)
  from assms(1) have ok: "fits32 (FromEntity e)" "fits32 (ToEntity e)" "fits32 (Relation e)"
    "representable (edge_Timestamp e)"
    by (simp_all add: edge_ok_def)
  show ?thesis
    by (simp only: edge_FromBytes_def read_string_holds [OF h(1) ok(1)] read_string_holds [OF h(2) ok(2)]
        read_string_holds [OF h(3) ok(3)] read_u64_holds [OF h(4)] read_u64_holds [OF h(5)]
        rbind_simps prod.case add_0 time_roundtrip [OF ok(4)]) simp
qed

lemma edge_FromBytes_length:
  "edge_FromBytes data = Inr e \<Longrightarrow> length (edge_enc e) \<le> length data"
  by (auto simp: edge_FromBytes_def rbind_eq_Inr read_u64_Inr length_edge_enc dest!: read_string_Inr)

lemma edge_FromBytes_no_panic [no_panic]: "edge_FromBytes data \<noteq> Inl Panic"
  by (auto simp: edge_FromBytes_def no_panic rbind_eq_Inl)

text \<open>
  The loop body of the entity decoder: decode an edge from \<^verbatim>\<open>data[offset:]\<close>, then encode it
  again to find how many bytes it took.
\<close>

definition edge_at :: "string \<Rightarrow> bytes \<Rightarrow> nat \<Rightarrow> (GraphEdge \<times> nat) go" where
  "edge_at msg data off =
     rbind (slice_from data off) (\<lambda>rest.
     rbind (rwrap msg (edge_FromBytes rest)) (\<lambda>e.
     rbind (edge_ToBytes e) (\<lambda>edgeBytes. Inr (e, off + length edgeBytes))))"

interpretation edge: codec edge_enc "edge_at msg" edge_ok
proof
  fix e data off
  assume "edge_ok e" and h: "holds data off (edge_enc e)"
  from h have off: "off \<le> length data" using holds_bound by fastforce
  with h have "holds (drop off data) 0 (edge_enc e)" by (simp add: holds_drop)
  with \<open>edge_ok e\<close> off show "edge_at msg data off = Inr (e, off + length (edge_enc e))"
    by (simp add: edge_at_def slice_from_Inr edge_FromBytes_holds)
next
  fix data :: bytes and off
  assume "off \<le> length data"
  then show "edge_at msg data off \<noteq> Inl Panic"
    by (auto simp: edge_at_def slice_from_Inr rbind_eq_Inl no_panic)
next
  fix data :: bytes and off e off'
  assume "off \<le> length data" "edge_at msg data off = Inr (e, off')"
  then show "off \<le> off' \<and> off' \<le> length data"
    using edge_FromBytes_length [of "drop off data" e]
    by (auto simp: edge_at_def slice_from_Inr rbind_eq_Inr)
qed

section \<open>Text chunks\<close>

text \<open>
  The metadata map is the list of its entries in the order in which the loop
  \<^verbatim>\<open>for k, v := range c.Metadata\<close> meets them (any order of the map); its keys are distinct.
  An assignment \<^verbatim>\<open>m[k] = v\<close> is \<open>AList.update\<close>.
\<close>

record TextChunk =
  ChunkID :: string
  Text :: string
  Metadata :: "(string \<times> string) list"

definition chunk_Size :: "TextChunk \<Rightarrow> nat" where
  "chunk_Size c =
     length (ChunkID c) + 8 + (length (Text c) + 8) + 24 +
     sum_list (map (\<lambda>(k, v). length k + length v + 16) (Metadata c))"

definition metadata_size :: "(string \<times> string) list \<Rightarrow> nat" where
  "metadata_size md = sum_list (map (\<lambda>(k, v). 4 + length k + 4 + length v) md)"

definition metadata_fields :: "(string \<times> string) list \<Rightarrow> bytes list" where
  "metadata_fields md =
     concat (map (\<lambda>(k, v). [put_u32 (len32 k), bytes_of k, put_u32 (len32 v), bytes_of v]) md)"

definition chunk_fields :: "TextChunk \<Rightarrow> bytes list" where
  "chunk_fields c =
     [put_u32 (len32 (ChunkID c)), bytes_of (ChunkID c),
      put_u32 (len32 (Text c)), bytes_of (Text c),
      put_u32 (len32 (Metadata c))] @
     metadata_fields (Metadata c)"

definition chunk_ToBytes :: "TextChunk \<Rightarrow> bytes go" where
  "chunk_ToBytes c =
     fill_buffer (4 + length (ChunkID c) + 4 + length (Text c) + 4 + metadata_size (Metadata c))
       (chunk_fields c)"

fun metadata_loop ::
  "nat \<Rightarrow> bytes \<Rightarrow> nat \<Rightarrow> (string \<times> string) list \<Rightarrow> ((string \<times> string) list \<times> nat) go" where
  "metadata_loop 0 data off md = Inr (md, off)"
| "metadata_loop (Suc n) data off md =
     rbind (read_string ''insufficient data for metadata key length''
              ''insufficient data for metadata key'' data off) (\<lambda>(key, off).
     rbind (read_string ''insufficient data for metadata value length''
              ''insufficient data for metadata value'' data off) (\<lambda>(val, off).
     metadata_loop n data off (AList.update key val md)))"

definition chunk_FromBytes :: "bytes \<Rightarrow> TextChunk go" where
  "chunk_FromBytes data =
     rbind (read_string ''insufficient data for chunk ID length''
              ''insufficient data for chunk ID'' data 0) (\<lambda>(cid, off).
     rbind (read_string ''insufficient data for text length''
              ''insufficient data for text'' data off) (\<lambda>(txt, off).
     rbind (read_u32 ''insufficient data for metadata count'' data off) (\<lambda>(metadataCount, off).
     rbind (metadata_loop (unat metadataCount) data off []) (\<lambda>(md, off).
     Inr \<lparr>ChunkID = cid, Text = txt, Metadata = md\<rparr>))))"

definition chunk_enc :: "TextChunk \<Rightarrow> bytes" where
  "chunk_enc c = concat (chunk_fields c)"

definition chunk_ok :: "TextChunk \<Rightarrow> bool" where
  "chunk_ok c \<longleftrightarrow> fits32 (ChunkID c) \<and> fits32 (Text c) \<and> fits32 (Metadata c) \<and>
     list_all (\<lambda>(k, v). fits32 k \<and> fits32 v) (Metadata c) \<and> distinct (map fst (Metadata c))"

abbreviation metadata_enc :: "(string \<times> string) list \<Rightarrow> bytes" where
  "metadata_enc md \<equiv> concat (metadata_fields md)"

lemma metadata_enc_simps [simp]:
  "metadata_enc [] = []"
  "metadata_enc ((k, v) # md) = put_string k @ put_string v @ metadata_enc md"
  by (simp_all add: metadata_fields_def put_string_def)

lemma length_metadata_enc [simp]: "length (metadata_enc md) = metadata_size md"
  by (induction md) (auto simp: metadata_size_def metadata_fields_def)

lemma chunk_enc_strings: "chunk_enc c =
    put_string (ChunkID c) @ put_string (Text c) @ put_u32 (len32 (Metadata c)) @
    metadata_enc (Metadata c)"
  by (simp add: chunk_enc_def chunk_fields_def put_string_def)

lemma length_chunk_enc:
  "length (chunk_enc c) = 12 + length (ChunkID c) + length (Text c) + metadata_size (Metadata c)"
  by (simp add: chunk_enc_strings)

lemma chunk_ToBytes_enc [simp]: "chunk_ToBytes c = Inr (chunk_enc c)"
  unfolding chunk_ToBytes_def chunk_enc_def
  by (rule fill_buffer_exact) (simp add: length_chunk_enc flip: chunk_enc_def)

lemma metadata_loop_holds:
  assumes "list_all (\<lambda>(k, v). fits32 k \<and> fits32 v) kvs" and "holds data off (metadata_enc kvs)"
  shows "metadata_loop (length kvs) data off md
       = Inr (fold (\<lambda>(k, v). AList.update k v) kvs md, off + metadata_size kvs)"
  using assms
proof (induction kvs arbitrary: off md)
  case Nil
  then show ?case by (simp add: metadata_size_def)
next
  case (Cons kv kvs)
  obtain k v where kv: "kv = (k, v)" by (cases kv)
  with Cons.prems have ok: "fits32 k" "fits32 v" "list_all (\<lambda>(k, v). fits32 k \<and> fits32 v) kvs"
    and h: "holds data off (put_string k)" "holds data (off + (4 + length k)) (put_string v)"
      "holds data (off + (4 + length k) + (4 + length v)) (metadata_enc kvs)"
    by simp_all
  from Cons.IH [OF ok(3) h(3)] show ?case
    by (simp add: kv read_string_holds [OF h(1) ok(1)] read_string_holds [OF h(2) ok(2)]
        metadata_size_def add.assoc)
qed

lemma metadata_loop_Inr:
  "metadata_loop n data off md = Inr (md', off') \<Longrightarrow> off \<le> length data \<Longrightarrow>
     off \<le> off' \<and> off' \<le> length data \<and> metadata_size md' + off \<le> metadata_size md + off' \<and>
     (distinct (map fst md) \<longrightarrow> distinct (map fst md'))"
proof (induction n arbitrary: off md)
  case 0
  then show ?case by simp
next
  case (Suc n)
  from Suc.prems(1) obtain k o1 v o2 where
    k: "read_string ''insufficient data for metadata key length''
              ''insufficient data for metadata key'' data off = Inr (k, o1)"
    and v: "read_string ''insufficient data for metadata value length''
              ''insufficient data for metadata value'' data o1 = Inr (v, o2)"
    and r: "metadata_loop n data o2 (AList.update k v md) = Inr (md', off')"
    by (auto simp: rbind_eq_Inr)
  have "metadata_size (AList.update k v md) \<le> metadata_size md + (4 + length k + 4 + length v)"
    unfolding metadata_size_def
    by (rule order_trans [OF alist_update_weight]) simp
  with Suc.IH [OF r] read_string_Inr [OF k] read_string_Inr [OF v] show ?case by auto
qed

lemma metadata_loop_no_panic [no_panic]: "metadata_loop n data off md \<noteq> Inl Panic"
  by (induction n arbitrary: off md) (auto simp: rbind_eq_Inl no_panic)

lemma chunk_FromBytes_holds:
  assumes "chunk_ok c" and "holds data 0 (chunk_enc c)"
  shows "chunk_FromBytes data = Inr c"
proof -
  from assms(2) have h:
    "holds data 0 (put_string (ChunkID c))"
    "holds data (4 + length (ChunkID c)) (put_string (Text c))"
    "holds data (4 + length (ChunkID c) + (4 + length (Text c))) (put_u32 (len32 (Metadata c)))"
    "holds data (4 + length (ChunkID c) + (4 + length (Text c)) + 4) (metadata_enc (Metadata c))"
    by (simp_all add: chunk_enc_strings)
  from assms(1) have ok: "fits32 (ChunkID c)" "fits32 (Text c)" "fits32 (Metadata c)"
    "list_all (\<lambda>(k, v). fits32 k \<and> fits32 v) (Metadata c)"
    "distinct (map fst ([] @ Metadata c))"
    by (simp_all add: chunk_ok_def)
  show ?thesis
    by (simp only: chunk_FromBytes_def read_string_holds [OF h(1) ok(1)] read_string_holds [OF h(2) ok(2)]
        read_u32_holds [OF h(3)] unat_len32 [OF ok(3)] metadata_loop_holds [OF ok(4) h(4)]
        alist_fold_update_fresh [OF ok(5)] rbind_simps prod.case add_0) simp
qed

lemma chunk_FromBytes_length:
  assumes "chunk_FromBytes data = Inr c"
  shows "length (chunk_enc c) \<le> length data"
proof -
  from assms obtain cid o1 str o2 md o4 where
    r: "read_string ''insufficient data for chunk ID length'' ''insufficient data for chunk ID'' data 0
          = Inr (cid, o1)"
      "read_string ''insufficient data for text length'' ''insufficient data for text'' data o1
          = Inr (str, o2)"
    and n: "o2 + 4 \<le> length data"
      "metadata_loop (unat (get_u32 (take 4 (drop o2 data)))) data (o2 + 4) [] = Inr (md, o4)"
    and c: "c = \<lparr>ChunkID = cid, Text = str, Metadata = md\<rparr>"
    by (auto simp: chunk_FromBytes_def rbind_eq_Inr read_u32_Inr)
  from read_string_Inr [OF r(1)] read_string_Inr [OF r(2)] metadata_loop_Inr [OF n(2) n(1)]
  show ?thesis by (simp add: length_chunk_enc c metadata_size_def)
qed

text \<open>A decoded chunk is well formed: its metadata is a map and its lengths fit.\<close>

lemma chunk_FromBytes_distinct: "chunk_FromBytes data = Inr c \<Longrightarrow> distinct (map fst (Metadata c))"
  by (auto simp: chunk_FromBytes_def rbind_eq_Inr read_u32_Inr dest!: metadata_loop_Inr)

lemma chunk_FromBytes_no_panic [no_panic]: "chunk_FromBytes data \<noteq> Inl Panic"
  by (auto simp: chunk_FromBytes_def no_panic rbind_eq_Inl)

definition chunk_at :: "string \<Rightarrow> bytes \<Rightarrow> nat \<Rightarrow> (TextChunk \<times> nat) go" where
  "chunk_at msg data off =
     rbind (slice_from data off) (\<lambda>rest.
     rbind (rwrap msg (chunk_FromBytes rest)) (\<lambda>c.
     rbind (chunk_ToBytes c) (\<lambda>chunkBytes. Inr (c, off + length chunkBytes))))"

interpretation chunk: codec chunk_enc "chunk_at msg" chunk_ok
proof
  fix c data off
  assume "chunk_ok c" and h: "holds data off (chunk_enc c)"
  from h have off: "off \<le> length data" using holds_bound by fastforce
  with h have "holds (drop off data) 0 (chunk_enc c)" by (simp add: holds_drop)
  with \<open>chunk_ok c\<close> off show "chunk_at msg data off = Inr (c, off + length (chunk_enc c))"
    by (simp add: chunk_at_def slice_from_Inr chunk_FromBytes_holds)
next
  fix data :: bytes and off
  assume "off \<le> length data"
  then show "chunk_at msg data off \<noteq> Inl Panic"
    by (auto simp: chunk_at_def slice_from_Inr rbind_eq_Inl no_panic)
next
  fix data :: bytes and off c off'
  assume "off \<le> length data" "chunk_at msg data off = Inr (c, off')"
  then show "off \<le> off' \<and> off' \<le> length data"
    using chunk_FromBytes_length [of "drop off data" c]
    by (auto simp: chunk_at_def slice_from_Inr rbind_eq_Inr)
qed

section \<open>Embeddings\<close>

text \<open>The version is an int64, kept as its 64 bits.\<close>

record VectorEmbedding =
  Version :: "64 word"
  Vector :: "float32 list"
  emb_Timestamp :: time

definition embedding_fields :: "VectorEmbedding \<Rightarrow> bytes list" where
  "embedding_fields emb =
     [put_u64 (Version emb), put_u64 (UnixNano (emb_Timestamp emb)), put_u32 (len32 (Vector emb))] @
     map put_u32 (Vector emb)"

text \<open>The inner loop reads the floats without a guard of its own.\<close>

definition float_at :: "bytes \<Rightarrow> nat \<Rightarrow> (float32 \<times> nat) go" where
  "float_at data off = rbind (slice data off (off + 4)) (\<lambda>b. Inr (get_u32 b, off + 4))"

definition embedding_at :: "bytes \<Rightarrow> nat \<Rightarrow> (VectorEmbedding \<times> nat) go" where
  "embedding_at data off =
     rbind (read_u64 ''insufficient data for embedding version'' data off) (\<lambda>(version, off).
     rbind (read_u64 ''insufficient data for embedding timestamp'' data off) (\<lambda>(nanos, off).
     rbind (read_u32 ''insufficient data for vector length'' data off) (\<lambda>(vectorLen, off).
     if off + unat vectorLen * 4 > length data then Inl (Fail ''insufficient data for vector'')
     else rbind (decode_n float_at (unat vectorLen) data off) (\<lambda>(vec, off).
     Inr (\<lparr>Version = version, Vector = vec, emb_Timestamp = time_Unix0 nanos\<rparr>, off)))))"

definition embedding_enc :: "VectorEmbedding \<Rightarrow> bytes" where
  "embedding_enc emb = concat (embedding_fields emb)"

definition embedding_ok :: "VectorEmbedding \<Rightarrow> bool" where
  "embedding_ok emb \<longleftrightarrow> fits32 (Vector emb) \<and> representable (emb_Timestamp emb)"

lemma length_concat_u32 [simp]: "length (concat (map put_u32 xs)) = length xs * 4"
  by (induction xs) auto

lemma length_embedding_enc: "length (embedding_enc emb) = 8 + 8 + 4 + length (Vector emb) * 4"
  by (simp add: embedding_enc_def embedding_fields_def)

lemma floats_holds:
  "holds data off (concat (map put_u32 vec)) \<Longrightarrow>
     decode_n float_at (length vec) data off = Inr (vec, off + length vec * 4)"
proof (induction vec arbitrary: off)
  case Nil
  then show ?case by simp
next
  case (Cons v vec)
  then have "holds data off (put_u32 v)" by simp
  then have "float_at data off = Inr (v, off + 4)"
    by (simp add: float_at_def slice_def holds_def)
  with Cons show ?case by (simp add: add.assoc)
qed

text \<open>One guard before the loop is enough.\<close>

lemma floats_in_bounds:
  "off + n * 4 \<le> length data \<Longrightarrow> \<exists>vec. decode_n float_at n data off = Inr (vec, off + n * 4)"
proof (induction n arbitrary: off)
  case 0
  then show ?case by simp
next
  case (Suc n)
  then have f: "float_at data off = Inr (get_u32 (take 4 (drop off data)), off + 4)"
    by (simp add: float_at_def slice_def)
  from Suc.prems Suc.IH [of "off + 4"] f show ?case by (auto simp: add.assoc)
qed

lemma embedding_at_cases:
  obtains (err) s where "embedding_at data off = Inl (Fail s)"
  | (ok) emb off' where "embedding_at data off = Inr (emb, off')" "off \<le> off'" "off' \<le> length data"
proof (cases "off + 20 \<le> length data")
  case False
  then have "\<exists>s. embedding_at data off = Inl (Fail s)"
    by (auto simp: embedding_at_def read_u64_eq read_u32_eq)
  then show ?thesis using that(1) by blast
next
  case True
  define n where "n = unat (get_u32 (take 4 (drop (off + 16) data)))"
  from True have e: "embedding_at data off =
     (if off + 20 + n * 4 > length data then Inl (Fail ''insufficient data for vector'')
      else rbind (decode_n float_at n data (off + 20)) (\<lambda>(vec, o').
        Inr (\<lparr>Version = get_u64 (take 8 (drop off data)), Vector = vec,
          emb_Timestamp = time_Unix0 (get_u64 (take 8 (drop (off + 8) data)))\<rparr>, o')))"
    by (simp add: embedding_at_def read_u64_eq read_u32_eq n_def add.commute)
  show ?thesis
  proof (cases "off + 20 + n * 4 > length data")
    case True
    with e show ?thesis using that(1) by simp
  next
    case False
    then obtain vec where "decode_n float_at n data (off + 20) = Inr (vec, off + 20 + n * 4)"
      using floats_in_bounds [of "off + 20" n data] by auto
    with e False show ?thesis using that(2) by simp
  qed
qed

interpretation embedding: codec embedding_enc embedding_at embedding_ok
proof
  fix emb data off
  assume ok: "embedding_ok emb" and h: "holds data off (embedding_enc emb)"
  from h have h':
    "holds data off (put_u64 (Version emb))"
    "holds data (off + 8) (put_u64 (UnixNano (emb_Timestamp emb)))"
    "holds data (off + 8 + 8) (put_u32 (len32 (Vector emb)))"
    "holds data (off + 8 + 8 + 4) (concat (map put_u32 (Vector emb)))"
    by (simp_all add: embedding_enc_def embedding_fields_def add.assoc)
  from ok have "fits32 (Vector emb)" "representable (emb_Timestamp emb)"
    by (simp_all add: embedding_ok_def)
  then have ok': "unat (len32 (Vector emb)) = length (Vector emb)"
    "time_Unix0 (UnixNano (emb_Timestamp emb)) = emb_Timestamp emb"
    by simp_all
  from holds_bound [OF h'(4)] show "embedding_at data off = Inr (emb, off + length (embedding_enc emb))"
    by (simp only: embedding_at_def read_u64_holds [OF h'(1)] read_u64_holds [OF h'(2)]
        read_u32_holds [OF h'(3)] floats_holds [OF h'(4)] rbind_simps prod.case ok')
      (simp add: length_embedding_enc)
next
  fix data :: bytes and off
  show "embedding_at data off \<noteq> Inl Panic"
    by (cases rule: embedding_at_cases [of data off]) auto
next
  fix data :: bytes and off emb off'
  assume "embedding_at data off = Inr (emb, off')"
  then show "off \<le> off' \<and> off' \<le> length data"
    by (cases rule: embedding_at_cases [of data off]) auto
qed

section \<open>Unified entities\<close>

record UnifiedEntity =
  EntityID :: string
  TenantID :: string
  EntityType :: string
  Embeddings :: "VectorEmbedding list"
  IncomingEdges :: "GraphEdge list"
  OutgoingEdges :: "GraphEdge list"
  Chunks :: "TextChunk list"
  Importance :: float64
  CreatedAt :: time
  UpdatedAt :: time

subsection \<open>Construction and updates\<close>

definition NewUnifiedEntity :: "time \<Rightarrow> string \<Rightarrow> string \<Rightarrow> string \<Rightarrow> UnifiedEntity" where
  "NewUnifiedEntity now entityID tenantID entityType =
     \<lparr>EntityID = entityID, TenantID = tenantID, EntityType = entityType,
      Embeddings = [], IncomingEdges = [], OutgoingEdges = [], Chunks = [],
      Importance = 0, CreatedAt = now, UpdatedAt = now\<rparr>"

definition AddEmbedding :: "time \<Rightarrow> time \<Rightarrow> float32 list \<Rightarrow> UnifiedEntity \<Rightarrow> UnifiedEntity" where
  "AddEmbedding now1 now2 vec e =
     (let version = word_of_nat (length (Embeddings e)) + 1;
          embedding = \<lparr>Version = version, Vector = vec, emb_Timestamp = now1\<rparr>
      in e\<lparr>Embeddings := Embeddings e @ [embedding], UpdatedAt := now2\<rparr>)"

definition AddIncomingEdge :: "time \<Rightarrow> GraphEdge \<Rightarrow> UnifiedEntity \<Rightarrow> UnifiedEntity" where
  "AddIncomingEdge now edge e = e\<lparr>IncomingEdges := IncomingEdges e @ [edge], UpdatedAt := now\<rparr>"

definition AddOutgoingEdge :: "time \<Rightarrow> GraphEdge \<Rightarrow> UnifiedEntity \<Rightarrow> UnifiedEntity" where
  "AddOutgoingEdge now edge e = e\<lparr>OutgoingEdges := OutgoingEdges e @ [edge], UpdatedAt := now\<rparr>"

definition AddChunk :: "time \<Rightarrow> TextChunk \<Rightarrow> UnifiedEntity \<Rightarrow> UnifiedEntity" where
  "AddChunk now chunk e = e\<lparr>Chunks := Chunks e @ [chunk], UpdatedAt := now\<rparr>"

definition SetImportance :: "time \<Rightarrow> float64 \<Rightarrow> UnifiedEntity \<Rightarrow> UnifiedEntity" where
  "SetImportance now score e = e\<lparr>Importance := score, UpdatedAt := now\<rparr>"

text \<open>The getters return copies; as values a copy is the original.\<close>

definition GetEmbeddings :: "UnifiedEntity \<Rightarrow> VectorEmbedding list" where
  "GetEmbeddings e =
     map (\<lambda>emb. \<lparr>Version = Version emb, Vector = Vector emb, emb_Timestamp = emb_Timestamp emb\<rparr>)
       (Embeddings e)"

definition GetLatestEmbedding :: "UnifiedEntity \<Rightarrow> VectorEmbedding option" where
  "GetLatestEmbedding e =
     (if length (Embeddings e) = 0 then None
      else let latest = Embeddings e ! (length (Embeddings e) - 1)
           in Some \<lparr>Version = Version latest, Vector = Vector latest, emb_Timestamp = emb_Timestamp latest\<rparr>)"

lemma GetEmbeddings_eq [simp]: "GetEmbeddings e = Embeddings e"
  by (simp add: GetEmbeddings_def map_idI)

lemma GetLatestEmbedding_eq:
  "GetLatestEmbedding e = (if Embeddings e = [] then None else Some (last (Embeddings e)))"
  by (simp add: GetLatestEmbedding_def Let_def last_conv_nth)

text \<open>The updates an entity can go through, in any order and number.\<close>

inductive evolves :: "UnifiedEntity \<Rightarrow> UnifiedEntity \<Rightarrow> bool" where
  ev_refl: "evolves e e"
| ev_embedding: "evolves e f \<Longrightarrow> evolves e (AddEmbedding now1 now2 vec f)"
| ev_incoming: "evolves e f \<Longrightarrow> evolves e (AddIncomingEdge now edge f)"
| ev_outgoing: "evolves e f \<Longrightarrow> evolves e (AddOutgoingEdge now edge f)"
| ev_chunk: "evolves e f \<Longrightarrow> evolves e (AddChunk now chunk f)"
| ev_importance: "evolves e f \<Longrightarrow> evolves e (SetImportance now score f)"

lemmas entity_update_defs =
  AddEmbedding_def AddIncomingEdge_def AddOutgoingEdge_def AddChunk_def SetImportance_def Let_def

definition versions_counted :: "UnifiedEntity \<Rightarrow> bool" where
  "versions_counted e \<longleftrightarrow>
     map Version (Embeddings e) = map (\<lambda>i. word_of_nat (Suc i)) [0..<length (Embeddings e)]"

lemma versions_counted_evolves: "evolves e f \<Longrightarrow> versions_counted e \<Longrightarrow> versions_counted f"
  by (induction rule: evolves.induct) (auto simp: versions_counted_def entity_update_defs)

lemma versions_counted_new: "versions_counted (NewUnifiedEntity now i t ty)"
  by (simp add: versions_counted_def NewUnifiedEntity_def)

lemma evolves_append_only:
  "evolves e f \<Longrightarrow>
     prefix (Embeddings e) (Embeddings f) \<and> prefix (IncomingEdges e) (IncomingEdges f) \<and>
     prefix (OutgoingEdges e) (OutgoingEdges f) \<and> prefix (Chunks e) (Chunks f) \<and>
     EntityID f = EntityID e \<and> TenantID f = TenantID e \<and> EntityType f = EntityType e \<and>
     CreatedAt f = CreatedAt e"
  by (induction rule: evolves.induct) (auto simp: entity_update_defs intro: prefix_append)

lemma versions_counted_last:
  assumes "versions_counted e" and "Embeddings e \<noteq> []"
  shows "Version (last (Embeddings e)) = word_of_nat (length (Embeddings e))"
proof -
  have "Version (last (Embeddings e)) = last (map Version (Embeddings e))"
    using assms(2) by (simp add: last_map)
  moreover obtain n where "length (Embeddings e) = Suc n"
    using assms(2) by (cases "length (Embeddings e)") auto
  ultimately show ?thesis using assms(1) by (simp add: versions_counted_def)
qed

subsection \<open>The binary format\<close>

definition entity_fields ::
  "UnifiedEntity \<Rightarrow> bytes list \<Rightarrow> bytes list \<Rightarrow> bytes list \<Rightarrow> bytes list" where
  "entity_fields e incoming outgoing chs =
     [put_u32 (len32 (EntityID e)), bytes_of (EntityID e),
      put_u32 (len32 (TenantID e)), bytes_of (TenantID e),
      put_u32 (len32 (EntityType e)), bytes_of (EntityType e),
      put_u32 (len32 (Embeddings e))] @ concat (map embedding_fields (Embeddings e)) @
     [put_u32 (len32 (IncomingEdges e))] @ incoming @
     [put_u32 (len32 (OutgoingEdges e))] @ outgoing @
     [put_u32 (len32 (Chunks e))] @ chs @
     [put_u64 (Importance e), put_u64 (UnixNano (CreatedAt e)), put_u64 (UnixNano (UpdatedAt e))]"

definition entity_ToBytes :: "UnifiedEntity \<Rightarrow> bytes go" where
  "entity_ToBytes e =
     rbind (go_map edge_ToBytes (IncomingEdges e)) (\<lambda>incoming.
     rbind (go_map edge_ToBytes (OutgoingEdges e)) (\<lambda>outgoing.
     rbind (go_map chunk_ToBytes (Chunks e)) (\<lambda>chs.
     fill_buffer
       (4 + length (EntityID e) + 4 + length (TenantID e) + 4 + length (EntityType e) +
        4 + 4 + 4 + 4 + 8 + 8 + 8 +
        sum_list (map (\<lambda>emb. 8 + 8 + 4 + length (Vector emb) * 4) (Embeddings e)) +
        sum_list (map length incoming) + sum_list (map length outgoing) + sum_list (map length chs))
       (entity_fields e incoming outgoing chs))))"

definition entity_FromBytes :: "bytes \<Rightarrow> UnifiedEntity go" where
  "entity_FromBytes data =
     rbind (read_string ''insufficient data for entity ID length''
              ''insufficient data for entity ID'' data 0) (\<lambda>(eid, off).
     rbind (read_string ''insufficient data for tenant ID length''
              ''insufficient data for tenant ID'' data off) (\<lambda>(tid, off).
     rbind (read_string ''insufficient data for entity type length''
              ''insufficient data for entity type'' data off) (\<lambda>(ty, off).
     rbind (read_u32 ''insufficient data for embeddings count'' data off) (\<lambda>(embeddingsCount, off).
     rbind (decode_n embedding_at (unat embeddingsCount) data off) (\<lambda>(embs, off).
     rbind (read_u32 ''insufficient data for incoming edges count'' data off) (\<lambda>(incomingCount, off).
     rbind (decode_n (edge_at ''failed to decode incoming edge'') (unat incomingCount) data off) (\<lambda>(ins, off).
     rbind (read_u32 ''insufficient data for outgoing edges count'' data off) (\<lambda>(outgoingCount, off).
     rbind (decode_n (edge_at ''failed to decode outgoing edge'') (unat outgoingCount) data off) (\<lambda>(outs, off).
     rbind (read_u32 ''insufficient data for chunks count'' data off) (\<lambda>(chunksCount, off).
     rbind (decode_n (chunk_at ''failed to decode chunk'') (unat chunksCount) data off) (\<lambda>(chs, off).
     rbind (read_u64 ''insufficient data for importance'' data off) (\<lambda>(bits, off).
     rbind (read_u64 ''insufficient data for created at'' data off) (\<lambda>(createdNanos, off).
     rbind (read_u64 ''insufficient data for updated at'' data off) (\<lambda>(updatedNanos, off).
     Inr \<lparr>EntityID = eid, TenantID = tid, EntityType = ty, Embeddings = embs,
          IncomingEdges = ins, OutgoingEdges = outs, Chunks = chs, Importance = bits,
          CreatedAt = time_Unix0 createdNanos, UpdatedAt = time_Unix0 updatedNanos\<rparr>))))))))))))))"

definition entity_enc :: "UnifiedEntity \<Rightarrow> bytes" where
  "entity_enc e =
     put_string (EntityID e) @ put_string (TenantID e) @ put_string (EntityType e) @
     put_u32 (len32 (Embeddings e)) @ concat (map embedding_enc (Embeddings e)) @
     put_u32 (len32 (IncomingEdges e)) @ concat (map edge_enc (IncomingEdges e)) @
     put_u32 (len32 (OutgoingEdges e)) @ concat (map edge_enc (OutgoingEdges e)) @
     put_u32 (len32 (Chunks e)) @ concat (map chunk_enc (Chunks e)) @
     put_u64 (Importance e) @ put_u64 (UnixNano (CreatedAt e)) @ put_u64 (UnixNano (UpdatedAt e))"

definition entity_ok :: "UnifiedEntity \<Rightarrow> bool" where
  "entity_ok e \<longleftrightarrow>
     fits32 (EntityID e) \<and> fits32 (TenantID e) \<and> fits32 (EntityType e) \<and>
     fits32 (Embeddings e) \<and> fits32 (IncomingEdges e) \<and> fits32 (OutgoingEdges e) \<and> fits32 (Chunks e) \<and>
     list_all embedding_ok (Embeddings e) \<and> list_all edge_ok (IncomingEdges e) \<and>
     list_all edge_ok (OutgoingEdges e) \<and> list_all chunk_ok (Chunks e) \<and>
     representable (CreatedAt e) \<and> representable (UpdatedAt e)"

lemma concat_concat_map: "concat (concat (map f xs)) = concat (map (\<lambda>x. concat (f x)) xs)"
  by (induction xs) auto

lemma entity_ToBytes_enc [simp]: "entity_ToBytes e = Inr (entity_enc e)"
proof -
  let ?i = "map edge_enc (IncomingEdges e)" and ?o = "map edge_enc (OutgoingEdges e)"
    and ?c = "map chunk_enc (Chunks e)"
  have embs: "concat (concat (map embedding_fields (Embeddings e))) = concat (map embedding_enc (Embeddings e))"
    by (simp add: concat_concat_map embedding_enc_def [abs_def])
  have enc: "concat (entity_fields e ?i ?o ?c) = entity_enc e"
    by (simp add: entity_fields_def entity_enc_def put_string_def embs)
  have "entity_ToBytes e = Inr (concat (entity_fields e ?i ?o ?c))"
    unfolding entity_ToBytes_def go_map_Inr edge_ToBytes_enc chunk_ToBytes_enc rbind_simps
    by (rule fill_buffer_exact) (simp add: enc, simp add: entity_enc_def length_concat o_def length_embedding_enc)
  with enc show ?thesis by simp
qed

lemma entity_FromBytes_holds:
  assumes ok: "entity_ok e" and h: "holds data 0 (entity_enc e)"
  shows "entity_FromBytes data = Inr e"
proof -
  define o1 where "o1 = 0 + (4 + length (EntityID e))"
  define o2 where "o2 = o1 + (4 + length (TenantID e))"
  define o3 where "o3 = o2 + (4 + length (EntityType e))"
  define o4 where "o4 = o3 + 4 + length (concat (map embedding_enc (Embeddings e)))"
  define o5 where "o5 = o4 + 4 + length (concat (map edge_enc (IncomingEdges e)))"
  define o6 where "o6 = o5 + 4 + length (concat (map edge_enc (OutgoingEdges e)))"
  define o7 where "o7 = o6 + 4 + length (concat (map chunk_enc (Chunks e)))"
  note offsets = o1_def o2_def o3_def o4_def o5_def o6_def o7_def
  from h have h':
    "holds data 0 (put_string (EntityID e))"
    "holds data o1 (put_string (TenantID e))"
    "holds data o2 (put_string (EntityType e))"
    "holds data o3 (put_u32 (len32 (Embeddings e)))"
    "holds data (o3 + 4) (concat (map embedding_enc (Embeddings e)))"
    "holds data o4 (put_u32 (len32 (IncomingEdges e)))"
    "holds data (o4 + 4) (concat (map edge_enc (IncomingEdges e)))"
    "holds data o5 (put_u32 (len32 (OutgoingEdges e)))"
    "holds data (o5 + 4) (concat (map edge_enc (OutgoingEdges e)))"
    "holds data o6 (put_u32 (len32 (Chunks e)))"
    "holds data (o6 + 4) (concat (map chunk_enc (Chunks e)))"
    "holds data o7 (put_u64 (Importance e))"
    "holds data (o7 + 8) (put_u64 (UnixNano (CreatedAt e)))"
    "holds data (o7 + 8 + 8) (put_u64 (UnixNano (UpdatedAt e)))"
    by (simp_all add: entity_enc_def offsets add.assoc)
  from ok have ok':
    "fits32 (EntityID e)" "fits32 (TenantID e)" "fits32 (EntityType e)"
    "list_all embedding_ok (Embeddings e)" "list_all edge_ok (IncomingEdges e)"
    "list_all edge_ok (OutgoingEdges e)" "list_all chunk_ok (Chunks e)"
    and sizes: "unat (len32 (Embeddings e)) = length (Embeddings e)"
    "unat (len32 (IncomingEdges e)) = length (IncomingEdges e)"
    "unat (len32 (OutgoingEdges e)) = length (OutgoingEdges e)"
    "unat (len32 (Chunks e)) = length (Chunks e)"
    and times: "time_Unix0 (UnixNano (CreatedAt e)) = CreatedAt e"
    "time_Unix0 (UnixNano (UpdatedAt e)) = UpdatedAt e"
    by (simp_all add: entity_ok_def)
  note read =
    read_string_holds [OF h'(1) ok'(1), folded o1_def]
    read_string_holds [OF h'(2) ok'(2), folded o2_def]
    read_string_holds [OF h'(3) ok'(3), folded o3_def]
    read_u32_holds [OF h'(4)] embedding.decode_n_enc [OF ok'(4) h'(5), folded o4_def]
    read_u32_holds [OF h'(6)] edge.decode_n_enc [OF ok'(5) h'(7), folded o5_def]
    read_u32_holds [OF h'(8)] edge.decode_n_enc [OF ok'(6) h'(9), folded o6_def]
    read_u32_holds [OF h'(10)] chunk.decode_n_enc [OF ok'(7) h'(11), folded o7_def]
    read_u64_holds [OF h'(12)] read_u64_holds [OF h'(13)] read_u64_holds [OF h'(14)]
  show ?thesis
    by (simp only: entity_FromBytes_def read rbind_simps prod.case sizes times) simp
qed

lemma entity_FromBytes_append:
  "entity_ok e \<Longrightarrow> entity_FromBytes (entity_enc e @ extra) = Inr e"
  by (rule entity_FromBytes_holds) (simp_all add: holds_prefix)

text \<open>Sequencing of cursor reads that stay inside the data.\<close>

definition inside :: "bytes \<Rightarrow> ('a \<times> nat) go \<Rightarrow> bool" where
  "inside data r \<longleftrightarrow> r \<noteq> Inl Panic \<and> (\<forall>x off. r = Inr (x, off) \<longrightarrow> off \<le> length data)"

lemma inside_bind:
  "inside data r \<Longrightarrow> (\<And>x off. off \<le> length data \<Longrightarrow> k (x, off) \<noteq> Inl Panic) \<Longrightarrow> rbind r k \<noteq> Inl Panic"
  by (auto simp: inside_def rbind_eq_Inl)

lemma inside_reads:
  "inside data (read_u32 m data off)" "inside data (read_u64 m data off)"
  "inside data (read_string m m' data off)"
  by (auto simp: inside_def no_panic read_u32_Inr read_u64_Inr dest: read_string_Inr)

lemma inside_decode_n:
  "off \<le> length data \<Longrightarrow> inside data (decode_n embedding_at n data off)"
  "off \<le> length data \<Longrightarrow> inside data (decode_n (edge_at m) n data off)"
  "off \<le> length data \<Longrightarrow> inside data (decode_n (chunk_at m) n data off)"
  by (simp_all add: inside_def embedding.decode_n_total edge.decode_n_total chunk.decode_n_total)
     (blast dest: embedding.decode_n_forward edge.decode_n_forward chunk.decode_n_forward)+

lemma entity_FromBytes_no_panic [no_panic]: "entity_FromBytes data \<noteq> Inl Panic"
  unfolding entity_FromBytes_def
  by (rule inside_bind, (rule inside_reads inside_decode_n, assumption?), unfold prod.case)+ simp

section \<open>Properties\<close>

definition sample_edge :: GraphEdge where
  "sample_edge = \<lparr>FromEntity = ''a'', ToEntity = ''b'', Relation = ''cites'', Weight = 1, edge_Timestamp = 5\<rparr>"

definition sample_entity :: UnifiedEntity where
  "sample_entity =
     \<lparr>EntityID = ''doc1'', TenantID = ''acme'', EntityType = ''note'',
      Embeddings = [\<lparr>Version = 1, Vector = [0x3F800000, 0], emb_Timestamp = 7\<rparr>],
      IncomingEdges = [], OutgoingEdges = [sample_edge],
      Chunks = [\<lparr>ChunkID = ''c0'', Text = ''text'', Metadata = [(''lang'', ''en''), (''page'', ''3'')]\<rparr>],
      Importance = 0x3FE0000000000000, CreatedAt = 7, UpdatedAt = 9\<rparr>"

lemma sample_entity_ok: "entity_ok sample_entity"
  by (simp add: entity_ok_def sample_entity_def sample_edge_def embedding_ok_def edge_ok_def chunk_ok_def
      fits32_def representable_def)



text \<open>C10. Whatever bytes the decoder is given, it returns an entity or an error: no slice it takes
  is out of range, although edges and chunks advance the offset by their re-encoded length.\<close>

theorem entity_decode_total:
  "(\<exists>e. entity_FromBytes data = Inr e) \<or> (\<exists>msg. entity_FromBytes data = Inl (Fail msg))"
proof (cases "entity_FromBytes data")
  case (Inl err)
  with entity_FromBytes_no_panic [of data] show ?thesis by (cases err) auto
next
  case (Inr e)
  then show ?thesis by blast
qed

text \<open>Through any sequence of updates of a new entity, the embeddings carry the versions
  1, 2, 3, ... in order, the latest embedding has the number of embeddings as its version, and
  the lists of the entity only grow at the end while its identity stays.\<close>

theorem embeddings_versioned:
  assumes "evolves (NewUnifiedEntity now i t ty) e" and "evolves e f"
  shows "map Version (GetEmbeddings f) = map (\<lambda>n. word_of_nat (Suc n)) [0..<length (Embeddings f)] \<and>
         (\<forall>emb. GetLatestEmbedding f = Some emb \<longrightarrow> Version emb = word_of_nat (length (Embeddings f))) \<and>
         prefix (Embeddings e) (Embeddings f) \<and> prefix (OutgoingEdges e) (OutgoingEdges f) \<and>
         prefix (IncomingEdges e) (IncomingEdges f) \<and> prefix (Chunks e) (Chunks f) \<and>
         EntityID f = i \<and> TenantID f = t \<and> CreatedAt f = now"
proof -
  have "versions_counted e"
    by (rule versions_counted_evolves [OF assms(1)]) (rule versions_counted_new)
  then have v: "versions_counted f"
    by (rule versions_counted_evolves [OF assms(2)])
  then have "map Version (GetEmbeddings f) = map (\<lambda>n. word_of_nat (Suc n)) [0..<length (Embeddings f)]"
    by (simp add: versions_counted_def)
  moreover have "\<forall>emb. GetLatestEmbedding f = Some emb \<longrightarrow> Version emb = word_of_nat (length (Embeddings f))"
    using versions_counted_last [OF v] by (auto simp: GetLatestEmbedding_eq split: if_splits)
  ultimately show ?thesis
    using evolves_append_only [OF assms(1)] evolves_append_only [OF assms(2)]
    by (simp add: NewUnifiedEntity_def)
qed

lemma embeddings_versioned_witness:
  "map Version (GetEmbeddings (AddEmbedding 3 3 [2] (AddEmbedding 2 2 [1] (NewUnifiedEntity 1 ''a'' ''t'' ''note''))))
     = [1, 2] \<and>
   Version (the (GetLatestEmbedding (AddEmbedding 3 3 [2] (AddEmbedding 2 2 [1] (NewUnifiedEntity 1 ''a'' ''t'' ''note'')))))
     = 2"
proof -
  let ?n = "NewUnifiedEntity 1 ''a'' ''t'' ''note''"
  let ?e = "AddEmbedding 2 2 [1] ?n"
  let ?f = "AddEmbedding 3 3 [2] ?e"
  have ev: "evolves ?n ?e" "evolves ?e ?f" by (intro evolves.intros)+
  have "GetLatestEmbedding ?f = Some (last (Embeddings ?f))"
    by (simp add: GetLatestEmbedding_eq AddEmbedding_def Let_def)
  with embeddings_versioned [OF ev] show ?thesis
    by (simp add: AddEmbedding_def NewUnifiedEntity_def Let_def upt_rec)
qed

end
