(* ===== verification/Memtable.thy ===== *)
theory Memtable
  imports Alli_Prelude
begin

text \<open>
  The in-memory table of \<^verbatim>\<open>src/core/storage/memtable/memtable.go\<close>: for every entity the
  rows put for it, in order, and a running estimate of their size. A write copies the whole table
  under a mutex and swaps a pointer, so a write is one step and a reader sees the table before or
  after it. The row type is an interface of the source: \<open>rid\<close> and \<open>rsize\<close> are its
  methods \<^verbatim>\<open>EntityID\<close> and \<^verbatim>\<open>Size\<close>. Sizes stay below \<open>2 ^ 63\<close>.
\<close>

record 'r Memtable =
  mt_data :: "(string \<times> 'r list) list"
  mt_size :: int
  mt_maxSize :: int

definition mt_New :: "int \<Rightarrow> 'r Memtable" where
  "mt_New maxSize =
     \<lparr>mt_data = [], mt_size = 0, mt_maxSize = (if maxSize \<le> 0 then 64 * 1024 * 1024 else maxSize)\<rparr>"

text \<open>A missing key of a map of slices reads as the empty slice.\<close>

definition rows_at :: "(string \<times> 'r list) list \<Rightarrow> string \<Rightarrow> 'r list" where
  "rows_at d k = (case map_of d k of None \<Rightarrow> [] | Some rs \<Rightarrow> rs)"

definition mt_Put :: "('r \<Rightarrow> string) \<Rightarrow> ('r \<Rightarrow> int) \<Rightarrow> 'r \<Rightarrow> 'r Memtable \<Rightarrow> 'r Memtable" where
  "mt_Put rid rsize row mt =
     (let entityID = rid row;
          copied = map (\<lambda>(k, v). (k, v)) (mt_data mt)
      in mt\<lparr>mt_data := AList.update entityID (rows_at copied entityID @ [row]) copied,
            mt_size := mt_size mt + rsize row\<rparr>)"

definition mt_Get :: "string \<Rightarrow> 'r Memtable \<Rightarrow> 'r list option" where
  "mt_Get entityID mt =
     (let rows = rows_at (mt_data mt) entityID in if length rows = 0 then None else Some rows)"

definition mt_ShouldFlush :: "'r Memtable \<Rightarrow> bool" where
  "mt_ShouldFlush mt \<longleftrightarrow> mt_size mt \<ge> mt_maxSize mt"

definition mt_Reset :: "'r Memtable \<Rightarrow> 'r Memtable" where
  "mt_Reset mt = mt\<lparr>mt_data := [], mt_size := 0\<rparr>"

definition mt_Size :: "'r Memtable \<Rightarrow> int" where
  "mt_Size mt = mt_size mt"

definition mt_Count :: "'r Memtable \<Rightarrow> nat" where
  "mt_Count mt = fold (\<lambda>(k, rows) count. count + length rows) (mt_data mt) 0"

definition mt_EntityCount :: "'r Memtable \<Rightarrow> nat" where
  "mt_EntityCount mt = length (mt_data mt)"

definition mt_GetAllEntities :: "'r Memtable \<Rightarrow> string list" where
  "mt_GetAllEntities mt = map fst (mt_data mt)"

definition mt_GetAllData :: "'r Memtable \<Rightarrow> (string \<times> 'r list) list" where
  "mt_GetAllData mt = map (\<lambda>(k, rows). (k, rows)) (mt_data mt)"

section \<open>Specification\<close>

text \<open>
  A memtable stands for the sequence of the rows put into it. \<open>mt_holds\<close> relates the two:
  every entity has exactly its rows, in the order of the puts, and no entity has an empty entry.
\<close>

definition rows_of :: "('r \<Rightarrow> string) \<Rightarrow> string \<Rightarrow> 'r list \<Rightarrow> 'r list" where
  "rows_of rid k rows = filter (\<lambda>r. rid r = k) rows"

definition mt_holds :: "('r \<Rightarrow> string) \<Rightarrow> ('r \<Rightarrow> int) \<Rightarrow> 'r list \<Rightarrow> 'r Memtable \<Rightarrow> bool" where
  "mt_holds rid rsize rows mt \<longleftrightarrow>
     distinct (map fst (mt_data mt)) \<and>
     (\<forall>k. rows_at (mt_data mt) k = rows_of rid k rows) \<and>
     fst ` set (mt_data mt) = rid ` set rows \<and>
     mt_size mt = sum_list (map rsize rows)"

lemma map_id_pairs [simp]: "map (\<lambda>(k, v). (k, v)) xs = xs"
  by (induction xs) auto

lemma mt_holds_New [simp]: "mt_holds rid rsize [] (mt_New m)"
  by (simp add: mt_holds_def mt_New_def rows_at_def rows_of_def)

lemma mt_holds_Reset [simp]: "mt_holds rid rsize [] (mt_Reset mt)"
  by (simp add: mt_holds_def mt_Reset_def rows_at_def rows_of_def)

lemma mt_holds_Put:
  assumes "mt_holds rid rsize rows mt"
  shows "mt_holds rid rsize (rows @ [row]) (mt_Put rid rsize row mt)"
  using assms
  by (auto simp: mt_holds_def mt_Put_def Let_def rows_at_def rows_of_def AList.dom_update
      split: option.splits if_splits)

lemma mt_holds_Puts:
  "mt_holds rid rsize rows mt \<Longrightarrow> mt_holds rid rsize (rows @ rs) (fold (mt_Put rid rsize) rs mt)"
proof (induction rs arbitrary: rows mt)
  case Nil
  then show ?case by simp
next
  case (Cons r rs)
  from Cons.IH [OF mt_holds_Put [OF Cons.prems]] show ?case by simp
qed

lemma mt_maxSize_Puts [simp]: "mt_maxSize (fold (mt_Put rid rsize) rows mt) = mt_maxSize mt"
  by (induction rows arbitrary: mt) (auto simp: mt_Put_def Let_def)

lemma mt_holds_Get:
  "mt_holds rid rsize rows mt \<Longrightarrow>
     mt_Get k mt = (if rows_of rid k rows = [] then None else Some (rows_of rid k rows))"
  by (simp add: mt_holds_def mt_Get_def Let_def)

lemma mt_Count_sum: "mt_Count mt = sum_list (map (\<lambda>(k, rs). length rs) (mt_data mt))"
proof -
  have "fold (\<lambda>(k, rows) count. count + length rows) xs n = n + sum_list (map (\<lambda>(k, rs). length rs) xs)"
    for xs :: "(string \<times> 'a list) list" and n
    by (induction xs arbitrary: n) auto
  then show ?thesis by (simp add: mt_Count_def)
qed

lemma sum_rows_of:
  assumes "distinct ks" and "rid ` set rows \<subseteq> set ks"
  shows "sum_list (map (\<lambda>k. length (rows_of rid k rows)) ks) = length rows"
  using assms(2)
proof (induction rows)
  case Nil
  then show ?case by (simp add: rows_of_def)
next
  case (Cons r rows)
  have "(\<Sum>k\<in>set ks. length (rows_of rid k (r # rows)))
      = (\<Sum>k\<in>set ks. length (rows_of rid k rows) + (if k = rid r then 1 else 0))"
    by (rule sum.cong) (auto simp: rows_of_def)
  with Cons assms(1) show ?case
    by (simp add: sum_list_distinct_conv_sum_set sum.distrib)
qed

lemma mt_holds_Count:
  assumes "mt_holds rid rsize rows mt"
  shows "mt_Count mt = length rows"
proof -
  have "map (\<lambda>(k, rs). length rs) (mt_data mt) = map (\<lambda>k. length (rows_of rid k rows)) (map fst (mt_data mt))"
    using assms by (force simp: mt_holds_def rows_at_def split: option.splits)
  then have "mt_Count mt = sum_list (map (\<lambda>k. length (rows_of rid k rows)) (map fst (mt_data mt)))"
    by (simp only: mt_Count_sum)
  also have "\<dots> = length rows"
    using assms by (intro sum_rows_of) (auto simp: mt_holds_def)
  finally show ?thesis .
qed

lemma mt_holds_EntityCount: "mt_holds rid rsize rows mt \<Longrightarrow> mt_EntityCount mt = card (rid ` set rows)"
  by (metis distinct_card length_map list.set_map mt_EntityCount_def mt_holds_def)


section \<open>Properties\<close>

text \<open>After any sequence of puts into a new memtable, reading an entity returns exactly the
  rows put for it, in the order of the puts, or nil when there are none; the size is the sum of
  the row sizes, the counts count every row and every entity once, and the flush flag is raised
  exactly when the sum has reached the threshold.\<close>

theorem memtable_history:
  "let mt = fold (mt_Put rid rsize) rows (mt_New m)
   in (\<forall>k. mt_Get k mt = (if filter (\<lambda>r. rid r = k) rows = [] then None
                          else Some (filter (\<lambda>r. rid r = k) rows))) \<and>
      mt_Size mt = sum_list (map rsize rows) \<and>
      mt_Count mt = length rows \<and>
      mt_EntityCount mt = card (rid ` set rows) \<and>
      set (mt_GetAllEntities mt) = rid ` set rows \<and> distinct (mt_GetAllEntities mt) \<and>
      (mt_ShouldFlush mt = (sum_list (map rsize rows) \<ge> (if m \<le> 0 then 67108864 else m)))"
proof -
  have h: "mt_holds rid rsize rows (fold (mt_Put rid rsize) rows (mt_New m))"
    using mt_holds_Puts [OF mt_holds_New, where rs = rows] by simp
  have "mt_maxSize (mt_New m :: 'a Memtable) = (if m \<le> 0 then 67108864 else m)"
    by (simp add: mt_New_def)
  with h mt_holds_Get [OF h] mt_holds_Count [OF h] mt_holds_EntityCount [OF h] show ?thesis
    by (simp add: Let_def mt_Size_def mt_ShouldFlush_def mt_GetAllEntities_def mt_holds_def rows_of_def)
qed

end
