(* ===== verification/Wal.thy ===== *)
theory Wal
  imports Alli_Prelude
begin

text \<open>
  The write-ahead log of \<^verbatim>\<open>src/core/storage/wal\<close>: numbered files of records, each a
  length, a CRC-32 and the entry's bytes (\<^verbatim>\<open>wal.go\<close>), the choice and rotation of the
  current file, and the replay of all files in the order of their numbers (\<^verbatim>\<open>replay.go\<close>).

  A directory is the list of its files with their contents, in any order. Operating-system calls
  succeed, except that a crash may leave a torn record at the end of the current file. The entry
  type is an interface of the source: \<open>toB\<close> and \<open>fromB\<close> are its methods
  \<^verbatim>\<open>ToBytes\<close> and \<^verbatim>\<open>FromBytes\<close> (on a fresh entry of the factory), and the
  locale \<open>wal_entry\<close> is what the log relies on. The single writer goroutine makes a write one step;
  the last section models its channel and the appending goroutines.
\<close>

section \<open>Records\<close>

definition record_fields :: "bytes \<Rightarrow> bytes" where
  "record_fields data = put_u32 (len32 data) @ put_u32 (crc32 data) @ data"

text \<open>\<^verbatim>\<open>io.ReadFull\<close>: EOF when nothing can be read, unexpected EOF when too little can.\<close>

definition io_ReadFull :: "nat \<Rightarrow> bytes \<Rightarrow> (bytes \<times> bytes) go" where
  "io_ReadFull n reader =
     (if n = 0 then Inr ([], reader)
      else if reader = [] then Inl (Fail ''EOF'')
      else if length reader < n then Inl (Fail ''unexpected EOF'')
      else Inr (take n reader, drop n reader))"

definition binary_Read_u32 :: "bytes \<Rightarrow> (32 word \<times> bytes) go" where
  "binary_Read_u32 reader = rbind (io_ReadFull 4 reader) (\<lambda>(b, reader). Inr (get_u32 b, reader))"

definition ReadEntry :: "bytes \<Rightarrow> (bytes \<times> bytes) go" where
  "ReadEntry reader =
     (case binary_Read_u32 reader of
        Inl e \<Rightarrow> if e = Fail ''EOF'' then Inl (Fail ''EOF'') else rwrap ''failed to read entry length'' (Inl e)
      | Inr (len, reader) \<Rightarrow>
     rbind (rwrap ''failed to read checksum'' (binary_Read_u32 reader)) (\<lambda>(checksum, reader).
     rbind (rwrap ''failed to read entry data'' (io_ReadFull (unat len) reader)) (\<lambda>(data, reader).
     if crc32 data \<noteq> checksum then Inl (Fail ''checksum mismatch'')
     else Inr (data, reader))))"

lemma io_ReadFull_Inr:
  "io_ReadFull n reader = Inr (b, rest) \<longleftrightarrow> reader = b @ rest \<and> length b = n"
  by (auto simp: io_ReadFull_def)

lemma io_ReadFull_append [simp]: "length b = n \<Longrightarrow> io_ReadFull n (b @ rest) = Inr (b, rest)"
  by (simp add: io_ReadFull_Inr)

lemma binary_Read_u32_append [simp]: "binary_Read_u32 (put_u32 w @ rest) = Inr (w, rest)"
  by (simp add: binary_Read_u32_def)

lemma ReadEntry_record [simp]: "fits32 data \<Longrightarrow> ReadEntry (record_fields data @ rest) = Inr (data, rest)"
  by (simp add: ReadEntry_def record_fields_def)

lemma ReadEntry_shorter: "ReadEntry reader = Inr (data, rest) \<Longrightarrow> length rest < length reader"
  by (auto simp: ReadEntry_def binary_Read_u32_def rbind_eq_Inr io_ReadFull_Inr
      split: sum.splits if_splits)

lemma ReadEntry_empty [simp]: "ReadEntry [] = Inl (Fail ''EOF'')"
  by (simp add: ReadEntry_def binary_Read_u32_def io_ReadFull_def)

text \<open>Only the end of the file is reported as the end of the file.\<close>

lemma ReadEntry_EOF: "ReadEntry reader = Inl (Fail ''EOF'') \<longleftrightarrow> reader = []"
  by (auto simp: ReadEntry_def binary_Read_u32_def io_ReadFull_def rwrap_def rbind_eq_Inl
      split: sum.splits if_splits go_error.splits)

lemma ReadEntry_no_panic [no_panic]: "ReadEntry reader \<noteq> Inl Panic"
  by (auto simp: ReadEntry_def binary_Read_u32_def io_ReadFull_def rbind_eq_Inl
      split: sum.splits if_splits go_error.splits)

text \<open>A record that a crash cut short is not read.\<close>

lemma ReadEntry_torn:
  assumes "fits32 data" and "k < length (record_fields data)"
  shows "\<exists>e. ReadEntry (take k (record_fields data)) = Inl e"
proof -
  consider "k < 4" | "4 \<le> k" "k < 8" | "8 \<le> k" by linarith
  then show ?thesis
  proof cases
    case 1
    then show ?thesis
      by (auto simp: record_fields_def ReadEntry_def binary_Read_u32_def io_ReadFull_def rwrap_def)
  next
    case 2
    then have "take k (record_fields data) = put_u32 (len32 data) @ take (k - 4) (put_u32 (crc32 data))"
      by (simp add: record_fields_def)
    with 2 show ?thesis
      by (auto simp: ReadEntry_def binary_Read_u32_def io_ReadFull_def rwrap_def)
  next
    case 3
    then have t: "take k (record_fields data) =
        put_u32 (len32 data) @ put_u32 (crc32 data) @ take (k - 8) data"
      by (simp add: record_fields_def)
    have "length (take (k - 8) data) < length data" "length data \<noteq> 0"
      using 3 assms(2) by (auto simp: record_fields_def)
    with assms(1) show ?thesis
      by (auto simp: t ReadEntry_def io_ReadFull_def rwrap_def rbind_eq_Inl)
  qed
qed

section \<open>Replay of one file\<close>

text \<open>
  The callback threads a state and may fail. The result is the state after the last call and
  whether the scan reached the end of the file.
\<close>

type_synonym ('e, 's) callback = "'e \<Rightarrow> 's \<Rightarrow> 's \<times> unit go"

function replayFile :: "(bytes \<Rightarrow> 'e go) \<Rightarrow> ('e, 's) callback \<Rightarrow> bytes \<Rightarrow> 's \<Rightarrow> 's \<times> unit go" where
  "replayFile fromB callback file st =
     (case ReadEntry file of
        Inl e \<Rightarrow> (st, if e = Fail ''EOF'' then Inr () else rwrap ''corruption detected'' (Inl e))
      | Inr (data, file) \<Rightarrow>
          (case fromB data of
             Inl e \<Rightarrow> (st, rwrap ''failed to deserialize entry'' (Inl e))
           | Inr entry \<Rightarrow>
               (case callback entry st of
                  (st, Inl e) \<Rightarrow> (st, rwrap ''callback returned error'' (Inl e))
                | (st, Inr _) \<Rightarrow> replayFile fromB callback file st)))"
  by pat_completeness auto
termination
  by (relation "measure (\<lambda>(f, c, file, s). length file)") (auto dest: ReadEntry_shorter)

declare replayFile.simps [simp del]

text \<open>The specification: the entries go to the callback one after the other until it fails.\<close>

fun feed :: "('e, 's) callback \<Rightarrow> 'e list \<Rightarrow> 's \<Rightarrow> 's \<times> unit go" where
  "feed callback [] st = (st, Inr ())"
| "feed callback (e # es) st =
     (case callback e st of
        (st, Inl err) \<Rightarrow> (st, rwrap ''callback returned error'' (Inl err))
      | (st, Inr _) \<Rightarrow> feed callback es st)"

definition collect :: "('e, 'e list) callback" where
  "collect e st = (st @ [e], Inr ())"

lemma feed_collect [simp]: "feed collect es st = (st @ es, Inr ())"
  by (induction es arbitrary: st) (auto simp: collect_def)

text \<open>Running one consumer and then another, unless the first one fails.\<close>

definition andThen :: "('s \<Rightarrow> 's \<times> unit go) \<Rightarrow> ('s \<Rightarrow> 's \<times> unit go) \<Rightarrow> 's \<Rightarrow> 's \<times> unit go" where
  "andThen f g st = (case f st of (st, Inl e) \<Rightarrow> (st, Inl e) | (st, Inr _) \<Rightarrow> g st)"

lemma rwrap_is_Inl: "\<exists>e'. rwrap m (Inl e) = Inl e'"
  by (cases e) (auto simp: rwrap_def)

lemma feed_append: "feed cb (es @ fs) st = andThen (feed cb es) (feed cb fs) st"
proof (induction es arbitrary: st)
  case Nil
  then show ?case by (simp add: andThen_def)
next
  case (Cons e es)
  show ?case
    using rwrap_is_Inl [of "''callback returned error''"]
    by (auto simp: andThen_def Cons split: prod.splits sum.splits)
qed

definition log_enc :: "bytes list \<Rightarrow> bytes" where
  "log_enc datas = concat (map record_fields datas)"

lemma log_enc_simps [simp]:
  "log_enc [] = []"
  "log_enc (d # ds) = record_fields d @ log_enc ds"
  "log_enc (ds @ es) = log_enc ds @ log_enc es"
  by (simp_all add: log_enc_def)

lemma replayFile_nil [simp]: "replayFile fromB cb [] st = (st, Inr ())"
  by (subst replayFile.simps) simp

lemma replayFile_record:
  "fits32 d \<Longrightarrow> fromB d = Inr e \<Longrightarrow>
     replayFile fromB cb (record_fields d @ rest) st =
       (case cb e st of (st, Inl err) \<Rightarrow> (st, rwrap ''callback returned error'' (Inl err))
        | (st, Inr _) \<Rightarrow> replayFile fromB cb rest st)"
  by (subst replayFile.simps) simp

text \<open>A file that starts with the records of \<open>es\<close>.\<close>

lemma replayFile_log:
  "list_all2 (\<lambda>d e. fits32 d \<and> fromB d = Inr e) ds es \<Longrightarrow>
     replayFile fromB cb (log_enc ds @ rest) st = andThen (feed cb es) (replayFile fromB cb rest) st"
proof (induction ds es arbitrary: st rule: list_all2_induct)
  case Nil
  then show ?case by (simp add: andThen_def)
next
  case (Cons d ds e es)
  then show ?case
    using rwrap_is_Inl [of "''callback returned error''"]
    by (auto simp: replayFile_record andThen_def split: prod.splits sum.splits)
qed

lemma replayFile_corrupt:
  "ReadEntry file = Inl err \<Longrightarrow> file \<noteq> [] \<Longrightarrow>
     replayFile fromB cb file st = (st, rwrap ''corruption detected'' (Inl err))"
  by (subst replayFile.simps) (auto simp flip: ReadEntry_EOF)

section \<open>The directory and the current file\<close>

type_synonym directory = "(string \<times> bytes) list"

definition file_data :: "directory \<Rightarrow> string \<Rightarrow> bytes" where
  "file_data dir name = (case map_of dir name of None \<Rightarrow> [] | Some bs \<Rightarrow> bs)"

record WALConfig =
  FilePrefix :: string
  MaxFileSize :: int

record WAL =
  wal_config :: WALConfig
  wal_dir :: directory
  wal_filePath :: string
  wal_currentSize :: int
  wal_fileSequence :: "64 word"

definition wal_name :: "WALConfig \<Rightarrow> 64 word \<Rightarrow> string" where
  "wal_name cfg seq = numbered_name (FilePrefix cfg) ''.wal'' seq"

text \<open>\<^verbatim>\<open>O_CREATE|O_APPEND\<close>: an existing file of that name keeps its contents.\<close>

definition rotateFile :: "WALConfig \<Rightarrow> directory \<Rightarrow> 64 word \<Rightarrow> WAL" where
  "rotateFile cfg dir seq =
     (let filePath = wal_name cfg seq
      in \<lparr>wal_config = cfg,
          wal_dir = (if filePath \<in> fst ` set dir then dir else dir @ [(filePath, [])]),
          wal_filePath = filePath, wal_currentSize = 0, wal_fileSequence = seq\<rparr>)"

definition latestFile :: "WALConfig \<Rightarrow> string list \<Rightarrow> 64 word \<times> string option" where
  "latestFile cfg matches =
     fold (\<lambda>m (latestSeq, latestPath).
             case scan_name (FilePrefix cfg) ''.wal'' m of
               None \<Rightarrow> (latestSeq, latestPath)
             | Some seq \<Rightarrow> if seq \<ge> latestSeq then (seq, Some m) else (latestSeq, latestPath))
       matches (0, None)"

definition wal_New :: "WALConfig \<Rightarrow> directory \<Rightarrow> WAL" where
  "wal_New cfg dir =
     (case latestFile cfg (glob_names (FilePrefix cfg) ''.wal'' (map fst dir)) of
        (latestSeq, Some latestPath) \<Rightarrow>
          if int (length (file_data dir latestPath)) < MaxFileSize cfg
          then \<lparr>wal_config = cfg, wal_dir = dir, wal_filePath = latestPath,
                wal_currentSize = int (length (file_data dir latestPath)),
                wal_fileSequence = latestSeq\<rparr>
          else rotateFile cfg dir (latestSeq + 1)
      | (latestSeq, None) \<Rightarrow> rotateFile cfg dir 0)"

definition file_append :: "string \<Rightarrow> bytes \<Rightarrow> directory \<Rightarrow> directory" where
  "file_append name bs dir = AList.update name (file_data dir name @ bs) dir"

definition writeEntry :: "('e \<Rightarrow> bytes go) \<Rightarrow> 'e \<Rightarrow> WAL \<Rightarrow> WAL go" where
  "writeEntry toB entry w =
     rbind (toB entry) (\<lambda>data.
     let w = (if wal_currentSize w + (8 + 4 + int (length data)) > MaxFileSize (wal_config w)
              then rotateFile (wal_config w) (wal_dir w) (wal_fileSequence w + 1) else w);
         checksum = crc32 data;
         dir = file_append (wal_filePath w) (put_u32 (len32 data)) (wal_dir w);
         dir = file_append (wal_filePath w) (put_u32 checksum) dir;
         dir = file_append (wal_filePath w) data dir
     in Inr (w\<lparr>wal_dir := dir, wal_currentSize := wal_currentSize w + (8 + int (length data))\<rparr>))"

fun writeEntries :: "('e \<Rightarrow> bytes go) \<Rightarrow> 'e list \<Rightarrow> WAL \<Rightarrow> WAL go" where
  "writeEntries toB [] w = Inr w"
| "writeEntries toB (e # es) w = rbind (writeEntry toB e w) (writeEntries toB es)"

section \<open>Replay\<close>

definition wal_files :: "WALConfig \<Rightarrow> directory \<Rightarrow> (string \<times> 64 word) list" where
  "wal_files cfg dir =
     sort_Slice (\<lambda>a b. snd a < snd b)
       (List.map_filter (\<lambda>m. map_option (Pair m) (scan_name (FilePrefix cfg) ''.wal'' m))
          (glob_names (FilePrefix cfg) ''.wal'' (map fst dir)))"

fun replayFiles ::
  "(bytes \<Rightarrow> 'e go) \<Rightarrow> ('e, 's) callback \<Rightarrow> directory \<Rightarrow> string list \<Rightarrow> 's \<Rightarrow> 's \<times> unit go" where
  "replayFiles fromB callback dir [] st = (st, Inr ())"
| "replayFiles fromB callback dir (path # paths) st =
     (case replayFile fromB callback (file_data dir path) st of
        (st, Inl e) \<Rightarrow> (st, rwrap ''failed to replay file'' (Inl e))
      | (st, Inr _) \<Rightarrow> replayFiles fromB callback dir paths st)"

text \<open>\<open>None\<close> stands for a nil factory or callback.\<close>

definition wal_Replay ::
  "(bytes \<Rightarrow> 'e go) option \<Rightarrow> ('e, 's) callback option \<Rightarrow> WAL \<Rightarrow> 's \<Rightarrow> 's \<times> unit go" where
  "wal_Replay factory callback w st =
     (case factory of
        None \<Rightarrow> (st, Inl (Fail ''entry factory must be set in WAL config''))
      | Some fromB \<Rightarrow>
     (case callback of
        None \<Rightarrow> (st, Inl (Fail ''callback function is required''))
      | Some cb \<Rightarrow>
     (if glob_names (FilePrefix (wal_config w)) ''.wal'' (map fst (wal_dir w)) = [] then (st, Inr ())
      else replayFiles fromB cb (wal_dir w) (map fst (wal_files (wal_config w) (wal_dir w))) st)))"

section \<open>The log as a list of file contents\<close>

text \<open>
  A directory is canonical when every log file has the name the log would give it. Its log is then
  the list of the contents of its files in the order of their numbers.
\<close>

definition wal_seqs :: "WALConfig \<Rightarrow> directory \<Rightarrow> 64 word set" where
  "wal_seqs cfg dir = {seq. wal_name cfg seq \<in> fst ` set dir}"

definition canonical :: "WALConfig \<Rightarrow> directory \<Rightarrow> bool" where
  "canonical cfg dir \<longleftrightarrow> distinct (map fst dir) \<and>
     (\<forall>n \<in> fst ` set dir. \<forall>seq. scan_name (FilePrefix cfg) ''.wal'' n = Some seq \<longrightarrow> n = wal_name cfg seq)"

definition wal_view :: "WALConfig \<Rightarrow> directory \<Rightarrow> bytes list" where
  "wal_view cfg dir = map (\<lambda>s. file_data dir (wal_name cfg s)) (sorted_list_of_set (wal_seqs cfg dir))"

lemma plain_wal [simp]: "plain_suffix ''.wal''"
  by (simp add: plain_suffix_def is_digit_def)

lemma scan_wal_name [simp]: "scan_name (FilePrefix cfg) ''.wal'' (wal_name cfg seq) = Some seq"
  by (simp add: wal_name_def)

lemma wal_name_inject [simp]: "wal_name cfg a = wal_name cfg b \<longleftrightarrow> a = b"
  by (simp add: wal_name_def)

lemma glob_wal_name [simp]:
  "wal_name cfg seq \<in> set (glob_names (FilePrefix cfg) ''.wal'' names) \<longleftrightarrow> wal_name cfg seq \<in> set names"
  by (simp add: wal_name_def)

lemma finite_wal_seqs [simp]: "finite (wal_seqs cfg dir)"
  by simp

lemma set_glob_names: "set (glob_names pre suf names) \<subseteq> set names"
  by (auto simp: glob_names_def)

lemma scanned_names:
  assumes "canonical cfg dir"
  shows "n \<in> set (glob_names (FilePrefix cfg) ''.wal'' (map fst dir)) \<and>
           scan_name (FilePrefix cfg) ''.wal'' n = Some seq \<longleftrightarrow>
         n = wal_name cfg seq \<and> seq \<in> wal_seqs cfg dir"
proof
  assume l: "n \<in> set (glob_names (FilePrefix cfg) ''.wal'' (map fst dir)) \<and>
           scan_name (FilePrefix cfg) ''.wal'' n = Some seq"
  then have "n \<in> fst ` set dir"
    using set_glob_names [of "FilePrefix cfg" "''.wal''" "map fst dir"] by auto
  with l assms show "n = wal_name cfg seq \<and> seq \<in> wal_seqs cfg dir"
    by (auto simp: canonical_def wal_seqs_def)
qed (auto simp: wal_seqs_def)

lemma wal_files_canonical:
  assumes "canonical cfg dir"
  shows "wal_files cfg dir = map (\<lambda>s. (wal_name cfg s, s)) (sorted_list_of_set (wal_seqs cfg dir))"
proof -
  let ?g = "glob_names (FilePrefix cfg) ''.wal'' (map fst dir)"
  let ?sc = "List.map_filter (\<lambda>m. map_option (Pair m) (scan_name (FilePrefix cfg) ''.wal'' m)) ?g"
  have sc: "set ?sc = (\<lambda>s. (wal_name cfg s, s)) ` wal_seqs cfg dir"
    using scanned_names [OF assms] by (auto simp: set_map_filter image_iff)
  have "distinct ?g"
    using assms by (simp add: glob_names_def canonical_def)
  then have "distinct (map fst ?sc)"
    by (rule distinct_map_filter_tagged)
  then have d: "distinct (map snd ?sc)"
    using sc by (auto simp: distinct_map inj_on_def)
  let ?f = "wal_files cfg dir"
  have set_f: "set ?f = (\<lambda>s. (wal_name cfg s, s)) ` wal_seqs cfg dir"
    by (simp add: wal_files_def sc)
  have "map snd ?f = sorted_list_of_set (wal_seqs cfg dir)"
  proof (rule sorted_distinct_set_unique)
    show "sorted (map snd ?f)"
      unfolding wal_files_def by (rule sort_Slice_sorted_key)
    show "distinct (map snd ?f)"
      unfolding wal_files_def using d by simp
    show "set (map snd ?f) = set (sorted_list_of_set (wal_seqs cfg dir))"
      using set_f by (simp add: image_image)
  qed auto
  moreover have "?f = map (\<lambda>s. (wal_name cfg s, s)) (map snd ?f)"
    using set_f by (auto simp: o_def intro!: map_idI [symmetric])
  ultimately show ?thesis by simp
qed

lemma sorted_list_of_set_max:
  assumes "finite S" and "\<forall>s\<in>S. s < (m :: 'a :: linorder)"
  shows "sorted_list_of_set (insert m S) = sorted_list_of_set S @ [m]"
proof (rule sorted_distinct_set_unique)
  show "sorted (sorted_list_of_set S @ [m])"
    using assms by (auto simp: sorted_append less_imp_le)
  show "distinct (sorted_list_of_set S @ [m])"
    using assms by auto
qed (use assms in \<open>auto simp del: sorted_list_of_set_insert_remove\<close>)

text \<open>The current file is the last one of the log.\<close>

definition wal_ok :: "WAL \<Rightarrow> bool" where
  "wal_ok w \<longleftrightarrow> canonical (wal_config w) (wal_dir w) \<and>
     wal_filePath w = wal_name (wal_config w) (wal_fileSequence w) \<and>
     wal_fileSequence w \<in> wal_seqs (wal_config w) (wal_dir w) \<and>
     (\<forall>s \<in> wal_seqs (wal_config w) (wal_dir w). s \<le> wal_fileSequence w)"

definition w_view :: "WAL \<Rightarrow> bytes list" where
  "w_view w = wal_view (wal_config w) (wal_dir w)"

lemma view_nonempty: "wal_ok w \<Longrightarrow> w_view w \<noteq> []"
  by (auto simp: wal_ok_def w_view_def wal_view_def)

lemma rotateFile_ok:
  assumes "canonical cfg dir" and new: "\<forall>s \<in> wal_seqs cfg dir. s < seq"
  shows "wal_ok (rotateFile cfg dir seq)"
    and "w_view (rotateFile cfg dir seq) = wal_view cfg dir @ [[]]"
proof -
  let ?n = "wal_name cfg seq"
  let ?dir = "dir @ [(?n, [])]"
  from new have fresh: "?n \<notin> fst ` set dir" by (auto simp: wal_seqs_def)
  then have r: "wal_dir (rotateFile cfg dir seq) = ?dir" "wal_config (rotateFile cfg dir seq) = cfg"
    "wal_filePath (rotateFile cfg dir seq) = ?n" "wal_fileSequence (rotateFile cfg dir seq) = seq"
    by (simp_all add: rotateFile_def Let_def)
  have seqs: "wal_seqs cfg ?dir = insert seq (wal_seqs cfg dir)"
    by (auto simp: wal_seqs_def)
  from assms(1) fresh have "canonical cfg ?dir"
    by (auto simp: canonical_def)
  with r seqs new show "wal_ok (rotateFile cfg dir seq)"
    by (auto simp: wal_ok_def)
  have "file_data ?dir (wal_name cfg s) = file_data dir (wal_name cfg s)" if "s \<in> wal_seqs cfg dir" for s
    using that new by (auto simp: file_data_def map_add_def split: option.splits)
  moreover have "map_of dir ?n = None"
    using fresh by (simp add: map_of_eq_None_iff)
  then have "file_data ?dir ?n = []"
    by (simp add: file_data_def map_add_def)
  moreover have "sorted_list_of_set (insert seq (wal_seqs cfg dir)) = sorted_list_of_set (wal_seqs cfg dir) @ [seq]"
    using new by (intro sorted_list_of_set_max) simp_all
  ultimately show "w_view (rotateFile cfg dir seq) = wal_view cfg dir @ [[]]"
    by (simp add: w_view_def r wal_view_def seqs del: sorted_list_of_set_insert_remove)
qed

text \<open>Overwriting the current file changes the last element of the view.\<close>

lemma wal_seqs_update: "name \<in> fst ` set dir \<Longrightarrow> wal_seqs cfg (AList.update name bs dir) = wal_seqs cfg dir"
  by (auto simp: wal_seqs_def AList.dom_update)

lemma canonical_update:
  "canonical cfg dir \<Longrightarrow> name \<in> fst ` set dir \<Longrightarrow> canonical cfg (AList.update name bs dir)"
  by (auto simp: canonical_def AList.dom_update)

lemma file_data_update:
  "file_data (AList.update name bs dir) n = (if n = name then bs else file_data dir n)"
  by (simp add: file_data_def)

lemma file_append_append: "file_append n cs (file_append n bs dir) = file_append n (bs @ cs) dir"
  by (simp add: file_append_def file_data_def)

lemma current_file_last:
  assumes "wal_ok w"
  shows "sorted_list_of_set (wal_seqs (wal_config w) (wal_dir w)) =
           sorted_list_of_set (wal_seqs (wal_config w) (wal_dir w) - {wal_fileSequence w}) @ [wal_fileSequence w]"
proof -
  let ?m = "wal_fileSequence w" and ?S = "wal_seqs (wal_config w) (wal_dir w)"
  have "sorted_list_of_set (insert ?m (?S - {?m})) = sorted_list_of_set (?S - {?m}) @ [?m]"
    using assms by (intro sorted_list_of_set_max) (auto simp: wal_ok_def order_less_le)
  then show ?thesis
    using assms by (simp add: wal_ok_def insert_absorb del: sorted_list_of_set_insert_remove)
qed

lemma last_view: "wal_ok w \<Longrightarrow> last (w_view w) = file_data (wal_dir w) (wal_filePath w)"
  using current_file_last [of w] by (simp add: w_view_def wal_view_def wal_ok_def)

lemma set_current_file:
  fixes w :: WAL and bs :: bytes and n :: int
  assumes "wal_ok w"
  defines "w' \<equiv> w\<lparr>wal_dir := AList.update (wal_filePath w) bs (wal_dir w), wal_currentSize := n\<rparr>"
  shows "wal_ok w'" and "w_view w' = butlast (w_view w) @ [bs]"
proof -
  let ?c = "wal_config w" and ?m = "wal_fileSequence w"
  let ?S = "wal_seqs ?c (wal_dir w)"
  from assms have ok: "canonical ?c (wal_dir w)" "wal_filePath w = wal_name ?c ?m" "?m \<in> ?S"
    "\<forall>s\<in>?S. s \<le> ?m"
    by (simp_all add: wal_ok_def)
  then have mem: "wal_filePath w \<in> fst ` set (wal_dir w)" by (simp add: wal_seqs_def)
  show "wal_ok w'"
    using ok mem by (simp add: w'_def wal_ok_def wal_seqs_update canonical_update)
  show "w_view w' = butlast (w_view w) @ [bs]"
    using mem by (simp add: w'_def w_view_def wal_view_def wal_seqs_update current_file_last [OF assms(1)]
        file_data_update ok(2))
qed

lemma file_append_ok:
  fixes w :: WAL and bs :: bytes and n :: int
  assumes "wal_ok w"
  defines "w' \<equiv> w\<lparr>wal_dir := file_append (wal_filePath w) bs (wal_dir w), wal_currentSize := n\<rparr>"
  shows "wal_ok w'" and "w_view w' = butlast (w_view w) @ [last (w_view w) @ bs]"
  using set_current_file [OF assms(1), where n = n and bs = "file_data (wal_dir w) (wal_filePath w) @ bs"]
  by (simp_all add: w'_def file_append_def last_view [OF assms(1)])

text \<open>
  What writing does to the list of contents: the record goes to the end of the last file, or
  into a new file after it.
\<close>

definition view_write :: "bytes list \<Rightarrow> bytes \<Rightarrow> bytes list \<Rightarrow> bool" where
  "view_write v bs v' \<longleftrightarrow> v' = butlast v @ [last v @ bs] \<or> v' = v @ [bs]"

lemma writeEntry_ok:
  assumes "wal_ok w" and "toB e = Inr data" and "wal_fileSequence w < - 1"
  shows "\<exists>w'. writeEntry toB e w = Inr w' \<and> wal_ok w' \<and> wal_config w' = wal_config w \<and>
           unat (wal_fileSequence w') \<le> unat (wal_fileSequence w) + 1 \<and>
           view_write (w_view w) (record_fields data) (w_view w')"
proof -
  let ?r = "rotateFile (wal_config w) (wal_dir w) (wal_fileSequence w + 1)"
  define w1 where "w1 = (if wal_currentSize w + (8 + 4 + int (length data)) > MaxFileSize (wal_config w)
              then ?r else w)"
  define w' where "w' = w1\<lparr>wal_dir := file_append (wal_filePath w1) (record_fields data) (wal_dir w1),
     wal_currentSize := wal_currentSize w1 + (8 + int (length data))\<rparr>"
  have new: "\<forall>s \<in> wal_seqs (wal_config w) (wal_dir w). s < wal_fileSequence w + 1"
    using assms(1,3) by (simp add: wal_ok_def less_Suc_word)
  have can: "canonical (wal_config w) (wal_dir w)"
    using assms(1) by (simp add: wal_ok_def)
  have "wal_ok w1 \<and> wal_config w1 = wal_config w \<and>
      unat (wal_fileSequence w1) \<le> unat (wal_fileSequence w) + 1 \<and>
      (w_view w1 = w_view w \<or> w_view w1 = w_view w @ [[]])"
    using rotateFile_ok [OF can new] assms(1,3)
    by (simp add: w1_def w_view_def unat_Suc_word) (simp add: rotateFile_def Let_def unat_Suc_word)
  then have w1: "wal_ok w1" "wal_config w1 = wal_config w"
      "unat (wal_fileSequence w1) \<le> unat (wal_fileSequence w) + 1"
      "w_view w1 = w_view w \<or> w_view w1 = w_view w @ [[]]"
    by blast+
  have "writeEntry toB e w = Inr w'"
    by (simp add: writeEntry_def assms(2) Let_def file_append_append w'_def w1_def record_fields_def)
  moreover note file_append_ok [OF w1(1), where bs = "record_fields data" and n = "wal_currentSize w1 + (8 + int (length data))",
      folded w'_def]
  moreover have "wal_config w' = wal_config w1" "wal_fileSequence w' = wal_fileSequence w1"
    by (simp_all add: w'_def)
  ultimately show ?thesis
    using w1(2-4) by (auto simp: view_write_def)
qed

fun view_writes :: "bytes list \<Rightarrow> bytes list \<Rightarrow> bytes list \<Rightarrow> bool" where
  "view_writes v [] v' \<longleftrightarrow> v' = v"
| "view_writes v (d # ds) v' \<longleftrightarrow> (\<exists>v1. view_write v (record_fields d) v1 \<and> view_writes v1 ds v')"

lemma writeEntries_ok:
  "wal_ok w \<Longrightarrow> list_all2 (\<lambda>e d. toB e = Inr d) es ds \<Longrightarrow>
     unat (wal_fileSequence w) + length es < 2 ^ 64 \<Longrightarrow>
     \<exists>w'. writeEntries toB es w = Inr w' \<and> wal_ok w' \<and> wal_config w' = wal_config w \<and>
          unat (wal_fileSequence w') \<le> unat (wal_fileSequence w) + length es \<and>
          view_writes (w_view w) ds (w_view w')"
proof (induction es arbitrary: w ds)
  case Nil
  then show ?case by simp
next
  case (Cons e es)
  then obtain d ds' where ds: "ds = d # ds'" "toB e = Inr d" "list_all2 (\<lambda>e d. toB e = Inr d) es ds'"
    by (auto simp: list_all2_Cons1)
  from Cons.prems(3) have "unat (wal_fileSequence w) < unat (- 1 :: 64 word)"
    by (simp only: unat_max64) simp
  then have "wal_fileSequence w < - 1"
    by (simp add: word_less_nat_alt)
  from writeEntry_ok [where toB = toB and e = e and data = d, OF Cons.prems(1) ds(2) this] obtain w1 where
    w1: "writeEntry toB e w = Inr w1" "wal_ok w1" "wal_config w1 = wal_config w"
      "unat (wal_fileSequence w1) \<le> unat (wal_fileSequence w) + 1"
      "view_write (w_view w) (record_fields d) (w_view w1)"
    by blast
  have "unat (wal_fileSequence w1) + length es < 2 ^ 64"
    using w1(4) Cons.prems(3) by simp
  from Cons.IH [OF w1(2) ds(3) this] w1 ds(1) show ?case by auto
qed

lemma latestFile_spec:
  "\<forall>m\<in>set ms. \<forall>q. scan_name (FilePrefix cfg) ''.wal'' m = Some q \<longrightarrow> m = wal_name cfg q \<Longrightarrow>
   case latestFile cfg ms of
     (s, None) \<Rightarrow> s = 0 \<and> (\<forall>m\<in>set ms. scan_name (FilePrefix cfg) ''.wal'' m = None)
   | (s, Some p) \<Rightarrow> p = wal_name cfg s \<and> p \<in> set ms \<and>
       (\<forall>m\<in>set ms. \<forall>q. scan_name (FilePrefix cfg) ''.wal'' m = Some q \<longrightarrow> q \<le> s)"
proof (induction ms rule: rev_induct)
  case Nil
  then show ?case by (simp add: latestFile_def)
next
  case (snoc m ms)
  obtain s p where l: "latestFile cfg ms = (s, p)" by (cases "latestFile cfg ms")
  then have l': "latestFile cfg (ms @ [m]) =
     (case scan_name (FilePrefix cfg) ''.wal'' m of None \<Rightarrow> (s, p)
      | Some q \<Rightarrow> if q \<ge> s then (q, Some m) else (s, p))"
    by (simp add: latestFile_def)
  from snoc.prems have "\<forall>m\<in>set ms. \<forall>q. scan_name (FilePrefix cfg) ''.wal'' m = Some q \<longrightarrow> m = wal_name cfg q"
    by simp
  note IH = snoc.IH [OF this, unfolded l prod.case]
  show ?case
  proof (cases "scan_name (FilePrefix cfg) ''.wal'' m")
    case None
    with IH show ?thesis by (cases p) (auto simp: l')
  next
    case (Some q)
    with snoc.prems have m: "m = wal_name cfg q" by simp
    from Some have l'': "latestFile cfg (ms @ [m]) = (if q \<ge> s then (q, Some m) else (s, p))"
      by (simp add: l')
    from IH m show ?thesis unfolding l'' by (cases p) (auto intro: order_trans)
  qed
qed

lemma wal_New_ok:
  assumes can: "canonical cfg dir" and bound: "\<forall>s \<in> wal_seqs cfg dir. unat s + k < 2 ^ 64" and "1 < k" and small: "k \<le> 2 ^ 64"
  shows "wal_ok (wal_New cfg dir) \<and> wal_config (wal_New cfg dir) = cfg \<and>
         (w_view (wal_New cfg dir) = wal_view cfg dir \<or> w_view (wal_New cfg dir) = wal_view cfg dir @ [[]]) \<and>
         unat (wal_fileSequence (wal_New cfg dir)) + k \<le> 2 ^ 64"
proof -
  let ?ms = "glob_names (FilePrefix cfg) ''.wal'' (map fst dir)"
  obtain s p where l: "latestFile cfg ?ms = (s, p)" by (cases "latestFile cfg ?ms")
  have "\<forall>m\<in>set ?ms. \<forall>q. scan_name (FilePrefix cfg) ''.wal'' m = Some q \<longrightarrow> m = wal_name cfg q"
    using scanned_names [OF can] by blast
  from latestFile_spec [OF this] l have spec:
    "case p of None \<Rightarrow> s = 0 \<and> (\<forall>m\<in>set ?ms. scan_name (FilePrefix cfg) ''.wal'' m = None)
     | Some p \<Rightarrow> p = wal_name cfg s \<and> p \<in> set ?ms \<and>
       (\<forall>m\<in>set ?ms. \<forall>q. scan_name (FilePrefix cfg) ''.wal'' m = Some q \<longrightarrow> q \<le> s)"
    by simp
  show ?thesis
  proof (cases p)
    case None
    have none: "\<forall>m\<in>set ?ms. scan_name (FilePrefix cfg) ''.wal'' m = None"
      using spec None by simp
    have "\<not> seq \<in> wal_seqs cfg dir" for seq
    proof
      assume "seq \<in> wal_seqs cfg dir"
      then have "wal_name cfg seq \<in> set ?ms" by (simp add: wal_seqs_def del: set_map) simp
      with none have "scan_name (FilePrefix cfg) ''.wal'' (wal_name cfg seq) = None" by blast
      then show False by simp
    qed
    then have "wal_ok (rotateFile cfg dir 0) \<and> w_view (rotateFile cfg dir 0) = wal_view cfg dir @ [[]]"
      using rotateFile_ok [OF can, of 0] by simp
    moreover have "wal_New cfg dir = rotateFile cfg dir 0"
      by (simp add: wal_New_def l None)
    ultimately show ?thesis
      using small by (simp add: rotateFile_def Let_def)
  next
    case (Some q)
    from spec have q: "q = wal_name cfg s" "q \<in> set ?ms" unfolding Some option.case by blast+
    then have s: "s \<in> wal_seqs cfg dir"
      using scanned_names [OF can, of q s] by simp
    have le: "\<forall>t \<in> wal_seqs cfg dir. t \<le> s"
    proof
      fix t assume "t \<in> wal_seqs cfg dir"
      then have "wal_name cfg t \<in> set ?ms" by (simp add: wal_seqs_def del: set_map) simp
      moreover from spec have "\<forall>m\<in>set ?ms. \<forall>q. scan_name (FilePrefix cfg) ''.wal'' m = Some q \<longrightarrow> q \<le> s"
        unfolding Some option.case by blast
      ultimately show "t \<le> s" using scan_wal_name by blast
    qed
    from bound s have sk: "unat s + k < 2 ^ 64" by blast
    with \<open>1 < k\<close> have "unat s < unat (- 1 :: 64 word)"
      by (simp only: unat_max64)
    then have max: "s < - 1" by (simp add: word_less_nat_alt)
    show ?thesis
    proof (cases "int (length (file_data dir q)) < MaxFileSize cfg")
      case True
      then have "wal_New cfg dir = \<lparr>wal_config = cfg, wal_dir = dir, wal_filePath = q,
          wal_currentSize = int (length (file_data dir q)), wal_fileSequence = s\<rparr>"
        by (simp add: wal_New_def l Some)
      with can q s le sk show ?thesis by (simp add: wal_ok_def w_view_def)
    next
      case False
      then have "wal_New cfg dir = rotateFile cfg dir (s + 1)"
        by (simp add: wal_New_def l Some)
      moreover have "\<forall>t \<in> wal_seqs cfg dir. t < s + 1"
        using le max by (simp add: less_Suc_word)
      note rotateFile_ok [OF can this]
      moreover have "unat (s + 1) + k \<le> 2 ^ 64"
        using sk max by (simp add: unat_Suc_word)
      ultimately show ?thesis by (simp add: rotateFile_def Let_def)
    qed
  qed
qed

section \<open>Replay of the list of contents\<close>

fun replay_view :: "(bytes \<Rightarrow> 'e go) \<Rightarrow> ('e, 's) callback \<Rightarrow> bytes list \<Rightarrow> 's \<Rightarrow> 's \<times> unit go" where
  "replay_view fromB cb [] st = (st, Inr ())"
| "replay_view fromB cb (f # fs) st =
     (case replayFile fromB cb f st of
        (st, Inl e) \<Rightarrow> (st, rwrap ''failed to replay file'' (Inl e))
      | (st, Inr _) \<Rightarrow> replay_view fromB cb fs st)"

lemma replayFiles_view:
  "replayFiles fromB cb dir paths st = replay_view fromB cb (map (file_data dir) paths) st"
  by (induction paths arbitrary: st) (auto split: prod.splits sum.splits)

lemma wal_Replay_view:
  assumes can: "canonical (wal_config w) (wal_dir w)"
  shows "wal_Replay (Some fromB) (Some cb) w st = replay_view fromB cb (w_view w) st"
proof -
  have "replayFiles fromB cb (wal_dir w) (map fst (wal_files (wal_config w) (wal_dir w))) st
      = replay_view fromB cb (w_view w) st"
    by (simp add: replayFiles_view wal_files_canonical [OF can] w_view_def wal_view_def o_def)
  moreover have "w_view w = []" if "glob_names (FilePrefix (wal_config w)) ''.wal'' (map fst (wal_dir w)) = []"
  proof -
    have "\<not> seq \<in> wal_seqs (wal_config w) (wal_dir w)" for seq
      using scanned_names [OF can, of "wal_name (wal_config w) seq" seq] that by auto
    then have "wal_seqs (wal_config w) (wal_dir w) = {}" by blast
    then show ?thesis by (simp add: w_view_def wal_view_def)
  qed
  ultimately show ?thesis by (simp add: wal_Replay_def)
qed

definition logs :: "(bytes \<Rightarrow> 'e go) \<Rightarrow> bytes list \<Rightarrow> 'e list \<Rightarrow> bool" where
  "logs fromB v es \<longleftrightarrow>
     (\<exists>dss. v = map log_enc dss \<and> list_all2 (\<lambda>d e. fits32 d \<and> fromB d = Inr e) (concat dss) es)"

lemma logs_Nil [simp]: "logs fromB [] []"
  unfolding logs_def by (rule exI [of _ "[]"]) simp

lemma logs_new_file: "logs fromB v es \<Longrightarrow> logs fromB (v @ [[]]) es"
  unfolding logs_def by (elim exE conjE, rule_tac x = "dss @ [[]]" in exI) simp

lemma logs_write:
  assumes "logs fromB v es" and "v \<noteq> []" and "view_write v (record_fields d) v'"
    and "fits32 d" and "fromB d = Inr e"
  shows "logs fromB v' (es @ [e])"
proof -
  from assms(1) obtain dss where v: "v = map log_enc dss"
    and a: "list_all2 (\<lambda>d e. fits32 d \<and> fromB d = Inr e) (concat dss) es"
    by (auto simp: logs_def)
  with assms(2) obtain fs f where dss: "dss = fs @ [f]" by (cases dss rule: rev_cases) auto
  let ?in = "fs @ [f @ [d]]" and ?new = "dss @ [[d]]"
  have "v' = map log_enc ?in \<or> v' = map log_enc ?new"
    using assms(3) by (auto simp: view_write_def v dss butlast_append)
  moreover have "list_all2 (\<lambda>d e. fits32 d \<and> fromB d = Inr e) (concat ?in) (es @ [e])"
    "list_all2 (\<lambda>d e. fits32 d \<and> fromB d = Inr e) (concat ?new) (es @ [e])"
    using a assms(4,5) list_all2_appendI [OF a, of "[d]" "[e]"] by (simp_all add: dss)
  ultimately show ?thesis unfolding logs_def by blast
qed

lemma view_write_nonempty: "view_write v bs v' \<Longrightarrow> v' \<noteq> []"
  by (auto simp: view_write_def)

lemma logs_writes:
  "view_writes v ds v' \<Longrightarrow> logs fromB v es \<Longrightarrow> v \<noteq> [] \<Longrightarrow>
     list_all2 (\<lambda>d e. fits32 d \<and> fromB d = Inr e) ds new \<Longrightarrow> logs fromB v' (es @ new)"
proof (induction ds arbitrary: v es new)
  case Nil
  then show ?case by simp
next
  case (Cons d ds)
  from Cons.prems obtain v1 e new' where n: "new = e # new'" "fits32 d" "fromB d = Inr e"
      "list_all2 (\<lambda>d e. fits32 d \<and> fromB d = Inr e) ds new'"
    and v1: "view_write v (record_fields d) v1" "view_writes v1 ds v'"
    by (auto simp: list_all2_Cons1)
  from Cons.IH [OF v1(2) logs_write [OF Cons.prems(2,3) v1(1) n(2,3)] view_write_nonempty [OF v1(1)] n(4)]
  show ?case by (simp add: n(1))
qed

text \<open>A callback that never fails.\<close>

definition always :: "('e \<Rightarrow> 's \<Rightarrow> 's) \<Rightarrow> ('e, 's) callback" where
  "always f e st = (f e st, Inr ())"

lemma feed_always [simp]: "feed (always f) es st = (fold f es st, Inr ())"
  by (induction es arbitrary: st) (simp_all add: always_def)

lemma collect_always: "collect = always (\<lambda>e st. st @ [e])"
  by (intro ext) (simp add: collect_def always_def)

lemma fold_collect [simp]: "fold (\<lambda>e st. st @ [e]) es st = st @ es"
  by (induction es arbitrary: st) simp_all

lemma replay_view_map_always:
  "list_all2 (\<lambda>d e. fits32 d \<and> fromB d = Inr e) (concat dss) es \<Longrightarrow>
     replay_view fromB (always f) (map log_enc dss @ fs) st = replay_view fromB (always f) fs (fold f es st)"
proof (induction dss arbitrary: es st)
  case Nil
  then show ?case by simp
next
  case (Cons ds dss)
  from Cons.prems obtain es1 es2 where es: "es = es1 @ es2"
      "list_all2 (\<lambda>d e. fits32 d \<and> fromB d = Inr e) ds es1"
      "list_all2 (\<lambda>d e. fits32 d \<and> fromB d = Inr e) (concat dss) es2"
    by (auto simp: list_all2_append1)
  from replayFile_log [OF es(2), of "always f" "[]" st] Cons.IH [OF es(3)] es(1)
  show ?case by (simp add: andThen_def)
qed

lemma replay_view_map_log:
  "list_all2 (\<lambda>d e. fits32 d \<and> fromB d = Inr e) (concat dss) es \<Longrightarrow>
     replay_view fromB collect (map log_enc dss @ fs) st = replay_view fromB collect fs (st @ es)"
  using replay_view_map_always [of fromB dss es "\<lambda>e st. st @ [e]" fs st] by (simp add: collect_always)

lemma replay_logs:
  "logs fromB v es \<Longrightarrow> replay_view fromB (always f) v st = (fold f es st, Inr ())"
  using replay_view_map_always [where fs = "[]"] by (fastforce simp: logs_def)

section \<open>Sessions and crashes\<close>

text \<open>
  A session opens the log, appends and stops; the next one starts from the files it left.
\<close>

fun wal_sessions :: "('e \<Rightarrow> bytes go) \<Rightarrow> WALConfig \<Rightarrow> directory \<Rightarrow> 'e list list \<Rightarrow> directory go" where
  "wal_sessions toB cfg dir [] = Inr dir"
| "wal_sessions toB cfg dir (xs # xss) =
     rbind (writeEntries toB xs (wal_New cfg dir)) (\<lambda>w. wal_sessions toB cfg (wal_dir w) xss)"

text \<open>A crash leaves \<open>n\<close> bytes of the current file.\<close>

definition crash :: "nat \<Rightarrow> WAL \<Rightarrow> directory" where
  "crash n w = AList.update (wal_filePath w) (take n (file_data (wal_dir w) (wal_filePath w))) (wal_dir w)"

text \<open>What the log relies on: an entry decodes from its encoding, which is below 4 GB.\<close>

locale wal_entry =
  fixes toB :: "'e \<Rightarrow> bytes go"
    and fromB :: "bytes \<Rightarrow> 'e go"
    and ok :: "'e \<Rightarrow> bool"
  assumes entry_back: "ok e \<Longrightarrow> \<exists>d. toB e = Inr d \<and> fits32 d \<and> fromB d = Inr e"
begin

lemma entries_back:
  "list_all ok es \<Longrightarrow> \<exists>ds. list_all2 (\<lambda>e d. toB e = Inr d) es ds \<and>
     list_all2 (\<lambda>d e. fits32 d \<and> fromB d = Inr e) ds es"
proof (induction es)
  case Nil
  then show ?case by simp
next
  case (Cons e es)
  then obtain d ds where "toB e = Inr d" "fits32 d" "fromB d = Inr e"
      "list_all2 (\<lambda>e d. toB e = Inr d) es ds" "list_all2 (\<lambda>d e. fits32 d \<and> fromB d = Inr e) ds es"
    using entry_back [of e] by auto
  then show ?case by (intro exI [of _ "d # ds"]) simp
qed

lemma session_logs:
  assumes "canonical cfg dir" and "logs fromB (wal_view cfg dir) es" and "list_all ok xs"
    and "\<forall>s \<in> wal_seqs cfg dir. unat s + k < 2 ^ 64" and "length xs + 1 < k" and "k \<le> 2 ^ 64"
  shows "\<exists>w. writeEntries toB xs (wal_New cfg dir) = Inr w \<and> wal_ok w \<and> wal_config w = cfg \<and>
           logs fromB (w_view w) (es @ xs) \<and> unat (wal_fileSequence w) + (k - length xs) \<le> 2 ^ 64"
proof -
  let ?w0 = "wal_New cfg dir"
  from wal_New_ok [OF assms(1,4) _ assms(6)] assms(5) have w0:
    "wal_ok ?w0" "wal_config ?w0 = cfg" "unat (wal_fileSequence ?w0) + k \<le> 2 ^ 64"
    "w_view ?w0 = wal_view cfg dir \<or> w_view ?w0 = wal_view cfg dir @ [[]]"
    by simp_all
  from w0(4) assms(2) have l0: "logs fromB (w_view ?w0) es"
    by (auto simp: logs_new_file)
  obtain ds where ds: "list_all2 (\<lambda>e d. toB e = Inr d) xs ds"
    "list_all2 (\<lambda>d e. fits32 d \<and> fromB d = Inr e) ds xs"
    using entries_back [OF assms(3)] by blast
  have "unat (wal_fileSequence ?w0) + length xs < 2 ^ 64"
    using w0(3) assms(5) by linarith
  from writeEntries_ok [OF w0(1) ds(1) this] obtain w where w:
    "writeEntries toB xs ?w0 = Inr w" "wal_ok w" "wal_config w = wal_config ?w0"
    "unat (wal_fileSequence w) \<le> unat (wal_fileSequence ?w0) + length xs"
    "view_writes (w_view ?w0) ds (w_view w)"
    by blast
  from logs_writes [OF w(5) l0 view_nonempty [OF w0(1)] ds(2)] w w0 assms(5) show ?thesis
    by auto
qed

lemma sessions_logs:
  "canonical cfg dir \<Longrightarrow> logs fromB (wal_view cfg dir) es \<Longrightarrow> list_all (list_all ok) xss \<Longrightarrow>
     \<forall>s \<in> wal_seqs cfg dir. unat s + (length (concat xss) + length xss + 2) < 2 ^ 64 \<Longrightarrow>
     length (concat xss) + length xss + 2 \<le> 2 ^ 64 \<Longrightarrow>
     \<exists>dir'. wal_sessions toB cfg dir xss = Inr dir' \<and> canonical cfg dir' \<and>
            logs fromB (wal_view cfg dir') (es @ concat xss) \<and>
            (\<forall>s \<in> wal_seqs cfg dir'. unat s + 2 < 2 ^ 64)"
proof (induction xss arbitrary: dir es)
  case Nil
  then show ?case by simp
next
  case (Cons xs xss)
  let ?k = "length (concat (xs # xss)) + length (xs # xss) + 2"
  from session_logs [OF Cons.prems(1,2) _ Cons.prems(4) _ Cons.prems(5), of xs] Cons.prems(3)
  obtain w where w: "writeEntries toB xs (wal_New cfg dir) = Inr w" "wal_ok w" "wal_config w = cfg"
      "logs fromB (w_view w) (es @ xs)" "unat (wal_fileSequence w) + (?k - length xs) \<le> 2 ^ 64"
    by auto
  have "unat s + (length (concat xss) + length xss + 2) < 2 ^ 64" if "s \<in> wal_seqs cfg (wal_dir w)" for s
  proof -
    from that w(2,3) have "s \<le> wal_fileSequence w" by (simp add: wal_ok_def)
    then have "unat s \<le> unat (wal_fileSequence w)" by (simp add: word_le_nat_alt)
    with w(5) show ?thesis by simp
  qed
  moreover have "canonical cfg (wal_dir w)" "logs fromB (wal_view cfg (wal_dir w)) (es @ xs)"
    using w(2-4) by (simp_all add: wal_ok_def w_view_def)
  ultimately show ?case
    using Cons.IH [of "wal_dir w" "es @ xs"] Cons.prems(3,5) w(1) by simp
qed

lemma replay_after_sessions:
  assumes "list_all (list_all ok) xss" and "length (concat xss) + length xss + 2 \<le> 2 ^ 64"
  shows "\<exists>dir. wal_sessions toB cfg [] xss = Inr dir \<and>
           wal_Replay (Some fromB) (Some (always f)) (wal_New cfg dir) st = (fold f (concat xss) st, Inr ())"
proof -
  have "canonical cfg []" "logs fromB (wal_view cfg []) []" "wal_seqs cfg [] = {}"
    by (simp_all add: canonical_def wal_view_def wal_seqs_def)
  with sessions_logs [of cfg "[]" "[]" xss] assms obtain dir where dir:
    "wal_sessions toB cfg [] xss = Inr dir" "canonical cfg dir"
    "logs fromB (wal_view cfg dir) (concat xss)" "\<forall>s \<in> wal_seqs cfg dir. unat s + 2 < 2 ^ 64"
    by auto
  let ?w = "wal_New cfg dir"
  from wal_New_ok [OF dir(2,4)] have w: "wal_ok ?w" "wal_config ?w = cfg"
    "w_view ?w = wal_view cfg dir \<or> w_view ?w = wal_view cfg dir @ [[]]"
    by simp_all
  with dir(3) have "logs fromB (w_view ?w) (concat xss)"
    by (auto simp: logs_new_file)
  from replay_logs [OF this] have "replay_view fromB (always f) (w_view ?w) st = (fold f (concat xss) st, Inr ())" .
  moreover have "canonical (wal_config ?w) (wal_dir ?w)"
    using w(1) by (simp add: wal_ok_def)
  ultimately show ?thesis using dir(1) by (simp add: wal_Replay_view)
qed

end

subsection \<open>Writing after a torn record\<close>

lemma view_write_stay:
  "view_write (a @ rest) bs v \<Longrightarrow> rest \<noteq> [] \<Longrightarrow> \<exists>rest'. v = a @ rest' \<and> rest' \<noteq> []"
  by (auto simp: view_write_def butlast_append)

lemma view_writes_stay: "view_writes (a @ rest) ds v \<Longrightarrow> rest \<noteq> [] \<Longrightarrow> \<exists>rest'. v = a @ rest'"
proof (induction ds arbitrary: rest)
  case Nil
  then show ?case by simp
next
  case (Cons d ds)
  then obtain v1 where v1: "view_write (a @ rest) (record_fields d) v1" "view_writes v1 ds v" by auto
  from view_write_stay [OF v1(1) Cons.prems(2)] obtain r where "v1 = a @ r" "r \<noteq> []" by blast
  with Cons.IH v1(2) show ?case by simp
qed

lemma view_writes_tail:
  "view_writes (v @ [x]) ds v' \<Longrightarrow>
     \<exists>m rest. m \<le> length ds \<and> v' = v @ [x @ log_enc (take m ds)] @ rest"
proof (induction ds arbitrary: x)
  case Nil
  then show ?case by (intro exI [of _ 0] exI [of _ "[]"]) simp
next
  case (Cons d ds)
  then obtain v1 where v1: "view_write (v @ [x]) (record_fields d) v1" "view_writes v1 ds v'" by auto
  then consider "v1 = v @ [x @ record_fields d]" | "v1 = (v @ [x]) @ [record_fields d]"
    by (auto simp: view_write_def)
  then show ?case
  proof cases
    case 1
    with v1(2) Cons.IH obtain m rest where
      "m \<le> length ds" "v' = v @ [(x @ record_fields d) @ log_enc (take m ds)] @ rest" by blast
    then show ?thesis by (intro exI [of _ "Suc m"] exI [of _ rest]) simp
  next
    case 2
    with v1(2) view_writes_stay obtain rest where "v' = (v @ [x]) @ rest" by blast
    then show ?thesis by (intro exI [of _ 0] exI [of _ rest]) simp
  qed
qed

lemma replay_view_torn:
  assumes "list_all2 (\<lambda>d e. fits32 d \<and> fromB d = Inr e) (concat dss @ g) es"
    and "t \<noteq> []" and "ReadEntry t = Inl err"
  shows "\<exists>err'. replay_view fromB collect (map log_enc dss @ (log_enc g @ t) # rest) [] = (es, Inl err')"
proof -
  from assms(1) obtain es1 es2 where es: "es = es1 @ es2"
      "list_all2 (\<lambda>d e. fits32 d \<and> fromB d = Inr e) (concat dss) es1"
      "list_all2 (\<lambda>d e. fits32 d \<and> fromB d = Inr e) g es2"
    by (auto simp: list_all2_append1)
  obtain err1 where c: "rwrap ''corruption detected'' (Inl err) = (Inl err1 :: unit go)"
    using rwrap_is_Inl by blast
  obtain err2 where f: "rwrap ''failed to replay file'' (Inl err1) = (Inl err2 :: unit go)"
    using rwrap_is_Inl by blast
  have "replayFile fromB collect (log_enc g @ t) es1 = (es1 @ es2, Inl err1)"
    using replayFile_log [OF es(3), of collect t es1] replayFile_corrupt [OF assms(3,2), of fromB collect] c
    by (simp add: andThen_def)
  with replay_view_map_log [OF es(2), of "(log_enc g @ t) # rest" "[]"] f es(1) show ?thesis
    by simp
qed

lemma writeEntries_append:
  "writeEntries toB (es @ fs) w = rbind (writeEntries toB es w) (writeEntries toB fs)"
  by (induction es arbitrary: w) (auto simp: rbind_def split: sum.splits)

text \<open>The record written last is at the end of the last file.\<close>

lemma view_write_last:
  assumes "logs fromB v es" and "v \<noteq> []" and "view_write v (record_fields d) v'"
  shows "\<exists>dss g. v' = map log_enc dss @ [log_enc g @ record_fields d] \<and>
           list_all2 (\<lambda>d e. fits32 d \<and> fromB d = Inr e) (concat dss @ g) es"
proof -
  from assms(1) obtain dss where v: "v = map log_enc dss"
    and a: "list_all2 (\<lambda>d e. fits32 d \<and> fromB d = Inr e) (concat dss) es"
    by (auto simp: logs_def)
  with assms(2) obtain fs f where dss: "dss = fs @ [f]" by (cases dss rule: rev_cases) auto
  from assms(3) consider "v' = map log_enc fs @ [log_enc f @ record_fields d]"
    | "v' = map log_enc dss @ [log_enc [] @ record_fields d]"
    by (auto simp: view_write_def v dss butlast_append)
  then show ?thesis
  proof cases
    case 1
    with a dss show ?thesis by (intro exI [of _ fs] exI [of _ f]) simp
  next
    case 2
    with a show ?thesis by (intro exI [of _ dss] exI [of _ "[]"]) simp
  qed
qed

context wal_entry
begin

lemma torn_write_hides_later:
  assumes ok: "list_all ok es" "list_all ok xs"
    and d: "toB e = Inr d" and ds: "list_all2 (\<lambda>x d. toB x = Inr d) xs ds"
    and few: "length es + length xs + 6 \<le> 2 ^ 64"
    and w: "writeEntries toB (es @ [e]) (wal_New cfg []) = Inr w"
    and lost: "0 < lost" "lost < length (record_fields d)"
    and w2: "writeEntries toB xs (wal_New cfg (crash (length (file_data (wal_dir w) (wal_filePath w)) - lost) w)) = Inr w2"
    and misread: "\<forall>m \<le> length xs. \<forall>r. ReadEntry (take (length (record_fields d) - lost) (record_fields d) @
                    log_enc (take m ds)) \<noteq> Inr r"
  shows "\<exists>err. wal_Replay (Some fromB) (Some collect) (wal_New cfg (wal_dir w2)) [] = (es, Inl err)"
proof -
  let ?k = "length es + length xs + 6"
  let ?t = "take (length (record_fields d) - lost) (record_fields d)"
  have "canonical cfg []" "logs fromB (wal_view cfg []) []" "\<forall>s \<in> wal_seqs cfg []. unat s + ?k < 2 ^ 64"
    by (simp_all add: canonical_def wal_view_def wal_seqs_def)
  from session_logs [OF this(1,2) ok(1) this(3) _ few] obtain w1 where
    w1: "writeEntries toB es (wal_New cfg []) = Inr w1" "wal_ok w1" "wal_config w1 = cfg"
      "logs fromB (w_view w1) es" "unat (wal_fileSequence w1) + (?k - length es) \<le> 2 ^ 64"
    by auto
  have "unat (wal_fileSequence w1) < unat (- 1 :: 64 word)"
    using w1(5) by (simp only: unat_max64)
  then have "wal_fileSequence w1 < - 1" by (simp add: word_less_nat_alt)
  from writeEntry_ok [where toB = toB and e = e and data = d, OF w1(2) d this] w w1(1) have
    wok: "wal_ok w" "wal_config w = cfg" "unat (wal_fileSequence w) \<le> unat (wal_fileSequence w1) + 1"
      "view_write (w_view w1) (record_fields d) (w_view w)"
    using w1(3) by (auto simp: writeEntries_append)
  from view_write_last [OF w1(4) view_nonempty [OF w1(2)] wok(4)] obtain dss g where
    v: "w_view w = map log_enc dss @ [log_enc g @ record_fields d]"
    and es: "list_all2 (\<lambda>d e. fits32 d \<and> fromB d = Inr e) (concat dss @ g) es"
    by blast
  let ?dir = "crash (length (file_data (wal_dir w) (wal_filePath w)) - lost) w"
  let ?v = "map log_enc dss @ [log_enc g @ ?t]"
  have "take (length (file_data (wal_dir w) (wal_filePath w)) - lost) (file_data (wal_dir w) (wal_filePath w))
      = log_enc g @ ?t"
    using lost by (simp add: v flip: last_view [OF wok(1)])
  then have dir: "?dir = AList.update (wal_filePath w) (log_enc g @ ?t) (wal_dir w)"
    by (simp add: crash_def)
  from set_current_file [OF wok(1), where bs = "log_enc g @ ?t" and n = 0] v wok(2) have
    c: "canonical cfg ?dir" "wal_view cfg ?dir = ?v"
      "\<forall>s \<in> wal_seqs cfg ?dir. s \<le> wal_fileSequence w"
    unfolding dir by (auto simp: wal_ok_def w_view_def)
  have b: "\<forall>s \<in> wal_seqs cfg ?dir. unat s + (length xs + 4) < 2 ^ 64"
    using c(3) wok(3) w1(5) by (auto simp: word_le_nat_alt dest!: bspec)
  from wal_New_ok [OF c(1) b] few have n:
    "wal_ok (wal_New cfg ?dir)" "wal_config (wal_New cfg ?dir) = cfg"
    "w_view (wal_New cfg ?dir) = ?v \<or> w_view (wal_New cfg ?dir) = ?v @ [[]]"
    "unat (wal_fileSequence (wal_New cfg ?dir)) + (length xs + 4) \<le> 2 ^ 64"
    by (simp_all add: c(2))
  from writeEntries_ok [OF n(1) ds] n(4) w2 have
    o: "wal_ok w2" "wal_config w2 = cfg"
      "unat (wal_fileSequence w2) \<le> unat (wal_fileSequence (wal_New cfg ?dir)) + length xs"
      "view_writes (w_view (wal_New cfg ?dir)) ds (w_view w2)"
    by (auto simp: n(2))
  obtain m rest where m: "m \<le> length ds"
      "w_view w2 = map log_enc dss @ [(log_enc g @ ?t) @ log_enc (take m ds)] @ rest"
    using n(3)
  proof
    assume "w_view (wal_New cfg ?dir) = ?v"
    with o(4) view_writes_tail [of "map log_enc dss"] that show ?thesis by metis
  next
    assume "w_view (wal_New cfg ?dir) = ?v @ [[]]"
    with o(4) view_writes_stay [of ?v "[[]]"] that [of 0] show ?thesis by fastforce
  qed
  have b2: "\<forall>s \<in> wal_seqs cfg (wal_dir w2). unat s + 2 < 2 ^ 64"
    using o(1-3) n(4) by (auto simp: wal_ok_def word_le_nat_alt dest!: bspec)
  have can2: "canonical cfg (wal_dir w2)" using o(1,2) by (simp add: wal_ok_def)
  from wal_New_ok [OF can2 b2] o(2) obtain rest2 where z:
    "wal_ok (wal_New cfg (wal_dir w2))"
    "w_view (wal_New cfg (wal_dir w2)) = map log_enc dss @ (log_enc g @ (?t @ log_enc (take m ds))) # rest2"
    by (auto simp: m(2) simp flip: w_view_def)
  have "length ds = length xs" using ds by (simp add: list_all2_lengthD)
  with misread m(1) obtain err where err: "ReadEntry (?t @ log_enc (take m ds)) = Inl err"
    by (metis sum.exhaust)
  have "?t @ log_enc (take m ds) \<noteq> []" using lost by auto
  from replay_view_torn [OF es this err] z show ?thesis
    by (simp add: wal_Replay_view wal_ok_def)
qed

end

section \<open>The writer goroutine and its callers\<close>

text \<open>
  \<^verbatim>\<open>Append\<close> checks the closed flag, then sends its request into a channel with room
  for 1000 and waits for the answer, or gives up when the writer is done; the writer takes requests
  in order, answers each after writing it and, once told to close, empties the channel and ends.
  \<open>wr_written\<close> records the requests in the order of their writes.
\<close>

datatype 'e phase = Checked 'e | Waiting 'e | Returned "unit go"

record 'e writer =
  wr_closed :: bool
  wr_closeCh :: bool
  wr_doneCh :: bool
  wr_queue :: "(nat \<times> 'e) list"
  wr_calls :: "nat \<Rightarrow> 'e phase option"
  wr_wal :: WAL
  wr_written :: "(nat \<times> 'e) list"

definition writer_start :: "WAL \<Rightarrow> 'e writer" where
  "writer_start w = \<lparr>wr_closed = False, wr_closeCh = False, wr_doneCh = False, wr_queue = [],
     wr_calls = (\<lambda>i. None), wr_wal = w, wr_written = []\<rparr>"

inductive wal_step :: "('e \<Rightarrow> bytes go) \<Rightarrow> 'e writer \<Rightarrow> 'e writer \<Rightarrow> bool" for toB where
  append_closed: "wr_calls s i = None \<Longrightarrow> wr_closed s \<Longrightarrow>
    wal_step toB s (s\<lparr>wr_calls := (wr_calls s)(i \<mapsto> Returned (Inl (Fail ''WAL is closed'')))\<rparr>)"
| append_open: "wr_calls s i = None \<Longrightarrow> \<not> wr_closed s \<Longrightarrow>
    wal_step toB s (s\<lparr>wr_calls := (wr_calls s)(i \<mapsto> Checked e)\<rparr>)"
| append_send: "wr_calls s i = Some (Checked e) \<Longrightarrow> length (wr_queue s) < 1000 \<Longrightarrow>
    wal_step toB s (s\<lparr>wr_queue := wr_queue s @ [(i, e)], wr_calls := (wr_calls s)(i \<mapsto> Waiting e)\<rparr>)"
| append_done: "wr_calls s i = Some (Checked e) \<Longrightarrow> wr_doneCh s \<Longrightarrow>
    wal_step toB s (s\<lparr>wr_calls := (wr_calls s)(i \<mapsto> Returned (Inl (Fail ''WAL writer is closed'')))\<rparr>)"
| writer_write: "\<not> wr_doneCh s \<Longrightarrow> wr_queue s = (i, e) # q \<Longrightarrow> writeEntry toB e (wr_wal s) = Inr w \<Longrightarrow>
    wal_step toB s (s\<lparr>wr_queue := q, wr_calls := (wr_calls s)(i \<mapsto> Returned (Inr ())), wr_wal := w,
                      wr_written := wr_written s @ [(i, e)]\<rparr>)"
| writer_exit: "\<not> wr_doneCh s \<Longrightarrow> wr_closeCh s \<Longrightarrow> wr_queue s = [] \<Longrightarrow>
    wal_step toB s (s\<lparr>wr_doneCh := True\<rparr>)"
| wal_close: "\<not> wr_closed s \<Longrightarrow> wal_step toB s (s\<lparr>wr_closed := True, wr_closeCh := True\<rparr>)"

definition writer_inv :: "('e \<Rightarrow> bytes go) \<Rightarrow> WAL \<Rightarrow> 'e writer \<Rightarrow> bool" where
  "writer_inv toB w s \<longleftrightarrow>
     writeEntries toB (map snd (wr_written s)) w = Inr (wr_wal s) \<and>
     (\<forall>i e. (i, e) \<in> set (wr_queue s) \<longrightarrow> wr_calls s i = Some (Waiting e)) \<and>
     (\<forall>i e. (i, e) \<in> set (wr_written s) \<longrightarrow> wr_calls s i = Some (Returned (Inr ()))) \<and>
     (\<forall>i. wr_calls s i = Some (Returned (Inr ())) \<longrightarrow> i \<in> fst ` set (wr_written s)) \<and>
     distinct (map fst (wr_written s @ wr_queue s))"

lemma writer_inv_start: "writer_inv toB w (writer_start w)"
  by (simp add: writer_inv_def writer_start_def)

lemma writer_inv_fresh:
  "writer_inv toB w s \<Longrightarrow> wr_calls s i = None \<or> wr_calls s i = Some (Checked e) \<Longrightarrow>
     i \<notin> fst ` set (wr_written s) \<and> i \<notin> fst ` set (wr_queue s)"
proof (intro conjI notI; elim imageE)
  fix p
  assume inv: "writer_inv toB w s" and c: "wr_calls s i = None \<or> wr_calls s i = Some (Checked e)"
  show "i = fst p \<Longrightarrow> p \<in> set (wr_written s) \<Longrightarrow> False"
    using inv c by (cases p) (auto simp: writer_inv_def dest!: spec)
  show "i = fst p \<Longrightarrow> p \<in> set (wr_queue s) \<Longrightarrow> False"
    using inv c by (cases p) (auto simp: writer_inv_def dest!: spec)
qed

text \<open>A call that neither waits nor has been answered can be set to anything but success.\<close>

lemma writer_inv_set_call:
  assumes "writer_inv toB w s" and "i \<notin> fst ` set (wr_written s) \<and> i \<notin> fst ` set (wr_queue s)"
    and "x \<noteq> Returned (Inr ())"
  shows "writer_inv toB w (s\<lparr>wr_calls := (wr_calls s)(i \<mapsto> x)\<rparr>)"
proof -
  have "j \<noteq> i" if "(j, e) \<in> set (wr_written s) \<or> (j, e) \<in> set (wr_queue s)" for j e
    using that assms(2) by force
  with assms(1,3) show ?thesis by (auto simp: writer_inv_def)
qed

lemma writer_inv_step:
  assumes "wal_step toB s s'" and inv: "writer_inv toB w s"
  shows "writer_inv toB w s'"
  using assms(1)
proof (cases rule: wal_step.cases)
  case (append_closed i)
  then show ?thesis using writer_inv_fresh [OF inv, of i] by (simp add: writer_inv_set_call [OF inv])
next
  case (append_open i e)
  then show ?thesis using writer_inv_fresh [OF inv, of i] by (simp add: writer_inv_set_call [OF inv])
next
  case (append_send i e)
  note fresh = writer_inv_fresh [OF inv, of i e]
  with append_send have "writer_inv toB w (s\<lparr>wr_calls := (wr_calls s)(i \<mapsto> Waiting e)\<rparr>)"
    by (simp add: writer_inv_set_call [OF inv])
  with append_send fresh show ?thesis by (simp add: writer_inv_def)
next
  case (append_done i e)
  then show ?thesis using writer_inv_fresh [OF inv, of i] by (simp add: writer_inv_set_call [OF inv])
next
  case (writer_write i e q v)
  have wal: "writeEntries toB (map snd (wr_written s) @ [e]) w = Inr v"
    using inv writer_write(4) by (simp add: writer_inv_def writeEntries_append)
  have "i \<notin> fst ` set q"
    using inv writer_write(3) by (simp add: writer_inv_def)
  then have ne: "(i, f) \<notin> set q" for f by (metis fst_conv image_eqI)
  have q: "\<forall>j f. (j, f) \<in> set q \<longrightarrow> wr_calls s j = Some (Waiting f)"
    and written: "\<forall>j f. (j, f) \<in> set (wr_written s) \<longrightarrow> wr_calls s j = Some (Returned (Inr ()))"
    and acked: "\<forall>j. wr_calls s j = Some (Returned (Inr ())) \<longrightarrow> j \<in> fst ` set (wr_written s)"
    and dist: "distinct (map fst ((wr_written s @ [(i, e)]) @ q))"
    using inv writer_write(3) by (simp_all add: writer_inv_def)
  show ?thesis
    unfolding writer_write(1) writer_inv_def
  proof (intro conjI)
    show "distinct (map fst (wr_written (s\<lparr>wr_queue := q,
        wr_calls := (wr_calls s)(i \<mapsto> Returned (Inr ())), wr_wal := v,
        wr_written := wr_written s @ [(i, e)]\<rparr>) @ wr_queue (s\<lparr>wr_queue := q,
        wr_calls := (wr_calls s)(i \<mapsto> Returned (Inr ())), wr_wal := v,
        wr_written := wr_written s @ [(i, e)]\<rparr>)))"
      using dist by simp
  qed (use wal ne q written acked in simp_all)
qed (use inv in \<open>simp_all add: writer_inv_def\<close>)

lemma writer_inv_reach: "(wal_step toB)\<^sup>*\<^sup>* (writer_start w) s \<Longrightarrow> writer_inv toB w s"
  by (induction rule: rtranclp_induct) (auto intro: writer_inv_start writer_inv_step)

text \<open>A request that the writer leaves behind.\<close>

definition abandoned_with :: "nat \<Rightarrow> 'e \<Rightarrow> 'e writer \<Rightarrow> bool" where
  "abandoned_with i e s \<longleftrightarrow> wr_doneCh s \<and> wr_calls s i = Some (Waiting e)"

lemma abandoned_step: "wal_step toB s s' \<Longrightarrow> abandoned_with i e s \<Longrightarrow> abandoned_with i e s'"
  by (auto elim!: wal_step.cases simp: abandoned_with_def)

lemma abandoned_forever: "(wal_step toB)\<^sup>*\<^sup>* s s' \<Longrightarrow> abandoned_with i e s \<Longrightarrow> abandoned_with i e s'"
  by (induction rule: rtranclp_induct) (auto intro: abandoned_step)

section \<open>Properties\<close>

text \<open>C7. In every interleaving of appending goroutines, the writer and a close, the appends that
  returned success are exactly the requests written, each once, and the log is the result of
  writing their entries one after the other.\<close>

theorem acknowledged_is_written:
  assumes "(wal_step toB)\<^sup>*\<^sup>* (writer_start w) s"
  shows "(wr_calls s i = Some (Returned (Inr ()))) = (i \<in> fst ` set (wr_written s)) \<and>
         distinct (map fst (wr_written s)) \<and>
         writeEntries toB (map snd (wr_written s)) w = Inr (wr_wal s)"
proof -
  have inv: "writer_inv toB w s" by (rule writer_inv_reach [OF assms])
  then have "\<forall>j e. (j, e) \<in> set (wr_written s) \<longrightarrow> wr_calls s j = Some (Returned (Inr ()))"
    unfolding writer_inv_def by blast
  then have "wr_calls s (fst p) = Some (Returned (Inr ()))" if "p \<in> set (wr_written s)" for p
    using that by (metis prod.collapse)
  with inv show ?thesis by (auto simp: writer_inv_def)
qed

definition sample_writer :: "bytes writer" where
  "sample_writer =
     (let w = wal_New \<lparr>FilePrefix = ''wal'', MaxFileSize = 100\<rparr> [] in
      \<lparr>wr_closed = False, wr_closeCh = False, wr_doneCh = False, wr_queue = [],
       wr_calls = (\<lambda>i. None)(0 \<mapsto> Returned (Inr ())),
       wr_wal = (case writeEntry Inr [7] w of Inr v \<Rightarrow> v | Inl e \<Rightarrow> w), wr_written = [(0, [7])]\<rparr>)"

lemma sample_writer_reach:
  "(wal_step Inr)\<^sup>*\<^sup>* (writer_start (wal_New \<lparr>FilePrefix = ''wal'', MaxFileSize = 100\<rparr> [])) sample_writer"
proof -
  define w where "w = wal_New \<lparr>FilePrefix = ''wal'', MaxFileSize = 100\<rparr> []"
  obtain v where v: "writeEntry Inr [7] w = Inr v" by (auto simp: writeEntry_def Let_def)
  let ?s0 = "writer_start w :: bytes writer"
  let ?s1 = "?s0\<lparr>wr_calls := (wr_calls ?s0)(0 \<mapsto> Checked [7])\<rparr>"
  let ?s2 = "?s1\<lparr>wr_queue := wr_queue ?s1 @ [(0, [7])], wr_calls := (wr_calls ?s1)(0 \<mapsto> Waiting [7])\<rparr>"
  let ?s3 = "?s2\<lparr>wr_queue := [], wr_calls := (wr_calls ?s2)(0 \<mapsto> Returned (Inr ())), wr_wal := v,
                 wr_written := wr_written ?s2 @ [(0, [7])]\<rparr>"
  have "wal_step Inr ?s0 ?s1" by (rule append_open) (simp_all add: writer_start_def)
  moreover have "wal_step Inr ?s1 ?s2" by (rule append_send) (simp_all add: writer_start_def)
  moreover have "wal_step Inr ?s2 ?s3" by (rule writer_write) (simp_all add: writer_start_def v)
  moreover have "?s3 = sample_writer"
    by (simp add: sample_writer_def Let_def writer_start_def v flip: w_def)
  ultimately show ?thesis
    unfolding w_def [symmetric] by (metis (no_types, lifting) converse_rtranclp_into_rtranclp rtranclp.rtrancl_refl)
qed

lemma acknowledged_is_written_witness:
  "(wr_calls sample_writer 0 = Some (Returned (Inr ()))) = (0 \<in> fst ` set (wr_written sample_writer)) \<and>
   wr_written sample_writer = [(0, [7])] \<and>
   writeEntries Inr (map snd (wr_written sample_writer)) (wal_New \<lparr>FilePrefix = ''wal'', MaxFileSize = 100\<rparr> [])
     = Inr (wr_wal sample_writer)"
  using acknowledged_is_written [OF sample_writer_reach, of 0] by (simp add: sample_writer_def Let_def)

text \<open>An append can wait forever: when the log is closed between the check of the closed flag
  and the send, the writer may end first and the send still succeeds, because the channel has
  room; no later step answers that request.\<close>

theorem append_can_wait_forever:
  fixes w :: WAL
  shows "\<exists>s. (wal_step toB)\<^sup>*\<^sup>* (writer_start w) s \<and>
           (\<forall>s'. (wal_step toB)\<^sup>*\<^sup>* s s' \<longrightarrow> wr_calls s' 0 = Some (Waiting e))"
proof -
  let ?s0 = "writer_start w"
  let ?s1 = "?s0\<lparr>wr_calls := (wr_calls ?s0)(0 \<mapsto> Checked e)\<rparr>"
  let ?s2 = "?s1\<lparr>wr_closed := True, wr_closeCh := True\<rparr>"
  let ?s3 = "?s2\<lparr>wr_doneCh := True\<rparr>"
  let ?s4 = "?s3\<lparr>wr_queue := wr_queue ?s3 @ [(0, e)], wr_calls := (wr_calls ?s3)(0 \<mapsto> Waiting e)\<rparr>"
  have "wal_step toB ?s0 ?s1" by (rule append_open) (simp_all add: writer_start_def)
  moreover have "wal_step toB ?s1 ?s2" by (rule wal_close) (simp add: writer_start_def)
  moreover have "wal_step toB ?s2 ?s3" by (rule writer_exit) (simp_all add: writer_start_def)
  moreover have "wal_step toB ?s3 ?s4" by (rule append_send) (simp_all add: writer_start_def)
  ultimately have "(wal_step toB)\<^sup>*\<^sup>* ?s0 ?s4"
    by (metis (no_types, lifting) converse_rtranclp_into_rtranclp rtranclp.rtrancl_refl)
  moreover have "abandoned_with 0 e ?s4" by (simp add: abandoned_with_def)
  ultimately show ?thesis
    using abandoned_forever [of toB ?s4] unfolding abandoned_with_def by blast
qed

lemma append_can_wait_forever_witness:
  "\<exists>s. (wal_step Inr)\<^sup>*\<^sup>* (writer_start (wal_New \<lparr>FilePrefix = ''wal'', MaxFileSize = 100\<rparr> [])) s \<and>
       (\<forall>s'. (wal_step Inr)\<^sup>*\<^sup>* s s' \<longrightarrow> wr_calls s' 0 = Some (Waiting [1, 2]))"
  by (rule append_can_wait_forever)

end
