(* ===== verification/Sstable.thy ===== *)
theory Sstable
  imports Alli_Prelude
begin

text \<open>
  The sorted-string tables of \<^verbatim>\<open>src/core/storage/sstable\<close>: the layout of header, rows,
  index entries and footer (\<^verbatim>\<open>format.go\<close>), the sequential writer (\<^verbatim>\<open>writer.go\<close>) and
  the reader with its index and binary search (\<^verbatim>\<open>reader.go\<close>).

  An int64 is an \<open>int\<close> in its range, encoded and decoded through 64 bits; \<open>wrap64\<close> is written
  where the code adds two values that come from a file. Offsets into data that is in memory, and the
  writer's running offset, stay below \<open>2 ^ 63\<close>. The writer's \<^verbatim>\<open>io.Writer\<close> takes all it is given.
\<close>

section \<open>Format\<close>

definition Magic :: "32 word" where "Magic = 0x53535442"
definition SSTableVersion :: "16 word" where "SSTableVersion = 1"
definition HeaderSize :: nat where "HeaderSize = 16"
definition FooterSize :: nat where "FooterSize = 24"

definition RowTypeVector :: byte where "RowTypeVector = 1"
definition RowTypeEdge :: byte where "RowTypeEdge = 2"
definition RowTypeChunk :: byte where "RowTypeChunk = 3"
definition RowTypeMeta :: byte where "RowTypeMeta = 4"

record Header =
  hd_Magic :: "32 word"
  hd_Version :: "16 word"
  hd_Reserved :: "16 word"
  hd_DataOffset :: int64

definition EncodeHeader :: "Header \<Rightarrow> bytes go" where
  "EncodeHeader h =
     fill_buffer HeaderSize
       [put_u32 (hd_Magic h), put_u16 (hd_Version h), put_u16 (hd_Reserved h), put_i64 (hd_DataOffset h)]"

definition DecodeHeader :: "bytes \<Rightarrow> Header go" where
  "DecodeHeader data =
     (if length data < HeaderSize then Inl (Fail ''header data too short'')
      else
        let h = \<lparr>hd_Magic = get_u32 (take 4 data), hd_Version = get_u16 (take 2 (drop 4 data)),
                 hd_Reserved = get_u16 (take 2 (drop 6 data)), hd_DataOffset = get_i64 (take 8 (drop 8 data))\<rparr>
        in if hd_Magic h \<noteq> Magic then Inl (Fail ''invalid magic number'')
           else if hd_Version h \<noteq> SSTableVersion then Inl (Fail ''unsupported version'')
           else Inr h)"

record Row =
  row_Type :: byte
  row_EntityID :: string
  row_Data :: bytes
  row_CRC32 :: "32 word"

definition RowSize :: "Row \<Rightarrow> nat" where
  "RowSize r = 1 + 4 + length (row_EntityID r) + 4 + length (row_Data r) + 4"

record Footer =
  ft_IndexOffset :: int64
  ft_IndexSize :: int64
  ft_RowCount :: int64

definition EncodeFooter :: "Footer \<Rightarrow> bytes go" where
  "EncodeFooter f =
     fill_buffer FooterSize [put_i64 (ft_IndexOffset f), put_i64 (ft_IndexSize f), put_i64 (ft_RowCount f)]"

definition DecodeFooter :: "bytes \<Rightarrow> Footer go" where
  "DecodeFooter data =
     (if length data < FooterSize then Inl (Fail ''footer data too short'')
      else Inr \<lparr>ft_IndexOffset = get_i64 (take 8 data), ft_IndexSize = get_i64 (take 8 (drop 8 data)),
                ft_RowCount = get_i64 (take 8 (drop 16 data))\<rparr>)"

record IndexEntry =
  ie_EntityID :: string
  ie_Offset :: int64

definition IndexEntrySize :: "IndexEntry \<Rightarrow> nat" where
  "IndexEntrySize e = 4 + length (ie_EntityID e) + 8"

definition EncodeIndexEntry :: "IndexEntry \<Rightarrow> bytes go" where
  "EncodeIndexEntry e =
     fill_buffer (4 + length (ie_EntityID e) + 8)
       [put_u32 (len32 (ie_EntityID e)), bytes_of (ie_EntityID e), put_i64 (ie_Offset e)]"

definition DecodeIndexEntry :: "bytes \<Rightarrow> nat \<Rightarrow> (IndexEntry \<times> nat) go" where
  "DecodeIndexEntry data off =
     rbind (read_string ''insufficient data for entity ID length''
              ''insufficient data for entity ID'' data off) (\<lambda>(entityID, off).
     rbind (read_u64 ''insufficient data for offset'' data off) (\<lambda>(rowOffset, off).
     Inr (\<lparr>ie_EntityID = entityID, ie_Offset = sint rowOffset\<rparr>, off)))"

subsection \<open>Index entries are a codec\<close>

definition in_int64 :: "int \<Rightarrow> bool" where
  "in_int64 i \<longleftrightarrow> - (2 ^ 63) \<le> i \<and> i < 2 ^ 63"

definition index_entry_enc :: "IndexEntry \<Rightarrow> bytes" where
  "index_entry_enc e = put_string (ie_EntityID e) @ put_i64 (ie_Offset e)"

definition index_entry_ok :: "IndexEntry \<Rightarrow> bool" where
  "index_entry_ok e \<longleftrightarrow> fits32 (ie_EntityID e) \<and> in_int64 (ie_Offset e)"

lemma EncodeIndexEntry_enc [simp]: "EncodeIndexEntry e = Inr (index_entry_enc e)"
  by (simp add: EncodeIndexEntry_def fill_buffer_exact index_entry_enc_def put_string_def)

lemma length_index_entry_enc [simp]: "length (index_entry_enc e) = IndexEntrySize e"
  by (simp add: index_entry_enc_def IndexEntrySize_def)

lemma DecodeIndexEntry_Inr:
  "DecodeIndexEntry data off = Inr (e, off') \<Longrightarrow> off + 12 \<le> off' \<and> off' \<le> length data"
  by (auto simp: DecodeIndexEntry_def rbind_eq_Inr read_u64_Inr dest!: read_string_Inr)

interpretation index_entry: codec index_entry_enc DecodeIndexEntry index_entry_ok
proof
  fix e data off
  assume ok: "index_entry_ok e" and h: "holds data off (index_entry_enc e)"
  from h have h': "holds data off (put_string (ie_EntityID e))"
    "holds data (off + (4 + length (ie_EntityID e))) (put_u64 (word_of_int (ie_Offset e)))"
    by (simp_all add: index_entry_enc_def put_i64_def)
  from ok have f: "fits32 (ie_EntityID e)" and i: "sint (word_of_int (ie_Offset e) :: 64 word) = ie_Offset e"
    using wrap64_id [of "ie_Offset e"] by (simp_all add: index_entry_ok_def in_int64_def wrap64_def)
  show "DecodeIndexEntry data off = Inr (e, off + length (index_entry_enc e))"
    by (simp add: DecodeIndexEntry_def read_string_holds [OF h'(1) f] read_u64_holds [OF h'(2)] i
        IndexEntrySize_def)
next
  fix data :: bytes and off
  show "DecodeIndexEntry data off \<noteq> Inl Panic"
    by (auto simp: DecodeIndexEntry_def rbind_eq_Inl no_panic)
next
  fix data :: bytes and off e off'
  assume "DecodeIndexEntry data off = Inr (e, off')"
  then show "off \<le> off' \<and> off' \<le> length data"
    using DecodeIndexEntry_Inr by fastforce
qed

section \<open>Writer\<close>

record Writer =
  wr_out :: bytes
  wr_offset :: int64
  wr_index :: "IndexEntry list"
  wr_currentEntity :: string
  wr_entityStartOffset :: int64
  wr_rowCount :: int64

definition NewWriter :: Writer where
  "NewWriter = \<lparr>wr_out = [], wr_offset = 0, wr_index = [], wr_currentEntity = [],
     wr_entityStartOffset = 0, wr_rowCount = 0\<rparr>"

definition WriteHeader :: "Writer \<Rightarrow> Writer go" where
  "WriteHeader w =
     (let header = \<lparr>hd_Magic = Magic, hd_Version = SSTableVersion, hd_Reserved = 0,
                    hd_DataOffset = int HeaderSize\<rparr>
      in rbind (EncodeHeader header) (\<lambda>data.
         if length data \<noteq> HeaderSize then Inl (Fail ''incomplete header write'')
         else Inr (w\<lparr>wr_out := wr_out w @ data, wr_offset := int (length data)\<rparr>)))"

definition row_crc_fields :: "Row \<Rightarrow> bytes list" where
  "row_crc_fields row =
     [[row_Type row], put_u32 (len32 (row_EntityID row)), bytes_of (row_EntityID row),
      put_u32 (len32 (row_Data row)), row_Data row]"

definition calculateRowCRC :: "Row \<Rightarrow> (32 word) go" where
  "calculateRowCRC row =
     rbind (fill_buffer (1 + 4 + length (row_EntityID row) + 4 + length (row_Data row)) (row_crc_fields row))
       (\<lambda>crcData. Inr (crc32 crcData))"

definition encodeRow :: "Row \<Rightarrow> 32 word \<Rightarrow> bytes go" where
  "encodeRow row crc =
     fill_buffer (1 + 4 + length (row_EntityID row) + 4 + length (row_Data row) + 4)
       (row_crc_fields row @ [put_u32 crc])"

definition WriteRow :: "Row \<Rightarrow> Writer \<Rightarrow> Writer go" where
  "WriteRow row w =
     (let w = (if row_EntityID row \<noteq> wr_currentEntity w then
                 let w = (if wr_currentEntity w \<noteq> [] then
                            w\<lparr>wr_index := wr_index w @
                                [\<lparr>ie_EntityID = wr_currentEntity w, ie_Offset = wr_entityStartOffset w\<rparr>]\<rparr>
                          else w)
                 in w\<lparr>wr_currentEntity := row_EntityID row, wr_entityStartOffset := wr_offset w\<rparr>
               else w)
      in rbind (calculateRowCRC row) (\<lambda>crc.
         rbind (encodeRow row crc) (\<lambda>rowData.
         Inr (w\<lparr>wr_out := wr_out w @ rowData, wr_offset := wr_offset w + int (length rowData),
                wr_rowCount := wr_rowCount w + 1\<rparr>))))"

fun WriteRows :: "Row list \<Rightarrow> Writer \<Rightarrow> Writer go" where
  "WriteRows [] w = Inr w"
| "WriteRows (r # rs) w = rbind (WriteRow r w) (WriteRows rs)"

definition WriteIndex :: "Writer \<Rightarrow> Writer go" where
  "WriteIndex w =
     (let w = (if wr_currentEntity w \<noteq> [] then
                 w\<lparr>wr_index := wr_index w @
                     [\<lparr>ie_EntityID = wr_currentEntity w, ie_Offset = wr_entityStartOffset w\<rparr>]\<rparr>
               else w);
          w = w\<lparr>wr_index := sort_Slice (\<lambda>a b. ie_EntityID a < ie_EntityID b) (wr_index w)\<rparr>;
          indexOffset = wr_offset w
      in rbind (go_map EncodeIndexEntry (wr_index w)) (\<lambda>entries.
         let w = w\<lparr>wr_out := wr_out w @ concat entries,
                   wr_offset := wr_offset w + int (sum_list (map length entries))\<rparr>;
             indexSize = wr_offset w - indexOffset
         in rbind (EncodeFooter \<lparr>ft_IndexOffset = indexOffset, ft_IndexSize = indexSize,
                                 ft_RowCount = wr_rowCount w\<rparr>) (\<lambda>footerData.
            if length footerData \<noteq> FooterSize then Inl (Fail ''incomplete footer write'')
            else Inr (w\<lparr>wr_out := wr_out w @ footerData\<rparr>))))"

definition writer_Close :: "Writer \<Rightarrow> Writer go" where
  "writer_Close w = WriteIndex w"

text \<open>The way the flush and the compaction use a writer.\<close>

definition write_table :: "Row list \<Rightarrow> bytes go" where
  "write_table rows =
     rbind (WriteHeader NewWriter) (\<lambda>w.
     rbind (WriteRows rows w) (\<lambda>w.
     rbind (writer_Close w) (\<lambda>w. Inr (wr_out w))))"

section \<open>Reader\<close>

record Reader =
  rd_data :: bytes
  rd_header :: Header
  rd_footer :: Footer
  rd_index :: "IndexEntry list"

text \<open>\<^verbatim>\<open>data[lo:hi]\<close> with int64 bounds.\<close>

definition slice64 :: "bytes \<Rightarrow> int64 \<Rightarrow> int64 \<Rightarrow> bytes go" where
  "slice64 data lo hi =
     (if 0 \<le> lo \<and> lo \<le> hi \<and> hi \<le> int (length data) then Inr (take (nat hi - nat lo) (drop (nat lo) data))
      else Inl Panic)"

function loadIndex :: "bytes \<Rightarrow> nat \<Rightarrow> IndexEntry list \<Rightarrow> IndexEntry list go" where
  "loadIndex indexData off index =
     (if off < length indexData then
        case rwrap ''failed to decode index entry'' (DecodeIndexEntry indexData off) of
          Inl e \<Rightarrow> Inl e
        | Inr (entry, newOffset) \<Rightarrow> loadIndex indexData newOffset (index @ [entry])
      else Inr index)"
  by pat_completeness auto
termination
  by (relation "measure (\<lambda>(d, off, index). length d - off)") (auto dest: DecodeIndexEntry_Inr)

declare loadIndex.simps [simp del]

definition NewReader :: "bytes \<Rightarrow> Reader go" where
  "NewReader data =
     (if length data < HeaderSize + FooterSize then Inl (Fail ''file too small'')
      else
        rbind (rwrap ''failed to decode header'' (DecodeHeader (take HeaderSize data))) (\<lambda>header.
        rbind (rwrap ''failed to decode footer'' (DecodeFooter (drop (length data - FooterSize) data))) (\<lambda>footer.
        if ft_IndexOffset footer < 0 \<or> ft_IndexOffset footer \<ge> int (length data)
        then Inl (Fail ''invalid index offset'')
        else if ft_IndexSize footer < 0 \<or>
                wrap64 (ft_IndexOffset footer + ft_IndexSize footer) > int (length data)
        then Inl (Fail ''invalid index size'')
        else
          rbind (slice64 data (ft_IndexOffset footer) (wrap64 (ft_IndexOffset footer + ft_IndexSize footer)))
            (\<lambda>indexData.
          rbind (rwrap ''failed to load index'' (loadIndex indexData 0 [])) (\<lambda>index.
          Inr \<lparr>rd_data = data, rd_header = header, rd_footer = footer, rd_index = index\<rparr>)))))"

definition readRowAt :: "Reader \<Rightarrow> int64 \<Rightarrow> (Row \<times> int64) go" where
  "readRowAt r off =
     (if off < 0 \<or> off \<ge> int (length (rd_data r)) then Inl (Fail ''offset out of bounds'')
      else
        let data = drop (nat off) (rd_data r)
        in if length data < 1 + 4 then Inl (Fail ''insufficient data for row header'')
           else
             rbind (read_string ''insufficient data for entity ID length''
                      ''insufficient data for entity ID'' data 1) (\<lambda>(entityID, cur).
             rbind (read_u32 ''insufficient data for data length'' data cur) (\<lambda>(dataLen, cur).
             rbind (read_bytes ''insufficient data for row data'' (unat dataLen) data cur) (\<lambda>(rowData, cur).
             rbind (read_u32 ''insufficient data for CRC32'' data cur) (\<lambda>(crc, cur).
             let row = \<lparr>row_Type = data ! 0, row_EntityID = entityID, row_Data = rowData, row_CRC32 = crc\<rparr>
             in rbind (calculateRowCRC row) (\<lambda>expectedCRC.
                if row_CRC32 row \<noteq> expectedCRC then Inl (Fail ''CRC32 mismatch'')
                else Inr (row, off + int cur)))))))"

text \<open>The checksum of a row and its encoding, as plain functions.\<close>

definition row_crc :: "Row \<Rightarrow> 32 word" where
  "row_crc row = crc32 (concat (row_crc_fields row))"

definition row_enc :: "Row \<Rightarrow> bytes" where
  "row_enc row = concat (row_crc_fields row) @ put_u32 (row_crc row)"

lemma calculateRowCRC_eq [simp]: "calculateRowCRC row = Inr (row_crc row)"
  by (simp add: calculateRowCRC_def fill_buffer_exact row_crc_fields_def row_crc_def)

lemma encodeRow_eq [simp]: "encodeRow row (row_crc row) = Inr (row_enc row)"
  by (simp add: encodeRow_def fill_buffer_exact row_crc_fields_def row_enc_def)

lemma length_row_enc [simp]: "length (row_enc row) = RowSize row"
  by (simp add: row_enc_def row_crc_fields_def RowSize_def)

lemma row_crc_update [simp]: "row_crc (row\<lparr>row_CRC32 := c\<rparr>) = row_crc row"
  by (simp add: row_crc_def row_crc_fields_def)

lemma readRowAt_Inr:
  assumes "readRowAt r off = Inr (row, next)"
  shows "off + 13 \<le> next \<and> next \<le> int (length (rd_data r)) \<and> row_CRC32 row = row_crc row"
proof -
  let ?d = "drop (nat off) (rd_data r)"
  from assms obtain entityID c n where
    "0 \<le> off" "off < int (length (rd_data r))"
    and s: "read_string ''insufficient data for entity ID length'' ''insufficient data for entity ID'' ?d 1
          = Inr (entityID, c)"
    and "c + 4 + n + 4 \<le> length ?d" "next = off + int (c + 4 + n + 4)" "row_CRC32 row = row_crc row"
    by (auto simp: readRowAt_def Let_def rbind_eq_Inr read_u32_Inr read_bytes_Inr split: if_splits)
  moreover have "5 \<le> c" using read_string_Inr [OF s] by simp
  ultimately show ?thesis by auto
qed

lemma readRowAt_no_panic [no_panic]: "readRowAt r off \<noteq> Inl Panic"
  by (auto simp: readRowAt_def Let_def rbind_eq_Inl no_panic)

function Get_loop :: "Reader \<Rightarrow> string \<Rightarrow> int64 \<Rightarrow> int64 \<Rightarrow> Row list \<Rightarrow> Row list go" where
  "Get_loop r entityID endOffset currentOffset rows =
     (if currentOffset < endOffset then
        case rwrap ''failed to read row'' (readRowAt r currentOffset) of
          Inl e \<Rightarrow> Inl e
        | Inr (row, nextOffset) \<Rightarrow>
            if row_EntityID row \<noteq> entityID then Inr rows
            else Get_loop r entityID endOffset nextOffset (rows @ [row])
      else Inr rows)"
  by pat_completeness auto
termination
  by (relation "measure (\<lambda>(r, i, e, c, rows). nat (e - c))") (auto dest!: readRowAt_Inr)

declare Get_loop.simps [simp del]

definition reader_Get :: "Reader \<Rightarrow> string \<Rightarrow> Row list go" where
  "reader_Get r entityID =
     (let index = rd_index r;
          idx = sort_Search (length index) (\<lambda>i. ie_EntityID (index ! i) \<ge> entityID)
      in if idx \<ge> length index \<or> ie_EntityID (index ! idx) \<noteq> entityID then Inr []
         else
           let off = ie_Offset (index ! idx);
               endOffset = (if idx + 1 < length index then ie_Offset (index ! (idx + 1))
                            else ft_IndexOffset (rd_footer r))
           in Get_loop r entityID endOffset off [])"

definition reader_RowCount :: "Reader \<Rightarrow> int64" where
  "reader_RowCount r = ft_RowCount (rd_footer r)"

definition reader_EntityCount :: "Reader \<Rightarrow> nat" where
  "reader_EntityCount r = length (rd_index r)"

definition reader_GetAllEntityIDs :: "Reader \<Rightarrow> string list" where
  "reader_GetAllEntityIDs r = map ie_EntityID (rd_index r)"

text \<open>Several tables, newest first.\<close>

fun merge_Get :: "Reader list \<Rightarrow> string \<Rightarrow> Row list go" where
  "merge_Get [] entityID = Inr []"
| "merge_Get (r # rs) entityID =
     rbind (rwrap ''failed to read from SSTable'' (reader_Get r entityID)) (\<lambda>rows.
     rbind (merge_Get rs entityID) (\<lambda>more_rows. Inr (rows @ more_rows)))"

definition merge_RowCount :: "Reader list \<Rightarrow> int64" where
  "merge_RowCount rs = fold (\<lambda>r total. wrap64 (total + reader_RowCount r)) rs 0"

definition merge_EntityCount :: "Reader list \<Rightarrow> nat" where
  "merge_EntityCount rs = card (set (concat (map reader_GetAllEntityIDs rs)))"

section \<open>Correctness of the writer\<close>

text \<open>Where the runs of equal entities start, for rows written from an offset on.\<close>

fun run_starts :: "int \<Rightarrow> string \<Rightarrow> Row list \<Rightarrow> IndexEntry list" where
  "run_starts off cur [] = []"
| "run_starts off cur (r # rs) =
     (if row_EntityID r \<noteq> cur
      then \<lparr>ie_EntityID = row_EntityID r, ie_Offset = off\<rparr> # run_starts (off + int (RowSize r)) (row_EntityID r) rs
      else run_starts (off + int (RowSize r)) cur rs)"

definition rows_enc :: "Row list \<Rightarrow> bytes" where
  "rows_enc rows = concat (map row_enc rows)"

definition named :: "Row list \<Rightarrow> bool" where
  "named rows \<longleftrightarrow> list_all (\<lambda>r. row_EntityID r \<noteq> []) rows"

text \<open>The index entries of a writer, with the entity it is in the middle of.\<close>

definition full_index :: "Writer \<Rightarrow> IndexEntry list" where
  "full_index w = wr_index w @
     (if wr_currentEntity w \<noteq> [] then
        [\<lparr>ie_EntityID = wr_currentEntity w, ie_Offset = wr_entityStartOffset w\<rparr>] else [])"

lemma rows_enc_simps [simp]:
  "rows_enc [] = []" "rows_enc (r # rs) = row_enc r @ rows_enc rs"
  "rows_enc (rs @ ss) = rows_enc rs @ rows_enc ss"
  by (simp_all add: rows_enc_def)

lemma WriteRow_result:
  assumes "row_EntityID row \<noteq> []"
  shows "\<exists>w'. WriteRow row w = Inr w' \<and> wr_out w' = wr_out w @ row_enc row \<and>
           wr_offset w' = wr_offset w + int (RowSize row) \<and> wr_rowCount w' = wr_rowCount w + 1 \<and>
           wr_currentEntity w' = row_EntityID row \<and>
           full_index w' = full_index w @ run_starts (wr_offset w) (wr_currentEntity w) [row]"
  using assms by (simp add: WriteRow_def Let_def full_index_def)

lemma WriteRows_result:
  "named rows \<Longrightarrow>
     \<exists>w'. WriteRows rows w = Inr w' \<and> wr_out w' = wr_out w @ rows_enc rows \<and>
          wr_offset w' = wr_offset w + int (length (rows_enc rows)) \<and>
          wr_rowCount w' = wr_rowCount w + int (length rows) \<and>
          full_index w' = full_index w @ run_starts (wr_offset w) (wr_currentEntity w) rows"
proof (induction rows arbitrary: w)
  case Nil
  then show ?case by simp
next
  case (Cons r rows)
  then have "row_EntityID r \<noteq> []" "named rows" by (simp_all add: named_def)
  from WriteRow_result [OF this(1)] obtain w1 where
    w1: "WriteRow r w = Inr w1" "wr_out w1 = wr_out w @ row_enc r"
      "wr_offset w1 = wr_offset w + int (RowSize r)" "wr_rowCount w1 = wr_rowCount w + 1"
      "wr_currentEntity w1 = row_EntityID r"
      "full_index w1 = full_index w @ run_starts (wr_offset w) (wr_currentEntity w) [r]" by blast
  from Cons.IH [OF \<open>named rows\<close>, of w1] w1 show ?case
    by (auto simp: algebra_simps)
qed

definition header_enc :: bytes where
  "header_enc = put_u32 Magic @ put_u16 SSTableVersion @ put_u16 0 @ put_i64 16"

lemma length_header_enc [simp]: "length header_enc = 16"
  by (simp add: header_enc_def)

definition footer_enc :: "int64 \<Rightarrow> int64 \<Rightarrow> int64 \<Rightarrow> bytes" where
  "footer_enc a b c = put_i64 a @ put_i64 b @ put_i64 c"

lemma length_footer_enc [simp]: "length (footer_enc a b c) = 24"
  by (simp add: footer_enc_def)

definition table_index :: "Row list \<Rightarrow> IndexEntry list" where
  "table_index rows =
     sort_Slice (\<lambda>a b. ie_EntityID a < ie_EntityID b) (run_starts 16 [] rows)"

definition index_enc :: "IndexEntry list \<Rightarrow> bytes" where
  "index_enc index = concat (map index_entry_enc index)"

lemma encode_entries [simp]: "go_map EncodeIndexEntry index = Inr (map index_entry_enc index)"
  by (rule go_map_ok) simp

text \<open>The file that the writer makes of named rows.\<close>

definition table_enc :: "Row list \<Rightarrow> bytes" where
  "table_enc rows =
     header_enc @ rows_enc rows @ index_enc (table_index rows) @
     footer_enc (16 + int (length (rows_enc rows))) (int (length (index_enc (table_index rows))))
       (int (length rows))"

lemma WriteRows_total: "\<exists>w'. WriteRows rows w = Inr w'"
  by (induction rows arbitrary: w) (auto simp: WriteRow_def Let_def)

text \<open>The writer's errors are all operating-system errors: in memory, writing never fails.\<close>

lemma write_table_total: "\<exists>file. write_table rows = Inr file"
proof -
  have h: "EncodeHeader hd = Inr (concat [put_u32 (hd_Magic hd), put_u16 (hd_Version hd), put_u16 (hd_Reserved hd), put_i64 (hd_DataOffset hd)])"
    for hd unfolding EncodeHeader_def by (rule fill_buffer_exact) (simp add: HeaderSize_def)
  have f: "EncodeFooter ft = Inr (concat [put_i64 (ft_IndexOffset ft), put_i64 (ft_IndexSize ft), put_i64 (ft_RowCount ft)])"
    for ft unfolding EncodeFooter_def by (rule fill_buffer_exact) (simp add: FooterSize_def)
  obtain w where w: "WriteHeader NewWriter = Inr w"
    by (simp add: WriteHeader_def h HeaderSize_def)
  obtain w1 where w1: "WriteRows rows w = Inr w1"
    using WriteRows_total by blast
  have "\<exists>w2. WriteIndex w1 = Inr w2"
    by (simp add: WriteIndex_def Let_def f FooterSize_def)
  with w w1 show ?thesis
    by (auto simp: write_table_def writer_Close_def)
qed

lemma write_table_enc:
  assumes "named rows"
  shows "write_table rows = Inr (table_enc rows)"
proof -
  have "EncodeHeader \<lparr>hd_Magic = Magic, hd_Version = SSTableVersion, hd_Reserved = 0,
          hd_DataOffset = int HeaderSize\<rparr> = Inr header_enc"
    unfolding EncodeHeader_def by (subst fill_buffer_exact) (simp_all add: HeaderSize_def header_enc_def)
  then obtain w0 where w0: "WriteHeader NewWriter = Inr w0" "wr_out w0 = header_enc" "wr_offset w0 = 16"
      "full_index w0 = []" "wr_currentEntity w0 = []" "wr_rowCount w0 = 0"
    by (simp add: WriteHeader_def HeaderSize_def NewWriter_def full_index_def)
  from WriteRows_result [OF assms, of w0] w0 obtain w1 where
    w1: "WriteRows rows w0 = Inr w1" "wr_out w1 = header_enc @ rows_enc rows"
      "wr_offset w1 = 16 + int (length (rows_enc rows))" "wr_rowCount w1 = int (length rows)"
      "full_index w1 = run_starts 16 [] rows" by auto
  have footer: "EncodeFooter \<lparr>ft_IndexOffset = a, ft_IndexSize = b, ft_RowCount = c\<rparr> = Inr (footer_enc a b c)"
    for a b c
    unfolding EncodeFooter_def by (subst fill_buffer_exact) (simp_all add: FooterSize_def footer_enc_def)
  define wa where "wa = (if wr_currentEntity w1 \<noteq> [] then
      w1\<lparr>wr_index := wr_index w1 @ [\<lparr>ie_EntityID = wr_currentEntity w1, ie_Offset = wr_entityStartOffset w1\<rparr>]\<rparr>
    else w1)"
  have wa: "wr_index wa = run_starts 16 [] rows" "wr_out wa = wr_out w1" "wr_offset wa = wr_offset w1"
    "wr_rowCount wa = wr_rowCount w1"
    using w1(5) by (simp_all add: wa_def full_index_def split: if_splits)
  then have "\<exists>w2. WriteIndex w1 = Inr w2 \<and> wr_out w2 = table_enc rows"
    using w1(2-4) unfolding WriteIndex_def wa_def [symmetric]
    by (simp add: Let_def footer FooterSize_def table_enc_def index_enc_def length_concat o_def
        flip: table_index_def)
  with w0 w1(1) show ?thesis
    by (auto simp: write_table_def writer_Close_def)
qed

section \<open>Correctness of the reader\<close>

lemma loadIndex_enc:
  "list_all index_entry_ok es \<Longrightarrow>
     loadIndex (pre @ index_enc es) (length pre) acc = Inr (acc @ es)"
proof (induction es arbitrary: pre acc)
  case Nil
  then show ?case by (subst loadIndex.simps) (simp add: index_enc_def)
next
  case (Cons e es)
  let ?d = "pre @ index_enc (e # es)"
  have "holds ?d (length pre) (index_entry_enc e)"
    by (simp add: index_enc_def holds_middle)
  with Cons.prems have d: "DecodeIndexEntry ?d (length pre) = Inr (e, length pre + length (index_entry_enc e))"
    by (intro index_entry.dec_enc) simp_all
  have "length pre < length ?d" by (simp add: index_enc_def IndexEntrySize_def)
  then have "loadIndex ?d (length pre) acc = loadIndex ?d (length pre + length (index_entry_enc e)) (acc @ [e])"
    by (subst loadIndex.simps) (simp add: d)
  also have "\<dots> = Inr ((acc @ [e]) @ es)"
    using Cons.IH [of "pre @ index_entry_enc e" "acc @ [e]"] Cons.prems by (simp add: index_enc_def)
  finally show ?case by simp
qed

definition row_ok :: "Row \<Rightarrow> bool" where
  "row_ok r \<longleftrightarrow> row_EntityID r \<noteq> [] \<and> fits32 (row_EntityID r) \<and> fits32 (row_Data r)"

definition stamped :: "Row \<Rightarrow> Row" where
  "stamped r = r\<lparr>row_CRC32 := row_crc r\<rparr>"

lemma readRowAt_holds:
  assumes "holds (rd_data r) off (row_enc row)" and "row_ok row"
  shows "readRowAt r (int off) = Inr (stamped row, int off + int (RowSize row))"
proof -
  let ?d = "drop off (rd_data r)"
  from assms(1) have off: "off + RowSize row \<le> length (rd_data r)" by (simp add: holds_def)
  then have pos: "off < length (rd_data r)" by (simp add: RowSize_def)
  with assms(1) have h: "holds ?d 0 (row_enc row)" by (simp add: holds_drop)
  then have "holds ?d 0 ([row_Type row] @ put_string (row_EntityID row) @ put_u32 (len32 (row_Data row)) @
      row_Data row @ put_u32 (row_crc row))"
    by (simp add: row_enc_def row_crc_fields_def put_string_def del: holds_append)
  then have h': "holds ?d 0 [row_Type row]" "holds ?d 1 (put_string (row_EntityID row))"
    "holds ?d (1 + (4 + length (row_EntityID row))) (put_u32 (len32 (row_Data row)))"
    "holds ?d (1 + (4 + length (row_EntityID row)) + 4) (row_Data row)"
    "holds ?d (1 + (4 + length (row_EntityID row)) + 4 + length (row_Data row)) (put_u32 (row_crc row))"
    unfolding holds_append by simp_all
  from h'(1) have ty: "?d ! 0 = row_Type row"
    by (cases ?d) (auto simp: holds_def)
  from assms(2) have ok: "fits32 (row_EntityID row)" "unat (len32 (row_Data row)) = length (row_Data row)"
    by (simp_all add: row_ok_def)
  have row: "\<lparr>row_Type = row_Type row, row_EntityID = row_EntityID row, row_Data = row_Data row,
      row_CRC32 = row_crc row\<rparr> = stamped row"
    by (simp add: stamped_def)
  have "\<not> length ?d < 1 + 4" using off by (simp add: RowSize_def)
  then have "readRowAt r (int off) = Inr (stamped row, int off + int (1 + (4 + length (row_EntityID row)) + 4 +
      length (row_Data row) + 4))"
    using pos unfolding readRowAt_def Let_def nat_int
    by (simp only: read_string_holds [OF h'(2) ok(1)] read_u32_holds [OF h'(3)] rbind_simps prod.case ok(2)
        read_bytes_holds [OF h'(4) refl] read_u32_holds [OF h'(5)] ty row calculateRowCRC_eq)
      (simp add: stamped_def)
  then show ?thesis by (simp add: RowSize_def)
qed

lemma Get_loop_rows:
  "holds (rd_data r) off (rows_enc grp) \<Longrightarrow> list_all row_ok grp \<Longrightarrow> list_all (\<lambda>x. row_EntityID x = eid) grp \<Longrightarrow>
     Get_loop r eid (int off + int (length (rows_enc grp))) (int off) acc = Inr (acc @ map stamped grp)"
proof (induction grp arbitrary: off acc)
  case Nil
  then show ?case by (subst Get_loop.simps) simp
next
  case (Cons row grp)
  let ?e = "int off + int (length (rows_enc (row # grp)))"
  have "int off < ?e" by (simp add: RowSize_def)
  moreover have "readRowAt r (int off) = Inr (stamped row, int off + int (RowSize row))"
    using Cons.prems by (intro readRowAt_holds) simp_all
  ultimately have "Get_loop r eid ?e (int off) acc = Get_loop r eid ?e (int off + int (RowSize row)) (acc @ [stamped row])"
    using Cons.prems by (subst Get_loop.simps) (simp add: stamped_def)
  also have "\<dots> = Inr ((acc @ [stamped row]) @ map stamped grp)"
    using Cons.IH [of "off + RowSize row" "acc @ [stamped row]"] Cons.prems by (simp add: algebra_simps)
  finally show ?case by simp
qed

subsection \<open>The index of sorted rows\<close>

lemma run_starts_append:
  "run_starts off cur (a @ b) =
     run_starts off cur a @
     run_starts (off + int (length (rows_enc a))) (if a = [] then cur else row_EntityID (last a)) b"
  by (induction a arbitrary: off cur) (auto simp: algebra_simps)

lemma run_starts_set:
  "insert cur (ie_EntityID ` set (run_starts off cur rows)) = insert cur (row_EntityID ` set rows)"
proof (induction rows arbitrary: off cur)
  case Nil
  then show ?case by simp
next
  case (Cons r rows)
  from Cons [where cur = "row_EntityID r"] Cons [where cur = cur] show ?case by auto
qed

lemma run_starts_same: "list_all (\<lambda>r. row_EntityID r = cur) rows \<Longrightarrow> run_starts off cur rows = []"
  by (induction rows arbitrary: off) auto

lemma run_starts_sorted:
  "sorted (map row_EntityID rows) \<Longrightarrow> \<forall>r\<in>set rows. cur \<le> row_EntityID r \<Longrightarrow>
     sorted_wrt (<) (map ie_EntityID (run_starts off cur rows)) \<and>
     (\<forall>e\<in>set (run_starts off cur rows). cur < ie_EntityID e)"
proof (induction rows arbitrary: off cur)
  case Nil
  then show ?case by simp
next
  case (Cons r rows)
  show ?case
  proof (cases "row_EntityID r = cur")
    case True
    with Cons show ?thesis by simp
  next
    case False
    with Cons.prems have "cur < row_EntityID r" by auto
    with Cons.IH [of "row_EntityID r"] Cons.prems show ?thesis by (auto intro: less_trans)
  qed
qed

lemma run_starts_offsets:
  "e \<in> set (run_starts off cur rows) \<Longrightarrow> off \<le> ie_Offset e \<and> ie_Offset e \<le> off + int (length (rows_enc rows))"
  by (induction rows arbitrary: off cur) (fastforce split: if_splits)+

lemma table_index_sorted:
  assumes "sorted (map row_EntityID rows)"
  shows "table_index rows = run_starts 16 [] rows"
    and "sorted_wrt (<) (map ie_EntityID (run_starts 16 [] rows))"
proof -
  show s: "sorted_wrt (<) (map ie_EntityID (run_starts 16 [] rows))"
    using run_starts_sorted [OF assms, of "[]"] by simp
  then have "sorted_wrt (\<lambda>x y. \<not> ie_EntityID y < ie_EntityID x) (run_starts 16 [] rows)"
    by (auto simp: sorted_wrt_map elim!: sorted_wrt_mono_rel [rotated])
  then show "table_index rows = run_starts 16 [] rows"
    unfolding table_index_def by (rule sort_Slice_id)
qed

subsection \<open>Opening a written table\<close>

definition table_footer :: "Row list \<Rightarrow> Footer" where
  "table_footer rows = \<lparr>ft_IndexOffset = 16 + int (length (rows_enc rows)),
     ft_IndexSize = int (length (index_enc (table_index rows))), ft_RowCount = int (length rows)\<rparr>"

definition table_header :: Header where
  "table_header = \<lparr>hd_Magic = Magic, hd_Version = SSTableVersion, hd_Reserved = 0, hd_DataOffset = 16\<rparr>"

definition table_ok :: "Row list \<Rightarrow> bool" where
  "table_ok rows \<longleftrightarrow> list_all row_ok rows \<and> length (table_enc rows) < 2 ^ 63"

lemma table_index_ok:
  assumes "table_ok rows"
  shows "list_all index_entry_ok (table_index rows)"
proof -
  have len: "int (length (rows_enc rows)) + 16 < 2 ^ 63"
    using assms by (simp add: table_ok_def table_enc_def)
  have "index_entry_ok e" if "e \<in> set (run_starts 16 [] rows)" for e
  proof -
    from that run_starts_set [of "[]" 16 rows] have "ie_EntityID e \<in> insert [] (row_EntityID ` set rows)" by blast
    with assms have "fits32 (ie_EntityID e)" by (auto simp: table_ok_def row_ok_def list_all_iff fits32_def)
    with run_starts_offsets [OF that] len show ?thesis by (simp add: index_entry_ok_def in_int64_def)
  qed
  then show ?thesis by (simp add: list_all_iff table_index_def)
qed

lemma rows_le_enc: "length rows \<le> length (rows_enc rows)"
  by (induction rows) (simp_all add: RowSize_def)

lemma NewReader_table:
  assumes ok: "table_ok rows"
  shows "NewReader (table_enc rows) =
    Inr \<lparr>rd_data = table_enc rows, rd_header = table_header, rd_footer = table_footer rows,
         rd_index = table_index rows\<rparr>"
proof -
  let ?d = "table_enc rows" and ?n = "length (rows_enc rows)" and ?i = "index_enc (table_index rows)"
  have len: "length ?d = 16 + ?n + length ?i + 24" by (simp add: table_enc_def)
  with ok have small: "16 + ?n + length ?i < 2 ^ 63" by (simp add: table_ok_def)
  have b: "int (16 + ?n + length ?i) < 2 ^ 63" using small by simp
  have rows: "int (length rows) < 2 ^ 63" using small rows_le_enc [of rows] by simp
  have h: "DecodeHeader (take HeaderSize ?d) = Inr table_header"
    by (simp add: table_enc_def HeaderSize_def header_enc_def DecodeHeader_def table_header_def get_put_i64 Let_def)
  have "drop (length ?d - FooterSize) ?d
      = footer_enc (16 + int ?n) (int (length ?i)) (int (length rows))"
    by (simp add: table_enc_def FooterSize_def)
  then have f: "DecodeFooter (drop (length ?d - FooterSize) ?d) = Inr (table_footer rows)"
    using b rows by (simp add: DecodeFooter_def FooterSize_def footer_enc_def get_put_i64 table_footer_def)
  have w: "wrap64 (ft_IndexOffset (table_footer rows) + ft_IndexSize (table_footer rows))
      = 16 + int ?n + int (length ?i)"
    using b by (simp add: table_footer_def wrap64_id)
  have "slice64 ?d (16 + int ?n) (16 + int ?n + int (length ?i)) = Inr ?i"
    by (simp add: slice64_def len nat_add_distrib) (simp add: table_enc_def)
  then have s: "slice64 ?d (ft_IndexOffset (table_footer rows))
      (wrap64 (ft_IndexOffset (table_footer rows) + ft_IndexSize (table_footer rows))) = Inr ?i"
    by (simp only: w) (simp add: table_footer_def)
  have i: "loadIndex ?i 0 [] = Inr (table_index rows)"
    using loadIndex_enc [OF table_index_ok [OF ok], of "[]" "[]"] by simp
  show ?thesis
    unfolding NewReader_def h f rwrap_Inr rbind_simps s i
    using len by (simp add: w) (simp add: HeaderSize_def FooterSize_def table_footer_def)
qed

subsection \<open>Lookup\<close>

lemma index_search:
  assumes "sorted_wrt (<) (map ie_EntityID index)"
  shows "splits_at (length index) (\<lambda>i. ie_EntityID (index ! i) \<ge> eid)
           (sort_Search (length index) (\<lambda>i. ie_EntityID (index ! i) \<ge> eid))"
proof (rule sort_Search_splits)
  from assms have "sorted (map ie_EntityID index)"
    by (auto elim!: sorted_wrt_mono_rel [rotated])
  then have "ie_EntityID (index ! a) \<le> ie_EntityID (index ! b)" if "a \<le> b" "b < length index" for a b
    using that sorted_nth_mono [of "map ie_EntityID index" a b] by simp
  then show "monotone_below (length index) (\<lambda>i. ie_EntityID (index ! i) \<ge> eid)"
    unfolding monotone_below_def by (meson order_trans)
qed

lemma index_search_hit:
  assumes "sorted_wrt (<) (map ie_EntityID (a @ e # b))"
  shows "sort_Search (length (a @ e # b)) (\<lambda>i. ie_EntityID ((a @ e # b) ! i) \<ge> ie_EntityID e) = length a"
proof (rule splits_at_unique [OF index_search [OF assms]])
  have "\<not> ie_EntityID e \<le> ie_EntityID ((a @ e # b) ! k)" if "k < length a" for k
    using assms that by (auto simp: sorted_wrt_append nth_append not_le)
  moreover have "ie_EntityID e \<le> ie_EntityID ((a @ e # b) ! k)" if "length a \<le> k" "k < length (a @ e # b)" for k
  proof (cases "k - length a")
    case 0
    with that show ?thesis by (simp add: nth_append)
  next
    case (Suc m)
    with that assms show ?thesis by (auto simp: sorted_wrt_append nth_append intro: less_imp_le)
  qed
  ultimately show "splits_at (length (a @ e # b)) (\<lambda>i. ie_EntityID e \<le> ie_EntityID ((a @ e # b) ! i)) (length a)"
    by (simp add: splits_at_def)
qed

lemma index_around:
  assumes rows: "rows = pre @ grp @ post"
    and eid: "eid \<noteq> []" and grp: "grp \<noteq> []"
  assumes pre: "list_all (\<lambda>r. row_EntityID r < eid) pre" and mid: "list_all (\<lambda>r. row_EntityID r = eid) grp"
    and post: "list_all (\<lambda>r. eid < row_EntityID r) post"
  shows "\<exists>A B. run_starts 16 [] rows =
           A @ \<lparr>ie_EntityID = eid, ie_Offset = 16 + int (length (rows_enc pre))\<rparr> # B \<and>
         (post = [] \<longrightarrow> B = []) \<and>
         (post \<noteq> [] \<longrightarrow> B \<noteq> [] \<and>
            ie_Offset (hd B) = 16 + int (length (rows_enc pre)) + int (length (rows_enc grp)))"
proof -
  let ?off = "16 + int (length (rows_enc pre))"
  let ?cur = "if pre = [] then [] else row_EntityID (last pre)"
  obtain g gs where g: "grp = g # gs" "row_EntityID g = eid" "list_all (\<lambda>r. row_EntityID r = eid) gs"
    using grp mid by (cases grp) auto
  have "?cur \<noteq> eid" using eid pre by (auto simp: list_all_iff)
  then have "run_starts ?off ?cur grp = [\<lparr>ie_EntityID = eid, ie_Offset = ?off\<rparr>]"
    using g by (simp add: run_starts_same)
  moreover have "row_EntityID (last grp) = eid"
    using grp mid by (simp add: list_all_iff)
  ultimately have "run_starts 16 [] rows = run_starts 16 [] pre @ \<lparr>ie_EntityID = eid, ie_Offset = ?off\<rparr> #
      run_starts (?off + int (length (rows_enc grp))) eid post"
    using grp by (simp add: rows run_starts_append)
  moreover have "post \<noteq> [] \<longrightarrow> run_starts (?off + int (length (rows_enc grp))) eid post \<noteq> [] \<and>
      ie_Offset (hd (run_starts (?off + int (length (rows_enc grp))) eid post)) = ?off + int (length (rows_enc grp))"
    using post by (cases post) auto
  ultimately show ?thesis
    by (intro exI [of _ "run_starts 16 [] pre"] exI [of _ "run_starts (?off + int (length (rows_enc grp))) eid post"])
      simp
qed

lemma reader_Get_table:
  assumes ok: "table_ok rows" and sorted: "sorted (map row_EntityID rows)" and eid: "eid \<noteq> []"
  defines "r \<equiv> \<lparr>rd_data = table_enc rows, rd_header = table_header, rd_footer = table_footer rows,
                 rd_index = table_index rows\<rparr>"
  shows "reader_Get r eid = Inr (map stamped (filter (\<lambda>x. row_EntityID x = eid) rows))"
proof -
  let ?pre = "filter (\<lambda>x. row_EntityID x < eid) rows" and ?grp = "filter (\<lambda>x. row_EntityID x = eid) rows"
    and ?post = "filter (\<lambda>x. eid < row_EntityID x) rows"
  have rows: "rows = ?pre @ ?grp @ ?post"
    by (rule filter_thirds [OF sorted])
  have index: "rd_index r = run_starts 16 [] rows" and strict: "sorted_wrt (<) (map ie_EntityID (rd_index r))"
    using table_index_sorted [OF sorted] by (simp_all add: r_def)
  show ?thesis
  proof (cases "?grp = []")
    case True
    then have "eid \<notin> ie_EntityID ` set (rd_index r)"
      using run_starts_set [of "[]" 16 rows] eid by (auto simp: index filter_empty_conv)
    then have "\<not> i < length (rd_index r) \<or> ie_EntityID (rd_index r ! i) \<noteq> eid" for i
      by (metis image_eqI nth_mem)
    with True show ?thesis
      by (simp add: reader_Get_def Let_def not_less)
  next
    case False
    define off where "off = 16 + length (rows_enc ?pre)"
    obtain A B where AB: "rd_index r = A @ \<lparr>ie_EntityID = eid, ie_Offset = int off\<rparr> # B"
      and B: "?post = [] \<Longrightarrow> B = []"
        "?post \<noteq> [] \<Longrightarrow> B \<noteq> [] \<and> ie_Offset (hd B) = int off + int (length (rows_enc ?grp))"
      using index_around [OF rows eid False] by (auto simp: index off_def list_all_iff)
    have hit: "sort_Search (length (rd_index r)) (\<lambda>i. ie_EntityID (rd_index r ! i) \<ge> eid) = length A"
      using index_search_hit [of A _ B] strict unfolding AB by fastforce
    have "int (length (rows_enc rows)) = int (length (rows_enc ?pre)) + int (length (rows_enc ?grp)) +
        int (length (rows_enc ?post))"
      by (subst rows) (simp only: rows_enc_simps length_append of_nat_add)
    moreover have "ft_IndexOffset (rd_footer r) = 16 + int (length (rows_enc rows))"
      by (simp add: r_def table_footer_def)
    ultimately have last: "?post = [] \<Longrightarrow> ft_IndexOffset (rd_footer r) = int off + int (length (rows_enc ?grp))"
      by (simp add: off_def)
    have endOffset: "(if length A + 1 < length (rd_index r) then ie_Offset (rd_index r ! (length A + 1))
        else ft_IndexOffset (rd_footer r)) = int off + int (length (rows_enc ?grp))"
    proof (cases "?post = []")
      case True
      with B(1) last show ?thesis by (simp add: AB)
    next
      case False
      with B(2) show ?thesis by (cases B) (simp_all add: AB nth_append)
    qed
    have "holds (rd_data r) 0 (header_enc @ rows_enc rows)"
      by (simp add: r_def table_enc_def holds_def)
    then have "holds (rd_data r) 0 (header_enc @ rows_enc ?pre @ rows_enc ?grp @ rows_enc ?post)"
      by (subst (asm) rows) (simp only: rows_enc_simps append_assoc)
    then have "holds (rd_data r) off (rows_enc ?grp)"
      by (simp add: off_def)
    moreover have "list_all row_ok ?grp"
      using ok by (auto simp: table_ok_def list_all_iff)
    ultimately have loop: "Get_loop r eid (int off + int (length (rows_enc ?grp))) (int off) [] = Inr (map stamped ?grp)"
      using Get_loop_rows [of r off ?grp eid "[]"] by (simp add: list_all_iff)
    show ?thesis
      unfolding reader_Get_def Let_def hit endOffset by (simp add: AB loop)
  qed
qed

text \<open>The index is no longer than the rows, so a bound on the rows bounds the file.\<close>

lemma index_le_rows: "length (index_enc (run_starts off cur rows)) \<le> length (rows_enc rows)"
proof (induction rows arbitrary: off cur)
  case Nil
  then show ?case by (simp add: index_enc_def)
next
  case (Cons r rows)
  from Cons [of "off + int (RowSize r)" "row_EntityID r"] Cons [of "off + int (RowSize r)" cur]
  show ?case by (auto simp: index_enc_def IndexEntrySize_def RowSize_def)
qed

lemma length_index_enc: "length (index_enc es) = sum_list (map IndexEntrySize es)"
  by (simp add: index_enc_def length_concat o_def)

lemma table_index_length: "length (index_enc (table_index rows)) = length (index_enc (run_starts 16 [] rows))"
proof -
  have "mset (map IndexEntrySize (table_index rows)) = mset (map IndexEntrySize (run_starts 16 [] rows))"
    by (simp add: table_index_def)
  then have "sum_list (map IndexEntrySize (table_index rows)) = sum_list (map IndexEntrySize (run_starts 16 [] rows))"
    by (metis sum_mset_sum_list)
  then show ?thesis by (simp add: length_index_enc)
qed

lemma small_table_ok:
  assumes "list_all row_ok rows" and "length (rows_enc rows) < 1000"
  shows "table_ok rows"
  using assms index_le_rows [of 16 "[]" rows]
  by (simp add: table_ok_def table_enc_def table_index_length)

section \<open>Properties\<close>

lemma Get_loop_intact:
  "Get_loop r eid e off acc = Inr rows \<Longrightarrow>
     list_all (\<lambda>row. row_EntityID row = eid \<and> row_CRC32 row = row_crc row) acc \<Longrightarrow>
     list_all (\<lambda>row. row_EntityID row = eid \<and> row_CRC32 row = row_crc row) rows"
proof (induction r eid e off acc rule: Get_loop.induct)
  case (1 r eid e off acc)
  show ?case
  proof (cases "off < e")
    case False
    with 1 show ?thesis by (simp add: Get_loop.simps [of r eid e off])
  next
    case True
    with 1(2) obtain row nx where row: "readRowAt r off = Inr (row, nx)"
      by (cases "readRowAt r off") (auto simp: Get_loop.simps [of r eid e off] rwrap_def split: go_error.splits)
    then have crc: "row_CRC32 row = row_crc row" using readRowAt_Inr by blast
    show ?thesis
    proof (cases "row_EntityID row = eid")
      case False
      with 1(2,3) True row show ?thesis by (simp add: Get_loop.simps [of r eid e off])
    next
      case eid: True
      with 1(2) True row have "Get_loop r eid e nx (acc @ [row]) = Inr rows"
        by (simp add: Get_loop.simps [of r eid e off])
      with 1(1) [OF True, of "(row, nx)" row nx] 1(3) row eid crc show ?thesis by simp
    qed
  qed
qed

lemma Get_loop_no_panic [no_panic]: "Get_loop r eid e off acc \<noteq> Inl Panic"
proof (induction r eid e off acc rule: Get_loop.induct)
  case (1 r eid e off acc)
  then show ?case
    using readRowAt_no_panic [of r off]
    by (cases "readRowAt r off")
      (auto simp: Get_loop.simps [of r eid e off] rwrap_def split: go_error.splits if_splits)
qed

text \<open>C6. A table written from rows in the order of their entities opens, and a lookup of any
  entity returns exactly the rows written for it, in order and with their checksums: the encoding,
  the index built while writing, the binary search and the end of the entity's run fit together.\<close>

theorem sstable_lookup:
  assumes "table_ok rows" and "sorted (map row_EntityID rows)"
  shows "\<exists>file r. write_table rows = Inr file \<and> NewReader file = Inr r \<and>
           reader_RowCount r = int (length rows) \<and>
           (\<forall>eid. eid \<noteq> [] \<longrightarrow> reader_Get r eid = Inr (map stamped (filter (\<lambda>x. row_EntityID x = eid) rows)))"
proof -
  have "named rows" using assms(1) by (auto simp: table_ok_def named_def row_ok_def list_all_iff)
  with write_table_enc NewReader_table [OF assms(1)] reader_Get_table [OF assms] show ?thesis
    by (auto simp: reader_RowCount_def table_footer_def)
qed

definition sample_rows :: "Row list" where
  "sample_rows =
     [\<lparr>row_Type = RowTypeMeta, row_EntityID = ''a'', row_Data = [1, 2], row_CRC32 = 0\<rparr>,
      \<lparr>row_Type = RowTypeVector, row_EntityID = ''b'', row_Data = [], row_CRC32 = 0\<rparr>,
      \<lparr>row_Type = RowTypeEdge, row_EntityID = ''b'', row_Data = [9], row_CRC32 = 0\<rparr>]"

lemma sample_rows_ok: "table_ok sample_rows" "sorted (map row_EntityID sample_rows)"
  by (rule small_table_ok) (simp_all add: sample_rows_def row_ok_def fits32_def RowSize_def)

lemma sstable_lookup_witness:
  "\<exists>file r. write_table sample_rows = Inr file \<and> NewReader file = Inr r \<and>
     reader_Get r ''b'' = Inr (map stamped (tl sample_rows)) \<and> reader_Get r ''c'' = Inr []"
proof -
  obtain bs r where r: "write_table sample_rows = Inr bs" "NewReader bs = Inr r"
    "\<forall>eid. eid \<noteq> [] \<longrightarrow> reader_Get r eid = Inr (map stamped (filter (\<lambda>x. row_EntityID x = eid) sample_rows))"
    using sstable_lookup [OF sample_rows_ok] by blast
  then have "reader_Get r ''b'' = Inr (map stamped (tl sample_rows)) \<and> reader_Get r ''c'' = Inr []"
    by (simp add: sample_rows_def)
  with r show ?thesis by blast
qed

text \<open>C9. Whatever bytes a reader was opened on, a lookup never panics, and every row it returns
  belongs to the entity asked for and carries the checksum of its own contents.\<close>

theorem lookup_returns_intact_rows:
  "reader_Get r eid \<noteq> Inl Panic \<and>
   (\<forall>rows. reader_Get r eid = Inr rows \<longrightarrow>
      list_all (\<lambda>row. row_EntityID row = eid \<and> row_CRC32 row = row_crc row) rows)"
  using Get_loop_intact [of r eid _ _ "[]"] Get_loop_no_panic [of r eid]
  by (auto simp: reader_Get_def Let_def split: if_splits)

lemma lookup_returns_intact_rows_witness:
  "\<exists>r rows. reader_Get r ''a'' = Inr rows \<and> rows \<noteq> [] \<and>
     list_all (\<lambda>row. row_EntityID row = ''a'' \<and> row_CRC32 row = row_crc row) rows"
proof -
  have "reader_Get \<lparr>rd_data = table_enc sample_rows, rd_header = table_header,
      rd_footer = table_footer sample_rows, rd_index = table_index sample_rows\<rparr> ''a'' =
      Inr (map stamped [hd sample_rows])"
    by (subst reader_Get_table [OF sample_rows_ok]) (simp_all add: sample_rows_def)
  then show ?thesis
    using lookup_returns_intact_rows by blast
qed

text \<open>Opening a file can panic: the sum of index offset and index size wraps around, passes
  the bounds check and is then used as the end of a slice.\<close>

theorem open_overflow_panics:
  "\<exists>file. length file = 40 \<and> NewReader file = Inl Panic"
proof -
  let ?f = "header_enc @ footer_enc 16 (2 ^ 63 - 1) 0"
  have h: "DecodeHeader (take HeaderSize ?f) = Inr table_header"
    by (simp add: HeaderSize_def header_enc_def DecodeHeader_def table_header_def get_put_i64 Let_def)
  have f: "DecodeFooter (drop (length ?f - FooterSize) ?f) =
      Inr \<lparr>ft_IndexOffset = 16, ft_IndexSize = 2 ^ 63 - 1, ft_RowCount = 0\<rparr>"
    by (simp add: DecodeFooter_def FooterSize_def footer_enc_def get_put_i64)
  have w: "wrap64 (16 + (2 ^ 63 - 1)) = - (2 ^ 63) + 15"
    using wrap64_id [of "- (2 ^ 63) + 15"] by (simp add: wrap64_def)
  have "NewReader ?f = Inl Panic"
    unfolding NewReader_def h f rwrap_Inr rbind_simps
    by (simp add: w [simplified] slice64_def HeaderSize_def FooterSize_def)
  then show ?thesis by (intro exI [of _ ?f]) simp
qed

text \<open>Rows written out of order are lost to lookups, not only slower to find: with two rows
  of descending entities the second one's run ends before it starts, and its lookup finds no row.\<close>

theorem unsorted_row_lost:
  assumes "table_ok [a, b]" and "row_EntityID b < row_EntityID a"
  shows "\<exists>file r. write_table [a, b] = Inr file \<and> NewReader file = Inr r \<and>
           reader_Get r (row_EntityID b) = Inr []"
proof -
  have "named [a, b]" using assms(1) by (auto simp: table_ok_def named_def row_ok_def)
  let ?ea = "\<lparr>ie_EntityID = row_EntityID a, ie_Offset = 16\<rparr>"
    and ?eb = "\<lparr>ie_EntityID = row_EntityID b, ie_Offset = 16 + int (RowSize a)\<rparr>"
  have "row_EntityID a \<noteq> []" "row_EntityID b \<noteq> row_EntityID a"
    using \<open>named [a, b]\<close> assms(2) by (auto simp: named_def)
  then have index: "table_index [a, b] = [?eb, ?ea]"
    using assms(2) by (simp add: table_index_def)
  let ?r = "\<lparr>rd_data = table_enc [a, b], rd_header = table_header, rd_footer = table_footer [a, b],
      rd_index = [?eb, ?ea]\<rparr>"
  have "sort_Search 2 (\<lambda>i. row_EntityID b \<le> ie_EntityID ([?eb, ?ea] ! i)) = 0"
    using index_search_hit [of "[]" ?eb "[?ea]"] assms(2) by (simp add: numeral_2_eq_2)
  then have "reader_Get ?r (row_EntityID b) = Inr []"
    by (simp add: reader_Get_def Let_def Get_loop.simps [of _ _ 16] numeral_2_eq_2)
  with write_table_enc [OF \<open>named [a, b]\<close>] NewReader_table [OF assms(1)] index show ?thesis by auto
qed

lemma unsorted_row_lost_witness:
  "\<exists>file r. write_table [sample_rows ! 1, sample_rows ! 0] = Inr file \<and> NewReader file = Inr r \<and>
     reader_Get r ''a'' = Inr []"
proof -
  let ?a = "sample_rows ! 0" and ?b = "sample_rows ! 1"
  have "table_ok [?b, ?a]"
    by (rule small_table_ok) (simp_all add: sample_rows_def row_ok_def fits32_def RowSize_def)
  moreover have "row_EntityID ?a < row_EntityID ?b" "row_EntityID ?a = ''a''"
    by (simp_all add: sample_rows_def)
  ultimately show ?thesis
    using unsorted_row_lost [of ?b ?a] by simp
qed

end
