(* ===== verification/Scheduling.thy ===== *)
theory Scheduling
  imports Alli_Prelude
begin

text \<open>
  Two interfaces that several components share: the job queue that is sorted by priority after every
  insertion (the compaction manager and the repair scheduler), and the limiter that counts what it
  admits in a window of one second (the IO limiter of the compaction, the rate limiter of the
  repairs).
\<close>

section \<open>Priority queues\<close>

locale prio_queue =
  fixes put :: "'j \<Rightarrow> 'j list \<Rightarrow> 'j list"
    and take_first :: "'j list \<Rightarrow> ('j \<times> 'j list) option"
    and prio :: "'j \<Rightarrow> int"
  assumes put_mset: "mset (put j q) = add_mset j (mset q)"
    and put_sorted: "sorted_wrt (\<lambda>a b. prio a \<ge> prio b) (put j q)"
    and take_empty: "take_first [] = None"
    and take_Cons: "take_first (j # q) = Some (j, q)"
begin

abbreviation by_prio :: "'j list \<Rightarrow> bool" where
  "by_prio \<equiv> sorted_wrt (\<lambda>a b. prio a \<ge> prio b)"

lemma take_first_max:
  assumes "by_prio q" and "take_first q = Some (j, q')"
  shows "(\<forall>k \<in> set q. prio k \<le> prio j) \<and> mset q = add_mset j (mset q') \<and> by_prio q'"
  using assms by (cases q) (auto simp: take_empty take_Cons)

lemma take_first_None: "take_first q = None \<longleftrightarrow> q = []"
  by (cases q) (auto simp: take_empty take_Cons)

lemma puts_mset: "mset (fold put js q) = mset js + mset q"
  by (induction js arbitrary: q) (auto simp: put_mset)

lemma puts_sorted: "by_prio q \<Longrightarrow> by_prio (fold put js q)"
  by (induction js arbitrary: q) (auto simp: put_sorted)

end

text \<open>Taking jobs until the queue is empty; a queue is as long as the jobs it holds.\<close>

fun drain :: "('j list \<Rightarrow> ('j \<times> 'j list) option) \<Rightarrow> nat \<Rightarrow> 'j list \<Rightarrow> 'j list" where
  "drain take_first 0 q = []"
| "drain take_first (Suc n) q =
     (case take_first q of None \<Rightarrow> [] | Some (j, q) \<Rightarrow> j # drain take_first n q)"

context prio_queue
begin

lemma drain_all: "length q \<le> n \<Longrightarrow> drain take_first n q = q"
proof (induction n arbitrary: q)
  case 0
  then show ?case by simp
next
  case (Suc n)
  then show ?case by (cases q) (auto simp: take_empty take_Cons)
qed

lemma serves_by_priority:
  "sorted_wrt (\<lambda>a b. prio a \<ge> prio b) (drain take_first (length js) (fold put js [])) \<and>
   mset (drain take_first (length js) (fold put js [])) = mset js"
proof -
  have m: "mset (fold put js []) = mset js" by (simp add: puts_mset)
  then have "length (fold put js []) = length js" by (metis size_mset)
  then have "drain take_first (length js) (fold put js []) = fold put js []"
    by (intro drain_all) simp
  with m puts_sorted [of "[]" js] show ?thesis by simp
qed

end

section \<open>Window limiters\<close>

definition Second :: int where "Second = 1000000000"

text \<open>
  \<open>allow now x s\<close> admits \<open>x\<close> or not. What has been used starts again at zero, and the window at
  \<open>now\<close>, when the window is a second old. \<open>fits s x\<close>: the counters do not overflow when \<open>x\<close> is added to
  what at most the limit has used; only then what has been used is known to stay within the limit.
\<close>

locale window_limiter =
  fixes allow :: "time \<Rightarrow> 'x \<Rightarrow> 's \<Rightarrow> bool \<times> 's"
    and window_start :: "'s \<Rightarrow> time"
    and used :: "'s \<Rightarrow> int"
    and limit :: "'s \<Rightarrow> int"
    and weight :: "'x \<Rightarrow> int"
    and fits :: "'s \<Rightarrow> 'x \<Rightarrow> bool"
  assumes same_window: "now - window_start s < Second \<Longrightarrow> window_start (snd (allow now x s)) = window_start s"
    and new_window: "now - window_start s \<ge> Second \<Longrightarrow> window_start (snd (allow now x s)) = now"
    and admitted: "fst (allow now x s) \<Longrightarrow> fits s x \<Longrightarrow> 0 \<le> used s \<Longrightarrow> used s \<le> limit s \<Longrightarrow>
      used (snd (allow now x s)) = (if now - window_start s < Second then used s else 0) + weight x \<and>
      used (snd (allow now x s)) \<le> limit s"
    and refused: "\<not> fst (allow now x s) \<Longrightarrow>
      used (snd (allow now x s)) = (if now - window_start s < Second then used s else 0)"
    and same_limit: "limit (snd (allow now x s)) = limit s"
    and same_fits: "fits (snd (allow now x s)) y \<longleftrightarrow> fits s y"
    and weight_nonneg: "fits s x \<Longrightarrow> 0 \<le> weight x"

text \<open>The total weight admitted in \<open>[a, a + 1s)\<close> of a sequence of calls.\<close>

fun admitted_weight ::
  "(time \<Rightarrow> 'x \<Rightarrow> 's \<Rightarrow> bool \<times> 's) \<Rightarrow> ('x \<Rightarrow> int) \<Rightarrow> time \<Rightarrow> (time \<times> 'x) list \<Rightarrow> 's \<Rightarrow> int" where
  "admitted_weight allow weight a [] s = 0"
| "admitted_weight allow weight a ((now, x) # calls) s =
     (if fst (allow now x s) \<and> a \<le> now \<and> now < a + Second then weight x else 0) +
     admitted_weight allow weight a calls (snd (allow now x s))"

context window_limiter
begin

abbreviation total :: "time \<Rightarrow> (time \<times> 'x) list \<Rightarrow> 's \<Rightarrow> int" where
  "total \<equiv> admitted_weight allow weight"

abbreviation in_bounds :: "'s \<Rightarrow> bool" where
  "in_bounds s \<equiv> 0 \<le> used s \<and> used s \<le> limit s"

abbreviation all_fit :: "'s \<Rightarrow> (time \<times> 'x) list \<Rightarrow> bool" where
  "all_fit s calls \<equiv> \<forall>c \<in> set calls. fits s (snd c)"

lemma in_bounds_allow: "in_bounds s \<Longrightarrow> fits s x \<Longrightarrow> in_bounds (snd (allow now x s))"
  using admitted [of now x s] refused [of now x s] same_limit [of now x s] weight_nonneg [of s x]
  by (cases "fst (allow now x s)") (auto split: if_splits)

lemma used_allow:
  "in_bounds s \<Longrightarrow> fits s x \<Longrightarrow>
     used (snd (allow now x s)) =
       (if now - window_start s < Second then used s else 0) + (if fst (allow now x s) then weight x else 0)"
  using admitted [of now x s] refused [of now x s] by simp

text \<open>Past the interval nothing counts.\<close>

lemma total_after:
  "\<forall>c \<in> set calls. a + Second \<le> fst c \<Longrightarrow> total a calls s = 0"
  by (induction calls arbitrary: s) auto

text \<open>In a window that starts inside the interval, what is left of the limit.\<close>

lemma total_inside:
  "a \<le> window_start s \<Longrightarrow> in_bounds s \<Longrightarrow> all_fit s calls \<Longrightarrow> sorted (map fst calls) \<Longrightarrow> total a calls s \<le> limit s - used s"
proof (induction calls arbitrary: s)
  case Nil
  then show ?case by simp
next
  case (Cons c calls)
  obtain now x where c: "c = (now, x)" by (cases c)
  let ?s = "snd (allow now x s)"
  have b: "in_bounds ?s" "all_fit ?s calls" "0 \<le> weight x"
    using Cons.prems by (simp_all add: in_bounds_allow same_fits c weight_nonneg [of s])
  have u: "used ?s = (if now - window_start s < Second then used s else 0) +
      (if fst (allow now x s) then weight x else 0)"
    using Cons.prems by (intro used_allow) (simp_all add: c)
  show ?case
  proof (cases "now - window_start s < Second")
    case True
    then have "total a calls ?s \<le> limit ?s - used ?s"
      using Cons.prems b by (intro Cons.IH) (simp_all add: same_window c)
    with True show ?thesis
      using u b Cons.prems by (cases "fst (allow now x s)") (auto simp: c same_limit)
  next
    case False
    with Cons.prems(1) have "a + Second \<le> now" by simp
    moreover from this Cons.prems(4) have "\<forall>d \<in> set calls. a + Second \<le> fst d"
      by (auto simp: c intro: order_trans)
    ultimately show ?thesis using Cons.prems(2) by (simp add: c total_after)
  qed
qed

text \<open>From the start of the interval on, one more window.\<close>

lemma total_entered:
  "in_bounds s \<Longrightarrow> all_fit s calls \<Longrightarrow> sorted (map fst calls) \<Longrightarrow> \<forall>c \<in> set calls. a \<le> fst c \<Longrightarrow>
     total a calls s \<le> 2 * limit s - used s"
proof (induction calls arbitrary: s)
  case Nil
  then show ?case by simp
next
  case (Cons c calls)
  obtain now x where c: "c = (now, x)" by (cases c)
  let ?s = "snd (allow now x s)"
  have b: "in_bounds ?s" "all_fit ?s calls" "0 \<le> weight x"
    using Cons.prems by (simp_all add: in_bounds_allow same_fits c weight_nonneg [of s])
  have u: "used ?s = (if now - window_start s < Second then used s else 0) +
      (if fst (allow now x s) then weight x else 0)"
    using Cons.prems by (intro used_allow) (simp_all add: c)
  show ?case
  proof (cases "now - window_start s < Second")
    case True
    have "total a calls ?s \<le> 2 * limit ?s - used ?s"
      using Cons.prems b by (intro Cons.IH) (simp_all add: c)
    with True show ?thesis
      using u b Cons.prems by (cases "fst (allow now x s)") (auto simp: c same_limit)
  next
    case False
    then have "window_start ?s = now" by (simp add: new_window)
    with Cons.prems have "total a calls ?s \<le> limit ?s - used ?s"
      using b by (intro total_inside) (simp_all add: c)
    with False show ?thesis
      using u b Cons.prems by (cases "fst (allow now x s)") (auto simp: c same_limit)
  qed
qed

lemma burst_bound:
  "in_bounds s \<Longrightarrow> all_fit s calls \<Longrightarrow> sorted (map fst calls) \<Longrightarrow> total a calls s \<le> 2 * limit s"
proof (induction calls arbitrary: s)
  case Nil
  then show ?case by simp
next
  case (Cons c calls)
  obtain now x where c: "c = (now, x)" by (cases c)
  show ?case
  proof (cases "a \<le> now")
    case True
    with Cons.prems have "\<forall>d \<in> set (c # calls). a \<le> fst d" by (auto simp: c)
    with Cons.prems total_entered [of s "c # calls" a] show ?thesis by simp
  next
    case False
    with Cons.IH [of "snd (allow now x s)"] Cons.prems in_bounds_allow [of s x now] show ?thesis
      by (simp add: c same_limit same_fits)
  qed
qed

end

end
