(* ===== verification/Compaction.thy ===== *)
theory Compaction
  imports Sstable Scheduling
begin

text \<open>
  The compaction of \<^verbatim>\<open>src/core/storage/compaction\<close>: the size-tiered planner
  (\<^verbatim>\<open>planner.go\<close>), the executor that merges tables into a new one (\<^verbatim>\<open>executor.go\<close>)
  and the manager with its job queue and IO limiter (\<^verbatim>\<open>manager.go\<close>).

  The directory holds, for each file name, its contents and modification time; a path is the name
  in that directory. File operations on existing files succeed. The clock is an argument. The map
  of entity identifiers in the merge is only iterated to be sorted, so its order plays no role.
\<close>

type_synonym sst_dir = "(string \<times> (bytes \<times> time)) list"

section \<open>Planner\<close>

record SSTableInfo =
  si_Path :: string
  si_Size :: int
  si_Age :: int
  si_RowCount :: int
  si_Reader :: Reader
  si_CreatedAt :: time

record PlannerConfig =
  pc_SSTablePrefix :: string
  pc_MinSize :: int
  pc_MaxAge :: int

record Planner =
  pl_sstablePrefix :: string
  pl_minSize :: int
  pl_maxAge :: int

definition Hour :: int where "Hour = 3600 * Second"

definition DefaultPlannerConfig :: PlannerConfig where
  "DefaultPlannerConfig =
     \<lparr>pc_SSTablePrefix = ''sstable'', pc_MinSize = 1 * 1024 * 1024, pc_MaxAge = 1 * Hour\<rparr>"

definition NewPlanner :: "PlannerConfig \<Rightarrow> Planner" where
  "NewPlanner config =
     \<lparr>pl_sstablePrefix = pc_SSTablePrefix config, pl_minSize = pc_MinSize config,
      pl_maxAge = pc_MaxAge config\<rparr>"

text \<open>A table that does not open is skipped; a panic of the reader is not recovered.\<close>

fun list_infos :: "time \<Rightarrow> sst_dir \<Rightarrow> string list \<Rightarrow> SSTableInfo list go" where
  "list_infos now dir [] = Inr []"
| "list_infos now dir (path # paths) =
     (case map_of dir path of
        None \<Rightarrow> list_infos now dir paths
      | Some (data, modTime) \<Rightarrow>
          (case NewReader data of
             Inl Panic \<Rightarrow> Inl Panic
           | Inl (Fail msg) \<Rightarrow> list_infos now dir paths
           | Inr reader \<Rightarrow>
               rbind (list_infos now dir paths) (\<lambda>infos.
               Inr (\<lparr>si_Path = path, si_Size = int (length data), si_Age = now - modTime,
                     si_RowCount = reader_RowCount reader, si_Reader = reader,
                     si_CreatedAt = modTime\<rparr> # infos))))"

definition info_less :: "SSTableInfo \<Rightarrow> SSTableInfo \<Rightarrow> bool" where
  "info_less a b \<longleftrightarrow>
     (if si_Size a \<noteq> si_Size b then si_Size a < si_Size b else si_Age a > si_Age b)"

definition ListSSTables :: "Planner \<Rightarrow> time \<Rightarrow> sst_dir \<Rightarrow> SSTableInfo list go" where
  "ListSSTables p now dir =
     rbind (list_infos now dir (glob_names (pl_sstablePrefix p) ''.sst'' (map fst dir))) (\<lambda>infos.
     Inr (sort_Slice info_less infos))"

definition tier_step ::
  "Planner \<Rightarrow> SSTableInfo \<Rightarrow> SSTableInfo list list \<times> SSTableInfo list \<times> int \<Rightarrow>
     SSTableInfo list list \<times> SSTableInfo list \<times> int" where
  "tier_step p info = (\<lambda>(tiers, currentTier, currentTierSize).
     if si_Size info < pl_minSize p then (tiers, currentTier, currentTierSize)
     else if length currentTier = 0 then (tiers, currentTier @ [info], si_Size info)
     else let avgSize = currentTierSize div int (length currentTier)
          in if si_Size info > avgSize * 2 then (tiers @ [currentTier], [info], si_Size info)
             else (tiers, currentTier @ [info], currentTierSize + si_Size info))"

definition groupBySizeTier :: "Planner \<Rightarrow> SSTableInfo list \<Rightarrow> SSTableInfo list list" where
  "groupBySizeTier p infos =
     (if length infos = 0 then []
      else case fold (tier_step p) infos ([], [], 0) of
             (tiers, currentTier, currentTierSize) \<Rightarrow>
               if length currentTier > 0 then tiers @ [currentTier] else tiers)"

definition old_enough :: "Planner \<Rightarrow> SSTableInfo \<Rightarrow> bool" where
  "old_enough p info \<longleftrightarrow> si_Age info \<ge> pl_maxAge p \<and> si_Size info \<ge> pl_minSize p"

definition plan_tier :: "Planner \<Rightarrow> SSTableInfo list \<Rightarrow> string list list" where
  "plan_tier p tier =
     (if length tier \<ge> 4 then [map si_Path tier]
      else let oldFiles = map si_Path (filter (old_enough p) tier)
           in if length oldFiles \<ge> 2 then [oldFiles] else [])"

definition PlanCompaction :: "Planner \<Rightarrow> time \<Rightarrow> sst_dir \<Rightarrow> string list list go" where
  "PlanCompaction p now dir =
     rbind (ListSSTables p now dir) (\<lambda>infos.
     if length infos < 2 then Inr []
     else Inr (concat (map (plan_tier p) (groupBySizeTier p infos))))"

definition ShouldCompact :: "Planner \<Rightarrow> time \<Rightarrow> sst_dir \<Rightarrow> bool go" where
  "ShouldCompact p now dir =
     rbind (ListSSTables p now dir) (\<lambda>infos.
     if length infos < 2 then Inr False
     else if list_ex (\<lambda>tier. length tier \<ge> 4) (groupBySizeTier p infos) then Inr True
     else Inr (length (filter (old_enough p) infos) \<ge> 2))"

interpretation info_order: sort_order info_less
  by unfold_locales (auto simp: info_less_def split: if_splits)

subsection \<open>Tiers\<close>

text \<open>The tiers split the files of at least the minimal size, without losing or repeating one.\<close>

lemma tier_fold:
  "fold (tier_step p) infos (tiers, cur, sz) = (tiers', cur', sz') \<Longrightarrow> [] \<notin> set tiers \<Longrightarrow>
     concat tiers' @ cur' = concat tiers @ cur @ filter (\<lambda>i. si_Size i \<ge> pl_minSize p) infos \<and> [] \<notin> set tiers'"
proof (induction infos arbitrary: tiers cur sz)
  case Nil
  then show ?case by simp
next
  case (Cons i infos)
  obtain t1 c1 s1 where st: "tier_step p i (tiers, cur, sz) = (t1, c1, s1)"
    by (cases "tier_step p i (tiers, cur, sz)")
  then have "concat t1 @ c1 = concat tiers @ cur @ (if si_Size i \<ge> pl_minSize p then [i] else []) \<and> [] \<notin> set t1"
    using Cons.prems(2) by (auto simp: tier_step_def Let_def split: if_splits)
  with Cons.IH [of t1 c1 s1] Cons.prems(1) st show ?case by auto
qed

lemma concat_tiers:
  "concat (groupBySizeTier p infos) = filter (\<lambda>i. si_Size i \<ge> pl_minSize p) infos"
proof (cases "fold (tier_step p) infos ([], [], 0)")
  case (fields tiers cur sz)
  with tier_fold [OF this] show ?thesis
    by (auto simp: groupBySizeTier_def)
qed

lemma plan_tier_cases:
  "g \<in> set (plan_tier p tier) \<Longrightarrow> length g \<ge> 2 \<and> set g \<subseteq> si_Path ` set tier"
  by (auto simp: plan_tier_def Let_def split: if_splits)

lemma plan_tier_subseq: "subseq (concat (plan_tier p tier)) (map si_Path tier)"
  by (auto simp: plan_tier_def Let_def intro: subseq_map)

lemma plan_subseq: "subseq (concat (concat (map (plan_tier p) tiers))) (map si_Path (concat tiers))"
  by (induction tiers) (auto intro: list_emb_append_mono plan_tier_subseq)

text \<open>What is listed is in the directory, opens, and is listed once.\<close>

definition listed :: "time \<Rightarrow> sst_dir \<Rightarrow> SSTableInfo \<Rightarrow> bool" where
  "listed now dir i \<longleftrightarrow>
     (\<exists>data t. map_of dir (si_Path i) = Some (data, t) \<and> NewReader data = Inr (si_Reader i) \<and>
        si_Size i = int (length data) \<and> si_Age i = now - t)"

lemma list_infos_listed:
  "list_infos now dir paths = Inr infos \<Longrightarrow>
     (\<forall>i\<in>set infos. listed now dir i) \<and> subseq (map si_Path infos) paths"
proof (induction paths arbitrary: infos)
  case Nil
  then show ?case by simp
next
  case (Cons p paths)
  show ?case
  proof (cases "map_of dir p")
    case None
    with Cons show ?thesis by (auto intro: list_emb_Cons)
  next
    case (Some dt)
    obtain data t where dt: "dt = (data, t)" by (cases dt)
    show ?thesis
    proof (cases "NewReader data")
      case (Inl e)
      with Cons Some dt show ?thesis by (cases e) (auto intro: list_emb_Cons)
    next
      case (Inr r)
      with Cons.prems Some dt obtain infos' where
        i: "list_infos now dir paths = Inr infos'"
          "infos = \<lparr>si_Path = p, si_Size = int (length data), si_Age = now - t,
                     si_RowCount = reader_RowCount r, si_Reader = r, si_CreatedAt = t\<rparr> # infos'"
        by (auto simp: rbind_eq_Inr)
      with Cons.IH [OF i(1)] Inr Some dt show ?thesis by (auto simp: listed_def)
    qed
  qed
qed

lemma ListSSTables_listed:
  assumes "ListSSTables p now dir = Inr infos" and "distinct (map fst dir)"
  shows "\<forall>i\<in>set infos. listed now dir i" and "distinct (map si_Path infos)"
proof -
  from assms(1) obtain infos' where
    i: "list_infos now dir (glob_names (pl_sstablePrefix p) ''.sst'' (map fst dir)) = Inr infos'"
      "infos = sort_Slice info_less infos'"
    by (auto simp: ListSSTables_def rbind_eq_Inr)
  have "distinct (glob_names (pl_sstablePrefix p) ''.sst'' (map fst dir))"
    using assms(2) by (simp add: glob_names_def)
  with list_infos_listed [OF i(1)] have "distinct (map si_Path infos')"
    using subseq_distinct by blast
  with list_infos_listed [OF i(1)] i(2) show "\<forall>i\<in>set infos. listed now dir i"
    and "distinct (map si_Path infos)"
    by auto
qed

lemma plan_sound:
  assumes "PlanCompaction p now dir = Inr plan" and "distinct (map fst dir)"
  shows "distinct (concat plan)"
    and "g \<in> set plan \<Longrightarrow> length g \<ge> 2"
    and "path \<in> set (concat plan) \<Longrightarrow>
           \<exists>data t r. map_of dir path = Some (data, t) \<and> NewReader data = Inr r \<and> int (length data) \<ge> pl_minSize p"
proof -
  from assms(1) obtain infos where l: "ListSSTables p now dir = Inr infos"
    and plan: "plan = [] \<or> plan = concat (map (plan_tier p) (groupBySizeTier p infos))"
    by (auto simp: PlanCompaction_def rbind_eq_Inr split: if_splits)
  let ?big = "filter (\<lambda>i. si_Size i \<ge> pl_minSize p) infos"
  note listed = ListSSTables_listed [OF l assms(2)]
  have sub: "subseq (concat plan) (map si_Path ?big)"
    using plan plan_subseq [of p "groupBySizeTier p infos"] by (auto simp: concat_tiers)
  have "distinct (map si_Path ?big)"
    using listed(2) by (simp add: distinct_map_filter)
  with sub show "distinct (concat plan)" by (rule subseq_distinct)
  show "g \<in> set plan \<Longrightarrow> length g \<ge> 2"
    using plan plan_tier_cases by auto
  assume "path \<in> set (concat plan)"
  with subseq_set [OF sub] obtain i where "i \<in> set ?big" "path = si_Path i" by auto
  with listed(1) show "\<exists>data t r. map_of dir path = Some (data, t) \<and> NewReader data = Inr r \<and>
      int (length data) \<ge> pl_minSize p"
    by (auto simp: listed_def)
qed

lemma plan_should_compact:
  assumes "PlanCompaction p now dir = Inr plan" and "plan \<noteq> []"
  shows "ShouldCompact p now dir = Inr True"
proof -
  from assms obtain infos where l: "ListSSTables p now dir = Inr infos" "\<not> length infos < 2"
    and plan: "plan = concat (map (plan_tier p) (groupBySizeTier p infos))"
    by (auto simp: PlanCompaction_def rbind_eq_Inr split: if_splits)
  from assms(2) plan obtain tier where tier: "tier \<in> set (groupBySizeTier p infos)" "plan_tier p tier \<noteq> []"
    by auto
  show ?thesis
  proof (cases "length tier \<ge> 4")
    case True
    with l tier(1) show ?thesis by (auto simp: ShouldCompact_def list_ex_iff)
  next
    case False
    with tier(2) have "length (filter (old_enough p) tier) \<ge> 2"
      by (simp add: plan_tier_def Let_def split: if_splits)
    moreover have "length (filter (old_enough p) tier) \<le> length (filter (old_enough p) (concat (groupBySizeTier p infos)))"
      using tier(1) by (induction "groupBySizeTier p infos") (auto simp: filter_concat length_concat intro: member_le_sum_list)
    moreover have "filter (old_enough p) (concat (groupBySizeTier p infos)) = filter (old_enough p) infos"
      by (simp add: concat_tiers) (rule filter_cong, auto simp: old_enough_def)
    ultimately show ?thesis using l by (simp add: ShouldCompact_def)
  qed
qed

section \<open>Executor\<close>

record ExecutorConfig =
  xc_SSTablePrefix :: string

record Executor =
  ex_sstablePrefix :: string
  ex_nextSeq :: "64 word"

definition DefaultExecutorConfig :: ExecutorConfig where
  "DefaultExecutorConfig = \<lparr>xc_SSTablePrefix = ''sstable''\<rparr>"

text \<open>A file name raises the sequence to one more than its number (which wraps around).\<close>

definition bump_seq :: "string \<Rightarrow> string \<Rightarrow> 64 word \<Rightarrow> 64 word" where
  "bump_seq pre name maxSeq =
     (case scan_name pre ''.sst'' name of
        None \<Rightarrow> maxSeq
      | Some seq \<Rightarrow> if seq \<ge> maxSeq then seq + 1 else maxSeq)"

definition findNextSequence :: "string \<Rightarrow> sst_dir \<Rightarrow> 64 word" where
  "findNextSequence pre dir = fold (bump_seq pre) (glob_names pre ''.sst'' (map fst dir)) 0"

definition NewExecutor :: "ExecutorConfig \<Rightarrow> sst_dir \<Rightarrow> Executor" where
  "NewExecutor config dir =
     \<lparr>ex_sstablePrefix = xc_SSTablePrefix config,
      ex_nextSeq = findNextSequence (xc_SSTablePrefix config) dir\<rparr>"

definition extractTimestamp :: "Row \<Rightarrow> int64" where
  "extractTimestamp row =
     (if length (row_Data row) < 8 then 0
      else let timestamp = get_i64 (take 8 (row_Data row));
               minTimestamp = 946684800000000000;
               maxTimestamp = 4102444800000000000
           in if timestamp \<ge> minTimestamp \<and> timestamp \<le> maxTimestamp then timestamp else 0)"

definition better_row :: "Row \<Rightarrow> Row \<times> int64 \<Rightarrow> Row \<times> int64" where
  "better_row row = (\<lambda>(bestRow, bestTimestamp).
     let timestamp = extractTimestamp row
     in if timestamp > bestTimestamp then (row, timestamp)
        else if timestamp = bestTimestamp then
          (if length (row_Data row) > length (row_Data bestRow) then (row, bestTimestamp)
           else (bestRow, bestTimestamp))
        else (bestRow, bestTimestamp))"

definition selectBestRow :: "Row list \<Rightarrow> Row option" where
  "selectBestRow rows =
     (case rows of
        [] \<Rightarrow> None
      | [row] \<Rightarrow> Some row
      | row # rest \<Rightarrow> Some (fst (fold better_row rest (row, extractTimestamp row))))"

text \<open>The rows of an entity, last reader first.\<close>

fun gather_rows :: "Reader list \<Rightarrow> string \<Rightarrow> Row list go" where
  "gather_rows [] entityID = Inr []"
| "gather_rows (r # rs) entityID =
     rbind (rwrap ''failed to get rows'' (reader_Get r entityID)) (\<lambda>rows.
     rbind (gather_rows rs entityID) (\<lambda>rest. Inr (rows @ rest)))"

fun merge_entities :: "Reader list \<Rightarrow> string list \<Rightarrow> Writer \<Rightarrow> Writer go" where
  "merge_entities readers [] w = Inr w"
| "merge_entities readers (entityID # ids) w =
     rbind (gather_rows (rev readers) entityID) (\<lambda>allRows.
     case selectBestRow allRows of
       None \<Rightarrow> merge_entities readers ids w
     | Some bestRow \<Rightarrow> rbind (rwrap ''failed to write row'' (WriteRow bestRow w)) (merge_entities readers ids))"

definition streamMergeAndDeduplicate :: "Reader list \<Rightarrow> Writer \<Rightarrow> Writer go" where
  "streamMergeAndDeduplicate readers w =
     (let allEntityIDs = remdups (concat (map reader_GetAllEntityIDs readers));
          sortedEntityIDs = sort_Slice (<) allEntityIDs
      in merge_entities readers sortedEntityIDs w)"

fun load_readers :: "sst_dir \<Rightarrow> string list \<Rightarrow> Reader list go" where
  "load_readers dir [] = Inr []"
| "load_readers dir (path # paths) =
     (case map_of dir path of
        None \<Rightarrow> Inl (Fail ''failed to read SSTable'')
      | Some (data, t) \<Rightarrow>
          rbind (rwrap ''failed to create reader'' (NewReader data)) (\<lambda>r.
          rbind (load_readers dir paths) (\<lambda>rs. Inr (r # rs))))"

text \<open>
  The output sequence, and then the merge into a temporary file that is renamed to the output;
  after an error the directory is as before, since the temporary file is removed.
\<close>

definition output_seq :: "Executor \<Rightarrow> sst_dir \<Rightarrow> string list \<Rightarrow> 64 word" where
  "output_seq e dir inputPaths =
     (let maxSeq = fold (bump_seq (ex_sstablePrefix e)) inputPaths (ex_nextSeq e);
          matches = glob_names (ex_sstablePrefix e) ''.sst'' (map fst dir)
      in fold (bump_seq (ex_sstablePrefix e)) (filter (\<lambda>m. m \<notin> set inputPaths) matches) maxSeq)"

definition Compact :: "Executor \<Rightarrow> sst_dir \<Rightarrow> time \<Rightarrow> string list \<Rightarrow> Executor \<times> sst_dir \<times> string go" where
  "Compact e dir now inputPaths =
     (if length inputPaths = 0 then (e, dir, Inl (Fail ''no input SSTables provided''))
      else
        let maxSeq = output_seq e dir inputPaths;
            e = (if maxSeq \<ge> ex_nextSeq e then e\<lparr>ex_nextSeq := maxSeq + 1\<rparr> else e);
            outputPath = numbered_name (ex_sstablePrefix e) ''.sst'' maxSeq;
            merged = rbind (load_readers dir inputPaths) (\<lambda>readers.
                     rbind (rwrap ''failed to write header'' (WriteHeader NewWriter)) (\<lambda>w.
                     rbind (rwrap ''failed to merge rows'' (streamMergeAndDeduplicate readers w)) (\<lambda>w.
                     rwrap ''failed to close writer'' (writer_Close w))))
        in case merged of
             Inl err \<Rightarrow> (e, dir, Inl err)
           | Inr w \<Rightarrow>
               (e, fold AList.delete inputPaths (AList.update outputPath (wr_out w, now) dir), Inr outputPath))"

definition GetOutputPath :: "Executor \<Rightarrow> Executor \<times> string" where
  "GetOutputPath e =
     (e\<lparr>ex_nextSeq := ex_nextSeq e + 1\<rparr>, numbered_name (ex_sstablePrefix e) ''.sst'' (ex_nextSeq e))"

subsection \<open>The chosen row\<close>

text \<open>The chosen row is one of the rows, none has a later pseudo-timestamp, and among those with
  the same one none has more data.\<close>

definition best_of :: "Row \<Rightarrow> Row list \<Rightarrow> bool" where
  "best_of b rows \<longleftrightarrow> b \<in> set rows \<and>
     (\<forall>r\<in>set rows. extractTimestamp r < extractTimestamp b \<or>
        extractTimestamp r = extractTimestamp b \<and> length (row_Data r) \<le> length (row_Data b))"

lemma better_row_fold:
  "best_of b rows \<Longrightarrow>
     \<exists>b'. fold better_row rest (b, extractTimestamp b) = (b', extractTimestamp b') \<and> best_of b' (rows @ rest)"
proof (induction rest arbitrary: b rows)
  case Nil
  then show ?case by simp
next
  case (Cons r rest)
  let ?b = "fst (better_row r (b, extractTimestamp b))"
  have s: "better_row r (b, extractTimestamp b) = (?b, extractTimestamp ?b)"
    by (auto simp: better_row_def Let_def)
  have "best_of ?b (rows @ [r])"
    using Cons.prems by (auto simp: best_of_def better_row_def Let_def)
  from Cons.IH [OF this] s show ?case by simp
qed

lemma selectBestRow_best:
  assumes "rows \<noteq> []"
  shows "\<exists>b. selectBestRow rows = Some b \<and> best_of b rows"
proof -
  from assms obtain r rest where rows: "rows = r # rest" by (cases rows) auto
  have "best_of r [r]" by (simp add: best_of_def)
  from better_row_fold [OF this, of rest] rows show ?thesis
    by (cases rest) (auto simp: selectBestRow_def best_of_def)
qed

lemma selectBestRow_Nil [simp]: "selectBestRow [] = None"
  by (simp add: selectBestRow_def)

subsection \<open>The merged table\<close>

definition table_reader :: "Row list \<Rightarrow> Reader" where
  "table_reader rows = \<lparr>rd_data = table_enc rows, rd_header = table_header,
     rd_footer = table_footer rows, rd_index = table_index rows\<rparr>"

definition input_ok :: "Row list \<Rightarrow> bool" where
  "input_ok rows \<longleftrightarrow> table_ok rows \<and> sorted (map row_EntityID rows)"

text \<open>All rows of an entity in the inputs, last input first, and what the compaction keeps.\<close>

definition entity_rows :: "Row list list \<Rightarrow> string \<Rightarrow> Row list" where
  "entity_rows rowss eid =
     concat (map (\<lambda>rows. map stamped (filter (\<lambda>x. row_EntityID x = eid) rows)) (rev rowss))"

definition entity_ids :: "Row list list \<Rightarrow> string list" where
  "entity_ids rowss = sorted_list_of_set (row_EntityID ` set (concat rowss))"

definition compacted :: "Row list list \<Rightarrow> Row list" where
  "compacted rowss = map (\<lambda>eid. the (selectBestRow (entity_rows rowss eid))) (entity_ids rowss)"

lemma run_starts_sub: "ie_EntityID ` set (run_starts off cur rows) \<subseteq> row_EntityID ` set rows"
  by (induction rows arbitrary: off cur) auto

lemma table_reader_ids:
  assumes "table_ok rows"
  shows "set (reader_GetAllEntityIDs (table_reader rows)) = row_EntityID ` set rows"
proof -
  have "[] \<notin> row_EntityID ` set rows"
    using assms by (auto simp: table_ok_def row_ok_def list_all_iff)
  moreover from this run_starts_sub [of 16 "[]" rows] have "[] \<notin> ie_EntityID ` set (run_starts 16 [] rows)"
    by (meson subsetD)
  ultimately have "ie_EntityID ` set (run_starts 16 [] rows) = row_EntityID ` set rows"
    using run_starts_set [of "[]" 16 rows] insert_ident by metis
  then show ?thesis
    by (simp add: reader_GetAllEntityIDs_def table_reader_def table_index_def)
qed

lemma gather_tables:
  "list_all input_ok rowss \<Longrightarrow> eid \<noteq> [] \<Longrightarrow>
     gather_rows (map table_reader rowss) eid =
       Inr (concat (map (\<lambda>rows. map stamped (filter (\<lambda>x. row_EntityID x = eid) rows)) rowss))"
  by (induction rowss) (simp_all add: input_ok_def reader_Get_table table_reader_def)

lemma load_tables:
  "list_all2 (\<lambda>path rows. \<exists>t. map_of dir path = Some (table_enc rows, t)) paths rowss \<Longrightarrow>
     list_all input_ok rowss \<Longrightarrow> load_readers dir paths = Inr (map table_reader rowss)"
proof (induction paths rowss rule: list_all2_induct)
  case Nil
  then show ?case by simp
next
  case (Cons path paths rows rowss)
  then obtain t where "map_of dir path = Some (table_enc rows, t)" by blast
  with Cons show ?case by (simp add: NewReader_table input_ok_def table_reader_def)
qed

lemma entity_rows_nonempty:
  "eid \<in> row_EntityID ` set (concat rowss) \<Longrightarrow> entity_rows rowss eid \<noteq> []"
  by (auto simp: entity_rows_def filter_empty_conv)

lemma set_entity_rows:
  "set (entity_rows rowss eid) = stamped ` {r \<in> set (concat rowss). row_EntityID r = eid}"
  by (auto simp: entity_rows_def)

lemma stamped_simps [simp]:
  "row_EntityID (stamped r) = row_EntityID r" "row_Data (stamped r) = row_Data r"
  "row_Type (stamped r) = row_Type r" "stamped (stamped r) = stamped r"
  "row_ok (stamped r) = row_ok r"
  by (simp_all add: stamped_def row_ok_def)

lemma entity_ids_ok:
  assumes "list_all input_ok rowss" and "eid \<in> row_EntityID ` set (concat rowss)"
  shows "eid \<noteq> []"
  using assms by (fastforce simp: list_all_iff input_ok_def table_ok_def row_ok_def)

lemma best_row:
  assumes "list_all input_ok rowss" and "eid \<in> row_EntityID ` set (concat rowss)"
  shows "\<exists>b. selectBestRow (entity_rows rowss eid) = Some b \<and> best_of b (entity_rows rowss eid) \<and>
           row_EntityID b = eid \<and> stamped b = b \<and> row_ok b"
proof -
  obtain b where b: "selectBestRow (entity_rows rowss eid) = Some b" "best_of b (entity_rows rowss eid)"
    using selectBestRow_best [OF entity_rows_nonempty [OF assms(2)]] by blast
  then have "b \<in> set (entity_rows rowss eid)" by (simp add: best_of_def)
  then obtain r where "b = stamped r" "r \<in> set (concat rowss)" "row_EntityID r = eid"
    by (auto simp: set_entity_rows)
  moreover from this(2) assms(1) have "row_ok r"
    by (auto simp: list_all_iff input_ok_def table_ok_def)
  ultimately show ?thesis using b by simp
qed

lemma merge_tables:
  assumes ok: "list_all input_ok rowss"
  shows "set ids \<subseteq> row_EntityID ` set (concat rowss) \<Longrightarrow>
    merge_entities (map table_reader rowss) ids w =
      WriteRows (map (\<lambda>eid. the (selectBestRow (entity_rows rowss eid))) ids) w"
proof (induction ids arbitrary: w)
  case Nil
  then show ?case by simp
next
  case (Cons eid ids)
  then have eid: "eid \<in> row_EntityID ` set (concat rowss)" by simp
  from best_row [OF ok eid] obtain b where b: "selectBestRow (entity_rows rowss eid) = Some b"
    "row_EntityID b = eid" by blast
  have ne: "eid \<noteq> []" using entity_ids_ok [OF ok eid] .
  have "gather_rows (rev (map table_reader rowss)) eid = Inr (entity_rows rowss eid)"
    using gather_tables [of "rev rowss" eid] ok ne by (simp add: entity_rows_def rev_map list_all_iff)
  moreover obtain w' where "WriteRow b w = Inr w'"
    using WriteRow_result [of b w] b(2) ne by auto
  ultimately show ?case using Cons b by simp
qed

lemma best_row_the:
  assumes "list_all input_ok rowss" and "eid \<in> set (entity_ids rowss)"
  shows "row_EntityID (the (selectBestRow (entity_rows rowss eid))) = eid \<and>
           row_ok (the (selectBestRow (entity_rows rowss eid))) \<and>
           stamped (the (selectBestRow (entity_rows rowss eid))) = the (selectBestRow (entity_rows rowss eid))"
proof -
  have "eid \<in> row_EntityID ` set (concat rowss)" using assms(2) by (simp add: entity_ids_def)
  from best_row [OF assms(1) this] show ?thesis by auto
qed

lemma named_compacted: "list_all input_ok rowss \<Longrightarrow> list_all row_ok (compacted rowss)"
  using best_row_the by (simp add: compacted_def list_all_iff)

lemma compacted_ids: "list_all input_ok rowss \<Longrightarrow> map row_EntityID (compacted rowss) = entity_ids rowss"
  using best_row_the by (simp add: compacted_def o_def map_idI)

lemma compacted_one:
  assumes "list_all input_ok rowss" and "eid \<in> row_EntityID ` set (concat rowss)"
  shows "filter (\<lambda>x. row_EntityID x = eid) (compacted rowss) = [the (selectBestRow (entity_rows rowss eid))]"
proof -
  let ?f = "\<lambda>eid. the (selectBestRow (entity_rows rowss eid))"
  have "filter (\<lambda>x. row_EntityID x = eid) (map ?f ids) = map ?f (filter (\<lambda>i. i = eid) ids)"
    if "set ids \<subseteq> set (entity_ids rowss)" for ids
    using that by (induction ids) (auto simp: best_row_the [OF assms(1)])
  moreover have "filter (\<lambda>i. i = eid) (entity_ids rowss) = [eid]"
    using assms(2) by (intro filter_eq_single) (simp_all add: entity_ids_def)
  ultimately show ?thesis by (simp add: compacted_def)
qed

lemma write_header_ok: "\<exists>w. WriteHeader NewWriter = Inr w"
  using write_table_enc [of "[]"] by (cases "WriteHeader NewWriter") (auto simp: write_table_def named_def)

lemma merged_tables:
  assumes ok: "list_all input_ok rowss"
  shows "\<exists>w w1 w2. WriteHeader NewWriter = Inr w \<and>
           streamMergeAndDeduplicate (map table_reader rowss) w = Inr w1 \<and>
           writer_Close w1 = Inr w2 \<and> wr_out w2 = table_enc (compacted rowss)"
proof -
  obtain w where w: "WriteHeader NewWriter = Inr w" using write_header_ok by blast
  let ?ids = "remdups (concat (map reader_GetAllEntityIDs (map table_reader rowss)))"
  have "set ?ids = row_EntityID ` set (concat rowss)"
    using ok table_reader_ids by (auto simp: list_all_iff input_ok_def)
  moreover have "sort_Slice (<) ?ids = sorted_list_of_set (set ?ids)"
    by (rule sort_Slice_set) simp
  ultimately have "streamMergeAndDeduplicate (map table_reader rowss) w = WriteRows (compacted rowss) w"
    using merge_tables [OF ok, of "entity_ids rowss" w]
    by (simp add: streamMergeAndDeduplicate_def Let_def compacted_def entity_ids_def)
  moreover have "named (compacted rowss)"
    using named_compacted [OF ok] by (auto simp: named_def list_all_iff row_ok_def)
  from write_table_enc [OF this] w obtain w1 w2 where
    "WriteRows (compacted rowss) w = Inr w1" "writer_Close w1 = Inr w2" "wr_out w2 = table_enc (compacted rowss)"
    by (auto simp: write_table_def rbind_eq_Inr)
  ultimately show ?thesis using w by auto
qed

lemma Compact_tables:
  assumes ok: "list_all input_ok rowss" and "paths \<noteq> []"
    and files: "list_all2 (\<lambda>path rows. \<exists>t. map_of dir path = Some (table_enc rows, t)) paths rowss"
  shows "\<exists>e'. Compact e dir now paths =
           (let out = numbered_name (ex_sstablePrefix e) ''.sst'' (output_seq e dir paths)
            in (e', fold AList.delete paths (AList.update out (table_enc (compacted rowss), now) dir), Inr out))"
proof -
  from merged_tables [OF ok] obtain w w1 w2 where
    "WriteHeader NewWriter = Inr w" "streamMergeAndDeduplicate (map table_reader rowss) w = Inr w1"
    "writer_Close w1 = Inr w2" "wr_out w2 = table_enc (compacted rowss)" by blast
  with load_tables [OF files ok] assms(2) show ?thesis
    by (auto simp: Compact_def Let_def)
qed

text \<open>The number of the output is greater than every number in use, so its name is new.\<close>

definition numbers_below_max :: "string \<Rightarrow> string list \<Rightarrow> bool" where
  "numbers_below_max pre names \<longleftrightarrow> (\<forall>n\<in>set names. \<forall>s. scan_name pre ''.sst'' n = Some s \<longrightarrow> s < - 1)"

lemma bump_fold:
  "numbers_below_max pre names \<Longrightarrow>
     m \<le> fold (bump_seq pre) names m \<and>
     (\<forall>n\<in>set names. \<forall>s. scan_name pre ''.sst'' n = Some s \<longrightarrow> s < fold (bump_seq pre) names m)"
proof (induction names arbitrary: m)
  case Nil
  then show ?case by simp
next
  case (Cons n names)
  have step: "m \<le> bump_seq pre n m \<and> (\<forall>s. scan_name pre ''.sst'' n = Some s \<longrightarrow> s < bump_seq pre n m)"
    using Cons.prems less_Suc_word
    by (auto simp: bump_seq_def numbers_below_max_def split: option.splits intro: less_imp_le)
  from Cons.prems have "numbers_below_max pre names" by (simp add: numbers_below_max_def)
  from Cons.IH [OF this, of "bump_seq pre n m"] step show ?case
    by (auto intro: order_trans less_le_trans)
qed

lemma plain_sst [simp]: "plain_suffix ''.sst''"
  by (simp add: plain_suffix_def is_digit_def)

lemma output_fresh:
  assumes "numbers_below_max (ex_sstablePrefix e) (inputs @ map fst dir)"
  shows "numbered_name (ex_sstablePrefix e) ''.sst'' (output_seq e dir inputs) \<notin> fst ` set dir \<union> set inputs"
proof -
  let ?pre = "ex_sstablePrefix e" and ?out = "output_seq e dir inputs"
  let ?m = "fold (bump_seq ?pre) inputs (ex_nextSeq e)"
  let ?rest = "filter (\<lambda>m. m \<notin> set inputs) (glob_names ?pre ''.sst'' (map fst dir))"
  have sub: "set (glob_names ?pre ''.sst'' (map fst dir)) \<subseteq> fst ` set dir"
    by (auto simp: glob_names_def)
  have "numbers_below_max ?pre inputs" "numbers_below_max ?pre ?rest"
    using assms sub by (auto simp: numbers_below_max_def)
  from bump_fold [OF this(1), of "ex_nextSeq e"] bump_fold [OF this(2), of ?m]
  have less: "\<forall>n\<in>set inputs \<union> set ?rest. \<forall>s. scan_name ?pre ''.sst'' n = Some s \<longrightarrow> s < ?out"
    by (auto simp: output_seq_def Let_def intro: less_le_trans)
  show ?thesis
  proof
    let ?n = "numbered_name ?pre ''.sst'' ?out"
    assume "?n \<in> fst ` set dir \<union> set inputs"
    moreover have "?n \<in> fst ` set dir \<Longrightarrow> ?n \<in> set (glob_names ?pre ''.sst'' (map fst dir))"
      by simp
    ultimately have "?n \<in> set inputs \<union> set ?rest" by auto
    with less scan_numbered_name [of "''.sst''" ?pre ?out] show False by fastforce
  qed
qed

section \<open>Manager\<close>

subsection \<open>IO limiter\<close>

record IOLimiter =
  io_maxIOPS :: int64
  io_maxBandwidth :: int64
  io_opsCount :: int64
  io_bytesCount :: int64
  io_windowStart :: time

definition NewIOLimiter :: "time \<Rightarrow> int64 \<Rightarrow> int64 \<Rightarrow> IOLimiter" where
  "NewIOLimiter now maxIOPS maxBandwidth =
     \<lparr>io_maxIOPS = maxIOPS, io_maxBandwidth = maxBandwidth, io_opsCount = 0, io_bytesCount = 0,
      io_windowStart = now\<rparr>"

text \<open>The counters are \<^verbatim>\<open>int64\<close>s: the comparison with the bandwidth limit and the updates wrap.\<close>

definition io_Allow :: "time \<Rightarrow> int64 \<Rightarrow> IOLimiter \<Rightarrow> bool \<times> IOLimiter" where
  "io_Allow now bytes l =
     (let windowDuration = now - io_windowStart l;
          l = (if windowDuration \<ge> Second
               then l\<lparr>io_opsCount := 0, io_bytesCount := 0, io_windowStart := now\<rparr> else l)
      in if io_opsCount l \<ge> io_maxIOPS l then (False, l)
         else if wrap64 (io_bytesCount l + bytes) > io_maxBandwidth l then (False, l)
         else (True, l\<lparr>io_opsCount := wrap64 (io_opsCount l + 1), io_bytesCount := wrap64 (io_bytesCount l + bytes)\<rparr>))"

text \<open>\<open>Wait\<close> tries again and again; \<open>None\<close>: the readings of the clock are used up and nothing
  was admitted yet.\<close>

fun io_Wait :: "time list \<Rightarrow> int64 \<Rightarrow> IOLimiter \<Rightarrow> IOLimiter option" where
  "io_Wait [] bytes l = None"
| "io_Wait (now # clock) bytes l =
     (case io_Allow now bytes l of
        (True, l) \<Rightarrow> Some l
      | (False, l) \<Rightarrow> io_Wait clock bytes l)"

text \<open>The count of operations grows only below its limit, an \<^verbatim>\<open>int64\<close>, and never wraps. The count of
  bytes does not when the request itself fits above the limit.\<close>

abbreviation bytes_fit :: "int64 \<Rightarrow> int64 \<Rightarrow> bool" where
  "bytes_fit maxBandwidth bytes \<equiv> 0 \<le> bytes \<and> maxBandwidth + bytes < 2 ^ 63"

interpretation io_ops: window_limiter io_Allow io_windowStart io_opsCount io_maxIOPS "\<lambda>bytes. 1"
  "\<lambda>l bytes. io_maxIOPS l < 2 ^ 63"
  by unfold_locales (auto simp: io_Allow_def Let_def wrap64_id split: if_splits)

interpretation io_bytes: window_limiter io_Allow io_windowStart io_bytesCount io_maxBandwidth "\<lambda>bytes. bytes"
  "\<lambda>l bytes. bytes_fit (io_maxBandwidth l) bytes"
  by unfold_locales (auto simp: io_Allow_def Let_def wrap64_id split: if_splits)

lemma io_Allow_too_big:
  assumes "bytes > io_maxBandwidth l" and "bytes \<ge> 0" and "io_bytesCount l \<ge> 0" and "io_bytesCount l + bytes < 2 ^ 63"
  shows "\<not> fst (io_Allow now bytes l) \<and> io_bytesCount (snd (io_Allow now bytes l)) \<ge> 0 \<and>
           io_bytesCount (snd (io_Allow now bytes l)) \<le> io_bytesCount l \<and>
           io_maxBandwidth (snd (io_Allow now bytes l)) = io_maxBandwidth l"
  using assms by (auto simp: io_Allow_def Let_def wrap64_id)

lemma io_Wait_too_big:
  "bytes > io_maxBandwidth l \<Longrightarrow> bytes \<ge> 0 \<Longrightarrow> io_bytesCount l \<ge> 0 \<Longrightarrow> io_bytesCount l + bytes < 2 ^ 63 \<Longrightarrow>
     io_Wait clock bytes l = None"
proof (induction clock arbitrary: l)
  case Nil
  then show ?case by simp
next
  case (Cons now clock)
  with io_Allow_too_big [OF Cons.prems, of now] Cons.IH [of "snd (io_Allow now bytes l)"] show ?case
    by (cases "io_Allow now bytes l") (auto split: bool.splits)
qed

text \<open>A request that overflows the count is compared with its negative wrapped sum and admitted.\<close>

theorem io_limiter_overflow:
  assumes "now - io_windowStart l < Second" and "io_opsCount l < io_maxIOPS l" and "0 \<le> io_maxBandwidth l"
    and "io_bytesCount l < 2 ^ 63" and "bytes < 2 ^ 63" and "2 ^ 63 \<le> io_bytesCount l + bytes"
  shows "fst (io_Allow now bytes l) \<and> io_bytesCount (snd (io_Allow now bytes l)) < 0"
  using assms wrap64_above [of "io_bytesCount l + bytes"] by (simp add: io_Allow_def Let_def)

lemma io_limiter_overflow_witness:
  "fst (io_Allow 0 (2 ^ 63 - 1) ((NewIOLimiter 0 1000 104857600)\<lparr>io_bytesCount := 1\<rparr>))"
  using io_limiter_overflow [of 0 "(NewIOLimiter 0 1000 104857600)\<lparr>io_bytesCount := 1\<rparr>" "2 ^ 63 - 1"]
  by (simp add: NewIOLimiter_def Second_def)

subsection \<open>Jobs\<close>

record CompactionJob =
  job_InputPaths :: "string list"
  job_OutputPath :: string
  job_Priority :: int
  job_CreatedAt :: time

record ManagerConfig =
  mc_PlannerConfig :: PlannerConfig
  mc_ExecutorConfig :: ExecutorConfig
  mc_CheckInterval :: int
  mc_MaxConcurrent :: int
  mc_MaxIOPS :: int
  mc_MaxBandwidth :: int

definition DefaultManagerConfig :: ManagerConfig where
  "DefaultManagerConfig =
     \<lparr>mc_PlannerConfig = DefaultPlannerConfig, mc_ExecutorConfig = DefaultExecutorConfig,
      mc_CheckInterval = 30 * Second, mc_MaxConcurrent = 1, mc_MaxIOPS = 1000,
      mc_MaxBandwidth = 100 * 1024 * 1024\<rparr>"

record Manager =
  mg_planner :: Planner
  mg_executor :: Executor
  mg_jobQueue :: "CompactionJob list"
  mg_ioLimiter :: IOLimiter
  mg_running :: bool
  mg_workers :: int
  mg_checkInterval :: int
  mg_maxConcurrent :: int

definition NewManager :: "ManagerConfig \<Rightarrow> time \<Rightarrow> sst_dir \<Rightarrow> Manager" where
  "NewManager config now dir =
     \<lparr>mg_planner = NewPlanner (mc_PlannerConfig config),
      mg_executor = NewExecutor (mc_ExecutorConfig config) dir,
      mg_jobQueue = [], mg_ioLimiter = NewIOLimiter now (mc_MaxIOPS config) (mc_MaxBandwidth config),
      mg_running = False, mg_workers = 0, mg_checkInterval = mc_CheckInterval config,
      mg_maxConcurrent = mc_MaxConcurrent config\<rparr>"

text \<open>Starting and stopping; the worker and scheduler goroutines repeat the operations below
  while the manager runs.\<close>

definition mg_Start :: "Manager \<Rightarrow> Manager go" where
  "mg_Start m =
     (if mg_running m then Inl (Fail ''compaction manager already running'')
      else Inr (m\<lparr>mg_running := True, mg_workers := mg_maxConcurrent m\<rparr>))"

definition mg_Stop :: "Manager \<Rightarrow> Manager" where
  "mg_Stop m = (if \<not> mg_running m then m else m\<lparr>mg_running := False\<rparr>)"

definition put_job :: "CompactionJob \<Rightarrow> CompactionJob list \<Rightarrow> CompactionJob list" where
  "put_job job queue = sort_Slice (\<lambda>a b. job_Priority a > job_Priority b) (queue @ [job])"

definition enqueueJob :: "CompactionJob \<Rightarrow> Manager \<Rightarrow> Manager" where
  "enqueueJob job m = m\<lparr>mg_jobQueue := put_job job (mg_jobQueue m)\<rparr>"

definition take_job :: "CompactionJob list \<Rightarrow> (CompactionJob \<times> CompactionJob list) option" where
  "take_job queue = (if length queue = 0 then None else Some (queue ! 0, drop 1 queue))"

definition dequeueJob :: "Manager \<Rightarrow> CompactionJob option \<times> Manager" where
  "dequeueJob m =
     (case take_job (mg_jobQueue m) of
        None \<Rightarrow> (None, m)
      | Some (job, queue) \<Rightarrow> (Some job, m\<lparr>mg_jobQueue := queue\<rparr>))"

interpretation job_queue: prio_queue put_job take_job job_Priority
proof
  fix j :: CompactionJob and q :: "CompactionJob list"
  show "mset (put_job j q) = add_mset j (mset q)"
    by (simp add: put_job_def)
  show "sorted_wrt (\<lambda>a b. job_Priority a \<ge> job_Priority b) (put_job j q)"
    unfolding put_job_def by (rule sort_Slice_sorted_key_desc)
  show "take_job [] = None" "take_job (j # q) = Some (j, q)"
    by (simp_all add: take_job_def)
qed

definition checkAndSchedule :: "time \<Rightarrow> sst_dir \<Rightarrow> Manager \<Rightarrow> Manager" where
  "checkAndSchedule now dir m =
     (case ShouldCompact (mg_planner m) now dir of
        Inl e \<Rightarrow> m
      | Inr False \<Rightarrow> m
      | Inr True \<Rightarrow>
          (case PlanCompaction (mg_planner m) now dir of
             Inl e \<Rightarrow> m
           | Inr compactions \<Rightarrow>
               fold (\<lambda>inputPaths m.
                  if length inputPaths = 0 then m
                  else enqueueJob \<lparr>job_InputPaths = inputPaths, job_OutputPath = [],
                                  job_Priority = int (length inputPaths), job_CreatedAt = now\<rparr> m)
                 compactions m))"

definition TriggerCompaction :: "time \<Rightarrow> sst_dir \<Rightarrow> Manager \<Rightarrow> Manager go" where
  "TriggerCompaction now dir m =
     (if \<not> mg_running m then Inl (Fail ''compaction manager is not running'')
      else Inr (checkAndSchedule now dir m))"

definition job_size :: "sst_dir \<Rightarrow> CompactionJob \<Rightarrow> int64" where
  "job_size dir job =
     fold (\<lambda>path totalSize. case map_of dir path of
                              None \<Rightarrow> totalSize
                            | Some (data, t) \<Rightarrow> wrap64 (totalSize + int (length data)))
       (job_InputPaths job) 0"

text \<open>\<open>None\<close>: still waiting for the limiter after all readings of the clock.\<close>

definition processJob ::
  "time list \<Rightarrow> time \<Rightarrow> CompactionJob \<Rightarrow> Manager \<times> sst_dir \<Rightarrow> (Manager \<times> sst_dir \<times> CompactionJob) option" where
  "processJob clock now job = (\<lambda>(m, dir).
     case io_Wait clock (wrap64 (job_size dir job * 2)) (mg_ioLimiter m) of
       None \<Rightarrow> None
     | Some l \<Rightarrow>
         (case Compact (mg_executor m) dir now (job_InputPaths job) of
            (e, dir, Inl err) \<Rightarrow> Some (m\<lparr>mg_ioLimiter := l, mg_executor := e\<rparr>, dir, job)
          | (e, dir, Inr outputPath) \<Rightarrow>
              Some (m\<lparr>mg_ioLimiter := l, mg_executor := e\<rparr>, dir, job\<lparr>job_OutputPath := outputPath\<rparr>)))"

definition mg_GetQueueSize :: "Manager \<Rightarrow> nat" where
  "mg_GetQueueSize m = length (mg_jobQueue m)"

record Stats =
  st_QueueSize :: nat
  st_IsRunning :: bool
  st_MaxConcurrent :: int

definition mg_GetStats :: "Manager \<Rightarrow> Stats" where
  "mg_GetStats m = \<lparr>st_QueueSize = length (mg_jobQueue m), st_IsRunning = mg_running m,
     st_MaxConcurrent = mg_maxConcurrent m\<rparr>"

section \<open>Properties\<close>

text \<open>A planned compaction is sound: every group has at least two files, no file is planned
  twice, every planned file is a readable table of at least the minimal size, and a plan that is
  not empty is found necessary by the check that precedes it.\<close>

theorem compaction_plan_sound:
  assumes "PlanCompaction p now dir = Inr plan" and "distinct (map fst dir)"
  shows "list_all (\<lambda>g. length g \<ge> 2) plan \<and> distinct (concat plan) \<and>
         (plan = [] \<or> ShouldCompact p now dir = Inr True) \<and>
         list_all (\<lambda>path. \<exists>data t r. map_of dir path = Some (data, t) \<and> NewReader data = Inr r \<and>
                     int (length data) \<ge> pl_minSize p) (concat plan)"
  using plan_sound [OF assms] plan_should_compact [OF assms(1)] by (auto simp: list_all_iff)

text \<open>The comment on \<^verbatim>\<open>selectBestRow\<close> promises that rows of newer tables win when timestamps are missing
  or equal. They do not: rows of fewer than eight bytes have none, and the longer one is kept, however old
  its table is (the rows of the newest table come first).\<close>

lemma older_longer_row_wins:
  assumes "length (row_Data newer_row) < length (row_Data older_row)"
    and "extractTimestamp older_row = extractTimestamp newer_row"
  shows "selectBestRow [newer_row, older_row] = Some older_row"
  using assms by (simp add: selectBestRow_def better_row_def)

text \<open>C8. Compacting tables of sorted rows replaces the input files by one new table, under a name
  not in use before, in which every entity has exactly one row: one of its rows of the inputs, with
  the greatest pseudo-timestamp and, among those, the most data. (On equal or missing timestamps the
  code's comment promises the row of the newer table instead, which the code does not keep.)\<close>

theorem compaction_keeps_one_row:
  assumes "list_all input_ok rowss" and "paths \<noteq> []" and "table_ok (compacted rowss)"
    and "list_all2 (\<lambda>path rows. \<exists>t. map_of dir path = Some (table_enc rows, t)) paths rowss"
    and "numbers_below_max (ex_sstablePrefix e) (paths @ map fst dir)"
  shows "\<exists>e' dir' out r. Compact e dir now paths = (e', dir', Inr out) \<and>
           out \<notin> fst ` set dir \<and> (\<forall>path \<in> set paths. map_of dir' path = None) \<and>
           map_of dir' out = Some (table_enc (compacted rowss), now) \<and>
           NewReader (table_enc (compacted rowss)) = Inr r \<and>
           (\<forall>eid \<in> row_EntityID ` set (concat rowss).
              \<exists>b. reader_Get r eid = Inr [b] \<and> best_of b (entity_rows rowss eid))"
proof -
  let ?out = "numbered_name (ex_sstablePrefix e) ''.sst'' (output_seq e dir paths)"
  let ?dir = "fold AList.delete paths (AList.update ?out (table_enc (compacted rowss), now) dir)"
  obtain e' where c: "Compact e dir now paths = (e', ?dir, Inr ?out)"
    using Compact_tables [OF assms(1,2,4)] by (auto simp: Let_def)
  have fresh: "?out \<notin> fst ` set dir" "?out \<notin> set paths"
    using output_fresh [OF assms(5)] by auto
  have del: "map_of (fold AList.delete ps d) k = (if k \<in> set ps then None else map_of d k)" for ps k
    and d :: sst_dir
    by (induction ps arbitrary: d) auto
  let ?r = "table_reader (compacted rowss)"
  have sorted: "sorted (map row_EntityID (compacted rowss))"
    by (simp add: compacted_ids [OF assms(1)] entity_ids_def)
  have get: "\<exists>b. reader_Get ?r eid = Inr [b] \<and> best_of b (entity_rows rowss eid)"
    if eid: "eid \<in> row_EntityID ` set (concat rowss)" for eid
  proof -
    have ne: "eid \<noteq> []" using entity_ids_ok [OF assms(1) eid] .
    obtain b where b: "selectBestRow (entity_rows rowss eid) = Some b" "best_of b (entity_rows rowss eid)"
        "stamped b = b"
      using best_row [OF assms(1) eid] by blast
    have "filter (\<lambda>x. row_EntityID x = eid) (compacted rowss) = [b]"
      using compacted_one [OF assms(1) eid] b(1) by simp
    with reader_Get_table [OF assms(3) sorted ne] b show ?thesis
      by (simp add: table_reader_def)
  qed
  have "NewReader (table_enc (compacted rowss)) = Inr ?r"
    using NewReader_table [OF assms(3)] by (simp add: table_reader_def)
  with c fresh get show ?thesis by (fastforce simp: del)
qed

text \<open>Two rows of one entity, of different types, in one table.\<close>

definition sample_meta :: Row where
  "sample_meta = \<lparr>row_Type = RowTypeMeta, row_EntityID = ''a'', row_Data = [1, 2], row_CRC32 = 0\<rparr>"

definition sample_vector :: Row where
  "sample_vector = \<lparr>row_Type = RowTypeVector, row_EntityID = ''a'', row_Data = [7], row_CRC32 = 0\<rparr>"

abbreviation sample_path :: string where
  "sample_path \<equiv> numbered_name ''sstable'' ''.sst'' 1"

definition sample_dir :: sst_dir where
  "sample_dir = [(sample_path, (table_enc [sample_meta, sample_vector], 0))]"

lemma sample_input_ok: "input_ok [sample_meta, sample_vector]"
  unfolding input_ok_def
  by (rule conjI, rule small_table_ok)
    (simp_all add: sample_meta_def sample_vector_def row_ok_def fits32_def RowSize_def)

lemma sample_compacted_ok: "table_ok (compacted [[sample_meta, sample_vector]])"
proof -
  have ids: "entity_ids [[sample_meta, sample_vector]] = [''a'']"
    by (simp add: entity_ids_def sample_meta_def sample_vector_def)
  obtain b where b: "selectBestRow (entity_rows [[sample_meta, sample_vector]] ''a'') = Some b"
      "best_of b (entity_rows [[sample_meta, sample_vector]] ''a'')" "row_ok b"
    using best_row [of "[[sample_meta, sample_vector]]" "''a''"] sample_input_ok
    by (auto simp: sample_meta_def)
  then have "b \<in> {stamped sample_meta, stamped sample_vector}"
    by (simp add: best_of_def set_entity_rows) (auto simp: sample_meta_def sample_vector_def)
  then have "RowSize b < 1000"
    by (auto simp: RowSize_def sample_meta_def sample_vector_def)
  with b(1,3) ids show ?thesis
    by (intro small_table_ok) (simp_all add: compacted_def)
qed

lemma sample_numbers: "numbers_below_max ''sstable'' ([sample_path] @ map fst sample_dir)"
  by (simp add: numbers_below_max_def sample_dir_def word_less_nat_alt unat_max64)

definition sample_planner :: Planner where
  "sample_planner = \<lparr>pl_sstablePrefix = ''sstable'', pl_minSize = 0, pl_maxAge = 0\<rparr>"

definition twin_dir :: sst_dir where
  "twin_dir = [(''sstable-1.sst'', (table_enc sample_rows, 0)), (''sstable-2.sst'', (table_enc sample_rows, 0))]"

lemma twin_glob: "glob_names ''sstable'' ''.sst'' [''sstable-1.sst'', ''sstable-2.sst''] = [''sstable-1.sst'', ''sstable-2.sst'']"
  by (simp add: glob_names_def suffix_to_prefix)

lemma twin_plan: "PlanCompaction sample_planner 5 twin_dir = Inr [[''sstable-1.sst'', ''sstable-2.sst'']]"
proof -
  have "NewReader (table_enc sample_rows) = Inr (table_reader sample_rows)"
    using NewReader_table sample_rows_ok by (simp add: table_reader_def)
  then show ?thesis
    by (simp add: PlanCompaction_def ListSSTables_def sample_planner_def twin_dir_def twin_glob info_less_def
        groupBySizeTier_def tier_step_def plan_tier_def old_enough_def Let_def)
qed

lemma compaction_plan_sound_witness:
  "list_all (\<lambda>g. length g \<ge> 2) [[''sstable-1.sst'', ''sstable-2.sst'']] \<and>
   ShouldCompact sample_planner 5 twin_dir = Inr True"
proof -
  have "distinct (map fst twin_dir)" by (simp add: twin_dir_def)
  from compaction_plan_sound [OF twin_plan this] show ?thesis by simp
qed

lemma compaction_keeps_one_row_witness:
  "\<exists>e' dir' out r b. Compact \<lparr>ex_sstablePrefix = ''sstable'', ex_nextSeq = 0\<rparr> sample_dir 9 [sample_path] = (e', dir', Inr out) \<and>
     map_of dir' sample_path = None \<and>
     map_of dir' out = Some (table_enc (compacted [[sample_meta, sample_vector]]), 9) \<and>
     NewReader (table_enc (compacted [[sample_meta, sample_vector]])) = Inr r \<and>
     reader_Get r ''a'' = Inr [b]"
proof -
  let ?e = "\<lparr>ex_sstablePrefix = ''sstable'', ex_nextSeq = 0\<rparr>"
  have in_ok: "list_all input_ok [[sample_meta, sample_vector]]" using sample_input_ok by simp
  have files: "list_all2 (\<lambda>path rows. \<exists>t. map_of sample_dir path = Some (table_enc rows, t))
      [sample_path] [[sample_meta, sample_vector]]"
    by (simp add: sample_dir_def)
  have nums: "numbers_below_max (ex_sstablePrefix ?e) ([sample_path] @ map fst sample_dir)"
    using sample_numbers by simp
  have mem: "''a'' \<in> row_EntityID ` set (concat [[sample_meta, sample_vector]])" "sample_path \<in> set [sample_path]"
    "[sample_path] \<noteq> []"
    by (simp_all add: sample_meta_def)
  from compaction_keeps_one_row [OF in_ok mem(3) sample_compacted_ok files nums, of 9] mem(1,2)
  show ?thesis by blast
qed

text \<open>A job whose estimated IO is above the bandwidth limit is never admitted: the worker that
  took it waits forever, whatever the clock shows, and so does a stop of the manager.\<close>

theorem oversized_job_waits_forever:
  assumes "job_size dir job * 2 > io_maxBandwidth (mg_ioLimiter m)" and "job_size dir job \<ge> 0"
    and "io_bytesCount (mg_ioLimiter m) \<ge> 0"
    and "io_bytesCount (mg_ioLimiter m) + job_size dir job * 2 < 2 ^ 63"
  shows "processJob clock now job (m, dir) = None"
proof -
  from assms have "io_Wait clock (job_size dir job * 2) (mg_ioLimiter m) = None"
    by (intro io_Wait_too_big) simp_all
  moreover from assms have "wrap64 (job_size dir job * 2) = job_size dir job * 2"
    by (intro wrap64_id) simp_all
  ultimately show ?thesis by (simp add: processJob_def)
qed

lemma oversized_job_waits_forever_witness:
  "processJob [0, Second, 2 * Second] 0
     \<lparr>job_InputPaths = [''big''], job_OutputPath = [], job_Priority = 1, job_CreatedAt = 0\<rparr>
     (NewManager DefaultManagerConfig 0 [], [(''big'', (replicate 60000000 0, 0))]) = None"
  by (rule oversized_job_waits_forever)
    (simp_all add: job_size_def NewManager_def DefaultManagerConfig_def NewIOLimiter_def wrap64_id)

text \<open>C13. The limiter admits, in any interval of one second, at most twice the operations of a
  window (its windows are fixed, so two of them can fall into one second), and at most twice the bytes of
  a window when no request is negative or so large that the bandwidth limit plus the request overflows an
  int64. Beyond that the bound fails: the sum wraps, and the request is admitted.\<close>

theorem io_limiter_bound:
  assumes "sorted (map fst calls)" and "0 \<le> maxIOPS" and "maxIOPS < 2 ^ 63" and "0 \<le> maxBandwidth"
  shows "admitted_weight io_Allow (\<lambda>bytes. 1) a calls (NewIOLimiter now maxIOPS maxBandwidth) \<le> 2 * maxIOPS \<and>
         ((\<forall>(t, bytes) \<in> set calls. bytes_fit maxBandwidth bytes) \<longrightarrow>
            admitted_weight io_Allow (\<lambda>bytes. bytes) a calls (NewIOLimiter now maxIOPS maxBandwidth)
              \<le> 2 * maxBandwidth)"
  using io_ops.burst_bound [of "NewIOLimiter now maxIOPS maxBandwidth" calls a]
    io_bytes.burst_bound [of "NewIOLimiter now maxIOPS maxBandwidth" calls a] assms
  by (simp add: NewIOLimiter_def split_beta)

lemma io_limiter_bound_witness:
  "admitted_weight io_Allow (\<lambda>bytes. bytes) 1 [(Second - 1, 5), (Second, 5), (Second + 1, 5)] (NewIOLimiter 0 1 10) \<le> 20"
  using io_limiter_bound [of "[(Second - 1, 5), (Second, 5), (Second + 1, 5)]" 1 10 1 0] by simp

text \<open>Jobs are served in the order of their priorities, every scheduled job exactly once.\<close>

theorem jobs_served_by_priority:
  "let served = drain take_job (length jobs) (fold put_job jobs [])
   in sorted_wrt (\<lambda>a b. job_Priority a \<ge> job_Priority b) served \<and> mset served = mset jobs"
  using job_queue.serves_by_priority [of jobs] by (simp add: Let_def)

end
