(* ===== verification/Tenancy.thy ===== *)
theory Tenancy
  imports Alli_Prelude
begin

text \<open>
  Authentication and tenant isolation: the API-key store (\<^verbatim>\<open>core/security/auth/apikey.go\<close>),
  the HTTP middleware and the gRPC interceptors that put a key's tenant into the request context
  (\<^verbatim>\<open>middleware.go\<close>, \<^verbatim>\<open>grpc.go\<close>), the tenant helpers
  (\<^verbatim>\<open>core/security/tenant/context.go\<close>) and the guard of the storage layer
  (\<^verbatim>\<open>core/storage/guard.go\<close>). Of a context only the value of its tenant key matters. The
  handler behind the middleware is a parameter. Log lines are left out.
\<close>

section \<open>API keys\<close>

type_synonym APIKeyStore = "(string \<times> string) list"

definition NewAPIKeyStore :: APIKeyStore where
  "NewAPIKeyStore = []"

definition AddKey :: "string \<Rightarrow> string \<Rightarrow> APIKeyStore \<Rightarrow> APIKeyStore" where
  "AddKey apiKey tenantID keys = AList.update apiKey tenantID keys"

definition RemoveKey :: "string \<Rightarrow> APIKeyStore \<Rightarrow> APIKeyStore" where
  "RemoveKey apiKey keys = AList.delete apiKey keys"

text \<open>\<^verbatim>\<open>subtle.ConstantTimeCompare\<close>: the bitwise or of the differences of all bytes is zero.\<close>

definition constantTimeCompare :: "string \<Rightarrow> string \<Rightarrow> bool" where
  "constantTimeCompare a b \<longleftrightarrow>
     (if length a \<noteq> length b then False
      else fold (\<lambda>(x, y) v. or v (xor x y)) (zip (bytes_of a) (bytes_of b)) 0 = 0)"

fun store_GetTenantID :: "APIKeyStore \<Rightarrow> string \<Rightarrow> string option" where
  "store_GetTenantID [] apiKey = None"
| "store_GetTenantID ((storedKey, tenantID) # keys) apiKey =
     (if constantTimeCompare apiKey storedKey then Some tenantID else store_GetTenantID keys apiKey)"

definition HasKey :: "APIKeyStore \<Rightarrow> string \<Rightarrow> bool" where
  "HasKey keys apiKey \<longleftrightarrow> store_GetTenantID keys apiKey \<noteq> None"

definition GetAllKeys :: "APIKeyStore \<Rightarrow> APIKeyStore" where
  "GetAllKeys keys = map (\<lambda>(key, tenantID). (key, tenantID)) keys"

definition CountKeys :: "APIKeyStore \<Rightarrow> nat" where
  "CountKeys keys = length keys"

lemma or_fold_zero: "fold (\<lambda>(x, y) v. or v (xor x y)) ps (v :: byte) = 0 \<longleftrightarrow> v = 0 \<and> (\<forall>(x, y) \<in> set ps. x = y)"
proof (induction ps arbitrary: v)
  case Nil
  then show ?case by simp
next
  case (Cons p ps)
  obtain x y where p: "p = (x, y)" by (cases p)
  have "or v (xor x y) = 0 \<longleftrightarrow> v = 0 \<and> x = y"
    by (metis (no_types, lifting) or.right_neutral or_eq_0_iff xor_self_eq bit.xor_left_self xor.right_neutral)
  with Cons p show ?case by auto
qed

lemma bytes_of_inject: "bytes_of a = bytes_of b \<longleftrightarrow> a = b"
  using string_of_bytes_of by metis

lemma constantTimeCompare_eq [simp]: "constantTimeCompare a b \<longleftrightarrow> a = b"
proof (cases "length a = length b")
  case True
  then have "(\<forall>(x, y) \<in> set (zip (bytes_of a) (bytes_of b)). x = y) \<longleftrightarrow> bytes_of a = bytes_of b"
    by (auto simp: list_eq_iff_nth_eq set_zip)
  with True show ?thesis by (simp add: constantTimeCompare_def or_fold_zero bytes_of_inject)
qed (auto simp: constantTimeCompare_def)

text \<open>The search over the map, in whatever order, is a lookup.\<close>

lemma store_GetTenantID_map [simp]: "store_GetTenantID keys apiKey = map_of keys apiKey"
  by (induction keys) auto

section \<open>Contexts\<close>

text \<open>A context is the value of its tenant key, if it has one.\<close>

type_synonym ctx = "string option"

definition ctx_GetTenantID :: "ctx \<Rightarrow> string \<times> bool" where
  "ctx_GetTenantID c = (case c of None \<Rightarrow> ([], False) | Some t \<Rightarrow> (t, True))"

definition WithTenantID :: "ctx \<Rightarrow> string \<Rightarrow> ctx" where
  "WithTenantID c tenantID = Some tenantID"

definition TenantFromContext :: "ctx \<Rightarrow> string \<times> bool" where
  "TenantFromContext c =
     (case ctx_GetTenantID c of (tenantID, ok) \<Rightarrow>
        if \<not> ok \<or> tenantID = [] then ([], False) else (tenantID, True))"

definition tenant_RequireTenant :: "ctx \<Rightarrow> string go" where
  "tenant_RequireTenant c =
     (case TenantFromContext c of (tenantID, ok) \<Rightarrow>
        if \<not> ok \<or> tenantID = [] then Inl (Fail ''tenant not found in context'') else Inr tenantID)"

definition tenant_MustRequireTenant :: "ctx \<Rightarrow> string go" where
  "tenant_MustRequireTenant c =
     (case tenant_RequireTenant c of Inl e \<Rightarrow> Inl Panic | Inr tenantID \<Rightarrow> Inr tenantID)"

section \<open>Middleware\<close>

text \<open>
  What an interceptor does with a request: reject it with a status and message, or call the
  handler with a context. \<open>header\<close> and \<open>md\<close> read the request's headers and metadata.
\<close>

datatype 'r response = Rejected nat string | Handled 'r

definition APIKeyHeader :: string where
  "APIKeyHeader = ''X-ALLIDB-API-KEY''"

definition HTTPAuthMiddlewareWithHeader ::
  "APIKeyStore \<Rightarrow> string \<Rightarrow> (ctx \<Rightarrow> 'r) \<Rightarrow> (string \<Rightarrow> string) \<Rightarrow> ctx \<Rightarrow> 'r response" where
  "HTTPAuthMiddlewareWithHeader store hdr next_handler header c =
     (let hdr = (if hdr = [] then APIKeyHeader else hdr);
          apiKey = header hdr
      in if apiKey = [] then Rejected 401 ''Missing API key''
         else case store_GetTenantID store apiKey of
                None \<Rightarrow> Rejected 401 ''Invalid API key''
              | Some tenantID \<Rightarrow> Handled (next_handler (WithTenantID c tenantID)))"

definition HTTPAuthMiddleware ::
  "APIKeyStore \<Rightarrow> (ctx \<Rightarrow> 'r) \<Rightarrow> (string \<Rightarrow> string) \<Rightarrow> ctx \<Rightarrow> 'r response" where
  "HTTPAuthMiddleware store = HTTPAuthMiddlewareWithHeader store APIKeyHeader"

text \<open>gRPC status 16 is Unauthenticated; metadata keys are lower case.\<close>

definition GRPCAuthInterceptor ::
  "APIKeyStore \<Rightarrow> (ctx \<Rightarrow> 'r) \<Rightarrow> (string \<Rightarrow> string list) option \<Rightarrow> ctx \<Rightarrow> 'r response" where
  "GRPCAuthInterceptor store handler md c =
     (case md of
        None \<Rightarrow> Rejected 16 ''missing metadata''
      | Some get \<Rightarrow>
          (let apiKeys = get ''x-allidb-api-key''
           in if length apiKeys = 0 then Rejected 16 ''missing API key''
              else let apiKey = apiKeys ! 0
                   in if apiKey = [] then Rejected 16 ''empty API key''
                      else case store_GetTenantID store apiKey of
                             None \<Rightarrow> Rejected 16 ''invalid API key''
                           | Some tenantID \<Rightarrow> Handled (handler (WithTenantID c tenantID))))"

text \<open>The stream interceptor replaces the context that the handler sees on the stream.\<close>

record 's wrappedServerStream =
  ss_ServerStream :: 's
  ss_ctx :: ctx

definition wrapped_Context :: "'s wrappedServerStream \<Rightarrow> ctx" where
  "wrapped_Context w = ss_ctx w"

definition GRPCStreamAuthInterceptor ::
  "APIKeyStore \<Rightarrow> ('s wrappedServerStream \<Rightarrow> 'r) \<Rightarrow> (string \<Rightarrow> string list) option \<Rightarrow> 's \<Rightarrow> ctx \<Rightarrow> 'r response" where
  "GRPCStreamAuthInterceptor store handler md stream c =
     (case md of
        None \<Rightarrow> Rejected 16 ''missing metadata''
      | Some get \<Rightarrow>
          (let apiKeys = get ''x-allidb-api-key''
           in if length apiKeys = 0 then Rejected 16 ''missing API key''
              else let apiKey = apiKeys ! 0
                   in if apiKey = [] then Rejected 16 ''empty API key''
                      else case store_GetTenantID store apiKey of
                             None \<Rightarrow> Rejected 16 ''invalid API key''
                           | Some tenantID \<Rightarrow>
                               Handled (handler \<lparr>ss_ServerStream = stream, ss_ctx = WithTenantID c tenantID\<rparr>)))"

section \<open>Guard\<close>

record TenantGuard =
  failHard :: bool

definition guard_RequireTenant :: "TenantGuard \<Rightarrow> ctx \<Rightarrow> string go" where
  "guard_RequireTenant g c =
     (case tenant_RequireTenant c of
        Inl err \<Rightarrow> if failHard g then Inl Panic else rwrap ''tenant isolation violation'' (Inl err)
      | Inr tenantID \<Rightarrow> Inr tenantID)"

definition guard_ValidateTenant :: "TenantGuard \<Rightarrow> ctx \<Rightarrow> string \<Rightarrow> unit go" where
  "guard_ValidateTenant g c expectedTenantID =
     rbind (guard_RequireTenant g c) (\<lambda>actualTenantID.
     if actualTenantID \<noteq> expectedTenantID
     then (if failHard g then Inl Panic else Inl (Fail ''TENANT ISOLATION VIOLATION''))
     else Inr ())"

definition ValidateEntityTenant :: "TenantGuard \<Rightarrow> ctx \<Rightarrow> string \<Rightarrow> unit go" where
  "ValidateEntityTenant g c entityTenantID =
     rbind (guard_RequireTenant g c) (\<lambda>contextTenantID.
     if entityTenantID \<noteq> contextTenantID
     then (if failHard g then Inl Panic else Inl (Fail ''TENANT ISOLATION VIOLATION''))
     else Inr ())"

definition guard_MustRequireTenant :: "TenantGuard \<Rightarrow> ctx \<Rightarrow> string go" where
  "guard_MustRequireTenant g c =
     (case guard_RequireTenant g c of Inl e \<Rightarrow> Inl Panic | Inr tenantID \<Rightarrow> Inr tenantID)"

lemma guard_RequireTenant_Inr [simp]: "guard_RequireTenant g c = Inr t \<longleftrightarrow> c = Some t \<and> t \<noteq> []"
  by (auto simp: guard_RequireTenant_def tenant_RequireTenant_def TenantFromContext_def
      ctx_GetTenantID_def rwrap_def split: option.splits if_splits)

lemma ValidateEntityTenant_Inr [simp]: "ValidateEntityTenant g c t = Inr () \<longleftrightarrow> c = Some t \<and> t \<noteq> []"
  by (auto simp: ValidateEntityTenant_def rbind_eq_Inr)

lemma guard_soft: "\<not> failHard g \<Longrightarrow> guard_RequireTenant g c \<noteq> Inl Panic \<and> ValidateEntityTenant g c t \<noteq> Inl Panic"
  by (auto simp: ValidateEntityTenant_def rbind_eq_Inl guard_RequireTenant_def tenant_RequireTenant_def
      TenantFromContext_def ctx_GetTenantID_def rwrap_def split: option.splits if_splits)

section \<open>Properties\<close>

text \<open>A request passes the HTTP middleware exactly when its key is in the store, and the handler
  then sees the tenant of that key, whatever tenant the incoming context claims; so a guarded
  operation behind it succeeds only for entities of that tenant.\<close>

theorem authenticated_tenant:
  "(HTTPAuthMiddlewareWithHeader store hdr (\<lambda>c. ValidateEntityTenant g c owner) header c = Handled (Inr ())) =
     (let apiKey = header (if hdr = [] then APIKeyHeader else hdr)
      in apiKey \<noteq> [] \<and> map_of store apiKey = Some owner \<and> owner \<noteq> [])"
  by (auto simp: HTTPAuthMiddlewareWithHeader_def Let_def WithTenantID_def split: option.splits)

text \<open>Adding and removing keys behaves like a map: after adding, the key authenticates its
  tenant; after removing, it no longer authenticates; other keys are not affected.\<close>

theorem api_key_lifecycle:
  "store_GetTenantID (AddKey k t keys) k' = (if k' = k then Some t else store_GetTenantID keys k') \<and>
   store_GetTenantID (RemoveKey k keys) k' = (if k' = k then None else store_GetTenantID keys k') \<and>
   HasKey (AddKey k t keys) k \<and> \<not> HasKey (RemoveKey k keys) k"
  by (simp add: AddKey_def RemoveKey_def HasKey_def)

end
