(* ===== verification/Storage_Service.thy ===== *)
theory Storage_Service
  imports Entity_Codec Memtable Wal Compaction Tenancy
begin

text \<open>
  The storage service of \<^verbatim>\<open>src/cmd/allidbd/storage_service.go\<close>, which puts write-ahead
  log, memtable, tables and tenant guard together, the settings that
  \<^verbatim>\<open>src/core/storage/engine.go\<close> derives for them, and the replay at start-up of
  \<^verbatim>\<open>src/cmd/allidbd/main.go\<close>.

  The service's directory holds the tables; \<open>now\<close> is a reading of the clock, positive and below
  \<open>2 ^ 63\<close> nanoseconds. An operation runs from start to end here, except that the flush is split
  where puts can come in between. The operating system's errors are left out; a flush that one of
  them stops leaves a file without footer behind.
\<close>

section \<open>Engine settings\<close>

record EngineConfig =
  eng_WALMaxFileMB :: int
  eng_WALFsync :: bool
  eng_MemtableMaxMB :: int
  eng_CompactionMaxConcurrent :: int

definition NewEngineConfigFromConfig :: "int \<Rightarrow> bool \<Rightarrow> int \<Rightarrow> int \<Rightarrow> EngineConfig" where
  "NewEngineConfigFromConfig walMaxFileMB walFsync memtableMaxMB maxConcurrent =
     \<lparr>eng_WALMaxFileMB = walMaxFileMB, eng_WALFsync = walFsync, eng_MemtableMaxMB = memtableMaxMB,
      eng_CompactionMaxConcurrent = maxConcurrent\<rparr>"

definition engine_WALConfig :: "EngineConfig \<Rightarrow> WALConfig" where
  "engine_WALConfig e = \<lparr>FilePrefix = ''wal'', MaxFileSize = eng_WALMaxFileMB e * 1024 * 1024\<rparr>"

definition engine_MemtableConfig :: "EngineConfig \<Rightarrow> int" where
  "engine_MemtableConfig e = eng_MemtableMaxMB e * 1024 * 1024"

text \<open>A field that a composite literal leaves out has its zero value.\<close>

definition engine_CompactionConfig :: "EngineConfig \<Rightarrow> ManagerConfig" where
  "engine_CompactionConfig e =
     \<lparr>mc_PlannerConfig = \<lparr>pc_SSTablePrefix = ''sstable'', pc_MinSize = 1 * 1024 * 1024, pc_MaxAge = 1 * Hour\<rparr>,
      mc_ExecutorConfig = \<lparr>xc_SSTablePrefix = ''''\<rparr>,
      mc_CheckInterval = 30 * Second, mc_MaxConcurrent = eng_CompactionMaxConcurrent e,
      mc_MaxIOPS = 1000, mc_MaxBandwidth = 100 * 1024 * 1024\<rparr>"

section \<open>Rows and log entries\<close>

definition EntityRow_Size :: "UnifiedEntity \<Rightarrow> int" where
  "EntityRow_Size e =
     int (length (EntityID e) + length (TenantID e) +
          sum_list (map (\<lambda>emb. length (Vector emb) * 4) (GetEmbeddings e)) +
          length (IncomingEdges e) * 100 + length (OutgoingEdges e) * 100 +
          sum_list (map (\<lambda>chunk. length (Text chunk) + 50) (Chunks e)))"

definition EntityWALEntry_ToBytes :: "UnifiedEntity \<Rightarrow> bytes go" where
  "EntityWALEntry_ToBytes e = entity_ToBytes e"

definition EntityWALEntry_FromBytes :: "bytes \<Rightarrow> UnifiedEntity go" where
  "EntityWALEntry_FromBytes data = rbind (entity_FromBytes data) (\<lambda>ent. Inr ent)"

definition storable :: "UnifiedEntity \<Rightarrow> bool" where
  "storable e \<longleftrightarrow> entity_ok e \<and> fits32 (entity_enc e)"

interpretation entity_log: wal_entry EntityWALEntry_ToBytes EntityWALEntry_FromBytes storable
proof
  fix e
  assume "storable e"
  then show "\<exists>d. EntityWALEntry_ToBytes e = Inr d \<and> fits32 d \<and> EntityWALEntry_FromBytes d = Inr e"
    using entity_FromBytes_append [of e "[]"]
    by (simp add: storable_def EntityWALEntry_ToBytes_def EntityWALEntry_FromBytes_def)
qed

section \<open>The service\<close>

record StorageService =
  ss_wal :: WAL
  ss_memtable :: "UnifiedEntity Memtable"
  ss_tenantGuard :: TenantGuard
  ss_dir :: sst_dir

definition NewStorageService :: "WAL \<Rightarrow> UnifiedEntity Memtable \<Rightarrow> TenantGuard \<Rightarrow> sst_dir \<Rightarrow> StorageService" where
  "NewStorageService w mt g dir = \<lparr>ss_wal = w, ss_memtable = mt, ss_tenantGuard = g, ss_dir = dir\<rparr>"

abbreviation memtable_Put :: "UnifiedEntity \<Rightarrow> UnifiedEntity Memtable \<Rightarrow> UnifiedEntity Memtable" where
  "memtable_Put \<equiv> mt_Put EntityID EntityRow_Size"

subsection \<open>Flush\<close>

text \<open>The table of a snapshot of the memtable.\<close>

fun flush_rows :: "(string \<times> UnifiedEntity list) list \<Rightarrow> string list \<Rightarrow> Row list go" where
  "flush_rows data [] = Inr []"
| "flush_rows data (entityID # ids) =
     rbind (go_map (\<lambda>e. rbind (entity_ToBytes e) (\<lambda>entityBytes.
              Inr \<lparr>row_Type = RowTypeMeta, row_EntityID = entityID, row_Data = entityBytes, row_CRC32 = 0\<rparr>))
              (rows_at data entityID)) (\<lambda>rows.
     rbind (flush_rows data ids) (\<lambda>rest. Inr (rows @ rest)))"

definition flush_path :: "time \<Rightarrow> string" where
  "flush_path now = numbered_name ''sstable'' ''.sst'' (UnixNano now)"

definition write_snapshot :: "time \<Rightarrow> (string \<times> UnifiedEntity list) list \<Rightarrow> sst_dir \<Rightarrow> sst_dir go" where
  "write_snapshot now data dir =
     (let entityIDs = sort_Slice (<) (map fst data)
      in rbind (flush_rows data entityIDs) (\<lambda>rows.
         rbind (write_table rows) (\<lambda>file. Inr (AList.update (flush_path now) (file, now) dir))))"

text \<open>The flush takes a snapshot of the memtable; \<open>flush_finish\<close> is what it does with it. Puts do
  not take the flush mutex and can come in between.\<close>

definition flush_finish ::
  "time \<Rightarrow> (string \<times> UnifiedEntity list) list \<Rightarrow> StorageService \<Rightarrow> StorageService go" where
  "flush_finish now data s =
     (if length data = 0 then Inr (s\<lparr>ss_memtable := mt_Reset (ss_memtable s)\<rparr>)
      else rbind (write_snapshot now data (ss_dir s)) (\<lambda>dir.
           Inr (s\<lparr>ss_dir := dir, ss_memtable := mt_Reset (ss_memtable s)\<rparr>)))"

definition FlushMemtable :: "time \<Rightarrow> StorageService \<Rightarrow> StorageService go" where
  "FlushMemtable now s = flush_finish now (mt_GetAllData (ss_memtable s)) s"

subsection \<open>Put\<close>

definition PutEntity :: "time \<Rightarrow> ctx \<Rightarrow> UnifiedEntity \<Rightarrow> StorageService \<Rightarrow> StorageService \<times> unit go" where
  "PutEntity now c ent s =
     (case rwrap ''tenant validation failed'' (guard_RequireTenant (ss_tenantGuard s) c) of
        Inl e \<Rightarrow> (s, Inl e)
      | Inr t \<Rightarrow>
     (case rwrap ''tenant mismatch'' (ValidateEntityTenant (ss_tenantGuard s) c (TenantID ent)) of
        Inl e \<Rightarrow> (s, Inl e)
      | Inr u \<Rightarrow>
     (case rwrap ''failed to write to WAL'' (writeEntry EntityWALEntry_ToBytes ent (ss_wal s)) of
        Inl e \<Rightarrow> (s, Inl e)
      | Inr w \<Rightarrow>
          let s = s\<lparr>ss_wal := w, ss_memtable := memtable_Put ent (ss_memtable s)\<rparr>
          in if mt_ShouldFlush (ss_memtable s) then
               (case rwrap ''failed to flush memtable'' (FlushMemtable now s) of
                  Inl e \<Rightarrow> (s, Inl e)
                | Inr s \<Rightarrow> (s, Inr ()))
             else (s, Inr ()))))"

subsection \<open>Get\<close>

definition extractRowTimestamp :: "bytes \<Rightarrow> int64" where
  "extractRowTimestamp data = (if length data < 8 then 0 else get_i64 (take 8 data))"

definition extractEntityTimestamp :: "UnifiedEntity option \<Rightarrow> int64" where
  "extractEntityTimestamp ent = (case ent of None \<Rightarrow> 0 | Some e \<Rightarrow> sint (UnixNano (UpdatedAt e)))"

definition latestFromMemtable :: "string \<Rightarrow> string \<Rightarrow> StorageService \<Rightarrow> UnifiedEntity option \<times> int64" where
  "latestFromMemtable eid tenantID s =
     (case mt_Get eid (ss_memtable s) of
        None \<Rightarrow> (None, 0)
      | Some rows \<Rightarrow>
          let ent = rows ! (length rows - 1)
          in if TenantID ent \<noteq> tenantID then (None, 0)
             else (Some ent, extractEntityTimestamp (Some ent)))"

text \<open>\<open>skip_fail r k\<close>: an error is skipped by \<^verbatim>\<open>continue\<close>, a panic is not.\<close>

definition skip_fail :: "'a go \<Rightarrow> 'b go \<Rightarrow> ('a \<Rightarrow> 'b go) \<Rightarrow> 'b go" where
  "skip_fail r skip k =
     (case r of Inl Panic \<Rightarrow> Inl Panic | Inl (Fail msg) \<Rightarrow> skip | Inr x \<Rightarrow> k x)"

fun latest_loop ::
  "sst_dir \<Rightarrow> string \<Rightarrow> string \<Rightarrow> string list \<Rightarrow> UnifiedEntity option \<times> int64 \<Rightarrow>
     (UnifiedEntity option \<times> int64) go" where
  "latest_loop dir eid tenantID [] best = Inr best"
| "latest_loop dir eid tenantID (path # paths) best =
     (case map_of dir path of
        None \<Rightarrow> latest_loop dir eid tenantID paths best
      | Some (data, modTime) \<Rightarrow>
          skip_fail (NewReader data) (latest_loop dir eid tenantID paths best) (\<lambda>reader.
          skip_fail (reader_Get reader eid) (latest_loop dir eid tenantID paths best) (\<lambda>rows.
          if length rows = 0 then latest_loop dir eid tenantID paths best
          else
            let row = rows ! (length rows - 1)
            in skip_fail (entity_FromBytes (row_Data row)) (latest_loop dir eid tenantID paths best) (\<lambda>ent.
               if TenantID ent \<noteq> tenantID then latest_loop dir eid tenantID paths best
               else
                 let ts = extractRowTimestamp (row_Data row)
                 in if ts \<ge> snd best then latest_loop dir eid tenantID paths (Some ent, ts)
                    else latest_loop dir eid tenantID paths best))))"

definition table_files :: "sst_dir \<Rightarrow> string list" where
  "table_files dir = sort_Slice (\<lambda>a b. a > b) (glob_names ''sstable'' ''.sst'' (map fst dir))"

definition latestFromSSTables :: "string \<Rightarrow> string \<Rightarrow> StorageService \<Rightarrow> (UnifiedEntity option \<times> int64) go" where
  "latestFromSSTables eid tenantID s =
     (if length (glob_names ''sstable'' ''.sst'' (map fst (ss_dir s))) = 0 then Inr (None, 0)
      else latest_loop (ss_dir s) eid tenantID (table_files (ss_dir s)) (None, 0))"

definition GetEntity :: "ctx \<Rightarrow> string \<Rightarrow> StorageService \<Rightarrow> UnifiedEntity option go" where
  "GetEntity c eid s =
     rbind (rwrap ''tenant validation failed'' (guard_RequireTenant (ss_tenantGuard s) c)) (\<lambda>tenantID.
     let (memEnt, memTS) = latestFromMemtable eid tenantID s
     in rbind (rwrap ''sstable lookup failed'' (latestFromSSTables eid tenantID s)) (\<lambda>(sstEnt, sstTS).
        if memEnt \<noteq> None \<and> memTS \<ge> sstTS then Inr memEnt
        else if sstEnt \<noteq> None then Inr sstEnt
        else Inr None))"

subsection \<open>Scans and replication\<close>

definition inRange :: "string \<Rightarrow> string \<Rightarrow> string \<Rightarrow> bool" where
  "inRange key start finish \<longleftrightarrow>
     (if start \<noteq> [] \<and> key < start then False
      else if finish \<noteq> [] \<and> key \<ge> finish then False
      else True)"

definition scan_memtable ::
  "string \<Rightarrow> string \<Rightarrow> string \<Rightarrow> StorageService \<Rightarrow> (string \<times> UnifiedEntity) list" where
  "scan_memtable start finish tenantID s =
     fold (\<lambda>key result.
        if \<not> inRange key start finish then result
        else case mt_Get key (ss_memtable s) of
               None \<Rightarrow> result
             | Some rows \<Rightarrow>
                 let ent = rows ! (length rows - 1)
                 in if tenantID \<noteq> [] \<and> TenantID ent \<noteq> tenantID then result
                    else AList.update key ent result)
       (mt_GetAllEntities (ss_memtable s)) []"

fun scan_ids ::
  "Reader \<Rightarrow> string \<Rightarrow> string \<Rightarrow> string \<Rightarrow> string list \<Rightarrow> (string \<times> UnifiedEntity) list \<Rightarrow>
     (string \<times> UnifiedEntity) list go" where
  "scan_ids reader start finish tenantID [] result = Inr result"
| "scan_ids reader start finish tenantID (key # ids) result =
     (if \<not> inRange key start finish then scan_ids reader start finish tenantID ids result
      else if map_of result key \<noteq> None then scan_ids reader start finish tenantID ids result
      else
        skip_fail (reader_Get reader key) (scan_ids reader start finish tenantID ids result) (\<lambda>rows.
        if length rows = 0 then scan_ids reader start finish tenantID ids result
        else skip_fail (entity_FromBytes (row_Data (rows ! (length rows - 1))))
               (scan_ids reader start finish tenantID ids result) (\<lambda>ent.
             if tenantID \<noteq> [] \<and> TenantID ent \<noteq> tenantID
             then scan_ids reader start finish tenantID ids result
             else scan_ids reader start finish tenantID ids (AList.update key ent result))))"

fun scan_tables ::
  "sst_dir \<Rightarrow> string \<Rightarrow> string \<Rightarrow> string \<Rightarrow> string list \<Rightarrow> (string \<times> UnifiedEntity) list \<Rightarrow>
     (string \<times> UnifiedEntity) list go" where
  "scan_tables dir start finish tenantID [] result = Inr result"
| "scan_tables dir start finish tenantID (path # paths) result =
     (case map_of dir path of
        None \<Rightarrow> scan_tables dir start finish tenantID paths result
      | Some (data, modTime) \<Rightarrow>
          skip_fail (NewReader data) (scan_tables dir start finish tenantID paths result) (\<lambda>reader.
          rbind (scan_ids reader start finish tenantID (reader_GetAllEntityIDs reader) result)
            (scan_tables dir start finish tenantID paths)))"

definition RangeScan ::
  "string \<Rightarrow> string \<Rightarrow> string \<Rightarrow> StorageService \<Rightarrow> (string \<times> UnifiedEntity) list go" where
  "RangeScan start finish tenantID s =
     scan_tables (ss_dir s) start finish tenantID (table_files (ss_dir s))
       (scan_memtable start finish tenantID s)"

text \<open>\<^verbatim>\<open>strings.SplitN(key, ":", 2)\<close>.\<close>

definition SplitN_colon :: "string \<Rightarrow> string list" where
  "SplitN_colon key =
     (let parts = takeWhile (\<lambda>c. c \<noteq> CHR '':'') key
      in if length parts = length key then [key] else [parts, drop (length parts + 1) key])"

definition ReplicaRead :: "ctx \<Rightarrow> string \<Rightarrow> string \<Rightarrow> StorageService \<Rightarrow> bytes option go" where
  "ReplicaRead c key tenantID s =
     (let parts = SplitN_colon key
      in if length parts \<noteq> 2 then Inl (Fail ''invalid key format'')
         else if tenantID \<noteq> [] \<and> parts ! 0 \<noteq> tenantID then Inl (Fail ''tenant mismatch'')
         else
           let tenantID = (if tenantID = [] then parts ! 0 else tenantID)
           in rbind (GetEntity (WithTenantID c tenantID) (parts ! 1) s) (\<lambda>ent.
              case ent of None \<Rightarrow> Inr None
              | Some e \<Rightarrow> rbind (entity_ToBytes e) (\<lambda>b. Inr (Some b))))"

definition ReplicaWrite :: "string \<Rightarrow> string \<Rightarrow> bytes \<Rightarrow> StorageService \<Rightarrow> StorageService \<times> unit go" where
  "ReplicaWrite key tenantID val s =
     (let parts = SplitN_colon key
      in if length parts \<noteq> 2 then (s, Inl (Fail ''invalid key format''))
         else if tenantID \<noteq> [] \<and> parts ! 0 \<noteq> tenantID then (s, Inl (Fail ''tenant mismatch''))
         else case entity_FromBytes val of
                Inl e \<Rightarrow> (s, Inl e)
              | Inr ent \<Rightarrow>
                  if TenantID ent \<noteq> parts ! 0 then (s, Inl (Fail ''tenant mismatch between key and entity''))
                  else (s\<lparr>ss_memtable := memtable_Put ent (ss_memtable s)\<rparr>, Inr ()))"

section \<open>Start-up\<close>

text \<open>The callback that replays the log into the memtable; it never fails.\<close>

definition replay_callback :: "(UnifiedEntity, UnifiedEntity Memtable) callback" where
  "replay_callback ent mt = (memtable_Put ent mt, Inr ())"

definition start_service :: "EngineConfig \<Rightarrow> bool \<Rightarrow> directory \<Rightarrow> sst_dir \<Rightarrow> StorageService" where
  "start_service cfg authEnabled walDir sstDir =
     (let w = wal_New (engine_WALConfig cfg) walDir;
          mt = fst (wal_Replay (Some EntityWALEntry_FromBytes) (Some replay_callback) w
                      (mt_New (engine_MemtableConfig cfg)))
      in NewStorageService w mt \<lparr>failHard = authEnabled\<rparr> sstDir)"

text \<open>
  Puts of a run of the server, each with the clock and the tenant of its request, and runs one
  after the other: each opens what the one before left in the two directories.
\<close>

fun put_all :: "(time \<times> UnifiedEntity) list \<Rightarrow> StorageService \<Rightarrow> StorageService go" where
  "put_all [] s = Inr s"
| "put_all ((now, e) # puts) s =
     (case PutEntity now (Some (TenantID e)) e s of
        (s, Inl err) \<Rightarrow> Inl err
      | (s, Inr u) \<Rightarrow> put_all puts s)"

fun service_runs ::
  "EngineConfig \<Rightarrow> bool \<Rightarrow> directory \<Rightarrow> sst_dir \<Rightarrow> (time \<times> UnifiedEntity) list list \<Rightarrow> (directory \<times> sst_dir) go" where
  "service_runs cfg auth walDir sstDir [] = Inr (walDir, sstDir)"
| "service_runs cfg auth walDir sstDir (puts # runs) =
     rbind (put_all puts (start_service cfg auth walDir sstDir)) (\<lambda>s.
     service_runs cfg auth (wal_dir (ss_wal s)) (ss_dir s) runs)"

section \<open>Flush and put\<close>

definition meta_row :: "string \<Rightarrow> UnifiedEntity \<Rightarrow> Row" where
  "meta_row k e = \<lparr>row_Type = RowTypeMeta, row_EntityID = k, row_Data = entity_enc e, row_CRC32 = 0\<rparr>"

definition snapshot_rows :: "(string \<times> UnifiedEntity list) list \<Rightarrow> Row list" where
  "snapshot_rows data =
     concat (map (\<lambda>k. map (meta_row k) (rows_at data k)) (sort_Slice (<) (map fst data)))"

lemma flush_rows_eq:
  "flush_rows data ids = Inr (concat (map (\<lambda>k. map (meta_row k) (rows_at data k)) ids))"
  by (induction ids) (simp_all add: meta_row_def [abs_def])

lemma write_snapshot_eq:
  "write_snapshot now data dir =
     rbind (write_table (snapshot_rows data)) (\<lambda>file. Inr (AList.update (flush_path now) (file, now) dir))"
  by (simp add: write_snapshot_def Let_def flush_rows_eq snapshot_rows_def)

lemma FlushMemtable_ok:
  "\<exists>dir. FlushMemtable now s = Inr (s\<lparr>ss_dir := dir, ss_memtable := mt_Reset (ss_memtable s)\<rparr>)"
proof (cases "length (mt_GetAllData (ss_memtable s)) = 0")
  case True
  then show ?thesis by (auto simp: FlushMemtable_def flush_finish_def intro: exI [of _ "ss_dir s"])
next
  case False
  then show ?thesis
    using write_table_total [of "snapshot_rows (mt_GetAllData (ss_memtable s))"]
    by (auto simp: FlushMemtable_def flush_finish_def write_snapshot_eq)
qed

lemma flush_finish_ok: "\<exists>s'. flush_finish now data s = Inr s'"
  using write_table_total [of "snapshot_rows data"]
  by (cases "length data = 0") (auto simp: flush_finish_def write_snapshot_eq)

lemma PutEntity_ok:
  assumes "writeEntry EntityWALEntry_ToBytes e (ss_wal s) = Inr w" and "TenantID e \<noteq> []"
  shows "\<exists>s'. PutEntity now (Some (TenantID e)) e s = (s', Inr ()) \<and> ss_wal s' = w \<and>
           ss_tenantGuard s' = ss_tenantGuard s"
proof -
  have tenant: "guard_RequireTenant (ss_tenantGuard s) (Some (TenantID e)) = Inr (TenantID e)"
    "ValidateEntityTenant (ss_tenantGuard s) (Some (TenantID e)) (TenantID e) = Inr ()"
    using assms(2) by simp_all
  obtain s1 where "FlushMemtable now (s\<lparr>ss_wal := w, ss_memtable := memtable_Put e (ss_memtable s)\<rparr>) = Inr s1"
      "ss_wal s1 = w" "ss_tenantGuard s1 = ss_tenantGuard s"
    using FlushMemtable_ok [of now "s\<lparr>ss_wal := w, ss_memtable := memtable_Put e (ss_memtable s)\<rparr>"] by auto
  with assms(1) show ?thesis
    by (auto simp: PutEntity_def tenant Let_def)
qed

lemma put_all_ok:
  "writeEntries EntityWALEntry_ToBytes (map snd puts) (ss_wal s) = Inr w \<Longrightarrow>
     list_all (\<lambda>(now, e). TenantID e \<noteq> []) puts \<Longrightarrow>
     \<exists>s'. put_all puts s = Inr s' \<and> ss_wal s' = w"
proof (induction puts arbitrary: s)
  case Nil
  then show ?case by simp
next
  case (Cons p puts)
  obtain now e where p: "p = (now, e)" by force
  from Cons.prems(1) p obtain w1 where w1: "writeEntry EntityWALEntry_ToBytes e (ss_wal s) = Inr w1"
      "writeEntries EntityWALEntry_ToBytes (map snd puts) w1 = Inr w"
    by (auto simp: rbind_eq_Inr)
  from PutEntity_ok [OF w1(1), of now] Cons.prems(2) p obtain s1 where
    s1: "PutEntity now (Some (TenantID e)) e s = (s1, Inr ())" "ss_wal s1 = w1" by auto
  with Cons.IH [of s1] w1(2) Cons.prems(2) p show ?case by simp
qed

lemma service_runs_ok:
  "wal_sessions EntityWALEntry_ToBytes (engine_WALConfig cfg) walDir (map (map snd) runs) = Inr walDir' \<Longrightarrow>
     list_all (list_all (\<lambda>(now, e). TenantID e \<noteq> [])) runs \<Longrightarrow>
     \<exists>sstDir'. service_runs cfg auth walDir sstDir runs = Inr (walDir', sstDir')"
proof (induction runs arbitrary: walDir sstDir)
  case Nil
  then show ?case by simp
next
  case (Cons puts runs)
  let ?s = "start_service cfg auth walDir sstDir"
  have wal: "ss_wal ?s = wal_New (engine_WALConfig cfg) walDir"
    by (simp add: start_service_def NewStorageService_def Let_def)
  from Cons.prems(1) obtain w where w:
    "writeEntries EntityWALEntry_ToBytes (map snd puts) (ss_wal ?s) = Inr w"
    "wal_sessions EntityWALEntry_ToBytes (engine_WALConfig cfg) (wal_dir w) (map (map snd) runs) = Inr walDir'"
    by (auto simp: rbind_eq_Inr wal)
  from put_all_ok [OF w(1)] Cons.prems(2) obtain s where s: "put_all puts ?s = Inr s" "ss_wal s = w"
    by auto
  with Cons.IH [of "wal_dir w" "ss_dir s"] w(2) Cons.prems(2) show ?case by simp
qed

lemma replay_callback_always: "replay_callback = always memtable_Put"
  by (intro ext) (simp add: replay_callback_def always_def)

section \<open>What the tables hold\<close>

text \<open>
  A flushed snapshot: entities under their own ids, without empty entries, in a table below
  \<open>2 ^ 63\<close> bytes. \<open>flushed dir tab\<close>: every file of the directory is the table of the snapshot
  that \<open>tab\<close> gives for its name.
\<close>

definition snapshot_ok :: "(string \<times> UnifiedEntity list) list \<Rightarrow> bool" where
  "snapshot_ok data \<longleftrightarrow>
     distinct (map fst data) \<and>
     list_all (\<lambda>(k, es). k \<noteq> [] \<and> es \<noteq> [] \<and> list_all (\<lambda>e. storable e \<and> EntityID e = k) es) data \<and>
     table_ok (snapshot_rows data)"

definition flushed :: "sst_dir \<Rightarrow> (string \<Rightarrow> (string \<times> UnifiedEntity list) list) \<Rightarrow> bool" where
  "flushed dir tab \<longleftrightarrow>
     (\<forall>p bs t. map_of dir p = Some (bs, t) \<longrightarrow> snapshot_ok (tab p) \<and> bs = table_enc (snapshot_rows (tab p)))"

lemma flushed_Nil [simp]: "flushed [] tab"
  by (simp add: flushed_def)

lemma meta_row_simps [simp]:
  "row_EntityID (meta_row k e) = k" "row_Data (meta_row k e) = entity_enc e"
  by (simp_all add: meta_row_def)

lemma sorted_groups: "sorted ks \<Longrightarrow> sorted (concat (map (\<lambda>k. map (\<lambda>x. k) (f k)) ks))"
  by (induction ks) (auto simp: sorted_append map_replicate_const)

lemma sorted_ids [simp]: "sorted (sort_Slice (<) (ks :: string list))"
  using sort_Slice_sorted_key [of "\<lambda>x. x" ks] by simp

lemma snapshot_rows_sorted: "sorted (map row_EntityID (snapshot_rows data))"
  using sorted_groups [OF sorted_ids] by (simp add: snapshot_rows_def map_concat o_def)

lemma filter_groups:
  "distinct ks \<Longrightarrow> filter (\<lambda>r. row_EntityID r = k) (concat (map (\<lambda>k. map (meta_row k) (f k)) ks)) =
     (if k \<in> set ks then map (meta_row k) (f k) else [])"
proof (induction ks)
  case Nil
  then show ?case by simp
next
  case (Cons x ks)
  have "filter (\<lambda>r. row_EntityID r = k) (map (meta_row x) (f x)) = (if x = k then map (meta_row k) (f k) else [])"
    by (auto simp: filter_map o_def)
  with Cons show ?case by auto
qed

lemma snapshot_rows_of:
  assumes "distinct (map fst data)"
  shows "filter (\<lambda>r. row_EntityID r = k) (snapshot_rows data) = map (meta_row k) (rows_at data k)"
proof -
  have "k \<notin> fst ` set data \<Longrightarrow> rows_at data k = []"
    by (simp add: rows_at_def flip: map_of_eq_None_iff)
  then show ?thesis
    unfolding snapshot_rows_def using filter_groups [of "sort_Slice (<) (map fst data)" k "rows_at data"] assms
    by auto
qed

lemma snapshot_table:
  assumes "snapshot_ok data"
  shows "write_table (snapshot_rows data) = Inr (table_enc (snapshot_rows data)) \<and>
         NewReader (table_enc (snapshot_rows data)) = Inr (table_reader (snapshot_rows data)) \<and>
         (k \<noteq> [] \<longrightarrow> reader_Get (table_reader (snapshot_rows data)) k
                      = Inr (map (\<lambda>e. stamped (meta_row k e)) (rows_at data k)))"
proof -
  from assms have ok: "table_ok (snapshot_rows data)" "distinct (map fst data)" by (simp_all add: snapshot_ok_def)
  then have "named (snapshot_rows data)" by (auto simp: named_def table_ok_def row_ok_def list_all_iff)
  with ok show ?thesis
    using write_table_enc NewReader_table reader_Get_table [OF ok(1) snapshot_rows_sorted, of k]
    by (simp add: table_reader_def snapshot_rows_of o_def)
qed

lemma flush_keeps:
  assumes "flushed dir tab" and "snapshot_ok data"
  shows "\<exists>dir'. write_snapshot now data dir = Inr dir' \<and>
           dir' = AList.update (flush_path now) (table_enc (snapshot_rows data), now) dir \<and>
           flushed dir' (tab(flush_path now := data))"
  using assms snapshot_table [OF assms(2)] by (auto simp: write_snapshot_eq flushed_def)

text \<open>The version of an entity that a table gives a tenant: its last one, if it is the tenant's.\<close>

definition table_hit :: "(string \<times> UnifiedEntity list) list \<Rightarrow> string \<Rightarrow> string \<Rightarrow> UnifiedEntity option" where
  "table_hit data eid tenantID =
     (let es = rows_at data eid in if es \<noteq> [] \<and> TenantID (last es) = tenantID then Some (last es) else None)"

definition better_hit :: "UnifiedEntity option \<Rightarrow> UnifiedEntity option \<times> int64 \<Rightarrow> UnifiedEntity option \<times> int64" where
  "better_hit hit best =
     (case hit of None \<Rightarrow> best
      | Some e \<Rightarrow> let ts = extractRowTimestamp (entity_enc e) in if ts \<ge> snd best then (Some e, ts) else best)"

lemma rows_at_ok:
  assumes "snapshot_ok data"
  shows "list_all (\<lambda>e. storable e \<and> EntityID e = k) (rows_at data k)"
  using assms by (auto simp: snapshot_ok_def rows_at_def list_all_iff split: option.splits dest!: map_of_SomeD)

lemma latest_loop_flushed:
  assumes "flushed dir tab" and "eid \<noteq> []"
  shows "set paths \<subseteq> fst ` set dir \<Longrightarrow>
     latest_loop dir eid tenantID paths best =
       Inr (fold (\<lambda>p. better_hit (table_hit (tab p) eid tenantID)) paths best)"
proof (induction paths arbitrary: best)
  case Nil
  then show ?case by simp
next
  case (Cons p paths)
  then obtain bs t where p: "map_of dir p = Some (bs, t)"
    by (metis insert_subset list.set(2) map_of_eq_None_iff option.exhaust surj_pair)
  with assms(1) have ok: "snapshot_ok (tab p)" and bs: "bs = table_enc (snapshot_rows (tab p))"
    by (auto simp: flushed_def)
  let ?es = "rows_at (tab p) eid"
  have last: "storable (last ?es)" if "?es \<noteq> []"
    using rows_at_ok [OF ok, of eid] that by (auto simp: list_all_iff)
  have nth: "?es \<noteq> [] \<Longrightarrow> map (\<lambda>e. stamped (meta_row eid e)) ?es ! (length ?es - Suc 0) = stamped (meta_row eid (last ?es))"
    by (simp add: last_conv_nth)
  have dec: "?es \<noteq> [] \<Longrightarrow> entity_FromBytes (entity_enc (last ?es)) = Inr (last ?es)"
    using last entity_FromBytes_append [of "last ?es" "[]"] by (simp add: storable_def)
  show ?case
    using snapshot_table [OF ok, of eid] assms(2) Cons p bs nth dec
    by (auto simp: skip_fail_def table_hit_def better_hit_def Let_def)
qed

text \<open>The timestamp that is read from a row is the length and the first bytes of the entity's id.\<close>

definition id_stamp :: "string \<Rightarrow> int64" where
  "id_stamp eid = get_i64 (take 8 (put_string eid))"

lemma row_stamp [simp]:
  assumes "4 \<le> length (EntityID e)"
  shows "extractRowTimestamp (entity_enc e) = id_stamp (EntityID e)"
  using assms by (simp add: extractRowTimestamp_def entity_enc_def id_stamp_def)

lemma fold_better_hit:
  assumes "\<forall>p\<in>set paths. \<forall>e. hit p = Some e \<longrightarrow> extractRowTimestamp (entity_enc e) = T"
  shows "T \<ge> 0 \<Longrightarrow> ts \<le> T \<Longrightarrow> fold (\<lambda>p. better_hit (hit p)) paths (b, ts) =
           (if List.map_filter hit paths = [] then (b, ts) else (Some (last (List.map_filter hit paths)), T))"
    and "T < 0 \<Longrightarrow> fold (\<lambda>p. better_hit (hit p)) paths (b, 0) = (b, 0)"
  using assms
  by (induction paths arbitrary: b ts)
    (auto simp: better_hit_def map_filter_simps split: option.splits)

lemma table_files_in [simp]: "set (table_files dir) \<subseteq> fst ` set dir"
  by (auto simp: table_files_def glob_names_def)

definition table_hits :: "sst_dir \<Rightarrow> (string \<Rightarrow> (string \<times> UnifiedEntity list) list) \<Rightarrow> string \<Rightarrow> string \<Rightarrow> UnifiedEntity list" where
  "table_hits dir tab eid tenantID = List.map_filter (\<lambda>p. table_hit (tab p) eid tenantID) (table_files dir)"

lemma table_hit_id:
  assumes "snapshot_ok data" and "table_hit data eid tenantID = Some e"
  shows "EntityID e = eid"
  using rows_at_ok [OF assms(1), of eid] assms(2)
  by (auto simp: table_hit_def Let_def list_all_iff split: if_splits)

lemma tables_answer:
  assumes "flushed (ss_dir s) tab" and "4 \<le> length eid"
  shows "latestFromSSTables eid tenantID s =
    Inr (let hits = table_hits (ss_dir s) tab eid tenantID
         in if hits = [] \<or> id_stamp eid < 0 then (None, 0) else (Some (last hits), id_stamp eid))"
proof -
  let ?hit = "\<lambda>p. table_hit (tab p) eid tenantID" and ?files = "table_files (ss_dir s)"
  have "eid \<noteq> []" using assms(2) by auto
  then have "latestFromSSTables eid tenantID s = Inr (fold (\<lambda>p. better_hit (?hit p)) ?files (None, 0))"
    using latest_loop_flushed [OF assms(1) _ table_files_in, of eid tenantID "(None, 0)"]
    by (auto simp: latestFromSSTables_def table_files_def)
  moreover have "\<forall>p\<in>set ?files. \<forall>e. ?hit p = Some e \<longrightarrow> extractRowTimestamp (entity_enc e) = id_stamp eid"
  proof (intro ballI allI impI)
    fix p e
    assume "p \<in> set ?files" "?hit p = Some e"
    then obtain bs t where "map_of (ss_dir s) p = Some (bs, t)"
      using table_files_in [of "ss_dir s"]
      by (metis in_mono map_of_eq_None_iff option.exhaust surj_pair)
    with assms(1) have "snapshot_ok (tab p)" by (auto simp: flushed_def)
    from table_hit_id [OF this \<open>?hit p = Some e\<close>] assms(2)
    show "extractRowTimestamp (entity_enc e) = id_stamp eid" by simp
  qed
  ultimately show ?thesis
    using fold_better_hit [of ?files ?hit "id_stamp eid"]
    by (cases "id_stamp eid < 0") (simp_all add: table_hits_def Let_def)
qed

text \<open>The same for scans, which take an empty tenant as any tenant.\<close>

definition scan_hit :: "(string \<times> UnifiedEntity list) list \<Rightarrow> string \<Rightarrow> string \<Rightarrow> UnifiedEntity option" where
  "scan_hit data tenantID k =
     (let es = rows_at data k
      in if es \<noteq> [] \<and> (tenantID = [] \<or> TenantID (last es) = tenantID) then Some (last es) else None)"

definition first_of :: "'a option \<Rightarrow> 'a option \<Rightarrow> 'a option" where
  "first_of a b = (case a of None \<Rightarrow> b | Some x \<Rightarrow> Some x)"

lemma first_of_simps [simp]: "first_of None b = b" "first_of (Some x) b = Some x" "first_of a None = a"
  by (simp_all add: first_of_def split: option.splits)

lemma first_of_assoc: "first_of (first_of a b) c = first_of a (first_of b c)"
  by (simp add: first_of_def split: option.splits)

lemma scan_hit_missing: "k \<notin> fst ` set data \<Longrightarrow> scan_hit data tenantID k = None"
  by (simp add: scan_hit_def rows_at_def flip: map_of_eq_None_iff)

lemma scan_memtable_hit:
  "map_of (scan_memtable start finish tenantID s) k =
     (if inRange k start finish then scan_hit (mt_data (ss_memtable s)) tenantID k else None)"
proof -
  let ?data = "mt_data (ss_memtable s)"
  define put where "put = (\<lambda>key result.
        if \<not> inRange key start finish then result
        else case mt_Get key (ss_memtable s) of
               None \<Rightarrow> result
             | Some rows \<Rightarrow>
                 let ent = rows ! (length rows - 1)
                 in if tenantID \<noteq> [] \<and> TenantID ent \<noteq> tenantID then result
                    else AList.update key ent result)"
  have put: "map_of (put key result) k =
      (if key = k \<and> inRange k start finish then first_of (scan_hit ?data tenantID k) (map_of result k) else map_of result k)"
    for key result
    by (auto simp: put_def mt_Get_def Let_def scan_hit_def last_conv_nth)
  have "map_of (fold put keys result) k =
      (if k \<in> set keys \<and> inRange k start finish then first_of (scan_hit ?data tenantID k) (map_of result k)
       else map_of result k)" for keys result
    by (induction keys arbitrary: result) (auto simp: put first_of_def split: option.splits)
  from this [of "map fst ?data" "[]"] show ?thesis
    unfolding scan_memtable_def mt_GetAllEntities_def put_def [symmetric]
    by (auto simp: scan_hit_missing)
qed

lemma scan_ids_hit:
  assumes ok: "snapshot_ok data"
  shows "[] \<notin> set ids \<Longrightarrow>
    \<exists>result'. scan_ids (table_reader (snapshot_rows data)) start finish tenantID ids result = Inr result' \<and>
      (\<forall>k. map_of result' k =
             (if k \<in> set ids \<and> inRange k start finish then first_of (map_of result k) (scan_hit data tenantID k)
              else map_of result k))"
proof (induction ids arbitrary: result)
  case Nil
  then show ?case by simp
next
  case (Cons key ids)
  let ?es = "rows_at data key"
  have last: "?es \<noteq> [] \<Longrightarrow> storable (last ?es)"
    using rows_at_ok [OF ok, of key] by (auto simp: list_all_iff)
  have nth: "?es \<noteq> [] \<Longrightarrow> map (\<lambda>e. stamped (meta_row key e)) ?es ! (length ?es - Suc 0) = stamped (meta_row key (last ?es))"
    by (simp add: last_conv_nth)
  have dec: "?es \<noteq> [] \<Longrightarrow> entity_FromBytes (entity_enc (last ?es)) = Inr (last ?es)"
    using last entity_FromBytes_append [of "last ?es" "[]"] by (simp add: storable_def)
  define result1 where "result1 = (if inRange key start finish \<and> map_of result key = None \<and> scan_hit data tenantID key \<noteq> None
     then AList.update key (last ?es) result else result)"
  have step: "scan_ids (table_reader (snapshot_rows data)) start finish tenantID (key # ids) result =
      scan_ids (table_reader (snapshot_rows data)) start finish tenantID ids result1"
    using snapshot_table [OF ok, of key] Cons.prems nth dec
    by (auto simp: result1_def skip_fail_def scan_hit_def Let_def)
  have r1: "map_of result1 k = (if k = key \<and> inRange k start finish then first_of (map_of result k) (scan_hit data tenantID k)
      else map_of result k)" for k
    by (auto simp: result1_def scan_hit_def Let_def first_of_def split: option.splits if_splits)
  from Cons.IH [of result1] Cons.prems obtain result' where
    r: "scan_ids (table_reader (snapshot_rows data)) start finish tenantID ids result1 = Inr result'"
      "\<forall>k. map_of result' k = (if k \<in> set ids \<and> inRange k start finish
         then first_of (map_of result1 k) (scan_hit data tenantID k) else map_of result1 k)" by auto
  have "\<forall>k. map_of result' k =
      (if k \<in> set (key # ids) \<and> inRange k start finish then first_of (map_of result k) (scan_hit data tenantID k)
       else map_of result k)"
    by (auto simp: r(2) r1 first_of_def split: option.splits)
  with r(1) step show ?case by simp
qed

lemma snapshot_ids:
  assumes "snapshot_ok data"
  shows "set (reader_GetAllEntityIDs (table_reader (snapshot_rows data))) = fst ` set data"
proof -
  have "rows_at data k \<noteq> []" if "k \<in> fst ` set data" for k
  proof -
    from that obtain es where "map_of data k = Some es"
      by (metis map_of_eq_None_iff option.exhaust)
    with map_of_SomeD [OF this] assms show ?thesis
      by (auto simp: rows_at_def snapshot_ok_def list_all_iff)
  qed
  moreover have "row_EntityID ` set (snapshot_rows data) =
      (\<Union>k \<in> fst ` set data. if rows_at data k = [] then {} else {k})"
    by (auto simp: snapshot_rows_def image_UN image_image image_constant_conv)
  ultimately have "row_EntityID ` set (snapshot_rows data) = fst ` set data"
    by auto
  with assms table_reader_ids [of "snapshot_rows data"] show ?thesis
    by (simp add: snapshot_ok_def)
qed

lemma scan_tables_hit:
  assumes dir: "flushed dir tab"
  shows "set paths \<subseteq> fst ` set dir \<Longrightarrow>
    \<exists>result'. scan_tables dir start finish tenantID paths result = Inr result' \<and>
      (\<forall>k. map_of result' k =
             (if inRange k start finish
              then fold (\<lambda>p found. first_of found (scan_hit (tab p) tenantID k)) paths (map_of result k)
              else map_of result k))"
proof (induction paths arbitrary: result)
  case Nil
  then show ?case by simp
next
  case (Cons p paths)
  then obtain bs t where p: "map_of dir p = Some (bs, t)"
    by (metis insert_subset list.set(2) map_of_eq_None_iff option.exhaust surj_pair)
  with dir have ok: "snapshot_ok (tab p)" and bs: "bs = table_enc (snapshot_rows (tab p))"
    by (auto simp: flushed_def)
  let ?ids = "reader_GetAllEntityIDs (table_reader (snapshot_rows (tab p)))"
  have "[] \<notin> set ?ids"
    using ok by (auto simp: snapshot_ids [OF ok]) (auto simp: snapshot_ok_def list_all_iff)
  from scan_ids_hit [OF ok this] obtain result1 where
    r1: "scan_ids (table_reader (snapshot_rows (tab p))) start finish tenantID ?ids result = Inr result1"
      "\<forall>k. map_of result1 k = (if k \<in> set ?ids \<and> inRange k start finish
         then first_of (map_of result k) (scan_hit (tab p) tenantID k) else map_of result k)" by blast
  have r1': "map_of result1 k = (if inRange k start finish then first_of (map_of result k) (scan_hit (tab p) tenantID k)
      else map_of result k)" for k
    by (auto simp: r1(2) snapshot_ids [OF ok] scan_hit_missing)
  from Cons.IH [of result1] Cons.prems obtain result' where
    "scan_tables dir start finish tenantID paths result1 = Inr result'"
    "\<forall>k. map_of result' k = (if inRange k start finish
       then fold (\<lambda>p found. first_of found (scan_hit (tab p) tenantID k)) paths (map_of result1 k)
       else map_of result1 k)" by auto
  with r1(1) snapshot_table [OF ok, of "[]"] p bs show ?case
    by (simp add: skip_fail_def r1')
qed

lemma fold_first_of:
  "fold (\<lambda>p found. first_of found (f p)) paths found =
     first_of found (case List.map_filter f paths of [] \<Rightarrow> None | e # _ \<Rightarrow> Some e)"
proof (induction paths arbitrary: found)
  case Nil
  then show ?case by (simp add: map_filter_simps)
next
  case (Cons p paths)
  then show ?case by (cases "f p") (simp_all add: first_of_assoc map_filter_simps)
qed

section \<open>Tenants\<close>

lemma skip_fail_Inr:
  "skip_fail r skip k = Inr y \<longleftrightarrow> (\<exists>x. r = Inr x \<and> k x = Inr y) \<or> (\<exists>msg. r = Inl (Fail msg) \<and> skip = Inr y)"
  by (auto simp: skip_fail_def split: sum.splits go_error.splits)

lemma latest_loop_tenant:
  "latest_loop dir eid t paths best = Inr (found, ts) \<Longrightarrow>
     (case fst best of None \<Rightarrow> True | Some e \<Rightarrow> TenantID e = t) \<Longrightarrow>
     (case found of None \<Rightarrow> True | Some e \<Rightarrow> TenantID e = t)"
proof (induction paths arbitrary: best)
  case Nil
  then show ?case by simp
next
  case (Cons p paths)
  from Cons.prems(1) consider "latest_loop dir eid t paths best = Inr (found, ts)"
    | e ts' where "latest_loop dir eid t paths (Some e, ts') = Inr (found, ts)" "TenantID e = t"
    by (auto simp: skip_fail_Inr Let_def split: option.splits if_splits)
  then show ?case
    using Cons.IH Cons.prems(2) by cases auto
qed

lemma scan_ids_tenant:
  "scan_ids reader a z t ids result = Inr result' \<Longrightarrow> t \<noteq> [] \<Longrightarrow>
     list_all (\<lambda>(k, e). TenantID e = t) result \<Longrightarrow> list_all (\<lambda>(k, e). TenantID e = t) result'"
proof (induction ids arbitrary: result)
  case Nil
  then show ?case by simp
next
  case (Cons key ids)
  from Cons.prems(1,2) consider "scan_ids reader a z t ids result = Inr result'"
    | e where "scan_ids reader a z t ids (AList.update key e result) = Inr result'" "TenantID e = t"
    by (auto simp: skip_fail_Inr split: if_splits)
  then show ?case
  proof cases
    case 1
    with Cons show ?thesis by blast
  next
    case 2
    have "list_all (\<lambda>(k, e). TenantID e = t) (AList.update key e result)"
      using Cons.prems(3) 2(2) by (induction result) auto
    with Cons.IH [OF 2(1) Cons.prems(2)] show ?thesis by simp
  qed
qed

lemma scan_tables_tenant:
  "scan_tables dir a z t paths result = Inr result' \<Longrightarrow> t \<noteq> [] \<Longrightarrow>
     list_all (\<lambda>(k, e). TenantID e = t) result \<Longrightarrow> list_all (\<lambda>(k, e). TenantID e = t) result'"
proof (induction paths arbitrary: result)
  case Nil
  then show ?case by simp
next
  case (Cons p paths)
  from Cons.prems(1) consider "scan_tables dir a z t paths result = Inr result'"
    | r ids result1 where "scan_ids r a z t ids result = Inr result1" "scan_tables dir a z t paths result1 = Inr result'"
    by (auto simp: skip_fail_Inr rbind_eq_Inr split: option.splits)
  then show ?case
    using Cons.IH Cons.prems(2,3) scan_ids_tenant by cases blast+
qed

lemma scan_memtable_tenant:
  assumes "t \<noteq> []"
  shows "list_all (\<lambda>(k, e). TenantID e = t) (scan_memtable a z t s)"
proof -
  have upd: "list_all (\<lambda>(k, e). TenantID e = t) (AList.update k e r)"
    if "list_all (\<lambda>(k, e). TenantID e = t) r" "TenantID e = t" for k e and r :: "(string \<times> UnifiedEntity) list"
    using that by (induction r) auto
  have "list_all (\<lambda>(k, e). TenantID e = t) r \<Longrightarrow> list_all (\<lambda>(k, e). TenantID e = t)
      (fold (\<lambda>key result.
        if \<not> inRange key a z then result
        else case mt_Get key (ss_memtable s) of
               None \<Rightarrow> result
             | Some rows \<Rightarrow>
                 let ent = rows ! (length rows - 1)
                 in if t \<noteq> [] \<and> TenantID ent \<noteq> t then result
                    else AList.update key ent result) keys r)" for keys r
    using assms
    by (induction keys arbitrary: r) (auto simp: Let_def upd split: option.splits)
  then show ?thesis by (simp add: scan_memtable_def)
qed

lemma PutEntity_Inr:
  "PutEntity now c e s = (s', Inr ()) \<longleftrightarrow>
     (\<exists>w. c = Some (TenantID e) \<and> TenantID e \<noteq> [] \<and> writeEntry EntityWALEntry_ToBytes e (ss_wal s) = Inr w \<and>
          (let s1 = s\<lparr>ss_wal := w, ss_memtable := memtable_Put e (ss_memtable s)\<rparr>
           in if mt_ShouldFlush (ss_memtable s1) then FlushMemtable now s1 = Inr s' else s' = s1))"
proof -
  show ?thesis
  proof (cases "c = Some (TenantID e) \<and> TenantID e \<noteq> []")
    case True
    then have c: "c = Some (TenantID e)"
      and g: "guard_RequireTenant (ss_tenantGuard s) (Some (TenantID e)) = Inr (TenantID e)"
      and v: "ValidateEntityTenant (ss_tenantGuard s) (Some (TenantID e)) (TenantID e) = Inr ()" by simp_all
    show ?thesis
    proof (cases "writeEntry EntityWALEntry_ToBytes e (ss_wal s)")
      case (Inl err)
      then show ?thesis by (simp add: PutEntity_def c g v rwrap_def split: go_error.splits)
    next
      case (Inr w)
      obtain s1 where "FlushMemtable now (s\<lparr>ss_wal := w, ss_memtable := memtable_Put e (ss_memtable s)\<rparr>) = Inr s1"
        using FlushMemtable_ok by blast
      with Inr True show ?thesis by (auto simp: PutEntity_def c g v Let_def)
    qed
  next
    case False
    then show ?thesis
      by (auto simp: PutEntity_def guard_RequireTenant_def ValidateEntityTenant_def tenant_RequireTenant_def
          TenantFromContext_def ctx_GetTenantID_def rbind_def rwrap_def split: option.splits if_splits)
  qed
qed

lemma get_entity_ans:
  assumes "flushed (ss_dir s) tab" and "4 \<le> length eid" and "t \<noteq> []"
  shows "GetEntity (Some t) eid s =
    Inr (let (mem, memTS) = latestFromMemtable eid t s;
             hits = table_hits (ss_dir s) tab eid t
         in if hits = [] \<or> id_stamp eid < 0 then (if memTS \<ge> 0 then mem else None)
            else if mem \<noteq> None \<and> memTS \<ge> id_stamp eid then mem else Some (last hits))"
proof -
  have tenant: "guard_RequireTenant (ss_tenantGuard s) (Some t) = Inr t"
    using assms(3) by simp
  show ?thesis
    by (auto simp: GetEntity_def tenant tables_answer [OF assms(1,2)] Let_def split: prod.splits)
qed

lemma range_scan_ans:
  assumes "flushed (ss_dir s) tab"
  shows "\<exists>result. RangeScan start finish tenantID s = Inr result \<and>
    (\<forall>k. map_of result k =
       (if inRange k start finish
        then first_of (scan_hit (mt_data (ss_memtable s)) tenantID k)
               (case List.map_filter (\<lambda>p. scan_hit (tab p) tenantID k) (table_files (ss_dir s)) of
                  [] \<Rightarrow> None | e # _ \<Rightarrow> Some e)
        else None))"
  using scan_tables_hit [OF assms table_files_in, of start finish tenantID "scan_memtable start finish tenantID s"]
  by (auto simp: RangeScan_def scan_memtable_hit fold_first_of)

section \<open>Single steps\<close>

lemma writeEntry_entity: "\<exists>w'. writeEntry EntityWALEntry_ToBytes e w = Inr w'"
  by (simp add: writeEntry_def EntityWALEntry_ToBytes_def Let_def)

lemma put_no_flush:
  assumes "TenantID e \<noteq> []" and "\<not> mt_ShouldFlush (memtable_Put e (ss_memtable s))"
    and "PutEntity now (Some (TenantID e)) e s = (s', r)"
  shows "\<exists>w. s' = s\<lparr>ss_wal := w, ss_memtable := memtable_Put e (ss_memtable s)\<rparr> \<and> r = Inr ()"
proof -
  from writeEntry_entity obtain w where w: "writeEntry EntityWALEntry_ToBytes e (ss_wal s) = Inr w" by blast
  from PutEntity_ok [OF w assms(1), of now] assms(3) have "PutEntity now (Some (TenantID e)) e s = (s', Inr ())"
    by auto
  with assms(2,3) show ?thesis by (auto simp: PutEntity_Inr Let_def)
qed

lemma flush_good:
  assumes "snapshot_ok (mt_data (ss_memtable s))" and "mt_data (ss_memtable s) \<noteq> []" and "flushed (ss_dir s) tab"
    and "FlushMemtable now s = Inr s'"
  shows "s' = s\<lparr>ss_dir := AList.update (flush_path now) (table_enc (snapshot_rows (mt_data (ss_memtable s))), now) (ss_dir s),
                ss_memtable := mt_Reset (ss_memtable s)\<rparr> \<and>
         flushed (ss_dir s') (tab(flush_path now := mt_data (ss_memtable s)))"
  using assms flush_keeps [OF assms(3,1), of now] by (auto simp: FlushMemtable_def flush_finish_def mt_GetAllData_def)

lemma latest_after_put:
  assumes "ss_memtable s = memtable_Put e mt" and "EntityID e = eid"
  shows "latestFromMemtable eid t s =
           (if TenantID e = t then (Some e, sint (UnixNano (UpdatedAt e))) else (None, 0))"
proof -
  have "mt_Get eid (ss_memtable s) = Some (rows_at (mt_data mt) eid @ [e])"
    using assms by (simp add: mt_Get_def mt_Put_def rows_at_def Let_def)
  then show ?thesis by (simp add: latestFromMemtable_def extractEntityTimestamp_def Let_def)
qed

lemma flush_path_glob: "prefix ''sstable-'' (flush_path now) \<and> suffix ''.sst'' (flush_path now) \<and> 12 \<le> length (flush_path now)"
  by (auto simp: flush_path_def numbered_name_def suffix_def)

lemma table_files_one: "table_files [(flush_path n, f)] = [flush_path n]"
  using flush_path_glob [of n] by (simp add: table_files_def glob_names_def)

lemma table_files_two:
  assumes "flush_path n1 < flush_path n2"
  shows "table_files [(flush_path n1, f1), (flush_path n2, f2)] = [flush_path n2, flush_path n1]"
proof -
  have "flush_path n1 \<le> flush_path n2" "\<not> flush_path n2 < flush_path n1"
    using assms by (auto dest: order.asym)
  then show ?thesis
    using flush_path_glob [of n1] flush_path_glob [of n2] assms by (simp add: table_files_def glob_names_def)
qed

lemma rows_at_single [simp]: "rows_at [(k, es)] k = es" "rows_at [] k = []"
  by (simp_all add: rows_at_def)

section \<open>Sample values\<close>

definition sample_update :: UnifiedEntity where
  "sample_update = sample_entity\<lparr>UpdatedAt := 11\<rparr>"

definition sample_config :: EngineConfig where
  "sample_config = \<lparr>eng_WALMaxFileMB = 1, eng_WALFsync = True, eng_MemtableMaxMB = 1, eng_CompactionMaxConcurrent = 1\<rparr>"

definition sample_service :: StorageService where
  "sample_service = NewStorageService (wal_New (engine_WALConfig sample_config) [])
     (mt_New (engine_MemtableConfig sample_config)) \<lparr>failHard = False\<rparr> []"

lemma sample_lengths:
  "length (entity_enc sample_entity) < 400" "length (entity_enc sample_update) < 400"
  by (simp_all add: entity_enc_def sample_update_def sample_entity_def sample_edge_def embedding_enc_def
      edge_enc_def chunk_enc_def length_concat
      embedding_fields_def edge_fields_def chunk_fields_def)

lemma sample_storable: "storable sample_entity" "storable sample_update"
  using sample_entity_ok sample_lengths
  by (simp_all add: storable_def fits32_def sample_update_def entity_ok_def representable_def)

lemma sample_fields [simp]:
  "EntityID sample_entity = ''doc1''" "EntityID sample_update = ''doc1''"
  "TenantID sample_entity = ''acme''" "TenantID sample_update = ''acme''"
  "UpdatedAt sample_entity = 9" "UpdatedAt sample_update = 11"
  by (simp_all add: sample_update_def sample_entity_def)

lemma sample_snapshot: "snapshot_ok [(''doc1'', [sample_entity])]" "snapshot_ok [(''doc1'', [sample_update])]"
proof -
  have "table_ok [meta_row ''doc1'' e]" if "length (entity_enc e) < 400" for e
    by (rule small_table_ok)
      (use that in \<open>simp_all add: row_ok_def meta_row_def fits32_def rows_enc_def row_enc_def row_crc_fields_def\<close>)
  then show "snapshot_ok [(''doc1'', [sample_entity])]" "snapshot_ok [(''doc1'', [sample_update])]"
    using sample_storable sample_lengths by (simp_all add: snapshot_ok_def snapshot_rows_def)
qed

lemma sample_stamp: "id_stamp ''doc1'' = 0x31636F6400000004"
proof -
  have "le_put (Suc (Suc (Suc (Suc 0)))) 4 = [4, 0, 0, 0]"
    by simp
  moreover have "Suc (Suc (Suc (Suc 0))) = 4" by simp
  ultimately have "le_put 4 4 = [4, 0, 0, 0]"
    by (simp only:)
  then have "take 8 (put_string ''doc1'') = [4, 0, 0, 0, 0x64, 0x6F, 0x63, 0x31]"
    by (simp add: put_string_def put_u32_def len32_def bytes_of_def)
  moreover have "le_get [4, 0, 0, 0, 0x64, 0x6F, 0x63, 0x31] = 0x31636F6400000004"
    by simp
  ultimately show ?thesis
    by (simp only: id_stamp_def get_i64_def get_u64_def) simp
qed

lemma sample_state [simp]:
  "mt_data (ss_memtable sample_service) = []" "mt_size (ss_memtable sample_service) = 0"
  "mt_maxSize (ss_memtable sample_service) = 1048576" "ss_dir sample_service = []"
  by (simp_all add: sample_service_def NewStorageService_def mt_New_def engine_MemtableConfig_def sample_config_def)

definition sample_flushed :: StorageService where
  "sample_flushed = sample_service
     \<lparr>ss_dir := [(flush_path 2, (table_enc (snapshot_rows [(''doc1'', [sample_entity])]), 2))]\<rparr>"

abbreviation sample_tab :: "string \<Rightarrow> (string \<times> UnifiedEntity list) list" where
  "sample_tab \<equiv> (\<lambda>p. [])(flush_path 2 := [(''doc1'', [sample_entity])])"

lemma sample_flushed_ok: "flushed (ss_dir sample_flushed) sample_tab"
  using flush_keeps [OF flushed_Nil sample_snapshot(1), of 2] by (simp add: sample_flushed_def)

definition sample_loaded :: StorageService where
  "sample_loaded = sample_service\<lparr>ss_memtable := memtable_Put sample_entity (ss_memtable sample_service)\<rparr>"

definition sample_other :: UnifiedEntity where
  "sample_other = sample_entity\<lparr>EntityID := ''doc2''\<rparr>"

definition sample_foreign :: UnifiedEntity where
  "sample_foreign = sample_entity\<lparr>TenantID := ''zeta''\<rparr>"

lemma sample_small [simp]:
  "EntityRow_Size sample_entity = 170" "EntityRow_Size sample_other = 170" "EntityRow_Size sample_foreign = 170"
  "EntityRow_Size sample_update = 170"
  by (simp_all add: EntityRow_Size_def GetEmbeddings_def sample_other_def sample_foreign_def sample_update_def
      sample_entity_def)

lemma no_hits [simp]: "table_hits [] tab eid t = []"
  by (simp add: table_hits_def table_files_def glob_names_def map_filter_simps)

section \<open>Properties\<close>

text \<open>C1. Acknowledged writes survive restarts: however the puts are spread over runs of the
  server, and whether or not the memtable was flushed meanwhile, every put is acknowledged and
  after one more start the memtable holds, for every entity, all versions put for it, in order.
  Puts are of encodable entities with a tenant, fewer than \<open>2 ^ 64\<close>.\<close>

theorem restart_recovers_puts:
  assumes "list_all (list_all (\<lambda>(now, e). storable e \<and> TenantID e \<noteq> [])) runs"
    and "length (concat runs) + length runs + 2 \<le> 2 ^ 64"
  shows "\<exists>walDir sstDir. service_runs cfg auth [] sstDir0 runs = Inr (walDir, sstDir) \<and>
           (let s = start_service cfg auth walDir sstDir;
                versions = (\<lambda>k. filter (\<lambda>e. EntityID e = k) (map snd (concat runs)))
            in ss_dir s = sstDir \<and>
               (\<forall>k. mt_Get k (ss_memtable s) = (if versions k = [] then None else Some (versions k))))"
proof -
  let ?cfg = "engine_WALConfig cfg" and ?xss = "map (map snd) runs"
  let ?new = "mt_New (engine_MemtableConfig cfg) :: UnifiedEntity Memtable"
  have xs: "concat ?xss = map snd (concat runs)" by (simp add: map_concat)
  have "list_all (list_all storable) ?xss"
    using assms(1) by (fastforce simp: list_all_iff)
  with entity_log.replay_after_sessions [of ?xss ?cfg memtable_Put ?new] assms(2)
  obtain walDir where walDir: "wal_sessions EntityWALEntry_ToBytes ?cfg [] ?xss = Inr walDir"
    and replay: "wal_Replay (Some EntityWALEntry_FromBytes) (Some replay_callback) (wal_New ?cfg walDir) ?new
                   = (fold memtable_Put (map snd (concat runs)) ?new, Inr ())"
    by (auto simp: xs replay_callback_always length_concat o_def)
  have "list_all (list_all (\<lambda>(now, e). TenantID e \<noteq> [])) runs"
    using assms(1) by (auto simp: list_all_iff)
  from service_runs_ok [OF walDir this] obtain sstDir where
    runs: "service_runs cfg auth [] sstDir0 runs = Inr (walDir, sstDir)" by blast
  have "mt_Get k (fold memtable_Put es ?new) = (if rows_of EntityID k es = [] then None else Some (rows_of EntityID k es))"
    for k es
    using mt_holds_Get [OF mt_holds_Puts [OF mt_holds_New, of EntityID EntityRow_Size es], of k] by simp
  with runs show ?thesis
    by (auto simp: start_service_def NewStorageService_def Let_def replay rows_of_def)
qed

lemma restart_recovers_puts_witness:
  "\<exists>walDir sstDir. service_runs sample_config False [] [] [[(1, sample_entity)], [(2, sample_update)]] = Inr (walDir, sstDir) \<and>
     mt_Get ''doc1'' (ss_memtable (start_service sample_config False walDir sstDir)) = Some [sample_entity, sample_update]"
  using restart_recovers_puts [of "[[(1, sample_entity)], [(2, sample_update)]]" sample_config False "[]"]
    sample_storable
  by (auto simp: Let_def)

text \<open>C2. What a read returns, for ids of at least four bytes, on any directory of flushed tables: the
  memtable's last version if it is the tenant's and its update time is not below the id's own
  bytes read as a number; otherwise the version in the OLDEST table that has one for the tenant;
  and no table is consulted at all when those bytes read as a negative number.\<close>

theorem get_entity_answer:
  assumes "flushed (ss_dir s) tab" and "4 \<le> length eid" and "t \<noteq> []"
  shows "GetEntity (Some t) eid s =
    Inr (let (mem, memTS) = latestFromMemtable eid t s;
             hits = table_hits (ss_dir s) tab eid t
         in if hits = [] \<or> id_stamp eid < 0 then (if memTS \<ge> 0 then mem else None)
            else if mem \<noteq> None \<and> memTS \<ge> id_stamp eid then mem else Some (last hits))"
  using assms by (rule get_entity_ans)

lemma get_entity_answer_witness: "GetEntity (Some ''acme'') ''doc1'' sample_flushed = Inr (Some sample_entity)"
  using get_entity_answer [OF sample_flushed_ok, of "''doc1''" "''acme''"]
  by (simp add: latestFromMemtable_def mt_Get_def sample_flushed_def table_hits_def table_files_one table_hit_def
      map_filter_simps sample_stamp rows_at_def Let_def)

text \<open>C3. A range scan returns, for each id in the range, the memtable's last version, or else the
  version in the NEWEST table that has one (for the tenant asked for, if one is named). On the
  same directory \<open>GetEntity\<close> takes the oldest table.\<close>

theorem range_scan_answer:
  assumes "flushed (ss_dir s) tab"
  shows "\<exists>result. RangeScan start finish tenantID s = Inr result \<and>
    (\<forall>k. map_of result k =
       (if inRange k start finish
        then first_of (scan_hit (mt_data (ss_memtable s)) tenantID k)
               (case List.map_filter (\<lambda>p. scan_hit (tab p) tenantID k) (table_files (ss_dir s)) of
                  [] \<Rightarrow> None | e # _ \<Rightarrow> Some e)
        else None))"
  using assms by (rule range_scan_ans)

lemma range_scan_answer_witness:
  "\<exists>result. RangeScan ''a'' ''z'' ''acme'' sample_flushed = Inr result \<and> map_of result ''doc1'' = Some sample_entity"
proof -
  obtain result where r: "RangeScan ''a'' ''z'' ''acme'' sample_flushed = Inr result"
    and k: "map_of result ''doc1'' = (if inRange ''doc1'' ''a'' ''z''
        then first_of (scan_hit (mt_data (ss_memtable sample_flushed)) ''acme'' ''doc1'')
               (case List.map_filter (\<lambda>p. scan_hit (sample_tab p) ''acme'' ''doc1'') (table_files (ss_dir sample_flushed)) of
                  [] \<Rightarrow> None | e # _ \<Rightarrow> Some e)
        else None)"
    using range_scan_answer [OF sample_flushed_ok, of "''a''" "''z''" "''acme''"] by blast
  have "inRange ''doc1'' ''a'' ''z''" by code_simp
  with r k show ?thesis
    by (simp add: sample_flushed_def table_files_one scan_hit_def map_filter_simps)
qed

text \<open>C4. Whatever the files contain, a read under a tenant returns only that tenant's entities, and so
  does a scan for a tenant; a put is accepted only for an entity of the request's tenant, and a
  rejected one leaves the service as it was.\<close>

theorem tenant_isolation:
  shows "(GetEntity c eid s = Inr (Some e) \<longrightarrow> c = Some (TenantID e) \<and> TenantID e \<noteq> []) \<and>
         (t \<noteq> [] \<and> RangeScan a z t s = Inr result \<longrightarrow> list_all (\<lambda>(k, e). TenantID e = t) result) \<and>
         (c \<noteq> Some (TenantID x) \<longrightarrow>
            (\<exists>err. PutEntity now c x s = (s, Inl err) \<and> (err = Panic \<longleftrightarrow> failHard (ss_tenantGuard s))))"
proof (intro conjI impI)
  assume get: "GetEntity c eid s = Inr (Some e)"
  then obtain t where t: "guard_RequireTenant (ss_tenantGuard s) c = Inr t"
    by (auto simp: GetEntity_def rbind_eq_Inr)
  have "TenantID e = t"
    using get t latest_loop_tenant [of "ss_dir s" eid t "table_files (ss_dir s)" "(None, 0)"]
    by (auto simp: GetEntity_def rbind_eq_Inr latestFromSSTables_def latestFromMemtable_def Let_def
        split: option.splits if_splits)
  with t show "c = Some (TenantID e)" "TenantID e \<noteq> []" by simp_all
next
  assume "t \<noteq> [] \<and> RangeScan a z t s = Inr result"
  with scan_tables_tenant [of "ss_dir s" a z t "table_files (ss_dir s)" "scan_memtable a z t s" result]
    scan_memtable_tenant [of t a z s]
  show "list_all (\<lambda>(k, e). TenantID e = t) result" by (simp add: RangeScan_def)
next
  assume "c \<noteq> Some (TenantID x)"
  then show "\<exists>err. PutEntity now c x s = (s, Inl err) \<and> (err = Panic \<longleftrightarrow> failHard (ss_tenantGuard s))"
    by (auto simp: PutEntity_def guard_RequireTenant_def ValidateEntityTenant_def tenant_RequireTenant_def
        TenantFromContext_def ctx_GetTenantID_def rbind_def rwrap_def split: option.splits)
qed

lemma tenant_isolation_witness:
  "\<exists>err. PutEntity 1 (Some ''other'') sample_entity sample_service = (sample_service, Inl err) \<and> err \<noteq> Panic"
  using tenant_isolation [of "Some ''other''" "[]" sample_service sample_entity "[]" "[]" "[]" "[]" sample_entity 1]
  by (auto simp: sample_service_def NewStorageService_def)

text \<open>An update made after a flush is invisible to reads: once a version of an entity is in a
  table, a later put of the same entity is not returned, neither from the memtable nor after its
  own flush, while a scan of the same state returns it. It needs only that the id's first bytes,
  read as a number, are not below the update time (an id beginning with four letters is a date
  after 2070).\<close>

theorem update_after_flush_invisible:
  assumes "EntityID e1 = eid" "EntityID e2 = eid" "TenantID e1 = t" "TenantID e2 = t"
    and "4 \<le> length eid" "t \<noteq> []" "sint (UnixNano (UpdatedAt e2)) < id_stamp eid" "0 \<le> id_stamp eid"
    and "snapshot_ok [(eid, [e1])]" "snapshot_ok [(eid, [e2])]"
    and "mt_data (ss_memtable s) = []" "mt_size (ss_memtable s) = 0" "ss_dir s = []"
    and "EntityRow_Size e1 < mt_maxSize (ss_memtable s)" "EntityRow_Size e2 < mt_maxSize (ss_memtable s)"
    and "flush_path n2 < flush_path n4"
    and "PutEntity n1 (Some t) e1 s = (s1, r1)" "FlushMemtable n2 s1 = Inr s2"
    and "PutEntity n3 (Some t) e2 s2 = (s3, r3)" "FlushMemtable n4 s3 = Inr s4"
  shows "r3 = Inr () \<and> GetEntity (Some t) eid s3 = Inr (Some e1) \<and> GetEntity (Some t) eid s4 = Inr (Some e1) \<and>
         (\<exists>result. RangeScan [] [] t s4 = Inr result \<and> map_of result eid = Some e2)"
proof -
  let ?d1 = "[(eid, [e1])]" and ?d2 = "[(eid, [e2])]"
  note ids = assms(1-4)
  obtain w1 where s1: "s1 = s\<lparr>ss_wal := w1, ss_memtable := memtable_Put e1 (ss_memtable s)\<rparr>"
    using put_no_flush [of e1 s n1 s1 r1] assms ids by (auto simp: mt_ShouldFlush_def mt_Put_def Let_def)
  then have m1: "mt_data (ss_memtable s1) = ?d1" "ss_dir s1 = []" "mt_maxSize (ss_memtable s1) = mt_maxSize (ss_memtable s)"
    using assms(11,13) ids by (simp_all add: mt_Put_def Let_def)
  have s2: "ss_dir s2 = [(flush_path n2, (table_enc (snapshot_rows ?d1), n2))]"
      "ss_memtable s2 = mt_Reset (ss_memtable s1)" "flushed (ss_dir s2) ((\<lambda>p. [])(flush_path n2 := ?d1))"
    using flush_good [of s1 "\<lambda>p. []" n2 s2] assms(9,18) m1 by auto
  have "r3 = Inr () \<and> (\<exists>w. s3 = s2\<lparr>ss_wal := w, ss_memtable := memtable_Put e2 (ss_memtable s2)\<rparr>)"
    using put_no_flush [of e2 s2 n3 s3 r3] assms ids m1 s2(2) by (auto simp: mt_ShouldFlush_def mt_Put_def mt_Reset_def Let_def)
  then obtain w3 where r3: "r3 = Inr ()" and s3: "s3 = s2\<lparr>ss_wal := w3, ss_memtable := memtable_Put e2 (ss_memtable s2)\<rparr>"
    by blast
  have m3: "mt_data (ss_memtable s3) = ?d2" "ss_dir s3 = ss_dir s2"
    using s2(2) ids by (simp_all add: s3 mt_Put_def mt_Reset_def Let_def)
  have hit3: "table_hits (ss_dir s3) ((\<lambda>p. [])(flush_path n2 := ?d1)) eid t = [e1]"
    using ids by (simp add: table_hits_def m3 s2(1) table_files_one table_hit_def map_filter_simps)
  have get3: "GetEntity (Some t) eid s3 = Inr (Some e1)"
    using get_entity_ans [of s3 "(\<lambda>p. [])(flush_path n2 := ?d1)" eid t] s2(3) hit3 assms(5-8) m3 ids
    by (simp add: latestFromMemtable_def mt_Get_def extractEntityTimestamp_def Let_def)
  let ?tab = "(\<lambda>p. [])(flush_path n2 := ?d1, flush_path n4 := ?d2)"
  have ne: "flush_path n2 \<noteq> flush_path n4" using assms(16) by auto
  have s4: "ss_dir s4 = [(flush_path n2, (table_enc (snapshot_rows ?d1), n2)), (flush_path n4, (table_enc (snapshot_rows ?d2), n4))]"
      "mt_data (ss_memtable s4) = []" "flushed (ss_dir s4) ?tab"
    using flush_good [of s3 "(\<lambda>p. [])(flush_path n2 := ?d1)" n4 s4, OF _ _ _ assms(20)] assms(10) m3 s2 ne
    by (auto simp: mt_Reset_def)
  have files: "table_files (ss_dir s4) = [flush_path n4, flush_path n2]"
    by (simp add: s4(1) table_files_two [OF assms(16)])
  then have hit4: "table_hits (ss_dir s4) ?tab eid t = [e2, e1]"
    using ids ne by (simp add: table_hits_def table_hit_def map_filter_simps)
  have get4: "GetEntity (Some t) eid s4 = Inr (Some e1)"
    using get_entity_ans [of s4 ?tab eid t] s4(2,3) hit4 assms(5-8)
    by (simp add: latestFromMemtable_def mt_Get_def Let_def)
  have "\<exists>result. RangeScan [] [] t s4 = Inr result \<and> map_of result eid = Some e2"
    using range_scan_ans [OF s4(3), of "[]" "[]" t] ids ne s4(2)
    by (auto simp: files inRange_def scan_hit_def map_filter_simps)
  with r3 get3 get4 show ?thesis by blast
qed

lemma update_after_flush_invisible_witness:
  "\<exists>s1 s2 s3. PutEntity 1 (Some ''acme'') sample_entity sample_service = (s1, Inr ()) \<and> FlushMemtable 2 s1 = Inr s2 \<and>
     PutEntity 3 (Some ''acme'') sample_update s2 = (s3, Inr ()) \<and>
     GetEntity (Some ''acme'') ''doc1'' s3 = Inr (Some sample_entity)"
proof -
  have sizes: "EntityRow_Size sample_entity < 1048576" "EntityRow_Size sample_update < 1048576"
    by (simp_all add: EntityRow_Size_def GetEmbeddings_def sample_update_def sample_entity_def)
  obtain s1 r1 where s1: "PutEntity 1 (Some ''acme'') sample_entity sample_service = (s1, r1)" by force
  obtain s2 where s2: "FlushMemtable 2 s1 = Inr s2" using FlushMemtable_ok by blast
  obtain s3 r3 where s3: "PutEntity 3 (Some ''acme'') sample_update s2 = (s3, r3)" by force
  obtain s4 where s4: "FlushMemtable 4 s3 = Inr s4" using FlushMemtable_ok by blast
  have paths: "flush_path 2 < flush_path 4" by code_simp
  have r1: "r1 = Inr ()"
    using put_no_flush [of sample_entity sample_service 1 s1 r1] s1 sizes
    by (auto simp: mt_ShouldFlush_def mt_Put_def Let_def)
  have "sint (UnixNano (UpdatedAt sample_update)) < id_stamp ''doc1''" "0 \<le> id_stamp ''doc1''"
    by (simp_all add: sample_stamp UnixNano_def)
  with update_after_flush_invisible [OF _ _ _ _ _ _ _ _ sample_snapshot _ _ _ _ _ paths s1 s2 s3 s4] sizes r1 s1 s2 s3
  show ?thesis by auto
qed

text \<open>C12. A flush loses acknowledged writes that arrive while it runs: a put of a new entity that comes
  between the snapshot and the reset succeeds, and when the flush ends no read finds the entity.\<close>

theorem flush_loses_racing_put:
  assumes "snapshot_ok (mt_data (ss_memtable s))" "mt_data (ss_memtable s) \<noteq> []" "flushed (ss_dir s) tab"
    and "TenantID e \<noteq> []" "4 \<le> length (EntityID e)"
    and "EntityID e \<notin> fst ` set (mt_data (ss_memtable s))"
    and "table_hits (ss_dir s) tab (EntityID e) (TenantID e) = []"
    and "\<not> mt_ShouldFlush (memtable_Put e (ss_memtable s))"
    and "PutEntity n (Some (TenantID e)) e s = (s1, r)"
    and "flush_finish now (mt_GetAllData (ss_memtable s)) s1 = Inr s2"
  shows "r = Inr () \<and> GetEntity (Some (TenantID e)) (EntityID e) s2 = Inr None"
proof -
  let ?data = "mt_data (ss_memtable s)" and ?id = "EntityID e"
  let ?tab = "tab(flush_path now := ?data)"
  obtain w where s1: "s1 = s\<lparr>ss_wal := w, ss_memtable := memtable_Put e (ss_memtable s)\<rparr>" and r: "r = Inr ()"
    using put_no_flush [OF assms(4,8,9)] by blast
  obtain dir where dir: "write_snapshot now ?data (ss_dir s) = Inr dir" "flushed dir ?tab"
    and upd: "dir = AList.update (flush_path now) (table_enc (snapshot_rows ?data), now) (ss_dir s)"
    using flush_keeps [OF assms(3,1), of now] by blast
  have s2: "ss_dir s2 = dir" "mt_data (ss_memtable s2) = []"
    using assms(2,10) dir(1) by (auto simp: flush_finish_def mt_GetAllData_def mt_Reset_def s1)
  have "table_hit (?tab p) ?id (TenantID e) = None" if "p \<in> set (table_files dir)" for p
  proof (cases "p = flush_path now")
    case True
    with assms(6) show ?thesis by (simp add: table_hit_def rows_at_def flip: map_of_eq_None_iff)
  next
    case False
    with that have "p \<in> set (table_files (ss_dir s))"
      by (auto simp: upd table_files_def glob_names_def dom_update)
    with assms(7) False show ?thesis
      by (auto simp: table_hits_def List.map_filter_def filter_empty_conv)
  qed
  then have "table_hits dir ?tab ?id (TenantID e) = []"
    by (simp add: table_hits_def List.map_filter_def filter_empty_conv)
  then show ?thesis
    using get_entity_ans [of s2 ?tab ?id "TenantID e"] dir(2) s2 assms(4,5) r
    by (simp add: latestFromMemtable_def mt_Get_def rows_at_def Let_def)
qed

lemma flush_loses_racing_put_witness:
  "\<exists>s1 s2. PutEntity 1 (Some ''acme'') sample_other sample_loaded = (s1, Inr ()) \<and>
     flush_finish 2 (mt_GetAllData (ss_memtable sample_loaded)) s1 = Inr s2 \<and>
     GetEntity (Some ''acme'') ''doc2'' s2 = Inr None"
proof -
  have data: "mt_data (ss_memtable sample_loaded) = [(''doc1'', [sample_entity])]" "ss_dir sample_loaded = []"
    by (simp_all add: sample_loaded_def mt_Put_def rows_at_def Let_def)
  have other: "EntityID sample_other = ''doc2''" "TenantID sample_other = ''acme''"
    by (simp_all add: sample_other_def)
  obtain s1 r where s1: "PutEntity 1 (Some (TenantID sample_other)) sample_other sample_loaded = (s1, r)" by force
  obtain s2 where s2: "flush_finish 2 (mt_GetAllData (ss_memtable sample_loaded)) s1 = Inr s2"
    using flush_finish_ok by blast
  have "\<not> mt_ShouldFlush (memtable_Put sample_other (ss_memtable sample_loaded))"
    by (simp add: mt_ShouldFlush_def sample_loaded_def mt_Put_def Let_def)
  with flush_loses_racing_put [OF _ _ _ _ _ _ _ _ s1 s2, of "\<lambda>p. []"] sample_snapshot(1) s1 s2
  show ?thesis by (simp add: data other)
qed

text \<open>Ids are not kept apart by tenant in the memtable: when another tenant stores an entity under
  the same id, the first tenant's entity is no longer found.\<close>

theorem tenant_shadowing:
  assumes "EntityID e1 = eid" "EntityID e2 = eid" "TenantID e1 = t1" "TenantID e2 = t2"
    and "t1 \<noteq> []" "t2 \<noteq> []" "t1 \<noteq> t2" "4 \<le> length eid" "0 \<le> sint (UnixNano (UpdatedAt e1))"
    and "flushed (ss_dir s) tab" "table_hits (ss_dir s) tab eid t1 = []"
    and "\<not> mt_ShouldFlush (memtable_Put e1 (ss_memtable s))"
    and "\<not> mt_ShouldFlush (memtable_Put e2 (memtable_Put e1 (ss_memtable s)))"
    and "PutEntity n1 (Some t1) e1 s = (s1, r1)" "PutEntity n2 (Some t2) e2 s1 = (s2, r2)"
  shows "GetEntity (Some t1) eid s1 = Inr (Some e1) \<and> r2 = Inr () \<and> GetEntity (Some t1) eid s2 = Inr None"
proof -
  obtain w1 where s1: "s1 = s\<lparr>ss_wal := w1, ss_memtable := memtable_Put e1 (ss_memtable s)\<rparr>"
    using put_no_flush [of e1 s n1 s1 r1] assms by blast
  moreover obtain w2 where s2: "s2 = s1\<lparr>ss_wal := w2, ss_memtable := memtable_Put e2 (ss_memtable s1)\<rparr>" and "r2 = Inr ()"
    using put_no_flush [of e2 s1 n2 s2 r2] assms s1 by auto
  moreover have "GetEntity (Some t1) eid s1 = Inr (Some e1)"
    using get_entity_ans [of s1 tab eid t1] latest_after_put [of s1 e1 "ss_memtable s" eid t1] assms(1-11)
    by (simp add: s1 Let_def)
  moreover have "GetEntity (Some t1) eid s2 = Inr None"
    using get_entity_ans [of s2 tab eid t1] latest_after_put [of s2 e2 "ss_memtable s1" eid t1] assms(1-11)
    by (simp add: s2 s1 Let_def)
  ultimately show ?thesis by simp
qed

lemma tenant_shadowing_witness:
  "\<exists>s1 s2. PutEntity 1 (Some ''acme'') sample_entity sample_service = (s1, Inr ()) \<and>
     PutEntity 2 (Some ''zeta'') sample_foreign s1 = (s2, Inr ()) \<and>
     GetEntity (Some ''acme'') ''doc1'' s1 = Inr (Some sample_entity) \<and> GetEntity (Some ''acme'') ''doc1'' s2 = Inr None"
proof -
  have foreign: "EntityID sample_foreign = ''doc1''" "TenantID sample_foreign = ''zeta''"
    by (simp_all add: sample_foreign_def)
  obtain s1 r1 where s1: "PutEntity 1 (Some ''acme'') sample_entity sample_service = (s1, r1)" by force
  obtain s2 r2 where s2: "PutEntity 2 (Some ''zeta'') sample_foreign s1 = (s2, r2)" by force
  have small: "\<not> mt_ShouldFlush (memtable_Put sample_entity (ss_memtable sample_service))"
    "\<not> mt_ShouldFlush (memtable_Put sample_foreign (memtable_Put sample_entity (ss_memtable sample_service)))"
    by (simp_all add: mt_ShouldFlush_def mt_Put_def Let_def)
  have "r1 = Inr ()"
    using put_no_flush [of sample_entity sample_service 1 s1 r1] s1 small by auto
  with tenant_shadowing [OF _ _ _ _ _ _ _ _ _ _ _ small s1 s2, of "''doc1''" "\<lambda>p. []"] foreign s1 s2
  show ?thesis by (auto simp: UnixNano_def)
qed

text \<open>A replica that accepts a write returns the same bytes on a read of the key, when no table
  has a version; but the write is in the memtable only: the log is unchanged, so a restart
  loses it.\<close>

theorem replica_write_read:
  assumes "storable e" "TenantID e = t" "t \<noteq> []" "CHR '':'' \<notin> set t" "4 \<le> length (EntityID e)"
    and "0 \<le> sint (UnixNano (UpdatedAt e))"
    and "flushed (ss_dir s) tab" "table_hits (ss_dir s) tab (EntityID e) t = []"
  shows "\<exists>s'. ReplicaWrite (t @ '':'' @ EntityID e) t (entity_enc e) s = (s', Inr ()) \<and>
           ReplicaRead c (t @ '':'' @ EntityID e) t s' = Inr (Some (entity_enc e)) \<and> ss_wal s' = ss_wal s"
proof -
  let ?s' = "s\<lparr>ss_memtable := memtable_Put e (ss_memtable s)\<rparr>"
  have tw: "takeWhile (\<lambda>c. c \<noteq> CHR '':'') (t @ '':'' @ EntityID e) = t"
    using assms(4) by (subst takeWhile_append2) auto
  then have split: "SplitN_colon (t @ CHR '':'' # EntityID e) = [t, EntityID e]"
    by (simp add: SplitN_colon_def Let_def)
  have dec: "entity_FromBytes (entity_enc e) = Inr e"
    using assms(1) entity_FromBytes_append [of e "[]"] by (simp add: storable_def)
  have "ReplicaWrite (t @ '':'' @ EntityID e) t (entity_enc e) s = (?s', Inr ())"
    using assms(2) by (simp add: ReplicaWrite_def split dec Let_def)
  moreover have "GetEntity (Some t) (EntityID e) ?s' = Inr (Some e)"
    using get_entity_ans [of ?s' tab "EntityID e" t] latest_after_put [of ?s' e "ss_memtable s" "EntityID e" t] assms(2-8)
    by (simp add: Let_def)
  then have "ReplicaRead c (t @ '':'' @ EntityID e) t ?s' = Inr (Some (entity_enc e))"
    using assms(3) by (simp add: ReplicaRead_def split WithTenantID_def Let_def)
  ultimately show ?thesis by auto
qed

lemma replica_write_read_witness:
  "\<exists>s'. ReplicaWrite ''acme:doc1'' ''acme'' (entity_enc sample_entity) sample_service = (s', Inr ()) \<and>
     ReplicaRead None ''acme:doc1'' ''acme'' s' = Inr (Some (entity_enc sample_entity))"
  using replica_write_read [of sample_entity "''acme''" sample_service "\<lambda>p. []" None] sample_storable
  by (auto simp: UnixNano_def)

end
