(* ===== verification/Hash_Ring.thy ===== *)
theory Hash_Ring
  imports Alli_Prelude
begin

text \<open>
  The consistent hashing ring of \<^verbatim>\<open>src/core/cluster/ring/ring.go\<close>: every physical node owns
  a number of virtual nodes, placed on the ring by SHA-1, and a key belongs to the first distinct
  physical nodes clockwise from its hash. Every operation holds the ring's mutex, so it is one
  step. The map of nodes is an association list; \<^verbatim>\<open>Rebalance\<close> visits it in that order, Go in
  any order, which differs only where two virtual nodes have the same hash.
\<close>

section \<open>SHA-1\<close>

text \<open>The function of \<^verbatim>\<open>crypto/sha1\<close> (FIPS 180-4): padding, message schedule, eighty rounds.\<close>

unbundle bit_operations_syntax

definition be_get :: "bytes \<Rightarrow> nat" where
  "be_get bs = foldl (\<lambda>a b. a * 256 + unat b) 0 bs"

fun chop :: "nat \<Rightarrow> 'a list \<Rightarrow> 'a list list" where
  "chop n xs = (if n = 0 \<or> xs = [] then [] else take n xs # chop n (drop n xs))"

declare chop.simps [simp del]

definition sha1_pad :: "bytes \<Rightarrow> bytes" where
  "sha1_pad data =
     data @ [0x80] @ replicate ((119 - length data mod 64) mod 64) 0 @ rev (le_put 8 (8 * length data))"

fun sha1_schedule :: "nat \<Rightarrow> 32 word list \<Rightarrow> 32 word list" where
  "sha1_schedule 0 w = w"
| "sha1_schedule (Suc n) w =
     (let t = length w
      in sha1_schedule n (w @ [word_rotl 1 (w ! (t - 3) XOR w ! (t - 8) XOR w ! (t - 14) XOR w ! (t - 16))]))"

type_synonym sha1_state = "32 word \<times> 32 word \<times> 32 word \<times> 32 word \<times> 32 word"

definition sha1_f :: "nat \<Rightarrow> 32 word \<Rightarrow> 32 word \<Rightarrow> 32 word \<Rightarrow> 32 word" where
  "sha1_f t b c d =
     (if t < 20 then (b AND c) OR (NOT b AND d)
      else if t < 40 then b XOR c XOR d
      else if t < 60 then (b AND c) OR (b AND d) OR (c AND d)
      else b XOR c XOR d)"

definition sha1_k :: "nat \<Rightarrow> 32 word" where
  "sha1_k t = (if t < 20 then 0x5A827999 else if t < 40 then 0x6ED9EBA1
               else if t < 60 then 0x8F1BBCDC else 0xCA62C1D6)"

fun sha1_rounds :: "nat \<Rightarrow> 32 word list \<Rightarrow> sha1_state \<Rightarrow> sha1_state" where
  "sha1_rounds t [] s = s"
| "sha1_rounds t (w # ws) (a, b, c, d, e) =
     sha1_rounds (Suc t) ws (word_rotl 5 a + sha1_f t b c d + e + sha1_k t + w, a, word_rotl 30 b, c, d)"

fun sha1_block :: "bytes \<Rightarrow> sha1_state \<Rightarrow> sha1_state" where
  "sha1_block block (a, b, c, d, e) =
     (case sha1_rounds 0 (sha1_schedule 64 (map (\<lambda>q. word_of_nat (be_get q)) (chop 4 block))) (a, b, c, d, e) of
        (a', b', c', d', e') \<Rightarrow> (a + a', b + b', c + c', d + d', e + e'))"

definition sha1_Sum :: "bytes \<Rightarrow> bytes" where
  "sha1_Sum data =
     (case fold sha1_block (chop 64 (sha1_pad data))
             (0x67452301, 0xEFCDAB89, 0x98BADCFE, 0x10325476, 0xC3D2E1F0) of
        (a, b, c, d, e) \<Rightarrow> concat (map (\<lambda>w. rev (put_u32 w)) [a, b, c, d, e]))"

section \<open>The ring\<close>

type_synonym NodeID = string

record VirtualNode =
  Hash :: "64 word"
  NodeID :: NodeID
  Index :: nat

record Ring =
  virtualNodes :: "VirtualNode list"
  ring_nodes :: "(NodeID \<times> int) list"
  virtualNodesPerNode :: int
  replicationFactor :: int

definition ring_DefaultConfig :: "int \<times> int" where
  "ring_DefaultConfig = (150, 3)"

definition ring_New :: "int \<times> int \<Rightarrow> Ring" where
  "ring_New config =
     (let (vnodes, rf) = config;
          vnodes = (if vnodes \<le> 0 then 150 else vnodes);
          rf = (if rf \<le> 0 then 3 else rf)
      in \<lparr>virtualNodes = [], ring_nodes = [], virtualNodesPerNode = vnodes, replicationFactor = rf\<rparr>)"

definition hashString :: "string \<Rightarrow> 64 word" where
  "hashString s =
     (let h = sha1_Sum (bytes_of s)
      in fold (\<lambda>i result. push_bit 8 result OR ucast (h ! i)) (filter (\<lambda>i. i < length h) [0..<8]) 0)"

definition hashKey :: "string \<Rightarrow> 64 word" where
  "hashKey key = hashString key"

definition hashVirtualNode :: "NodeID \<Rightarrow> nat \<Rightarrow> 64 word" where
  "hashVirtualNode nodeID index = hashString (nodeID @ '':'' @ decimal index)"

text \<open>The virtual nodes of a physical node, in the order of the loops of \<^verbatim>\<open>AddNode\<close> and
  \<^verbatim>\<open>Rebalance\<close>.\<close>

definition new_vnodes :: "Ring \<Rightarrow> NodeID \<Rightarrow> VirtualNode list" where
  "new_vnodes r nodeID =
     map (\<lambda>i. \<lparr>Hash = hashVirtualNode nodeID i, NodeID = nodeID, Index = i\<rparr>) [0..<nat (virtualNodesPerNode r)]"

definition by_hash :: "VirtualNode list \<Rightarrow> VirtualNode list" where
  "by_hash vs = sort_Slice (\<lambda>a b. Hash a < Hash b) vs"

definition AddNode :: "NodeID \<Rightarrow> Ring \<Rightarrow> Ring go" where
  "AddNode nodeID r =
     (if map_of (ring_nodes r) nodeID \<noteq> None then Inl (Fail ''node already exists'')
      else Inr (r\<lparr>virtualNodes := by_hash (virtualNodes r @ new_vnodes r nodeID),
                  ring_nodes := AList.update nodeID (virtualNodesPerNode r) (ring_nodes r)\<rparr>))"

definition RemoveNode :: "NodeID \<Rightarrow> Ring \<Rightarrow> Ring go" where
  "RemoveNode nodeID r =
     (if map_of (ring_nodes r) nodeID = None then Inl (Fail ''node does not exist'')
      else Inr (r\<lparr>virtualNodes := filter (\<lambda>vnode. NodeID vnode \<noteq> nodeID) (virtualNodes r),
                  ring_nodes := AList.delete nodeID (ring_nodes r)\<rparr>))"

definition findVirtualNode :: "Ring \<Rightarrow> 64 word \<Rightarrow> nat" where
  "findVirtualNode r keyHash =
     (let idx = sort_Search (length (virtualNodes r)) (\<lambda>i. Hash (virtualNodes r ! i) \<ge> keyHash)
      in if idx \<ge> length (virtualNodes r) then 0 else idx)"

fun owners_loop ::
  "Ring \<Rightarrow> nat \<Rightarrow> nat list \<Rightarrow> NodeID list \<Rightarrow> NodeID set \<Rightarrow> NodeID list" where
  "owners_loop r startIdx [] owners seen = owners"
| "owners_loop r startIdx (i # is) owners seen =
     (if int (length owners) < replicationFactor r then
        let idx = (startIdx + i) mod length (virtualNodes r);
            vnode = virtualNodes r ! idx
        in if NodeID vnode \<notin> seen
           then owners_loop r startIdx is (owners @ [NodeID vnode]) (insert (NodeID vnode) seen)
           else owners_loop r startIdx is owners seen
      else owners)"

definition GetOwners :: "Ring \<Rightarrow> string \<Rightarrow> NodeID list" where
  "GetOwners r key =
     (if length (virtualNodes r) = 0 then []
      else owners_loop r (findVirtualNode r (hashKey key)) [0..<length (virtualNodes r)] [] {})"

definition GetOwner :: "Ring \<Rightarrow> string \<Rightarrow> NodeID" where
  "GetOwner r key = (let owners = GetOwners r key in if length owners = 0 then [] else owners ! 0)"

definition ring_GetNodes :: "Ring \<Rightarrow> NodeID list" where
  "ring_GetNodes r = sort_Slice (<) (map fst (ring_nodes r))"

definition GetNodeCount :: "Ring \<Rightarrow> nat" where
  "GetNodeCount r = length (ring_nodes r)"

definition GetVirtualNodeCount :: "Ring \<Rightarrow> nat" where
  "GetVirtualNodeCount r = length (virtualNodes r)"

definition HasNode :: "Ring \<Rightarrow> NodeID \<Rightarrow> bool" where
  "HasNode r nodeID \<longleftrightarrow> map_of (ring_nodes r) nodeID \<noteq> None"

definition GetReplicationFactor :: "Ring \<Rightarrow> int" where
  "GetReplicationFactor r = replicationFactor r"

definition GetVirtualNodesPerNode :: "Ring \<Rightarrow> int" where
  "GetVirtualNodesPerNode r = virtualNodesPerNode r"

definition GetVirtualNodesForNode :: "Ring \<Rightarrow> NodeID \<Rightarrow> VirtualNode list" where
  "GetVirtualNodesForNode r nodeID = filter (\<lambda>vnode. NodeID vnode = nodeID) (virtualNodes r)"

definition Rebalance :: "Ring \<Rightarrow> Ring" where
  "Rebalance r = r\<lparr>virtualNodes := by_hash (concat (map (\<lambda>(nodeID, n). new_vnodes r nodeID) (ring_nodes r)))\<rparr>"

section \<open>Specification\<close>

text \<open>The virtual nodes clockwise from a hash, and a list without later repetitions.\<close>

definition clockwise :: "VirtualNode list \<Rightarrow> 64 word \<Rightarrow> VirtualNode list" where
  "clockwise vs h = filter (\<lambda>v. Hash v \<ge> h) vs @ filter (\<lambda>v. \<not> Hash v \<ge> h) vs"

fun firsts :: "'a set \<Rightarrow> 'a list \<Rightarrow> 'a list" where
  "firsts seen [] = []"
| "firsts seen (x # xs) = (if x \<in> seen then firsts seen xs else x # firsts (insert x seen) xs)"

definition preference :: "Ring \<Rightarrow> string \<Rightarrow> NodeID list" where
  "preference r key = firsts {} (map NodeID (clockwise (virtualNodes r) (hashKey key)))"

lemma firsts_set: "set (firsts seen xs) = set xs - seen"
  by (induction xs arbitrary: seen) auto

lemma firsts_distinct: "distinct (firsts seen xs)"
  by (induction xs arbitrary: seen) (auto simp: firsts_set)

lemma firsts_filter:
  "(\<And>x. P x \<Longrightarrow> x \<in> S \<longleftrightarrow> x \<in> T) \<Longrightarrow> firsts S (filter P xs) = filter P (firsts T xs)"
proof (induction xs arbitrary: S T)
  case Nil
  then show ?case by simp
next
  case (Cons x xs)
  show ?case
  proof (cases "P x")
    case True
    with Cons.prems Cons.IH [of S T] Cons.IH [of "insert x S" "insert x T"] show ?thesis by simp
  next
    case False
    with Cons.prems Cons.IH [of S T] Cons.IH [of S "insert x T"] show ?thesis by auto
  qed
qed

lemma owners_loop_firsts:
  "owners_loop r s is owners seen =
     owners @ take (nat (replicationFactor r) - length owners)
       (firsts seen (map (\<lambda>i. NodeID (virtualNodes r ! ((s + i) mod length (virtualNodes r)))) is))"
proof (induction "is" arbitrary: owners seen)
  case Nil
  then show ?case by simp
next
  case (Cons i "is")
  show ?case
  proof (cases "int (length owners) < replicationFactor r")
    case True
    then have "nat (replicationFactor r) - length owners = Suc (nat (replicationFactor r) - Suc (length owners))"
      by linarith
    with True show ?thesis by (simp add: Cons Let_def)
  next
    case False
    then have "nat (replicationFactor r) - length owners = 0" by linarith
    with False show ?thesis by simp
  qed
qed

lemma rotated:
  assumes "s < length xs"
  shows "map (\<lambda>i. f (xs ! ((s + i) mod length xs))) [0..<length xs] = map f (drop s xs @ take s xs)"
proof -
  have "map (\<lambda>i. xs ! ((s + i) mod length xs)) [0..<length xs] = rotate s xs"
    by (rule nth_equalityI) (simp_all add: nth_rotate add.commute)
  also have "\<dots> = drop s xs @ take s xs"
    using assms by (simp add: rotate_drop_take)
  finally have "map f (map (\<lambda>i. xs ! ((s + i) mod length xs)) [0..<length xs]) = map f (drop s xs @ take s xs)"
    by simp
  then show ?thesis by (simp add: o_def)
qed

lemma split_filter:
  assumes "splits_at (length xs) (\<lambda>i. P (xs ! i)) s"
  shows "drop s xs = filter P xs \<and> take s xs = filter (\<lambda>x. \<not> P x) xs"
proof -
  have "\<forall>x\<in>set (take s xs). \<not> P x" "\<forall>x\<in>set (drop s xs). P x"
    using assms by (auto simp: splits_at_def in_set_conv_nth)
  then have "filter P (take s xs @ drop s xs) = drop s xs" "filter (\<lambda>x. \<not> P x) (take s xs @ drop s xs) = take s xs"
    by (auto simp: filter_empty_conv filter_id_conv simp del: append_take_drop_id)
  then show ?thesis by simp
qed

lemma clockwise_rotation:
  assumes "sorted (map Hash (virtualNodes r))"
  shows "drop (findVirtualNode r h) (virtualNodes r) @ take (findVirtualNode r h) (virtualNodes r)
           = clockwise (virtualNodes r) h"
proof -
  let ?vs = "virtualNodes r"
  let ?s = "sort_Search (length ?vs) (\<lambda>i. Hash (?vs ! i) \<ge> h)"
  have "monotone_below (length ?vs) (\<lambda>i. Hash (?vs ! i) \<ge> h)"
    using sorted_nth_mono [OF assms] by (fastforce simp: monotone_below_def)
  from split_filter [OF sort_Search_splits [OF this]]
  have "drop ?s ?vs = filter (\<lambda>v. Hash v \<ge> h) ?vs" "take ?s ?vs = filter (\<lambda>v. \<not> Hash v \<ge> h) ?vs"
    by simp_all
  moreover have "?s \<ge> length ?vs \<Longrightarrow> filter (\<lambda>v. Hash v \<ge> h) ?vs = [] \<and> filter (\<lambda>v. \<not> Hash v \<ge> h) ?vs = ?vs"
    using calculation by simp
  ultimately show ?thesis
    by (auto simp: findVirtualNode_def clockwise_def Let_def)
qed

lemma findVirtualNode_less: "virtualNodes r \<noteq> [] \<Longrightarrow> findVirtualNode r h < length (virtualNodes r)"
  by (simp add: findVirtualNode_def Let_def)

lemma GetOwners_preference:
  assumes "sorted (map Hash (virtualNodes r))"
  shows "GetOwners r key = take (nat (replicationFactor r)) (preference r key)"
proof (cases "virtualNodes r = []")
  case True
  then show ?thesis by (simp add: GetOwners_def preference_def clockwise_def)
next
  case False
  then show ?thesis
    using rotated [OF findVirtualNode_less [OF False, of "hashKey key"], of NodeID]
    by (simp only: GetOwners_def owners_loop_firsts clockwise_rotation [OF assms]) (simp add: preference_def)
qed

lemma distinct_GetOwners: "distinct (GetOwners r key)"
  by (simp add: GetOwners_def owners_loop_firsts firsts_distinct)

lemma set_GetOwners: "set (GetOwners r key) \<subseteq> NodeID ` set (virtualNodes r)"
proof (cases "virtualNodes r = []")
  case False
  have "virtualNodes r ! ((i :: nat) mod length (virtualNodes r)) \<in> set (virtualNodes r)" for i
    using False by (intro nth_mem) simp
  then show ?thesis
    by (auto simp: GetOwners_def owners_loop_firsts firsts_set dest!: in_set_takeD)
qed (simp add: GetOwners_def)

section \<open>Reachable rings\<close>

inductive built :: "Ring \<Rightarrow> bool" where
  "built (ring_New config)"
| "built r \<Longrightarrow> AddNode n r = Inr r' \<Longrightarrow> built r'"
| "built r \<Longrightarrow> RemoveNode n r = Inr r' \<Longrightarrow> built r'"
| "built r \<Longrightarrow> built (Rebalance r)"

definition all_vnodes :: "Ring \<Rightarrow> VirtualNode list" where
  "all_vnodes r = concat (map (\<lambda>(n, c). new_vnodes r n) (ring_nodes r))"

definition ring_ok :: "Ring \<Rightarrow> bool" where
  "ring_ok r \<longleftrightarrow> sorted (map Hash (virtualNodes r)) \<and> distinct (map fst (ring_nodes r)) \<and>
     set (virtualNodes r) = set (all_vnodes r) \<and> 0 < virtualNodesPerNode r \<and> 0 < replicationFactor r"

lemma sorted_by_hash [simp]: "sorted (map Hash (by_hash vs))"
  unfolding by_hash_def by (rule sort_Slice_sorted_key)

lemma set_by_hash [simp]: "set (by_hash vs) = set vs"
  by (simp add: by_hash_def)

lemma new_vnodes_node [simp]: "v \<in> set (new_vnodes r n) \<Longrightarrow> NodeID v = n"
  by (auto simp: new_vnodes_def)

lemma new_vnodes_update [simp]:
  "new_vnodes (virtualNodes_update f r) n = new_vnodes r n"
  "new_vnodes (ring_nodes_update g r) n = new_vnodes r n"
  by (simp_all add: new_vnodes_def)

lemma set_all_vnodes: "set (all_vnodes r) = (\<Union>n \<in> fst ` set (ring_nodes r). set (new_vnodes r n))"
  by (auto simp: all_vnodes_def)

lemma ring_ok_New: "ring_ok (ring_New config)"
  by (auto simp: ring_ok_def ring_New_def all_vnodes_def split: prod.splits)

lemma ring_ok_Add:
  assumes "ring_ok r" and "AddNode n r = Inr r'"
  shows "ring_ok r'"
proof -
  from assms(2) have r': "r' = r\<lparr>virtualNodes := by_hash (virtualNodes r @ new_vnodes r n),
                  ring_nodes := AList.update n (virtualNodesPerNode r) (ring_nodes r)\<rparr>"
    by (auto simp: AddNode_def split: if_splits)
  have "set (all_vnodes r') = set (all_vnodes r) \<union> set (new_vnodes r n)"
    by (auto simp: set_all_vnodes r' dom_update)
  with assms(1) show ?thesis by (simp add: ring_ok_def r')
qed

lemma ring_ok_Remove:
  assumes "ring_ok r" and "RemoveNode n r = Inr r'"
  shows "ring_ok r'"
proof -
  from assms(2) have r': "r' = r\<lparr>virtualNodes := filter (\<lambda>v. NodeID v \<noteq> n) (virtualNodes r),
                  ring_nodes := AList.delete n (ring_nodes r)\<rparr>"
    by (auto simp: RemoveNode_def split: if_splits)
  have "fst ` set (ring_nodes r') = fst ` set (ring_nodes r) - {n}"
    using arg_cong [OF delete_keys [of n "ring_nodes r"], of set] by (simp add: r')
  moreover have "(\<Union>m\<in>K - {n}. set (new_vnodes r m)) = {v \<in> (\<Union>m\<in>K. set (new_vnodes r m)). NodeID v \<noteq> n}" for K
    by auto
  moreover have "new_vnodes r' = new_vnodes r"
    by (intro ext) (simp add: r')
  ultimately have "set (all_vnodes r') = {v \<in> set (all_vnodes r). NodeID v \<noteq> n}"
    by (simp only: set_all_vnodes)
  with assms(1) show ?thesis
    by (auto simp: ring_ok_def r' sorted_filter)
qed

lemma ring_ok_Rebalance: "ring_ok r \<Longrightarrow> ring_ok (Rebalance r)"
  by (simp add: ring_ok_def Rebalance_def all_vnodes_def)

lemma built_ok: "built r \<Longrightarrow> ring_ok r"
  by (induction rule: built.induct)
    (auto intro: ring_ok_New ring_ok_Rebalance dest: ring_ok_Add ring_ok_Remove)

lemma new_vnodes_nonempty: "ring_ok r \<Longrightarrow> new_vnodes r n \<noteq> []"
  by (simp add: ring_ok_def new_vnodes_def)

lemma vnode_owners:
  assumes "ring_ok r"
  shows "NodeID ` set (virtualNodes r) = fst ` set (ring_nodes r)"
proof -
  have "NodeID ` set (new_vnodes r n) = {n}" for n
    using new_vnodes_nonempty [OF assms, of n] new_vnodes_node [of _ r n] by (cases "new_vnodes r n") auto
  then have "NodeID ` set (all_vnodes r) = fst ` set (ring_nodes r)"
    by (auto simp: set_all_vnodes image_UN)
  with assms show ?thesis by (simp add: ring_ok_def)
qed

lemma preference_nodes:
  assumes "ring_ok r"
  shows "set (preference r key) = fst ` set (ring_nodes r) \<and> distinct (preference r key) \<and>
         length (preference r key) = length (ring_nodes r)"
proof -
  have "set (clockwise (virtualNodes r) (hashKey key)) = set (virtualNodes r)"
    by (auto simp: clockwise_def)
  then have s: "set (preference r key) = fst ` set (ring_nodes r)"
    using vnode_owners [OF assms] by (simp add: preference_def firsts_set)
  moreover have d: "distinct (preference r key)"
    by (simp add: preference_def firsts_distinct)
  moreover have "length (preference r key) = length (ring_nodes r)"
    using distinct_card [OF d] distinct_card [of "map fst (ring_nodes r)"] s assms by (simp add: ring_ok_def)
  ultimately show ?thesis by simp
qed

lemma preference_Remove:
  assumes "RemoveNode n r = Inr r'"
  shows "preference r' key = filter (\<lambda>m. m \<noteq> n) (preference r key)"
proof -
  have vn: "virtualNodes r' = filter (\<lambda>v. NodeID v \<noteq> n) (virtualNodes r)"
    using assms by (auto simp: RemoveNode_def split: if_splits)
  have "map NodeID (clockwise (virtualNodes r') h)
      = filter (\<lambda>m. m \<noteq> n) (map NodeID (clockwise (virtualNodes r) h))" for h
    by (simp add: clockwise_def vn filter_map o_def conj_commute)
  then show ?thesis
    unfolding preference_def by (simp add: firsts_filter [of _ "{}" "{}"])
qed

text \<open>Taking one element out of a list changes a prefix of it by one element at most.\<close>

lemma take_filter_one:
  assumes "distinct xs"
  shows "\<exists>extra. take k (filter (\<lambda>x. x \<noteq> n) xs) = filter (\<lambda>x. x \<noteq> n) (take k xs) @ extra \<and> length extra \<le> 1 \<and>
           (n \<notin> set (take k xs) \<longrightarrow> extra = [])"
  using assms
proof (induction xs arbitrary: k)
  case Nil
  then show ?case by simp
next
  case (Cons x xs)
  show ?case
  proof (cases k)
    case 0
    then show ?thesis by simp
  next
    case (Suc j)
    show ?thesis
    proof (cases "x = n")
      case True
      with Cons.prems have "filter (\<lambda>x. x \<noteq> n) xs = xs" "filter (\<lambda>x. x \<noteq> n) (take j xs) = take j xs"
        by (auto simp: filter_id_conv dest: in_set_takeD)
      moreover have "take (Suc j) xs = take j xs @ take 1 (drop j xs)"
        using take_add [of j 1 xs] by simp
      ultimately show ?thesis
        using Suc True by (intro exI [of _ "take 1 (drop j xs)"]) simp
    next
      case False
      with Suc Cons.IH [of j] Cons.prems show ?thesis by auto
    qed
  qed
qed

lemma owners_Remove:
  assumes "built r" and "RemoveNode n r = Inr r'"
  shows "\<exists>extra. GetOwners r' key = filter (\<lambda>m. m \<noteq> n) (GetOwners r key) @ extra \<and> length extra \<le> 1 \<and>
           (n \<notin> set (GetOwners r key) \<longrightarrow> extra = [])"
proof -
  have ok: "ring_ok r" "ring_ok r'"
    using assms built_ok built.intros(3) by blast+
  then have s: "sorted (map Hash (virtualNodes r))" "sorted (map Hash (virtualNodes r'))" by (simp_all add: ring_ok_def)
  have "replicationFactor r' = replicationFactor r"
    using assms(2) by (auto simp: RemoveNode_def split: if_splits)
  then show ?thesis
    using take_filter_one [of "preference r key" "nat (replicationFactor r)" n] preference_nodes [OF ok(1), of key]
    by (simp add: GetOwners_preference [OF s(1)] GetOwners_preference [OF s(2)] preference_Remove [OF assms(2)])
qed

text \<open>Without collisions the ring is determined by its nodes.\<close>

definition no_collision :: "Ring \<Rightarrow> bool" where
  "no_collision r \<longleftrightarrow> distinct (map Hash (virtualNodes r))"

lemma sorted_hash_unique:
  assumes "sorted (map Hash xs)" "sorted (map Hash ys)" "distinct (map Hash xs)" "distinct (map Hash ys)"
    and "set xs = set ys"
  shows "xs = ys"
  using assms by (intro map_sorted_distinct_set_unique [where f = Hash]) (auto simp: distinct_map)

lemma Add_Remove:
  assumes "built r" and "AddNode n r = Inr r'" and "no_collision r'"
  shows "RemoveNode n r' = Inr r"
proof -
  from assms(2) have fresh: "map_of (ring_nodes r) n = None"
    and r': "r' = r\<lparr>virtualNodes := by_hash (virtualNodes r @ new_vnodes r n),
                  ring_nodes := AList.update n (virtualNodesPerNode r) (ring_nodes r)\<rparr>"
    by (auto simp: AddNode_def split: if_splits)
  have ok: "ring_ok r" using built_ok [OF assms(1)] .
  from fresh have n: "n \<notin> fst ` set (ring_nodes r)" by (simp add: map_of_eq_None_iff)
  then have keep: "\<forall>v\<in>set (virtualNodes r). NodeID v \<noteq> n"
    using vnode_owners [OF ok] by blast
  have "distinct (map Hash (virtualNodes r @ new_vnodes r n))"
    using assms(3) by (simp add: no_collision_def r' by_hash_def distinct_map_sort_Slice del: map_append)
  then have d: "distinct (map Hash (virtualNodes r))" by simp
  have "filter (\<lambda>v. NodeID v \<noteq> n) (by_hash (virtualNodes r @ new_vnodes r n)) = virtualNodes r"
  proof (rule sorted_hash_unique)
    show "sorted (map Hash (filter (\<lambda>v. NodeID v \<noteq> n) (by_hash (virtualNodes r @ new_vnodes r n))))"
      by (simp add: sorted_filter)
    show "sorted (map Hash (virtualNodes r))" using ok by (simp add: ring_ok_def)
    show "distinct (map Hash (filter (\<lambda>v. NodeID v \<noteq> n) (by_hash (virtualNodes r @ new_vnodes r n))))"
      using assms(3) by (simp add: no_collision_def r' distinct_map_filter)
    show "set (filter (\<lambda>v. NodeID v \<noteq> n) (by_hash (virtualNodes r @ new_vnodes r n))) = set (virtualNodes r)"
      using keep by auto
  qed (rule d)
  moreover have "AList.delete n (AList.update n (virtualNodesPerNode r) (ring_nodes r)) = ring_nodes r"
    using n by (simp add: alist_update_fresh AList.delete_eq filter_id_conv) force
  ultimately show ?thesis
    by (simp add: RemoveNode_def r')
qed

lemma Rebalance_id: "built r \<Longrightarrow> no_collision r \<Longrightarrow> no_collision (Rebalance r) \<Longrightarrow> Rebalance r = r"
proof -
  assume r: "built r" "no_collision r" "no_collision (Rebalance r)"
  from built_ok [OF r(1)] have ok: "ring_ok r" .
  have "virtualNodes (Rebalance r) = virtualNodes r"
  proof (rule sorted_hash_unique)
    show "set (virtualNodes (Rebalance r)) = set (virtualNodes r)"
      using ok by (simp add: ring_ok_def Rebalance_def all_vnodes_def)
  qed (use ok r in \<open>simp_all add: ring_ok_def no_collision_def Rebalance_def\<close>)
  then show "Rebalance r = r" by (simp add: Rebalance_def)
qed

section \<open>Properties\<close>

text \<open>C14. On every ring that adding, removing and rebalancing can build, the owners of a key are
  distinct nodes of the ring, as many as the replication factor or all nodes, and they are the
  first ones met clockwise from the key's hash.\<close>

theorem ring_owners:
  assumes "built r"
  shows "distinct (GetOwners r key) \<and> set (GetOwners r key) \<subseteq> set (ring_GetNodes r) \<and>
         int (length (GetOwners r key)) = min (GetReplicationFactor r) (int (GetNodeCount r)) \<and>
         prefix (GetOwners r key) (firsts {} (map NodeID (clockwise (virtualNodes r) (hashKey key)))) \<and>
         (GetNodeCount r > 0 \<longrightarrow> GetOwner r key = NodeID (hd (clockwise (virtualNodes r) (hashKey key))))"
proof -
  from built_ok [OF assms] have ok: "ring_ok r" .
  then have own: "GetOwners r key = take (nat (replicationFactor r)) (preference r key)"
    by (simp add: GetOwners_preference ring_ok_def)
  note pref = preference_nodes [OF ok, of key]
  have rf: "replicationFactor r > 0" using ok by (simp add: ring_ok_def)
  have "GetNodeCount r > 0 \<longrightarrow> GetOwner r key = NodeID (hd (clockwise (virtualNodes r) (hashKey key)))"
  proof
    assume "GetNodeCount r > 0"
    with pref have ne: "preference r key \<noteq> []" by (auto simp: GetNodeCount_def)
    then obtain v vs where c: "clockwise (virtualNodes r) (hashKey key) = v # vs"
      by (cases "clockwise (virtualNodes r) (hashKey key)") (auto simp: preference_def)
    with own rf show "GetOwner r key = NodeID (hd (clockwise (virtualNodes r) (hashKey key)))"
      by (cases "nat (replicationFactor r)") (auto simp: GetOwner_def preference_def Let_def)
  qed
  with pref rf show ?thesis
    by (auto simp: own ring_GetNodes_def GetReplicationFactor_def GetNodeCount_def take_is_prefix
        distinct_take dest!: in_set_takeD simp flip: preference_def)
qed

lemma ring_owners_witness:
  "\<exists>r1 r2. AddNode ''a'' (ring_New (2, 3)) = Inr r1 \<and> AddNode ''b'' r1 = Inr r2 \<and>
     length (GetOwners r2 ''key'') = 2 \<and> set (GetOwners r2 ''key'') \<subseteq> {''a'', ''b''}"
proof -
  obtain r1 where r1: "AddNode ''a'' (ring_New (2, 3)) = Inr r1" "ring_nodes r1 = [(''a'', 2)]" "replicationFactor r1 = 3"
    by (simp add: AddNode_def ring_New_def)
  obtain r2 where r2: "AddNode ''b'' r1 = Inr r2" "map fst (ring_nodes r2) = [''a'', ''b'']" "replicationFactor r2 = 3"
    using r1(2,3) by (simp add: AddNode_def)
  have "built r2" using r1(1) r2(1) built.intros(1,2) by blast
  moreover from r2(2) have "length (ring_nodes r2) = 2" using length_map [of fst "ring_nodes r2"] by simp
  ultimately show ?thesis
    using ring_owners [of r2 "''key''"] r1(1) r2
    by (auto simp: ring_GetNodes_def GetNodeCount_def GetReplicationFactor_def)
qed

text \<open>C15. Membership changes move as little as consistent hashing promises. When a node leaves, it is
  struck from a key's owners and at most one other node takes its place; keys it did not own keep
  their owners. When a node joins, the same holds in the other direction, provided no two virtual
  nodes have the same hash.\<close>

theorem membership_change:
  assumes "built r"
  shows "(RemoveNode n r = Inr r' \<longrightarrow>
            (\<exists>extra. GetOwners r' key = filter (\<lambda>m. m \<noteq> n) (GetOwners r key) @ extra \<and> length extra \<le> 1 \<and>
                    (n \<notin> set (GetOwners r key) \<longrightarrow> extra = []))) \<and>
         (AddNode n r = Inr r' \<and> no_collision r' \<longrightarrow>
            RemoveNode n r' = Inr r \<and>
            (\<exists>extra. GetOwners r key = filter (\<lambda>m. m \<noteq> n) (GetOwners r' key) @ extra \<and> length extra \<le> 1 \<and>
                    (n \<notin> set (GetOwners r' key) \<longrightarrow> extra = [])))"
  using owners_Remove [OF assms] owners_Remove [OF built.intros(2) [OF assms]] Add_Remove [OF assms]
  by blast

lemma membership_change_witness:
  "\<exists>r. AddNode ''a'' (ring_New (1, 3)) = Inr r \<and> RemoveNode ''a'' r = Inr (ring_New (1, 3)) \<and>
     GetOwners (ring_New (1, 3)) ''key'' = filter (\<lambda>m. m \<noteq> ''a'') (GetOwners r ''key'')"
proof -
  obtain r where r: "AddNode ''a'' (ring_New (1, 3)) = Inr r" "length (virtualNodes r) = 1" "replicationFactor r = 3"
    by (simp add: AddNode_def ring_New_def new_vnodes_def by_hash_def)
  then have "no_collision r" by (cases "virtualNodes r") (auto simp: no_collision_def)
  moreover have "built (ring_New (1, 3))" by (rule built.intros)
  moreover have "GetOwners (ring_New (1, 3)) ''key'' = []" by (simp add: GetOwners_def ring_New_def)
  ultimately show ?thesis
    using membership_change [of "ring_New (1, 3)" "''a''" r "''key''"] r(1) by auto
qed

end
