(* ===== verification/Gossip.thy ===== *)
theory Gossip
  imports Alli_Prelude
begin

text \<open>
  The membership protocol of \<^verbatim>\<open>src/core/cluster/gossip/gossip.go\<close> and the transport that
  \<^verbatim>\<open>src/cmd/allidbd/main.go\<close> plugs into it. A handler takes the node's state and a message
  and returns the new state and the messages it sends, each with the node it is addressed to.
  Maps are association lists; where Go visits a map in any order, the list's order stands for it.
  The callbacks for nodes coming and going are not set by the server and are left out.
\<close>

section \<open>Data\<close>

datatype NodeState = NodeStateAlive | NodeStateDead | NodeStateUnknown

text \<open>An application value is any Go value; what the protocol itself reads is an int64.\<close>

datatype AppValue = AppInt64 int64 | AppOther string

record EndpointState =
  es_NodeID :: string
  es_State :: NodeState
  es_Heartbeat :: int64
  es_Generation :: int64
  es_LastUpdate :: time
  es_ApplicationState :: "(string \<times> AppValue) list"

record GossipDigest =
  dg_NodeID :: string
  dg_Generation :: int64
  dg_Heartbeat :: int64

type_synonym GossipDigestSyn = "GossipDigest list"

record GossipDigestAck =
  ack_Digests :: "GossipDigest list"
  ack_States :: "(string \<times> EndpointState) list"

type_synonym GossipDigestAck2 = "(string \<times> EndpointState) list"

record Node =
  nd_NodeID :: string
  nd_Address :: string
  nd_Port :: int

record GossipConfig =
  LocalNodeID :: string
  LocalAddress :: string
  LocalPort :: int
  SeedNodes :: "string list"
  GossipInterval :: int
  FailureTimeout :: int
  CleanupInterval :: int
  Fanout :: int

definition gossip_DefaultConfig :: "string \<Rightarrow> string \<Rightarrow> int \<Rightarrow> GossipConfig" where
  "gossip_DefaultConfig localNodeID localAddress localPort =
     \<lparr>LocalNodeID = localNodeID, LocalAddress = localAddress, LocalPort = localPort, SeedNodes = [],
      GossipInterval = 1 * 1000000000, FailureTimeout = 20 * 1000000000,
      CleanupInterval = 60 * 1000000000, Fanout = 3\<rparr>"

record Gossip =
  gs_config :: GossipConfig
  gs_localState :: EndpointState
  gs_generation :: int64
  gs_endpointStates :: "(string \<times> EndpointState) list"
  gs_knownNodes :: "(string \<times> Node) list"

record GossipMessage =
  msg_From :: Node
  msg_Syn :: "GossipDigestSyn option"
  msg_Ack :: "GossipDigestAck option"
  msg_Ack2 :: "GossipDigestAck2 option"

text \<open>A call of the transport: \<^verbatim>\<open>SendSyn\<close>, \<^verbatim>\<open>SendAck\<close> or \<^verbatim>\<open>SendAck2\<close> with the node to send
  to.\<close>

datatype call = SendSyn Node GossipDigestSyn | SendAck Node GossipDigestAck | SendAck2 Node GossipDigestAck2

section \<open>Seeds\<close>

text \<open>\<^verbatim>\<open>net.SplitHostPort\<close>; \<open>last_colon\<close> is the index of the last colon.\<close>

definition last_colon :: "string \<Rightarrow> nat option" where
  "last_colon s =
     (if CHR '':'' \<in> set s then Some (length s - 1 - length (takeWhile (\<lambda>c. c \<noteq> CHR '':'') (rev s))) else None)"

definition index_of :: "char \<Rightarrow> string \<Rightarrow> nat option" where
  "index_of c s = (if c \<in> set s then Some (length (takeWhile (\<lambda>x. x \<noteq> c) s)) else None)"

definition SplitHostPort :: "string \<Rightarrow> (string \<times> string) option" where
  "SplitHostPort s =
     (case last_colon s of
        None \<Rightarrow> None
      | Some i \<Rightarrow>
          if s ! 0 = CHR ''['' then
            (case index_of (CHR '']'') s of
               None \<Rightarrow> None
             | Some e \<Rightarrow>
                 if e + 1 \<noteq> i then None
                 else if CHR ''['' \<in> set (drop 1 s) \<or> CHR '']'' \<in> set (drop (e + 1) s) then None
                 else Some (drop 1 (take e s), drop (i + 1) s))
          else if CHR '':'' \<in> set (take i s) then None
          else if CHR ''['' \<in> set s \<or> CHR '']'' \<in> set s then None
          else Some (take i s, drop (i + 1) s))"

text \<open>\<^verbatim>\<open>strconv.Atoi\<close>: an optional sign, digits, a value in the int64 range.\<close>

definition Atoi :: "string \<Rightarrow> int option" where
  "Atoi s =
     (let (sign, ds) = (case s of c # cs \<Rightarrow> if c = CHR ''-'' then (-1, cs)
                                            else if c = CHR ''+'' then (1, cs) else (1, s)
                        | [] \<Rightarrow> (1, s));
          n = sign * int (undecimal ds)
      in if ds \<noteq> [] \<and> list_all is_digit ds \<and> - (2 ^ 63) \<le> n \<and> n < 2 ^ 63 then Some n else None)"

definition seed_node :: "GossipConfig \<Rightarrow> string \<Rightarrow> (string \<times> Node) option" where
  "seed_node config seed =
     (let (host, port) = (case SplitHostPort seed of
                            None \<Rightarrow> (seed, LocalPort config)
                          | Some (host, portStr) \<Rightarrow>
                              (host, case Atoi portStr of None \<Rightarrow> LocalPort config | Some p \<Rightarrow> p))
      in if host = LocalAddress config \<and> port = LocalPort config then None
         else Some (host, \<lparr>nd_NodeID = host, nd_Address = host, nd_Port = port\<rparr>))"

definition NewGossip :: "time \<Rightarrow> GossipConfig \<Rightarrow> Gossip" where
  "NewGossip now config =
     (let generation = sint (UnixNano now)
      in \<lparr>gs_config = config,
          gs_localState = \<lparr>es_NodeID = LocalNodeID config, es_State = NodeStateAlive, es_Heartbeat = 0,
                           es_Generation = generation, es_LastUpdate = now, es_ApplicationState = []\<rparr>,
          gs_generation = generation, gs_endpointStates = [],
          gs_knownNodes = fold (\<lambda>seed known. case seed_node config seed of
                                               None \<Rightarrow> known
                                             | Some (k, node) \<Rightarrow> AList.update k node known)
                            (SeedNodes config) []\<rparr>)"

definition gs_Start :: "Gossip \<Rightarrow> Gossip" where
  "gs_Start g =
     (let c = gs_config g
      in g\<lparr>gs_knownNodes := AList.update (LocalNodeID c)
             \<lparr>nd_NodeID = LocalNodeID c, nd_Address = LocalAddress c, nd_Port = LocalPort c\<rparr> (gs_knownNodes g)\<rparr>)"

section \<open>Rounds\<close>

definition selectRandomPeers :: "Gossip \<Rightarrow> int \<Rightarrow> Node list" where
  "selectRandomPeers g cnt =
     (let candidates = map snd (filter (\<lambda>(nodeID, node). nodeID \<noteq> LocalNodeID (gs_config g)) (gs_knownNodes g))
      in if length candidates = 0 then [] else take (nat cnt) candidates)"

definition state_digest :: "string \<Rightarrow> EndpointState \<Rightarrow> GossipDigest" where
  "state_digest nodeID st =
     \<lparr>dg_NodeID = nodeID, dg_Generation = es_Generation st, dg_Heartbeat = es_Heartbeat st\<rparr>"

definition buildDigest :: "Gossip \<Rightarrow> GossipDigest list" where
  "buildDigest g =
     state_digest (es_NodeID (gs_localState g)) (gs_localState g) #
     map (\<lambda>(nodeID, st). state_digest nodeID st) (gs_endpointStates g)"

definition gossipWithPeer :: "Gossip \<Rightarrow> Node \<Rightarrow> call" where
  "gossipWithPeer g peer = SendSyn peer (buildDigest g)"

definition doGossip :: "Gossip \<Rightarrow> call list" where
  "doGossip g = map (gossipWithPeer g) (selectRandomPeers g (Fanout (gs_config g)))"

section \<open>Handlers\<close>

text \<open>A version: generation first, then heartbeat.\<close>

definition newer :: "int64 \<times> int64 \<Rightarrow> int64 \<times> int64 \<Rightarrow> bool" where
  "newer a b \<longleftrightarrow> fst a > fst b \<or> (fst a = fst b \<and> snd a > snd b)"

abbreviation es_version :: "EndpointState \<Rightarrow> int64 \<times> int64" where
  "es_version st \<equiv> (es_Generation st, es_Heartbeat st)"

abbreviation dg_version :: "GossipDigest \<Rightarrow> int64 \<times> int64" where
  "dg_version d \<equiv> (dg_Generation d, dg_Heartbeat d)"

fun syn_loop ::
  "Gossip \<Rightarrow> GossipDigest list \<Rightarrow> (string \<times> EndpointState) list \<Rightarrow> (string \<times> EndpointState) list" where
  "syn_loop g [] requested = requested"
| "syn_loop g (d # ds) requested =
     (case map_of (gs_endpointStates g) (dg_NodeID d) of
        None \<Rightarrow> syn_loop g ds requested
      | Some ourState \<Rightarrow>
          if newer (dg_version d) (es_version ourState) then syn_loop g ds requested
          else if newer (es_version ourState) (dg_version d)
          then syn_loop g ds (AList.update (dg_NodeID d) ourState requested)
          else syn_loop g ds requested)"

fun local_loop ::
  "EndpointState \<Rightarrow> GossipDigest list \<Rightarrow> (string \<times> EndpointState) list \<Rightarrow> (string \<times> EndpointState) list" where
  "local_loop loc [] requested = AList.update (es_NodeID loc) loc requested"
| "local_loop loc (d # ds) requested =
     (if dg_NodeID d = es_NodeID loc then
        (if newer (es_version loc) (dg_version d) then AList.update (es_NodeID loc) loc requested else requested)
      else local_loop loc ds requested)"

definition handleSyn :: "Node \<Rightarrow> GossipDigestSyn \<Rightarrow> Gossip \<Rightarrow> call" where
  "handleSyn from_node syn g =
     (let loc = gs_localState g;
          ourDigest = [state_digest (es_NodeID loc) loc];
          requested = local_loop loc syn (syn_loop g syn [])
      in SendAck from_node \<lparr>ack_Digests = ourDigest, ack_States = requested\<rparr>)"

definition updateEndpointState :: "time \<Rightarrow> string \<Rightarrow> EndpointState \<Rightarrow> Gossip \<Rightarrow> Gossip" where
  "updateEndpointState now nodeID newState g =
     (let existing = (case map_of (gs_endpointStates g) nodeID of
                        None \<Rightarrow> \<lparr>es_NodeID = nodeID, es_State = NodeStateAlive, es_Heartbeat = 0,
                                 es_Generation = 0, es_LastUpdate = time_zero, es_ApplicationState = []\<rparr>
                      | Some st \<Rightarrow> st);
          existing = (if newer (es_version newState) (es_version existing)
                      then existing\<lparr>es_Generation := es_Generation newState, es_Heartbeat := es_Heartbeat newState,
                             es_State := NodeStateAlive, es_LastUpdate := now,
                             es_ApplicationState := fold (\<lambda>(k, v) m. AList.update k v m)
                               (es_ApplicationState newState) (es_ApplicationState existing)\<rparr>
                      else existing)
      in g\<lparr>gs_endpointStates := AList.update nodeID existing (gs_endpointStates g)\<rparr>)"

definition update_all :: "time \<Rightarrow> (string \<times> EndpointState) list \<Rightarrow> Gossip \<Rightarrow> Gossip" where
  "update_all now states g = fold (\<lambda>(nodeID, st) g. updateEndpointState now nodeID st g) states g"

fun ack2_loop ::
  "Gossip \<Rightarrow> GossipDigest list \<Rightarrow> (string \<times> EndpointState) list \<Rightarrow> (string \<times> EndpointState) list" where
  "ack2_loop g [] states = states"
| "ack2_loop g (d # ds) states =
     (case map_of (gs_endpointStates g) (dg_NodeID d) of
        None \<Rightarrow> ack2_loop g ds states
      | Some ourState \<Rightarrow>
          if newer (es_version ourState) (dg_version d)
          then ack2_loop g ds (AList.update (dg_NodeID d) ourState states)
          else ack2_loop g ds states)"

definition handleAck :: "time \<Rightarrow> Node \<Rightarrow> GossipDigestAck \<Rightarrow> Gossip \<Rightarrow> Gossip \<times> call" where
  "handleAck now from_node ack g =
     (let g = update_all now (ack_States ack) g
      in (g, SendAck2 from_node (ack2_loop g (ack_Digests ack) [])))"

definition handleAck2 :: "time \<Rightarrow> Node \<Rightarrow> GossipDigestAck2 \<Rightarrow> Gossip \<Rightarrow> Gossip" where
  "handleAck2 now from_node ack2 g = update_all now ack2 g"

definition handleMessage :: "time \<Rightarrow> GossipMessage \<Rightarrow> Gossip \<Rightarrow> Gossip \<times> call list" where
  "handleMessage now msg g =
     (case msg_Syn msg of
        Some syn \<Rightarrow> (g, [handleSyn (msg_From msg) syn g])
      | None \<Rightarrow>
     (case msg_Ack msg of
        Some ack \<Rightarrow> (case handleAck now (msg_From msg) ack g of (g, out) \<Rightarrow> (g, [out]))
      | None \<Rightarrow>
     (case msg_Ack2 msg of
        Some ack2 \<Rightarrow> (handleAck2 now (msg_From msg) ack2 g, [])
      | None \<Rightarrow> (g, []))))"

definition checkDeadNodes :: "time \<Rightarrow> Gossip \<Rightarrow> Gossip" where
  "checkDeadNodes now g =
     g\<lparr>gs_endpointStates := map (\<lambda>(nodeID, st).
         (nodeID, if now - es_LastUpdate st > FailureTimeout (gs_config g)
                  then (if es_State st = NodeStateAlive then st\<lparr>es_State := NodeStateDead\<rparr> else st)
                  else st)) (gs_endpointStates g)\<rparr>"

section \<open>Operations of the node itself\<close>

definition gs_AddNode :: "Node \<Rightarrow> Gossip \<Rightarrow> Gossip" where
  "gs_AddNode node g = g\<lparr>gs_knownNodes := AList.update (nd_NodeID node) node (gs_knownNodes g)\<rparr>"

definition GetNodeAddress :: "Gossip \<Rightarrow> string \<Rightarrow> (string \<times> int) option" where
  "GetNodeAddress g nodeID =
     (case map_of (gs_knownNodes g) nodeID of
        None \<Rightarrow> None
      | Some node \<Rightarrow> if nd_Address node = [] then None else Some (nd_Address node, nd_Port node))"

definition gs_RemoveNode :: "string \<Rightarrow> Gossip \<Rightarrow> Gossip" where
  "gs_RemoveNode nodeID g =
     g\<lparr>gs_knownNodes := AList.delete nodeID (gs_knownNodes g),
       gs_endpointStates := AList.delete nodeID (gs_endpointStates g)\<rparr>"

definition IncrementHeartbeat :: "time \<Rightarrow> Gossip \<Rightarrow> Gossip" where
  "IncrementHeartbeat now g =
     g\<lparr>gs_localState := (gs_localState g)
         \<lparr>es_Heartbeat := wrap64 (es_Heartbeat (gs_localState g) + 1), es_LastUpdate := now\<rparr>\<rparr>"

definition UpdateApplicationState :: "time \<Rightarrow> string \<Rightarrow> AppValue \<Rightarrow> Gossip \<Rightarrow> Gossip" where
  "UpdateApplicationState now key val g =
     g\<lparr>gs_localState := (gs_localState g)
         \<lparr>es_ApplicationState := AList.update key val (es_ApplicationState (gs_localState g)),
          es_LastUpdate := now\<rparr>\<rparr>"

definition GetSSTableVersion :: "Gossip \<Rightarrow> string \<Rightarrow> int64 \<times> bool" where
  "GetSSTableVersion g nodeID =
     (case map_of (gs_endpointStates g) nodeID of
        None \<Rightarrow> (0, False)
      | Some st \<Rightarrow>
          (case map_of (es_ApplicationState st) ''sstable_version'' of
             Some (AppInt64 version) \<Rightarrow> (version, True)
           | _ \<Rightarrow> (0, False)))"

definition SetSSTableVersion :: "time \<Rightarrow> int64 \<Rightarrow> Gossip \<Rightarrow> Gossip" where
  "SetSSTableVersion now version g = UpdateApplicationState now ''sstable_version'' (AppInt64 version) g"

definition GetNodeState :: "Gossip \<Rightarrow> string \<Rightarrow> NodeState \<times> bool" where
  "GetNodeState g nodeID =
     (if nodeID = LocalNodeID (gs_config g) then (NodeStateAlive, True)
      else case map_of (gs_endpointStates g) nodeID of
             None \<Rightarrow> (NodeStateUnknown, False)
           | Some st \<Rightarrow> (es_State st, True))"

definition GetAliveNodes :: "Gossip \<Rightarrow> string list" where
  "GetAliveNodes g =
     LocalNodeID (gs_config g) #
     map fst (filter (\<lambda>(nodeID, st). es_State st = NodeStateAlive) (gs_endpointStates g))"

section \<open>Transport\<close>

text \<open>
  What \<^verbatim>\<open>TCPTransport\<close> makes of a call: \<^verbatim>\<open>send\<close> dials the node it is given and puts that node
  into the \<^verbatim>\<open>From\<close> field; \<^verbatim>\<open>handleConn\<close> at the other end copies the field. \<open>addressed\<close> is any
  transport, with the field filled by \<open>origin\<close> from the sender's own node and the destination.
\<close>

definition addressed :: "(Node \<Rightarrow> Node \<Rightarrow> Node) \<Rightarrow> Node \<Rightarrow> call \<Rightarrow> (string \<times> int) \<times> GossipMessage" where
  "addressed origin self c =
     (case c of
        SendSyn node syn \<Rightarrow> ((nd_Address node, nd_Port node),
          \<lparr>msg_From = origin self node, msg_Syn = Some syn, msg_Ack = None, msg_Ack2 = None\<rparr>)
      | SendAck node ack \<Rightarrow> ((nd_Address node, nd_Port node),
          \<lparr>msg_From = origin self node, msg_Syn = None, msg_Ack = Some ack, msg_Ack2 = None\<rparr>)
      | SendAck2 node ack2 \<Rightarrow> ((nd_Address node, nd_Port node),
          \<lparr>msg_From = origin self node, msg_Syn = None, msg_Ack = None, msg_Ack2 = Some ack2\<rparr>))"

definition tcp_origin :: "Node \<Rightarrow> Node \<Rightarrow> Node" where
  "tcp_origin self node = node"

section \<open>A network of nodes\<close>

text \<open>
  Nodes are found by address and port. A message that was sent may be received any number of
  times, in any order, or never. A restart keeps the configuration and loses the rest.
\<close>

record Net =
  nw_nodes :: "string \<times> int \<Rightarrow> Gossip"
  nw_sent :: "((string \<times> int) \<times> GossipMessage) set"

definition self_node :: "Gossip \<Rightarrow> Node" where
  "self_node g = \<lparr>nd_NodeID = LocalNodeID (gs_config g), nd_Address = LocalAddress (gs_config g),
                  nd_Port = LocalPort (gs_config g)\<rparr>"

definition net_start :: "time \<Rightarrow> (string \<times> int \<Rightarrow> GossipConfig) \<Rightarrow> Net" where
  "net_start now config = \<lparr>nw_nodes = (\<lambda>a. gs_Start (NewGossip now (config a))), nw_sent = {}\<rparr>"

inductive local_step :: "Gossip \<Rightarrow> Gossip \<Rightarrow> bool" where
  "local_step g (checkDeadNodes now g)"
| "local_step g (IncrementHeartbeat now g)"
| "local_step g (UpdateApplicationState now key val g)"
| "local_step g (gs_AddNode node g)"
| "local_step g (gs_RemoveNode nodeID g)"
| "local_step g (gs_Start (NewGossip now (gs_config g)))"

inductive net_step :: "(Node \<Rightarrow> Node \<Rightarrow> Node) \<Rightarrow> Net \<Rightarrow> Net \<Rightarrow> bool" for origin where
  round: "c \<in> set (doGossip (nw_nodes n a)) \<Longrightarrow>
    net_step origin n (n\<lparr>nw_sent := insert (addressed origin (self_node (nw_nodes n a)) c) (nw_sent n)\<rparr>)"
| receive: "(a, m) \<in> nw_sent n \<Longrightarrow> handleMessage now m (nw_nodes n a) = (g, calls) \<Longrightarrow>
    net_step origin n \<lparr>nw_nodes = (nw_nodes n)(a := g),
                      nw_sent = nw_sent n \<union> addressed origin (self_node g) ` set calls\<rparr>"
| inside: "local_step (nw_nodes n a) g \<Longrightarrow> net_step origin n (n\<lparr>nw_nodes := (nw_nodes n)(a := g)\<rparr>)"

inductive_cases local_step_elim: "local_step g g'"
inductive_cases net_step_elim: "net_step origin n n'"

abbreviation learned :: "Gossip \<Rightarrow> string set" where
  "learned g \<equiv> keys_of (gs_endpointStates g)"

lemma update_endpoint_basic [simp]:
  "learned (updateEndpointState now k st g) = insert k (learned g)"
  "gs_config (updateEndpointState now k st g) = gs_config g"
  "gs_localState (updateEndpointState now k st g) = gs_localState g"
  by (simp_all add: updateEndpointState_def Let_def)

lemma update_all_basic [simp]:
  "learned (update_all now states g) = keys_of states \<union> learned g"
  "gs_config (update_all now states g) = gs_config g"
  "gs_localState (update_all now states g) = gs_localState g"
  unfolding update_all_def by (induction states arbitrary: g) auto

lemma syn_loop_keys: "keys_of (syn_loop g ds req) \<subseteq> keys_of req \<union> learned g"
proof (induction ds arbitrary: req)
  case Nil
  then show ?case by simp
next
  case (Cons d ds)
  show ?case
  proof (cases "map_of (gs_endpointStates g) (dg_NodeID d)")
    case None
    with Cons show ?thesis by simp
  next
    case (Some st)
    with Cons [of req] Cons [of "AList.update (dg_NodeID d) st req"] map_of_keys(2) [OF Some]
    show ?thesis by auto
  qed
qed

lemma ack2_loop_keys: "keys_of (ack2_loop g ds req) \<subseteq> keys_of req \<union> learned g"
proof (induction ds arbitrary: req)
  case Nil
  then show ?case by simp
next
  case (Cons d ds)
  show ?case
  proof (cases "map_of (gs_endpointStates g) (dg_NodeID d)")
    case None
    with Cons show ?thesis by simp
  next
    case (Some st)
    with Cons [of req] Cons [of "AList.update (dg_NodeID d) st req"] map_of_keys(2) [OF Some]
    show ?thesis by auto
  qed
qed

lemma local_loop_keys: "keys_of (local_loop loc ds req) \<subseteq> insert (es_NodeID loc) (keys_of req)"
  by (induction ds arbitrary: req) auto

section \<open>The transport of the server\<close>

text \<open>With the server's transport, an acknowledgement goes to the node that sends it.\<close>

definition own_only :: "string \<Rightarrow> Gossip \<Rightarrow> bool" where
  "own_only i g \<longleftrightarrow> LocalNodeID (gs_config g) = i \<and> es_NodeID (gs_localState g) = i \<and> learned g \<subseteq> {i}"

definition message_own :: "(string \<times> int \<Rightarrow> string) \<Rightarrow> (string \<times> int) \<times> GossipMessage \<Rightarrow> bool" where
  "message_own ids am \<longleftrightarrow>
     (case am of (a, m) \<Rightarrow>
        (nd_Address (msg_From m), nd_Port (msg_From m)) = a \<and>
        (case msg_Ack m of None \<Rightarrow> True | Some ack \<Rightarrow> keys_of (ack_States ack) \<subseteq> {ids a}) \<and>
        (case msg_Ack2 m of None \<Rightarrow> True | Some ack2 \<Rightarrow> keys_of ack2 \<subseteq> {ids a}))"

definition isolated :: "(string \<times> int \<Rightarrow> string) \<Rightarrow> Net \<Rightarrow> bool" where
  "isolated ids n \<longleftrightarrow> (\<forall>a. own_only (ids a) (nw_nodes n a)) \<and> (\<forall>am \<in> nw_sent n. message_own ids am)"

lemma own_only_local:
  assumes "own_only i g" and "local_step g g'"
  shows "own_only i g'"
  using assms(2,1)
  by cases (auto simp: own_only_def checkDeadNodes_def IncrementHeartbeat_def UpdateApplicationState_def
      gs_AddNode_def gs_RemoveNode_def gs_Start_def NewGossip_def Let_def)

lemma own_only_handle:
  assumes g: "own_only (ids a) g" and m: "message_own ids (a, m)" and h: "handleMessage now m g = (g', calls)"
  shows "own_only (ids a) g' \<and> (\<forall>c \<in> set calls. message_own ids (addressed tcp_origin self c))"
proof -
  let ?to = "(nd_Address (msg_From m), nd_Port (msg_From m))"
  from m have to: "?to = a" by (simp add: message_own_def)
  consider (syn) syn where "msg_Syn m = Some syn"
    | (ack) ack where "msg_Syn m = None" "msg_Ack m = Some ack"
    | (ack2) ack2 where "msg_Syn m = None" "msg_Ack m = None" "msg_Ack2 m = Some ack2"
    | (none) "msg_Syn m = None" "msg_Ack m = None" "msg_Ack2 m = None" by fastforce
  then show ?thesis
  proof cases
    case syn
    have "keys_of (local_loop (gs_localState g) syn (syn_loop g syn [])) \<subseteq> {ids a}"
      using local_loop_keys [of "gs_localState g" syn "syn_loop g syn []"] syn_loop_keys [of g syn "[]"] g
      by (auto simp: own_only_def)
    with syn h g to show ?thesis
      by (auto simp: handleMessage_def handleSyn_def message_own_def addressed_def tcp_origin_def Let_def)
  next
    case ack
    with m have "keys_of (ack_States ack) \<subseteq> {ids a}" by (simp add: message_own_def)
    with g have g': "own_only (ids a) (update_all now (ack_States ack) g)"
      by (simp add: own_only_def)
    then have "keys_of (ack2_loop (update_all now (ack_States ack) g) (ack_Digests ack) []) \<subseteq> {ids a}"
      using ack2_loop_keys [of "update_all now (ack_States ack) g" "ack_Digests ack" "[]"]
      by (auto simp: own_only_def)
    with ack h g' to show ?thesis
      by (auto simp: handleMessage_def handleAck_def message_own_def addressed_def tcp_origin_def Let_def)
  next
    case ack2
    with m have "keys_of ack2 \<subseteq> {ids a}" by (simp add: message_own_def)
    with ack2 h g show ?thesis
      by (auto simp: handleMessage_def handleAck2_def own_only_def)
  next
    case none
    with h g show ?thesis by (auto simp: handleMessage_def)
  qed
qed

lemma isolated_step:
  assumes "isolated ids n" and "net_step tcp_origin n n'"
  shows "isolated ids n'"
  using assms(2)
proof cases
  case (round c a)
  then have "message_own ids (addressed tcp_origin (self_node (nw_nodes n a)) c)"
    by (auto simp: doGossip_def gossipWithPeer_def addressed_def message_own_def tcp_origin_def)
  with assms(1) round show ?thesis by (simp add: isolated_def)
next
  case (receive a m now g calls)
  from assms(1) receive(2) have "own_only (ids a) (nw_nodes n a)" "message_own ids (a, m)"
    unfolding isolated_def by blast+
  from own_only_handle [OF this receive(3), of "self_node g"] assms(1) show ?thesis
    by (simp add: isolated_def receive(1) ball_Un)
next
  case (inside a g)
  from assms(1) own_only_local [OF _ inside(2)] have "own_only (ids a) g"
    unfolding isolated_def by blast
  with assms(1) show ?thesis by (simp add: isolated_def inside(1))
qed

lemma isolated_start: "isolated (\<lambda>a. LocalNodeID (config a)) (net_start now config)"
  by (simp add: isolated_def net_start_def own_only_def gs_Start_def NewGossip_def Let_def)

lemma isolated_reach:
  "(net_step tcp_origin)\<^sup>*\<^sup>* n n' \<Longrightarrow> isolated ids n \<Longrightarrow> isolated ids n'"
  by (induction rule: rtranclp_induct) (auto intro: isolated_step)

section \<open>Versions\<close>

text \<open>The version a node holds for another one; a node it has not heard of counts as \<open>(0, 0)\<close>.\<close>

definition held :: "Gossip \<Rightarrow> string \<Rightarrow> int64 \<times> int64" where
  "held g k = (case map_of (gs_endpointStates g) k of None \<Rightarrow> (0, 0) | Some st \<Rightarrow> es_version st)"

definition later :: "int64 \<times> int64 \<Rightarrow> int64 \<times> int64 \<Rightarrow> int64 \<times> int64" where
  "later a b = (if newer a b then a else b)"

lemma held_update:
  "held (updateEndpointState now k st g) j = (if j = k then later (es_version st) (held g k) else held g j)"
  by (auto simp: held_def updateEndpointState_def later_def Let_def split: option.splits)

lemma held_update_all:
  "held (update_all now states g) j =
     fold (\<lambda>(k, st) v. if k = j then later (es_version st) v else v) states (held g j)"
proof -
  have "held (fold (\<lambda>(k, st) g. updateEndpointState now k st g) states g) j =
      fold (\<lambda>(k, st) v. if k = j then later (es_version st) v else v) states (held g j)"
    by (induction states arbitrary: g) (auto simp: held_update)
  then show ?thesis by (simp add: update_all_def)
qed

definition versions_for :: "string \<Rightarrow> (string \<times> EndpointState) list \<Rightarrow> (int64 \<times> int64) list" where
  "versions_for j states = map (\<lambda>(k, st). es_version st) (filter (\<lambda>(k, st). k = j) states)"

text \<open>What a node holds after any batches of states is the latest of what it held and was sent.\<close>

fun receive_all :: "(time \<times> (string \<times> EndpointState) list) list \<Rightarrow> Gossip \<Rightarrow> Gossip" where
  "receive_all [] g = g"
| "receive_all ((now, states) # batches) g = receive_all batches (update_all now states g)"

lemma fold_later:
  "fold (\<lambda>(k, st) v. if k = j then later (es_version st) v else v) states v = fold later (versions_for j states) v"
  by (induction states arbitrary: v) (auto simp: versions_for_def)

lemma held_receive_all:
  "held (receive_all batches g) j = fold later (versions_for j (concat (map snd batches))) (held g j)"
proof (induction batches arbitrary: g)
  case Nil
  then show ?case by (simp add: versions_for_def)
next
  case (Cons b batches)
  then show ?case by (cases b) (simp add: held_update_all fold_later versions_for_def)
qed

interpretation later_fold: comp_fun_idem later
  by standard (auto simp: fun_eq_iff later_def newer_def prod_eq_iff)

lemma fold_later_set: "set xs = set ys \<Longrightarrow> fold later xs v = fold later ys v"
  by (simp flip: later_fold.fold_set_fold)

lemma fold_later_latest:
  "fold later vs v \<in> insert v (set vs) \<and> (\<forall>u \<in> insert v (set vs). \<not> newer u (fold later vs v))"
proof (induction vs arbitrary: v)
  case Nil
  then show ?case by (simp add: newer_def)
next
  case (Cons w vs)
  have "newer u v' \<Longrightarrow> newer v' x \<or> v' = x \<Longrightarrow> newer u x" for u v' x
    by (auto simp: newer_def)
  moreover have "newer v w \<or> v = w \<or> newer w v" by (auto simp: newer_def prod_eq_iff)
  ultimately show ?case using Cons.IH [of "later w v"]
    by (auto simp: later_def newer_def split: if_splits)
qed

lemma set_versions_for: "set (versions_for j states) = {es_version st | st. (j, st) \<in> set states}"
  by (force simp: versions_for_def)

section \<open>Liveness of an entry\<close>

lemma distinct_update_all:
  "distinct (map fst (gs_endpointStates g)) \<Longrightarrow> distinct (map fst (gs_endpointStates (update_all now states g)))"
  unfolding update_all_def
  by (induction states arbitrary: g) (auto simp: updateEndpointState_def Let_def)

lemma update_entry:
  "map_of (gs_endpointStates (updateEndpointState now k st g)) j =
     (if j = k then
        (let e = (case map_of (gs_endpointStates g) k of
                    None \<Rightarrow> \<lparr>es_NodeID = k, es_State = NodeStateAlive, es_Heartbeat = 0,
                             es_Generation = 0, es_LastUpdate = time_zero, es_ApplicationState = []\<rparr>
                  | Some e \<Rightarrow> e)
         in Some (if newer (es_version st) (es_version e)
                  then e\<lparr>es_Generation := es_Generation st, es_Heartbeat := es_Heartbeat st,
                         es_State := NodeStateAlive, es_LastUpdate := now,
                         es_ApplicationState := fold (\<lambda>(k, v) m. AList.update k v m)
                           (es_ApplicationState st) (es_ApplicationState e)\<rparr>
                  else e))
      else map_of (gs_endpointStates g) j)"
  by (simp add: updateEndpointState_def Let_def)

text \<open>One state that is newer makes the entry alive at its version.\<close>

lemma update_all_newer:
  assumes "distinct (map fst states)" and "map_of states j = Some st" and "newer (es_version st) (held g j)"
  shows "\<exists>e. map_of (gs_endpointStates (update_all now states g)) j = Some e \<and> es_State e = NodeStateAlive \<and>
           es_version e = es_version st"
proof -
  have keep: "map_of (gs_endpointStates (update_all now ss h)) j = map_of (gs_endpointStates h) j"
    if "j \<notin> keys_of ss" for ss h
    using that unfolding update_all_def by (induction ss arbitrary: h) (auto simp: update_entry)
  show ?thesis
    using assms
  proof (induction states arbitrary: g)
    case Nil
    then show ?case by simp
  next
    case (Cons p states)
    obtain k s where p: "p = (k, s)" by force
    let ?g1 = "updateEndpointState now k s g"
    have step: "update_all now (p # states) g = update_all now states ?g1"
      by (simp add: update_all_def p)
    show ?case
    proof (cases "k = j")
      case True
      with Cons.prems p have "s = st" "j \<notin> keys_of states" by (auto simp: keys_of_def)
      with keep [of states ?g1] Cons.prems(3) True show ?thesis
        by (auto simp: step update_entry held_def Let_def split: option.splits)
    next
      case False
      with Cons.prems p Cons.IH [of ?g1] show ?thesis unfolding step by (simp add: held_update)
    qed
  qed
qed

text \<open>A dead entry stays dead while nothing newer arrives.\<close>

definition dead_at :: "string \<Rightarrow> int64 \<times> int64 \<Rightarrow> Gossip \<Rightarrow> bool" where
  "dead_at j v g \<longleftrightarrow> distinct (map fst (gs_endpointStates g)) \<and>
     (\<exists>e. map_of (gs_endpointStates g) j = Some e \<and> es_State e = NodeStateDead \<and> es_version e = v)"

datatype event = Batch time "(string \<times> EndpointState) list" | Check time

fun run_events :: "event list \<Rightarrow> Gossip \<Rightarrow> Gossip" where
  "run_events [] g = g"
| "run_events (Batch now states # es) g = run_events es (update_all now states g)"
| "run_events (Check now # es) g = run_events es (checkDeadNodes now g)"

fun not_newer :: "string \<Rightarrow> int64 \<times> int64 \<Rightarrow> event \<Rightarrow> bool" where
  "not_newer j v (Batch now states) = list_all (\<lambda>(k, st). k = j \<longrightarrow> \<not> newer (es_version st) v) states"
| "not_newer j v (Check now) = True"

lemma dead_update_all:
  "dead_at j v g \<Longrightarrow> list_all (\<lambda>(k, st). k = j \<longrightarrow> \<not> newer (es_version st) v) states \<Longrightarrow>
     dead_at j v (update_all now states g)"
proof (induction states arbitrary: g)
  case Nil
  then show ?case by (simp add: update_all_def)
next
  case (Cons p states)
  obtain k s where p: "p = (k, s)" by force
  have "dead_at j v (updateEndpointState now k s g)"
    using Cons.prems distinct_update_all [of g now "[p]"]
    by (auto simp: dead_at_def update_entry p update_all_def Let_def)
  with Cons.IH [of "updateEndpointState now k s g"] Cons.prems(2) show ?case
    by (simp add: update_all_def p)
qed

definition checked :: "time \<Rightarrow> int \<Rightarrow> EndpointState \<Rightarrow> EndpointState" where
  "checked now timeout st =
     (if now - es_LastUpdate st > timeout then (if es_State st = NodeStateAlive then st\<lparr>es_State := NodeStateDead\<rparr> else st)
      else st)"

lemma check_entries:
  "gs_endpointStates (checkDeadNodes now g) =
     map (\<lambda>(k, st). (k, checked now (FailureTimeout (gs_config g)) st)) (gs_endpointStates g)"
  by (simp add: checkDeadNodes_def checked_def)

lemma map_of_map_values: "map_of (map (\<lambda>(k, v). (k, f v)) m) j = map_option f (map_of m j)"
  by (induction m) auto

lemma map_fst_values: "map fst (map (\<lambda>(k, v). (k, f v)) m) = map fst m"
  by (induction m) auto

lemma dead_check:
  assumes "dead_at j v g"
  shows "dead_at j v (checkDeadNodes now g)"
proof -
  from assms obtain e where "map_of (gs_endpointStates g) j = Some e" "es_State e = NodeStateDead" "es_version e = v"
    by (auto simp: dead_at_def)
  then have "map_of (gs_endpointStates (checkDeadNodes now g)) j = Some e"
    by (simp add: check_entries map_of_map_values checked_def)
  with assms \<open>es_State e = NodeStateDead\<close> \<open>es_version e = v\<close> show ?thesis
    by (simp add: dead_at_def check_entries map_fst_values del: map_map)
qed

lemma dead_run: "dead_at j v g \<Longrightarrow> list_all (not_newer j v) es \<Longrightarrow> dead_at j v (run_events es g)"
proof (induction es arbitrary: g)
  case Nil
  then show ?case by simp
next
  case (Cons e es)
  then show ?case
    by (cases e) (auto intro: dead_update_all dead_check)
qed

lemma dead_not_alive:
  assumes "dead_at j v g" and "j \<noteq> LocalNodeID (gs_config g)"
  shows "GetNodeState g j = (NodeStateDead, True) \<and> j \<notin> set (GetAliveNodes g)"
  using assms
  by (auto simp: dead_at_def GetNodeState_def GetAliveNodes_def dest!: map_of_is_SomeI [rotated])

lemma run_config [simp]: "gs_config (run_events es g) = gs_config g"
  by (induction es g rule: run_events.induct) (simp_all add: checkDeadNodes_def)

section \<open>Sample nodes\<close>

definition gossip_sample :: "string \<times> int \<Rightarrow> GossipConfig" where
  "gossip_sample a = gossip_DefaultConfig (fst a) (fst a) (snd a) \<lparr>SeedNodes := [''b:1'']\<rparr>"

definition gossip_sample_state :: "int64 \<Rightarrow> EndpointState" where
  "gossip_sample_state gen = \<lparr>es_NodeID = ''b'', es_State = NodeStateAlive, es_Heartbeat = 0, es_Generation = gen,
                       es_LastUpdate = 5, es_ApplicationState = []\<rparr>"

lemma sample_split: "SplitHostPort ''b:1'' = Some (''b'', ''1'')"
  by (simp add: SplitHostPort_def last_colon_def)

lemma sample_atoi: "Atoi ''1'' = Some 1"
  by (simp add: Atoi_def undecimal_def is_digit_def)

lemma sample_seed: "seed_node (gossip_sample (''a'', 1)) ''b:1'' = Some (''b'', \<lparr>nd_NodeID = ''b'', nd_Address = ''b'', nd_Port = 1\<rparr>)"
  by (simp add: seed_node_def sample_split sample_atoi gossip_sample_def gossip_DefaultConfig_def)

lemma sample_round:
  "\<exists>digest. SendSyn \<lparr>nd_NodeID = ''b'', nd_Address = ''b'', nd_Port = 1\<rparr> digest
     \<in> set (doGossip (nw_nodes (net_start 5 gossip_sample) (''a'', 1)))"
proof -
  have "SeedNodes (gossip_sample (''a'', 1)) = [''b:1'']" "Fanout (gossip_sample (''a'', 1)) = 3"
    "LocalNodeID (gossip_sample (''a'', 1)) = ''a''"
    by (simp_all add: gossip_sample_def gossip_DefaultConfig_def)
  then show ?thesis
    by (auto simp: net_start_def doGossip_def gossipWithPeer_def selectRandomPeers_def gs_Start_def NewGossip_def
        sample_seed Let_def)
qed

section \<open>Properties\<close>

text \<open>With the transport of the server, gossip never spreads anything. A message's sender field names
  its recipient, so acknowledgements go back to the node that wrote them: in every reachable state of
  every network, whatever messages are lost, repeated or reordered, each node believes only itself
  alive and every other node is unknown to it.\<close>

theorem gossip_isolated:
  assumes "(net_step tcp_origin)\<^sup>*\<^sup>* (net_start now config) n"
  shows "set (GetAliveNodes (nw_nodes n a)) = {LocalNodeID (config a)} \<and>
         (j = LocalNodeID (config a) \<or> GetNodeState (nw_nodes n a) j = (NodeStateUnknown, False))"
proof -
  have "own_only (LocalNodeID (config a)) (nw_nodes n a)"
    using isolated_reach [OF assms isolated_start] unfolding isolated_def by blast
  then have id: "LocalNodeID (gs_config (nw_nodes n a)) = LocalNodeID (config a)"
    and keys: "learned (nw_nodes n a) \<subseteq> {LocalNodeID (config a)}" by (simp_all add: own_only_def)
  from keys have "map_of (gs_endpointStates (nw_nodes n a)) j = None" if "j \<noteq> LocalNodeID (config a)"
    using that by (auto simp: map_of_keys)
  with id keys show ?thesis
    by (auto simp: GetAliveNodes_def GetNodeState_def keys_of_def)
qed

lemma gossip_isolated_witness:
  "\<exists>n. (net_step tcp_origin)\<^sup>*\<^sup>* (net_start 5 gossip_sample) n \<and> nw_sent n \<noteq> {} \<and>
     set (GetAliveNodes (nw_nodes n (''b'', 1))) = {''b''}"
proof -
  let ?start = "net_start 5 gossip_sample"
  obtain c where c: "c \<in> set (doGossip (nw_nodes ?start (''a'', 1)))" using sample_round by blast
  let ?n = "?start\<lparr>nw_sent := insert (addressed tcp_origin (self_node (nw_nodes ?start (''a'', 1))) c) (nw_sent ?start)\<rparr>"
  have "(net_step tcp_origin)\<^sup>*\<^sup>* ?start ?n" by (rule r_into_rtranclp) (rule net_step.round [OF c])
  with gossip_isolated [OF this, of "(''b'', 1)"] show ?thesis
    by (intro exI [of _ ?n]) (simp add: gossip_sample_def gossip_DefaultConfig_def)
qed

text \<open>The protocol itself works when the sender field names the sender: after a digest, its
  acknowledgement and the update it causes, the node that asked holds the other node's current version
  and takes it to be alive.\<close>

theorem gossip_exchange:
  assumes "es_NodeID (gs_localState b) = j" "j \<noteq> es_NodeID (gs_localState a)"
    and "newer (es_version (gs_localState b)) (held a j)"
    and "handleSyn from_a (buildDigest a) b = SendAck to_a ack" "handleAck now from_b ack a = (a', out)"
  shows "to_a = from_a \<and> held a' j = es_version (gs_localState b) \<and> j \<in> set (GetAliveNodes a') \<and>
         GetNodeState a' j = (NodeStateAlive, True)"
proof -
  let ?loc = "gs_localState b"
  let ?req = "local_loop ?loc (buildDigest a) (syn_loop b (buildDigest a) [])"
  have distinct_syn: "distinct (map fst r) \<Longrightarrow> distinct (map fst (syn_loop b ds r))" for ds r
    by (induction ds arbitrary: r) (auto split: option.splits)
  have distinct_loc: "distinct (map fst r) \<Longrightarrow> distinct (map fst (local_loop ?loc ds r))" for ds r
    by (induction ds arbitrary: r) auto
  have no_older: "\<forall>d \<in> set ds. dg_NodeID d \<noteq> j \<Longrightarrow> map_of (local_loop ?loc ds r) j = Some ?loc" for ds r
    using assms(1) by (induction ds) auto
  have first: "map_of (local_loop ?loc (map (\<lambda>(k, st). state_digest k st) m) r) j = Some ?loc"
    if "newer (es_version ?loc) (case map_of m j of None \<Rightarrow> (0, 0) | Some st \<Rightarrow> es_version st)" for m r
    using that assms(1) by (induction m) (auto simp: state_digest_def split: if_splits)
  have "map_of ?req j = Some ?loc"
    using first [of "gs_endpointStates a"] assms(1-3) by (simp add: buildDigest_def held_def state_digest_def)
  moreover have "distinct (map fst ?req)"
    by (intro distinct_loc distinct_syn) simp
  moreover have ack: "ack_States ack = ?req" "to_a = from_a"
    using assms(4) by (auto simp: handleSyn_def Let_def)
  moreover have a': "a' = update_all now (ack_States ack) a"
    using assms(5) by (simp add: handleAck_def Let_def)
  ultimately obtain e where "map_of (gs_endpointStates a') j = Some e" "es_State e = NodeStateAlive"
      "es_version e = es_version ?loc"
    using update_all_newer [of ?req j ?loc a now] assms(3) by auto
  note e = this
  from map_of_SomeD [OF e(1)] e(2) have "j \<in> set (GetAliveNodes a')"
    by (auto simp: GetAliveNodes_def intro!: rev_image_eqI [of "(j, e)"])
  moreover from e have "GetNodeState a' j = (NodeStateAlive, True)"
    by (simp add: GetNodeState_def)
  moreover from e have "held a' j = es_version ?loc" by (simp add: held_def)
  ultimately show ?thesis using ack(2) by simp
qed

lemma gossip_exchange_witness:
  "\<forall>n m. \<exists>to_a ack a' out. handleSyn n (buildDigest (NewGossip 5 (gossip_sample (''a'', 1)))) (NewGossip 7 (gossip_sample (''b'', 1)))
       = SendAck to_a ack \<and> handleAck 9 m ack (NewGossip 5 (gossip_sample (''a'', 1))) = (a', out) \<and>
     GetNodeState a' ''b'' = (NodeStateAlive, True)"
proof (intro allI)
  fix n m
  let ?a = "NewGossip 5 (gossip_sample (''a'', 1))" and ?b = "NewGossip 7 (gossip_sample (''b'', 1))"
  obtain to_a ack where s: "handleSyn n (buildDigest ?a) ?b = SendAck to_a ack"
    by (simp add: handleSyn_def Let_def)
  obtain a' out where h: "handleAck 9 m ack ?a = (a', out)" by force
  have "es_NodeID (gs_localState ?b) = ''b''" "''b'' \<noteq> es_NodeID (gs_localState ?a)"
    "newer (es_version (gs_localState ?b)) (held ?a ''b'')"
    by (simp_all add: NewGossip_def gossip_sample_def gossip_DefaultConfig_def held_def newer_def UnixNano_def Let_def)
  from gossip_exchange [OF this s h] s h
  show "\<exists>to_a ack a' out. handleSyn n (buildDigest ?a) ?b = SendAck to_a ack \<and> handleAck 9 m ack ?a = (a', out) \<and>
     GetNodeState a' ''b'' = (NodeStateAlive, True)" by blast
qed

text \<open>C16. Views converge to the latest versions. What a node holds of another after any batches of
  states is a version it held before (\<open>(0, 0)\<close> of a node it had not heard of) or was sent for it, and none
  of those is newer. So two nodes that hold the same versions and then receive the same states hold the
  same versions again, in whatever order, batches and repetitions they receive them.\<close>

theorem versions_converge:
  assumes "\<forall>j. held g j = held h j"
    and "set (concat (map snd batches)) = set (concat (map snd batches'))"
  shows "let known = insert (held g j) {es_version st | st. (j, st) \<in> set (concat (map snd batches))};
             v = held (receive_all batches g) j
         in v \<in> known \<and> (\<forall>u \<in> known. \<not> newer u v) \<and> held (receive_all batches' h) j = v"
proof -
  let ?vs = "versions_for j (concat (map snd batches))"
  have "set ?vs = set (versions_for j (concat (map snd batches')))"
    by (simp only: set_versions_for assms(2))
  from fold_later_set [OF this] have "held (receive_all batches' h) j = fold later ?vs (held g j)"
    using assms(1) by (simp add: held_receive_all)
  with fold_later_latest [of ?vs "held g j"] show ?thesis
    by (simp add: held_receive_all Let_def set_versions_for del: set_concat insert_iff)
qed

lemma versions_converge_witness:
  "let known = {(0, 0), es_version (gossip_sample_state 3), es_version (gossip_sample_state 4)};
       v = held (receive_all [(1, [(''b'', gossip_sample_state 3), (''b'', gossip_sample_state 4)])] (NewGossip 5 (gossip_sample (''a'', 1)))) ''b''
   in (\<forall>u \<in> known. \<not> newer u v) \<and>
      held (receive_all [(1, [(''b'', gossip_sample_state 4)]), (2, [(''b'', gossip_sample_state 3), (''b'', gossip_sample_state 4)])]
              (NewGossip 6 (gossip_sample (''a'', 1)))) ''b'' = v"
  using versions_converge [of "NewGossip 5 (gossip_sample (''a'', 1))" "NewGossip 6 (gossip_sample (''a'', 1))"
      "[(1, [(''b'', gossip_sample_state 3), (''b'', gossip_sample_state 4)])]"
      "[(1, [(''b'', gossip_sample_state 4)]), (2, [(''b'', gossip_sample_state 3), (''b'', gossip_sample_state 4)])]" "''b''"]
  by (auto simp: held_def NewGossip_def Let_def)

text \<open>C17. A node that does not raise its heartbeat is lost for good: once its entry is older than the
  failure timeout, a check declares it dead, and no later message or check revives it unless a state
  with a newer version arrives. (The server never calls \<^verbatim>\<open>IncrementHeartbeat\<close>.)\<close>

theorem silent_node_stays_dead:
  assumes "map_of (gs_endpointStates g) j = Some st" "es_State st \<noteq> NodeStateUnknown"
    and "distinct (map fst (gs_endpointStates g))" "j \<noteq> LocalNodeID (gs_config g)"
    and "now - es_LastUpdate st > FailureTimeout (gs_config g)"
    and "list_all (not_newer j (es_version st)) events"
  shows "GetNodeState (run_events events (checkDeadNodes now g)) j = (NodeStateDead, True) \<and>
         j \<notin> set (GetAliveNodes (run_events events (checkDeadNodes now g)))"
proof -
  have "es_State (checked now (FailureTimeout (gs_config g)) st) = NodeStateDead"
    using assms(2,5) by (cases "es_State st") (simp_all add: checked_def)
  moreover have "es_version (checked now (FailureTimeout (gs_config g)) st) = es_version st"
    by (simp add: checked_def)
  moreover have "map_of (gs_endpointStates (checkDeadNodes now g)) j = Some (checked now (FailureTimeout (gs_config g)) st)"
    using assms(1) by (simp add: check_entries map_of_map_values)
  ultimately have "dead_at j (es_version st) (checkDeadNodes now g)"
    using assms(3) by (simp add: dead_at_def check_entries map_fst_values del: map_map)
  from dead_not_alive [OF dead_run [OF this assms(6)]] assms(4) show ?thesis
    by (simp add: checkDeadNodes_def)
qed

lemma silent_node_stays_dead_witness:
  "GetNodeState (run_events [Batch 50000000000 [(''b'', gossip_sample_state 3)], Check 60000000000]
     (checkDeadNodes 40000000000
        ((NewGossip 5 (gossip_sample (''a'', 1)))\<lparr>gs_endpointStates := [(''b'', gossip_sample_state 3)]\<rparr>))) ''b''
     = (NodeStateDead, True)"
proof -
  let ?g = "(NewGossip 5 (gossip_sample (''a'', 1)))\<lparr>gs_endpointStates := [(''b'', gossip_sample_state 3)]\<rparr>"
  have "LocalNodeID (gs_config ?g) = ''a''" "FailureTimeout (gs_config ?g) = 20000000000"
    by (simp_all add: NewGossip_def gossip_sample_def gossip_DefaultConfig_def Let_def)
  then show ?thesis
    using silent_node_stays_dead [of ?g "''b''" "gossip_sample_state 3" 40000000000
        "[Batch 50000000000 [(''b'', gossip_sample_state 3)], Check 60000000000]"]
    by (simp add: gossip_sample_state_def newer_def)
qed

end
