(* ===== verification/Handoff_Store.thy ===== *)
theory Handoff_Store
  imports Alli_Prelude
begin

text \<open>
  The store of hinted writes of \<^verbatim>\<open>src/core/cluster/handoff/store.go\<close>: writes kept for nodes
  that are down, in memory and in a file with one JSON line per hint. Flushes run in goroutines of
  their own, so they are separate steps: the operations leave the file alone and \<open>flush\<close> writes what
  is in memory at the time. Maps are association lists. The clock is monotone; sizes stay below
  \<open>2 ^ 63\<close>.

  A line of the file is the hint it encodes, with the length of its text, or some other text;
  \<open>len\<close> gives the length of a hint's JSON (its value is in base 64, so it is longer than the value).
  Node names and keys are valid UTF-8, as gRPC delivers them. The scanner of \<^verbatim>\<open>load\<close> stops at the first line of
  64 KB or more.
\<close>

section \<open>Store\<close>

record Hint =
  TargetNodeID :: string
  Key :: string
  Value :: bytes
  Timestamp :: time
  hint_CRC32 :: "32 word"

record HintConfig =
  hc_DataDir :: string
  hc_MaxSize :: int
  hc_MaxTTL :: int
  hc_FlushInterval :: int

definition hint_DefaultConfig :: "string \<Rightarrow> HintConfig" where
  "hint_DefaultConfig dataDir =
     \<lparr>hc_DataDir = dataDir, hc_MaxSize = 1 * 1024 * 1024 * 1024, hc_MaxTTL = 24 * 3600 * 1000000000,
      hc_FlushInterval = 1 * 1000000000\<rparr>"

datatype hint_line = HintLine Hint nat | OtherLine nat

record HintStore =
  hs_config :: HintConfig
  hs_hints :: "(string \<times> Hint list) list"
  hs_totalSize :: int
  hs_hintsStored :: int
  hs_hintsReplayed :: int
  hs_hintsExpired :: int
  hs_hintsDropped :: int

definition hints_at :: "(string \<times> Hint list) list \<Rightarrow> string \<Rightarrow> Hint list" where
  "hints_at m nodeID = (case map_of m nodeID of None \<Rightarrow> [] | Some hs \<Rightarrow> hs)"

definition estimateHintSize :: "string \<Rightarrow> bytes \<Rightarrow> int" where
  "estimateHintSize key val = int (0 + length key + length val + 8 + 4 + 16)"

definition calculateCRC :: "Hint \<Rightarrow> 32 word" where
  "calculateCRC hint = crc32 (bytes_of (Key hint) @ Value hint @ put_u64 (UnixNano (Timestamp hint)))"

definition StoreHint :: "time \<Rightarrow> string \<Rightarrow> string \<Rightarrow> bytes \<Rightarrow> HintStore \<Rightarrow> HintStore \<times> unit go" where
  "StoreHint now targetNodeID key val s =
     (let hintSize = estimateHintSize key val
      in if hs_totalSize s + hintSize > hc_MaxSize (hs_config s)
         then (s\<lparr>hs_hintsDropped := hs_hintsDropped s + 1\<rparr>, Inl (Fail ''hint store is full''))
         else
           let hint = \<lparr>TargetNodeID = targetNodeID, Key = key, Value = val, Timestamp = now, hint_CRC32 = 0\<rparr>;
               hint = hint\<lparr>hint_CRC32 := calculateCRC hint\<rparr>
           in (s\<lparr>hs_hints := AList.update targetNodeID (hints_at (hs_hints s) targetNodeID @ [hint]) (hs_hints s),
                 hs_totalSize := hs_totalSize s + hintSize, hs_hintsStored := hs_hintsStored s + 1\<rparr>, Inr ()))"

definition GetHintsForNode :: "HintStore \<Rightarrow> string \<Rightarrow> Hint list" where
  "GetHintsForNode s nodeID =
     (let hints = hints_at (hs_hints s) nodeID in if length hints = 0 then [] else map (\<lambda>h. h) hints)"

fun remove_loop :: "string \<Rightarrow> Hint list \<Rightarrow> Hint list \<times> int \<Rightarrow> Hint list \<times> int" where
  "remove_loop key [] acc = acc"
| "remove_loop key (hint # hints) (newHints, totalSize) =
     (if Key hint \<noteq> key then remove_loop key hints (newHints @ [hint], totalSize)
      else remove_loop key hints (newHints, totalSize - estimateHintSize (Key hint) (Value hint)))"

definition put_hints :: "string \<Rightarrow> Hint list \<Rightarrow> (string \<times> Hint list) list \<Rightarrow> (string \<times> Hint list) list" where
  "put_hints nodeID newHints m =
     (if length newHints = 0 then AList.delete nodeID m else AList.update nodeID newHints m)"

definition RemoveHint :: "string \<Rightarrow> string \<Rightarrow> HintStore \<Rightarrow> HintStore" where
  "RemoveHint nodeID key s =
     (let hints = hints_at (hs_hints s) nodeID
      in if length hints = 0 then s
         else (case remove_loop key hints ([], hs_totalSize s) of (newHints, totalSize) \<Rightarrow>
                 s\<lparr>hs_hints := put_hints nodeID newHints (hs_hints s), hs_totalSize := totalSize\<rparr>))"

definition RemoveHintsForNode :: "string \<Rightarrow> HintStore \<Rightarrow> HintStore" where
  "RemoveHintsForNode nodeID s =
     (let hints = hints_at (hs_hints s) nodeID
      in if length hints = 0 then s
         else s\<lparr>hs_totalSize := fold (\<lambda>h total. total - estimateHintSize (Key h) (Value h)) hints (hs_totalSize s),
                hs_hints := AList.delete nodeID (hs_hints s)\<rparr>)"

record HintStats =
  TotalHints :: int
  TotalSize :: int
  HintsStored :: int
  HintsReplayed :: int
  HintsExpired :: int
  HintsDropped :: int
  NodesWithHints :: int

definition hs_GetStats :: "HintStore \<Rightarrow> HintStats" where
  "hs_GetStats s =
     \<lparr>TotalHints = fold (\<lambda>(k, hints) total. total + int (length hints)) (hs_hints s) 0,
      TotalSize = hs_totalSize s, HintsStored = hs_hintsStored s, HintsReplayed = hs_hintsReplayed s,
      HintsExpired = hs_hintsExpired s, HintsDropped = hs_hintsDropped s,
      NodesWithHints = int (length (hs_hints s))\<rparr>"

fun expire_loop :: "time \<Rightarrow> int \<Rightarrow> Hint list \<Rightarrow> Hint list \<times> int \<times> int \<Rightarrow> Hint list \<times> int \<times> int" where
  "expire_loop now ttl [] acc = acc"
| "expire_loop now ttl (hint # hints) (newHints, totalSize, expired) =
     (if now - Timestamp hint > ttl
      then expire_loop now ttl hints (newHints, totalSize - estimateHintSize (Key hint) (Value hint), expired + 1)
      else expire_loop now ttl hints (newHints @ [hint], totalSize, expired))"

definition cleanup :: "time \<Rightarrow> HintStore \<Rightarrow> HintStore" where
  "cleanup now s =
     fold (\<lambda>(nodeID, hints) s.
        case expire_loop now (hc_MaxTTL (hs_config s)) hints ([], hs_totalSize s, hs_hintsExpired s) of
          (newHints, totalSize, expired) \<Rightarrow>
            s\<lparr>hs_hints := put_hints nodeID newHints (hs_hints s), hs_totalSize := totalSize,
              hs_hintsExpired := expired\<rparr>)
       (hs_hints s) s"

fun load :: "time \<Rightarrow> hint_line list \<Rightarrow> HintStore \<Rightarrow> HintStore" where
  "load now [] s = s"
| "load now (OtherLine n # lines) s = (if n \<ge> 65536 then s else load now lines s)"
| "load now (HintLine hint n # lines) s =
     (if n \<ge> 65536 then s
      else if hint_CRC32 hint \<noteq> calculateCRC hint then load now lines s
      else if now - Timestamp hint > hc_MaxTTL (hs_config s)
      then load now lines (s\<lparr>hs_hintsExpired := hs_hintsExpired s + 1\<rparr>)
      else load now lines
             (s\<lparr>hs_hints := AList.update (TargetNodeID hint)
                  (hints_at (hs_hints s) (TargetNodeID hint) @ [hint]) (hs_hints s),
                hs_totalSize := hs_totalSize s + estimateHintSize (Key hint) (Value hint)\<rparr>))"

definition hs_empty :: "HintConfig \<Rightarrow> HintStore" where
  "hs_empty config =
     \<lparr>hs_config = config, hs_hints = [], hs_totalSize = 0, hs_hintsStored = 0, hs_hintsReplayed = 0,
      hs_hintsExpired = 0, hs_hintsDropped = 0\<rparr>"

definition NewStore :: "time \<Rightarrow> HintConfig \<Rightarrow> hint_line list \<Rightarrow> HintStore go" where
  "NewStore now config file =
     (if hc_DataDir config = [] then Inl (Fail ''data directory is required'')
      else Inr (load now file (hs_empty config)))"

definition flush :: "(Hint \<Rightarrow> nat) \<Rightarrow> HintStore \<Rightarrow> hint_line list" where
  "flush len s = concat (map (\<lambda>(nodeID, hints). map (\<lambda>h. HintLine h (len h)) hints) (hs_hints s))"

definition MarkHintReplayed :: "HintStore \<Rightarrow> HintStore" where
  "MarkHintReplayed s = s\<lparr>hs_hintsReplayed := hs_hintsReplayed s + 1\<rparr>"

definition GetNodesWithHints :: "HintStore \<Rightarrow> string list" where
  "GetNodesWithHints s = map fst (hs_hints s)"

section \<open>Accounting\<close>

definition hint_size :: "Hint \<Rightarrow> int" where
  "hint_size h = estimateHintSize (Key h) (Value h)"

definition all_hints :: "HintStore \<Rightarrow> Hint list" where
  "all_hints s = concat (map snd (hs_hints s))"

definition filed :: "string \<times> Hint list \<Rightarrow> bool" where
  "filed = (\<lambda>(nodeID, hints). hints \<noteq> [] \<and>
     (\<forall>h\<in>set hints. TargetNodeID h = nodeID \<and> hint_CRC32 h = calculateCRC h))"

definition hs_sum :: "(string \<times> Hint list) list \<Rightarrow> int" where
  "hs_sum m = sum_list (map (\<lambda>(nodeID, hints). sum_list (map hint_size hints)) m)"

definition store_ok :: "HintStore \<Rightarrow> bool" where
  "store_ok s \<longleftrightarrow> distinct (map fst (hs_hints s)) \<and> list_all filed (hs_hints s) \<and>
     hs_totalSize s = hs_sum (hs_hints s)"

lemma hint_size_pos: "0 < hint_size h"
  by (simp add: hint_size_def estimateHintSize_def)

lemma hs_sum_simps [simp]:
  "hs_sum [] = 0"
  "hs_sum ((nodeID, hints) # m) = sum_list (map hint_size hints) + hs_sum m"
  by (simp_all add: hs_sum_def)

lemma hints_at_simps [simp]:
  "hints_at [] nodeID = []"
  "hints_at ((n, hints) # m) nodeID = (if n = nodeID then hints else hints_at m nodeID)"
  by (simp_all add: hints_at_def)

lemma hints_at_update [simp]: "hints_at (AList.update n hints m) nodeID = (if n = nodeID then hints else hints_at m nodeID)"
  by (simp add: hints_at_def)

lemma hints_at_delete [simp]: "hints_at (AList.delete n m) nodeID = (if n = nodeID then [] else hints_at m nodeID)"
  by (simp add: hints_at_def)

lemma hints_at_put [simp]: "hints_at (put_hints n hints m) nodeID = (if n = nodeID then hints else hints_at m nodeID)"
  by (simp add: put_hints_def)

lemma hints_at_fresh: "n \<notin> fst ` set m \<Longrightarrow> hints_at m n = []"
  by (induction m) auto

lemma hs_sum_delete:
  "distinct (map fst m) \<Longrightarrow> hs_sum (AList.delete n m) = hs_sum m - sum_list (map hint_size (hints_at m n))"
proof (induction m)
  case (Cons e m)
  obtain k hints where e: "e = (k, hints)" by (cases e)
  show ?case
  proof (cases "k = n")
    case True
    with Cons.prems e have "AList.delete n m = m" by (intro AList.delete_id) auto
    with True e show ?thesis by simp
  qed (use Cons e in simp)
qed simp

lemma hs_sum_update:
  "distinct (map fst m) \<Longrightarrow>
     hs_sum (AList.update n hints m) = hs_sum m - sum_list (map hint_size (hints_at m n)) + sum_list (map hint_size hints)"
proof (induction m)
  case (Cons e m)
  obtain k hs where e: "e = (k, hs)" by (cases e)
  from Cons.prems have "hints_at m k = []" by (intro hints_at_fresh) (simp add: e)
  with Cons e show ?case by simp
qed simp

lemma hs_sum_put:
  "distinct (map fst m) \<Longrightarrow>
     hs_sum (put_hints n hints m) = hs_sum m - sum_list (map hint_size (hints_at m n)) + sum_list (map hint_size hints)"
  by (simp add: put_hints_def hs_sum_delete hs_sum_update)

lemma list_all_update: "list_all P m \<Longrightarrow> P (n, x) \<Longrightarrow> list_all P (AList.update n x m)"
  by (induction m) auto

lemma list_all_delete: "list_all P m \<Longrightarrow> list_all P (AList.delete n m)"
  by (induction m) auto

lemma filed_iff: "filed (n, hints) \<longleftrightarrow>
    hints \<noteq> [] \<and> (\<forall>h\<in>set hints. TargetNodeID h = n \<and> hint_CRC32 h = calculateCRC h)"
  by (simp add: filed_def)

lemma filed_put:
  assumes "list_all filed m" and "\<forall>h\<in>set hints. TargetNodeID h = n \<and> hint_CRC32 h = calculateCRC h"
  shows "list_all filed (put_hints n hints m)"
  using assms by (auto simp: put_hints_def filed_iff intro!: list_all_update list_all_delete)

lemma filed_at: "list_all filed m \<Longrightarrow> h \<in> set (hints_at m n) \<Longrightarrow> TargetNodeID h = n \<and> hint_CRC32 h = calculateCRC h"
  by (induction m) (auto simp: filed_iff split: if_splits)

lemma distinct_put [simp]: "distinct (map fst m) \<Longrightarrow> distinct (map fst (put_hints n hints m))"
  by (simp add: put_hints_def)

lemma remove_loop_filter:
  "remove_loop key hints (acc, n) =
     (acc @ filter (\<lambda>h. Key h \<noteq> key) hints, n - sum_list (map hint_size (filter (\<lambda>h. Key h = key) hints)))"
  by (induction hints arbitrary: acc n) (simp_all add: hint_size_def)

lemma expire_loop_filter:
  "expire_loop now ttl hints (acc, n, expired) =
     (acc @ filter (\<lambda>h. now - Timestamp h \<le> ttl) hints,
      n - sum_list (map hint_size (filter (\<lambda>h. now - Timestamp h > ttl) hints)),
      expired + int (length (filter (\<lambda>h. now - Timestamp h > ttl) hints)))"
  by (induction hints arbitrary: acc n expired) (auto simp: hint_size_def not_less)

lemma sum_filter_split:
  "sum_list (map f (filter P xs)) + sum_list (map f (filter (\<lambda>x. \<not> P x) xs)) = (sum_list (map f xs) :: int)"
  by (induction xs) auto

lemma sum_hint_nonneg: "0 \<le> sum_list (map hint_size hints)"
  by (rule sum_list_nonneg) (auto intro: less_imp_le hint_size_pos)

lemma sum_fold_size: "fold (\<lambda>h x. x - estimateHintSize (Key h) (Value h)) hints x = x - sum_list (map hint_size hints)"
  by (induction hints arbitrary: x) (simp_all add: hint_size_def)

lemma store_okI:
  assumes "store_ok s" and "\<forall>h\<in>set hints. TargetNodeID h = n \<and> hint_CRC32 h = calculateCRC h"
    and "x = hs_totalSize s - sum_list (map hint_size (hints_at (hs_hints s) n)) + sum_list (map hint_size hints)"
    and "hs_hints s' = put_hints n hints (hs_hints s)" and "hs_totalSize s' = x"
  shows "store_ok s'"
  using assms by (simp add: store_ok_def filed_put hs_sum_put)

lemma store_ok_filed: "store_ok s \<Longrightarrow> h \<in> set (hints_at (hs_hints s) n) \<Longrightarrow> TargetNodeID h = n \<and> hint_CRC32 h = calculateCRC h"
  unfolding store_ok_def using filed_at by blast

lemma calculateCRC_own [simp]: "calculateCRC (h\<lparr>hint_CRC32 := c\<rparr>) = calculateCRC h"
  by (simp add: calculateCRC_def)

lemma StoreHint_ok:
  assumes "store_ok s"
  shows "store_ok (fst (StoreHint now n key val s))"
proof (cases "hs_totalSize s + estimateHintSize key val > hc_MaxSize (hs_config s)")
  case True
  with assms show ?thesis by (simp add: StoreHint_def store_ok_def Let_def)
next
  case False
  show ?thesis
    by (rule store_okI [OF assms,
          where n = n and hints = "hints_at (hs_hints s) n @ [let hint = \<lparr>TargetNodeID = n, Key = key, Value = val,
            Timestamp = now, hint_CRC32 = 0\<rparr> in hint\<lparr>hint_CRC32 := calculateCRC hint\<rparr>]"])
       (use False store_ok_filed [OF assms] in
         \<open>auto simp: StoreHint_def Let_def put_hints_def hint_size_def calculateCRC_def\<close>)
qed

lemma RemoveHint_ok:
  assumes "store_ok s"
  shows "store_ok (RemoveHint n key s)"
proof (cases "hints_at (hs_hints s) n = []")
  case True
  with assms show ?thesis by (simp add: RemoveHint_def)
next
  case False
  show ?thesis
    by (rule store_okI [OF assms, where n = n and hints = "filter (\<lambda>h. Key h \<noteq> key) (hints_at (hs_hints s) n)"])
       (use False store_ok_filed [OF assms] sum_filter_split [of hint_size "\<lambda>h. Key h = key" "hints_at (hs_hints s) n"]
         in \<open>auto simp: RemoveHint_def remove_loop_filter Let_def\<close>)
qed

lemma RemoveHintsForNode_ok:
  assumes "store_ok s"
  shows "store_ok (RemoveHintsForNode n s)"
proof (cases "hints_at (hs_hints s) n = []")
  case True
  with assms show ?thesis by (simp add: RemoveHintsForNode_def)
next
  case False
  then show ?thesis
    by (intro store_okI [OF assms, where n = n and hints = "[]"])
       (simp_all add: RemoveHintsForNode_def sum_fold_size put_hints_def)
qed

definition cleanup_node :: "time \<Rightarrow> string \<times> Hint list \<Rightarrow> HintStore \<Rightarrow> HintStore" where
  "cleanup_node now = (\<lambda>(nodeID, hints) s.
     case expire_loop now (hc_MaxTTL (hs_config s)) hints ([], hs_totalSize s, hs_hintsExpired s) of
       (newHints, totalSize, expired) \<Rightarrow>
         s\<lparr>hs_hints := put_hints nodeID newHints (hs_hints s), hs_totalSize := totalSize,
           hs_hintsExpired := expired\<rparr>)"

lemma cleanup_fold: "cleanup now s = fold (cleanup_node now) (hs_hints s) s"
  by (simp add: cleanup_def cleanup_node_def)

lemma cleanup_node_simps:
  "hs_hints (cleanup_node now (n, hints) s) =
     put_hints n (filter (\<lambda>h. now - Timestamp h \<le> hc_MaxTTL (hs_config s)) hints) (hs_hints s)"
  "hs_totalSize (cleanup_node now (n, hints) s) =
     hs_totalSize s - sum_list (map hint_size (filter (\<lambda>h. \<not> now - Timestamp h \<le> hc_MaxTTL (hs_config s)) hints))"
  "hs_config (cleanup_node now (n, hints) s) = hs_config s"
  by (simp_all add: cleanup_node_def expire_loop_filter not_le)

lemma cleanup_node_ok:
  assumes "store_ok s" and "hints = hints_at (hs_hints s) n"
  shows "store_ok (cleanup_node now (n, hints) s)"
  by (rule store_okI [OF assms(1), where n = n
        and hints = "filter (\<lambda>h. now - Timestamp h \<le> hc_MaxTTL (hs_config s)) hints"])
     (use assms store_ok_filed [OF assms(1)]
        sum_filter_split [of hint_size "\<lambda>h. now - Timestamp h \<le> hc_MaxTTL (hs_config s)" hints]
      in \<open>auto simp: cleanup_node_simps\<close>)

lemma cleanup_fold_spec:
  fixes now :: time
  assumes "store_ok s" and "distinct (map fst xs)" and "\<forall>(n, hints)\<in>set xs. hints = hints_at (hs_hints s) n"
  defines "s' \<equiv> fold (cleanup_node now) xs s"
  shows "store_ok s' \<and> hs_config s' = hs_config s \<and> hs_totalSize s' \<le> hs_totalSize s \<and>
    (\<forall>n. hints_at (hs_hints s') n =
      (if n \<in> fst ` set xs then filter (\<lambda>h. now - Timestamp h \<le> hc_MaxTTL (hs_config s)) (hints_at (hs_hints s) n)
       else hints_at (hs_hints s) n))"
  unfolding s'_def using assms(1-3)
proof (induction xs arbitrary: s)
  case (Cons x xs)
  obtain n hints where x: "x = (n, hints)" by (cases x)
  let ?s = "cleanup_node now (n, hints) s"
  from Cons.prems x have hints: "hints = hints_at (hs_hints s) n" by simp
  from Cons.prems(1) hints have ok: "store_ok ?s" by (rule cleanup_node_ok)
  have other: "hints_at (hs_hints ?s) k = (if k = n then
      filter (\<lambda>h. now - Timestamp h \<le> hc_MaxTTL (hs_config s)) (hints_at (hs_hints s) n) else hints_at (hs_hints s) k)" for k
    by (simp add: cleanup_node_simps hints)
  have "hs = hints_at (hs_hints ?s) k" if "(k, hs) \<in> set xs" for k hs
  proof -
    from that Cons.prems(3) have "hs = hints_at (hs_hints s) k" by (auto simp: x)
    moreover from that Cons.prems(2) x have "k \<noteq> n" by force
    ultimately show ?thesis by (simp add: other)
  qed
  then have "\<forall>(k, hs)\<in>set xs. hs = hints_at (hs_hints ?s) k" by blast
  with Cons.IH [OF ok] Cons.prems(2) have IH: "store_ok (fold (cleanup_node now) xs ?s) \<and>
      hs_config (fold (cleanup_node now) xs ?s) = hs_config s \<and>
      hs_totalSize (fold (cleanup_node now) xs ?s) \<le> hs_totalSize ?s \<and>
      (\<forall>k. hints_at (hs_hints (fold (cleanup_node now) xs ?s)) k =
        (if k \<in> fst ` set xs then filter (\<lambda>h. now - Timestamp h \<le> hc_MaxTTL (hs_config s)) (hints_at (hs_hints ?s) k)
         else hints_at (hs_hints ?s) k))"
    by (simp add: cleanup_node_simps)
  have "hs_totalSize ?s \<le> hs_totalSize s" by (simp add: cleanup_node_simps sum_hint_nonneg)
  moreover from Cons.prems(2) x have "n \<notin> fst ` set xs" by simp
  ultimately show ?case using IH by (auto simp: x other)
qed simp

lemma cleanup_spec:
  assumes "store_ok s"
  shows "store_ok (cleanup now s) \<and> hs_config (cleanup now s) = hs_config s \<and>
    hs_totalSize (cleanup now s) \<le> hs_totalSize s \<and>
    (\<forall>n. hints_at (hs_hints (cleanup now s)) n =
      filter (\<lambda>h. now - Timestamp h \<le> hc_MaxTTL (hs_config s)) (hints_at (hs_hints s) n))"
proof -
  from assms have d: "distinct (map fst (hs_hints s))" by (simp add: store_ok_def)
  then have "\<forall>(n, hints)\<in>set (hs_hints s). hints = hints_at (hs_hints s) n"
    by (auto simp: hints_at_def)
  from cleanup_fold_spec [OF assms d this, of now] show ?thesis
    unfolding cleanup_fold by (auto simp: hints_at_fresh)
qed

section \<open>The store as one list of hints\<close>

text \<open>
  What the store promises: it is one list of hints in the order they came. \<open>hs_exec\<close> runs an operation of
  the store, \<open>hint_spec\<close> the operation on the list.
\<close>

datatype hs_op = OpStore time string string bytes | OpRemove string string | OpRemoveNode string
  | OpCleanup time | OpReplayed

fun hs_exec :: "hs_op \<Rightarrow> HintStore \<Rightarrow> HintStore" where
  "hs_exec (OpStore now n key val) s = fst (StoreHint now n key val s)"
| "hs_exec (OpRemove n key) s = RemoveHint n key s"
| "hs_exec (OpRemoveNode n) s = RemoveHintsForNode n s"
| "hs_exec (OpCleanup now) s = cleanup now s"
| "hs_exec OpReplayed s = MarkHintReplayed s"

definition hint_of :: "time \<Rightarrow> string \<Rightarrow> string \<Rightarrow> bytes \<Rightarrow> Hint" where
  "hint_of now n key val =
     (let h = \<lparr>TargetNodeID = n, Key = key, Value = val, Timestamp = now, hint_CRC32 = 0\<rparr>
      in h\<lparr>hint_CRC32 := calculateCRC h\<rparr>)"

lemma hint_of_simps [simp]:
  "TargetNodeID (hint_of now n key val) = n" "Key (hint_of now n key val) = key"
  "Value (hint_of now n key val) = val" "Timestamp (hint_of now n key val) = now"
  "hint_CRC32 (hint_of now n key val) = calculateCRC (hint_of now n key val)"
  by (simp_all add: hint_of_def Let_def calculateCRC_def)

definition total_size :: "Hint list \<Rightarrow> int" where
  "total_size hints = sum_list (map hint_size hints)"

fun hint_spec :: "HintConfig \<Rightarrow> hs_op \<Rightarrow> Hint list \<Rightarrow> Hint list" where
  "hint_spec cfg (OpStore now n key val) l =
     (if total_size l + estimateHintSize key val > hc_MaxSize cfg then l else l @ [hint_of now n key val])"
| "hint_spec cfg (OpRemove n key) l = filter (\<lambda>h. \<not> (TargetNodeID h = n \<and> Key h = key)) l"
| "hint_spec cfg (OpRemoveNode n) l = filter (\<lambda>h. TargetNodeID h \<noteq> n) l"
| "hint_spec cfg (OpCleanup now) l = filter (\<lambda>h. now - Timestamp h \<le> hc_MaxTTL cfg) l"
| "hint_spec cfg OpReplayed l = l"

text \<open>The hints that \<open>load\<close> takes from a file: the lines before the first of 64 KB, intact and not expired.\<close>

fun line_length :: "hint_line \<Rightarrow> nat" where
  "line_length (HintLine h n) = n"
| "line_length (OtherLine n) = n"

fun line_hint :: "hint_line \<Rightarrow> Hint list" where
  "line_hint (HintLine h n) = [h]"
| "line_hint (OtherLine n) = []"

definition readable_hints :: "hint_line list \<Rightarrow> Hint list" where
  "readable_hints ls = concat (map line_hint (takeWhile (\<lambda>l. line_length l < 65536) ls))"

definition loaded :: "HintConfig \<Rightarrow> time \<Rightarrow> hint_line list \<Rightarrow> Hint list" where
  "loaded cfg now ls =
     filter (\<lambda>h. hint_CRC32 h = calculateCRC h \<and> now - Timestamp h \<le> hc_MaxTTL cfg) (readable_hints ls)"

text \<open>A store stands for a list.\<close>

definition stands_for :: "HintConfig \<Rightarrow> HintStore \<Rightarrow> Hint list \<Rightarrow> bool" where
  "stands_for cfg s l \<longleftrightarrow> store_ok s \<and> hs_config s = cfg \<and>
     (\<forall>n. hints_at (hs_hints s) n = filter (\<lambda>h. TargetNodeID h = n) l)"

lemma sum_by_node:
  assumes "distinct (map fst m)" and "\<And>n. hints_at m n = filter (\<lambda>h. TargetNodeID h = n) l"
  shows "hs_sum m = total_size l"
  using assms
proof (induction m arbitrary: l)
  case Nil
  from Nil(2) [of "TargetNodeID (hd l)"] have "l = []" by (cases l) auto
  then show ?case by (simp add: total_size_def)
next
  case (Cons e m)
  obtain k hs where e: "e = (k, hs)" by (cases e)
  let ?rest = "filter (\<lambda>h. TargetNodeID h \<noteq> k) l"
  have "hints_at m n = filter (\<lambda>h. TargetNodeID h = n) ?rest" for n
  proof (cases "n = k")
    case True
    with Cons.prems(1) e have "hints_at m n = []" by (intro hints_at_fresh) simp
    with True show ?thesis by (simp add: filter_False)
  next
    case False
    with Cons.prems(2) [of n] e have "hints_at m n = filter (\<lambda>h. TargetNodeID h = n) l" by simp
    also have "\<dots> = filter (\<lambda>h. TargetNodeID h = n) ?rest"
      using False by (auto intro: filter_cong)
    finally show ?thesis .
  qed
  with Cons.IH [of ?rest] Cons.prems(1) have "hs_sum m = total_size ?rest" by (simp add: e)
  moreover have "hs = filter (\<lambda>h. TargetNodeID h = k) l" using Cons.prems(2) [of k] by (simp add: e)
  ultimately show ?case
    using sum_filter_split [of hint_size "\<lambda>h. TargetNodeID h = k" l] by (simp add: e total_size_def)
qed

lemma stands_for_total: "stands_for cfg s l \<Longrightarrow> hs_totalSize s = total_size l"
  by (simp add: stands_for_def store_ok_def sum_by_node)

lemma exec_refines:
  assumes "stands_for cfg s l"
  shows "stands_for cfg (hs_exec op s) (hint_spec cfg op l)"
proof -
  from assms have ok: "store_ok s" and cfg: "hs_config s = cfg"
    and at: "\<And>n. hints_at (hs_hints s) n = filter (\<lambda>h. TargetNodeID h = n) l"
    by (simp_all add: stands_for_def)
  note total = stands_for_total [OF assms]
  show ?thesis
  proof (cases op)
    case (OpStore now n key val)
    with StoreHint_ok [OF ok, of now n key val] show ?thesis
      by (simp add: stands_for_def StoreHint_def Let_def cfg total at hint_of_def)
  next
    case (OpRemove n key)
    with RemoveHint_ok [OF ok, of n key] show ?thesis
      by (auto simp: stands_for_def RemoveHint_def Let_def cfg at remove_loop_filter filter_empty_conv
          intro: filter_cong)
  next
    case (OpRemoveNode n)
    with RemoveHintsForNode_ok [OF ok, of n] show ?thesis
      by (auto simp: stands_for_def RemoveHintsForNode_def Let_def cfg at filter_empty_conv intro: filter_cong)
  next
    case (OpCleanup now)
    with cleanup_spec [OF ok, of now] show ?thesis
      by (auto simp: stands_for_def cfg at intro: filter_cong)
  next
    case OpReplayed
    with assms show ?thesis by (simp add: stands_for_def store_ok_def MarkHintReplayed_def)
  qed
qed

lemma exec_all_refines: "stands_for cfg s l \<Longrightarrow> stands_for cfg (fold hs_exec ops s) (fold (hint_spec cfg) ops l)"
  by (induction ops arbitrary: s l) (simp_all add: exec_refines)

lemma load_refines:
  "stands_for cfg s l \<Longrightarrow> stands_for cfg (load now ls s) (l @ loaded cfg now ls)"
proof (induction ls arbitrary: s l)
  case Nil
  then show ?case by (simp add: loaded_def readable_hints_def)
next
  case (Cons line ls)
  show ?case
  proof (cases line)
    case (OtherLine n)
    with Cons show ?thesis by (simp add: loaded_def readable_hints_def)
  next
    case (HintLine h n)
    let ?s = "s\<lparr>hs_hints := put_hints (TargetNodeID h) (hints_at (hs_hints s) (TargetNodeID h) @ [h]) (hs_hints s),
                hs_totalSize := hs_totalSize s + hint_size h\<rparr>"
    from Cons.prems have cfg: "hs_config s = cfg" and ok: "store_ok s" by (simp_all add: stands_for_def)
    consider "n \<ge> 65536" | "n < 65536" "hint_CRC32 h \<noteq> calculateCRC h \<or> now - Timestamp h > hc_MaxTTL cfg"
      | "n < 65536" "hint_CRC32 h = calculateCRC h" "now - Timestamp h \<le> hc_MaxTTL cfg" by linarith
    then show ?thesis
    proof cases
      case 1
      with HintLine Cons.prems show ?thesis by (simp add: loaded_def readable_hints_def)
    next
      case 2
      have "stands_for cfg (s\<lparr>hs_hintsExpired := hs_hintsExpired s + 1\<rparr>) l"
        using Cons.prems by (simp add: stands_for_def store_ok_def)
      from Cons.IH [OF this] Cons.IH [OF Cons.prems] 2 HintLine show ?thesis
        by (auto simp: loaded_def readable_hints_def cfg)
    next
      case 3
      have "store_ok ?s"
        by (rule store_okI [OF ok, where n = "TargetNodeID h" and hints = "hints_at (hs_hints s) (TargetNodeID h) @ [h]"])
           (use 3 store_ok_filed [OF ok] in auto)
      with Cons.prems have "stands_for cfg ?s (l @ [h])" by (auto simp: stands_for_def)
      from Cons.IH [OF this] 3 HintLine show ?thesis
        by (simp add: loaded_def readable_hints_def cfg put_hints_def hint_size_def)
    qed
  qed
qed

lemma NewStore_refines:
  assumes "NewStore now cfg ls = Inr s"
  shows "stands_for cfg s (loaded cfg now ls)"
proof -
  have "stands_for cfg (hs_empty cfg) []" by (simp add: stands_for_def store_ok_def hs_empty_def)
  from load_refines [OF this, of now ls] assms show ?thesis
    by (simp add: NewStore_def split: if_splits)
qed

lemma GetHintsForNode_at: "GetHintsForNode s n = hints_at (hs_hints s) n"
  by (simp add: GetHintsForNode_def Let_def)

text \<open>C18. The store of hinted writes behaves as one list of hints in order of arrival: after any operations
  on a store opened on any file, a node's hints are the list's hints for it, and the accounted size
  is the list's. A new hint is refused exactly when it would take the list over the limit, a removal
  takes every hint of the key, and clean-up exactly the expired ones.\<close>

theorem hint_store_refines:
  fixes ops :: "hs_op list"
  assumes "NewStore now cfg ls = Inr s0"
  defines "s \<equiv> fold hs_exec ops s0" and "l \<equiv> fold (hint_spec cfg) ops (loaded cfg now ls)"
  shows "(\<forall>n. GetHintsForNode s n = filter (\<lambda>h. TargetNodeID h = n) l) \<and> hs_totalSize s = total_size l"
  using exec_all_refines [OF NewStore_refines [OF assms(1)], of ops] stands_for_total
  by (auto simp: s_def l_def stands_for_def GetHintsForNode_at)

definition hint_demo :: HintConfig where
  "hint_demo = (hint_DefaultConfig ''d'')\<lparr>hc_MaxSize := 60\<rparr>"

definition hint_demo_ops :: "hs_op list" where
  "hint_demo_ops = [OpStore 1 ''n'' ''k'' [7], OpStore 2 ''m'' ''k'' [8], OpStore 3 ''n'' ''j'' [9]]"

lemma hint_demo_new: "NewStore 1 hint_demo [] = Inr (hs_empty hint_demo)"
  by (simp add: NewStore_def hint_demo_def hint_DefaultConfig_def)

lemma hint_store_refines_witness:
  "(\<forall>n. GetHintsForNode (fold hs_exec hint_demo_ops (hs_empty hint_demo)) n =
      filter (\<lambda>h. TargetNodeID h = n) (fold (hint_spec hint_demo) hint_demo_ops (loaded hint_demo 1 []))) \<and>
   hs_totalSize (fold hs_exec hint_demo_ops (hs_empty hint_demo)) =
     total_size (fold (hint_spec hint_demo) hint_demo_ops (loaded hint_demo 1 []))"
  by (rule hint_store_refines [OF hint_demo_new])

section \<open>Restart\<close>

lemma filter_all_hints:
  "distinct (map fst m) \<Longrightarrow> list_all filed m \<Longrightarrow> filter (\<lambda>h. TargetNodeID h = n) (concat (map snd m)) = hints_at m n"
proof (induction m)
  case (Cons e m)
  obtain k hs where e: "e = (k, hs)" by (cases e)
  with Cons.prems have hs: "\<forall>h\<in>set hs. TargetNodeID h = k" by (simp add: filed_iff)
  from Cons.prems have IH: "filter (\<lambda>h. TargetNodeID h = n) (concat (map snd m)) = hints_at m n"
    by (intro Cons.IH) simp_all
  show ?case
  proof (cases "k = n")
    case True
    with Cons.prems e have "hints_at m n = []" by (intro hints_at_fresh) simp
    with IH True hs e show ?thesis by (simp add: filter_id_conv)
  next
    case False
    with IH hs e show ?thesis by (simp add: filter_empty_conv)
  qed
qed simp

lemma intact_hints: "list_all filed m \<Longrightarrow> h \<in> set (concat (map snd m)) \<Longrightarrow> hint_CRC32 h = calculateCRC h"
  by (induction m) (auto simp: filed_def)

lemma readable_flush: "readable_hints (flush len s) = takeWhile (\<lambda>h. len h < 65536) (all_hints s)"
proof -
  have "flush len s = map (\<lambda>h. HintLine h (len h)) (all_hints s)"
    by (simp add: flush_def all_hints_def map_concat case_prod_beta' comp_def)
  then show ?thesis by (simp add: readable_hints_def takeWhile_map comp_def)
qed

lemma reload_refines:
  assumes "stands_for cfg s l" and "hc_DataDir cfg \<noteq> []" and "takeWhile (\<lambda>h. len h < 65536) (all_hints s) = hs"
  shows "\<exists>s'. NewStore now cfg (flush len s) = Inr s' \<and>
    stands_for cfg s' (filter (\<lambda>h. now - Timestamp h \<le> hc_MaxTTL cfg) hs)"
proof -
  obtain s' where s': "NewStore now cfg (flush len s) = Inr s'" using assms(2) by (simp add: NewStore_def)
  have "hint_CRC32 h = calculateCRC h" if "h \<in> set hs" for h
    using that assms(1,3) intact_hints [of "hs_hints s" h] set_takeWhileD [of h "\<lambda>h. len h < 65536" "all_hints s"]
    by (auto simp: stands_for_def store_ok_def all_hints_def)
  then have "loaded cfg now (flush len s) = filter (\<lambda>h. now - Timestamp h \<le> hc_MaxTTL cfg) hs"
    unfolding loaded_def readable_flush assms(3) by (intro filter_cong) simp_all
  with NewStore_refines [OF s'] s' show ?thesis by auto
qed

text \<open>C19. Hints survive a restart: a store written to its file and opened again has every node's
  hints back, in order and intact, and the same accounted size, as long as none has expired and the
  JSON of each is shorter than 64 KB.\<close>

theorem hints_survive_restart:
  assumes "NewStore now cfg ls = Inr s0" and "s = fold hs_exec ops s0"
    and "\<forall>h\<in>set (all_hints s). len h < 65536 \<and> now' - Timestamp h \<le> hc_MaxTTL cfg"
  shows "\<exists>s'. NewStore now' cfg (flush len s) = Inr s' \<and> hs_totalSize s' = hs_totalSize s \<and>
    (\<forall>n. GetHintsForNode s' n = GetHintsForNode s n)"
proof -
  have st: "stands_for cfg s (fold (hint_spec cfg) ops (loaded cfg now ls))"
    unfolding assms(2) by (rule exec_all_refines [OF NewStore_refines [OF assms(1)]])
  from assms(1) have dir: "hc_DataDir cfg \<noteq> []" by (auto simp: NewStore_def)
  from assms(3) have "takeWhile (\<lambda>h. len h < 65536) (all_hints s) = all_hints s"
    by (intro takeWhile_eq_all_conv [THEN iffD2]) blast
  from reload_refines [OF st dir this, of now'] obtain s' where s': "NewStore now' cfg (flush len s) = Inr s'"
    and st': "stands_for cfg s' (filter (\<lambda>h. now' - Timestamp h \<le> hc_MaxTTL cfg) (all_hints s))" by blast
  from assms(3) have "filter (\<lambda>h. now' - Timestamp h \<le> hc_MaxTTL cfg) (all_hints s) = all_hints s"
    by (intro filter_id_conv [THEN iffD2]) blast
  with st' have st': "stands_for cfg s' (all_hints s)" by simp
  have "hints_at (hs_hints s') n = hints_at (hs_hints s) n" for n
    using st' st filter_all_hints [of "hs_hints s" n] by (simp add: stands_for_def store_ok_def all_hints_def)
  moreover have "hs_totalSize s' = total_size (all_hints s)" by (rule stands_for_total [OF st'])
  moreover have "hs_totalSize s = hs_sum (hs_hints s)" using st by (simp add: stands_for_def store_ok_def)
  moreover have "hs_sum (hs_hints s) = total_size (all_hints s)"
    using st by (intro sum_by_node) (simp_all add: stands_for_def store_ok_def all_hints_def filter_all_hints)
  ultimately show ?thesis using s' by (simp add: GetHintsForNode_at)
qed

lemma hints_survive_restart_witness:
  "\<exists>s'. NewStore 2 hint_demo (flush (\<lambda>h. 100) (fold hs_exec [OpStore 1 ''n'' ''k'' [7]] (hs_empty hint_demo))) = Inr s' \<and>
    hs_totalSize s' = hs_totalSize (fold hs_exec [OpStore 1 ''n'' ''k'' [7]] (hs_empty hint_demo)) \<and>
    (\<forall>n. GetHintsForNode s' n = GetHintsForNode (fold hs_exec [OpStore 1 ''n'' ''k'' [7]] (hs_empty hint_demo)) n)"
  by (rule hints_survive_restart [OF hint_demo_new refl])
     (simp add: StoreHint_def hs_empty_def hint_demo_def hint_DefaultConfig_def estimateHintSize_def Let_def all_hints_def)

text \<open>A hint whose JSON takes 64 KB or more ends the reload: of the hints in the file, only those before it are
  in the store after a restart, and opening the store reports no error.\<close>

theorem long_hint_loses_rest:
  assumes "NewStore now cfg ls = Inr s0" and "s = fold hs_exec ops s0"
    and "all_hints s = pre @ h # post" and "\<forall>g\<in>set pre. len g < 65536" and "len h \<ge> 65536"
  shows "\<exists>s'. NewStore now' cfg (flush len s) = Inr s' \<and>
    (\<forall>n. GetHintsForNode s' n = filter (\<lambda>g. TargetNodeID g = n \<and> now' - Timestamp g \<le> hc_MaxTTL cfg) pre)"
proof -
  have st: "stands_for cfg s (fold (hint_spec cfg) ops (loaded cfg now ls))"
    unfolding assms(2) by (rule exec_all_refines [OF NewStore_refines [OF assms(1)]])
  from assms(1) have dir: "hc_DataDir cfg \<noteq> []" by (auto simp: NewStore_def)
  have "takeWhile (\<lambda>h. len h < 65536) (all_hints s) = pre"
    using assms(3-5) by (simp add: takeWhile_append2)
  from reload_refines [OF st dir this, of now'] show ?thesis
    by (auto simp: stands_for_def GetHintsForNode_at conj_commute)
qed

lemma long_hint_loses_rest_witness:
  "\<exists>s'. NewStore 2 hint_demo (flush (\<lambda>h. 65536) (fold hs_exec [OpStore 1 ''n'' ''k'' [7]] (hs_empty hint_demo))) = Inr s' \<and>
    (\<forall>n. GetHintsForNode s' n = filter (\<lambda>g. TargetNodeID g = n \<and> 2 - Timestamp g \<le> hc_MaxTTL hint_demo) [])"
  by (rule long_hint_loses_rest [OF hint_demo_new refl, where h = "hint_of 1 ''n'' ''k'' [7]" and post = "[]"])
     (simp_all add: StoreHint_def hs_empty_def hint_demo_def hint_DefaultConfig_def estimateHintSize_def Let_def
       all_hints_def hint_of_def)

end
