(* ===== verification/Coordinator.thy ===== *)
theory Coordinator
  imports Hash_Ring Gossip Handoff_Store
begin

text \<open>
  Quorum reads and writes, \<^verbatim>\<open>src/core/cluster/coordinator.go\<close>, with the wrapper that stores hints
  and the in-memory replica client of \<^verbatim>\<open>src/cmd/allidbd/main.go\<close>. The client works on a world of
  its own; its calls run in parallel goroutines, so the writes take effect in any order of the
  replicas: \<open>order n\<close> is the order for \<open>n\<close> of them. A slice of bytes is \<open>None\<close> where the code has \<^verbatim>\<open>nil\<close>. The context is only
  passed on: whether it has ended makes no difference to \<^verbatim>\<open>waitForQuorum\<close>.
\<close>

section \<open>Replica clients\<close>

type_synonym slice_bytes = "bytes option"

type_synonym 'w reader = "NodeID \<Rightarrow> string \<Rightarrow> 'w \<Rightarrow> slice_bytes go"
type_synonym 'w writer = "NodeID \<Rightarrow> string \<Rightarrow> slice_bytes \<Rightarrow> 'w \<Rightarrow> 'w \<times> unit go"

text \<open>
  What a client promises: a write that reports no error is what the node answers afterwards, and no
  write touches another node or another key. A write that fails may have taken place.
\<close>

locale replica_client =
  fixes rd :: "'w reader" and wr :: "'w writer"
  assumes read_own: "wr n k v w = (w', Inr ()) \<Longrightarrow> rd n k w' = Inr v"
    and read_other: "n' \<noteq> n \<or> k' \<noteq> k \<Longrightarrow> rd n' k' (fst (wr n k v w)) = rd n' k' w"

type_synonym mock_data = "NodeID \<rightharpoonup> (string \<rightharpoonup> slice_bytes)"

definition NewMockReplicaClient :: mock_data where
  "NewMockReplicaClient = Map.empty"

definition mock_Read :: "mock_data reader" where
  "mock_Read nodeID key data =
     (case data nodeID of
        Some kvs \<Rightarrow> Inr (case kvs key of Some v \<Rightarrow> v | None \<Rightarrow> None)
      | None \<Rightarrow> Inr None)"

definition mock_Write :: "mock_data writer" where
  "mock_Write nodeID key val data =
     (let data = (if data nodeID = None then data(nodeID \<mapsto> Map.empty) else data)
      in (case data nodeID of
            Some kvs \<Rightarrow> (data(nodeID \<mapsto> kvs(key \<mapsto> val)), Inr ())
          | None \<Rightarrow> (data, Inl Panic)))"

lemma mock_Write_ok: "snd (mock_Write n k v w) = Inr ()"
  by (simp add: mock_Write_def Let_def split: option.splits)

interpretation mock: replica_client mock_Read mock_Write
proof
  show "mock_Read n k w' = Inr v" if "mock_Write n k v w = (w', Inr ())" for n k v w w'
    using that by (auto simp: mock_Read_def mock_Write_def Let_def split: option.splits if_splits)
  show "mock_Read n' k' (fst (mock_Write n k v w)) = mock_Read n' k' w" if "n' \<noteq> n \<or> k' \<noteq> k" for n n' k k' v w
    using that by (auto simp: mock_Read_def mock_Write_def Let_def split: option.splits if_splits)
qed

section \<open>Coordinator\<close>

record CoordinatorConfig =
  ReadQuorum :: int
  WriteQuorum :: int
  ReadTimeout :: int
  WriteTimeout :: int
  ReplicaCount :: int

definition coord_DefaultConfig :: CoordinatorConfig where
  "coord_DefaultConfig =
     \<lparr>ReadQuorum = 2, WriteQuorum = 2, ReadTimeout = 5 * 1000000000, WriteTimeout = 5 * 1000000000, ReplicaCount = 3\<rparr>"

record Response =
  rsp_NodeID :: NodeID
  rsp_Value :: slice_bytes
  rsp_Error :: "go_error option"
  Success :: bool

record Coordinator =
  co_ring :: Ring
  co_gossip :: "Gossip option"
  co_config :: CoordinatorConfig

definition NewCoordinator :: "Ring \<Rightarrow> Gossip option \<Rightarrow> CoordinatorConfig \<Rightarrow> Coordinator" where
  "NewCoordinator ring gossip config = \<lparr>co_ring = ring, co_gossip = gossip, co_config = config\<rparr>"

definition selectReplicas :: "Coordinator \<Rightarrow> string \<Rightarrow> NodeID list go" where
  "selectReplicas c key =
     (let owners = GetOwners (co_ring c) key
      in if int (length owners) > ReplicaCount (co_config c)
         then (if ReplicaCount (co_config c) < 0 then Inl Panic else Inr (take (nat (ReplicaCount (co_config c))) owners))
         else Inr owners)"

definition filterAliveNodes :: "Coordinator \<Rightarrow> NodeID list \<Rightarrow> NodeID list" where
  "filterAliveNodes c nodes =
     (case co_gossip c of
        None \<Rightarrow> nodes
      | Some g \<Rightarrow> let aliveSet = set (GetAliveNodes g) in filter (\<lambda>nodeID. nodeID \<in> aliveSet) nodes)"

definition read_response :: "'w reader \<Rightarrow> string \<Rightarrow> 'w \<Rightarrow> NodeID \<Rightarrow> Response" where
  "read_response rd key w nodeID =
     (case rd nodeID key w of
        Inr val \<Rightarrow> \<lparr>rsp_NodeID = nodeID, rsp_Value = val, rsp_Error = None, Success = True\<rparr>
      | Inl e \<Rightarrow> \<lparr>rsp_NodeID = nodeID, rsp_Value = None, rsp_Error = Some e, Success = False\<rparr>)"

definition readFromReplicas :: "'w reader \<Rightarrow> string \<Rightarrow> NodeID list \<Rightarrow> 'w \<Rightarrow> Response list" where
  "readFromReplicas rd key replicas w = map (read_response rd key w) replicas"

definition no_response :: Response where
  "no_response = \<lparr>rsp_NodeID = [], rsp_Value = None, rsp_Error = None, Success = False\<rparr>"

fun write_loop ::
  "'w writer \<Rightarrow> string \<Rightarrow> slice_bytes \<Rightarrow> NodeID list \<Rightarrow> nat list \<Rightarrow> 'w \<times> Response list \<Rightarrow> 'w \<times> Response list" where
  "write_loop wr key val replicas [] acc = acc"
| "write_loop wr key val replicas (idx # order) (w, responses) =
     (let nodeID = replicas ! idx; (w, res) = wr nodeID key val w
      in write_loop wr key val replicas order
           (w, responses[idx := \<lparr>rsp_NodeID = nodeID, rsp_Value = None,
              rsp_Error = (case res of Inl e \<Rightarrow> Some e | Inr _ \<Rightarrow> None), Success = (res = Inr ())\<rparr>]))"

definition writeToReplicas ::
  "'w writer \<Rightarrow> (nat \<Rightarrow> nat list) \<Rightarrow> string \<Rightarrow> slice_bytes \<Rightarrow> NodeID list \<Rightarrow> 'w \<Rightarrow> 'w \<times> Response list" where
  "writeToReplicas wr order key val replicas w =
     write_loop wr key val replicas (order (length replicas)) (w, replicate (length replicas) no_response)"

fun quorum_loop :: "int \<Rightarrow> Response list \<Rightarrow> Response list \<Rightarrow> Response list" where
  "quorum_loop quorum [] successful = successful"
| "quorum_loop quorum (resp # responses) successful =
     (if Success resp then
        let successful = successful @ [resp]
        in if int (length successful) \<ge> quorum then successful else quorum_loop quorum responses successful
      else quorum_loop quorum responses successful)"

definition waitForQuorum :: "Response list \<Rightarrow> int \<Rightarrow> Response list go" where
  "waitForQuorum responses quorum =
     (if quorum < 0 then Inl Panic else Inr (quorum_loop quorum responses []))"

definition ReadWithResponses :: "'w reader \<Rightarrow> Coordinator \<Rightarrow> string \<Rightarrow> 'w \<Rightarrow> Response list go" where
  "ReadWithResponses rd c key w =
     rbind (selectReplicas c key) (\<lambda>replicas.
       if length replicas = 0 then Inl (Fail ''no replicas available for key'')
       else
         let aliveReplicas = filterAliveNodes c replicas
         in if int (length aliveReplicas) < ReadQuorum (co_config c) then Inl (Fail ''insufficient alive replicas'')
            else
              let responses = readFromReplicas rd key aliveReplicas w
              in rbind (waitForQuorum responses (ReadQuorum (co_config c))) (\<lambda>successfulResponses.
                   if int (length successfulResponses) < ReadQuorum (co_config c)
                   then Inl (Fail ''quorum not reached'') else Inr responses))"

definition coord_Write ::
  "'w writer \<Rightarrow> (nat \<Rightarrow> nat list) \<Rightarrow> Coordinator \<Rightarrow> string \<Rightarrow> slice_bytes \<Rightarrow> 'w \<Rightarrow> 'w \<times> unit go" where
  "coord_Write wr order c key val w =
     (case selectReplicas c key of
        Inl e \<Rightarrow> (w, Inl e)
      | Inr replicas \<Rightarrow>
          if length replicas = 0 then (w, Inl (Fail ''no replicas available for key''))
          else
            let aliveReplicas = filterAliveNodes c replicas
            in if int (length aliveReplicas) < WriteQuorum (co_config c)
               then (w, Inl (Fail ''insufficient alive replicas''))
               else
                 let (w, responses) = writeToReplicas wr order key val aliveReplicas w
                 in (w, rbind (waitForQuorum responses (WriteQuorum (co_config c))) (\<lambda>successfulResponses.
                      if int (length successfulResponses) < WriteQuorum (co_config c)
                      then Inl (Fail ''quorum not reached'') else Inr ())))"

text \<open>
  \<^verbatim>\<open>mergeReadResponses\<close>: the counts of the values, then the loop over the counts in the order
  \<open>rng\<close> of that range loop. The keys of the two maps are the values as strings.
\<close>

definition count_value :: "Response \<Rightarrow> (bytes \<times> int) list \<Rightarrow> (bytes \<times> int) list" where
  "count_value resp counts =
     (if Success resp then
        case rsp_Value resp of
          None \<Rightarrow> counts
        | Some val \<Rightarrow> AList.update val ((case map_of counts val of None \<Rightarrow> 0 | Some n \<Rightarrow> n) + 1) counts
      else counts)"

fun max_loop :: "(bytes \<times> int) list \<Rightarrow> int \<Rightarrow> slice_bytes \<Rightarrow> slice_bytes" where
  "max_loop [] maxCount result = result"
| "max_loop ((val, n) # counts) maxCount result =
     (if n > maxCount then max_loop counts n (Some val) else max_loop counts maxCount result)"

fun first_loop :: "Response list \<Rightarrow> slice_bytes" where
  "first_loop [] = None"
| "first_loop (resp # responses) =
     (if Success resp \<and> rsp_Value resp \<noteq> None then rsp_Value resp else first_loop responses)"

definition mergeReadResponses :: "((bytes \<times> int) list \<Rightarrow> (bytes \<times> int) list) \<Rightarrow> Response list \<Rightarrow> slice_bytes" where
  "mergeReadResponses rng responses =
     (if length responses = 0 then None
      else
        let valueCounts = fold count_value responses [];
            result = max_loop (rng valueCounts) 0 None
        in if result = None \<and> length responses > 0 then first_loop responses else result)"

definition coord_Read ::
  "'w reader \<Rightarrow> ((bytes \<times> int) list \<Rightarrow> (bytes \<times> int) list) \<Rightarrow> Coordinator \<Rightarrow> string \<Rightarrow> 'w \<Rightarrow> slice_bytes go" where
  "coord_Read rd rng c key w =
     rbind (ReadWithResponses rd c key w) (\<lambda>responses. Inr (mergeReadResponses rng responses))"

definition GetReplicas :: "Coordinator \<Rightarrow> string \<Rightarrow> NodeID list go" where
  "GetReplicas c key = selectReplicas c key"

definition GetAliveReplicas :: "Coordinator \<Rightarrow> string \<Rightarrow> NodeID list go" where
  "GetAliveReplicas c key = rbind (selectReplicas c key) (\<lambda>replicas. Inr (filterAliveNodes c replicas))"

definition UpdateConfig :: "CoordinatorConfig \<Rightarrow> Coordinator \<Rightarrow> Coordinator" where
  "UpdateConfig config c = c\<lparr>co_config := config\<rparr>"

definition GetConfig :: "Coordinator \<Rightarrow> CoordinatorConfig" where
  "GetConfig c = co_config c"

section \<open>Hinted handoff around the coordinator\<close>

definition hint_dead :: "time \<Rightarrow> NodeID set \<Rightarrow> string \<Rightarrow> bytes \<Rightarrow> NodeID list \<Rightarrow> HintStore \<Rightarrow> HintStore" where
  "hint_dead now aliveSet key val allReplicas s =
     fold (\<lambda>nodeID s. if nodeID \<notin> aliveSet then fst (StoreHint now nodeID key val s) else s) allReplicas s"

definition handoff_Write ::
  "'w writer \<Rightarrow> (nat \<Rightarrow> nat list) \<Rightarrow> time \<Rightarrow> Coordinator \<Rightarrow> string \<Rightarrow> slice_bytes \<Rightarrow> HintStore \<times> 'w \<Rightarrow> (HintStore \<times> 'w) \<times> unit go" where
  "handoff_Write wr order now c key val = (\<lambda>(s, w).
     case GetReplicas c key of
       Inl e \<Rightarrow> ((s, w), Inl e)
     | Inr allReplicas \<Rightarrow>
         if length allReplicas = 0 then ((s, w), Inl (Fail ''no replicas available for key''))
         else (case GetAliveReplicas c key of
                 Inl e \<Rightarrow> ((s, w), Inl e)
               | Inr aliveReplicas \<Rightarrow>
                   let s = hint_dead now (set aliveReplicas) key (case val of None \<Rightarrow> [] | Some bs \<Rightarrow> bs) allReplicas s;
                       (w, res) = coord_Write wr order c key val w
                   in ((s, w), res)))"

text \<open>The cluster as the server starts it: a ring of the local node, quorums of the majority.\<close>

definition majority_config :: "int \<Rightarrow> int \<Rightarrow> CoordinatorConfig" where
  "majority_config rf timeout =
     \<lparr>ReadQuorum = rf div 2 + 1, WriteQuorum = rf div 2 + 1, ReadTimeout = timeout * 1000000,
      WriteTimeout = timeout * 1000000, ReplicaCount = rf\<rparr>"

definition start_ring :: "int \<Rightarrow> int \<Rightarrow> NodeID \<Rightarrow> Ring" where
  "start_ring vnodes rf node =
     (let r = ring_New (vnodes, rf) in case AddNode node r of Inr r' \<Rightarrow> r' | Inl _ \<Rightarrow> r)"

definition start_coordinator :: "int \<Rightarrow> int \<Rightarrow> int \<Rightarrow> NodeID \<Rightarrow> Gossip \<Rightarrow> Coordinator" where
  "start_coordinator vnodes rf timeout node g =
     NewCoordinator (start_ring vnodes rf node) (Some g) (majority_config rf timeout)"

section \<open>Quorums\<close>

text \<open>What the schedules are allowed to do.\<close>

definition orders :: "(nat \<Rightarrow> nat list) \<Rightarrow> bool" where
  "orders order \<longleftrightarrow> (\<forall>n. mset (order n) = mset [0..<n])"

lemma orders_upt: "orders (\<lambda>n. [0..<n])"
  by (simp add: orders_def)

lemma quorum_loop_length:
  "quorum \<le> int (length acc) \<or> (quorum \<le> int (length (quorum_loop quorum rs acc)) \<longleftrightarrow>
     quorum \<le> int (length acc + length (filter Success rs)))"
proof (induction rs arbitrary: acc)
  case (Cons r rs)
  from Cons.IH [of acc] Cons.IH [of "acc @ [r]"] show ?case by (auto simp: Let_def)
qed simp

lemma waitForQuorum_reached:
  "waitForQuorum rs quorum = Inr ok \<Longrightarrow> quorum \<le> int (length ok) \<longleftrightarrow> quorum \<le> int (length (filter Success rs))"
  using quorum_loop_length [of quorum "[]" rs] by (auto simp: waitForQuorum_def split: if_splits)

lemma length_write_loop: "length (snd (write_loop wr key val reps is (w, rs))) = length rs"
  by (induction "is" arbitrary: w rs) (simp_all add: Let_def split: prod.split)

context replica_client
begin

lemma write_loop_other:
  "k' \<noteq> key \<or> n' \<notin> (\<lambda>i. reps ! i) ` set is \<Longrightarrow> rd n' k' (fst (write_loop wr key val reps is (w, rs))) = rd n' k' w"
proof (induction "is" arbitrary: w rs)
  case (Cons i "is")
  obtain w1 res where w1: "wr (reps ! i) key val w = (w1, res)" by fastforce
  from Cons.prems have "rd n' k' w1 = rd n' k' w"
    using read_other [of n' "reps ! i" k' key val w] by (auto simp: w1)
  with Cons.IH [of w1 "rs[i := _]"] Cons.prems w1 show ?case by (auto simp: Let_def)
qed simp

text \<open>After the loop every node whose response is a success answers the value.\<close>

lemma write_loop_success:
  assumes "distinct is" and "distinct reps" and "set is \<subseteq> {..<length reps}" and "length rs = length reps"
    and "i \<in> set is" and "Success (snd (write_loop wr key val reps is (w, rs)) ! i)"
  shows "rd (reps ! i) key (fst (write_loop wr key val reps is (w, rs))) = Inr val"
  using assms
proof (induction "is" arbitrary: w rs)
  case (Cons j js)
  obtain w1 res where w1: "wr (reps ! j) key val w = (w1, res)" by fastforce
  let ?rs = "rs[j := \<lparr>rsp_NodeID = reps ! j, rsp_Value = None,
              rsp_Error = (case res of Inl e \<Rightarrow> Some e | Inr _ \<Rightarrow> None), Success = (res = Inr ())\<rparr>]"
  have loop: "write_loop wr key val reps (j # js) (w, rs) = write_loop wr key val reps js (w1, ?rs)"
    by (simp add: w1 Let_def)
  show ?case
  proof (cases "i \<in> set js")
    case True
    with Cons.prems(1-5) Cons.prems(6) [unfolded loop] Cons.IH [of ?rs w1] show ?thesis unfolding loop by simp
  next
    case False
    with Cons.prems have i: "i = j" by simp
    have keep: "snd (write_loop wr key val reps js (w1, rs')) ! j = rs' ! j" if "j \<notin> set js" for rs' w1 js
      using that
    proof (induction js arbitrary: w1 rs')
      case (Cons k ks)
      then show ?case by (simp add: Let_def split: prod.split)
    qed simp
    from Cons.prems(1,3,4) Cons.prems(6) [unfolded loop] keep i False have "res = Inr ()" by simp
    with w1 have "rd (reps ! j) key w1 = Inr val" using read_own by blast
    moreover have "reps ! j \<notin> (\<lambda>i. reps ! i) ` set js"
      using Cons.prems(1-3) i False by (auto simp: nth_eq_iff_index_eq)
    ultimately show ?thesis unfolding loop i by (simp add: write_loop_other)
  qed
qed simp

lemma writeToReplicas_holders:
  assumes "orders order" and "distinct reps"
  shows "\<exists>ok. set ok \<subseteq> set reps \<and> distinct ok \<and>
    length ok = length (filter Success (snd (writeToReplicas wr order key val reps w))) \<and>
    (\<forall>n\<in>set ok. rd n key (fst (writeToReplicas wr order key val reps w)) = Inr val)"
proof -
  let ?n = "length reps"
  let ?rs = "snd (writeToReplicas wr order key val reps w)"
  let ?is = "filter (\<lambda>i. Success (?rs ! i)) [0..<?n]"
  from assms(1) have m: "mset (order ?n) = mset [0..<?n]" by (simp add: orders_def)
  then have order: "distinct (order ?n)" "set (order ?n) = {..<?n}"
    using mset_eq_imp_distinct_iff [OF m] mset_eq_setD [OF m] by (auto simp: atLeast0LessThan)
  have len: "length ?rs = ?n" by (simp add: writeToReplicas_def length_write_loop)
  have "length ?is = length (filter Success ?rs)"
    using len by (simp add: length_filter_conv_card cong: conj_cong)
  moreover have "distinct (map (\<lambda>i. reps ! i) ?is)"
    using assms(2) by (auto simp: distinct_map inj_on_def nth_eq_iff_index_eq)
  moreover have "rd (reps ! i) key (fst (writeToReplicas wr order key val reps w)) = Inr val" if "i \<in> set ?is" for i
    using that order assms(2) unfolding writeToReplicas_def
    by (intro write_loop_success) auto
  ultimately show ?thesis
    by (intro exI [of _ "map (\<lambda>i. reps ! i) ?is"]) auto
qed

end

lemma selectReplicas_basic:
  assumes "selectReplicas c key = Inr reps"
  shows "distinct reps \<and> set reps \<subseteq> set (GetOwners (co_ring c) key) \<and> int (length reps) \<le> max 0 (ReplicaCount (co_config c))"
  using assms
  by (auto simp: selectReplicas_def Let_def distinct_GetOwners dest: in_set_takeD split: if_splits)

lemma filterAlive_basic:
  "set (filterAliveNodes c reps) \<subseteq> set reps" "distinct reps \<Longrightarrow> distinct (filterAliveNodes c reps)"
  "length (filterAliveNodes c reps) \<le> length reps"
  by (auto simp: filterAliveNodes_def Let_def split: option.splits)

lemma selectReplicas_gossip [simp]: "selectReplicas (c\<lparr>co_gossip := g\<rparr>) key = selectReplicas c key"
  by (simp add: selectReplicas_def Let_def)

lemma coord_Write_ok:
  assumes "coord_Write wr order c key v w = (w', Inr ())"
  shows "\<exists>reps alive. selectReplicas c key = Inr reps \<and> alive = filterAliveNodes c reps \<and>
    fst (writeToReplicas wr order key v alive w) = w' \<and>
    WriteQuorum (co_config c) \<le> int (length (filter Success (snd (writeToReplicas wr order key v alive w))))"
  using assms waitForQuorum_reached
  by (fastforce simp: coord_Write_def Let_def rbind_eq_Inr split: sum.splits if_splits prod.splits)

lemma ReadWithResponses_ok:
  assumes "ReadWithResponses rd c key w = Inr rs"
  shows "\<exists>reps. selectReplicas c key = Inr reps \<and> rs = map (read_response rd key w) (filterAliveNodes c reps) \<and>
    ReadQuorum (co_config c) \<le> int (length (filter Success rs))"
  using assms waitForQuorum_reached
  by (fastforce simp: ReadWithResponses_def readFromReplicas_def Let_def rbind_eq_Inr split: sum.splits if_splits)

lemma pigeonhole:
  assumes "set xs \<subseteq> U" and "set ys \<subseteq> U" and "distinct xs" and "distinct ys" and "finite U"
    and "card U < length xs + length ys"
  shows "\<exists>x. x \<in> set xs \<and> x \<in> set ys"
proof (rule ccontr)
  assume "\<not> ?thesis"
  then have "set xs \<inter> set ys = {}" by auto
  then have "card (set xs \<union> set ys) = length xs + length ys"
    using assms(3,4) by (simp add: card_Un_disjoint distinct_card)
  moreover have "card (set xs \<union> set ys) \<le> card U" using assms(1,2,5) by (intro card_mono) auto
  ultimately show False using assms(6) by simp
qed

lemma overlapping_quorums:
  assumes "replica_client rd wr" and "orders order"
    and "coord_Write wr order c key v w = (w', Inr ())"
    and "ReadQuorum (co_config c') + WriteQuorum (co_config c) > ReplicaCount (co_config c)"
    and "ReplicaCount (co_config c) \<ge> 0"
    and "\<forall>n. rd n key w'' = rd n key w' \<or> (\<exists>e. rd n key w'' = Inl e)"
    and "co_ring c' = co_ring c" and "ReplicaCount (co_config c') = ReplicaCount (co_config c)"
    and "ReadWithResponses rd c' key w'' = Inr rs"
  shows "\<exists>r\<in>set rs. Success r \<and> rsp_Value r = v"
proof -
  note writeToReplicas_holders = replica_client.writeToReplicas_holders [OF assms(1)]
  obtain reps where reps: "selectReplicas c key = Inr reps"
    and w': "fst (writeToReplicas wr order key v (filterAliveNodes c reps) w) = w'"
    and W: "WriteQuorum (co_config c) \<le>
      int (length (filter Success (snd (writeToReplicas wr order key v (filterAliveNodes c reps) w))))"
    using coord_Write_ok [OF assms(3)] by blast
  let ?r = "read_response rd key w''"
  let ?alive = "filterAliveNodes c' reps"
  have "selectReplicas c' key = selectReplicas c key" unfolding selectReplicas_def assms(7,8) ..
  then have "selectReplicas c' key = Inr reps" using reps by simp
  then have rs: "rs = map ?r ?alive" and R: "ReadQuorum (co_config c') \<le> int (length (filter Success rs))"
    using ReadWithResponses_ok [OF assms(9)] by auto
  note basic = selectReplicas_basic [OF reps]
  obtain ok where ok: "set ok \<subseteq> set (filterAliveNodes c reps)" "distinct ok"
      "length ok = length (filter Success (snd (writeToReplicas wr order key v (filterAliveNodes c reps) w)))"
      "\<forall>n\<in>set ok. rd n key w' = Inr v"
    using writeToReplicas_holders [OF assms(2), of "filterAliveNodes c reps" key v w] basic w'
    by (auto simp: filterAlive_basic)
  let ?answered = "filter (\<lambda>n. Success (?r n)) ?alive"
  have "length (filter Success rs) = length ?answered" by (simp add: rs filter_map comp_def)
  moreover have "int (card (set reps)) \<le> ReplicaCount (co_config c)"
    using basic assms(5) by (simp add: distinct_card)
  ultimately have "card (set reps) < length ok + length ?answered"
    using R W ok(3) assms(4) by linarith
  moreover have "set ok \<subseteq> set reps" using ok(1) filterAlive_basic(1) by blast
  moreover have "set ?answered \<subseteq> set reps" using filterAlive_basic(1) by auto
  ultimately obtain n where n: "n \<in> set ok" "n \<in> set ?answered"
    using pigeonhole [of ok "set reps" ?answered] ok(2) basic by (auto simp: filterAlive_basic)
  then have "Success (?r n)" "?r n \<in> set rs" by (auto simp: rs)
  moreover from this(1) have "rd n key w'' = rd n key w'"
    using spec [OF assms(6), of n] by (auto simp: read_response_def split: sum.splits)
  then have "rsp_Value (?r n) = v" using ok(4) n(1) by (simp add: read_response_def)
  ultimately show ?thesis by blast
qed

text \<open>C20. Quorums overlap. When the two quorums add up to more than the replicas, then after an acknowledged
  write every read that succeeds has the written value among its responses, whichever nodes are
  alive or fail at either time, as long as no other write reaches the key.\<close>

theorem quorum_overlap:
  assumes "replica_client rd wr" and "orders order"
    and "coord_Write wr order c key v w = (w', Inr ())"
    and "ReadQuorum (co_config c) + WriteQuorum (co_config c) > ReplicaCount (co_config c)"
    and "ReplicaCount (co_config c) \<ge> 0"
    and "\<forall>n. rd n key w'' = rd n key w' \<or> (\<exists>e. rd n key w'' = Inl e)"
    and "ReadWithResponses rd (c\<lparr>co_gossip := g\<rparr>) key w'' = Inr rs"
  shows "\<exists>r\<in>set rs. Success r \<and> rsp_Value r = v"
  by (rule overlapping_quorums [OF assms(1-3) _ assms(5,6) _ _ assms(7)]) (simp_all add: assms(4))

lemma lone_owners [simp]: "GetOwners (start_ring vnodes rf node) key = [node]"
proof -
  let ?r = "start_ring vnodes rf node"
  have nodes: "map fst (ring_nodes ?r) = [node]" and rf: "replicationFactor ?r > 0"
    by (simp_all add: start_ring_def ring_New_def AddNode_def Let_def)
  obtain r where "AddNode node (ring_New (vnodes, rf)) = Inr r" and "?r = r"
    by (auto simp: start_ring_def ring_New_def AddNode_def Let_def)
  then have "built ?r" using built.intros(1,2) by blast
  then have ok: "ring_ok ?r" by (rule built_ok)
  from nodes obtain k where "ring_nodes ?r = [(node, k)]" by auto
  with preference_nodes [OF ok, of key] have "preference ?r key = [node]"
    by (cases "preference ?r key") auto
  with rf ok show ?thesis by (simp add: GetOwners_preference ring_ok_def take_Cons')
qed

lemma quorum_overlap_witness:
  "let c = NewCoordinator (start_ring 1 1 ''a'') None (majority_config 1 1);
       w = fst (coord_Write mock_Write (\<lambda>n. [0..<n]) c ''k'' (Some [7]) NewMockReplicaClient)
   in \<exists>rs. ReadWithResponses mock_Read (c\<lparr>co_gossip := None\<rparr>) ''k'' w = Inr rs \<and>
        (\<exists>r\<in>set rs. Success r \<and> rsp_Value r = Some [7])"
proof -
  define c where "c = NewCoordinator (start_ring 1 1 ''a'') None (majority_config 1 1)"
  define w where "w = fst (coord_Write mock_Write (\<lambda>n. [0..<n]) c ''k'' (Some [7]) NewMockReplicaClient)"
  have c: "selectReplicas c ''k'' = Inr [''a'']" "filterAliveNodes c [''a''] = [''a'']" "co_gossip c = None"
    "ReadQuorum (co_config c) = 1" "WriteQuorum (co_config c) = 1" "ReplicaCount (co_config c) = 1"
    by (simp_all add: c_def NewCoordinator_def selectReplicas_def filterAliveNodes_def majority_config_def)
  have "snd (coord_Write mock_Write (\<lambda>n. [0..<n]) c ''k'' (Some [7]) NewMockReplicaClient) = Inr ()"
    by (simp add: coord_Write_def c writeToReplicas_def mock_Write_def NewMockReplicaClient_def
        waitForQuorum_def Let_def)
  then have wrote: "coord_Write mock_Write (\<lambda>n. [0..<n]) c ''k'' (Some [7]) NewMockReplicaClient = (w, Inr ())"
    by (simp add: w_def prod_eq_iff)
  have "\<exists>v. mock_Read ''a'' ''k'' w = Inr v" by (auto simp: mock_Read_def split: option.splits)
  then obtain v where v: "mock_Read ''a'' ''k'' w = Inr v" by blast
  have responses: "ReadWithResponses mock_Read (c\<lparr>co_gossip := None\<rparr>) ''k'' w = Inr [read_response mock_Read ''k'' w ''a'']"
    using c by (simp add: ReadWithResponses_def filterAliveNodes_def readFromReplicas_def read_response_def
        waitForQuorum_def Let_def v)
  have "\<exists>r\<in>set [read_response mock_Read ''k'' w ''a'']. Success r \<and> rsp_Value r = Some [7]"
    by (rule quorum_overlap [OF mock.replica_client_axioms orders_upt wrote _ _ _ responses]) (simp_all add: c)
  with responses show ?thesis by (auto simp: Let_def simp flip: c_def w_def)
qed

text \<open>The server's own settings reject every request when it wants replicas: its ring holds the local node
  only, so with a replication factor of two or more the majority is never reached; no write
  reaches a replica.\<close>

theorem lone_ring_rejects:
  assumes "rf \<ge> 2"
  shows "coord_Write wr order (start_coordinator vnodes rf timeout node g) key val w =
           (w, Inl (Fail ''insufficient alive replicas'')) \<and>
         coord_Read rd rng (start_coordinator vnodes rf timeout node g) key w =
           Inl (Fail ''insufficient alive replicas'')"
proof -
  let ?c = "start_coordinator vnodes rf timeout node g"
  have sel: "selectReplicas ?c key = Inr [node]"
    using assms by (simp add: selectReplicas_def start_coordinator_def NewCoordinator_def majority_config_def)
  have "length (filterAliveNodes ?c [node]) \<le> 1" using filterAlive_basic(3) [of ?c "[node]"] by simp
  moreover have "rf div 2 \<ge> 1" using assms by linarith
  ultimately have "int (length (filterAliveNodes ?c [node])) < rf div 2 + 1" by linarith
  moreover have "ReadQuorum (co_config ?c) = rf div 2 + 1" "WriteQuorum (co_config ?c) = rf div 2 + 1"
    by (simp_all add: start_coordinator_def NewCoordinator_def majority_config_def)
  ultimately show ?thesis
    by (simp add: coord_Write_def coord_Read_def ReadWithResponses_def sel Let_def)
qed

lemma lone_ring_rejects_witness:
  "coord_Write mock_Write (\<lambda>n. [0..<n]) (start_coordinator 150 3 5000 ''n1'' (NewGossip 0 (gossip_DefaultConfig ''n1'' ''h'' 1)))
     ''k'' (Some [7]) NewMockReplicaClient = (NewMockReplicaClient, Inl (Fail ''insufficient alive replicas'')) \<and>
   coord_Read mock_Read rev (start_coordinator 150 3 5000 ''n1'' (NewGossip 0 (gossip_DefaultConfig ''n1'' ''h'' 1)))
     ''k'' NewMockReplicaClient = Inl (Fail ''insufficient alive replicas'')"
  by (rule lone_ring_rejects) simp

section \<open>Hints of a write\<close>

lemma hint_dead_spec:
  assumes "distinct reps" and "hs_totalSize s + int (length reps) * estimateHintSize key val \<le> hc_MaxSize (hs_config s)"
  shows "hints_at (hs_hints (hint_dead now alive key val reps s)) n =
    hints_at (hs_hints s) n @ (if n \<in> set reps \<and> n \<notin> alive then [hint_of now n key val] else [])"
  using assms
proof (induction reps arbitrary: s)
  case (Cons m reps)
  let ?sz = "estimateHintSize key val"
  have sz: "?sz \<ge> 0" by (simp add: estimateHintSize_def)
  then have "int (length reps) * ?sz \<ge> 0" by simp
  with Cons.prems(2) have fits: "hs_totalSize s + ?sz \<le> hc_MaxSize (hs_config s)" by (simp add: algebra_simps)
  let ?s = "if m \<notin> alive then fst (StoreHint now m key val s) else s"
  have "hs_totalSize ?s \<le> hs_totalSize s + ?sz" "hs_config ?s = hs_config s"
    using fits sz by (simp_all add: StoreHint_def Let_def)
  with Cons.prems(2) have "hs_totalSize ?s + int (length reps) * ?sz \<le> hc_MaxSize (hs_config ?s)"
    by (simp add: algebra_simps)
  with Cons.IH [of ?s] Cons.prems(1) have
    "hints_at (hs_hints (hint_dead now alive key val reps ?s)) n =
      hints_at (hs_hints ?s) n @ (if n \<in> set reps \<and> n \<notin> alive then [hint_of now n key val] else [])" by simp
  moreover have "hint_dead now alive key val (m # reps) s = hint_dead now alive key val reps ?s"
    by (simp add: hint_dead_def)
  moreover have "hints_at (hs_hints ?s) n =
      hints_at (hs_hints s) n @ (if n = m \<and> m \<notin> alive then [hint_of now m key val] else [])"
    using fits by (simp add: StoreHint_def Let_def hint_of_def)
  ultimately show ?case using Cons.prems(1) by auto
qed (simp add: hint_dead_def)

text \<open>A write through the handoff wrapper leaves exactly one hint, with the key and the value, for every
  replica that is not alive, when the store has room, and whatever comes of the write itself. An
  alive replica gets none, also when its write fails.\<close>

theorem dead_replicas_hinted:
  assumes "GetReplicas c key = Inr reps" and "reps \<noteq> []"
    and "hs_totalSize s + int (length reps) * estimateHintSize key val \<le> hc_MaxSize (hs_config s)"
    and "handoff_Write wr order now c key (Some val) (s, w) = ((s', w'), res)"
  shows "GetHintsForNode s' n = GetHintsForNode s n @
    (if n \<in> set reps \<and> n \<notin> set (filterAliveNodes c reps) then [hint_of now n key val] else [])"
proof -
  from assms(1) have reps: "selectReplicas c key = Inr reps" by (simp add: GetReplicas_def)
  with assms(2,4) have "s' = hint_dead now (set (filterAliveNodes c reps)) key val reps s"
    by (simp add: handoff_Write_def GetReplicas_def GetAliveReplicas_def split: prod.splits)
  with selectReplicas_basic [OF reps] assms(3) show ?thesis
    by (simp add: GetHintsForNode_at hint_dead_spec)
qed

lemma dead_replicas_hinted_witness:
  "let c = NewCoordinator (start_ring 1 1 ''b'') (Some (NewGossip 0 (gossip_DefaultConfig ''a'' ''h'' 1))) (majority_config 1 1);
       r = handoff_Write mock_Write (\<lambda>n. [0..<n]) 5 c ''k'' (Some [7]) (hs_empty hint_demo, NewMockReplicaClient)
   in GetHintsForNode (fst (fst r)) ''b'' = [hint_of 5 ''b'' ''k'' [7]]"
proof -
  define c where "c = NewCoordinator (start_ring 1 1 ''b'') (Some (NewGossip 0 (gossip_DefaultConfig ''a'' ''h'' 1)))
    (majority_config 1 1)"
  have reps: "GetReplicas c ''k'' = Inr [''b'']" and dead: "filterAliveNodes c [''b''] = []"
    by (simp_all add: c_def GetReplicas_def selectReplicas_def filterAliveNodes_def NewCoordinator_def
        majority_config_def GetAliveNodes_def NewGossip_def gossip_DefaultConfig_def Let_def)
  obtain s' w' res where r: "handoff_Write mock_Write (\<lambda>n. [0..<n]) 5 c ''k'' (Some [7])
      (hs_empty hint_demo, NewMockReplicaClient) = ((s', w'), res)" by (metis surj_pair)
  have "GetHintsForNode s' ''b'' = GetHintsForNode (hs_empty hint_demo) ''b'' @
      (if ''b'' \<in> set [''b''] \<and> ''b'' \<notin> set (filterAliveNodes c [''b'']) then [hint_of 5 ''b'' ''k'' [7]] else [])"
    by (rule dead_replicas_hinted [OF reps _ _ r])
       (simp_all add: hs_empty_def hint_demo_def hint_DefaultConfig_def estimateHintSize_def)
  moreover have "GetHintsForNode (hs_empty hint_demo) ''b'' = []" by (simp add: hs_empty_def GetHintsForNode_at)
  ultimately show ?thesis by (simp add: dead r Let_def flip: c_def)
qed

section \<open>Merging\<close>

text \<open>The values of the successful responses.\<close>

definition votes :: "Response list \<Rightarrow> bytes list" where
  "votes rs = List.map_filter (\<lambda>r. if Success r then rsp_Value r else None) rs"

lemma votes_simps [simp]:
  "votes [] = []"
  "votes (r # rs) = (if Success r then (case rsp_Value r of None \<Rightarrow> votes rs | Some v \<Rightarrow> v # votes rs) else votes rs)"
  by (auto simp: votes_def map_filter_simps split: option.splits)

definition tally :: "bytes list \<Rightarrow> (bytes \<times> int) list \<Rightarrow> bool" where
  "tally vs m \<longleftrightarrow> distinct (map fst m) \<and>
     map_of m = (\<lambda>v. if v \<in> set vs then Some (int (count_list vs v)) else None)"

lemma count_value_tally:
  "tally us m \<Longrightarrow> tally (us @ votes rs) (fold count_value rs m)"
proof (induction rs arbitrary: us m)
  case (Cons r rs)
  show ?case
  proof (cases "Success r \<and> rsp_Value r \<noteq> None")
    case True
    then obtain v where v: "Success r" "rsp_Value r = Some v" by auto
    with Cons.prems have "tally (us @ [v]) (count_value r m)"
      by (auto simp: tally_def count_value_def fun_eq_iff split: option.splits if_splits)
    from Cons.IH [OF this] v show ?thesis by simp
  next
    case False
    then have "count_value r m = m" "votes (r # rs) = votes rs" by (auto simp: count_value_def)
    with Cons show ?thesis by simp
  qed
qed simp

lemma tally_set: "tally vs m \<Longrightarrow> (v, n) \<in> set m \<longleftrightarrow> v \<in> set vs \<and> n = int (count_list vs v)"
  by (auto simp: tally_def map_of_eq_Some_iff [symmetric] split: if_splits)

lemma max_loop_spec:
  "(\<forall>e\<in>set m. snd e \<le> mx) \<and> max_loop m mx res = res \<or>
   (\<exists>pre v n post. m = pre @ (v, n) # post \<and> n > mx \<and> (\<forall>e\<in>set m. snd e \<le> n) \<and> max_loop m mx res = Some v)"
proof (induction m arbitrary: mx res)
  case (Cons e m)
  obtain v n where e: "e = (v, n)" by (cases e)
  show ?case
  proof (cases "n > mx")
    case True
    from Cons.IH [of n "Some v"] show ?thesis
    proof
      assume "(\<forall>e\<in>set m. snd e \<le> n) \<and> max_loop m n (Some v) = Some v"
      with True e show ?thesis by (intro disjI2 exI [of _ "[]"] exI [of _ v] exI [of _ n] exI [of _ m]) auto
    next
      assume "\<exists>pre u k post. m = pre @ (u, k) # post \<and> k > n \<and> (\<forall>e\<in>set m. snd e \<le> k) \<and> max_loop m n (Some v) = Some u"
      then obtain pre u k post where "m = pre @ (u, k) # post" "k > n" "\<forall>e\<in>set m. snd e \<le> k"
        "max_loop m n (Some v) = Some u" by blast
      with True e show ?thesis by (intro disjI2 exI [of _ "e # pre"] exI [of _ u] exI [of _ k] exI [of _ post]) auto
    qed
  next
    case False
    from Cons.IH [of mx res] show ?thesis
    proof
      assume "(\<forall>e\<in>set m. snd e \<le> mx) \<and> max_loop m mx res = res"
      with False e show ?thesis by simp
    next
      assume "\<exists>pre u k post. m = pre @ (u, k) # post \<and> k > mx \<and> (\<forall>e\<in>set m. snd e \<le> k) \<and> max_loop m mx res = Some u"
      then obtain pre u k post where "m = pre @ (u, k) # post" "k > mx" "\<forall>e\<in>set m. snd e \<le> k"
        "max_loop m mx res = Some u" by blast
      with False e show ?thesis by (intro disjI2 exI [of _ "e # pre"] exI [of _ u] exI [of _ k] exI [of _ post]) auto
    qed
  qed
qed simp

lemma first_loop_votes: "first_loop rs = (case votes rs of [] \<Rightarrow> None | v # vs \<Rightarrow> Some v)"
  by (induction rs) (auto split: option.splits)

lemma max_loop_keep: "\<forall>e\<in>set m. snd e \<le> mx \<Longrightarrow> max_loop m mx res = res"
  by (induction m) auto

lemma fold_count_tally: "tally (votes rs) (fold count_value rs [])"
  using count_value_tally [of "[]" "[]" rs] by (simp add: tally_def)

lemma merge_votes:
  assumes "reorders rng"
  shows "case mergeReadResponses rng rs of None \<Rightarrow> votes rs = []
    | Some v \<Rightarrow> v \<in> set (votes rs) \<and> (\<forall>u. count_list (votes rs) u \<le> count_list (votes rs) v)"
proof (cases "rs = []")
  case True
  then show ?thesis by (simp add: mergeReadResponses_def)
next
  case False
  let ?m = "rng (fold count_value rs [])"
  have "set ?m = set (fold count_value rs [])"
    using assms by (metis reorders_def mset_eq_setD)
  with tally_set [OF fold_count_tally, of _ _ rs]
  have m: "(v, n) \<in> set ?m \<longleftrightarrow> v \<in> set (votes rs) \<and> n = int (count_list (votes rs) v)" for v n by auto
  show ?thesis
  proof (rule disjE [OF max_loop_spec [of ?m 0 None]])
    assume r: "(\<forall>e\<in>set ?m. snd e \<le> 0) \<and> max_loop ?m 0 None = None"
    have "votes rs = []"
    proof (rule ccontr)
      assume "votes rs \<noteq> []"
      then obtain v where v: "v \<in> set (votes rs)" by (cases "votes rs") auto
      with m have "(v, int (count_list (votes rs) v)) \<in> set ?m" by simp
      with r have "int (count_list (votes rs) v) \<le> 0" by (metis snd_conv)
      with v show False by (simp add: count_list_0_iff)
    qed
    with r False show ?thesis by (simp add: mergeReadResponses_def Let_def first_loop_votes)
  next
    assume "\<exists>pre v n post. ?m = pre @ (v, n) # post \<and> 0 < n \<and> (\<forall>e\<in>set ?m. snd e \<le> n) \<and> max_loop ?m 0 None = Some v"
    then obtain v n where vn: "(v, n) \<in> set ?m" "\<forall>e\<in>set ?m. snd e \<le> n" "max_loop ?m 0 None = Some v"
      by (metis in_set_conv_decomp)
    have "count_list (votes rs) u \<le> count_list (votes rs) v" for u
    proof (cases "u \<in> set (votes rs)")
      case True
      with m have "(u, int (count_list (votes rs) u)) \<in> set ?m" by simp
      with vn(2) have "int (count_list (votes rs) u) \<le> n" by fastforce
      with m vn(1) show ?thesis by simp
    qed (simp add: count_list_0_iff)
    with m vn False show ?thesis by (simp add: mergeReadResponses_def Let_def)
  qed
qed

lemma merge_can_choose:
  assumes "v \<in> set (votes rs)" and "\<forall>u. count_list (votes rs) u \<le> count_list (votes rs) v"
  shows "\<exists>rng. reorders rng \<and> mergeReadResponses rng rs = Some v"
proof -
  let ?e = "(v, int (count_list (votes rs) v))"
  define rng where "rng = (\<lambda>xs. if ?e \<in> set xs then ?e # remove1 ?e xs else xs)"
  have "reorders rng" by (auto simp: reorders_def rng_def)
  moreover have "?e \<in> set (fold count_value rs [])"
    using tally_set [OF fold_count_tally] assms(1) by simp
  moreover have "\<forall>e\<in>set (remove1 ?e (fold count_value rs [])). snd e \<le> int (count_list (votes rs) v)"
    using tally_set [OF fold_count_tally, of _ _ rs] assms(2) set_remove1_subset
    by (metis (no_types, lifting) of_nat_le_iff prod.collapse subsetD)
  moreover have "count_list (votes rs) v > 0" using assms(1) by (metis count_list_0_iff gr0I)
  moreover from assms(1) have "rs \<noteq> []" by auto
  ultimately show ?thesis
    by (intro exI [of _ rng]) (simp add: mergeReadResponses_def rng_def max_loop_keep)
qed

text \<open>What a quorum read can answer, over every order in which Go may range over the counts: exactly the
  values with most votes among the successful responses, so a tie may go either way; and nothing
  exactly when no response holds a value.\<close>

theorem merge_answers:
  "(\<exists>rng. reorders rng \<and> mergeReadResponses rng rs = res) \<longleftrightarrow>
   (case res of None \<Rightarrow> votes rs = []
    | Some v \<Rightarrow> v \<in> set (votes rs) \<and> (\<forall>u. count_list (votes rs) u \<le> count_list (votes rs) v))"
proof
  assume "\<exists>rng. reorders rng \<and> mergeReadResponses rng rs = res"
  with merge_votes [of _ rs] show "case res of None \<Rightarrow> votes rs = []
    | Some v \<Rightarrow> v \<in> set (votes rs) \<and> (\<forall>u. count_list (votes rs) u \<le> count_list (votes rs) v)" by blast
next
  assume r: "case res of None \<Rightarrow> votes rs = []
    | Some v \<Rightarrow> v \<in> set (votes rs) \<and> (\<forall>u. count_list (votes rs) u \<le> count_list (votes rs) v)"
  show "\<exists>rng. reorders rng \<and> mergeReadResponses rng rs = res"
  proof (cases res)
    case None
    with r merge_votes [OF reorders_id(1), of rs] reorders_id(1) show ?thesis
      by (auto split: option.splits intro!: exI [of _ "\<lambda>xs. xs"])
  next
    case (Some v)
    with r merge_can_choose [of v rs] show ?thesis by simp
  qed
qed

section \<open>Stale reads\<close>

text \<open>A gossip state in which the local node and some others are alive.\<close>

definition alive_gossip :: "NodeID \<Rightarrow> NodeID list \<Rightarrow> Gossip" where
  "alive_gossip a bs = (NewGossip 0 (gossip_DefaultConfig a ''h'' 1))
     \<lparr>gs_endpointStates := map (\<lambda>b. (b, \<lparr>es_NodeID = b, es_State = NodeStateAlive, es_Heartbeat = 1, es_Generation = 1,
        es_LastUpdate = 0, es_ApplicationState = []\<rparr>)) bs\<rparr>"

lemma alive_gossip_nodes [simp]: "GetAliveNodes (alive_gossip a bs) = a # bs"
  by (simp add: alive_gossip_def GetAliveNodes_def NewGossip_def gossip_DefaultConfig_def Let_def filter_map comp_def)

lemma mock_Write_simps [simp]:
  "snd (mock_Write n k v w) = Inr ()"
  "mock_Read n' k' (fst (mock_Write n k v w)) = (if n' = n \<and> k' = k then Inr v else mock_Read n' k' w)"
proof -
  show "snd (mock_Write n k v w) = Inr ()" by (rule mock_Write_ok)
  then have "mock_Write n k v w = (fst (mock_Write n k v w), Inr ())" by (simp add: prod_eq_iff)
  from mock.read_own [OF this] mock.read_other [of n' n k' k v w]
  show "mock_Read n' k' (fst (mock_Write n k v w)) = (if n' = n \<and> k' = k then Inr v else mock_Read n' k' w)"
    by auto
qed

text \<open>A write to two or three replicas with the mock client, in the order of the replicas.\<close>

definition put_all :: "string \<Rightarrow> slice_bytes \<Rightarrow> NodeID list \<Rightarrow> mock_data \<Rightarrow> mock_data" where
  "put_all key val reps w = fold (\<lambda>n w. fst (mock_Write n key val w)) reps w"

lemma mock_coord_Write:
  assumes "selectReplicas c key = Inr reps" and "reps \<noteq> []" and "filterAliveNodes c reps = alive"
    and "0 \<le> WriteQuorum (co_config c)" and "WriteQuorum (co_config c) \<le> int (length alive)"
    and "length alive = 2 \<or> length alive = 3"
  shows "coord_Write mock_Write (\<lambda>n. [0..<n]) c key val w = (put_all key val alive w, Inr ())"
proof -
  consider a b where "alive = [a, b]" | a b d where "alive = [a, b, d]"
    using assms(6) by (auto simp: length_Suc_conv numeral_2_eq_2 numeral_3_eq_3)
  then show ?thesis
    using assms(1-5)
    by cases (auto simp: coord_Write_def writeToReplicas_def put_all_def waitForQuorum_def Let_def
        upt_rec case_prod_beta)
qed

lemma mock_handoff_Write:
  assumes "selectReplicas c key = Inr reps" and "reps \<noteq> []" and "filterAliveNodes c reps = alive"
    and "0 \<le> WriteQuorum (co_config c)" and "WriteQuorum (co_config c) \<le> int (length alive)"
    and "length alive = 2 \<or> length alive = 3"
  shows "handoff_Write mock_Write (\<lambda>n. [0..<n]) now c key (Some val) (s, w) =
    ((hint_dead now (set alive) key val reps s, put_all key (Some val) alive w), Inr ())"
  using assms mock_coord_Write [OF assms] by (simp add: handoff_Write_def GetReplicas_def GetAliveReplicas_def)

text \<open>Overlapping quorums do not make reads current: with three replicas and majority quorums, after
  \<open>v1\<close> was acknowledged by all three and \<open>v2\<close> by two while the third was down, a later
  successful read while the second is down may answer \<open>v1\<close>. The values have one vote each and the
  range loop decides.\<close>

theorem stale_read:
  assumes "selectReplicas c key = Inr [a, b, d]" and "co_config c = majority_config 3 timeout" and "v1 \<noteq> v2"
  shows "\<exists>g1 g2 w1 w2 rng. reorders rng \<and>
    coord_Write mock_Write (\<lambda>n. [0..<n]) (c\<lparr>co_gossip := None\<rparr>) key (Some v1) w = (w1, Inr ()) \<and>
    coord_Write mock_Write (\<lambda>n. [0..<n]) (c\<lparr>co_gossip := Some g1\<rparr>) key (Some v2) w1 = (w2, Inr ()) \<and>
    coord_Read mock_Read rng (c\<lparr>co_gossip := Some g2\<rparr>) key w2 = Inr (Some v1)"
proof -
  from selectReplicas_basic [OF assms(1)] have d: "a \<noteq> b" "a \<noteq> d" "b \<noteq> d" by auto
  let ?w1 = "put_all key (Some v1) [a, b, d] w"
  let ?w2 = "put_all key (Some v2) [a, b] ?w1"
  have q: "WriteQuorum (co_config c) = 2" "ReadQuorum (co_config c) = 2"
    by (simp_all add: assms(2) majority_config_def)
  have "coord_Write mock_Write (\<lambda>n. [0..<n]) (c\<lparr>co_gossip := None\<rparr>) key (Some v1) w = (?w1, Inr ())"
    by (rule mock_coord_Write [where reps = "[a, b, d]"]) (simp_all add: assms(1) q filterAliveNodes_def)
  moreover have "coord_Write mock_Write (\<lambda>n. [0..<n]) (c\<lparr>co_gossip := Some (alive_gossip a [b])\<rparr>) key (Some v2) ?w1 =
      (?w2, Inr ())"
    by (rule mock_coord_Write [where reps = "[a, b, d]"]) (use d in \<open>simp_all add: assms(1) q filterAliveNodes_def\<close>)
  moreover have "coord_Read mock_Read rev (c\<lparr>co_gossip := Some (alive_gossip a [d])\<rparr>) key ?w2 = Inr (Some v1)"
  proof -
    have "mock_Read a key ?w2 = Inr (Some v2)" "mock_Read d key ?w2 = Inr (Some v1)"
      using d by (simp_all add: put_all_def)
    moreover have "filterAliveNodes (c\<lparr>co_gossip := Some (alive_gossip a [d])\<rparr>) [a, b, d] = [a, d]"
      using d by (simp add: filterAliveNodes_def)
    ultimately show ?thesis
      using assms(3) by (simp add: coord_Read_def ReadWithResponses_def assms(1) q readFromReplicas_def
          read_response_def waitForQuorum_def mergeReadResponses_def count_value_def Let_def)
  qed
  ultimately show ?thesis using reorders_id(2) by blast
qed

text \<open>A ring of three nodes with one virtual node each.\<close>

definition three_ring :: Ring where
  "three_ring = \<lparr>virtualNodes = map (\<lambda>(h, n). \<lparr>Hash = h, NodeID = n, Index = 0\<rparr>) [(1, ''a''), (2, ''b''), (3, ''c'')],
     ring_nodes = [(''a'', 1), (''b'', 1), (''c'', 1)], virtualNodesPerNode = 1, replicationFactor = 3\<rparr>"

lemma three_ring_owners: "length (GetOwners three_ring key) = 3"
proof -
  have ring: "virtualNodes three_ring = map (\<lambda>(h, n). \<lparr>Hash = h, NodeID = n, Index = 0\<rparr>)
      [(1, ''a''), (2, ''b''), (3, ''c'')]" "replicationFactor three_ring = 3"
    by (simp_all add: three_ring_def)
  have "length (owners_loop three_ring i [0, 1, 2] [] {}) = 3" if "i = 0 \<or> i = 1 \<or> i = 2" for i
    using that by (elim disjE) (simp_all add: ring)
  moreover have "findVirtualNode three_ring (hashKey key) < 3"
    using findVirtualNode_less [of three_ring "hashKey key"] by (simp add: ring)
  then have "findVirtualNode three_ring (hashKey key) \<in> {0, 1, 2}" by auto
  moreover have "[0..<length (virtualNodes three_ring)] = [0, 1, 2]" by (simp add: ring)
  ultimately show ?thesis by (simp add: GetOwners_def) (simp add: ring)
qed

lemma stale_read_witness:
  "\<exists>c. co_config c = majority_config 3 5000 \<and>
   (\<exists>g1 g2 w1 w2 rng. reorders rng \<and>
    coord_Write mock_Write (\<lambda>n. [0..<n]) (c\<lparr>co_gossip := None\<rparr>) ''k'' (Some [1]) NewMockReplicaClient = (w1, Inr ()) \<and>
    coord_Write mock_Write (\<lambda>n. [0..<n]) (c\<lparr>co_gossip := Some g1\<rparr>) ''k'' (Some [2]) w1 = (w2, Inr ()) \<and>
    coord_Read mock_Read rng (c\<lparr>co_gossip := Some g2\<rparr>) ''k'' w2 = Inr (Some [1]))"
proof -
  let ?c = "NewCoordinator three_ring None (majority_config 3 5000)"
  obtain a b d where "GetOwners three_ring ''k'' = [a, b, d]"
    using three_ring_owners [of "''k''"] by (auto simp: length_Suc_conv numeral_3_eq_3)
  then have sel: "selectReplicas ?c ''k'' = Inr [a, b, d]"
    by (simp add: selectReplicas_def NewCoordinator_def majority_config_def)
  show ?thesis
    by (intro exI [of _ ?c] conjI stale_read [OF sel, of 5000]) (simp_all add: NewCoordinator_def)
qed

end
