(* ===== verification/Dispatcher.thy ===== *)
theory Dispatcher
  imports Coordinator
begin

text \<open>
  Replaying hints, \<^verbatim>\<open>src/core/cluster/handoff/dispatcher.go\<close>. The dispatcher writes through the
  coordinator it was given (\<open>cw\<close>), or else through the replica client (\<open>rc\<close>). A stop signal or the
  timeout of a batch ends it early: \<open>lim i\<close> hints of batch \<open>i\<close> are handled. The batch size is positive.
\<close>

section \<open>Dispatcher\<close>

record DispatcherConfig =
  ReplayInterval :: int
  ReplayBatchSize :: int
  ReplayConcurrency :: int
  dc_WriteTimeout :: int

definition DefaultDispatcherConfig :: DispatcherConfig where
  "DefaultDispatcherConfig =
     \<lparr>ReplayInterval = 5 * 1000000000, ReplayBatchSize = 100, ReplayConcurrency = 1, dc_WriteTimeout = 5 * 1000000000\<rparr>"

record Dispatcher =
  ds_config :: DispatcherConfig
  replaying :: "NodeID set"
  ds_running :: bool
  ds_hintsReplayed :: int
  ds_hintsFailed :: int
  ds_replayErrors :: int

definition NewDispatcher :: "DispatcherConfig \<Rightarrow> Dispatcher" where
  "NewDispatcher config =
     \<lparr>ds_config = config, replaying = {}, ds_running = False, ds_hintsReplayed = 0, ds_hintsFailed = 0,
      ds_replayErrors = 0\<rparr>"

definition ds_Start :: "Dispatcher \<Rightarrow> Dispatcher \<times> unit go" where
  "ds_Start d = (if ds_running d then (d, Inl (Fail ''dispatcher is already running'')) else (d\<lparr>ds_running := True\<rparr>, Inr ()))"

definition ds_Stop :: "Dispatcher \<Rightarrow> Dispatcher" where
  "ds_Stop d = (if \<not> ds_running d then d else d\<lparr>ds_running := False\<rparr>)"

type_synonym 'w hint_writer = "string \<Rightarrow> bytes \<Rightarrow> 'w \<Rightarrow> 'w \<times> unit go"

definition replayHint :: "'w hint_writer option \<Rightarrow> 'w writer option \<Rightarrow> NodeID \<Rightarrow> Hint \<Rightarrow> 'w \<Rightarrow> 'w \<times> unit go" where
  "replayHint cw rc nodeID hint w =
     (let expectedCRC = calculateCRC hint
      in if hint_CRC32 hint \<noteq> expectedCRC then (w, Inl (Fail ''hint CRC mismatch''))
         else (case cw of
             Some write \<Rightarrow> (case write (Key hint) (Value hint) w of
                 (w, res) \<Rightarrow> (w, rwrap ''failed to replay hint via coordinator'' res))
           | None \<Rightarrow> (case rc of
                 Some write \<Rightarrow> (case write nodeID (Key hint) (Some (Value hint)) w of
                     (w, res) \<Rightarrow> (w, rwrap ''failed to replay hint via replica client'' res))
               | None \<Rightarrow> (w, Inl (Fail ''no coordinator or replica client available'')))))"

definition replay_one ::
  "'w hint_writer option \<Rightarrow> 'w writer option \<Rightarrow> NodeID \<Rightarrow> Hint \<Rightarrow> Dispatcher \<times> HintStore \<times> 'w \<Rightarrow> Dispatcher \<times> HintStore \<times> 'w" where
  "replay_one cw rc nodeID hint = (\<lambda>(d, s, w).
     case replayHint cw rc nodeID hint w of
       (w, Inl e) \<Rightarrow> (d\<lparr>ds_hintsFailed := ds_hintsFailed d + 1, ds_replayErrors := ds_replayErrors d + 1\<rparr>, s, w)
     | (w, Inr u) \<Rightarrow> (d\<lparr>ds_hintsReplayed := ds_hintsReplayed d + 1\<rparr>,
                      MarkHintReplayed (RemoveHint nodeID (Key hint) s), w))"

definition replayBatch ::
  "'w hint_writer option \<Rightarrow> 'w writer option \<Rightarrow> nat \<Rightarrow> NodeID \<Rightarrow> Hint list \<Rightarrow>
     Dispatcher \<times> HintStore \<times> 'w \<Rightarrow> Dispatcher \<times> HintStore \<times> 'w" where
  "replayBatch cw rc n nodeID hints = fold (replay_one cw rc nodeID) (take n hints)"

definition replayHintsForNode ::
  "'w hint_writer option \<Rightarrow> 'w writer option \<Rightarrow> (nat \<Rightarrow> nat) \<Rightarrow> NodeID \<Rightarrow>
     Dispatcher \<times> HintStore \<times> 'w \<Rightarrow> Dispatcher \<times> HintStore \<times> 'w" where
  "replayHintsForNode cw rc lim nodeID = (\<lambda>(d, s, w).
     if nodeID \<in> replaying d then (d, s, w)
     else
       let d = d\<lparr>replaying := insert nodeID (replaying d)\<rparr>;
           hints = GetHintsForNode s nodeID;
           batches = chop (nat (ReplayBatchSize (ds_config d))) hints;
           (d, s, w) = (if length hints = 0 then (d, s, w)
                        else fold (\<lambda>(i, batch). replayBatch cw rc (lim i) nodeID batch)
                               (zip [0..<length batches] batches) (d, s, w))
       in (d\<lparr>replaying := replaying d - {nodeID}\<rparr>, s, w))"

definition checkAndReplay ::
  "'w hint_writer option \<Rightarrow> 'w writer option \<Rightarrow> (nat \<Rightarrow> nat) \<Rightarrow> NodeID list \<Rightarrow>
     Dispatcher \<times> HintStore \<times> 'w \<Rightarrow> Dispatcher \<times> HintStore \<times> 'w" where
  "checkAndReplay cw rc lim aliveNodes = (\<lambda>(d, s, w).
     if NodesWithHints (hs_GetStats s) = 0 then (d, s, w)
     else
       let aliveSet = set aliveNodes;
           nodesToReplay = filter (\<lambda>nodeID. nodeID \<in> aliveSet \<and> nodeID \<notin> replaying d) (GetNodesWithHints s)
       in fold (replayHintsForNode cw rc lim) nodesToReplay (d, s, w))"

text \<open>
  \<^verbatim>\<open>replayLoop\<close>: each round is given how long its check took and which nodes gossip called alive
  then; after a round and the interval the loop returns when its deadline has passed. The list of
  rounds ends where the dispatcher is stopped.
\<close>

fun replayLoop ::
  "'w hint_writer option \<Rightarrow> 'w writer option \<Rightarrow> (nat \<Rightarrow> nat) \<Rightarrow> time \<Rightarrow> time \<Rightarrow> (int \<times> NodeID list) list \<Rightarrow>
     Dispatcher \<times> HintStore \<times> 'w \<Rightarrow> Dispatcher \<times> HintStore \<times> 'w" where
  "replayLoop cw rc lim deadline now [] st = st"
| "replayLoop cw rc lim deadline now ((duration, aliveNodes) # rounds) st =
     (let st = checkAndReplay cw rc lim aliveNodes st;
          now = now + duration + ReplayInterval (ds_config (fst st))
      in if now > deadline then st else replayLoop cw rc lim deadline now rounds st)"

definition run_dispatcher ::
  "'w hint_writer option \<Rightarrow> 'w writer option \<Rightarrow> (nat \<Rightarrow> nat) \<Rightarrow> time \<Rightarrow> (int \<times> NodeID list) list \<Rightarrow>
     Dispatcher \<times> HintStore \<times> 'w \<Rightarrow> Dispatcher \<times> HintStore \<times> 'w" where
  "run_dispatcher cw rc lim now rounds st = replayLoop cw rc lim (now + 1 * 1000000000) now rounds st"

definition TriggerReplay ::
  "'w hint_writer option \<Rightarrow> 'w writer option \<Rightarrow> (nat \<Rightarrow> nat) \<Rightarrow> NodeID \<Rightarrow>
     Dispatcher \<times> HintStore \<times> 'w \<Rightarrow> (Dispatcher \<times> HintStore \<times> 'w) \<times> unit go" where
  "TriggerReplay cw rc lim nodeID = (\<lambda>(d, s, w).
     if \<not> ds_running d then ((d, s, w), Inl (Fail ''dispatcher is not running''))
     else (replayHintsForNode cw rc lim nodeID (d, s, w), Inr ()))"

record DispatcherStats =
  st_HintsReplayed :: int
  st_HintsFailed :: int
  st_ReplayErrors :: int
  st_NodesReplaying :: int

definition ds_GetStats :: "Dispatcher \<Rightarrow> DispatcherStats" where
  "ds_GetStats d =
     \<lparr>st_HintsReplayed = ds_hintsReplayed d, st_HintsFailed = ds_hintsFailed d, st_ReplayErrors = ds_replayErrors d,
      st_NodesReplaying = int (card (replaying d))\<rparr>"

definition IsReplaying :: "Dispatcher \<Rightarrow> NodeID \<Rightarrow> bool" where
  "IsReplaying d nodeID \<longleftrightarrow> nodeID \<in> replaying d"

section \<open>One node's hints\<close>

lemma hints_at_RemoveHint:
  "hints_at (hs_hints (RemoveHint n key s)) m =
     (if m = n then filter (\<lambda>h. Key h \<noteq> key) (hints_at (hs_hints s) n) else hints_at (hs_hints s) m)"
  by (simp add: RemoveHint_def remove_loop_filter Let_def)

lemma concat_chop: "n > 0 \<Longrightarrow> concat (chop n xs) = xs"
proof (induction n xs rule: chop.induct)
  case (1 n xs)
  then show ?case by (subst chop.simps) auto
qed

lemma length_chop: "b \<in> set (chop n xs) \<Longrightarrow> length b \<le> n"
proof (induction n xs rule: chop.induct)
  case (1 n xs)
  then show ?case by (subst (asm) (2) chop.simps) (auto split: if_splits)
qed

lemma fold_batches:
  assumes "\<forall>b\<in>set bs. \<forall>i. length b \<le> lim i"
  shows "fold (\<lambda>(i, b). replayBatch cw rc (lim i) n b) (zip is bs) st =
    fold (replay_one cw rc n) (concat (take (length is) bs)) st"
  using assms
proof (induction bs arbitrary: "is" st)
  case (Cons b bs)
  show ?case
  proof (cases "is")
    case (Cons i js)
    with Cons.IH [of js] Cons.prems show ?thesis by (simp add: replayBatch_def)
  qed simp
qed simp

lemma replay_node_fold:
  assumes "n \<notin> replaying d" and "0 < ReplayBatchSize (ds_config d)" and "\<forall>i. ReplayBatchSize (ds_config d) \<le> int (lim i)"
  shows "replayHintsForNode cw rc lim n (d, s, w) =
    (case fold (replay_one cw rc n) (GetHintsForNode s n) (d\<lparr>replaying := insert n (replaying d)\<rparr>, s, w) of
       (d, s, w) \<Rightarrow> (d\<lparr>replaying := replaying d - {n}\<rparr>, s, w))"
proof -
  let ?k = "nat (ReplayBatchSize (ds_config d))"
  have "\<forall>b\<in>set (chop ?k (GetHintsForNode s n)). \<forall>i. length b \<le> lim i"
    using assms(3) length_chop by (metis (no_types, lifting) le_trans nat_le_iff)
  with assms concat_chop [of ?k "GetHintsForNode s n"] show ?thesis
    by (simp add: replayHintsForNode_def Let_def fold_batches)
qed

lemma replay_success:
  assumes "\<forall>h\<in>set hs. hint_CRC32 h = calculateCRC h" and "\<forall>k v w. snd (write k v w) = Inr ()"
  shows "fold (replay_one (Some write) rc n) hs (d, s, w) =
    (d\<lparr>ds_hintsReplayed := ds_hintsReplayed d + int (length hs)\<rparr>,
     fold (\<lambda>h s. MarkHintReplayed (RemoveHint n (Key h) s)) hs s,
     fold (\<lambda>h w. fst (write (Key h) (Value h) w)) hs w)"
  using assms(1)
proof (induction hs arbitrary: d s w)
  case (Cons h hs)
  obtain w1 where w1: "write (Key h) (Value h) w = (w1, Inr ())"
    using assms(2) by (metis prod.collapse)
  with Cons show ?case by (simp add: replay_one_def replayHint_def Let_def)
qed simp

lemma remove_all:
  "hints_at (hs_hints (fold (\<lambda>h s. MarkHintReplayed (RemoveHint n (Key h) s)) hs s)) m =
     (if m = n then filter (\<lambda>h. Key h \<notin> Key ` set hs) (hints_at (hs_hints s) n) else hints_at (hs_hints s) m)"
proof (induction hs arbitrary: s)
  case (Cons h hs)
  then show ?case by (auto simp: MarkHintReplayed_def hints_at_RemoveHint intro: filter_cong)
qed simp

text \<open>C21. A replay that is not interrupted and whose writes succeed delivers: the node's hints are written once
  each in the order they came, they leave the store, other nodes' hints stay, and the counters
  agree.\<close>

theorem replay_delivers:
  assumes "stands_for cfg s l" and "n \<notin> replaying d"
    and "0 < ReplayBatchSize (ds_config d)" and "\<forall>i. ReplayBatchSize (ds_config d) \<le> int (lim i)"
    and "\<forall>k v w. snd (write k v w) = Inr ()"
    and "replayHintsForNode (Some write) rc lim n (d, s, w) = (d', s', w')"
  shows "w' = fold (\<lambda>h w. fst (write (Key h) (Value h) w)) (GetHintsForNode s n) w \<and>
    (\<forall>m. GetHintsForNode s' m = (if m = n then [] else GetHintsForNode s m)) \<and>
    ds_hintsReplayed d' = ds_hintsReplayed d + int (length (GetHintsForNode s n)) \<and>
    ds_hintsFailed d' = ds_hintsFailed d \<and> replaying d' = replaying d"
proof -
  let ?hs = "GetHintsForNode s n"
  from assms(1) have "store_ok s" by (simp add: stands_for_def)
  from store_ok_filed [OF this] have "\<forall>h\<in>set ?hs. hint_CRC32 h = calculateCRC h"
    by (simp add: GetHintsForNode_at)
  from replay_success [OF this assms(5)] replay_node_fold [OF assms(2-4), where cw = "Some write"] assms(2,6)
  show ?thesis by (auto simp: GetHintsForNode_at remove_all filter_empty_conv)
qed

definition hint_demo_store :: HintStore where
  "hint_demo_store = fold hs_exec [OpStore 1 ''n'' ''k'' [7]] (hs_empty hint_demo)"

lemma replay_delivers_witness:
  "\<exists>d' s' w'. replayHintsForNode (Some (\<lambda>k v w. (w @ v, Inr ()))) None (\<lambda>i. 100) ''n''
      (NewDispatcher DefaultDispatcherConfig, hint_demo_store, []) = (d', s', w') \<and> w' = [7] \<and> GetHintsForNode s' ''n'' = []"
proof -
  obtain d' s' w' where r: "replayHintsForNode (Some (\<lambda>k v w. (w @ v, Inr ()))) None (\<lambda>i. 100) ''n''
      (NewDispatcher DefaultDispatcherConfig, hint_demo_store, []) = (d', s', w')" by (metis surj_pair)
  have "stands_for hint_demo hint_demo_store (fold (hint_spec hint_demo) [OpStore 1 ''n'' ''k'' [7]] (loaded hint_demo 1 []))"
    unfolding hint_demo_store_def by (rule exec_all_refines [OF NewStore_refines [OF hint_demo_new]])
  from replay_delivers [OF this _ _ _ _ r]
  have "w' = fold (\<lambda>h w. w @ Value h) (GetHintsForNode hint_demo_store ''n'') [] \<and> GetHintsForNode s' ''n'' = []"
    by (simp add: NewDispatcher_def DefaultDispatcherConfig_def)
  moreover have "GetHintsForNode hint_demo_store ''n'' = [hint_of 1 ''n'' ''k'' [7]]"
    by (simp add: hint_demo_store_def hs_empty_def hint_demo_def hint_DefaultConfig_def StoreHint_def
        estimateHintSize_def Let_def GetHintsForNode_at hint_of_def)
  ultimately show ?thesis using r by (simp add: hint_of_def Let_def)
qed

section \<open>The loop\<close>

lemma replay_one_config: "ds_config (fst (replay_one cw rc n h st)) = ds_config (fst st)"
  by (cases st) (auto simp: replay_one_def split: prod.split sum.split)

lemma fold_config:
  "(\<And>x st. ds_config (fst (f x st)) = ds_config (fst st)) \<Longrightarrow> ds_config (fst (fold f xs st)) = ds_config (fst st)"
  by (induction xs arbitrary: st) simp_all

lemma replayHintsForNode_config: "ds_config (fst (replayHintsForNode cw rc lim n st)) = ds_config (fst st)"
proof -
  have "ds_config (fst (fold (\<lambda>(i, batch). replayBatch cw rc (lim i) n batch) ibs st)) = ds_config (fst st)" for ibs st
    by (rule fold_config) (simp add: replayBatch_def fold_config replay_one_config split: prod.split)
  then show ?thesis
    by (cases st) (simp add: replayHintsForNode_def Let_def case_prod_beta')
qed

lemma checkAndReplay_config: "ds_config (fst (checkAndReplay cw rc lim alive st)) = ds_config (fst st)"
  by (cases st) (simp add: checkAndReplay_def Let_def fold_config replayHintsForNode_config)

text \<open>The replay loop of the server ends: with its five-second interval and the deadline one second after
  the start it returns after a single check, so hints for a node that comes back later, or that
  are stored later, are never replayed by it.\<close>

theorem dispatcher_checks_once:
  assumes "ds_config d = DefaultDispatcherConfig" and "duration \<ge> 0"
  shows "run_dispatcher cw rc lim now ((duration, aliveNodes) # rounds) (d, s, w) =
    checkAndReplay cw rc lim aliveNodes (d, s, w)"
proof -
  have "ds_config (fst (checkAndReplay cw rc lim aliveNodes (d, s, w))) = DefaultDispatcherConfig"
    using assms(1) by (simp add: checkAndReplay_config)
  with assms(2) show ?thesis
    by (simp add: run_dispatcher_def Let_def DefaultDispatcherConfig_def)
qed

lemma dispatcher_checks_once_witness:
  "run_dispatcher None (Some mock_Write) (\<lambda>i. 100) 0 [(3, []), (4, [''n''])]
     (NewDispatcher DefaultDispatcherConfig, hint_demo_store, NewMockReplicaClient) =
   checkAndReplay None (Some mock_Write) (\<lambda>i. 100) []
     (NewDispatcher DefaultDispatcherConfig, hint_demo_store, NewMockReplicaClient)"
  by (rule dispatcher_checks_once) (simp_all add: NewDispatcher_def)

section \<open>Replay and newer writes\<close>

lemma one_hint_replay:
  assumes "hs_hints s = [(n, [hint_of now n key val])]" and "n \<in> set alive" and "lim 0 > 0"
    and "write key val w = (w', Inr ())"
  shows "\<exists>d' s'. checkAndReplay (Some write) rc lim alive (NewDispatcher DefaultDispatcherConfig, s, w) = (d', s', w')"
proof -
  let ?h = "hint_of now n key val"
  have hints: "GetHintsForNode s n = [?h]" using assms(1) by (simp add: GetHintsForNode_at)
  from assms(3) obtain k where k: "lim 0 = Suc k" by (cases "lim 0") auto
  have "\<exists>d' s'. replayHintsForNode (Some write) rc lim n (NewDispatcher DefaultDispatcherConfig, s, w) = (d', s', w')"
    using assms(4) hints k
    by (simp add: replayHintsForNode_def NewDispatcher_def DefaultDispatcherConfig_def chop.simps replayBatch_def
        replay_one_def replayHint_def Let_def)
  then show ?thesis
    using assms(1,2) by (auto simp: checkAndReplay_def hs_GetStats_def GetNodesWithHints_def NewDispatcher_def)
qed

lemma mock_put_all:
  "mock_Read n key (put_all key val reps w) = (if n \<in> set reps then Inr val else mock_Read n key w)"
  by (induction reps arbitrary: w) (auto simp: put_all_def)

text \<open>Replaying a hint destroys newer writes: a write of \<open>v1\<close> while the replica \<open>d\<close> was down leaves a hint; \<open>d\<close>
  comes back and a write of \<open>v2\<close> is acknowledged by all three replicas; the replay then writes
  \<open>v1\<close> through the coordinator and all three replicas hold \<open>v1\<close> again.\<close>

theorem replay_loses_newer_write:
  assumes "selectReplicas c key = Inr [a, b, d]" and "co_config c = majority_config 3 timeout"
    and "3 * estimateHintSize key v1 \<le> hc_MaxSize cfg" and "lim 0 > 0"
  shows "\<exists>g1 g2 s1 w1 s2 w2 ds s3 w3.
    handoff_Write mock_Write (\<lambda>n. [0..<n]) t1 (c\<lparr>co_gossip := Some g1\<rparr>) key (Some v1) (hs_empty cfg, w) = ((s1, w1), Inr ()) \<and>
    handoff_Write mock_Write (\<lambda>n. [0..<n]) t2 (c\<lparr>co_gossip := Some g2\<rparr>) key (Some v2) (s1, w1) = ((s2, w2), Inr ()) \<and>
    (\<forall>n\<in>{a, b, d}. mock_Read n key w2 = Inr (Some v2)) \<and>
    checkAndReplay (Some (\<lambda>k v. coord_Write mock_Write (\<lambda>n. [0..<n]) (c\<lparr>co_gossip := Some g2\<rparr>) k (Some v))) rc lim
      (GetAliveNodes g2) (NewDispatcher DefaultDispatcherConfig, s2, w2) = (ds, s3, w3) \<and>
    (\<forall>n\<in>{a, b, d}. mock_Read n key w3 = Inr (Some v1))"
proof -
  from selectReplicas_basic [OF assms(1)] have d: "a \<noteq> b" "a \<noteq> d" "b \<noteq> d" by auto
  let ?g1 = "alive_gossip a [b]" and ?g2 = "alive_gossip a [b, d]"
  let ?s1 = "hint_dead t1 (set [a, b]) key v1 [a, b, d] (hs_empty cfg)"
  let ?s2 = "hint_dead t2 (set [a, b, d]) key v2 [a, b, d] ?s1"
  let ?w1 = "put_all key (Some v1) [a, b] w"
  let ?w2 = "put_all key (Some v2) [a, b, d] ?w1"
  have q: "WriteQuorum (co_config c) = 2" "ReadQuorum (co_config c) = 2"
    by (simp_all add: assms(2) majority_config_def)
  have alive: "filterAliveNodes (c\<lparr>co_gossip := Some ?g1\<rparr>) [a, b, d] = [a, b]"
    "filterAliveNodes (c\<lparr>co_gossip := Some ?g2\<rparr>) [a, b, d] = [a, b, d]"
    using d by (simp_all add: filterAliveNodes_def)
  have write1: "handoff_Write mock_Write (\<lambda>n. [0..<n]) t1 (c\<lparr>co_gossip := Some ?g1\<rparr>) key (Some v1) (hs_empty cfg, w) =
      ((?s1, ?w1), Inr ())"
    by (rule mock_handoff_Write [where reps = "[a, b, d]"]) (simp_all add: assms(1) q alive)
  have write2: "handoff_Write mock_Write (\<lambda>n. [0..<n]) t2 (c\<lparr>co_gossip := Some ?g2\<rparr>) key (Some v2) (?s1, ?w1) =
      ((?s2, ?w2), Inr ())"
    by (rule mock_handoff_Write [where reps = "[a, b, d]"]) (simp_all add: assms(1) q alive)
  have "estimateHintSize key v1 \<ge> 0" by (simp add: estimateHintSize_def)
  with assms(3) have "\<not> estimateHintSize key v1 > hc_MaxSize cfg" by linarith
  then have hint: "hs_hints ?s2 = [(d, [hint_of t1 d key v1])]"
    using d by (simp add: hint_dead_def StoreHint_def hs_empty_def hint_of_def Let_def)
  have replay: "coord_Write mock_Write (\<lambda>n. [0..<n]) (c\<lparr>co_gossip := Some ?g2\<rparr>) key (Some v1) ?w2 =
      (put_all key (Some v1) [a, b, d] ?w2, Inr ())"
    by (rule mock_coord_Write [where reps = "[a, b, d]"]) (simp_all add: assms(1) q alive)
  let ?put = "\<lambda>k v. coord_Write mock_Write (\<lambda>n. [0..<n]) (c\<lparr>co_gossip := Some ?g2\<rparr>) k (Some v)"
  have "\<exists>ds s3. checkAndReplay (Some ?put) rc lim (GetAliveNodes ?g2)
      (NewDispatcher DefaultDispatcherConfig, ?s2, ?w2) = (ds, s3, put_all key (Some v1) [a, b, d] ?w2)"
    by (rule one_hint_replay [OF hint]) (simp_all add: replay assms(4))
  then obtain ds s3 where "checkAndReplay (Some ?put) rc lim (GetAliveNodes ?g2)
      (NewDispatcher DefaultDispatcherConfig, ?s2, ?w2) = (ds, s3, put_all key (Some v1) [a, b, d] ?w2)" by blast
  with write1 write2 show ?thesis
    by (intro exI [of _ ?g1] exI [of _ ?g2] exI conjI) (assumption | simp add: mock_put_all)+
qed

lemma replay_loses_newer_write_witness:
  "\<exists>c g1 g2 s1 w1 s2 w2 ds s3 w3 d.
    handoff_Write mock_Write (\<lambda>n. [0..<n]) 1 (c\<lparr>co_gossip := Some g1\<rparr>) ''k'' (Some [1])
      (hs_empty (hint_DefaultConfig ''d''), NewMockReplicaClient) = ((s1, w1), Inr ()) \<and>
    handoff_Write mock_Write (\<lambda>n. [0..<n]) 2 (c\<lparr>co_gossip := Some g2\<rparr>) ''k'' (Some [2]) (s1, w1) = ((s2, w2), Inr ()) \<and>
    mock_Read d ''k'' w2 = Inr (Some [2]) \<and>
    checkAndReplay (Some (\<lambda>k v. coord_Write mock_Write (\<lambda>n. [0..<n]) (c\<lparr>co_gossip := Some g2\<rparr>) k (Some v))) None (\<lambda>i. 100)
      (GetAliveNodes g2) (NewDispatcher DefaultDispatcherConfig, s2, w2) = (ds, s3, w3) \<and>
    mock_Read d ''k'' w3 = Inr (Some [1])"
proof -
  let ?c = "NewCoordinator three_ring None (majority_config 3 5000)"
  obtain a b d where "GetOwners three_ring ''k'' = [a, b, d]"
    using three_ring_owners [of "''k''"] by (auto simp: length_Suc_conv numeral_3_eq_3)
  then have sel: "selectReplicas ?c ''k'' = Inr [a, b, d]"
    by (simp add: selectReplicas_def NewCoordinator_def majority_config_def)
  have cfg: "co_config ?c = majority_config 3 5000" by (simp add: NewCoordinator_def)
  have room: "3 * estimateHintSize ''k'' [1] \<le> hc_MaxSize (hint_DefaultConfig ''d'')"
    by (simp add: estimateHintSize_def hint_DefaultConfig_def)
  have "0 < (\<lambda>i :: nat. 100 :: nat) 0" by simp
  from replay_loses_newer_write [OF sel cfg room this, of 1 NewMockReplicaClient 2 "[2]" None]
  show ?thesis by blast
qed

end
