(* ===== verification/Repair.thy ===== *)
theory Repair
  imports Coordinator Scheduling
begin

text \<open>
  Read repair, \<^verbatim>\<open>src/core/cluster/repair\<close>: the detector compares the responses of a read, the
  scheduler queues and rate-limits the repairs, the executor writes. Range loops over maps take
  their order as an argument. A target node is stored as an interface value: a node or something
  else.
\<close>

section \<open>Tasks\<close>

datatype Priority = PriorityLow | PriorityNormal | PriorityHigh

definition priority_int :: "Priority \<Rightarrow> int" where
  "priority_int p = (case p of PriorityLow \<Rightarrow> 0 | PriorityNormal \<Rightarrow> 1 | PriorityHigh \<Rightarrow> 2)"

instantiation Priority :: linorder
begin

definition less_eq_Priority :: "Priority \<Rightarrow> Priority \<Rightarrow> bool" where
  "less_eq_Priority a b \<longleftrightarrow> priority_int a \<le> priority_int b"

definition less_Priority :: "Priority \<Rightarrow> Priority \<Rightarrow> bool" where
  "less_Priority a b \<longleftrightarrow> priority_int a < priority_int b"

instance
  by standard (auto simp: less_eq_Priority_def less_Priority_def priority_int_def split: Priority.splits)

end

datatype target = TargetNode NodeID | TargetOther

record RepairTask =
  rt_Key :: string
  rt_CorrectValue :: slice_bytes
  rt_TargetNodes :: "target list"
  rt_Priority :: Priority
  rt_CreatedAt :: int64

section \<open>Scheduler\<close>

record RateLimiter =
  rl_maxRate :: int
  rl_opsCount :: int
  rl_windowStart :: time

text \<open>The count grows only below \<open>maxRate\<close> and so never overflows.\<close>

definition NewRateLimiter :: "time \<Rightarrow> int \<Rightarrow> RateLimiter" where
  "NewRateLimiter now maxRate = \<lparr>rl_maxRate = maxRate, rl_opsCount = 0, rl_windowStart = now\<rparr>"

definition rl_Allow :: "time \<Rightarrow> RateLimiter \<Rightarrow> bool \<times> RateLimiter" where
  "rl_Allow now r =
     (let windowDuration = now - rl_windowStart r;
          r = (if windowDuration \<ge> Second then r\<lparr>rl_opsCount := 0, rl_windowStart := now\<rparr> else r)
      in if rl_opsCount r \<ge> rl_maxRate r then (False, r) else (True, r\<lparr>rl_opsCount := rl_opsCount r + 1\<rparr>))"

text \<open>\<open>Wait\<close> with the readings of the clock; \<open>None\<close>: they are used up. Its context never ends.\<close>

fun rl_Wait :: "time list \<Rightarrow> RateLimiter \<Rightarrow> RateLimiter option" where
  "rl_Wait [] r = None"
| "rl_Wait (now # clock) r = (case rl_Allow now r of (True, r) \<Rightarrow> Some r | (False, r) \<Rightarrow> rl_Wait clock r)"

interpretation repair_rate: window_limiter "\<lambda>now (x :: unit). rl_Allow now" rl_windowStart rl_opsCount rl_maxRate "\<lambda>x. 1"
  "\<lambda>r x. True"
  by unfold_locales (auto simp: rl_Allow_def Let_def split: if_splits)

record SchedulerConfig =
  scc_MaxConcurrent :: int
  scc_MaxRate :: int
  scc_CheckInterval :: int

definition DefaultSchedulerConfig :: SchedulerConfig where
  "DefaultSchedulerConfig = \<lparr>scc_MaxConcurrent = 1, scc_MaxRate = 10, scc_CheckInterval = 100 * 1000000\<rparr>"

record Scheduler =
  sc_taskQueue :: "RepairTask list"
  sc_rateLimiter :: RateLimiter
  sc_workers :: int
  sc_running :: bool
  sc_maxConcurrent :: int
  sc_checkInterval :: int

definition NewScheduler :: "time \<Rightarrow> SchedulerConfig \<Rightarrow> Scheduler" where
  "NewScheduler now config =
     \<lparr>sc_taskQueue = [], sc_rateLimiter = NewRateLimiter now (scc_MaxRate config), sc_workers = 0, sc_running = False,
      sc_maxConcurrent = scc_MaxConcurrent config, sc_checkInterval = scc_CheckInterval config\<rparr>"

definition sc_Start :: "Scheduler \<Rightarrow> Scheduler go" where
  "sc_Start s =
     (if sc_running s then Inl (Fail ''scheduler already running'')
      else Inr (s\<lparr>sc_running := True, sc_workers := sc_maxConcurrent s\<rparr>))"

definition sc_Stop :: "Scheduler \<Rightarrow> Scheduler" where
  "sc_Stop s = (if \<not> sc_running s then s else s\<lparr>sc_running := False\<rparr>)"

definition sc_IsRunning :: "Scheduler \<Rightarrow> bool" where
  "sc_IsRunning s = sc_running s"

definition put_task :: "RepairTask \<Rightarrow> RepairTask list \<Rightarrow> RepairTask list" where
  "put_task task queue = sort_Slice (\<lambda>a b. rt_Priority a > rt_Priority b) (queue @ [task])"

definition ScheduleRepair :: "RepairTask option \<Rightarrow> Scheduler \<Rightarrow> Scheduler \<times> unit go" where
  "ScheduleRepair task s =
     (case task of
        None \<Rightarrow> (s, Inl (Fail ''task cannot be nil''))
      | Some task \<Rightarrow> (s\<lparr>sc_taskQueue := put_task task (sc_taskQueue s)\<rparr>, Inr ()))"

definition take_task :: "RepairTask list \<Rightarrow> (RepairTask \<times> RepairTask list) option" where
  "take_task queue = (if length queue = 0 then None else Some (queue ! 0, drop 1 queue))"

definition dequeueTask :: "Scheduler \<Rightarrow> RepairTask option \<times> Scheduler" where
  "dequeueTask s =
     (case take_task (sc_taskQueue s) of
        None \<Rightarrow> (None, s)
      | Some (task, queue) \<Rightarrow> (Some task, s\<lparr>sc_taskQueue := queue\<rparr>))"

interpretation repair_queue: prio_queue put_task take_task "\<lambda>t. priority_int (rt_Priority t)"
proof
  fix j :: RepairTask and q :: "RepairTask list"
  show "mset (put_task j q) = add_mset j (mset q)" by (simp add: put_task_def)
  show "sorted_wrt (\<lambda>a b. priority_int (rt_Priority a) \<ge> priority_int (rt_Priority b)) (put_task j q)"
    unfolding put_task_def less_Priority_def by (rule sort_Slice_sorted_key_desc)
  show "take_task [] = None" "take_task (j # q) = Some (j, q)"
    by (simp_all add: take_task_def)
qed

definition GetQueueSize :: "Scheduler \<Rightarrow> nat" where
  "GetQueueSize s = length (sc_taskQueue s)"

record SchedulerStats =
  QueueSize :: nat
  ss_IsRunning :: bool
  ss_MaxConcurrent :: int

definition sc_GetStats :: "Scheduler \<Rightarrow> SchedulerStats" where
  "sc_GetStats s =
     \<lparr>QueueSize = length (sc_taskQueue s), ss_IsRunning = sc_IsRunning s, ss_MaxConcurrent = sc_maxConcurrent s\<rparr>"

section \<open>Executor\<close>

record RepairExecutor =
  re_repairsExecuted :: int
  re_repairsFailed :: int

definition NewRepairExecutor :: RepairExecutor where
  "NewRepairExecutor = \<lparr>re_repairsExecuted = 0, re_repairsFailed = 0\<rparr>"

text \<open>The executor's client and coordinator: the first writes to one node, the second to all replicas.\<close>

type_synonym 'w coord_writer = "string \<Rightarrow> slice_bytes \<Rightarrow> 'w \<Rightarrow> 'w \<times> unit go"

definition node_of :: "target \<Rightarrow> NodeID option" where
  "node_of t = (case t of TargetNode n \<Rightarrow> Some n | TargetOther \<Rightarrow> None)"

definition repair_write ::
  "'w coord_writer \<Rightarrow> 'w writer option \<Rightarrow> NodeID \<Rightarrow> string \<Rightarrow> slice_bytes \<Rightarrow> 'w \<Rightarrow> 'w \<times> unit go" where
  "repair_write cw client nodeID key val w =
     (case client of Some write \<Rightarrow> write nodeID key val w | None \<Rightarrow> cw key val w)"

fun repair_loop ::
  "'w coord_writer \<Rightarrow> 'w writer option \<Rightarrow> string \<Rightarrow> slice_bytes \<Rightarrow> NodeID list \<Rightarrow> int \<Rightarrow>
     RepairExecutor \<times> 'w \<Rightarrow> int \<times> RepairExecutor \<times> 'w" where
  "repair_loop cw client key val [] successCount (e, w) = (successCount, e, w)"
| "repair_loop cw client key val (nodeID # targetNodes) successCount (e, w) =
     (case repair_write cw client nodeID key val w of
        (w, Inl err) \<Rightarrow> repair_loop cw client key val targetNodes successCount
                        (e\<lparr>re_repairsFailed := re_repairsFailed e + 1\<rparr>, w)
      | (w, Inr u) \<Rightarrow> repair_loop cw client key val targetNodes (successCount + 1) (e, w))"

definition ExecuteRepair ::
  "'w coord_writer option \<Rightarrow> 'w writer option \<Rightarrow> RepairTask option \<Rightarrow> RepairExecutor \<times> 'w \<Rightarrow>
     (RepairExecutor \<times> 'w) \<times> unit go" where
  "ExecuteRepair coord client task ew =
     (case task of
        None \<Rightarrow> (ew, Inl (Fail ''task cannot be nil''))
      | Some task \<Rightarrow>
          (case coord of
             None \<Rightarrow> (ew, Inl (Fail ''coordinator not set''))
           | Some cw \<Rightarrow>
               let targetNodes = List.map_filter node_of (rt_TargetNodes task)
               in if length targetNodes = 0 then (ew, Inl (Fail ''no valid target nodes''))
                  else
                    (case repair_loop cw client (rt_Key task) (rt_CorrectValue task) targetNodes 0 ew of
                       (successCount, e, w) \<Rightarrow>
                         ((e\<lparr>re_repairsExecuted := re_repairsExecuted e + successCount\<rparr>, w),
                          if successCount = 0 then Inl (Fail ''all repair writes failed'') else Inr ()))))"

definition ExecuteRepairToNode ::
  "'w coord_writer option \<Rightarrow> 'w writer option \<Rightarrow> string \<Rightarrow> slice_bytes \<Rightarrow> NodeID \<Rightarrow> RepairExecutor \<times> 'w \<Rightarrow>
     (RepairExecutor \<times> 'w) \<times> unit go" where
  "ExecuteRepairToNode coord client key val nodeID = (\<lambda>(e, w).
     case coord of
       None \<Rightarrow> ((e, w), Inl (Fail ''coordinator not set''))
     | Some cw \<Rightarrow>
         (case repair_write cw client nodeID key val w of
            (w, Inl err) \<Rightarrow> ((e\<lparr>re_repairsFailed := re_repairsFailed e + 1\<rparr>, w), rwrap ''failed to repair node'' (Inl err))
          | (w, Inr u) \<Rightarrow> ((e\<lparr>re_repairsExecuted := re_repairsExecuted e + 1\<rparr>, w), Inr ())))"

definition re_GetStats :: "RepairExecutor \<Rightarrow> int \<times> int" where
  "re_GetStats e = (re_repairsExecuted e, re_repairsFailed e)"

text \<open>One round of a worker: the task at the head, after the limiter has let it pass. \<open>None\<close>: it still waits.\<close>

definition worker_round ::
  "time list \<Rightarrow> 'w coord_writer option \<Rightarrow> 'w writer option \<Rightarrow> Scheduler \<times> RepairExecutor \<times> 'w \<Rightarrow>
     (Scheduler \<times> RepairExecutor \<times> 'w) option" where
  "worker_round clock coord client = (\<lambda>(s, e, w).
     case dequeueTask s of
       (None, s) \<Rightarrow> Some (s, e, w)
     | (Some task, s) \<Rightarrow>
         (case rl_Wait clock (sc_rateLimiter s) of
            None \<Rightarrow> None
          | Some r \<Rightarrow> (case ExecuteRepair coord client (Some task) (e, w) of
              ((e, w), res) \<Rightarrow> Some (s\<lparr>sc_rateLimiter := r\<rparr>, e, w))))"

section \<open>Detector\<close>

record Detector =
  dt_enabled :: bool
  dt_divergencesDetected :: int

definition NewDetector :: "bool \<Rightarrow> bool \<Rightarrow> Detector" where
  "NewDetector has_scheduler config_Enabled =
     (let enabled = config_Enabled;
          enabled = (if \<not> config_Enabled \<and> has_scheduler then True else enabled)
      in \<lparr>dt_enabled = enabled, dt_divergencesDetected = 0\<rparr>)"

definition group_response :: "Response \<Rightarrow> (bytes \<times> Response list) list \<Rightarrow> (bytes \<times> Response list) list" where
  "group_response resp groups =
     (case rsp_Value resp of
        None \<Rightarrow> groups
      | Some val \<Rightarrow>
          if \<not> Success resp then groups
          else AList.update val ((case map_of groups val of None \<Rightarrow> [] | Some rs \<Rightarrow> rs) @ [resp]) groups)"

fun majority_loop :: "(bytes \<times> Response list) list \<Rightarrow> int \<Rightarrow> slice_bytes \<Rightarrow> int \<times> slice_bytes" where
  "majority_loop [] maxCount majorityValue = (maxCount, majorityValue)"
| "majority_loop ((key, grp) # groups) maxCount majorityValue =
     (if int (length grp) > maxCount
      then majority_loop groups (int (length grp))
             (if length grp > 0 then rsp_Value (grp ! 0) else majorityValue)
      else majority_loop groups maxCount majorityValue)"

definition findMajorityValue :: "(bytes \<times> Response list) list \<Rightarrow> nat \<Rightarrow> slice_bytes" where
  "findMajorityValue groups totalResponses =
     (case majority_loop groups 0 None of
        (maxCount, majorityValue) \<Rightarrow> if maxCount > int (totalResponses div 2) then majorityValue else None)"

definition divergent_nodes :: "bytes \<Rightarrow> (bytes \<times> Response list) list \<Rightarrow> NodeID list" where
  "divergent_nodes correctValue groups =
     concat (map (\<lambda>(valueKey, grp). if valueKey \<noteq> correctValue then map rsp_NodeID grp else []) groups)"

text \<open>\<open>rng\<close> and \<open>rng2\<close> order the two range loops over the groups. Without a scheduler nothing is scheduled.\<close>

type_synonym groups_order = "(bytes \<times> Response list) list \<Rightarrow> (bytes \<times> Response list) list"

definition CheckReadResponses ::
  "groups_order \<Rightarrow> groups_order \<Rightarrow> int64 \<Rightarrow> string \<Rightarrow> Response list \<Rightarrow> Detector \<times> Scheduler option \<Rightarrow>
     (Detector \<times> Scheduler option) \<times> unit go" where
  "CheckReadResponses rng rng2 now key responses = (\<lambda>(d, sched).
     if \<not> dt_enabled d then ((d, sched), Inr ())
     else if length responses < 2 then ((d, sched), Inr ())
     else
       let valueGroups = fold group_response responses []
       in if length valueGroups \<le> 1 then ((d, sched), Inr ())
          else (case findMajorityValue (rng valueGroups) (length responses) of
                  None \<Rightarrow> ((d, sched), Inr ())
                | Some correctValue \<Rightarrow>
                    let divergentNodes = divergent_nodes correctValue (rng2 valueGroups)
                    in if length divergentNodes = 0 then ((d, sched), Inr ())
                       else
                         let d = d\<lparr>dt_divergencesDetected := dt_divergencesDetected d + 1\<rparr>
                         in (case sched of
                               None \<Rightarrow> ((d, sched), Inr ())
                             | Some s \<Rightarrow>
                                 let repairTask = \<lparr>rt_Key = key, rt_CorrectValue = Some correctValue,
                                       rt_TargetNodes = map TargetNode divergentNodes,
                                       rt_Priority = PriorityNormal, rt_CreatedAt = now\<rparr>;
                                     (s, res) = ScheduleRepair (Some repairTask) s
                                 in ((d, Some s), res))))"

text \<open>The coordinator wrapper of the server: a read is passed on, only \<^verbatim>\<open>ReadWithResponses\<close> is checked.\<close>

definition repair_Read ::
  "'w reader \<Rightarrow> ((bytes \<times> int) list \<Rightarrow> (bytes \<times> int) list) \<Rightarrow> Coordinator \<Rightarrow> string \<Rightarrow> Detector \<times> Scheduler option \<times> 'w \<Rightarrow>
     (Detector \<times> Scheduler option) \<times> slice_bytes go" where
  "repair_Read rd rng c key = (\<lambda>(d, sched, w). ((d, sched), coord_Read rd rng c key w))"

definition repair_ReadWithResponses ::
  "'w reader \<Rightarrow> groups_order \<Rightarrow> groups_order \<Rightarrow> int64 \<Rightarrow> Coordinator \<Rightarrow> string \<Rightarrow> Detector \<times> Scheduler option \<times> 'w \<Rightarrow>
     (Detector \<times> Scheduler option) \<times> Response list go" where
  "repair_ReadWithResponses rd rng rng2 now c key = (\<lambda>(d, sched, w).
     case ReadWithResponses rd c key w of
       Inl e \<Rightarrow> ((d, sched), Inl e)
     | Inr responses \<Rightarrow>
         if length responses \<ge> 2
         then (fst (CheckReadResponses rng rng2 now key responses (d, sched)), Inr responses)
         else ((d, sched), Inr responses))"

section \<open>What a repair does\<close>

definition grouped :: "Response list \<Rightarrow> (bytes \<times> Response list) list \<Rightarrow> bool" where
  "grouped rs m \<longleftrightarrow> distinct (map fst m) \<and>
     map_of m = (\<lambda>u. let g = filter (\<lambda>r. Success r \<and> rsp_Value r = Some u) rs in if g = [] then None else Some g)"

lemma group_step:
  assumes "grouped rs m"
  shows "grouped (rs @ [r]) (group_response r m)"
proof -
  let ?g = "\<lambda>u. filter (\<lambda>r. Success r \<and> rsp_Value r = Some u) rs"
  from assms have d: "distinct (map fst m)" and m: "\<And>u. map_of m u = (if ?g u = [] then None else Some (?g u))"
    by (simp_all add: grouped_def Let_def)
  show ?thesis
  proof (cases "Success r \<and> rsp_Value r \<noteq> None")
    case True
    then obtain v where v: "Success r" "rsp_Value r = Some v" by auto
    then have "group_response r m = AList.update v (?g v @ [r]) m" by (simp add: group_response_def m)
    with d v show ?thesis by (auto simp: grouped_def fun_eq_iff Let_def m)
  next
    case False
    then have "group_response r m = m" by (auto simp: group_response_def split: option.split)
    with False d m show ?thesis by (auto simp: grouped_def fun_eq_iff Let_def)
  qed
qed

lemma group_fold: "grouped us m \<Longrightarrow> grouped (us @ rs) (fold group_response rs m)"
proof (induction rs arbitrary: us m)
  case (Cons r rs)
  from Cons.IH [OF group_step [OF Cons.prems, of r]] show ?case by simp
qed simp

lemma groups_of: "grouped rs (fold group_response rs [])"
  using group_fold [of "[]" "[]" rs] by (simp add: grouped_def)

lemma grouped_set:
  "grouped rs m \<Longrightarrow> (u, g) \<in> set m \<longleftrightarrow> g = filter (\<lambda>r. Success r \<and> rsp_Value r = Some u) rs \<and> g \<noteq> []"
  by (auto simp: grouped_def map_of_eq_Some_iff [symmetric] Let_def split: if_splits)

lemma votes_filter: "count_list (votes rs) u = length (filter (\<lambda>r. Success r \<and> rsp_Value r = Some u) rs)"
  by (induction rs) (auto split: option.splits)

lemma majority_keep: "\<forall>e\<in>set gs. int (length (snd e)) \<le> mx \<Longrightarrow> majority_loop gs mx mv = (mx, mv)"
  by (induction gs) auto

lemma majority_found:
  assumes "(k, g) \<in> set gs" and "distinct (map fst gs)" and "rsp_Value (g ! 0) = Some k" and "mx < int (length g)"
    and "\<forall>(k', g')\<in>set gs. k' \<noteq> k \<longrightarrow> length g' < length g" and "0 \<le> mx"
  shows "majority_loop gs mx mv = (int (length g), Some k)"
  using assms
proof (induction gs arbitrary: mx mv)
  case (Cons e gs)
  obtain k' g' where e: "e = (k', g')" by (cases e)
  show ?case
  proof (cases "k' = k")
    case True
    with Cons.prems(1,2) e have "g' = g" "k \<notin> fst ` set gs" by (auto simp: rev_image_eqI)
    with Cons.prems(5) have "\<forall>e\<in>set gs. int (length (snd e)) \<le> int (length g)" by (fastforce simp: image_iff)
    from majority_keep [OF this] Cons.prems(3,4,6) True \<open>g' = g\<close> e show ?thesis by auto
  next
    case False
    with Cons.prems e have "(k, g) \<in> set gs" "length g' < length g" by auto
    with Cons.IH [of "int (length g')"] Cons.IH [of mx] Cons.prems e show ?thesis by auto
  qed
qed simp

lemma two_shares:
  "u \<noteq> v \<Longrightarrow> count_list (votes rs) u + count_list (votes rs) v \<le> length rs"
  by (induction rs) (auto split: option.splits)

lemma findMajority_votes:
  assumes "reorders rng" and "2 * count_list (votes rs) v > length rs"
  shows "findMajorityValue (rng (fold group_response rs [])) (length rs) = Some v"
proof -
  let ?m = "rng (fold group_response rs [])"
  let ?g = "\<lambda>u. filter (\<lambda>r. Success r \<and> rsp_Value r = Some u) rs"
  have mset: "mset ?m = mset (fold group_response rs [])" using assms(1) by (simp add: reorders_def)
  from groups_of [of rs] have "distinct (map fst (fold group_response rs []))" by (simp add: grouped_def)
  with mset have d: "distinct (map fst ?m)" by (metis mset_eq_imp_distinct_iff mset_map)
  have set: "(u, g) \<in> set ?m \<longleftrightarrow> g = ?g u \<and> g \<noteq> []" for u g
    using grouped_set [OF groups_of] mset_eq_setD [OF mset] by auto
  have g: "?g v \<noteq> []" using assms(2) by (simp add: votes_filter flip: length_greater_0_conv)
  then have "?g v ! 0 \<in> set (?g v)" by (intro nth_mem) simp
  then have val: "rsp_Value (?g v ! 0) = Some v" by simp
  have "length (?g u) < length (?g v)" if "u \<noteq> v" for u
    using two_shares [OF that, of rs] assms(2) by (simp add: votes_filter)
  then have "majority_loop ?m 0 None = (int (length (?g v)), Some v)"
    using g by (intro majority_found d val) (auto simp: set)
  moreover have "int (length rs div 2) < int (length (?g v))" using assms(2) by (simp add: votes_filter)
  ultimately show ?thesis by (simp add: findMajorityValue_def)
qed

text \<open>The repairs that a check schedules.\<close>

definition divergent :: "bytes \<Rightarrow> Response list \<Rightarrow> NodeID set" where
  "divergent v rs = {rsp_NodeID r | r. r \<in> set rs \<and> Success r \<and> rsp_Value r \<noteq> None \<and> rsp_Value r \<noteq> Some v}"

lemma check_schedules:
  assumes "reorders rng" and "reorders rng2" and "dt_enabled d"
    and "2 * count_list (votes rs) v > length rs" and "u \<in> set (votes rs)" and "u \<noteq> v"
  shows "\<exists>d' nodes. set nodes = divergent v rs \<and> nodes \<noteq> [] \<and>
    CheckReadResponses rng rng2 now key rs (d, Some s) =
      ((d', Some (fst (ScheduleRepair (Some \<lparr>rt_Key = key, rt_CorrectValue = Some v, rt_TargetNodes = map TargetNode nodes,
          rt_Priority = PriorityNormal, rt_CreatedAt = now\<rparr>) s))), Inr ())"
proof -
  let ?m = "fold group_response rs []"
  let ?g = "\<lambda>u. filter (\<lambda>r. Success r \<and> rsp_Value r = Some u) rs"
  let ?nodes = "divergent_nodes v (rng2 ?m)"
  note set = grouped_set [OF groups_of, of _ _ rs]
  have mset: "mset (rng2 ?m) = mset ?m" using assms(2) by (simp add: reorders_def)
  have v: "?g v \<noteq> []" using assms(4) by (simp add: votes_filter flip: length_greater_0_conv)
  have u: "?g u \<noteq> []" using assms(5) by (metis count_list_0_iff list.size(3) votes_filter)
  have "{(u, ?g u), (v, ?g v)} \<subseteq> set ?m" using u v set by blast
  then have "card {(u, ?g u), (v, ?g v)} \<le> length ?m" by (meson List.finite_set card_length card_mono le_trans)
  with assms(6) have many: "\<not> length ?m \<le> 1" by simp
  have "length rs \<ge> 2" using two_shares [OF assms(6), of rs] u v by (simp add: votes_filter flip: length_greater_0_conv)
  have nodes: "set ?nodes = divergent v rs"
  proof -
    have "x \<in> set ?nodes \<longleftrightarrow> (\<exists>k g. (k, g) \<in> set ?m \<and> k \<noteq> v \<and> x \<in> rsp_NodeID ` set g)" for x
      unfolding divergent_nodes_def set_concat set_map mset_eq_setD [OF mset] by (auto split: if_splits)
    then have "x \<in> set ?nodes \<longleftrightarrow> (\<exists>k. ?g k \<noteq> [] \<and> k \<noteq> v \<and> x \<in> rsp_NodeID ` set (?g k))" for x
      unfolding set by blast
    then have "set ?nodes = {x. \<exists>k. ?g k \<noteq> [] \<and> k \<noteq> v \<and> x \<in> rsp_NodeID ` set (?g k)}" by blast
    also have "\<dots> = divergent v rs" by (auto simp: divergent_def filter_empty_conv)
    finally show ?thesis .
  qed
  moreover obtain r where "r \<in> set (?g u)" using u by (cases "?g u") auto
  with assms(6) have "rsp_NodeID r \<in> divergent v rs" by (auto simp: divergent_def)
  ultimately have ne: "?nodes \<noteq> []" by (metis empty_iff list.set(1))
  have "CheckReadResponses rng rng2 now key rs (d, Some s) =
      ((d\<lparr>dt_divergencesDetected := dt_divergencesDetected d + 1\<rparr>, Some (fst (ScheduleRepair (Some \<lparr>rt_Key = key,
          rt_CorrectValue = Some v, rt_TargetNodes = map TargetNode ?nodes,
          rt_Priority = PriorityNormal, rt_CreatedAt = now\<rparr>) s))), Inr ())"
    using assms(3) \<open>length rs \<ge> 2\<close> many ne findMajority_votes [OF assms(1,4)]
    by (simp add: CheckReadResponses_def ScheduleRepair_def Let_def)
  with nodes ne show ?thesis by blast
qed

context replica_client
begin

lemma repair_loop_writes:
  assumes "\<forall>n w. snd (wr n key v w) = Inr ()"
  shows "\<exists>w'. repair_loop cw (Some wr) key v nodes k (e, w) = (k + int (length nodes), e, w') \<and>
    (\<forall>n. rd n key w' = (if n \<in> set nodes then Inr v else rd n key w)) \<and>
    (\<forall>n k'. k' \<noteq> key \<longrightarrow> rd n k' w' = rd n k' w)"
proof (induction nodes arbitrary: k w)
  case (Cons m nodes)
  obtain w1 where w1: "wr m key v w = (w1, Inr ())" using assms by (metis prod.collapse)
  have "rd m key w1 = Inr v" using read_own w1 by blast
  moreover have "rd n k' w1 = rd n k' w" if "n \<noteq> m \<or> k' \<noteq> key" for n k'
    using read_other [OF that, of v w] w1 by simp
  moreover obtain w' where "repair_loop cw (Some wr) key v nodes (k + 1) (e, w1) = (k + 1 + int (length nodes), e, w')"
      "\<forall>n. rd n key w' = (if n \<in> set nodes then Inr v else rd n key w1)"
      "\<forall>n k'. k' \<noteq> key \<longrightarrow> rd n k' w' = rd n k' w1" using Cons.IH [of "k + 1" w1] by blast
  ultimately show ?case by (intro exI [of _ w']) (auto simp: repair_write_def w1)
qed simp

end

lemma map_filter_nodes: "List.map_filter node_of (map TargetNode nodes) = nodes"
  by (induction nodes) (simp_all add: map_filter_simps node_of_def)

lemma read_votes:
  "u \<in> set (votes (readFromReplicas rd key reps w)) \<longleftrightarrow> (\<exists>n\<in>set reps. rd n key w = Inr (Some u))"
  by (induction reps) (auto simp: readFromReplicas_def read_response_def split: sum.splits option.splits)

lemma read_divergent:
  "divergent v (readFromReplicas rd key reps w) = {n \<in> set reps. \<exists>u. rd n key w = Inr (Some u) \<and> u \<noteq> v}"
  by (force simp: divergent_def readFromReplicas_def read_response_def split: sum.splits)

text \<open>C22. Read repair heals: when more than half of the responses of a read agree and one differs, the detector
  schedules one repair, and when a worker has executed it every replica that answered with a value
  holds the majority's. Replicas that answered that they hold nothing, and other keys, are as
  before.\<close>

theorem repair_heals:
  assumes "replica_client rd wr" and "\<forall>n w. snd (wr n key (Some v) w) = Inr ()"
    and "reorders rng" and "reorders rng2" and "dt_enabled d" and "sc_taskQueue s = []"
    and "rs = readFromReplicas rd key reps w"
    and "2 * count_list (votes rs) v > length rs" and "u \<in> set (votes rs)" and "u \<noteq> v"
    and "CheckReadResponses rng rng2 now key rs (d, Some s) = ((d', Some s'), res)"
    and "worker_round clock (Some cw) (Some wr) (s', e, w) = Some (s'', e', w')"
  shows "rd n k w' = (if k = key \<and> n \<in> set reps \<and> (\<exists>u. rd n key w = Inr (Some u)) then Inr (Some v) else rd n k w)"
proof -
  note repair_loop_writes = replica_client.repair_loop_writes [OF assms(1)]
  obtain nodes where nodes: "set nodes = divergent v rs" "nodes \<noteq> []"
    and s': "s' = fst (ScheduleRepair (Some \<lparr>rt_Key = key, rt_CorrectValue = Some v,
      rt_TargetNodes = map TargetNode nodes, rt_Priority = PriorityNormal, rt_CreatedAt = now\<rparr>) s)"
    using check_schedules [OF assms(3-5,8-10), of now key s] assms(11) by auto
  obtain w1 where w1: "repair_loop cw (Some wr) key (Some v) nodes 0 (e, w) = (int (length nodes), e, w1)"
      "\<forall>n. rd n key w1 = (if n \<in> set nodes then Inr (Some v) else rd n key w)"
      "\<forall>n k'. k' \<noteq> key \<longrightarrow> rd n k' w1 = rd n k' w"
    using repair_loop_writes [OF assms(2), of cw nodes 0 e w] by auto
  have "w' = w1"
    using assms(6,12) nodes(2) w1(1)
    by (auto simp: worker_round_def dequeueTask_def take_task_def s' ScheduleRepair_def put_task_def ExecuteRepair_def
        map_filter_nodes Let_def split: option.splits)
  moreover have "set nodes = {n \<in> set reps. \<exists>u. rd n key w = Inr (Some u) \<and> u \<noteq> v}"
    using nodes(1) by (simp add: assms(7) read_divergent)
  ultimately show ?thesis using w1(2,3) by (cases "k = key") auto
qed

text \<open>Three replicas with the mock client, one of them out of date.\<close>

definition repair_world :: mock_data where
  "repair_world = put_all ''k'' (Some [2]) [''a'', ''b''] (put_all ''k'' (Some [1]) [''c''] NewMockReplicaClient)"

lemma put_all_read: "mock_Read n k (put_all key v reps w) = (if n \<in> set reps \<and> k = key then Inr v else mock_Read n k w)"
  by (induction reps arbitrary: w) (auto simp: put_all_def)

lemma repair_heals_witness:
  "\<exists>s' w'. CheckReadResponses rev rev 5 ''k'' (readFromReplicas mock_Read ''k'' [''a'', ''b'', ''c''] repair_world)
        (NewDetector True False, Some (NewScheduler 0 DefaultSchedulerConfig)) =
      ((\<lparr>dt_enabled = True, dt_divergencesDetected = 1\<rparr>, Some s'), Inr ()) \<and>
    (\<exists>s'' e'. worker_round [1] (Some (\<lambda>k v w. (w, Inr ()))) (Some mock_Write) (s', NewRepairExecutor, repair_world) =
      Some (s'', e', w')) \<and> mock_Read ''c'' ''k'' w' = Inr (Some [2])"
proof -
  let ?rs = "readFromReplicas mock_Read ''k'' [''a'', ''b'', ''c''] repair_world"
  let ?d = "NewDetector True False" and ?s = "NewScheduler 0 DefaultSchedulerConfig"
  have reads: "mock_Read ''a'' ''k'' repair_world = Inr (Some [2])" "mock_Read ''b'' ''k'' repair_world = Inr (Some [2])"
    "mock_Read ''c'' ''k'' repair_world = Inr (Some [1])"
    by (simp_all add: repair_world_def put_all_read)
  have votes: "votes ?rs = [[2], [2], [1]]"
    by (simp add: readFromReplicas_def read_response_def reads)
  have d: "dt_enabled ?d" and q: "sc_taskQueue ?s = []" by (simp_all add: NewDetector_def NewScheduler_def)
  let ?t = "\<lparr>rt_Key = ''k'', rt_CorrectValue = Some [2], rt_TargetNodes = [TargetNode ''c''],
      rt_Priority = PriorityNormal, rt_CreatedAt = 5\<rparr>"
  have check: "CheckReadResponses rev rev 5 ''k'' ?rs (?d, Some ?s) =
      ((\<lparr>dt_enabled = True, dt_divergencesDetected = 1\<rparr>, Some (?s\<lparr>sc_taskQueue := [?t]\<rparr>)), Inr ())"
    by (simp add: CheckReadResponses_def NewDetector_def readFromReplicas_def read_response_def reads group_response_def
        findMajorityValue_def divergent_nodes_def ScheduleRepair_def put_task_def NewScheduler_def Let_def)
  have "worker_round [1] (Some (\<lambda>k v w. (w, Inr ()))) (Some mock_Write)
      (?s\<lparr>sc_taskQueue := [?t]\<rparr>, NewRepairExecutor, repair_world) \<noteq> None"
    by (simp add: worker_round_def dequeueTask_def take_task_def NewScheduler_def DefaultSchedulerConfig_def
        NewRateLimiter_def rl_Allow_def Second_def split: prod.split)
  then obtain s'' e' w' where work: "worker_round [1] (Some (\<lambda>k v w. (w, Inr ()))) (Some mock_Write)
      (?s\<lparr>sc_taskQueue := [?t]\<rparr>, NewRepairExecutor, repair_world) = Some (s'', e', w')"
    by (metis option.exhaust prod_cases3)
  have "mock_Read ''c'' ''k'' w' = (if ''k'' = ''k'' \<and> ''c'' \<in> set [''a'', ''b'', ''c''] \<and>
      (\<exists>u. mock_Read ''c'' ''k'' repair_world = Inr (Some u)) then Inr (Some [2]) else mock_Read ''c'' ''k'' repair_world)"
    by (rule repair_heals [OF mock.replica_client_axioms _ reorders_id(2) reorders_id(2) d q refl _ _ _ check work,
          where u = "[1]"])
       (simp_all add: votes, simp add: readFromReplicas_def)
  then have "mock_Read ''c'' ''k'' w' = Inr (Some [2])" by (simp add: reads)
  with check work show ?thesis by blast
qed

lemma repair_rate_bound:
  assumes "0 \<le> maxRate" and "sorted (map fst calls)"
  shows "admitted_weight (\<lambda>now (x :: unit). rl_Allow now) (\<lambda>x. 1) a calls (NewRateLimiter now maxRate) \<le> 2 * maxRate"
  using repair_rate.burst_bound [of "NewRateLimiter now maxRate" calls a] assms by (simp add: NewRateLimiter_def)

lemma repairs_by_priority:
  "sorted_wrt (\<lambda>a b. rt_Priority a \<ge> rt_Priority b) (drain take_task (length tasks) (fold put_task tasks [])) \<and>
   mset (drain take_task (length tasks) (fold put_task tasks [])) = mset tasks"
  using repair_queue.serves_by_priority [of tasks] by (simp add: less_eq_Priority_def)

end
