(* ===== verification/Merkle.thy ===== *)
theory Merkle
  imports Hash_Ring Storage_Service
begin

text \<open>
  Merkle trees of a partition, \<^verbatim>\<open>src/core/cluster/repair/entropy/merkle.go\<close>: building from the sorted
  keys, comparing two trees, and the wire structure. \<open>NilNode\<close> is the nil pointer. A map of keys to
  values is an association list with distinct keys. The JSON text of the wire structure is the
  library's; a data hash that is absent from it is nil.
\<close>

section \<open>SHA-256\<close>

text \<open>The function of \<^verbatim>\<open>crypto/sha256\<close> (FIPS 180-4).\<close>

unbundle bit_operations_syntax

definition sha256_k :: "32 word list" where
  "sha256_k =
     [0x428A2F98, 0x71374491, 0xB5C0FBCF, 0xE9B5DBA5, 0x3956C25B, 0x59F111F1, 0x923F82A4, 0xAB1C5ED5,
      0xD807AA98, 0x12835B01, 0x243185BE, 0x550C7DC3, 0x72BE5D74, 0x80DEB1FE, 0x9BDC06A7, 0xC19BF174,
      0xE49B69C1, 0xEFBE4786, 0x0FC19DC6, 0x240CA1CC, 0x2DE92C6F, 0x4A7484AA, 0x5CB0A9DC, 0x76F988DA,
      0x983E5152, 0xA831C66D, 0xB00327C8, 0xBF597FC7, 0xC6E00BF3, 0xD5A79147, 0x06CA6351, 0x14292967,
      0x27B70A85, 0x2E1B2138, 0x4D2C6DFC, 0x53380D13, 0x650A7354, 0x766A0ABB, 0x81C2C92E, 0x92722C85,
      0xA2BFE8A1, 0xA81A664B, 0xC24B8B70, 0xC76C51A3, 0xD192E819, 0xD6990624, 0xF40E3585, 0x106AA070,
      0x19A4C116, 0x1E376C08, 0x2748774C, 0x34B0BCB5, 0x391C0CB3, 0x4ED8AA4A, 0x5B9CCA4F, 0x682E6FF3,
      0x748F82EE, 0x78A5636F, 0x84C87814, 0x8CC70208, 0x90BEFFFA, 0xA4506CEB, 0xBEF9A3F7, 0xC67178F2]"

definition ror32 :: "nat \<Rightarrow> 32 word \<Rightarrow> 32 word" where
  "ror32 n w = word_rotr n w"

fun sha256_schedule :: "nat \<Rightarrow> 32 word list \<Rightarrow> 32 word list" where
  "sha256_schedule 0 w = w"
| "sha256_schedule (Suc n) w =
     (let t = length w;
          x = w ! (t - 15); y = w ! (t - 2);
          s0 = ror32 7 x XOR ror32 18 x XOR drop_bit 3 x;
          s1 = ror32 17 y XOR ror32 19 y XOR drop_bit 10 y
      in sha256_schedule n (w @ [s1 + w ! (t - 7) + s0 + w ! (t - 16)]))"

fun sha256_rounds :: "(32 word \<times> 32 word) list \<Rightarrow> 32 word list \<Rightarrow> 32 word list" where
  "sha256_rounds ((k, w) # kws) [a, b, c, d, e, f, g, h] =
     (let t1 = h + (ror32 6 e XOR ror32 11 e XOR ror32 25 e) + ((e AND f) XOR (NOT e AND g)) + k + w;
          t2 = (ror32 2 a XOR ror32 13 a XOR ror32 22 a) + ((a AND b) XOR (a AND c) XOR (b AND c))
      in sha256_rounds kws [t1 + t2, a, b, c, d + t1, e, f, g])"
| "sha256_rounds kws s = s"

definition sha256_block :: "bytes \<Rightarrow> 32 word list \<Rightarrow> 32 word list" where
  "sha256_block block s =
     map2 (+) s (sha256_rounds (zip sha256_k (sha256_schedule 48 (map (\<lambda>q. word_of_nat (be_get q)) (chop 4 block)))) s)"

definition sha256_init :: "32 word list" where
  "sha256_init = [0x6A09E667, 0xBB67AE85, 0x3C6EF372, 0xA54FF53A, 0x510E527F, 0x9B05688C, 0x1F83D9AB, 0x5BE0CD19]"

definition sha256_Sum :: "bytes \<Rightarrow> bytes" where
  "sha256_Sum data =
     concat (map (\<lambda>w. rev (put_u32 w)) (fold sha256_block (chop 64 (sha1_pad data)) sha256_init))"

section \<open>Trees\<close>

record KeyRange =
  kr_Start :: string
  kr_End :: string

datatype MerkleNode = NilNode
  | MerkleNode (node_Hash: bytes) (node_Left: MerkleNode) (node_Right: MerkleNode)
      (node_KeyRange: "KeyRange option") (node_DataHash: "bytes option")

record MerkleTree =
  mt_PartitionID :: string
  mt_Root :: MerkleNode
  mt_KeyRanges :: "KeyRange list"
  mt_Depth :: nat

definition hashData :: "string \<Rightarrow> bytes \<Rightarrow> bytes" where
  "hashData key val = sha256_Sum (bytes_of key @ [0] @ val)"

definition hashNodes :: "bytes \<Rightarrow> bytes \<Rightarrow> bytes" where
  "hashNodes hash1 hash2 = sha256_Sum (hash1 @ hash2)"

definition leaf_range :: "string list \<Rightarrow> nat \<Rightarrow> KeyRange" where
  "leaf_range keys i = \<lparr>kr_Start = (if i = 0 then keys ! i else keys ! (i - 1)), kr_End = keys ! i\<rparr>"

definition leaf_node :: "(string \<times> bytes) list \<Rightarrow> string list \<Rightarrow> nat \<Rightarrow> MerkleNode" where
  "leaf_node keyValues keys i =
     (let key = keys ! i;
          val = (case map_of keyValues key of Some v \<Rightarrow> v | None \<Rightarrow> []);
          dataHash = hashData key val
      in MerkleNode dataHash NilNode NilNode (Some (leaf_range keys i)) (Some dataHash))"

definition combine_nodes :: "MerkleNode \<Rightarrow> MerkleNode \<Rightarrow> MerkleNode" where
  "combine_nodes left right =
     MerkleNode (hashNodes (node_Hash left) (node_Hash right)) left right
       (case (node_KeyRange left, node_KeyRange right) of
          (Some l, Some r) \<Rightarrow> Some \<lparr>kr_Start = kr_Start l, kr_End = kr_End r\<rparr>
        | (Some l, None) \<Rightarrow> Some l
        | (None, Some r) \<Rightarrow> Some r
        | (None, None) \<Rightarrow> None) None"

fun next_level :: "MerkleNode list \<Rightarrow> MerkleNode list" where
  "next_level [] = []"
| "next_level [left] = [combine_nodes left left]"
| "next_level (left # right # rest) = combine_nodes left right # next_level rest"

lemma length_next_level: "length (next_level level) = (length level + 1) div 2"
  by (induction level rule: next_level.induct) simp_all

function build_levels :: "MerkleNode list \<Rightarrow> nat \<Rightarrow> MerkleNode list \<times> nat" where
  "build_levels currentLevel depth =
     (if length currentLevel > 1 then build_levels (next_level currentLevel) (depth + 1)
      else (currentLevel, depth))"
  by auto
termination by (relation "measure (\<lambda>(level, depth). length level)") (auto simp: length_next_level)

declare build_levels.simps [simp del]

definition buildTreeFromLeaves :: "MerkleNode list \<Rightarrow> MerkleNode \<times> nat" where
  "buildTreeFromLeaves leaves =
     (if length leaves = 0 then (NilNode, 0)
      else if length leaves = 1 then (leaves ! 0, 1)
      else case build_levels leaves 1 of (currentLevel, depth) \<Rightarrow> (currentLevel ! 0, depth))"

definition BuildTree :: "string \<Rightarrow> (string \<times> bytes) list \<Rightarrow> MerkleTree" where
  "BuildTree partitionID keyValues =
     (if length keyValues = 0
      then \<lparr>mt_PartitionID = partitionID, mt_Root = NilNode, mt_KeyRanges = [], mt_Depth = 0\<rparr>
      else
        let keys = sort_Slice (<) (map fst keyValues);
            leaves = map (leaf_node keyValues keys) [0..<length keys];
            keyRanges = map (leaf_range keys) [0..<length keys];
            (root, depth) = buildTreeFromLeaves leaves
        in \<lparr>mt_PartitionID = partitionID, mt_Root = root, mt_KeyRanges = keyRanges, mt_Depth = depth\<rparr>)"

definition GetRootHash :: "MerkleTree \<Rightarrow> bytes option" where
  "GetRootHash mt = (case mt_Root mt of NilNode \<Rightarrow> None | MerkleNode h l r k d \<Rightarrow> Some h)"

section \<open>Comparison\<close>

definition range_of :: "MerkleNode \<Rightarrow> KeyRange list" where
  "range_of n = (case n of MerkleNode h l r (Some k) d \<Rightarrow> [k] | _ \<Rightarrow> [])"

fun compareNodes :: "MerkleNode \<Rightarrow> MerkleNode \<Rightarrow> KeyRange list" where
  "compareNodes NilNode NilNode = []"
| "compareNodes NilNode (MerkleNode h l r k d) = range_of (MerkleNode h l r k d)"
| "compareNodes (MerkleNode h l r k d) NilNode = range_of (MerkleNode h l r k d)"
| "compareNodes (MerkleNode h l r k d) (MerkleNode h' l' r' k' d') =
     (if h = h' then []
      else if l = NilNode \<and> r = NilNode \<and> l' = NilNode \<and> r' = NilNode
      then (case k of Some kr \<Rightarrow> [kr] | None \<Rightarrow> [])
      else compareNodes l l' @ compareNodes r r')"

definition FindDivergentRanges :: "MerkleTree \<Rightarrow> MerkleTree \<Rightarrow> KeyRange list" where
  "FindDivergentRanges mt other =
     (if mt_Root mt = NilNode \<and> mt_Root other = NilNode then []
      else if mt_Root mt = NilNode \<or> mt_Root other = NilNode
      then (if mt_Root mt \<noteq> NilNode then mt_KeyRanges mt else mt_KeyRanges other)
      else if node_Hash (mt_Root mt) = node_Hash (mt_Root other) then []
      else compareNodes (mt_Root mt) (mt_Root other))"

section \<open>Wire structure\<close>

datatype wireMerkleNode = NilWire
  | WireNode (wn_Hash: bytes) (wn_DataHash: "bytes option") (wn_KeyRange: "KeyRange option")
      (wn_Left: wireMerkleNode) (wn_Right: wireMerkleNode)

record wireMerkleTree =
  wt_PartitionID :: string
  wt_Depth :: nat
  wt_Root :: wireMerkleNode

fun toWireNode :: "MerkleNode \<Rightarrow> wireMerkleNode" where
  "toWireNode NilNode = NilWire"
| "toWireNode (MerkleNode h l r k d) = WireNode h d k (toWireNode l) (toWireNode r)"

fun fromWireNode :: "wireMerkleNode \<Rightarrow> MerkleNode" where
  "fromWireNode NilWire = NilNode"
| "fromWireNode (WireNode h d k l r) = MerkleNode h (fromWireNode l) (fromWireNode r) k d"

fun collectKeyRanges :: "MerkleNode \<Rightarrow> KeyRange list" where
  "collectKeyRanges NilNode = []"
| "collectKeyRanges (MerkleNode h l r k d) =
     (case k of
        Some kr \<Rightarrow> if l = NilNode \<and> r = NilNode then [kr] else collectKeyRanges l @ collectKeyRanges r
      | None \<Rightarrow> collectKeyRanges l @ collectKeyRanges r)"

fun computeDepth :: "MerkleNode \<Rightarrow> nat" where
  "computeDepth NilNode = 0"
| "computeDepth (MerkleNode h l r k d) =
     (if computeDepth l > computeDepth r then computeDepth l + 1 else computeDepth r + 1)"

definition Serialize :: "MerkleTree \<Rightarrow> wireMerkleTree" where
  "Serialize mt =
     \<lparr>wt_PartitionID = mt_PartitionID mt, wt_Depth = mt_Depth mt, wt_Root = toWireNode (mt_Root mt)\<rparr>"

text \<open>No bytes at all stand for an empty tree; otherwise what the JSON decodes to, or that it does not.\<close>

definition DeserializeMerkleTree :: "(wireMerkleTree option) option \<Rightarrow> string \<Rightarrow> MerkleTree go" where
  "DeserializeMerkleTree data partitionID =
     (case data of
        None \<Rightarrow> Inr \<lparr>mt_PartitionID = partitionID, mt_Root = NilNode, mt_KeyRanges = [], mt_Depth = 0\<rparr>
      | Some None \<Rightarrow> Inl (Fail ''failed to unmarshal merkle tree'')
      | Some (Some wireTree) \<Rightarrow>
          let root = fromWireNode (wt_Root wireTree);
              keyRanges = collectKeyRanges root;
              depth = wt_Depth wireTree;
              depth = (if depth = 0 then computeDepth root else depth)
          in Inr \<lparr>mt_PartitionID = partitionID, mt_Root = root, mt_KeyRanges = keyRanges, mt_Depth = depth\<rparr>)"

section \<open>Leaves of a built tree\<close>

lemma length_rounds: "length (sha256_rounds kws s) = length s"
  by (induction kws s rule: sha256_rounds.induct) (simp_all add: Let_def)

lemma length_block: "length s = 8 \<Longrightarrow> length (sha256_block block s) = 8"
  by (simp add: sha256_block_def length_rounds)

lemma length_blocks: "length s = 8 \<Longrightarrow> length (fold sha256_block blocks s) = 8"
  by (induction blocks arbitrary: s) (simp_all add: length_block)

lemma length_sha256 [simp]: "length (sha256_Sum data) = 32"
proof -
  have "length (fold sha256_block (chop 64 (sha1_pad data)) sha256_init) = 8"
    by (rule length_blocks) (simp add: sha256_init_def)
  then show ?thesis by (simp add: sha256_Sum_def length_concat comp_def sum_list_triv)
qed

text \<open>The fringe of a tree: its leaves from left to right, repetitions included.\<close>

fun fringe :: "MerkleNode \<Rightarrow> MerkleNode list" where
  "fringe NilNode = []"
| "fringe (MerkleNode h l r k d) =
     (if l = NilNode \<and> r = NilNode then [MerkleNode h l r k d] else fringe l @ fringe r)"

definition leaf :: "MerkleNode \<Rightarrow> bool" where
  "leaf n \<longleftrightarrow> n \<noteq> NilNode \<and> node_Left n = NilNode \<and> node_Right n = NilNode"

text \<open>A tree over leaves: every node is a leaf or combines two such nodes.\<close>

fun made :: "MerkleNode \<Rightarrow> bool" where
  "made NilNode \<longleftrightarrow> False"
| "made (MerkleNode h l r k d) \<longleftrightarrow>
     (l = NilNode \<and> r = NilNode) \<or> (made l \<and> made r \<and> h = hashNodes (node_Hash l) (node_Hash r))"

lemma combine_made:
  "made l \<Longrightarrow> made r \<Longrightarrow> made (combine_nodes l r) \<and> fringe (combine_nodes l r) = fringe l @ fringe r"
  by (cases l; cases r; auto simp: combine_nodes_def)

lemma next_level_made:
  "\<forall>n\<in>set level. made n \<Longrightarrow> (\<forall>n\<in>set (next_level level). made n) \<and>
     set (concat (map fringe (next_level level))) = set (concat (map fringe level))"
  by (induction level rule: next_level.induct) (auto simp: combine_made)

lemma build_levels_made:
  "\<forall>n\<in>set level. made n \<Longrightarrow> level \<noteq> [] \<Longrightarrow>
     (\<exists>n. fst (build_levels level depth) = [n] \<and> made n \<and> set (fringe n) = set (concat (map fringe level)))"
proof (induction level depth rule: build_levels.induct)
  case (1 level depth)
  show ?case
  proof (cases "length level > 1")
    case True
    then have "length (next_level level) > 0" by (simp add: length_next_level)
    then have "next_level level \<noteq> []" by simp
    with 1 True next_level_made [OF 1(2)] show ?thesis
      by (subst build_levels.simps) simp
  next
    case False
    with 1(3) obtain n where "level = [n]" by (cases level) auto
    with 1(2) show ?thesis by (subst build_levels.simps) simp
  qed
qed

lemma leaf_made: "leaf n \<Longrightarrow> made n \<and> fringe n = [n]"
  by (cases n) (auto simp: leaf_def)

lemma build_leaves_made:
  assumes "leaves \<noteq> []" and "\<forall>n\<in>set leaves. leaf n"
  shows "made (fst (buildTreeFromLeaves leaves)) \<and> set (fringe (fst (buildTreeFromLeaves leaves))) = set leaves"
proof -
  have fr: "concat (map fringe leaves) = leaves"
    using assms(2) leaf_made by (induction leaves) auto
  have "\<forall>n\<in>set leaves. made n" using assms(2) leaf_made by blast
  from build_levels_made [OF this assms(1), of 1] fr assms leaf_made show ?thesis
    by (cases leaves) (auto simp: buildTreeFromLeaves_def case_prod_beta)
qed

lemma leaf_node_leaf: "leaf (leaf_node kv keys i)"
  by (simp add: leaf_def leaf_node_def Let_def)

definition sorted_keys :: "(string \<times> bytes) list \<Rightarrow> string list" where
  "sorted_keys kv = sort_Slice (<) (map fst kv)"

lemma sorted_keys_basic [simp]:
  "set (sorted_keys kv) = fst ` set kv" "length (sorted_keys kv) = length kv"
  by (simp_all add: sorted_keys_def)

lemma BuildTree_root:
  assumes "kv \<noteq> []"
  shows "made (mt_Root (BuildTree p kv)) \<and>
    set (fringe (mt_Root (BuildTree p kv))) = leaf_node kv (sorted_keys kv) ` {..<length kv}"
proof -
  let ?leaves = "map (leaf_node kv (sorted_keys kv)) [0..<length kv]"
  have "mt_Root (BuildTree p kv) = fst (buildTreeFromLeaves ?leaves)"
    using assms by (simp add: BuildTree_def Let_def case_prod_beta flip: sorted_keys_def)
  moreover have "?leaves \<noteq> []" using assms by simp
  ultimately show ?thesis
    using build_leaves_made [of ?leaves] by (auto simp: leaf_node_leaf atLeast0LessThan)
qed

section \<open>Equal roots\<close>

definition leaf_input :: "string \<Rightarrow> bytes \<Rightarrow> bytes" where
  "leaf_input key val = bytes_of key @ [0] @ val"

fun inner_inputs :: "MerkleNode \<Rightarrow> bytes set" where
  "inner_inputs NilNode = {}"
| "inner_inputs (MerkleNode h l r k d) =
     (if l = NilNode \<and> r = NilNode then {}
      else insert (node_Hash l @ node_Hash r) (inner_inputs l \<union> inner_inputs r))"

definition kv_inputs :: "(string \<times> bytes) list \<Rightarrow> bytes set" where
  "kv_inputs kv = (\<lambda>(key, val). leaf_input key val) ` set kv"

text \<open>What is hashed for a tree.\<close>

definition hashed_inputs :: "string \<Rightarrow> (string \<times> bytes) list \<Rightarrow> bytes set" where
  "hashed_inputs p kv = kv_inputs kv \<union> inner_inputs (mt_Root (BuildTree p kv))"

definition leaves_over :: "bytes set \<Rightarrow> MerkleNode \<Rightarrow> bool" where
  "leaves_over S n \<longleftrightarrow> node_Hash ` set (fringe n) \<subseteq> sha256_Sum ` S"

lemma made_hash: "made n \<Longrightarrow> leaves_over S n \<Longrightarrow> \<exists>x. node_Hash n = sha256_Sum x \<and> x \<in> S \<union> inner_inputs n"
  by (cases n) (auto simp: leaves_over_def hashNodes_def)

lemma made_length: "made n \<Longrightarrow> leaves_over S n \<Longrightarrow> length (node_Hash n) = 32"
  using made_hash [of n S] by auto

lemma equal_hash_fringe:
  assumes "made m" and "made n" and "node_Hash m = node_Hash n"
    and "leaves_over S m" and "leaves_over T n"
    and "inj_on sha256_Sum (S \<union> T \<union> inner_inputs m \<union> inner_inputs n)"
    and "\<forall>x\<in>S \<union> T. length x \<noteq> 64"
  shows "node_Hash ` set (fringe m) = node_Hash ` set (fringe n)"
  using assms
proof (induction m arbitrary: n)
  case (MerkleNode h l r k d)
  obtain h' l' r' k' d' where n: "n = MerkleNode h' l' r' k' d'" using MerkleNode.prems(2) by (cases n) auto
  let ?m = "MerkleNode h l r k d"
  have no_mix: False
    if asm: "made a" "leaves_over A a" "\<not> leaf a" "made b" "leaves_over B b" "leaf b" "node_Hash a = node_Hash b"
      "inj_on sha256_Sum (A \<union> B \<union> inner_inputs a \<union> inner_inputs b)" "\<forall>x\<in>B. length x \<noteq> 64" for a b A B
  proof -
    obtain ha la ra ka da where a: "a = MerkleNode ha la ra ka da" using asm(1) by (cases a) auto
    with asm(1,3) have ma: "made la" "made ra" "ha = sha256_Sum (node_Hash la @ node_Hash ra)"
      by (auto simp: leaf_def hashNodes_def)
    with a have sub: "leaves_over A la" "leaves_over A ra"
      using asm(2,3) by (auto simp: leaves_over_def leaf_def image_Un split: if_splits)
    have in_a: "node_Hash la @ node_Hash ra \<in> inner_inputs a" using asm(3) a by (auto simp: leaf_def)
    obtain x where x: "x \<in> B" "node_Hash b = sha256_Sum x"
      using asm(4-6) leaf_made [OF asm(6)] by (auto simp: leaves_over_def)
    have "sha256_Sum (node_Hash la @ node_Hash ra) = sha256_Sum x" using asm(7) a ma(3) x(2) by simp
    then have "node_Hash la @ node_Hash ra = x"
      by (rule inj_onD [OF asm(8)]) (use in_a x(1) in blast)+
    moreover have "length (node_Hash la @ node_Hash ra) = 64"
      using made_length ma(1,2) sub by simp
    ultimately show False using asm(9) x(1) by blast
  qed
  have swap: "inj_on sha256_Sum (T \<union> S \<union> inner_inputs n \<union> inner_inputs ?m)"
    using MerkleNode.prems(6) by (simp add: Un_ac)
  show ?case
  proof (cases "leaf ?m")
    case True
    then have "leaf n"
      using no_mix [OF MerkleNode.prems(2,5) _ MerkleNode.prems(1,4) True _ swap] MerkleNode.prems(3,7) by auto
    with True leaf_made have "fringe ?m = [?m]" "fringe n = [n]" by blast+
    with MerkleNode.prems(3) show ?thesis by (simp del: fringe.simps)
  next
    case False
    then have "\<not> leaf n"
      using no_mix [OF MerkleNode.prems(1,4) False MerkleNode.prems(2,5) _ _ MerkleNode.prems(6)] MerkleNode.prems(3,7)
      by auto
    with False n MerkleNode.prems(1,2) have parts: "made l" "made r" "made l'" "made r'"
        "h = sha256_Sum (node_Hash l @ node_Hash r)" "h' = sha256_Sum (node_Hash l' @ node_Hash r')"
        "l \<noteq> NilNode \<or> r \<noteq> NilNode" "l' \<noteq> NilNode \<or> r' \<noteq> NilNode"
      by (auto simp: leaf_def hashNodes_def)
    then have over: "leaves_over S l" "leaves_over S r" "leaves_over T l'" "leaves_over T r'"
      using MerkleNode.prems(4,5) n by (auto simp: leaves_over_def image_Un)
    have "sha256_Sum (node_Hash l @ node_Hash r) = sha256_Sum (node_Hash l' @ node_Hash r')"
      using MerkleNode.prems(3) parts(5,6) n by simp
    then have "node_Hash l @ node_Hash r = node_Hash l' @ node_Hash r'"
      by (rule inj_onD [OF MerkleNode.prems(6)]) (use parts(7,8) n in auto)
    moreover have "length (node_Hash l) = length (node_Hash l')"
      using made_length parts over by metis
    ultimately have eq: "node_Hash l = node_Hash l'" "node_Hash r = node_Hash r'" by auto
    have "inj_on sha256_Sum (S \<union> T \<union> inner_inputs l \<union> inner_inputs l')"
      "inj_on sha256_Sum (S \<union> T \<union> inner_inputs r \<union> inner_inputs r')"
      by (rule inj_on_subset [OF MerkleNode.prems(6)]; use n in auto)+
    then have "node_Hash ` set (fringe l) = node_Hash ` set (fringe l')" "node_Hash ` set (fringe r) = node_Hash ` set (fringe r')"
      using MerkleNode.IH(1) [OF parts(1,3) eq(1) over(1,3)] MerkleNode.IH(2) [OF parts(2,4) eq(2) over(2,4)]
        MerkleNode.prems(7) by blast+
    moreover have "set (fringe ?m) = set (fringe l) \<union> set (fringe r)" "set (fringe n) = set (fringe l') \<union> set (fringe r')"
      using parts(7,8) n by auto
    ultimately show ?thesis by (simp only: image_Un)
  qed
qed simp

lemma leaf_hashes:
  assumes "distinct (map fst kv)" and "kv \<noteq> []"
  shows "node_Hash ` set (fringe (mt_Root (BuildTree p kv))) = sha256_Sum ` kv_inputs kv"
proof -
  let ?keys = "sorted_keys kv"
  have hash: "node_Hash (leaf_node kv ?keys i) =
      sha256_Sum (leaf_input (?keys ! i) (case map_of kv (?keys ! i) of Some v \<Rightarrow> v | None \<Rightarrow> []))" for i
    by (simp add: leaf_node_def hashData_def leaf_input_def Let_def)
  have "(\<lambda>i. leaf_input (?keys ! i) (case map_of kv (?keys ! i) of Some v \<Rightarrow> v | None \<Rightarrow> [])) ` {..<length kv} =
      (\<lambda>key. leaf_input key (case map_of kv key of Some v \<Rightarrow> v | None \<Rightarrow> [])) ` set ?keys"
    by (simp only: set_conv_nth sorted_keys_basic(2) image_image image_Collect) (auto simp: image_def)
  also have "\<dots> = (\<lambda>e. leaf_input (fst e) (case map_of kv (fst e) of Some v \<Rightarrow> v | None \<Rightarrow> [])) ` set kv"
    by (simp add: image_image)
  also have "\<dots> = kv_inputs kv"
    unfolding kv_inputs_def by (rule image_cong) (use assms(1) in auto)
  finally have "sha256_Sum ` (\<lambda>i. leaf_input (?keys ! i) (case map_of kv (?keys ! i) of Some v \<Rightarrow> v | None \<Rightarrow> [])) `
    {..<length kv} = sha256_Sum ` kv_inputs kv" by (rule arg_cong)
  then show ?thesis
    by (simp only: BuildTree_root [OF assms(2), THEN conjunct2] image_image hash)
qed

lemma leaf_input_inj:
  assumes "leaf_input k v = leaf_input k' v'" and "0 \<notin> set (bytes_of k)" and "0 \<notin> set (bytes_of k')"
  shows "k = k' \<and> v = v'"
proof -
  have key: "takeWhile (\<lambda>b. b \<noteq> 0) (leaf_input k v) = bytes_of k" if "0 \<notin> set (bytes_of k)" for k v
  proof -
    have "takeWhile (\<lambda>b. b \<noteq> 0) (bytes_of k @ 0 # v) = bytes_of k @ takeWhile (\<lambda>b. b \<noteq> 0) (0 # v)"
      by (rule takeWhile_append2) (use that in auto)
    then show ?thesis by (simp add: leaf_input_def)
  qed
  from key [OF assms(2), of v] key [OF assms(3), of v'] assms(1) have "bytes_of k = bytes_of k'" by simp
  moreover from this have "k = k'" by (metis string_of_bytes_of)
  ultimately show ?thesis using assms(1) by (simp add: leaf_input_def)
qed

lemma kv_inputs_inj:
  assumes "kv_inputs kv = kv_inputs kv'" and "\<forall>k\<in>fst ` (set kv \<union> set kv'). 0 \<notin> set (bytes_of k)"
  shows "set kv = set kv'"
proof -
  have "set a \<subseteq> set b" if ab: "kv_inputs a \<subseteq> kv_inputs b" "set a \<union> set b = set kv \<union> set kv'" for a b
  proof
    fix e assume e: "e \<in> set a"
    obtain k v where kv: "e = (k, v)" by (cases e)
    with e have "leaf_input k v \<in> kv_inputs a" by (force simp: kv_inputs_def)
    with ab(1) obtain k' v' where e': "(k', v') \<in> set b" "leaf_input k v = leaf_input k' v'"
      by (auto simp: kv_inputs_def)
    have "k \<in> fst ` (set kv \<union> set kv')" "k' \<in> fst ` (set kv \<union> set kv')"
      using e e'(1) kv ab(2) by (metis UnI1 UnI2 fst_conv image_eqI)+
    with assms(2) leaf_input_inj [OF e'(2)] have "k = k' \<and> v = v'" by blast
    with e'(1) kv show "e \<in> set b" by simp
  qed
  from this [of kv kv'] this [of kv' kv] assms(1) show ?thesis by auto
qed

lemma same_data_same_tree:
  assumes "distinct (map fst kv)" "distinct (map fst kv')" "map_of kv = map_of kv'"
  shows "BuildTree p kv = BuildTree p kv'"
proof -
  have "set kv = set kv'" using map_of_inject_set [OF assms(1,2)] assms(3) by simp
  moreover from this have "length kv = length kv'"
    using assms(1,2) by (metis distinct_card distinct_map)
  moreover from \<open>set kv = set kv'\<close> have "mset (map fst kv) = mset (map fst kv')"
    using assms(1,2) by (metis list.set_map set_eq_iff_mset_eq_distinct)
  then have "sorted_keys kv = sorted_keys kv'"
    unfolding sorted_keys_def using sort_Slice_sorted_key [of "\<lambda>x. x"]
    by (metis (no_types) list.map_ident mset_sort_Slice properties_for_sort)
  ultimately show ?thesis
    using assms(3) by (simp add: BuildTree_def leaf_node_def [abs_def] flip: sorted_keys_def)
qed

lemma root_none: "GetRootHash (BuildTree p d) = None \<longleftrightarrow> d = []"
proof (cases "d = []")
  case True
  then show ?thesis by (simp add: GetRootHash_def BuildTree_def)
next
  case False
  from BuildTree_root [OF this, of p] False show ?thesis
    by (cases "mt_Root (BuildTree p d)") (auto simp: GetRootHash_def)
qed

text \<open>C23. Two replicas' trees have the same root hash exactly when their data are the same, provided SHA-256 does not
  collide on what was hashed for the two trees, no key contains a zero byte (the separator of key
  and value) and no leaf hashes exactly the 64 bytes of an inner node.\<close>

theorem equal_roots:
  assumes "distinct (map fst kv)" and "distinct (map fst kv')"
    and "inj_on sha256_Sum (hashed_inputs p kv \<union> hashed_inputs p kv')"
    and "\<forall>k\<in>fst ` (set kv \<union> set kv'). 0 \<notin> set (bytes_of k)"
    and "\<forall>x\<in>kv_inputs kv \<union> kv_inputs kv'. length x \<noteq> 64"
  shows "GetRootHash (BuildTree p kv) = GetRootHash (BuildTree p kv') \<longleftrightarrow> map_of kv = map_of kv'"
proof
  assume "map_of kv = map_of kv'"
  then show "GetRootHash (BuildTree p kv) = GetRootHash (BuildTree p kv')"
    using same_data_same_tree [OF assms(1,2)] by simp
next
  assume root: "GetRootHash (BuildTree p kv) = GetRootHash (BuildTree p kv')"
  show "map_of kv = map_of kv'"
  proof (cases "kv = []")
    case True
    with root root_none show ?thesis by metis
  next
    case False
    with root root_none have ne: "kv' \<noteq> []" by metis
    let ?m = "mt_Root (BuildTree p kv)" and ?n = "mt_Root (BuildTree p kv')"
    note m = BuildTree_root [OF False, of p] and n = BuildTree_root [OF ne, of p]
    have hash: "node_Hash ?m = node_Hash ?n"
      using root m n by (cases ?m; cases ?n) (auto simp: GetRootHash_def)
    have "node_Hash ` set (fringe ?m) = node_Hash ` set (fringe ?n)"
    proof (rule equal_hash_fringe [OF conjunct1 [OF m] conjunct1 [OF n] hash])
      show "leaves_over (kv_inputs kv) ?m" "leaves_over (kv_inputs kv') ?n"
        using leaf_hashes assms(1,2) False ne by (simp_all add: leaves_over_def)
      show "inj_on sha256_Sum (kv_inputs kv \<union> kv_inputs kv' \<union> inner_inputs ?m \<union> inner_inputs ?n)"
        by (rule inj_on_subset [OF assms(3)]) (auto simp: hashed_inputs_def)
      show "\<forall>x\<in>kv_inputs kv \<union> kv_inputs kv'. length x \<noteq> 64" by (rule assms(5))
    qed
    then have "sha256_Sum ` kv_inputs kv = sha256_Sum ` kv_inputs kv'"
      using leaf_hashes assms(1,2) False ne by simp
    moreover have "kv_inputs kv \<subseteq> hashed_inputs p kv \<union> hashed_inputs p kv'"
      "kv_inputs kv' \<subseteq> hashed_inputs p kv \<union> hashed_inputs p kv'" by (auto simp: hashed_inputs_def)
    ultimately have "kv_inputs kv = kv_inputs kv'" using inj_on_image_eq_iff [OF assms(3)] by blast
    then have "set kv = set kv'" using assms(4) by (rule kv_inputs_inj)
    then show ?thesis using map_of_inject_set [OF assms(1,2)] by simp
  qed
qed

lemma equal_roots_witness:
  "GetRootHash (BuildTree ''p'' [(''a'', [7])]) \<noteq> GetRootHash (BuildTree ''p'' [])"
proof -
  let ?kv = "[(''a'', [7 :: byte])]"
  have inner: "inner_inputs (mt_Root (BuildTree ''p'' ?kv)) = {}" "inner_inputs (mt_Root (BuildTree ''p'' [])) = {}"
    by (simp_all add: BuildTree_def buildTreeFromLeaves_def leaf_node_def Let_def)
  have "GetRootHash (BuildTree ''p'' ?kv) = GetRootHash (BuildTree ''p'' []) \<longleftrightarrow> map_of ?kv = map_of []"
    by (rule equal_roots)
       (simp_all add: hashed_inputs_def inner kv_inputs_def leaf_input_def bytes_of_def)
  then show ?thesis by (simp add: fun_eq_iff)
qed

section \<open>Ranges\<close>

lemma BuildTree_ranges: "mt_KeyRanges (BuildTree p kv) = map (leaf_range (sorted_keys kv)) [0..<length kv]"
  by (simp add: BuildTree_def Let_def case_prod_beta flip: sorted_keys_def)

lemma filter_one:
  assumes "j < length xs" and "sorted_wrt (<) xs" and "P (xs ! j)"
    and "\<And>x. x < xs ! j \<Longrightarrow> \<not> P x" and "\<And>x. x \<in> set (drop (Suc j) xs) \<Longrightarrow> \<not> P x"
  shows "filter P xs = [xs ! j :: 'a :: linorder]"
proof -
  have xs: "xs = take j xs @ xs ! j # drop (Suc j) xs" by (rule id_take_nth_drop [OF assms(1)])
  with assms(2) have "\<forall>x\<in>set (take j xs). x < xs ! j"
    by (metis (no_types, lifting) list.set_intros(1) sorted_wrt_append)
  with assms(4) have "filter P (take j xs) = []" by (auto simp: filter_empty_conv)
  moreover have "filter P (drop (Suc j) xs) = []" using assms(5) by (auto simp: filter_empty_conv)
  ultimately have "filter P (take j xs @ xs ! j # drop (Suc j) xs) = [xs ! j]" using assms(3) by simp
  with xs show ?thesis by simp
qed

text \<open>The key ranges of a tree do not fit the scans that repair them: scanned by the storage service, the
  range of a key's leaf never yields the key itself. It yields the previous key of the partition,
  and nothing for the first. So the first divergent key of a partition can only be repaired if its
  successor diverges, and the last never.\<close>

theorem leaf_range_scans_neighbour:
  assumes "distinct (map fst kv)" and "[] \<notin> fst ` set kv" and "i < length kv"
  shows "filter (\<lambda>k. inRange k (kr_Start (mt_KeyRanges (BuildTree p kv) ! i)) (kr_End (mt_KeyRanges (BuildTree p kv) ! i)))
           (sorted_keys kv) = (if i = 0 then [] else [sorted_keys kv ! (i - 1)])"
proof -
  let ?keys = "sorted_keys kv"
  have sorted: "sorted_wrt (<) ?keys"
    using sort_Slice_sorted_key [of "\<lambda>x. x" "map fst kv"] assms(1)
    by (simp add: strict_sorted_iff sorted_keys_def)
  have ne: "?keys ! j \<noteq> []" if "j < length kv" for j
    using assms(2) nth_mem [of j ?keys] that by (metis sorted_keys_basic)
  show ?thesis
  proof (cases i)
    case 0
    with assms(3) ne [of i] show ?thesis
      by (auto simp: BuildTree_ranges leaf_range_def inRange_def filter_empty_conv)
  next
    case (Suc j)
    with assms(3) have j: "j < length ?keys" "Suc j < length ?keys" by simp_all
    have range: "inRange k (kr_Start (mt_KeyRanges (BuildTree p kv) ! i)) (kr_End (mt_KeyRanges (BuildTree p kv) ! i)) \<longleftrightarrow>
        ?keys ! j \<le> k \<and> k < ?keys ! Suc j" for k
      using ne [of j] ne [of i] Suc assms(3) by (auto simp: BuildTree_ranges leaf_range_def inRange_def)
    have later: "\<not> x < ?keys ! Suc j" if x: "x \<in> set (drop (Suc j) ?keys)" for x
    proof -
      obtain k where k: "k < length (drop (Suc j) ?keys)" "x = drop (Suc j) ?keys ! k" using x by (auto simp: in_set_conv_nth)
      then have "x = ?keys ! (Suc j + k)" using j(2) by simp
      moreover have "?keys ! Suc j \<le> ?keys ! (Suc j + k)"
        using sorted k(1) by (intro sorted_nth_mono) (auto simp: strict_sorted_iff)
      ultimately show ?thesis by simp
    qed
    have "?keys ! j < ?keys ! Suc j" using sorted_wrt_nth_less [OF sorted, of j "Suc j"] j by simp
    then have "filter (\<lambda>k. ?keys ! j \<le> k \<and> k < ?keys ! Suc j) ?keys = [?keys ! j]"
      using later by (intro filter_one [OF j(1) sorted]) auto
    then show ?thesis unfolding range using Suc by simp
  qed
qed

lemma leaf_range_scans_neighbour_witness:
  "filter (\<lambda>k. inRange k (kr_Start (mt_KeyRanges (BuildTree ''p'' [(''b'', [1]), (''a'', [2])]) ! 1))
      (kr_End (mt_KeyRanges (BuildTree ''p'' [(''b'', [1]), (''a'', [2])]) ! 1)))
     (sorted_keys [(''b'', [1]), (''a'', [2])]) = [sorted_keys [(''b'', [1]), (''a'', [2 :: byte])] ! 0]"
  using leaf_range_scans_neighbour [of "[(''b'', [1]), (''a'', [2])]" 1 "''p''"] by simp

section \<open>Serialization\<close>

lemma fromWire_toWire [simp]: "fromWireNode (toWireNode n) = n"
  by (induction n) simp_all

lemma collect_fringe: "collectKeyRanges n = concat (map range_of (fringe n))"
  by (induction n) (auto simp: range_of_def split: option.splits)

lemma build_levels_depth: "depth \<le> snd (build_levels level depth)"
proof (induction level depth rule: build_levels.induct)
  case (1 level depth)
  then show ?case by (subst build_levels.simps) auto
qed

lemma build_tree_depth: "leaves \<noteq> [] \<Longrightarrow> 1 \<le> snd (buildTreeFromLeaves leaves)"
  using build_levels_depth [of 1 leaves] by (simp add: buildTreeFromLeaves_def case_prod_beta)

text \<open>A tree that is serialized and read back has the same root and depth and the same set of key ranges;
  the ranges may come back repeated, because an odd node is its own sibling.\<close>

theorem merkle_roundtrip:
  "\<exists>t. DeserializeMerkleTree (Some (Some (Serialize (BuildTree p kv)))) p = Inr t \<and>
     mt_PartitionID t = p \<and> mt_Root t = mt_Root (BuildTree p kv) \<and> mt_Depth t = mt_Depth (BuildTree p kv) \<and>
     set (mt_KeyRanges t) = set (mt_KeyRanges (BuildTree p kv))"
proof (cases "kv = []")
  case True
  then show ?thesis by (simp add: DeserializeMerkleTree_def Serialize_def BuildTree_def Let_def)
next
  case False
  let ?t = "BuildTree p kv"
  have "mt_Depth ?t = snd (buildTreeFromLeaves (map (leaf_node kv (sorted_keys kv)) [0..<length kv]))"
    using False by (simp add: BuildTree_def Let_def case_prod_beta flip: sorted_keys_def)
  with False have "mt_Depth ?t \<noteq> 0"
    using build_tree_depth [of "map (leaf_node kv (sorted_keys kv)) [0..<length kv]"] by simp
  moreover have "range_of (leaf_node kv keys i) = [leaf_range keys i]" for keys i
    by (simp add: range_of_def leaf_node_def Let_def)
  then have "set (collectKeyRanges (mt_Root ?t)) = set (mt_KeyRanges ?t)"
    using BuildTree_root [OF False, of p] by (auto simp: collect_fringe BuildTree_ranges)
  ultimately show ?thesis by (simp add: DeserializeMerkleTree_def Serialize_def Let_def)
qed

end
