(* ===== verification/Entropy.thy ===== *)
theory Entropy
  imports Coordinator Merkle
begin

text \<open>
  Anti-entropy repair, \<^verbatim>\<open>src/core/cluster/repair/entropy\<close>: the comparator, the range executor and
  the orchestrator, with the providers of \<^verbatim>\<open>src/cmd/allidbd/main.go\<close>. Range loops over maps take
  their order as an argument, as does the order in which the trees arrive. A provider returns a
  tree whenever it returns no error.
\<close>

section \<open>Comparator\<close>

type_synonym PartitionID = string
type_synonym tree_provider = "NodeID \<Rightarrow> PartitionID \<Rightarrow> MerkleTree go"
type_synonym data_provider = "NodeID \<Rightarrow> PartitionID \<Rightarrow> KeyRange \<Rightarrow> (string \<times> bytes) list go"
type_synonym tree_map = "(NodeID \<times> MerkleTree) list"

record DivergentRange =
  dr_PartitionID :: PartitionID
  dr_KeyRange :: KeyRange
  dr_DivergentNodes :: "NodeID list"
  dr_CorrectNode :: NodeID

record Comparator =
  cp_comparisonsPerformed :: int
  cp_divergentRangesFound :: int

definition NewComparator :: Comparator where
  "NewComparator = \<lparr>cp_comparisonsPerformed = 0, cp_divergentRangesFound = 0\<rparr>"

text \<open>The orders of the range loops, over the trees and over the counted hashes.\<close>

record loop_orders =
  ord_trees :: "tree_map \<Rightarrow> tree_map"
  ord_counts :: "(bytes \<times> int) list \<Rightarrow> (bytes \<times> int) list"
  ord_ranges :: "(string \<times> KeyRange) list \<Rightarrow> (string \<times> KeyRange) list"
  ord_data :: "(string \<times> bytes) list \<Rightarrow> (string \<times> bytes) list"

text \<open>The maps \<^verbatim>\<open>hashCounts\<close> and \<^verbatim>\<open>hashToTree\<close>; a tree is known by its node, as the code compares pointers.\<close>

definition count_root ::
  "NodeID \<times> MerkleTree \<Rightarrow> (bytes \<times> int) list \<times> (bytes \<times> (NodeID \<times> MerkleTree)) list \<Rightarrow>
     (bytes \<times> int) list \<times> (bytes \<times> (NodeID \<times> MerkleTree)) list" where
  "count_root = (\<lambda>(nodeID, tree) (hashCounts, hashToTree).
     case mt_Root tree of
       NilNode \<Rightarrow> (hashCounts, hashToTree)
     | MerkleNode hash l r k d \<Rightarrow>
         (AList.update hash ((case map_of hashCounts hash of None \<Rightarrow> 0 | Some n \<Rightarrow> n) + 1) hashCounts,
          AList.update hash (nodeID, tree) hashToTree))"

fun max_hash :: "(bytes \<times> int) list \<Rightarrow> int \<Rightarrow> bytes \<Rightarrow> int \<times> bytes" where
  "max_hash [] maxCount majorityHash = (maxCount, majorityHash)"
| "max_hash ((hash, n) # counts) maxCount majorityHash =
     (if n > maxCount then max_hash counts n hash else max_hash counts maxCount majorityHash)"

definition findMajorityTree :: "loop_orders \<Rightarrow> tree_map \<Rightarrow> (NodeID \<times> MerkleTree) option" where
  "findMajorityTree ord trees =
     (if length trees = 0 then None
      else
        let (hashCounts, hashToTree) = fold count_root (ord_trees ord trees) ([], []);
            (maxCount, majorityHash) = max_hash (ord_counts ord hashCounts) 0 []
        in if maxCount > int (length trees div 2) then map_of hashToTree majorityHash else None)"

fun ranges_loop ::
  "PartitionID \<Rightarrow> NodeID \<Rightarrow> NodeID \<Rightarrow> KeyRange list \<Rightarrow> string set \<times> DivergentRange list \<Rightarrow> string set \<times> DivergentRange list" where
  "ranges_loop partitionID correctNode nodeID [] acc = acc"
| "ranges_loop partitionID correctNode nodeID (keyRange # ranges) (seenRanges, divergentRanges) =
     (let rangeKey = kr_Start keyRange @ '':'' @ kr_End keyRange @ '':'' @ nodeID
      in if rangeKey \<in> seenRanges
         then ranges_loop partitionID correctNode nodeID ranges (seenRanges, divergentRanges)
         else ranges_loop partitionID correctNode nodeID ranges
                (insert rangeKey seenRanges,
                 divergentRanges @ [\<lparr>dr_PartitionID = partitionID, dr_KeyRange = keyRange,
                   dr_DivergentNodes = [nodeID], dr_CorrectNode = correctNode\<rparr>]))"

definition allRangesDivergent :: "loop_orders \<Rightarrow> tree_map \<Rightarrow> PartitionID \<Rightarrow> DivergentRange list" where
  "allRangesDivergent ord trees partitionID =
     (let allRanges = fold (\<lambda>(nodeID, tree) m.
            fold (\<lambda>keyRange m. AList.update (kr_Start keyRange @ '':'' @ kr_End keyRange) keyRange m) (mt_KeyRanges tree) m)
            (ord_trees ord trees) []
      in map (\<lambda>(k, keyRange). \<lparr>dr_PartitionID = partitionID, dr_KeyRange = keyRange, dr_DivergentNodes = [],
                dr_CorrectNode = []\<rparr>) (ord_ranges ord allRanges))"

definition findDivergentRanges :: "loop_orders \<Rightarrow> tree_map \<Rightarrow> PartitionID \<Rightarrow> DivergentRange list" where
  "findDivergentRanges ord trees partitionID =
     (case findMajorityTree ord trees of
        None \<Rightarrow> allRangesDivergent ord trees partitionID
      | Some (correctNode, majorityTree) \<Rightarrow>
          snd (fold (\<lambda>(nodeID, tree) acc.
            if nodeID = correctNode then acc
            else ranges_loop partitionID correctNode nodeID (FindDivergentRanges majorityTree tree) acc)
            (ord_trees ord trees) ({}, [])))"

text \<open>The trees are fetched in parallel; one failure fails the comparison.\<close>

definition fetch_trees :: "tree_provider \<Rightarrow> PartitionID \<Rightarrow> NodeID list \<Rightarrow> tree_map go" where
  "fetch_trees tp partitionID replicas =
     (if list_ex (\<lambda>r. tp r partitionID = Inl Panic) replicas then Inl Panic
      else rwrap ''failed to fetch trees'' (go_map (\<lambda>r. rbind (tp r partitionID) (\<lambda>tree. Inr (r, tree))) replicas))"

definition ComparePartition ::
  "loop_orders \<Rightarrow> tree_provider \<Rightarrow> Coordinator option \<Rightarrow> PartitionID \<Rightarrow> Comparator \<Rightarrow> Comparator \<times> DivergentRange list go" where
  "ComparePartition ord tp coord partitionID s =
     (case coord of
        None \<Rightarrow> (s, Inl (Fail ''coordinator not set''))
      | Some c \<Rightarrow>
          (case GetAliveReplicas c partitionID of
             Inl e \<Rightarrow> (s, Inl e)
           | Inr replicas \<Rightarrow>
               if length replicas < 2 then (s, Inr [])
               else (case fetch_trees tp partitionID replicas of
                       Inl e \<Rightarrow> (s, Inl e)
                     | Inr trees \<Rightarrow>
                         if length trees < 2 then (s, Inr [])
                         else
                           let divergentRanges = findDivergentRanges ord trees partitionID
                           in (s\<lparr>cp_comparisonsPerformed := cp_comparisonsPerformed s + 1,
                                 cp_divergentRangesFound := cp_divergentRangesFound s + int (length divergentRanges)\<rparr>,
                               Inr divergentRanges))))"

section \<open>Range executor\<close>

record RangeExecutor =
  rx_rangesRepaired :: int
  rx_rangesFailed :: int
  rx_keysRepaired :: int

definition NewRangeExecutor :: RangeExecutor where
  "NewRangeExecutor = \<lparr>rx_rangesRepaired = 0, rx_rangesFailed = 0, rx_keysRepaired = 0\<rparr>"

type_synonym 'w key_writer = "string \<Rightarrow> slice_bytes \<Rightarrow> 'w \<Rightarrow> 'w \<times> unit go"

fun copy_loop :: "'w key_writer \<Rightarrow> (string \<times> bytes) list \<Rightarrow> nat \<Rightarrow> 'w \<Rightarrow> nat \<times> 'w" where
  "copy_loop cw [] successCount w = (successCount, w)"
| "copy_loop cw ((key, val) # correctData) successCount w =
     (case cw key (Some val) w of
        (w, Inl e) \<Rightarrow> copy_loop cw correctData successCount w
      | (w, Inr u) \<Rightarrow> copy_loop cw correctData (successCount + 1) w)"

definition RepairRange ::
  "loop_orders \<Rightarrow> 'w key_writer option \<Rightarrow> data_provider option \<Rightarrow> DivergentRange \<Rightarrow> RangeExecutor \<times> 'w \<Rightarrow>
     (RangeExecutor \<times> 'w) \<times> unit go" where
  "RepairRange ord coord dp dr = (\<lambda>(x, w).
     case coord of
       None \<Rightarrow> ((x, w), Inl (Fail ''coordinator not set''))
     | Some cw \<Rightarrow>
         (case dp of
            None \<Rightarrow> ((x, w), Inl (Fail ''data provider not set''))
          | Some get \<Rightarrow>
              if length (dr_DivergentNodes dr) = 0 then ((x, w), Inl (Fail ''no divergent nodes to repair''))
              else (case get (dr_CorrectNode dr) (dr_PartitionID dr) (dr_KeyRange dr) of
                      Inl e \<Rightarrow> ((x\<lparr>rx_rangesFailed := rx_rangesFailed x + 1\<rparr>, w),
                                rwrap ''failed to get correct data'' (Inl e))
                    | Inr correctData \<Rightarrow>
                        if length correctData = 0 then ((x, w), Inr ())
                        else
                          let (successCount, w) = copy_loop cw (ord_data ord correctData) 0 w;
                              x = (if successCount > 0
                                   then x\<lparr>rx_rangesRepaired := rx_rangesRepaired x + 1,
                                          rx_keysRepaired := rx_keysRepaired x + int successCount\<rparr>
                                   else x\<lparr>rx_rangesFailed := rx_rangesFailed x + 1\<rparr>)
                          in ((x, w), if successCount = 0 then Inl (Fail ''failed to repair any keys in range'')
                                      else Inr ()))))"

fun repair_ranges_loop ::
  "loop_orders \<Rightarrow> 'w key_writer option \<Rightarrow> data_provider option \<Rightarrow> DivergentRange list \<Rightarrow> nat \<Rightarrow> bool \<Rightarrow>
     RangeExecutor \<times> 'w \<Rightarrow> (RangeExecutor \<times> 'w) \<times> nat \<times> bool" where
  "repair_ranges_loop ord coord dp [] successCount failed xw = (xw, successCount, failed)"
| "repair_ranges_loop ord coord dp (dr # drs) successCount failed xw =
     (case RepairRange ord coord dp dr xw of
        (xw, Inl e) \<Rightarrow> repair_ranges_loop ord coord dp drs successCount True xw
      | (xw, Inr u) \<Rightarrow> repair_ranges_loop ord coord dp drs (successCount + 1) failed xw)"

definition RepairRanges ::
  "loop_orders \<Rightarrow> 'w key_writer option \<Rightarrow> data_provider option \<Rightarrow> DivergentRange list \<Rightarrow> RangeExecutor \<times> 'w \<Rightarrow>
     (RangeExecutor \<times> 'w) \<times> unit go" where
  "RepairRanges ord coord dp drs xw =
     (case repair_ranges_loop ord coord dp drs 0 False xw of
        (xw, successCount, failed) \<Rightarrow>
          (xw, if successCount = 0 \<and> failed then Inl (Fail ''all repairs failed'') else Inr ()))"

section \<open>Orchestrator\<close>

record Orchestrator =
  or_periodicInterval :: int
  or_running :: bool
  or_manualRepairCh :: "PartitionID list"
  or_closed :: bool
  or_repairsCompleted :: int
  or_repairsFailed :: int
  or_lastRepairTime :: time

definition NewOrchestrator :: "int \<Rightarrow> Orchestrator" where
  "NewOrchestrator periodicInterval =
     \<lparr>or_periodicInterval = periodicInterval, or_running = False, or_manualRepairCh = [], or_closed = False,
      or_repairsCompleted = 0, or_repairsFailed = 0, or_lastRepairTime = time_zero\<rparr>"

definition or_Start :: "Orchestrator \<Rightarrow> Orchestrator go" where
  "or_Start orc =
     (if or_running orc then Inl (Fail ''orchestrator already running'')
      else if or_periodicInterval orc \<le> 0 then Inl Panic
      else Inr (orc\<lparr>or_running := True\<rparr>))"

definition or_Stop :: "Orchestrator \<Rightarrow> Orchestrator go" where
  "or_Stop orc =
     (if \<not> or_running orc then Inr orc
      else if or_closed orc then Inl Panic
      else Inr (orc\<lparr>or_running := False, or_closed := True\<rparr>))"

definition or_IsRunning :: "Orchestrator \<Rightarrow> bool" where
  "or_IsRunning orc = or_running orc"

text \<open>A send on a closed channel panics, also in a \<^verbatim>\<open>select\<close> with a default.\<close>

definition TriggerRepair :: "PartitionID \<Rightarrow> Orchestrator \<Rightarrow> Orchestrator \<times> unit go" where
  "TriggerRepair partitionID orc =
     (if \<not> or_IsRunning orc then (orc, Inl (Fail ''orchestrator is not running''))
      else if or_closed orc then (orc, Inl Panic)
      else if length (or_manualRepairCh orc) < 100
      then (orc\<lparr>or_manualRepairCh := or_manualRepairCh orc @ [partitionID]\<rparr>, Inr ())
      else (orc, Inl (Fail ''manual repair queue is full'')))"

fun trigger_loop :: "PartitionID list \<Rightarrow> Orchestrator \<Rightarrow> Orchestrator \<times> unit go" where
  "trigger_loop [] orc = (orc, Inr ())"
| "trigger_loop (p # ps) orc =
     (case TriggerRepair p orc of
        (orc, Inl Panic) \<Rightarrow> (orc, Inl Panic)
      | (orc, res) \<Rightarrow> trigger_loop ps orc)"

definition TriggerFullRepair :: "PartitionID list go option \<Rightarrow> Orchestrator \<Rightarrow> Orchestrator \<times> unit go" where
  "TriggerFullRepair provider orc =
     (case provider of
        None \<Rightarrow> (orc, Inl (Fail ''partition provider not set''))
      | Some (Inl e) \<Rightarrow> (orc, rwrap ''failed to get partitions'' (Inl e))
      | Some (Inr partitions) \<Rightarrow> trigger_loop partitions orc)"

text \<open>The state that a repair works on: the orchestrator, its comparator and executor, and the world of the replicas.\<close>

type_synonym 'w repair_state = "Orchestrator \<times> Comparator \<times> RangeExecutor \<times> 'w"

definition repairPartition ::
  "loop_orders \<Rightarrow> tree_provider \<Rightarrow> data_provider option \<Rightarrow> Coordinator option \<Rightarrow> 'w key_writer option \<Rightarrow> time \<Rightarrow>
     PartitionID \<Rightarrow> 'w repair_state \<Rightarrow> 'w repair_state" where
  "repairPartition ord tp dp coord cw now partitionID = (\<lambda>(orc, s, x, w).
     case ComparePartition ord tp coord partitionID s of
       (s, Inl e) \<Rightarrow> (orc\<lparr>or_repairsFailed := or_repairsFailed orc + 1\<rparr>, s, x, w)
     | (s, Inr divergentRanges) \<Rightarrow>
         if length divergentRanges = 0 then (orc, s, x, w)
         else (case RepairRanges ord cw dp divergentRanges (x, w) of
                 ((x, w), Inl e) \<Rightarrow> (orc\<lparr>or_repairsFailed := or_repairsFailed orc + 1\<rparr>, s, x, w)
               | ((x, w), Inr u) \<Rightarrow>
                   (orc\<lparr>or_repairsCompleted := or_repairsCompleted orc + 1, or_lastRepairTime := now\<rparr>, s, x, w)))"

definition runPeriodicRepair ::
  "loop_orders \<Rightarrow> tree_provider \<Rightarrow> data_provider option \<Rightarrow> Coordinator option \<Rightarrow> 'w key_writer option \<Rightarrow> time \<Rightarrow>
     PartitionID list go option \<Rightarrow> 'w repair_state \<Rightarrow> 'w repair_state" where
  "runPeriodicRepair ord tp dp coord cw now provider st =
     (case provider of
        Some (Inr partitions) \<Rightarrow> fold (repairPartition ord tp dp coord cw now) partitions st
      | _ \<Rightarrow> st)"

text \<open>One round of the loop for manual requests.\<close>

definition manual_round ::
  "loop_orders \<Rightarrow> tree_provider \<Rightarrow> data_provider option \<Rightarrow> Coordinator option \<Rightarrow> 'w key_writer option \<Rightarrow> time \<Rightarrow>
     'w repair_state \<Rightarrow> 'w repair_state" where
  "manual_round ord tp dp coord cw now = (\<lambda>(orc, s, x, w).
     case or_manualRepairCh orc of
       [] \<Rightarrow> (orc, s, x, w)
     | p # ps \<Rightarrow> repairPartition ord tp dp coord cw now p (orc\<lparr>or_manualRepairCh := ps\<rparr>, s, x, w))"

section \<open>The server's providers\<close>

definition GetPartitions :: "Ring \<Rightarrow> PartitionID list go" where
  "GetPartitions r = (let nodes = ring_GetNodes r in if length nodes = 0 then Inr [] else Inr (map (\<lambda>n. n) nodes))"

fun owned_loop ::
  "Coordinator \<Rightarrow> NodeID \<Rightarrow> (string \<times> UnifiedEntity) list \<Rightarrow> (string \<times> bytes) list \<Rightarrow> (string \<times> bytes) list go" where
  "owned_loop c nodeID [] result = Inr result"
| "owned_loop c nodeID ((key, ent) # data) result =
     rbind (GetReplicas c key) (\<lambda>owners.
       if nodeID \<notin> set owners then owned_loop c nodeID data result
       else rbind (entity_ToBytes ent) (\<lambda>b. owned_loop c nodeID data (AList.update key b result)))"

definition prod_GetTree :: "Coordinator \<Rightarrow> StorageService option \<Rightarrow> NodeID \<Rightarrow> tree_provider" where
  "prod_GetTree c svc localNodeID nodeID partitionID =
     (if nodeID \<noteq> localNodeID then Inl (Fail ''range scan for remote node not implemented'')
      else (case svc of
              None \<Rightarrow> Inl (Fail ''tree provider missing storage service'')
            | Some s \<Rightarrow>
                rbind (rwrap ''range scan failed'' (RangeScan [] [] [] s)) (\<lambda>data.
                rbind (owned_loop c nodeID data []) (\<lambda>keyValues. Inr (BuildTree partitionID keyValues)))))"

definition prod_GetRangeData :: "Coordinator \<Rightarrow> StorageService option \<Rightarrow> NodeID \<Rightarrow> data_provider" where
  "prod_GetRangeData c svc localNodeID nodeID partitionID keyRange =
     (case svc of
        None \<Rightarrow> Inl (Fail ''data provider missing storage service'')
      | Some s \<Rightarrow>
          if nodeID \<noteq> localNodeID then Inl (Fail ''range scan for remote node not implemented'')
          else
            rbind (rwrap ''range scan failed'' (RangeScan (kr_Start keyRange) (kr_End keyRange) [] s)) (\<lambda>data.
            owned_loop c nodeID data []))"

section \<open>What the server's repair does\<close>

lemma go_map_Inl: "x \<in> set xs \<Longrightarrow> f x = Inl e \<Longrightarrow> \<exists>e. go_map f xs = Inl e"
  by (induction xs) (auto simp: rbind_eq_Inl split: sum.splits, (metis old.sum.exhaust rbind_simps)+)

lemma fetch_remote:
  assumes "distinct replicas" and "length replicas \<ge> 2"
  shows "\<exists>e. fetch_trees (prod_GetTree c svc local) p replicas = Inl e"
proof -
  obtain a b rest where ab: "replicas = a # b # rest"
    using assms(2) by (cases replicas; cases "tl replicas") auto
  with assms(1) have "a \<noteq> local \<or> b \<noteq> local" by auto
  then obtain r where r: "r \<in> set replicas" "r \<noteq> local" using ab by auto
  then have "rbind (prod_GetTree c svc local r p) (\<lambda>tree. Inr (r, tree)) = Inl (Fail ''range scan for remote node not implemented'')"
    by (simp add: prod_GetTree_def)
  from go_map_Inl [OF r(1), where f = "\<lambda>r. rbind (prod_GetTree c svc local r p) (\<lambda>tree. Inr (r, tree))", OF this]
  show ?thesis
    by (auto simp: fetch_trees_def rwrap_def split: sum.splits go_error.splits)
qed

lemma repair_partition_inert:
  "case repairPartition ord (prod_GetTree c svc local) dp (Some c) cw now p (orc, s, x, w) of
     (o2, s', x', w') \<Rightarrow> s' = s \<and> x' = x \<and> w' = w \<and> or_repairsCompleted o2 = or_repairsCompleted orc"
proof (cases "GetAliveReplicas c p")
  case (Inl e)
  then show ?thesis by (simp add: repairPartition_def ComparePartition_def)
next
  case (Inr replicas)
  then have "distinct replicas"
    using selectReplicas_basic by (fastforce simp: GetAliveReplicas_def rbind_eq_Inr filterAlive_basic)
  with Inr fetch_remote [of replicas c svc local p] show ?thesis
    by (cases "length replicas < 2") (auto simp: repairPartition_def ComparePartition_def)
qed

text \<open>The server's anti-entropy repair never repairs anything: on every ring, whatever is alive, stored or
  divergent, a periodic round with the server's providers completes no repair and changes no
  replica. A partition with one live replica is not compared, and with two or more the comparison
  fails, because trees of other nodes cannot be fetched.\<close>

theorem anti_entropy_inert:
  assumes "runPeriodicRepair ord (prod_GetTree c svc local) (Some (prod_GetRangeData c svc local)) (Some c) cw now
             (Some (GetPartitions (co_ring c))) (orc, s, x, w) = (o2, s', x', w')"
  shows "w' = w \<and> x' = x \<and> or_repairsCompleted o2 = or_repairsCompleted orc"
proof -
  let ?repair = "repairPartition ord (prod_GetTree c svc local) (Some (prod_GetRangeData c svc local)) (Some c) cw now"
  have "case fold ?repair ps (orc, s, x, w) of
      (o2, s', x', w') \<Rightarrow> w' = w \<and> x' = x \<and> or_repairsCompleted o2 = or_repairsCompleted orc" for ps
  proof (induction ps arbitrary: orc)
    case (Cons p ps)
    obtain o3 s3 x3 w3 where r: "?repair p (orc, s, x, w) = (o3, s3, x3, w3)" by (metis prod_cases4)
    with repair_partition_inert [where ord = ord and c = c and svc = svc and local = local and cw = cw and now = now
        and p = p and orc = orc and s = s and x = x and w = w and dp = "Some (prod_GetRangeData c svc local)"]
    have "s3 = s" "x3 = x" "w3 = w" "or_repairsCompleted o3 = or_repairsCompleted orc" by simp_all
    with Cons [of o3] r show ?case by simp
  qed simp
  from this [of "map (\<lambda>n. n) (ring_GetNodes (co_ring c))"] assms show ?thesis
    by (auto simp: runPeriodicRepair_def GetPartitions_def Let_def split: if_splits)
qed

lemma anti_entropy_inert_witness:
  "let c = NewCoordinator three_ring None (majority_config 3 5000);
       ord = \<lparr>ord_trees = rev, ord_counts = rev, ord_ranges = rev, ord_data = rev\<rparr>
   in snd (snd (snd (runPeriodicRepair ord (prod_GetTree c None ''a'') (Some (prod_GetRangeData c None ''a'')) (Some c)
        (Some (coord_Write mock_Write (\<lambda>n. [0..<n]) c)) 5 (Some (GetPartitions (co_ring c)))
        (NewOrchestrator 1, NewComparator, NewRangeExecutor, NewMockReplicaClient)))) = NewMockReplicaClient"
proof -
  define c where "c = NewCoordinator three_ring None (majority_config 3 5000)"
  define ord where "ord = \<lparr>ord_trees = rev, ord_counts = rev, ord_ranges = rev, ord_data = rev\<rparr>"
  obtain o2 s' x' w' where r: "runPeriodicRepair ord (prod_GetTree c None ''a'') (Some (prod_GetRangeData c None ''a''))
      (Some c) (Some (coord_Write mock_Write (\<lambda>n. [0..<n]) c)) 5 (Some (GetPartitions (co_ring c)))
      (NewOrchestrator 1, NewComparator, NewRangeExecutor, NewMockReplicaClient) = (o2, s', x', w')" by (metis prod_cases4)
  from anti_entropy_inert [OF r] have "w' = NewMockReplicaClient" by simp
  with r show ?thesis by (simp add: Let_def flip: c_def ord_def)
qed

text \<open>An orchestrator that was stopped and started again panics at the next manual request: its channel
  stays closed.\<close>

theorem restarted_orchestrator_panics:
  assumes "or_Start orc = Inr o2" and "or_Stop o2 = Inr o3" and "or_Start o3 = Inr o4"
  shows "TriggerRepair p o4 = (o4, Inl Panic)"
  using assms by (auto simp: or_Start_def or_Stop_def TriggerRepair_def or_IsRunning_def split: if_splits)

lemma restarted_orchestrator_panics_witness:
  "\<exists>o2 o3 o4. or_Start (NewOrchestrator 1) = Inr o2 \<and> or_Stop o2 = Inr o3 \<and> or_Start o3 = Inr o4 \<and>
     TriggerRepair ''p'' o4 = (o4, Inl Panic)"
proof -
  let ?o = "NewOrchestrator 1"
  have s: "or_Start ?o = Inr (?o\<lparr>or_running := True\<rparr>)"
    "or_Stop (?o\<lparr>or_running := True\<rparr>) = Inr (?o\<lparr>or_running := False, or_closed := True\<rparr>)"
    "or_Start (?o\<lparr>or_running := False, or_closed := True\<rparr>) = Inr (?o\<lparr>or_running := True, or_closed := True\<rparr>)"
    by (simp_all add: or_Start_def or_Stop_def NewOrchestrator_def)
  from s restarted_orchestrator_panics [OF s, of "''p''"] show ?thesis by blast
qed

end
