(* ===== verification/Graph_Cache.thy ===== *)
theory Graph_Cache
  imports Entity_Codec Memtable
begin

text \<open>
  The adjacency cache of \<^verbatim>\<open>src/core/index/graph/cache.go\<close>. Both adjacency maps are association
  lists; \<open>gc_lruList\<close> is the doubly linked list, its front first, and \<open>gc_lruMap\<close> the keys of the
  map from an entity to its list element. Every exported method holds the mutex, so it is one step.
  A slice of edges that may be \<^verbatim>\<open>nil\<close> is an option. \<open>rng\<close> is the order in which a loop over a map
  meets its keys.
\<close>

section \<open>State and operations\<close>

record GraphCache =
  gc_outgoingEdges :: "(string \<times> GraphEdge list) list"
  gc_incomingEdges :: "(string \<times> GraphEdge list) list"
  gc_lruList :: "string list"
  gc_lruMap :: "string set"
  gc_maxSize :: int
  gc_currentSize :: int

definition NewGraphCache :: "int \<Rightarrow> GraphCache" where
  "NewGraphCache maxSize =
     \<lparr>gc_outgoingEdges = [], gc_incomingEdges = [], gc_lruList = [], gc_lruMap = {},
      gc_maxSize = (if maxSize \<le> 0 then 10000 else maxSize), gc_currentSize = 0\<rparr>"

definition evictLRU :: "GraphCache \<Rightarrow> GraphCache" where
  "evictLRU gc =
     (if gc_lruList gc = [] then gc
      else let entityID = last (gc_lruList gc)
           in gc\<lparr>gc_outgoingEdges := AList.delete entityID (gc_outgoingEdges gc),
                 gc_incomingEdges := AList.delete entityID (gc_incomingEdges gc),
                 gc_lruMap := gc_lruMap gc - {entityID},
                 gc_lruList := butlast (gc_lruList gc),
                 gc_currentSize := gc_currentSize gc - 1\<rparr>)"

definition touchEntity :: "string \<Rightarrow> GraphCache \<Rightarrow> GraphCache" where
  "touchEntity entityID gc =
     (if entityID \<in> gc_lruMap gc
      then gc\<lparr>gc_lruList := entityID # remove1 entityID (gc_lruList gc)\<rparr>
      else let gc = (if gc_currentSize gc \<ge> gc_maxSize gc then evictLRU gc else gc)
           in gc\<lparr>gc_lruList := entityID # gc_lruList gc,
                 gc_lruMap := insert entityID (gc_lruMap gc),
                 gc_currentSize := gc_currentSize gc + 1\<rparr>)"

text \<open>A missing key of a map of slices reads as the empty slice.\<close>

definition edges_at :: "(string \<times> GraphEdge list) list \<Rightarrow> string \<Rightarrow> GraphEdge list" where
  "edges_at m k = (case map_of m k of None \<Rightarrow> [] | Some es \<Rightarrow> es)"

definition add_outgoing :: "GraphEdge \<Rightarrow> GraphCache \<Rightarrow> GraphCache" where
  "add_outgoing edge gc =
     (let from = FromEntity edge;
          gc = (if map_of (gc_outgoingEdges gc) from = None
                then touchEntity from (gc\<lparr>gc_outgoingEdges := AList.update from [] (gc_outgoingEdges gc)\<rparr>)
                else gc)
      in gc\<lparr>gc_outgoingEdges :=
              AList.update from (edges_at (gc_outgoingEdges gc) from @ [edge]) (gc_outgoingEdges gc)\<rparr>)"

definition add_incoming :: "GraphEdge \<Rightarrow> GraphCache \<Rightarrow> GraphCache" where
  "add_incoming edge gc =
     (let to = ToEntity edge;
          gc = (if map_of (gc_incomingEdges gc) to = None
                then touchEntity to (gc\<lparr>gc_incomingEdges := AList.update to [] (gc_incomingEdges gc)\<rparr>)
                else gc)
      in gc\<lparr>gc_incomingEdges :=
              AList.update to (edges_at (gc_incomingEdges gc) to @ [edge]) (gc_incomingEdges gc)\<rparr>)"

definition AddEdge :: "GraphEdge \<Rightarrow> GraphCache \<Rightarrow> GraphCache" where
  "AddEdge edge gc = add_incoming edge (add_outgoing edge gc)"

definition gc_GetOutgoingEdges :: "string \<Rightarrow> GraphCache \<Rightarrow> GraphCache \<times> GraphEdge list option" where
  "gc_GetOutgoingEdges entityID gc =
     (let gc = (if map_of (gc_outgoingEdges gc) entityID \<noteq> None then touchEntity entityID gc else gc)
      in (gc, map_of (gc_outgoingEdges gc) entityID))"

definition gc_GetIncomingEdges :: "string \<Rightarrow> GraphCache \<Rightarrow> GraphCache \<times> GraphEdge list option" where
  "gc_GetIncomingEdges entityID gc =
     (let gc = (if map_of (gc_incomingEdges gc) entityID \<noteq> None then touchEntity entityID gc else gc)
      in (gc, map_of (gc_incomingEdges gc) entityID))"

definition gc_GetNeighbors ::
    "(string list \<Rightarrow> string list) \<Rightarrow> string \<Rightarrow> GraphCache \<Rightarrow> GraphCache \<times> string list" where
  "gc_GetNeighbors rng entityID gc =
     (let neighborSet = remdups (map ToEntity (edges_at (gc_outgoingEdges gc) entityID) @
                                 map FromEntity (edges_at (gc_incomingEdges gc) entityID));
          gc = (if map_of (gc_outgoingEdges gc) entityID \<noteq> None then touchEntity entityID gc
                else if map_of (gc_incomingEdges gc) entityID \<noteq> None then touchEntity entityID gc
                else gc)
      in (gc, rng neighborSet))"

definition GetOutgoingNeighbors :: "string \<Rightarrow> GraphCache \<Rightarrow> GraphCache \<times> string list" where
  "GetOutgoingNeighbors entityID gc =
     (let (gc, edges) = gc_GetOutgoingEdges entityID gc
      in (gc, case edges of None \<Rightarrow> [] | Some es \<Rightarrow> map ToEntity es))"

definition GetIncomingNeighbors :: "string \<Rightarrow> GraphCache \<Rightarrow> GraphCache \<times> string list" where
  "GetIncomingNeighbors entityID gc =
     (let (gc, edges) = gc_GetIncomingEdges entityID gc
      in (gc, case edges of None \<Rightarrow> [] | Some es \<Rightarrow> map FromEntity es))"

definition gc_Size :: "GraphCache \<Rightarrow> int" where
  "gc_Size gc = gc_currentSize gc"

definition gc_MaxSize :: "GraphCache \<Rightarrow> int" where
  "gc_MaxSize gc = gc_maxSize gc"

definition gc_Clear :: "GraphCache \<Rightarrow> GraphCache" where
  "gc_Clear gc = gc\<lparr>gc_outgoingEdges := [], gc_incomingEdges := [], gc_lruList := [], gc_lruMap := {},
                     gc_currentSize := 0\<rparr>"

text \<open>The two loops of \<^verbatim>\<open>RemoveEntity\<close> drop the edges of an entity from the other side's list.\<close>

definition drop_incoming :: "string \<Rightarrow> GraphEdge \<Rightarrow> GraphCache \<Rightarrow> GraphCache" where
  "drop_incoming entityID edge gc =
     (case map_of (gc_incomingEdges gc) (ToEntity edge) of
        None \<Rightarrow> gc
      | Some incoming \<Rightarrow>
          gc\<lparr>gc_incomingEdges := AList.update (ToEntity edge)
               (filter (\<lambda>e. FromEntity e \<noteq> entityID) incoming) (gc_incomingEdges gc)\<rparr>)"

definition drop_outgoing :: "string \<Rightarrow> GraphEdge \<Rightarrow> GraphCache \<Rightarrow> GraphCache" where
  "drop_outgoing entityID edge gc =
     (case map_of (gc_outgoingEdges gc) (FromEntity edge) of
        None \<Rightarrow> gc
      | Some outgoing \<Rightarrow>
          gc\<lparr>gc_outgoingEdges := AList.update (FromEntity edge)
               (filter (\<lambda>e. ToEntity e \<noteq> entityID) outgoing) (gc_outgoingEdges gc)\<rparr>)"

definition RemoveEntity :: "string \<Rightarrow> GraphCache \<Rightarrow> GraphCache" where
  "RemoveEntity entityID gc =
     (let gc = (case map_of (gc_outgoingEdges gc) entityID of
                  None \<Rightarrow> gc
                | Some edges \<Rightarrow>
                    (let gc = fold (drop_incoming entityID) edges gc
                     in gc\<lparr>gc_outgoingEdges := AList.delete entityID (gc_outgoingEdges gc)\<rparr>));
          gc = (case map_of (gc_incomingEdges gc) entityID of
                  None \<Rightarrow> gc
                | Some edges \<Rightarrow>
                    (let gc = fold (drop_outgoing entityID) edges gc
                     in gc\<lparr>gc_incomingEdges := AList.delete entityID (gc_incomingEdges gc)\<rparr>))
      in if entityID \<in> gc_lruMap gc
         then gc\<lparr>gc_lruList := remove1 entityID (gc_lruList gc), gc_lruMap := gc_lruMap gc - {entityID},
                 gc_currentSize := gc_currentSize gc - 1\<rparr>
         else gc)"

definition gc_HasEntity :: "string \<Rightarrow> GraphCache \<Rightarrow> bool" where
  "gc_HasEntity entityID gc \<longleftrightarrow> map_of (gc_outgoingEdges gc) entityID \<noteq> None"

definition GetEdgeCount :: "GraphCache \<Rightarrow> nat" where
  "GetEdgeCount gc = fold (\<lambda>(k, edges) count. count + length edges) (gc_outgoingEdges gc) 0"

section \<open>Traversals\<close>

text \<open>
  The visitor is a function of the caller with a state of its own; it answers whether to go on. Both
  loops end: an entity is visited at most once, and one without cached edges adds no work.
\<close>

type_synonym 's visitor = "string \<Rightarrow> GraphEdge list \<Rightarrow> 's \<Rightarrow> bool \<times> 's"

definition fresh_targets :: "GraphEdge list \<Rightarrow> string set \<Rightarrow> string list" where
  "fresh_targets edges visited = map ToEntity (filter (\<lambda>edge. ToEntity edge \<notin> visited) edges)"

lemma visit_smaller:
  assumes "x \<notin> visited"
  shows "card (keys_of out - insert x visited) < card (keys_of out - visited) \<or>
    card (keys_of out - insert x visited) = card (keys_of out - visited) \<and> edges_at out x = []"
proof (cases "x \<in> keys_of out")
  case True
  with assms have "keys_of out - insert x visited \<subset> keys_of out - visited" by auto
  then show ?thesis by (simp add: psubset_card_mono keys_of_def)
next
  case False
  then have "edges_at out x = []" and "keys_of out - insert x visited = keys_of out - visited"
    using map_of_keys(1) [of out x] by (auto simp: edges_at_def)
  then show ?thesis by simp
qed

function bfs_loop ::
    "(string \<times> GraphEdge list) list \<Rightarrow> 's visitor \<Rightarrow> string list \<Rightarrow> string set \<Rightarrow> int \<Rightarrow> 's \<Rightarrow> int \<times> 's" where
  "bfs_loop out visitor [] visited cnt s = (cnt, s)"
| "bfs_loop out visitor (current # queue) visited cnt s =
     (if current \<in> visited then bfs_loop out visitor queue visited cnt s
      else let visited = insert current visited;
               edges = edges_at out current
           in (case visitor current edges s of
                 (ok, s) \<Rightarrow>
                   if \<not> ok then (cnt, s)
                   else bfs_loop out visitor (queue @ fresh_targets edges visited) visited (cnt + 1) s))"
  by pat_completeness auto
termination
  by (relation "measures [\<lambda>(out, visitor, queue, visited, cnt, s). card (keys_of out - visited),
                           \<lambda>(out, visitor, queue, visited, cnt, s). length queue]")
     (use visit_smaller in \<open>fastforce simp: fresh_targets_def\<close>)+

definition Traverse :: "string \<Rightarrow> 's visitor \<Rightarrow> GraphCache \<Rightarrow> 's \<Rightarrow> int \<times> 's" where
  "Traverse start visitor gc s = bfs_loop (gc_outgoingEdges gc) visitor [start] {} 0 s"

text \<open>The stack's top is the last element of the slice.\<close>

function dfs_loop ::
    "(string \<times> GraphEdge list) list \<Rightarrow> 's visitor \<Rightarrow> string list \<Rightarrow> string set \<Rightarrow> int \<Rightarrow> 's \<Rightarrow> int \<times> 's" where
  "dfs_loop out visitor stack visited cnt s =
     (if stack = [] then (cnt, s)
      else let current = last stack; stack = butlast stack
           in if current \<in> visited then dfs_loop out visitor stack visited cnt s
              else let visited = insert current visited;
                       edges = edges_at out current
                   in (case visitor current edges s of
                         (ok, s) \<Rightarrow>
                           if \<not> ok then (cnt, s)
                           else dfs_loop out visitor (stack @ fresh_targets (rev edges) visited) visited
                                  (cnt + 1) s))"
  by pat_completeness auto
termination
  by (relation "measures [\<lambda>(out, visitor, stack, visited, cnt, s). card (keys_of out - visited),
                           \<lambda>(out, visitor, stack, visited, cnt, s). length stack]")
     (use visit_smaller in \<open>fastforce simp: fresh_targets_def\<close>)+

declare dfs_loop.simps [simp del]

definition TraverseDepth :: "string \<Rightarrow> 's visitor \<Rightarrow> GraphCache \<Rightarrow> 's \<Rightarrow> int \<times> 's" where
  "TraverseDepth start visitor gc s = dfs_loop (gc_outgoingEdges gc) visitor [start] {} 0 s"

section \<open>The state invariant\<close>

text \<open>
  The list and the map of the LRU order agree and stay within the limit; exactly the listed entities
  have an entry in one of the adjacency maps; and every cached edge is filed under its own end.
\<close>

definition lru_ok :: "GraphCache \<Rightarrow> bool" where
  "lru_ok gc \<longleftrightarrow> distinct (gc_lruList gc) \<and> set (gc_lruList gc) = gc_lruMap gc \<and>
     gc_currentSize gc = int (length (gc_lruList gc)) \<and> gc_currentSize gc \<le> gc_maxSize gc \<and>
     1 \<le> gc_maxSize gc"

definition filed_by :: "(GraphEdge \<Rightarrow> string) \<Rightarrow> (string \<times> GraphEdge list) list \<Rightarrow> bool" where
  "filed_by f m \<longleftrightarrow> distinct (map fst m) \<and> (\<forall>k. \<forall>e\<in>set (edges_at m k). f e = k)"

definition cached :: "GraphCache \<Rightarrow> string set" where
  "cached gc = keys_of (gc_outgoingEdges gc) \<union> keys_of (gc_incomingEdges gc)"

definition cache_ok :: "GraphCache \<Rightarrow> bool" where
  "cache_ok gc \<longleftrightarrow> lru_ok gc \<and> cached gc = gc_lruMap gc \<and>
     filed_by FromEntity (gc_outgoingEdges gc) \<and> filed_by ToEntity (gc_incomingEdges gc)"

lemma edges_at_simps [simp]:
  "edges_at [] k = []"
  "edges_at (AList.update k' v m) k = (if k = k' then v else edges_at m k)"
  "edges_at (AList.delete k' m) k = (if k = k' then [] else edges_at m k)"
  by (simp_all add: edges_at_def)

lemma edges_at_missing: "k \<notin> keys_of m \<Longrightarrow> edges_at m k = []"
  by (simp add: edges_at_def map_of_keys(1) [THEN iffD2])

lemma filed_by_simps [simp, intro]:
  "filed_by f []"
  "filed_by f m \<Longrightarrow> filed_by f (AList.delete k m)"
  "filed_by f m \<Longrightarrow> \<forall>e\<in>set es. f e = k \<Longrightarrow> filed_by f (AList.update k es m)"
  by (auto simp: filed_by_def split: if_splits)

lemma lru_ok_evict:
  assumes "lru_ok gc" and "gc_lruList gc \<noteq> []"
  shows "lru_ok (evictLRU gc)"
proof -
  have "gc_lruList gc = butlast (gc_lruList gc) @ [last (gc_lruList gc)]" using assms(2) by simp
  moreover obtain ys y where "gc_lruList gc = ys @ [y]" using assms(2) by (metis rev_exhaust)
  ultimately show ?thesis using assms(1) by (auto simp: lru_ok_def evictLRU_def Let_def)
qed

lemma lru_ok_touch:
  assumes "lru_ok gc"
  shows "lru_ok (touchEntity x gc)"
proof -
  consider (hit) "x \<in> gc_lruMap gc" | (room) "x \<notin> gc_lruMap gc" "gc_currentSize gc < gc_maxSize gc"
    | (full) "\<not> (x \<in> gc_lruMap gc \<or> gc_currentSize gc < gc_maxSize gc)" by blast
  then show ?thesis
  proof cases
    case hit
    with assms have x: "x \<in> set (gc_lruList gc)" by (simp add: lru_ok_def)
    then have "Suc (length (remove1 x (gc_lruList gc))) = length (gc_lruList gc)"
      by (metis length_remove1 One_nat_def Suc_pred length_pos_if_in_set)
    moreover have "set (remove1 x (gc_lruList gc)) = set (gc_lruList gc) - {x}"
      using assms by (simp add: lru_ok_def set_remove1_eq)
    ultimately show ?thesis using assms hit by (auto simp: lru_ok_def touchEntity_def)
  next
    case room
    with assms show ?thesis by (simp add: lru_ok_def touchEntity_def)
  next
    case full
    with assms have ne: "gc_lruList gc \<noteq> []" and sz: "gc_currentSize gc = gc_maxSize gc" by (auto simp: lru_ok_def)
    have "lru_ok (evictLRU gc)" using assms ne by (rule lru_ok_evict)
    moreover have "gc_currentSize (evictLRU gc) < gc_maxSize (evictLRU gc)" "x \<notin> gc_lruMap (evictLRU gc)"
      using full ne sz by (simp_all add: evictLRU_def Let_def)
    ultimately show ?thesis using full by (auto simp: touchEntity_def lru_ok_def Let_def)
  qed
qed

text \<open>What a touch does to the entries: nothing, or one other entity goes.\<close>

lemma touch_entries:
  obtains (kept) "gc_outgoingEdges (touchEntity x gc) = gc_outgoingEdges gc"
      "gc_incomingEdges (touchEntity x gc) = gc_incomingEdges gc"
      "gc_lruMap (touchEntity x gc) = insert x (gc_lruMap gc)"
      "x \<in> gc_lruMap gc \<or> gc_currentSize gc < gc_maxSize gc \<or> gc_lruList gc = []"
  | (evicted) y where "gc_lruList gc \<noteq> []" "y = last (gc_lruList gc)" "x \<notin> gc_lruMap gc"
      "gc_maxSize gc \<le> gc_currentSize gc"
      "gc_outgoingEdges (touchEntity x gc) = AList.delete y (gc_outgoingEdges gc)"
      "gc_incomingEdges (touchEntity x gc) = AList.delete y (gc_incomingEdges gc)"
      "gc_lruMap (touchEntity x gc) = insert x (gc_lruMap gc - {y})"
proof (cases "x \<in> gc_lruMap gc \<or> gc_currentSize gc < gc_maxSize gc \<or> gc_lruList gc = []")
  case True
  then show ?thesis by (intro kept) (auto simp: touchEntity_def evictLRU_def Let_def)
next
  case False
  then show ?thesis by (intro evicted) (auto simp: touchEntity_def evictLRU_def Let_def)
qed

lemma cache_ok_touch:
  assumes "lru_ok gc" and "cached gc = insert x (gc_lruMap gc)"
    and "filed_by FromEntity (gc_outgoingEdges gc)" and "filed_by ToEntity (gc_incomingEdges gc)"
  shows "cache_ok (touchEntity x gc)"
proof (cases x gc rule: touch_entries)
  case kept
  then show ?thesis using assms lru_ok_touch [of gc x] by (auto simp: cache_ok_def cached_def)
next
  case (evicted y)
  then have "y \<noteq> x" using assms(1) by (auto simp: lru_ok_def)
  with evicted show ?thesis using assms lru_ok_touch [of gc x] by (auto simp: cache_ok_def cached_def)
qed

lemma cache_ok_touch_cached: "cache_ok gc \<Longrightarrow> x \<in> cached gc \<Longrightarrow> cache_ok (touchEntity x gc)"
  by (rule cache_ok_touch) (auto simp: cache_ok_def)

lemma touch_max [simp]: "gc_maxSize (touchEntity x gc) = gc_maxSize gc"
  by (simp add: touchEntity_def evictLRU_def Let_def)

lemma touch_in [simp]: "x \<in> gc_lruMap (touchEntity x gc)"
  by (simp add: touchEntity_def Let_def)

lemma filed_by_at: "filed_by f m \<Longrightarrow> e \<in> set (edges_at m k) \<Longrightarrow> f e = k"
  by (simp add: filed_by_def)

lemma cached_none: "map_of m k \<noteq> None \<Longrightarrow> k \<in> keys_of m"
  using map_of_keys(1) [THEN iffD2, of k m] by metis

lemma cache_ok_add_outgoing:
  assumes "cache_ok gc"
  shows "cache_ok (add_outgoing e gc)"
proof -
  let ?x = "FromEntity e"
  have filed: "cache_ok (gc'\<lparr>gc_outgoingEdges := AList.update ?x (edges_at (gc_outgoingEdges gc') ?x @ [e])
      (gc_outgoingEdges gc')\<rparr>)" if "cache_ok gc'" "?x \<in> gc_lruMap gc'" for gc'
    using that by (auto simp: cache_ok_def cached_def lru_ok_def filed_by_at)
  show ?thesis
  proof (cases "map_of (gc_outgoingEdges gc) ?x = None")
    case True
    have "cache_ok (touchEntity ?x (gc\<lparr>gc_outgoingEdges := AList.update ?x [] (gc_outgoingEdges gc)\<rparr>))"
      using assms by (intro cache_ok_touch) (auto simp: cache_ok_def cached_def lru_ok_def)
    then show ?thesis using filed True by (simp add: add_outgoing_def Let_def)
  next
    case False
    then have "?x \<in> gc_lruMap gc" using assms cached_none [OF False] by (auto simp: cache_ok_def cached_def)
    then show ?thesis using filed [OF assms] False by (auto simp: add_outgoing_def Let_def)
  qed
qed

lemma cache_ok_add_incoming:
  assumes "cache_ok gc"
  shows "cache_ok (add_incoming e gc)"
proof -
  let ?x = "ToEntity e"
  have filed: "cache_ok (gc'\<lparr>gc_incomingEdges := AList.update ?x (edges_at (gc_incomingEdges gc') ?x @ [e])
      (gc_incomingEdges gc')\<rparr>)" if "cache_ok gc'" "?x \<in> gc_lruMap gc'" for gc'
    using that by (auto simp: cache_ok_def cached_def lru_ok_def filed_by_at)
  show ?thesis
  proof (cases "map_of (gc_incomingEdges gc) ?x = None")
    case True
    have "cache_ok (touchEntity ?x (gc\<lparr>gc_incomingEdges := AList.update ?x [] (gc_incomingEdges gc)\<rparr>))"
      using assms by (intro cache_ok_touch) (auto simp: cache_ok_def cached_def lru_ok_def)
    then show ?thesis using filed True by (simp add: add_incoming_def Let_def)
  next
    case False
    then have "?x \<in> gc_lruMap gc" using assms cached_none [OF False] by (auto simp: cache_ok_def cached_def)
    then show ?thesis using filed [OF assms] False by (auto simp: add_incoming_def Let_def)
  qed
qed

lemma cache_ok_Add: "cache_ok gc \<Longrightarrow> cache_ok (AddEdge e gc)"
  by (simp add: AddEdge_def cache_ok_add_outgoing cache_ok_add_incoming)

text \<open>The reads only touch.\<close>

lemma cache_ok_reads:
  assumes "cache_ok gc"
  shows "cache_ok (fst (gc_GetOutgoingEdges k gc))" and "cache_ok (fst (gc_GetIncomingEdges k gc))"
    and "cache_ok (fst (gc_GetNeighbors rng k gc))"
  using assms cache_ok_touch_cached [OF assms, of k] cached_none [of "gc_outgoingEdges gc" k]
    cached_none [of "gc_incomingEdges gc" k]
  by (auto simp: gc_GetOutgoingEdges_def gc_GetIncomingEdges_def gc_GetNeighbors_def cached_def Let_def)

text \<open>Removal without the two case distinctions: a missing list is an empty one.\<close>

lemma RemoveEntity_eq:
  "RemoveEntity x gc =
     (let gc = fold (drop_incoming x) (edges_at (gc_outgoingEdges gc) x) gc;
          gc = gc\<lparr>gc_outgoingEdges := AList.delete x (gc_outgoingEdges gc)\<rparr>;
          gc = fold (drop_outgoing x) (edges_at (gc_incomingEdges gc) x) gc;
          gc = gc\<lparr>gc_incomingEdges := AList.delete x (gc_incomingEdges gc)\<rparr>
      in if x \<in> gc_lruMap gc
         then gc\<lparr>gc_lruList := remove1 x (gc_lruList gc), gc_lruMap := gc_lruMap gc - {x},
                 gc_currentSize := gc_currentSize gc - 1\<rparr>
         else gc)"
proof -
  have idem: "AList.delete x m = m" if "map_of m x = None" for m :: "(string \<times> GraphEdge list) list"
    using that by (simp add: delete_idem map_of_eq_None_iff)
  show ?thesis
    by (auto simp: RemoveEntity_def Let_def edges_at_def idem split: option.splits)
qed

lemma drop_incoming_fields:
  "gc_outgoingEdges (fold (drop_incoming x) es gc) = gc_outgoingEdges gc"
  "keys_of (gc_incomingEdges (fold (drop_incoming x) es gc)) = keys_of (gc_incomingEdges gc)"
  "gc_lruList (fold (drop_incoming x) es gc) = gc_lruList gc"
  "gc_lruMap (fold (drop_incoming x) es gc) = gc_lruMap gc"
  "gc_currentSize (fold (drop_incoming x) es gc) = gc_currentSize gc"
  "gc_maxSize (fold (drop_incoming x) es gc) = gc_maxSize gc"
  "edges_at (gc_incomingEdges (fold (drop_incoming x) es gc)) k =
     (if k \<in> ToEntity ` set es then filter (\<lambda>e. FromEntity e \<noteq> x) (edges_at (gc_incomingEdges gc) k)
      else edges_at (gc_incomingEdges gc) k)"
  by (induction es arbitrary: gc)
     (auto simp: drop_incoming_def edges_at_def map_of_keys(2) insert_absorb split: option.splits)

lemma drop_outgoing_fields:
  "gc_incomingEdges (fold (drop_outgoing x) es gc) = gc_incomingEdges gc"
  "keys_of (gc_outgoingEdges (fold (drop_outgoing x) es gc)) = keys_of (gc_outgoingEdges gc)"
  "gc_lruList (fold (drop_outgoing x) es gc) = gc_lruList gc"
  "gc_lruMap (fold (drop_outgoing x) es gc) = gc_lruMap gc"
  "gc_currentSize (fold (drop_outgoing x) es gc) = gc_currentSize gc"
  "gc_maxSize (fold (drop_outgoing x) es gc) = gc_maxSize gc"
  "edges_at (gc_outgoingEdges (fold (drop_outgoing x) es gc)) k =
     (if k \<in> FromEntity ` set es then filter (\<lambda>e. ToEntity e \<noteq> x) (edges_at (gc_outgoingEdges gc) k)
      else edges_at (gc_outgoingEdges gc) k)"
  by (induction es arbitrary: gc)
     (auto simp: drop_outgoing_def edges_at_def map_of_keys(2) insert_absorb split: option.splits)

lemma drop_distinct:
  "distinct (map fst (gc_incomingEdges gc)) \<Longrightarrow>
     distinct (map fst (gc_incomingEdges (fold (drop_incoming x) es gc)))"
  "distinct (map fst (gc_outgoingEdges gc)) \<Longrightarrow>
     distinct (map fst (gc_outgoingEdges (fold (drop_outgoing x) es gc)))"
  by (induction es arbitrary: gc)
     (auto simp: drop_incoming_def drop_outgoing_def split: option.splits)

lemma lru_ok_forget:
  assumes "lru_ok gc" and "x \<in> gc_lruMap gc"
  shows "lru_ok (gc\<lparr>gc_lruList := remove1 x (gc_lruList gc), gc_lruMap := gc_lruMap gc - {x},
    gc_currentSize := gc_currentSize gc - 1\<rparr>)"
proof -
  have x: "x \<in> set (gc_lruList gc)" using assms by (simp add: lru_ok_def)
  then have "Suc (length (remove1 x (gc_lruList gc))) = length (gc_lruList gc)"
    by (metis length_remove1 One_nat_def Suc_pred length_pos_if_in_set)
  moreover have "set (remove1 x (gc_lruList gc)) = set (gc_lruList gc) - {x}"
    using assms by (simp add: lru_ok_def set_remove1_eq)
  ultimately show ?thesis using assms by (auto simp: lru_ok_def)
qed

lemma cache_ok_Remove:
  assumes "cache_ok gc"
  shows "cache_ok (RemoveEntity x gc)"
proof -
  let ?gc1 = "fold (drop_incoming x) (edges_at (gc_outgoingEdges gc) x) gc"
  let ?gc2 = "?gc1\<lparr>gc_outgoingEdges := AList.delete x (gc_outgoingEdges ?gc1)\<rparr>"
  let ?gc3 = "fold (drop_outgoing x) (edges_at (gc_incomingEdges ?gc2) x) ?gc2"
  let ?gc4 = "?gc3\<lparr>gc_incomingEdges := AList.delete x (gc_incomingEdges ?gc3)\<rparr>"
  have lru: "lru_ok ?gc4" using assms by (simp add: cache_ok_def lru_ok_def drop_incoming_fields drop_outgoing_fields)
  have keys: "cached ?gc4 = gc_lruMap gc - {x}" "gc_lruMap ?gc4 = gc_lruMap gc"
    using assms by (auto simp: cache_ok_def cached_def drop_incoming_fields drop_outgoing_fields)
  have filed1: "filed_by ToEntity (gc_incomingEdges ?gc1)"
    using assms by (auto simp: cache_ok_def filed_by_def drop_distinct drop_incoming_fields split: if_splits)
  have "filed_by FromEntity (gc_outgoingEdges ?gc2)" using assms by (simp add: cache_ok_def drop_incoming_fields)
  then have filed2: "filed_by FromEntity (gc_outgoingEdges ?gc3)"
    by (auto simp: filed_by_def drop_distinct drop_outgoing_fields split: if_splits)
  show ?thesis
  proof (cases "x \<in> gc_lruMap gc")
    case True
    then show ?thesis
      using lru_ok_forget [OF lru, of x] keys filed1 filed2
      by (simp add: RemoveEntity_eq Let_def cache_ok_def cached_def drop_outgoing_fields(1))
  next
    case False
    then show ?thesis using lru keys filed1 filed2
      by (simp add: RemoveEntity_eq Let_def cache_ok_def cached_def drop_outgoing_fields(1))
  qed
qed

text \<open>Histories of calls, and what remains of the edges that were added.\<close>

datatype cache_op = OpAdd GraphEdge | OpOutgoing string | OpIncoming string | OpNeighbors string
  | OpRemove string | OpClear

fun exec_cache :: "(string list \<Rightarrow> string list) \<Rightarrow> cache_op \<Rightarrow> GraphCache \<Rightarrow> GraphCache" where
  "exec_cache rng (OpAdd e) gc = AddEdge e gc"
| "exec_cache rng (OpOutgoing k) gc = fst (gc_GetOutgoingEdges k gc)"
| "exec_cache rng (OpIncoming k) gc = fst (gc_GetIncomingEdges k gc)"
| "exec_cache rng (OpNeighbors k) gc = fst (gc_GetNeighbors rng k gc)"
| "exec_cache rng (OpRemove k) gc = RemoveEntity k gc"
| "exec_cache rng OpClear gc = gc_Clear gc"

fun remaining :: "cache_op \<Rightarrow> GraphEdge list \<Rightarrow> GraphEdge list" where
  "remaining (OpAdd e) log = log @ [e]"
| "remaining (OpRemove k) log = filter (\<lambda>e. FromEntity e \<noteq> k \<and> ToEntity e \<noteq> k) log"
| "remaining OpClear log = []"
| "remaining _ log = log"

fun endpoints :: "cache_op \<Rightarrow> string set" where
  "endpoints (OpAdd e) = {FromEntity e, ToEntity e}"
| "endpoints _ = {}"

lemma cache_ok_New: "cache_ok (NewGraphCache m)"
  by (simp add: NewGraphCache_def cache_ok_def lru_ok_def cached_def)

lemma cache_ok_exec: "cache_ok gc \<Longrightarrow> cache_ok (exec_cache rng op gc)"
proof (cases op)
  case OpClear
  assume "cache_ok gc"
  with OpClear show ?thesis by (simp add: gc_Clear_def cache_ok_def lru_ok_def cached_def)
qed (simp_all add: cache_ok_Add cache_ok_Remove cache_ok_reads)

lemma cache_ok_run: "cache_ok gc \<Longrightarrow> cache_ok (fold (exec_cache rng) ops gc)"
  by (induction ops arbitrary: gc) (simp_all add: cache_ok_exec)

section \<open>A cache that is large enough\<close>

definition holds_edges :: "GraphEdge list \<Rightarrow> GraphCache \<Rightarrow> bool" where
  "holds_edges log gc \<longleftrightarrow>
     (\<forall>k. edges_at (gc_outgoingEdges gc) k = filter (\<lambda>e. FromEntity e = k) log \<and>
          edges_at (gc_incomingEdges gc) k = filter (\<lambda>e. ToEntity e = k) log)"

definition within :: "string set \<Rightarrow> GraphCache \<Rightarrow> bool" where
  "within E gc \<longleftrightarrow> gc_lruMap gc \<subseteq> E \<and> finite E \<and> int (card E) \<le> gc_maxSize gc"

lemma touch_room:
  assumes "lru_ok gc" and "within E gc" and "x \<in> E"
  shows "gc_outgoingEdges (touchEntity x gc) = gc_outgoingEdges gc"
    and "gc_incomingEdges (touchEntity x gc) = gc_incomingEdges gc"
    and "within E (touchEntity x gc)"
proof -
  have room: "gc_currentSize gc < gc_maxSize gc" if "x \<notin> gc_lruMap gc"
  proof -
    have "gc_lruMap gc \<subset> E" using assms(2,3) that by (auto simp: within_def)
    then have "card (gc_lruMap gc) < card E" using assms(2) by (simp add: psubset_card_mono within_def)
    moreover have "card (gc_lruMap gc) = length (gc_lruList gc)"
      using assms(1) by (metis lru_ok_def distinct_card)
    ultimately show ?thesis using assms(1,2) by (simp add: lru_ok_def within_def)
  qed
  then show "gc_outgoingEdges (touchEntity x gc) = gc_outgoingEdges gc"
    and "gc_incomingEdges (touchEntity x gc) = gc_incomingEdges gc"
    and "within E (touchEntity x gc)"
    using assms(2,3) by (auto simp: touchEntity_def within_def)
qed

lemma exact_touch:
  assumes "cache_ok gc" and "holds_edges log gc" and "within E gc" and "k \<in> gc_lruMap gc"
  shows "holds_edges log (touchEntity k gc)" and "within E (touchEntity k gc)"
  using assms touch_room [of gc E k] by (auto simp: holds_edges_def cache_ok_def within_def)

lemma add_outgoing_room:
  assumes "lru_ok gc" and "within E gc" and "FromEntity e \<in> E"
  shows "edges_at (gc_outgoingEdges (add_outgoing e gc)) k =
      edges_at (gc_outgoingEdges gc) k @ (if k = FromEntity e then [e] else [])"
    and "gc_incomingEdges (add_outgoing e gc) = gc_incomingEdges gc"
    and "within E (add_outgoing e gc)"
proof -
  have "lru_ok (gc\<lparr>gc_outgoingEdges := m\<rparr>)" "within E (gc\<lparr>gc_outgoingEdges := m\<rparr>)" for m
    using assms(1,2) by (simp_all add: lru_ok_def within_def)
  note room = touch_room [OF this assms(3)]
  show "edges_at (gc_outgoingEdges (add_outgoing e gc)) k =
      edges_at (gc_outgoingEdges gc) k @ (if k = FromEntity e then [e] else [])"
    by (auto simp: add_outgoing_def Let_def room edges_at_missing map_of_keys(1))
  show "gc_incomingEdges (add_outgoing e gc) = gc_incomingEdges gc"
    by (simp add: add_outgoing_def Let_def room)
  show "within E (add_outgoing e gc)"
    using assms(2) room(3) by (simp add: add_outgoing_def Let_def within_def)
qed

lemma add_incoming_room:
  assumes "lru_ok gc" and "within E gc" and "ToEntity e \<in> E"
  shows "edges_at (gc_incomingEdges (add_incoming e gc)) k =
      edges_at (gc_incomingEdges gc) k @ (if k = ToEntity e then [e] else [])"
    and "gc_outgoingEdges (add_incoming e gc) = gc_outgoingEdges gc"
    and "within E (add_incoming e gc)"
proof -
  have "lru_ok (gc\<lparr>gc_incomingEdges := m\<rparr>)" "within E (gc\<lparr>gc_incomingEdges := m\<rparr>)" for m
    using assms(1,2) by (simp_all add: lru_ok_def within_def)
  note room = touch_room [OF this assms(3)]
  show "edges_at (gc_incomingEdges (add_incoming e gc)) k =
      edges_at (gc_incomingEdges gc) k @ (if k = ToEntity e then [e] else [])"
    by (auto simp: add_incoming_def Let_def room edges_at_missing map_of_keys(1))
  show "gc_outgoingEdges (add_incoming e gc) = gc_outgoingEdges gc"
    by (simp add: add_incoming_def Let_def room)
  show "within E (add_incoming e gc)"
    using assms(2) room(3) by (simp add: add_incoming_def Let_def within_def)
qed

lemma exact_Add:
  assumes "cache_ok gc" and "holds_edges log gc" and "within E gc" and "FromEntity e \<in> E" "ToEntity e \<in> E"
  shows "holds_edges (log @ [e]) (AddEdge e gc)" and "within E (AddEdge e gc)"
proof -
  have l1: "lru_ok gc" and l2: "lru_ok (add_outgoing e gc)"
    using assms(1) cache_ok_add_outgoing [OF assms(1), of e] by (simp_all add: cache_ok_def)
  note first = add_outgoing_room [OF l1 assms(3,4)]
  note second = add_incoming_room [OF l2 first(3) assms(5)]
  show "within E (AddEdge e gc)" by (simp add: AddEdge_def second(3))
  show "holds_edges (log @ [e]) (AddEdge e gc)"
    using assms(2) by (auto simp: holds_edges_def AddEdge_def first(1,2) second(1,2))
qed

lemma exact_Remove:
  assumes "holds_edges log gc" and "within E gc"
  shows "holds_edges (filter (\<lambda>e. FromEntity e \<noteq> x \<and> ToEntity e \<noteq> x) log) (RemoveEntity x gc)"
    and "within E (RemoveEntity x gc)"
proof -
  let ?gc1 = "fold (drop_incoming x) (edges_at (gc_outgoingEdges gc) x) gc"
  let ?gc2 = "?gc1\<lparr>gc_outgoingEdges := AList.delete x (gc_outgoingEdges ?gc1)\<rparr>"
  have inc: "edges_at (gc_incomingEdges ?gc1) k = filter (\<lambda>e. ToEntity e = k \<and> FromEntity e \<noteq> x) log" for k
    using assms(1) by (auto simp: drop_incoming_fields holds_edges_def conj_commute intro!: filter_cong)
  have out: "edges_at (gc_outgoingEdges (fold (drop_outgoing x) (edges_at (gc_incomingEdges ?gc1) x) ?gc2)) k =
      (if k = x then [] else filter (\<lambda>e. FromEntity e = k \<and> ToEntity e \<noteq> x) log)" for k
    unfolding drop_outgoing_fields(7) inc using assms(1)
    by (auto simp: drop_incoming_fields(1) holds_edges_def conj_commute intro!: filter_cong)
  have o: "gc_outgoingEdges (RemoveEntity x gc) =
      gc_outgoingEdges (fold (drop_outgoing x) (edges_at (gc_incomingEdges ?gc1) x) ?gc2)"
    by (simp add: RemoveEntity_eq Let_def)
  have i: "gc_incomingEdges (RemoveEntity x gc) = AList.delete x (gc_incomingEdges ?gc1)"
    by (simp add: RemoveEntity_eq Let_def drop_outgoing_fields(1))
  show "holds_edges (filter (\<lambda>e. FromEntity e \<noteq> x \<and> ToEntity e \<noteq> x) log) (RemoveEntity x gc)"
    unfolding holds_edges_def o i out unfolding edges_at_simps inc
    by (auto simp: empty_filter_conv intro!: filter_cong)
  show "within E (RemoveEntity x gc)"
    using assms(2) by (auto simp: RemoveEntity_eq Let_def within_def drop_outgoing_fields drop_incoming_fields)
qed

lemma exact_reads:
  assumes "cache_ok gc" and "holds_edges log gc" and "within E gc"
  shows "holds_edges log (fst (gc_GetOutgoingEdges k gc)) \<and> within E (fst (gc_GetOutgoingEdges k gc))"
    and "holds_edges log (fst (gc_GetIncomingEdges k gc)) \<and> within E (fst (gc_GetIncomingEdges k gc))"
    and "holds_edges log (fst (gc_GetNeighbors rng k gc)) \<and> within E (fst (gc_GetNeighbors rng k gc))"
  using assms exact_touch [OF assms, of k] cached_none [of "gc_outgoingEdges gc" k]
    cached_none [of "gc_incomingEdges gc" k]
  by (auto simp: gc_GetOutgoingEdges_def gc_GetIncomingEdges_def gc_GetNeighbors_def cache_ok_def cached_def Let_def)

lemma exact_exec:
  assumes "cache_ok gc" and "holds_edges log gc" and "within E gc" and "endpoints op \<subseteq> E"
  shows "holds_edges (remaining op log) (exec_cache rng op gc) \<and> within E (exec_cache rng op gc)"
proof (cases op)
  case OpClear
  with assms show ?thesis by (simp add: gc_Clear_def holds_edges_def within_def)
qed (use assms exact_Add [OF assms(1-3)] exact_Remove [OF assms(2,3)] exact_reads [OF assms(1-3)] in auto)

lemma exact_run:
  "cache_ok gc \<Longrightarrow> holds_edges log gc \<Longrightarrow> within E gc \<Longrightarrow> (\<Union>op\<in>set ops. endpoints op) \<subseteq> E \<Longrightarrow>
    holds_edges (fold remaining ops log) (fold (exec_cache rng) ops gc)"
proof (induction ops arbitrary: gc log)
  case (Cons op ops)
  then show ?case
    using exact_exec [OF Cons.prems(1-3), of op rng] cache_ok_exec [OF Cons.prems(1), of rng op] by simp
qed simp

lemma edge_count:
  assumes "holds_edges log gc" and "cache_ok gc"
  shows "GetEdgeCount gc = length log"
proof -
  let ?out = "gc_outgoingEdges gc"
  have dist: "distinct (map fst ?out)" using assms(2) by (simp add: cache_ok_def filed_by_def)
  have lists: "snd kv = rows_of FromEntity (fst kv) log" if "kv \<in> set ?out" for kv
  proof -
    have "map_of ?out (fst kv) = Some (snd kv)" using dist that by (simp add: map_of_eq_Some_iff)
    moreover have "edges_at ?out (fst kv) = rows_of FromEntity (fst kv) log"
      using assms(1) by (simp add: holds_edges_def rows_of_def)
    ultimately show ?thesis by (simp add: edges_at_def)
  qed
  have "FromEntity e \<in> keys_of ?out" if "e \<in> set log" for e
  proof (rule ccontr)
    assume "FromEntity e \<notin> keys_of ?out"
    then have "filter (\<lambda>e'. FromEntity e' = FromEntity e) log = []"
      using assms(1) edges_at_missing [of "FromEntity e" ?out] by (simp add: holds_edges_def)
    with that show False by (auto simp: filter_empty_conv)
  qed
  then have keys: "FromEntity ` set log \<subseteq> set (map fst ?out)" by (auto simp: keys_of_def)
  have "fold (\<lambda>(k, edges) cnt. cnt + length edges) xs n = n + sum_list (map (length \<circ> snd) xs)"
    for xs :: "(string \<times> GraphEdge list) list" and n
    by (induction xs arbitrary: n) auto
  then have "GetEdgeCount gc = sum_list (map (length \<circ> snd) ?out)" by (simp add: GetEdgeCount_def)
  also have "map (length \<circ> snd) ?out = map (\<lambda>k. length (rows_of FromEntity k log)) (map fst ?out)"
    using lists by simp
  also have "sum_list \<dots> = length log" by (rule sum_rows_of [OF dist keys])
  finally show ?thesis .
qed

section \<open>A cache that is too small\<close>

text \<open>What is cached is always part of what was added, in the order in which it was added.\<close>

fun added :: "cache_op list \<Rightarrow> GraphEdge list" where
  "added [] = []"
| "added (OpAdd e # ops) = e # added ops"
| "added (_ # ops) = added ops"

definition part_of :: "GraphEdge list \<Rightarrow> GraphCache \<Rightarrow> bool" where
  "part_of log gc \<longleftrightarrow>
     (\<forall>k. subseq (edges_at (gc_outgoingEdges gc) k) (filter (\<lambda>e. FromEntity e = k) log) \<and>
          subseq (edges_at (gc_incomingEdges gc) k) (filter (\<lambda>e. ToEntity e = k) log))"

lemma part_touch: "part_of log gc \<Longrightarrow> part_of log (touchEntity x gc)"
  by (cases x gc rule: touch_entries) (auto simp: part_of_def)

lemma part_Add:
  assumes "part_of log gc"
  shows "part_of (log @ [e]) (AddEdge e gc)"
proof -
  have new: "part_of log (gc'\<lparr>gc_outgoingEdges := AList.update x [] (gc_outgoingEdges gc')\<rparr>)"
    "part_of log (gc'\<lparr>gc_incomingEdges := AList.update x [] (gc_incomingEdges gc')\<rparr>)"
    if "part_of log gc'" for gc' x using that by (auto simp: part_of_def)
  define gc1 where "gc1 = (if map_of (gc_outgoingEdges gc) (FromEntity e) = None
    then touchEntity (FromEntity e) (gc\<lparr>gc_outgoingEdges := AList.update (FromEntity e) [] (gc_outgoingEdges gc)\<rparr>)
    else gc)"
  have 1: "part_of log gc1" using part_touch [OF new(1) [OF assms]] assms by (simp add: gc1_def)
  have gc1: "add_outgoing e gc = gc1\<lparr>gc_outgoingEdges := AList.update (FromEntity e)
         (edges_at (gc_outgoingEdges gc1) (FromEntity e) @ [e]) (gc_outgoingEdges gc1)\<rparr>"
    unfolding add_outgoing_def gc1_def Let_def ..
  let ?h = "\<lambda>gc'. (\<forall>k. subseq (edges_at (gc_outgoingEdges gc') k) (filter (\<lambda>e. FromEntity e = k) (log @ [e])) \<and>
      subseq (edges_at (gc_incomingEdges gc') k) (filter (\<lambda>e. ToEntity e = k) log))"
  have h: "?h (add_outgoing e gc)"
    using 1 by (auto simp: gc1 part_of_def intro: list_emb_append2)
  have touched: "?h (touchEntity x gc')" if "?h gc'" for gc' x using that by (cases x gc' rule: touch_entries) auto
  have opened: "?h (gc'\<lparr>gc_incomingEdges := AList.update x [] (gc_incomingEdges gc')\<rparr>)" if "?h gc'" for gc' x
    using that by auto
  define gc2 where "gc2 = (let gc' = add_outgoing e gc in if map_of (gc_incomingEdges gc') (ToEntity e) = None
    then touchEntity (ToEntity e) (gc'\<lparr>gc_incomingEdges := AList.update (ToEntity e) [] (gc_incomingEdges gc')\<rparr>)
    else gc')"
  have 2: "?h gc2" using touched [OF opened [OF h]] h by (simp add: gc2_def Let_def)
  have gc2: "AddEdge e gc = gc2\<lparr>gc_incomingEdges := AList.update (ToEntity e)
         (edges_at (gc_incomingEdges gc2) (ToEntity e) @ [e]) (gc_incomingEdges gc2)\<rparr>"
    unfolding AddEdge_def add_incoming_def gc2_def Let_def ..
  show ?thesis using 2 by (auto simp: gc2 part_of_def)
qed

lemma part_Remove:
  assumes "part_of log gc"
  shows "part_of log (RemoveEntity x gc)"
proof -
  have drop: "subseq (filter P xs) ys" if "subseq xs ys" for P and xs ys :: "GraphEdge list"
    using that subseq_order.trans subseq_filter_left by blast
  let ?gc1 = "fold (drop_incoming x) (edges_at (gc_outgoingEdges gc) x) gc"
  let ?gc2 = "?gc1\<lparr>gc_outgoingEdges := AList.delete x (gc_outgoingEdges ?gc1)\<rparr>"
  have o: "gc_outgoingEdges (RemoveEntity x gc) =
      gc_outgoingEdges (fold (drop_outgoing x) (edges_at (gc_incomingEdges ?gc1) x) ?gc2)"
    by (simp add: RemoveEntity_eq Let_def)
  have i: "gc_incomingEdges (RemoveEntity x gc) = AList.delete x (gc_incomingEdges ?gc1)"
    by (simp add: RemoveEntity_eq Let_def drop_outgoing_fields(1))
  show ?thesis
    using assms unfolding part_of_def o i
    by (simp add: drop_outgoing_fields drop_incoming_fields drop)
qed

lemma part_exec: "part_of log gc \<Longrightarrow> part_of (log @ added [op]) (exec_cache rng op gc)"
proof (cases op)
  case OpClear
  assume "part_of log gc"
  with OpClear show ?thesis by (simp add: gc_Clear_def part_of_def)
qed (auto simp: part_Add part_Remove part_touch gc_GetOutgoingEdges_def gc_GetIncomingEdges_def
    gc_GetNeighbors_def Let_def)

lemma added_Cons: "added (op # ops) = added [op] @ added ops"
  by (cases op) auto

lemma part_run: "part_of log gc \<Longrightarrow> part_of (log @ added ops) (fold (exec_cache rng) ops gc)"
proof (induction ops arbitrary: gc log)
  case (Cons op ops)
  from Cons.IH [OF part_exec [OF Cons.prems, of op rng]] show ?case by (simp add: added_Cons [of op ops])
qed simp

section \<open>What the traversals visit\<close>

text \<open>The calls of the visitor until it asks to stop, and the number of those that did not.\<close>

fun visit_all :: "'s visitor \<Rightarrow> (string \<times> GraphEdge list) list \<Rightarrow> int \<Rightarrow> 's \<Rightarrow> int \<times> 's" where
  "visit_all visitor [] cnt s = (cnt, s)"
| "visit_all visitor ((x, es) # xs) cnt s =
     (case visitor x es s of (ok, s) \<Rightarrow> if \<not> ok then (cnt, s) else visit_all visitor xs (cnt + 1) s)"

function bfs_order :: "(string \<times> GraphEdge list) list \<Rightarrow> string list \<Rightarrow> string set \<Rightarrow> (string \<times> GraphEdge list) list"
where
  "bfs_order out [] visited = []"
| "bfs_order out (x # queue) visited =
     (if x \<in> visited then bfs_order out queue visited
      else (x, edges_at out x) #
        bfs_order out (queue @ fresh_targets (edges_at out x) (insert x visited)) (insert x visited))"
  by pat_completeness auto
termination
  by (relation "measures [\<lambda>(out, queue, visited). card (keys_of out - visited), \<lambda>(out, queue, visited). length queue]")
     (use visit_smaller in \<open>fastforce simp: fresh_targets_def\<close>)+

function dfs_order :: "(string \<times> GraphEdge list) list \<Rightarrow> string list \<Rightarrow> string set \<Rightarrow> (string \<times> GraphEdge list) list"
where
  "dfs_order out stack visited =
     (if stack = [] then []
      else if last stack \<in> visited then dfs_order out (butlast stack) visited
      else (last stack, edges_at out (last stack)) #
        dfs_order out (butlast stack @ fresh_targets (rev (edges_at out (last stack))) (insert (last stack) visited))
          (insert (last stack) visited))"
  by pat_completeness auto
termination
  by (relation "measures [\<lambda>(out, stack, visited). card (keys_of out - visited), \<lambda>(out, stack, visited). length stack]")
     (use visit_smaller in \<open>fastforce simp: fresh_targets_def\<close>)+

declare dfs_order.simps [simp del]

lemma dfs_order_nil: "dfs_order out [] V = []"
  by (subst dfs_order.simps) simp

lemma bfs_loop_visits: "bfs_loop out visitor queue visited cnt s = visit_all visitor (bfs_order out queue visited) cnt s"
  by (induction out visitor queue visited cnt s rule: bfs_loop.induct) (auto simp: Let_def split: prod.split)

lemma dfs_loop_visits: "dfs_loop out visitor stack visited cnt s = visit_all visitor (dfs_order out stack visited) cnt s"
proof (induction out visitor stack visited cnt s rule: dfs_loop.induct)
  case (1 out visitor stack visited cnt s)
  then show ?case
    by (subst dfs_loop.simps, subst dfs_order.simps) (auto simp: Let_def split: prod.split)
qed

definition links :: "(string \<times> GraphEdge list) list \<Rightarrow> string rel" where
  "links out = {(x, y). \<exists>e\<in>set (edges_at out x). y = ToEntity e}"

text \<open>
  What the two loops share: a work list from which one entry is taken and to which the targets not
  yet visited are added, in whatever order.
\<close>

locale work_list =
  fixes out :: "(string \<times> GraphEdge list) list"
    and take_one :: "string list \<Rightarrow> string \<times> string list"
    and put_all :: "string list \<Rightarrow> string set \<Rightarrow> GraphEdge list \<Rightarrow> string list"
    and explore :: "string list \<Rightarrow> string set \<Rightarrow> (string \<times> GraphEdge list) list"
  assumes take_one_set: "w \<noteq> [] \<Longrightarrow> set w = insert (fst (take_one w)) (set (snd (take_one w)))"
    and take_one_length: "w \<noteq> [] \<Longrightarrow> length (snd (take_one w)) < length w"
    and put_all_set: "set (put_all w V es) = set w \<union> set (fresh_targets es V)"
    and put_all_nil: "put_all w V [] = w"
    and explore_nil: "explore [] V = []"
    and explore_seen: "w \<noteq> [] \<Longrightarrow> fst (take_one w) \<in> V \<Longrightarrow> explore w V = explore (snd (take_one w)) V"
    and explore_new: "w \<noteq> [] \<Longrightarrow> take_one w = (x, w') \<Longrightarrow> x \<notin> V \<Longrightarrow>
      explore w V = (x, edges_at out x) # explore (put_all w' (insert x V) (edges_at out x)) (insert x V)"
begin

lemma explore_induct [case_names Nil Seen New]:
  assumes "\<And>V. P [] V"
    and "\<And>w x w' V. w \<noteq> [] \<Longrightarrow> take_one w = (x, w') \<Longrightarrow> x \<in> V \<Longrightarrow> P w' V \<Longrightarrow> P w V"
    and "\<And>w x w' V. w \<noteq> [] \<Longrightarrow> take_one w = (x, w') \<Longrightarrow> x \<notin> V \<Longrightarrow>
      P (put_all w' (insert x V) (edges_at out x)) (insert x V) \<Longrightarrow> P w V"
  shows "P w V"
proof (induction "(w, V)" arbitrary: w V rule: wf_induct_rule
    [OF wf_measures [of "[\<lambda>(w, V). card (keys_of out - V), \<lambda>(w, V). length w]"]])
  case (1 w V)
  show ?case
  proof (cases "w = []")
    case True
    then show ?thesis using assms(1) by simp
  next
    case False
    obtain x w' where t: "take_one w = (x, w')" by fastforce
    then have shorter: "length w' < length w" using take_one_length [OF False] by simp
    show ?thesis
    proof (cases "x \<in> V")
      case True
      show ?thesis by (rule assms(2) [OF False t True], rule 1) (simp add: shorter)
    next
      case new: False
      show ?thesis
      proof (rule assms(3) [OF False t new], rule 1)
        show "((put_all w' (insert x V) (edges_at out x), insert x V), w, V)
          \<in> measures [\<lambda>(w, V). card (keys_of out - V), \<lambda>(w, V). length w]"
          using visit_smaller [OF new, of out] shorter by (auto simp: put_all_nil)
      qed
    qed
  qed
qed

lemma explore_visits:
  assumes "\<forall>x\<in>V. links out `` {x} \<subseteq> V \<union> set w"
  defines "S \<equiv> fst ` set (explore w V)"
  shows "distinct (map fst (explore w V))" and "S \<inter> V = {}" and "S \<subseteq> (links out)\<^sup>* `` set w"
    and "set w \<subseteq> V \<union> S" and "\<forall>x\<in>V \<union> S. links out `` {x} \<subseteq> V \<union> S"
    and "\<forall>(x, es)\<in>set (explore w V). es = edges_at out x"
proof -
  have "distinct (map fst (explore w V)) \<and> fst ` set (explore w V) \<inter> V = {} \<and>
      fst ` set (explore w V) \<subseteq> (links out)\<^sup>* `` set w \<and> set w \<subseteq> V \<union> fst ` set (explore w V) \<and>
      (\<forall>x\<in>V \<union> fst ` set (explore w V). links out `` {x} \<subseteq> V \<union> fst ` set (explore w V)) \<and>
      (\<forall>(x, es)\<in>set (explore w V). es = edges_at out x)"
    using assms(1)
  proof (induction w V rule: explore_induct)
    case (Nil V)
    then show ?case by (simp add: explore_nil)
  next
    case (Seen w x w' V)
    have w: "set w = insert x (set w')" using take_one_set [OF Seen(1)] Seen(2) by simp
    with Seen.prems Seen(3) have "\<forall>x\<in>V. links out `` {x} \<subseteq> V \<union> set w'" by auto
    note IH = Seen.IH [OF this]
    have e: "explore w V = explore w' V" using explore_seen [OF Seen(1), of V] Seen(2,3) by simp
    show ?case using IH Seen(3) unfolding e w by blast
  next
    case (New w x w' V)
    let ?V = "insert x V" and ?w = "put_all w' (insert x V) (edges_at out x)"
    let ?S = "fst ` set (explore ?w ?V)"
    have w: "set w = insert x (set w')" using take_one_set [OF New(1)] New(2) by simp
    have w': "set ?w = set w' \<union> (links out `` {x} - ?V)"
      by (auto simp: put_all_set fresh_targets_def links_def)
    have "\<forall>y\<in>?V. links out `` {y} \<subseteq> ?V \<union> set ?w" using New.prems unfolding w w' by auto
    note IH = New.IH [OF this]
    have e: "explore w V = (x, edges_at out x) # explore ?w ?V" by (rule explore_new [OF New(1-3)])
    have reach: "(links out)\<^sup>* `` set ?w \<subseteq> (links out)\<^sup>* `` set w"
      unfolding w w' by (auto intro: converse_rtrancl_into_rtrancl)
    have "x \<in> (links out)\<^sup>* `` set w" by (auto simp: w)
    with IH reach have "insert x ?S \<subseteq> (links out)\<^sup>* `` set w" by blast
    moreover have "set w \<subseteq> V \<union> insert x ?S" using IH unfolding w w' by blast
    moreover have "\<forall>y\<in>V \<union> insert x ?S. links out `` {y} \<subseteq> V \<union> insert x ?S" using IH by blast
    ultimately show ?case using IH New(3) unfolding e by auto
  qed
  then show "distinct (map fst (explore w V))" and "S \<inter> V = {}" and "S \<subseteq> (links out)\<^sup>* `` set w"
    and "set w \<subseteq> V \<union> S" and "\<forall>x\<in>V \<union> S. links out `` {x} \<subseteq> V \<union> S"
    and "\<forall>(x, es)\<in>set (explore w V). es = edges_at out x"
    by (simp_all add: S_def)
qed

lemma explore_reachable:
  "distinct (map fst (explore [x] {}))" "fst ` set (explore [x] {}) = (links out)\<^sup>* `` {x}"
  "\<forall>(y, es)\<in>set (explore [x] {}). es = edges_at out y"
proof -
  have "\<forall>y\<in>{}. links out `` {y} \<subseteq> {} \<union> set [x]" by simp
  note v = explore_visits [OF this]
  show "distinct (map fst (explore [x] {}))" by (rule v(1))
  show "\<forall>(y, es)\<in>set (explore [x] {}). es = edges_at out y" by (rule v(6))
  have "y \<in> fst ` set (explore [x] {})" if "(x, y) \<in> (links out)\<^sup>*" for y
    using that
  proof (induction rule: rtrancl_induct)
    case base
    from v(4) show ?case by simp
  next
    case (step y z)
    with v(5) show ?case by blast
  qed
  with v(3) show "fst ` set (explore [x] {}) = (links out)\<^sup>* `` {x}" by auto
qed

end

interpretation bfs: work_list out "\<lambda>w. (hd w, tl w)" "\<lambda>w V es. w @ fresh_targets es V" "bfs_order out"
proof
  fix w :: "string list" and x w' V
  show "bfs_order out w V = bfs_order out (snd (hd w, tl w)) V" if "w \<noteq> []" "fst (hd w, tl w) \<in> V"
    using that by (cases w) auto
  show "bfs_order out w V = (x, edges_at out x) #
      bfs_order out (w' @ fresh_targets (edges_at out x) (insert x V)) (insert x V)"
    if "w \<noteq> []" "(hd w, tl w) = (x, w')" "x \<notin> V"
    using that by (cases w) auto
qed (auto simp: fresh_targets_def neq_Nil_conv)

interpretation dfs: work_list out "\<lambda>w. (last w, butlast w)" "\<lambda>w V es. w @ fresh_targets (rev es) V" "dfs_order out"
proof
  fix w :: "string list" and x w' V
  show "set w = insert (fst (last w, butlast w)) (set (snd (last w, butlast w)))" if "w \<noteq> []"
    using that by (induction w) auto
  show "dfs_order out w V = dfs_order out (snd (last w, butlast w)) V" if "w \<noteq> []" "fst (last w, butlast w) \<in> V"
    using that by (subst dfs_order.simps) simp
  show "dfs_order out w V = (x, edges_at out x) #
      dfs_order out (w' @ fresh_targets (rev (edges_at out x)) (insert x V)) (insert x V)"
    if "w \<noteq> []" "(last w, butlast w) = (x, w')" "x \<notin> V"
    using that by (subst dfs_order.simps) auto
qed (auto simp: fresh_targets_def dfs_order_nil)

subsection \<open>Breadth first\<close>

text \<open>
  The work list of the breadth-first loop holds entities at most \<open>d\<close> links from the start, then
  entities at most \<open>d + 1\<close> links away.
\<close>

definition levels :: "(string \<times> GraphEdge list) list \<Rightarrow> string \<Rightarrow> string list \<Rightarrow> string list \<Rightarrow> nat \<Rightarrow> string set \<Rightarrow> bool"
where
  "levels out s A B d V \<longleftrightarrow>
     (\<forall>x\<in>set A \<union> V. \<exists>n\<le>d. (s, x) \<in> links out ^^ n) \<and>
     (\<forall>x\<in>set B. \<exists>n\<le>Suc d. (s, x) \<in> links out ^^ n) \<and>
     (\<forall>x. \<forall>n<d. (s, x) \<in> links out ^^ n \<longrightarrow> x \<in> V) \<and>
     (\<forall>x. (s, x) \<in> links out ^^ d \<longrightarrow> x \<in> V \<union> set A) \<and>
     (\<forall>x\<in>V. (s, x) \<in> links out ^^ d \<longrightarrow> links out `` {x} \<subseteq> V \<union> set A \<union> set B)"

definition distance :: "(string \<times> GraphEdge list) list \<Rightarrow> string \<Rightarrow> string \<Rightarrow> nat" where
  "distance out s x = (LEAST n. (s, x) \<in> links out ^^ n)"

lemma levels_next:
  assumes "levels out s [] B d V"
  shows "levels out s B [] (Suc d) V"
proof -
  have old: "x \<in> V" if "(s, x) \<in> links out ^^ n" "n < Suc d" for x n
    using assms that unfolding levels_def less_Suc_eq by auto
  have step: "y \<in> V \<union> set B" if y: "(s, y) \<in> links out ^^ Suc d" for y
  proof -
    from y obtain x where x: "(s, x) \<in> links out ^^ d" "(x, y) \<in> links out" by auto
    moreover from old [OF x(1)] have "x \<in> V" by simp
    ultimately show ?thesis using assms by (auto simp: levels_def)
  qed
  have near: "\<exists>n\<le>d. (s, x) \<in> links out ^^ n" if "x \<in> V" for x using assms that by (auto simp: levels_def)
  have "links out `` {x} \<subseteq> V \<union> set B" if x: "x \<in> V" for x
  proof
    fix y assume y: "y \<in> links out `` {x}"
    from near [OF x] obtain n where n: "n \<le> d" "(s, x) \<in> links out ^^ n" by blast
    then have "(s, y) \<in> links out ^^ Suc n" using y by auto
    then show "y \<in> V \<union> set B" using n(1) old [of y "Suc n"] step [of y] by (cases "n = d") auto
  qed
  moreover have "\<exists>n\<le>Suc d. (s, x) \<in> links out ^^ n" if "x \<in> V" for x using near [OF that] le_SucI by blast
  ultimately show ?thesis using assms old step unfolding levels_def by auto
qed

lemma levels_nonempty:
  assumes "levels out s A B d V" and "A @ B = x # q"
  shows "\<exists>A' B' d'. d \<le> d' \<and> levels out s (x # A') B' d' V \<and> A' @ B' = q"
proof (cases A)
  case Nil
  with assms levels_next [of out s B d V] have "levels out s (x # q) [] (Suc d) V" by simp
  then show ?thesis by (intro exI [of _ q] exI [of _ "[]"] exI [of _ "Suc d"]) simp
next
  case (Cons y A')
  with assms show ?thesis by (intro exI [of _ A'] exI [of _ B] exI [of _ d]) simp
qed

lemma levels_seen: "levels out s (x # A) B d V \<Longrightarrow> x \<in> V \<Longrightarrow> levels out s A B d V"
  unfolding levels_def by auto

lemma levels_new:
  assumes "levels out s (x # A) B d V" and "x \<notin> V"
  shows "levels out s A (B @ fresh_targets (edges_at out x) (insert x V)) d (insert x V)"
    and "distance out s x = d"
proof -
  from assms have far: "\<forall>n<d. (s, x) \<notin> links out ^^ n" and "\<exists>n\<le>d. (s, x) \<in> links out ^^ n"
    by (auto simp: levels_def)
  then have d: "(s, x) \<in> links out ^^ d" by (metis order_le_less)
  show "distance out s x = d" unfolding distance_def
    using d far by (intro Least_equality) (auto simp: not_less [symmetric])
  have new: "set (fresh_targets (edges_at out x) (insert x V)) = links out `` {x} - insert x V"
    by (auto simp: fresh_targets_def links_def)
  have "\<exists>n\<le>Suc d. (s, y) \<in> links out ^^ n" if "y \<in> links out `` {x}" for y
    using d that by (intro exI [of _ "Suc d"]) auto
  with assms(1) d show "levels out s A (B @ fresh_targets (edges_at out x) (insert x V)) d (insert x V)"
    unfolding levels_def set_append new by (auto split: if_splits)
qed

lemma bfs_order_levels:
  "levels out s A B d V \<Longrightarrow> A @ B = q \<Longrightarrow>
     sorted (map (distance out s \<circ> fst) (bfs_order out q V)) \<and>
     (\<forall>x\<in>fst ` set (bfs_order out q V). d \<le> distance out s x)"
proof (induction out q V arbitrary: A B d rule: bfs_order.induct)
  case (2 out x queue visited)
  obtain A' B' d' where 1: "d \<le> d'" "levels out s (x # A') B' d' visited" "A' @ B' = queue"
    using levels_nonempty [OF 2(3,4)] by blast
  show ?case
  proof (cases "x \<in> visited")
    case True
    from 2(1) [OF True levels_seen [OF 1(2) True] 1(3)] True 1(1) show ?thesis
      by simp (meson order_trans)
  next
    case False
    from 2(2) [OF False levels_new(1) [OF 1(2) False]] 1(3)
    have IH: "sorted (map (distance out s \<circ> fst) (bfs_order out
          (queue @ fresh_targets (edges_at out x) (insert x visited)) (insert x visited)))"
      "\<forall>y\<in>fst ` set (bfs_order out (queue @ fresh_targets (edges_at out x) (insert x visited)) (insert x visited)).
         d' \<le> distance out s y"
      by (simp_all add: comp_def)
    then show ?thesis using False levels_new(2) [OF 1(2) False] 1(1) by (auto simp: comp_def intro: order_trans)
  qed
qed simp

lemma bfs_nearest_first: "sorted (map (distance out s \<circ> fst) (bfs_order out [s] {}))"
proof -
  have "levels out s [s] [] 0 {}" by (auto simp: levels_def)
  from bfs_order_levels [OF this] show ?thesis by simp
qed

section \<open>Properties\<close>

text \<open>Whatever calls are made, the cache never holds more entities than its limit, its size is the
  number of entities with an entry, and the edges it lists for an entity are edges that were added
  for it, in the order of the additions: eviction forgets edges but never invents, repeats or
  reorders them.\<close>

theorem graph_cache_bounded:
  "let gc = fold (exec_cache rng) ops (NewGraphCache m)
   in gc_Size gc \<le> gc_MaxSize gc \<and> gc_Size gc = int (card (cached gc)) \<and>
      subseq (edges_at (gc_outgoingEdges gc) k) (filter (\<lambda>e. FromEntity e = k) (added ops)) \<and>
      subseq (edges_at (gc_incomingEdges gc) k) (filter (\<lambda>e. ToEntity e = k) (added ops))"
proof -
  let ?gc = "fold (exec_cache rng) ops (NewGraphCache m)"
  have ok: "cache_ok ?gc" by (rule cache_ok_run [OF cache_ok_New])
  have "part_of [] (NewGraphCache m)" by (simp add: part_of_def NewGraphCache_def)
  from part_run [OF this, of ops rng] have "part_of (added ops) ?gc" by simp
  moreover have "card (cached ?gc) = length (gc_lruList ?gc)"
    using ok by (metis cache_ok_def lru_ok_def distinct_card)
  ultimately show ?thesis
    using ok by (simp add: Let_def gc_Size_def gc_MaxSize_def cache_ok_def lru_ok_def part_of_def)
qed

text \<open>C24. As long as no more entities occur than the cache may hold, the cache is exact, whatever
  calls are made in between: it answers every query about the edges that were added and not removed
  as a plain list of them would.\<close>

theorem graph_cache_exact:
  assumes "int (card (\<Union>op\<in>set ops. endpoints op)) \<le> gc_MaxSize (NewGraphCache m)" and "reorders rng"
    and "gc = fold (exec_cache rng) ops (NewGraphCache m)" and "log = fold remaining ops []"
  shows "edges_at (gc_outgoingEdges gc) k = filter (\<lambda>e. FromEntity e = k) log \<and>
    edges_at (gc_incomingEdges gc) k = filter (\<lambda>e. ToEntity e = k) log \<and>
    distinct (snd (gc_GetNeighbors rng k gc)) \<and>
    set (snd (gc_GetNeighbors rng k gc)) =
      {x. \<exists>e\<in>set log. FromEntity e = k \<and> ToEntity e = x \<or> ToEntity e = k \<and> FromEntity e = x} \<and>
    GetEdgeCount gc = length log"
proof -
  let ?E = "\<Union>op\<in>set ops. endpoints op"
  have "finite (endpoints op)" for op by (cases op) auto
  then have "within ?E (NewGraphCache m)" using assms(1) by (simp add: within_def NewGraphCache_def gc_MaxSize_def)
  moreover have "holds_edges [] (NewGraphCache m)" by (simp add: holds_edges_def NewGraphCache_def)
  ultimately have h: "holds_edges log gc" unfolding assms(3,4) by (intro exact_run [OF cache_ok_New]) auto
  have ok: "cache_ok gc" unfolding assms(3) by (rule cache_ok_run [OF cache_ok_New])
  have n: "snd (gc_GetNeighbors rng k gc) = rng (remdups (map ToEntity (filter (\<lambda>e. FromEntity e = k) log) @
      map FromEntity (filter (\<lambda>e. ToEntity e = k) log)))"
    using h by (simp add: gc_GetNeighbors_def Let_def holds_edges_def)
  have "distinct (snd (gc_GetNeighbors rng k gc))"
    using assms(2) by (simp only: n reorders_distinct distinct_remdups)
  moreover have "set (snd (gc_GetNeighbors rng k gc)) =
      {x. \<exists>e\<in>set log. FromEntity e = k \<and> ToEntity e = x \<or> ToEntity e = k \<and> FromEntity e = x}"
    unfolding n reorders_set [OF assms(2)] by auto
  ultimately show ?thesis using h edge_count [OF h ok] by (simp add: holds_edges_def)
qed

text \<open>A history with two entities, a repeated edge and a removal.\<close>

definition link_edge :: "string \<Rightarrow> string \<Rightarrow> GraphEdge" where
  "link_edge a b = \<lparr>FromEntity = a, ToEntity = b, Relation = ''knows'', Weight = 0, edge_Timestamp = time_Unix0 0\<rparr>"

definition link_ops :: "cache_op list" where
  "link_ops = [OpAdd (link_edge ''a'' ''b''), OpNeighbors ''a'', OpAdd (link_edge ''b'' ''a''),
     OpRemove ''c'', OpAdd (link_edge ''a'' ''b'')]"

lemma graph_cache_exact_witness:
  "edges_at (gc_outgoingEdges (fold (exec_cache rev) link_ops (NewGraphCache 2))) ''a'' =
     [link_edge ''a'' ''b'', link_edge ''a'' ''b''] \<and>
   GetEdgeCount (fold (exec_cache rev) link_ops (NewGraphCache 2)) = 3"
proof -
  have "(\<Union>op\<in>set link_ops. endpoints op) = {''a'', ''b''}"
    by (auto simp: link_ops_def link_edge_def)
  then have "int (card (\<Union>op\<in>set link_ops. endpoints op)) \<le> gc_MaxSize (NewGraphCache 2)"
    by (simp add: gc_MaxSize_def NewGraphCache_def)
  from graph_cache_exact [OF this reorders_id(2) refl refl, of "''a''"] show ?thesis
    by (simp add: link_ops_def link_edge_def)
qed

text \<open>C25. Both traversals end and visit every entity that can be reached from the start over cached
  edges exactly once, each with its cached edges, the breadth-first one nearest entities first; a visitor that asks
  to stop sees exactly a prefix of these visits, and the result counts those before it.\<close>

theorem traversals_visit_reachable:
  "\<exists>near deep.
     (\<forall>(visitor :: 's visitor) s. Traverse start visitor gc s = visit_all visitor near 0 s \<and>
        TraverseDepth start visitor gc s = visit_all visitor deep 0 s) \<and>
     distinct (map fst near) \<and> distinct (map fst deep) \<and>
     fst ` set near = (links (gc_outgoingEdges gc))\<^sup>* `` {start} \<and>
     fst ` set deep = (links (gc_outgoingEdges gc))\<^sup>* `` {start} \<and>
     near @ deep = map (\<lambda>(x, es). (x, edges_at (gc_outgoingEdges gc) x)) (near @ deep) \<and>
     sorted (map (distance (gc_outgoingEdges gc) start \<circ> fst) near)"
proof (intro exI conjI)
  let ?near = "bfs_order (gc_outgoingEdges gc) [start] {}" and ?deep = "dfs_order (gc_outgoingEdges gc) [start] {}"
  show "\<forall>(visitor :: 's visitor) s. Traverse start visitor gc s = visit_all visitor ?near 0 s \<and>
      TraverseDepth start visitor gc s = visit_all visitor ?deep 0 s"
    by (simp add: Traverse_def TraverseDepth_def bfs_loop_visits dfs_loop_visits)
  let ?at = "\<lambda>(x, es). (x, edges_at (gc_outgoingEdges gc) x)"
  have "map ?at ?near = ?near"
    using bfs.explore_reachable(3) [of "gc_outgoingEdges gc" start] by (intro map_idI) auto
  moreover have "map ?at ?deep = ?deep"
    using dfs.explore_reachable(3) [of "gc_outgoingEdges gc" start] by (intro map_idI) auto
  ultimately show "?near @ ?deep = map ?at (?near @ ?deep)" by simp
qed (fact bfs.explore_reachable dfs.explore_reachable bfs_nearest_first)+

end
