(* ===== verification/Grpc_Server.thy ===== *)
theory Grpc_Server
  imports Coordinator Storage_Service
begin

text \<open>
  The gRPC service, \<^verbatim>\<open>src/api/grpc/server.go\<close>, on the messages of \<^verbatim>\<open>src/api/grpc/pb\<close>. The
  interfaces the server is given stay parameters: a coordinator is a record of its three methods on a
  state of its own, the query executor and the index functions. A pointer that may be nil is an option. An error is a status
  code with its format string. \<open>now n\<close> is the reading of the n-th call of the clock within a request.
\<close>

section \<open>Messages\<close>

record PbEmbedding =
  pb_Version :: "64 word"
  pb_Vector :: "float32 list"
  pb_EmbTimestampNanos :: "64 word"

record PbEdge =
  pb_FromEntity :: string
  pb_ToEntity :: string
  pb_Relation :: string
  pb_Weight :: float64
  pb_EdgeTimestampNanos :: "64 word"

record PbChunk =
  pb_ChunkId :: string
  pb_Text :: string
  pb_Metadata :: "(string \<times> string) list"

record PbEntity =
  pb_EntityId :: string
  pb_TenantId :: string
  pb_EntityType :: string
  pb_Embeddings :: "PbEmbedding option list"
  pb_IncomingEdges :: "PbEdge option list"
  pb_OutgoingEdges :: "PbEdge option list"
  pb_Chunks :: "PbChunk option list"
  pb_Importance :: float64
  pb_CreatedAtNanos :: "64 word"
  pb_UpdatedAtNanos :: "64 word"

text \<open>A consistency level is an open enum: any int32, with three names.\<close>

definition CONSISTENCY_ONE :: int where "CONSISTENCY_ONE = 0"
definition CONSISTENCY_QUORUM :: int where "CONSISTENCY_QUORUM = 1"
definition CONSISTENCY_ALL :: int where "CONSISTENCY_ALL = 2"

record PutRequest =
  put_Entity :: "PbEntity option"
  put_Level :: int

record BatchRequest =
  bat_Entities :: "PbEntity option list"
  bat_Level :: int

record BatchResponse =
  bat_Success :: bool
  bat_ErrorMessage :: string
  bat_EntityIds :: "string list"
  bat_SuccessCount :: "32 word"
  bat_FailureCount :: "32 word"

record QueryRequest =
  qry_Vector :: "float32 list"
  qry_K :: int
  qry_ExpandFactor :: int
  qry_TraceId :: string
  qry_Level :: int

record QueryResult =
  qr_EntityID :: string
  qr_Score :: float64
  qr_Entity :: "UnifiedEntity option"

record PbQueryResult =
  pqr_EntityId :: string
  pqr_Score :: float64
  pqr_Entity :: "PbEntity option"

record ScanRequest =
  sc_TenantId :: string
  sc_StartKey :: string
  sc_EndKey :: string
  sc_Limit :: int
  sc_PageToken :: string
  sc_NodeId :: string

record ScanResponse =
  scr_Entities :: "PbEntity list"
  scr_NextPageToken :: string

text \<open>The codes of the gRPC library, by name, and any other number.\<close>

datatype code = OK | Canceled | Unknown | InvalidArgument | DeadlineExceeded | NotFound | AlreadyExists | PermissionDenied
  | ResourceExhausted | FailedPrecondition | Aborted | OutOfRange | Unimplemented | Internal | Unavailable | DataLoss
  | Unauthenticated | Other_Code nat

datatype rpc_error = RpcPanic | Status code string

type_synonym 'a rpc = "rpc_error + 'a"

text \<open>The result of a Go call, with an error turned into a status; a panic stays one.\<close>

definition rpc_status :: "code \<Rightarrow> string \<Rightarrow> 'a go \<Rightarrow> 'a rpc" where
  "rpc_status c msg r = (case r of Inr x \<Rightarrow> Inr x | Inl Panic \<Rightarrow> Inl RpcPanic | Inl (Fail e) \<Rightarrow> Inl (Status c msg))"

definition rpc_bind :: "'a rpc \<Rightarrow> ('a \<Rightarrow> 'b rpc) \<Rightarrow> 'b rpc" where
  "rpc_bind m f = (case m of Inl e \<Rightarrow> Inl e | Inr x \<Rightarrow> f x)"

lemma rpc_bind_simps [simp]: "rpc_bind (Inl e) f = Inl e" "rpc_bind (Inr x) f = f x"
  by (simp_all add: rpc_bind_def)

lemma rpc_bind_Inr: "rpc_bind m f = Inr y \<longleftrightarrow> (\<exists>x. m = Inr x \<and> f x = Inr y)"
  by (cases m) auto

lemma rpc_status_Inr [simp]: "rpc_status c msg r = Inr x \<longleftrightarrow> r = Inr x"
  by (auto simp: rpc_status_def split: sum.splits go_error.splits)

definition rpc_tenant :: "ctx \<Rightarrow> string rpc" where
  "rpc_tenant ctx = rpc_status Unauthenticated ''tenant required: %v'' (tenant_RequireTenant ctx)"

lemma rpc_tenant_Inr [simp]: "rpc_tenant ctx = Inr t \<longleftrightarrow> ctx = Some t \<and> t \<noteq> []"
  by (auto simp: rpc_tenant_def tenant_RequireTenant_def TenantFromContext_def ctx_GetTenantID_def split: option.splits)

section \<open>Conversions\<close>

definition proto_edge :: "PbEdge \<Rightarrow> GraphEdge" where
  "proto_edge e = \<lparr>FromEntity = pb_FromEntity e, ToEntity = pb_ToEntity e, Relation = pb_Relation e,
     Weight = pb_Weight e, edge_Timestamp = time_Unix0 (pb_EdgeTimestampNanos e)\<rparr>"

definition proto_chunk :: "PbChunk \<Rightarrow> TextChunk" where
  "proto_chunk c = \<lparr>ChunkID = pb_ChunkId c, Text = pb_Text c, Metadata = pb_Metadata c\<rparr>"

text \<open>A loop over pointers that skips the nil ones; the state counts the clock readings.\<close>

definition each :: "('a \<Rightarrow> UnifiedEntity \<times> nat \<Rightarrow> UnifiedEntity \<times> nat) \<Rightarrow> 'a option list \<Rightarrow>
    UnifiedEntity \<times> nat \<Rightarrow> UnifiedEntity \<times> nat" where
  "each f xs s = fold (\<lambda>x s. case x of None \<Rightarrow> s | Some y \<Rightarrow> f y s) xs s"

definition protoToEntity :: "(nat \<Rightarrow> time) \<Rightarrow> PbEntity \<Rightarrow> string \<Rightarrow> UnifiedEntity" where
  "protoToEntity now protoEntity tenantID =
     (let s = (NewUnifiedEntity (now 0) (pb_EntityId protoEntity) tenantID (pb_EntityType protoEntity), 1);
          s = each (\<lambda>protoEmbedding (ent, n). (AddEmbedding (now n) (now (n + 1)) (pb_Vector protoEmbedding) ent, n + 2))
                (pb_Embeddings protoEntity) s;
          s = each (\<lambda>protoEdge (ent, n). (AddIncomingEdge (now n) (proto_edge protoEdge) ent, n + 1))
                (pb_IncomingEdges protoEntity) s;
          s = each (\<lambda>protoEdge (ent, n). (AddOutgoingEdge (now n) (proto_edge protoEdge) ent, n + 1))
                (pb_OutgoingEdges protoEntity) s;
          s = each (\<lambda>protoChunk (ent, n). (AddChunk (now n) (proto_chunk protoChunk) ent, n + 1))
                (pb_Chunks protoEntity) s
      in (case s of (ent, n) \<Rightarrow> SetImportance (now n) (pb_Importance protoEntity) ent))"

definition edge_proto :: "GraphEdge \<Rightarrow> PbEdge" where
  "edge_proto edge = \<lparr>pb_FromEntity = FromEntity edge, pb_ToEntity = ToEntity edge, pb_Relation = Relation edge,
     pb_Weight = Weight edge, pb_EdgeTimestampNanos = UnixNano (edge_Timestamp edge)\<rparr>"

definition entityToProto :: "UnifiedEntity \<Rightarrow> PbEntity" where
  "entityToProto ent =
     \<lparr>pb_EntityId = EntityID ent, pb_TenantId = TenantID ent, pb_EntityType = EntityType ent,
      pb_Embeddings = map (\<lambda>emb. Some \<lparr>pb_Version = Version emb, pb_Vector = Vector emb,
                                   pb_EmbTimestampNanos = UnixNano (emb_Timestamp emb)\<rparr>) (GetEmbeddings ent),
      pb_IncomingEdges = map (\<lambda>edge. Some (edge_proto edge)) (IncomingEdges ent),
      pb_OutgoingEdges = map (\<lambda>edge. Some (edge_proto edge)) (OutgoingEdges ent),
      pb_Chunks = map (\<lambda>chunk. Some \<lparr>pb_ChunkId = ChunkID chunk, pb_Text = Text chunk,
                                 pb_Metadata = Metadata chunk\<rparr>) (Chunks ent),
      pb_Importance = Importance ent, pb_CreatedAtNanos = UnixNano (CreatedAt ent),
      pb_UpdatedAtNanos = UnixNano (UpdatedAt ent)\<rparr>"

section \<open>Writing\<close>

text \<open>The coordinator and the index, as the server uses them.\<close>

record 'c CoordinatorService =
  cs_Write :: "string \<Rightarrow> slice_bytes \<Rightarrow> 'c \<Rightarrow> 'c \<times> unit go"
  cs_GetConfig :: "'c \<Rightarrow> CoordinatorConfig"
  cs_UpdateConfig :: "CoordinatorConfig \<Rightarrow> 'c \<Rightarrow> 'c"

type_synonym 'i indexer = "(UnifiedEntity \<Rightarrow> 'i \<Rightarrow> 'i) option"

definition getCoordinatorConfig :: "CoordinatorConfig \<Rightarrow> int \<Rightarrow> CoordinatorConfig" where
  "getCoordinatorConfig config level =
     (if level = CONSISTENCY_ONE then config\<lparr>ReadQuorum := 1, WriteQuorum := 1\<rparr>
      else if level = CONSISTENCY_QUORUM then config
      else if level = CONSISTENCY_ALL
      then config\<lparr>ReadQuorum := ReplicaCount config, WriteQuorum := ReplicaCount config\<rparr>
      else config)"

definition entity_key :: "string \<Rightarrow> string \<Rightarrow> string" where
  "entity_key tenantID entityID = tenantID @ '':'' @ entityID"

definition index_add :: "'i indexer \<Rightarrow> UnifiedEntity \<Rightarrow> 'i \<Rightarrow> 'i" where
  "index_add idx ent i = (case idx of None \<Rightarrow> i | Some add \<Rightarrow> add ent i)"

definition rpc_PutEntity ::
  "'c CoordinatorService \<Rightarrow> 'i indexer \<Rightarrow> (nat \<Rightarrow> time) \<Rightarrow> ctx \<Rightarrow> PutRequest \<Rightarrow> 'c \<times> 'i \<Rightarrow> ('c \<times> 'i) \<times> string rpc" where
  "rpc_PutEntity svc idx now ctx req = (\<lambda>(c, i).
     case rpc_tenant ctx of
       Inl e \<Rightarrow> ((c, i), Inl e)
     | Inr tenantID \<Rightarrow>
         (case put_Entity req of
            None \<Rightarrow> ((c, i), Inl (Status InvalidArgument ''entity is required''))
          | Some p \<Rightarrow>
              if pb_EntityId p = [] then ((c, i), Inl (Status InvalidArgument ''entity_id is required''))
              else if pb_TenantId p \<noteq> tenantID then ((c, i), Inl (Status PermissionDenied ''tenant ID mismatch''))
              else
                let config = getCoordinatorConfig (cs_GetConfig svc c) (put_Level req);
                    ent = protoToEntity now p tenantID
                in (case entity_ToBytes ent of
                      Inl e \<Rightarrow> ((c, i), Inl RpcPanic)
                    | Inr entityBytes \<Rightarrow>
                        let key = entity_key tenantID (pb_EntityId p);
                            oldConfig = cs_GetConfig svc c;
                            c = cs_UpdateConfig svc config c;
                            (c, res) = cs_Write svc key (Some entityBytes) c
                        in (case rpc_status Internal ''failed to write entity: %v'' res of
                              Inl e \<Rightarrow> ((cs_UpdateConfig svc oldConfig c, i), Inl e)
                            | Inr _ \<Rightarrow>
                                let i = index_add idx ent i
                                in ((cs_UpdateConfig svc oldConfig c, i), Inr (pb_EntityId p))))))"

text \<open>
  One entity of a batch. A panic in the write leaves the level's configuration behind, since it is
  not restored by a \<^verbatim>\<open>defer\<close>.
\<close>

record batch_acc =
  ba_failures :: nat
  ba_ids :: "string list"
  ba_lastErr :: string

fun batch_loop ::
  "'c CoordinatorService \<Rightarrow> 'i indexer \<Rightarrow> (nat \<Rightarrow> nat \<Rightarrow> time) \<Rightarrow> string \<Rightarrow> CoordinatorConfig \<Rightarrow> PbEntity option list \<Rightarrow>
     nat \<Rightarrow> batch_acc \<Rightarrow> 'c \<times> 'i \<Rightarrow> ('c \<times> 'i) \<times> batch_acc rpc" where
  "batch_loop svc idx now tenantID config [] n acc (c, i) = ((c, i), Inr acc)"
| "batch_loop svc idx now tenantID config (None # ps) n acc (c, i) = ((c, i), Inl RpcPanic)"
| "batch_loop svc idx now tenantID config (Some p # ps) n acc (c, i) =
     (if pb_TenantId p \<noteq> tenantID then
        batch_loop svc idx now tenantID config ps (n + 1)
          (acc\<lparr>ba_failures := ba_failures acc + 1, ba_lastErr := ''tenant ID mismatch for entity %s''\<rparr>) (c, i)
      else
        let ent = protoToEntity (now n) p tenantID
        in (case entity_ToBytes ent of
              Inl e \<Rightarrow> ((c, i), Inl RpcPanic)
            | Inr entityBytes \<Rightarrow>
                let key = entity_key tenantID (pb_EntityId p);
                    oldConfig = cs_GetConfig svc c;
                    c = cs_UpdateConfig svc config c;
                    (c, res) = cs_Write svc key (Some entityBytes) c
                in (case res of
                      Inl Panic \<Rightarrow> ((c, i), Inl RpcPanic)
                    | Inl (Fail e) \<Rightarrow>
                        batch_loop svc idx now tenantID config ps (n + 1)
                          (acc\<lparr>ba_failures := ba_failures acc + 1, ba_lastErr := e\<rparr>)
                          (cs_UpdateConfig svc oldConfig c, i)
                    | Inr _ \<Rightarrow>
                        batch_loop svc idx now tenantID config ps (n + 1)
                          (acc\<lparr>ba_ids := ba_ids acc @ [pb_EntityId p]\<rparr>)
                          (cs_UpdateConfig svc oldConfig c, index_add idx ent i))))"

definition rpc_BatchPutEntities ::
  "'c CoordinatorService \<Rightarrow> 'i indexer \<Rightarrow> (nat \<Rightarrow> nat \<Rightarrow> time) \<Rightarrow> ctx \<Rightarrow> BatchRequest \<Rightarrow> 'c \<times> 'i \<Rightarrow>
     ('c \<times> 'i) \<times> BatchResponse rpc" where
  "rpc_BatchPutEntities svc idx now ctx req = (\<lambda>(c, i).
     case rpc_tenant ctx of
       Inl e \<Rightarrow> ((c, i), Inl e)
     | Inr tenantID \<Rightarrow>
         if length (bat_Entities req) = 0
         then ((c, i), Inl (Status InvalidArgument ''at least one entity is required''))
         else
           let config = getCoordinatorConfig (cs_GetConfig svc c) (bat_Level req)
           in (case batch_loop svc idx now tenantID config (bat_Entities req) 0
                      \<lparr>ba_failures = 0, ba_ids = [], ba_lastErr = []\<rparr> (c, i) of
                 (ci, Inl e) \<Rightarrow> (ci, Inl e)
               | (ci, Inr acc) \<Rightarrow>
                   (ci, Inr \<lparr>bat_Success = (ba_failures acc = 0), bat_ErrorMessage = ba_lastErr acc,
                             bat_EntityIds = ba_ids acc, bat_SuccessCount = word_of_nat (length (ba_ids acc)),
                             bat_FailureCount = word_of_nat (ba_failures acc)\<rparr>)))"

section \<open>Reading\<close>

definition rpc_Query ::
  "(float32 list \<Rightarrow> int \<Rightarrow> int \<Rightarrow> QueryResult list go) \<Rightarrow> ctx \<Rightarrow> QueryRequest \<Rightarrow> (PbQueryResult list \<times> string \<times> 32 word) rpc"
where
  "rpc_Query QueryWithOptions ctx req =
     rpc_bind (rpc_tenant ctx) (\<lambda>tenantID.
       if length (qry_Vector req) = 0 then Inl (Status InvalidArgument ''query_vector is required'')
       else
         let k = (if qry_K req \<le> 0 then 10 else qry_K req);
             expandFactor = (if qry_ExpandFactor req \<le> 0 then 2 else qry_ExpandFactor req)
         in rpc_bind (rpc_status Internal ''query execution failed: %v'' (QueryWithOptions (qry_Vector req) k expandFactor))
              (\<lambda>results.
              let filtered = filter (\<lambda>r. case qr_Entity r of None \<Rightarrow> False | Some e \<Rightarrow> TenantID e = tenantID) results;
                  protos = map (\<lambda>r. \<lparr>pqr_EntityId = qr_EntityID r, pqr_Score = qr_Score r,
                                      pqr_Entity = map_option entityToProto (qr_Entity r)\<rparr>) filtered
              in Inr (protos, qry_TraceId req, word_of_nat (length protos))))"

text \<open>
  \<open>remote addr req\<close> is the call of the service at an address. The request sent on names the tenant of
  the received request, not the one found in the context.
\<close>

definition scan_offset :: "string \<Rightarrow> int" where
  "scan_offset token =
     (if token \<noteq> [] then (case Atoi token of Some v \<Rightarrow> if v \<ge> 0 then v else 0 | None \<Rightarrow> 0) else 0)"

definition scan_page :: "(string \<times> UnifiedEntity) list \<Rightarrow> int \<Rightarrow> int \<Rightarrow> ScanResponse" where
  "scan_page data offset limit =
     (let keys = sort_Slice (<) (map fst data);
          offset = (if offset > int (length keys) then int (length keys) else offset);
          finish = (if offset + limit > int (length keys) then int (length keys) else offset + limit)
      in \<lparr>scr_Entities = map (\<lambda>k. entityToProto (the (map_of data k))) (take (nat finish - nat offset) (drop (nat offset) keys)),
          scr_NextPageToken = (if finish < int (length keys) then decimal (nat finish) else [])\<rparr>)"

definition rpc_RangeScan ::
  "(string \<Rightarrow> string \<Rightarrow> string \<Rightarrow> (string \<times> UnifiedEntity) list go) option \<Rightarrow> string \<Rightarrow> (string \<Rightarrow> string option) option \<Rightarrow>
     (string \<Rightarrow> ScanRequest \<Rightarrow> ScanResponse rpc) \<Rightarrow> ctx \<Rightarrow> ScanRequest \<Rightarrow> ScanResponse rpc" where
  "rpc_RangeScan rangeScanner localNodeID nodeLookup remote ctx req =
     (case rangeScanner of
        None \<Rightarrow> Inl (Status Unimplemented ''range scan not supported'')
      | Some scan \<Rightarrow>
          rpc_bind (if sc_TenantId req = [] then rpc_tenant ctx else Inr (sc_TenantId req)) (\<lambda>tenantID.
            let limit = (if sc_Limit req \<le> 0 then 100 else sc_Limit req);
                offset = scan_offset (sc_PageToken req)
            in if sc_NodeId req \<noteq> [] \<and> localNodeID \<noteq> [] \<and> sc_NodeId req \<noteq> localNodeID then
                 (case nodeLookup of
                    None \<Rightarrow> Inl (Status Unimplemented ''node lookup not available for remote range scan'')
                  | Some lookup \<Rightarrow>
                      (case lookup (sc_NodeId req) of
                         None \<Rightarrow> Inl (Status NotFound ''address for node %s not found'')
                       | Some addr \<Rightarrow> remote addr (req\<lparr>sc_NodeId := []\<rparr>)))
               else
                 rpc_bind (rpc_status Internal ''range scan failed: %v'' (scan (sc_StartKey req) (sc_EndKey req) tenantID))
                   (\<lambda>data. Inr (scan_page data offset limit))))"

section \<open>Replication and health\<close>

definition rpc_ReplicaRead ::
  "(string \<Rightarrow> string \<Rightarrow> bytes option go) option \<Rightarrow> ctx \<Rightarrow> string \<Rightarrow> string \<Rightarrow> bytes option rpc" where
  "rpc_ReplicaRead replicaKV ctx key tenantID =
     (case replicaKV of
        None \<Rightarrow> Inl (Status Unimplemented ''replica read not supported'')
      | Some replica_read \<Rightarrow>
          if key = [] then Inl (Status InvalidArgument ''key is required'')
          else rpc_bind (if tenantID = [] then rpc_tenant ctx else Inr tenantID) (\<lambda>tenantID.
                 rpc_status Internal ''replica read failed: %v'' (replica_read key tenantID)))"

definition rpc_ReplicaWrite ::
  "(string \<Rightarrow> string \<Rightarrow> bytes \<Rightarrow> 's \<Rightarrow> 's \<times> unit go) option \<Rightarrow> ctx \<Rightarrow> string \<Rightarrow> string \<Rightarrow> bytes \<Rightarrow> 's \<Rightarrow> 's \<times> bool rpc"
where
  "rpc_ReplicaWrite replicaKV ctx key tenantID val s =
     (case replicaKV of
        None \<Rightarrow> (s, Inl (Status Unimplemented ''replica write not supported''))
      | Some replica_write \<Rightarrow>
          if key = [] then (s, Inl (Status InvalidArgument ''key is required''))
          else (case (if tenantID = [] then rpc_tenant ctx else Inr tenantID) of
                  Inl e \<Rightarrow> (s, Inl e)
                | Inr tenantID \<Rightarrow>
                    (case replica_write key tenantID val s of
                       (s, res) \<Rightarrow> (s, rpc_bind (rpc_status Internal ''replica write failed: %v'' res) (\<lambda>_. Inr True)))))"

text \<open>The version of \<^verbatim>\<open>src/core/version\<close>, unless the linker sets another.\<close>

definition Version_default :: string where
  "Version_default = ''1.0.0-beta''"

definition rpc_HealthCheck :: "bool \<Rightarrow> bool \<Rightarrow> time \<Rightarrow> bool \<times> string \<times> 64 word \<times> string" where
  "rpc_HealthCheck hasCoordinator hasExecutor now =
     (let healthy = hasCoordinator \<and> hasExecutor
      in (healthy, if healthy then ''healthy'' else ''unhealthy'', UnixNano now, Version_default))"

section \<open>What the conversions keep\<close>

text \<open>The messages that are there.\<close>

definition present :: "'a option list \<Rightarrow> 'a list" where
  "present xs = map the (filter (\<lambda>x. x \<noteq> None) xs)"

lemma present_simps [simp]:
  "present [] = []" "present (None # xs) = present xs" "present (Some x # xs) = x # present xs"
  "present (map (\<lambda>x. Some (f x)) ys) = map f ys"
  by (simp_all add: present_def filter_map comp_def)

lemma each_present: "each f xs s = fold f (present xs) s"
  unfolding each_def
proof (induction xs arbitrary: s)
  case (Cons x xs)
  then show ?case by (cases x) simp_all
qed simp

lemma add_embeddings:
  assumes "fold (\<lambda>p (ent, n). (AddEmbedding (now n) (now (n + 1)) (pb_Vector p) ent, n + 2)) ps (e, n) = (e', n')"
  shows "evolves e e'" and "map Vector (Embeddings e') = map Vector (Embeddings e) @ map pb_Vector ps"
    and "IncomingEdges e' = IncomingEdges e" and "OutgoingEdges e' = OutgoingEdges e" and "Chunks e' = Chunks e"
    and "(\<forall>k. representable (now k)) \<Longrightarrow> list_all (\<lambda>emb. representable (emb_Timestamp emb)) (Embeddings e) \<Longrightarrow>
      list_all (\<lambda>emb. representable (emb_Timestamp emb)) (Embeddings e')"
proof -
  have "evolves e e' \<and> map Vector (Embeddings e') = map Vector (Embeddings e) @ map pb_Vector ps \<and>
      IncomingEdges e' = IncomingEdges e \<and> OutgoingEdges e' = OutgoingEdges e \<and> Chunks e' = Chunks e \<and>
      ((\<forall>k. representable (now k)) \<longrightarrow> list_all (\<lambda>emb. representable (emb_Timestamp emb)) (Embeddings e) \<longrightarrow>
        list_all (\<lambda>emb. representable (emb_Timestamp emb)) (Embeddings e'))"
    using assms
  proof (induction ps arbitrary: e n)
    case Nil
    then show ?case by (auto intro: evolves.intros)
  next
    case (Cons p ps)
    let ?e = "AddEmbedding (now n) (now (n + 1)) (pb_Vector p) e"
    have step: "evolves e ?e" by (intro evolves.intros)
    have trans: "evolves e g" if "evolves ?e g" for g
      using that step by (induction rule: evolves.induct) (auto intro: evolves.intros)
    from Cons.prems have "fold (\<lambda>p (ent, n). (AddEmbedding (now n) (now (n + 1)) (pb_Vector p) ent, n + 2)) ps (?e, n + 2) = (e', n')"
      by simp
    note IH = Cons.IH [OF this]
    show ?case using IH trans [of e'] by (auto simp: AddEmbedding_def Let_def)
  qed
  then show "evolves e e'" and "map Vector (Embeddings e') = map Vector (Embeddings e) @ map pb_Vector ps"
    and "IncomingEdges e' = IncomingEdges e" and "OutgoingEdges e' = OutgoingEdges e" and "Chunks e' = Chunks e"
    and "(\<forall>k. representable (now k)) \<Longrightarrow> list_all (\<lambda>emb. representable (emb_Timestamp emb)) (Embeddings e) \<Longrightarrow>
      list_all (\<lambda>emb. representable (emb_Timestamp emb)) (Embeddings e')"
    by blast+
qed

lemma add_incoming:
  obtains u n' where "fold (\<lambda>p (ent, n). (AddIncomingEdge (now n) (proto_edge p) ent, n + 1)) ps (e, n) =
     (e\<lparr>IncomingEdges := IncomingEdges e @ map proto_edge ps, UpdatedAt := u\<rparr>, n')"
proof -
  have "\<exists>u n'. fold (\<lambda>p (ent, n). (AddIncomingEdge (now n) (proto_edge p) ent, n + 1)) ps (e, n) =
     (e\<lparr>IncomingEdges := IncomingEdges e @ map proto_edge ps, UpdatedAt := u\<rparr>, n')"
  proof (induction ps arbitrary: e n)
    case Nil
    show ?case by (rule exI [of _ "UpdatedAt e"]) simp
  next
    case (Cons p ps)
    from this [of "AddIncomingEdge (now n) (proto_edge p) e" "n + 1"] show ?case by (auto simp: AddIncomingEdge_def)
  qed
  with that show ?thesis by blast
qed

lemma add_outgoing_edges:
  obtains u n' where "fold (\<lambda>p (ent, n). (AddOutgoingEdge (now n) (proto_edge p) ent, n + 1)) ps (e, n) =
     (e\<lparr>OutgoingEdges := OutgoingEdges e @ map proto_edge ps, UpdatedAt := u\<rparr>, n')"
proof -
  have "\<exists>u n'. fold (\<lambda>p (ent, n). (AddOutgoingEdge (now n) (proto_edge p) ent, n + 1)) ps (e, n) =
     (e\<lparr>OutgoingEdges := OutgoingEdges e @ map proto_edge ps, UpdatedAt := u\<rparr>, n')"
  proof (induction ps arbitrary: e n)
    case Nil
    show ?case by (rule exI [of _ "UpdatedAt e"]) simp
  next
    case (Cons p ps)
    from this [of "AddOutgoingEdge (now n) (proto_edge p) e" "n + 1"] show ?case by (auto simp: AddOutgoingEdge_def)
  qed
  with that show ?thesis by blast
qed

lemma add_chunks:
  obtains u n' where "fold (\<lambda>p (ent, n). (AddChunk (now n) (proto_chunk p) ent, n + 1)) ps (e, n) =
     (e\<lparr>Chunks := Chunks e @ map proto_chunk ps, UpdatedAt := u\<rparr>, n')"
proof -
  have "\<exists>u n'. fold (\<lambda>p (ent, n). (AddChunk (now n) (proto_chunk p) ent, n + 1)) ps (e, n) =
     (e\<lparr>Chunks := Chunks e @ map proto_chunk ps, UpdatedAt := u\<rparr>, n')"
  proof (induction ps arbitrary: e n)
    case Nil
    show ?case by (rule exI [of _ "UpdatedAt e"]) simp
  next
    case (Cons p ps)
    from this [of "AddChunk (now n) (proto_chunk p) e" "n + 1"] show ?case by (auto simp: AddChunk_def)
  qed
  with that show ?thesis by blast
qed

text \<open>What a message becomes: its fields, the time and the versions of the server.\<close>

lemma protoToEntity_fields:
  fixes now :: "nat \<Rightarrow> time" and p :: PbEntity and t :: string
  defines "e \<equiv> protoToEntity now p t"
  shows "EntityID e = pb_EntityId p" and "TenantID e = t" and "EntityType e = pb_EntityType p"
    and "map Vector (Embeddings e) = map pb_Vector (present (pb_Embeddings p))" and "versions_counted e"
    and "IncomingEdges e = map proto_edge (present (pb_IncomingEdges p))"
    and "OutgoingEdges e = map proto_edge (present (pb_OutgoingEdges p))"
    and "Chunks e = map proto_chunk (present (pb_Chunks p))" and "Importance e = pb_Importance p"
    and "CreatedAt e = now 0" and "\<exists>k. UpdatedAt e = now k"
    and "(\<forall>k. representable (now k)) \<Longrightarrow> list_all (\<lambda>emb. representable (emb_Timestamp emb)) (Embeddings e)"
proof -
  let ?new = "NewUnifiedEntity (now 0) (pb_EntityId p) t (pb_EntityType p)"
  obtain e1 n1 where 1: "fold (\<lambda>p (ent, n). (AddEmbedding (now n) (now (n + 1)) (pb_Vector p) ent, n + 2))
      (present (pb_Embeddings p)) (?new, 1) = (e1, n1)" by fastforce
  note emb = add_embeddings [OF 1]
  obtain u2 n2 where 2: "fold (\<lambda>p (ent, n). (AddIncomingEdge (now n) (proto_edge p) ent, n + 1)) (present (pb_IncomingEdges p)) (e1, n1) =
      (e1\<lparr>IncomingEdges := IncomingEdges e1 @ map proto_edge (present (pb_IncomingEdges p)), UpdatedAt := u2\<rparr>, n2)"
    (is "_ = (?e2, _)") by (rule add_incoming)
  obtain u3 n3 where 3: "fold (\<lambda>p (ent, n). (AddOutgoingEdge (now n) (proto_edge p) ent, n + 1)) (present (pb_OutgoingEdges p)) (?e2, n2) =
      (?e2\<lparr>OutgoingEdges := OutgoingEdges ?e2 @ map proto_edge (present (pb_OutgoingEdges p)), UpdatedAt := u3\<rparr>, n3)"
    (is "_ = (?e3, _)") by (rule add_outgoing_edges)
  obtain u4 n4 where 4: "fold (\<lambda>p (ent, n). (AddChunk (now n) (proto_chunk p) ent, n + 1)) (present (pb_Chunks p)) (?e3, n3) =
      (?e3\<lparr>Chunks := Chunks ?e3 @ map proto_chunk (present (pb_Chunks p)), UpdatedAt := u4\<rparr>, n4)"
    by (rule add_chunks)
  have e: "\<exists>k. e = e1\<lparr>IncomingEdges := IncomingEdges e1 @ map proto_edge (present (pb_IncomingEdges p)),
      OutgoingEdges := OutgoingEdges e1 @ map proto_edge (present (pb_OutgoingEdges p)),
      Chunks := Chunks e1 @ map proto_chunk (present (pb_Chunks p)),
      Importance := pb_Importance p, UpdatedAt := now k\<rparr>"
    unfolding e_def protoToEntity_def Let_def each_present 1 2 3 4 by (auto simp: SetImportance_def)
  have "versions_counted e1" using versions_counted_evolves [OF emb(1) versions_counted_new] .
  then have "versions_counted e" using e by (auto simp: versions_counted_def)
  then show "EntityID e = pb_EntityId p" and "TenantID e = t" and "EntityType e = pb_EntityType p"
    and "map Vector (Embeddings e) = map pb_Vector (present (pb_Embeddings p))" and "versions_counted e"
    and "IncomingEdges e = map proto_edge (present (pb_IncomingEdges p))"
    and "OutgoingEdges e = map proto_edge (present (pb_OutgoingEdges p))"
    and "Chunks e = map proto_chunk (present (pb_Chunks p))" and "Importance e = pb_Importance p"
    and "CreatedAt e = now 0" and "\<exists>k. UpdatedAt e = now k"
    and "(\<forall>k. representable (now k)) \<Longrightarrow> list_all (\<lambda>emb. representable (emb_Timestamp emb)) (Embeddings e)"
    using e emb(2-6) evolves_append_only [OF emb(1)] by (auto simp: NewUnifiedEntity_def)
qed

lemma proto_edge_edge: "representable (edge_Timestamp g) \<Longrightarrow> proto_edge (edge_proto g) = g"
  by (simp add: proto_edge_def edge_proto_def)

text \<open>A message that the encoder accepts.\<close>

definition proto_ok :: "PbEntity \<Rightarrow> string \<Rightarrow> bool" where
  "proto_ok p t \<longleftrightarrow>
     fits32 (pb_EntityId p) \<and> fits32 t \<and> fits32 (pb_EntityType p) \<and>
     fits32 (present (pb_Embeddings p)) \<and> list_all (\<lambda>m. fits32 (pb_Vector m)) (present (pb_Embeddings p)) \<and>
     fits32 (present (pb_IncomingEdges p)) \<and> fits32 (present (pb_OutgoingEdges p)) \<and> fits32 (present (pb_Chunks p)) \<and>
     list_all (\<lambda>g. fits32 (pb_FromEntity g) \<and> fits32 (pb_ToEntity g) \<and> fits32 (pb_Relation g))
       (present (pb_IncomingEdges p) @ present (pb_OutgoingEdges p)) \<and>
     list_all (\<lambda>c. chunk_ok (proto_chunk c)) (present (pb_Chunks p))"

lemma time_Unix0_representable [simp]: "representable (time_Unix0 n)"
  using sint_lt [of n] sint_ge [of n] by (simp add: representable_def time_Unix0_def)

lemma protoToEntity_ok:
  assumes "proto_ok p t" and "\<forall>k. representable (now k)"
  shows "entity_ok (protoToEntity now p t)"
proof -
  let ?e = "protoToEntity now p t"
  note f = protoToEntity_fields [of now p t]
  have len: "length (Embeddings ?e) = length (present (pb_Embeddings p))" using arg_cong [OF f(4), of length] by simp
  have "list_all (\<lambda>v. fits32 v) (map Vector (Embeddings ?e))" using assms(1) unfolding f(4) by (simp add: proto_ok_def list.pred_map comp_def)
  then have "list_all embedding_ok (Embeddings ?e)"
    using f(12) [OF assms(2)] by (auto simp: list_all_iff embedding_ok_def)
  moreover have "representable (UpdatedAt ?e)" using f(11) assms(2) by auto
  ultimately show ?thesis
    using assms len by (auto simp: entity_ok_def f proto_ok_def list_all_iff edge_ok_def proto_edge_def fits32_def)
qed

section \<open>The configuration of the coordinator\<close>

text \<open>What the server relies on: the configuration is a field that writes leave alone.\<close>

locale coordinator_service =
  fixes svc :: "'c CoordinatorService"
  assumes get_update: "cs_GetConfig svc (cs_UpdateConfig svc x c) = x"
    and write_keeps: "cs_GetConfig svc (fst (cs_Write svc k v c)) = cs_GetConfig svc c"
begin

lemma put_keeps_config: "cs_GetConfig svc (fst (fst (rpc_PutEntity svc idx now ctx req (c, i)))) = cs_GetConfig svc c"
  by (auto simp: rpc_PutEntity_def Let_def get_update split: sum.split option.split prod.split)

lemma batch_loop_keeps_config:
  "snd (batch_loop svc idx now t config ps n acc (c, i)) \<noteq> Inl RpcPanic \<Longrightarrow>
     cs_GetConfig svc (fst (fst (batch_loop svc idx now t config ps n acc (c, i)))) = cs_GetConfig svc c"
proof (induction ps arbitrary: n acc c i)
  case (Cons p ps)
  show ?case
  proof (cases p)
    case (Some q)
    show ?thesis
    proof (cases "pb_TenantId q = t")
      case True
      obtain c' res where w: "cs_Write svc (entity_key t (pb_EntityId q)) (Some (entity_enc (protoToEntity (now n) q t)))
          (cs_UpdateConfig svc config c) = (c', res)" by fastforce
      with True Some Cons show ?thesis
        by (auto simp: Let_def get_update split: sum.splits go_error.splits)
    qed (use Some Cons in auto)
  qed (use Cons in auto)
qed auto

lemma batch_keeps_config:
  assumes "snd (rpc_BatchPutEntities svc idx now ctx req (c, i)) \<noteq> Inl RpcPanic"
  shows "cs_GetConfig svc (fst (fst (rpc_BatchPutEntities svc idx now ctx req (c, i)))) = cs_GetConfig svc c"
proof (cases "rpc_tenant ctx")
  case (Inr t)
  have k: "cs_GetConfig svc c1 = cs_GetConfig svc c"
    if "batch_loop svc idx now t (getCoordinatorConfig (cs_GetConfig svc c) (bat_Level req)) (bat_Entities req) 0
        \<lparr>ba_failures = 0, ba_ids = [], ba_lastErr = []\<rparr> (c, i) = ((c1, i1), r)" "r \<noteq> Inl RpcPanic" for c1 i1 r
    using batch_loop_keeps_config [of idx now t "getCoordinatorConfig (cs_GetConfig svc c) (bat_Level req)" "bat_Entities req" 0
        "\<lparr>ba_failures = 0, ba_ids = [], ba_lastErr = []\<rparr>" c i] that by simp
  from assms show ?thesis
    by (auto simp: rpc_BatchPutEntities_def Inr Let_def dest!: k split: sum.splits prod.splits if_splits)
qed (simp add: rpc_BatchPutEntities_def)

text \<open>A put that succeeds: what was written, under which configuration, and what is left.\<close>

lemma put_success:
  assumes "rpc_PutEntity svc idx now ctx req (c, i) = ((c', i'), Inr eid)"
  obtains t p c1 where "ctx = Some t" "t \<noteq> []" "put_Entity req = Some p" "pb_EntityId p = eid" "eid \<noteq> []" "pb_TenantId p = t"
    "cs_Write svc (entity_key t eid) (Some (entity_enc (protoToEntity now p t)))
       (cs_UpdateConfig svc (getCoordinatorConfig (cs_GetConfig svc c) (put_Level req)) c) = (c1, Inr ())"
    "c' = cs_UpdateConfig svc (cs_GetConfig svc c) c1" "i' = index_add idx (protoToEntity now p t) i"
  using assms by (fastforce simp: rpc_PutEntity_def Let_def split: sum.splits option.splits prod.splits if_splits)

end

text \<open>The services the server can be given: the plain coordinator, and the one that stores hints.\<close>

definition coord_service :: "'w Coordinator.writer \<Rightarrow> (nat \<Rightarrow> nat list) \<Rightarrow> (Coordinator \<times> 'w) CoordinatorService" where
  "coord_service wr order =
     \<lparr>cs_Write = (\<lambda>key val (c, w). let (w, res) = coord_Write wr order c key val w in ((c, w), res)),
      cs_GetConfig = (\<lambda>(c, w). GetConfig c), cs_UpdateConfig = (\<lambda>config (c, w). (UpdateConfig config c, w))\<rparr>"

definition handoff_service ::
  "'w Coordinator.writer \<Rightarrow> (nat \<Rightarrow> nat list) \<Rightarrow> time \<Rightarrow> (Coordinator \<times> HintStore \<times> 'w) CoordinatorService" where
  "handoff_service wr order now =
     \<lparr>cs_Write = (\<lambda>key val (c, sw). let (sw, res) = handoff_Write wr order now c key val sw in ((c, sw), res)),
      cs_GetConfig = (\<lambda>(c, sw). GetConfig c), cs_UpdateConfig = (\<lambda>config (c, sw). (UpdateConfig config c, sw))\<rparr>"

interpretation plain: coordinator_service "coord_service wr order"
  by unfold_locales (auto simp: coord_service_def GetConfig_def UpdateConfig_def Let_def split: prod.split)

interpretation hinted: coordinator_service "handoff_service wr order now"
  by unfold_locales (auto simp: handoff_service_def GetConfig_def UpdateConfig_def Let_def split: prod.split)

section \<open>Two puts at a time\<close>

text \<open>
  Each put sets the configuration of the one coordinator, writes, and puts back what it found. The
  steps of puts that run at the same time interleave: \<open>Chosen\<close> after \<^verbatim>\<open>getCoordinatorConfig\<close>, \<open>Saved\<close>
  after \<^verbatim>\<open>GetConfig\<close>, \<open>Applied\<close> after \<^verbatim>\<open>UpdateConfig\<close>, \<open>Written\<close> after the write, with the
  configuration the write ran under, \<open>Ended\<close> after the deferred update.
\<close>

datatype put_phase = Arrived int | Chosen CoordinatorConfig | Saved CoordinatorConfig CoordinatorConfig
  | Applied CoordinatorConfig | Written CoordinatorConfig CoordinatorConfig | Ended CoordinatorConfig

fun put_advance :: "CoordinatorConfig \<Rightarrow> put_phase \<Rightarrow> CoordinatorConfig \<times> put_phase" where
  "put_advance c (Arrived level) = (c, Chosen (getCoordinatorConfig c level))"
| "put_advance c (Chosen new) = (c, Saved new c)"
| "put_advance c (Saved new old) = (new, Applied old)"
| "put_advance c (Applied old) = (c, Written old c)"
| "put_advance c (Written old used) = (old, Ended used)"
| "put_advance c (Ended used) = (c, Ended used)"

inductive puts_step :: "CoordinatorConfig \<times> put_phase list \<Rightarrow> CoordinatorConfig \<times> put_phase list \<Rightarrow> bool" where
  advance: "k < length ps \<Longrightarrow> put_advance c (ps ! k) = (c', p') \<Longrightarrow> puts_step (c, ps) (c', ps[k := p'])"

abbreviation puts_reach :: "CoordinatorConfig \<times> put_phase list \<Rightarrow> CoordinatorConfig \<times> put_phase list \<Rightarrow> bool" where
  "puts_reach \<equiv> puts_step\<^sup>*\<^sup>*"

text \<open>A schedule is the list of the puts that take a step.\<close>

fun run_schedule :: "nat list \<Rightarrow> CoordinatorConfig \<times> put_phase list \<Rightarrow> CoordinatorConfig \<times> put_phase list" where
  "run_schedule [] s = s"
| "run_schedule (k # ks) (c, ps) =
     (let (c', p') = put_advance c (ps ! k) in run_schedule ks (c', ps[k := p']))"

lemma run_schedule_reach: "set ks \<subseteq> {..<length (snd s)} \<Longrightarrow> puts_reach s (run_schedule ks s)"
proof (induction ks s rule: run_schedule.induct)
  case (2 k ks c ps)
  obtain c' p' where a: "put_advance c (ps ! k) = (c', p')" by fastforce
  with 2 have "puts_reach (c', ps[k := p']) (run_schedule ks (c', ps[k := p']))" by auto
  moreover have "puts_step (c, ps) (c', ps[k := p'])" using 2(2) a by (intro advance) auto
  ultimately show ?case using a by (simp add: converse_rtranclp_into_rtranclp)
qed simp

text \<open>One after the other they leave the configuration alone, and each write runs under its own level.\<close>

lemma puts_in_turn:
  "run_schedule (concat (map (\<lambda>k. replicate 5 k) [0..<length levels])) (c, map Arrived levels) =
     (c, map (\<lambda>l. Ended (getCoordinatorConfig c l)) levels)"
proof -
  have five: "run_schedule (replicate 5 k @ ks) (c, ps) = run_schedule ks (c, ps[k := Ended (getCoordinatorConfig c l)])"
    if "k < length ps" "ps ! k = Arrived l" for k ks ps l
    using that by (simp add: numeral_eq_Suc Let_def)
  have "run_schedule (concat (map (\<lambda>k. replicate 5 k) [length done..<length done + length todo]))
      (c, map (\<lambda>l. Ended (getCoordinatorConfig c l)) done @ map Arrived todo) =
      (c, map (\<lambda>l. Ended (getCoordinatorConfig c l)) (done @ todo))" for "done" todo :: "int list"
  proof (induction todo arbitrary: "done")
    case (Cons l todo)
    have turns: "concat (map (replicate 5) [a..<Suc (a + n)]) =
        replicate 5 a @ concat (map (replicate 5) [Suc a..<Suc (a + n)])" for a n
      using upt_conv_Cons [of a "Suc (a + n)"] by (simp del: upt_Suc)
    from Cons [of "done @ [l]"] show ?case
      using five [of "length done" "map (\<lambda>l. Ended (getCoordinatorConfig c l)) done @ map Arrived (l # todo)" l]
      by (simp add: turns nth_append list_update_append del: upt_Suc)
  qed simp
  from this [of "[]"] show ?thesis by simp
qed

text \<open>Puts that overlap can change the cluster's consistency for good: whatever the configuration is,
  a put at level ONE and any other put can be interleaved so that afterwards, with both answered,
  the coordinator keeps quorums of one, and the other write ran under them too.\<close>

theorem quorum_leak:
  "\<exists>s. puts_reach (c, [Arrived CONSISTENCY_ONE, Arrived level]) s \<and>
     s = (c\<lparr>ReadQuorum := 1, WriteQuorum := 1\<rparr>,
          [Ended (c\<lparr>ReadQuorum := 1, WriteQuorum := 1\<rparr>), Ended (getCoordinatorConfig (c\<lparr>ReadQuorum := 1, WriteQuorum := 1\<rparr>) level)])"
proof -
  have "run_schedule [0, 0, 0, 1, 1, 0, 0, 1, 1, 1] (c, [Arrived CONSISTENCY_ONE, Arrived level]) =
      (c\<lparr>ReadQuorum := 1, WriteQuorum := 1\<rparr>,
        [Ended (c\<lparr>ReadQuorum := 1, WriteQuorum := 1\<rparr>), Ended (getCoordinatorConfig (c\<lparr>ReadQuorum := 1, WriteQuorum := 1\<rparr>) level)])"
    by (simp add: Let_def getCoordinatorConfig_def [of c CONSISTENCY_ONE])
  with run_schedule_reach [of "[0, 0, 0, 1, 1, 0, 0, 1, 1, 1]" "(c, [Arrived CONSISTENCY_ONE, Arrived level])"]
  show ?thesis by auto
qed

section \<open>Pages\<close>

lemma Atoi_decimal: "n < 2 ^ 63 \<Longrightarrow> Atoi (decimal n) = Some (int n)"
proof -
  assume "n < 2 ^ 63"
  moreover obtain c cs where d: "decimal n = c # cs" by (cases "decimal n") auto
  moreover have "is_digit c" using decimal_digits [of n] d by simp
  then have "c \<noteq> CHR ''-''" "c \<noteq> CHR ''+''" by (auto simp: is_digit_def)
  moreover have "int n < 2 ^ 63" using \<open>n < 2 ^ 63\<close> of_nat_less_iff [of n "2 ^ 63", where 'a = int] by simp
  ultimately show ?thesis using decimal_digits [of n] undecimal_decimal [of n] by (simp add: Atoi_def)
qed

text \<open>A client that asks for page after page until there is no further token.\<close>

fun all_pages :: "(string \<Rightarrow> ScanResponse rpc) \<Rightarrow> nat \<Rightarrow> string \<Rightarrow> PbEntity list option" where
  "all_pages ask 0 token = None"
| "all_pages ask (Suc fuel) token =
     (case ask token of
        Inl e \<Rightarrow> None
      | Inr r \<Rightarrow> if scr_NextPageToken r = [] then Some (scr_Entities r)
                else map_option ((@) (scr_Entities r)) (all_pages ask fuel (scr_NextPageToken r)))"

lemma pages_from:
  assumes "\<And>token. ask token = Inr (scan_page data (scan_offset token) limit)"
    and "limit > 0" and "length data < 2 ^ 63" and "n \<le> length data" and "scan_offset token = int n"
    and "length data - n < fuel"
  shows "all_pages ask fuel token =
    Some (map (\<lambda>k. entityToProto (the (map_of data k))) (drop n (sort_Slice (<) (map fst data))))"
  using assms(4-)
proof (induction fuel arbitrary: n token)
  case (Suc fuel)
  let ?keys = "sort_Slice (<) (map fst data)"
  let ?f = "\<lambda>k. entityToProto (the (map_of data k))"
  show ?case
  proof (cases "int n + limit \<ge> int (length data)")
    case True
    with Suc.prems(1,2) show ?thesis
      by (auto simp: assms(1) scan_page_def Let_def nat_diff_distrib)
  next
    case False
    define m where "m = nat (int n + limit)"
    have m: "n < m" "m < length data" "int n + limit = int m" using False assms(2) by (auto simp: m_def)
    have page: "ask token = Inr \<lparr>scr_Entities = map ?f (take (m - n) (drop n ?keys)), scr_NextPageToken = decimal m\<rparr>"
      using m Suc.prems by (simp add: assms(1) scan_page_def Let_def)
    have "scan_offset (decimal m) = int m" using m(2) assms(3) by (simp add: scan_offset_def Atoi_decimal)
    then have "all_pages ask fuel (decimal m) = Some (map ?f (drop m ?keys))"
      using m Suc.prems by (intro Suc.IH) auto
    moreover have "take (m - n) (drop n ?keys) @ drop m ?keys = drop n ?keys"
      using append_take_drop_id [of "m - n" "drop n ?keys"] m(1) by simp
    ultimately show ?thesis by (simp add: page flip: map_append)
  qed
qed simp

section \<open>Properties\<close>

lemma entityToProto_fields:
  "pb_EntityId (entityToProto e) = EntityID e" "pb_EntityType (entityToProto e) = EntityType e"
  "pb_TenantId (entityToProto e) = TenantID e" "pb_Importance (entityToProto e) = Importance e"
  "map pb_Vector (present (pb_Embeddings (entityToProto e))) = map Vector (Embeddings e)"
  "map proto_chunk (present (pb_Chunks (entityToProto e))) = Chunks e"
  "present (pb_IncomingEdges (entityToProto e)) = map edge_proto (IncomingEdges e)"
  "present (pb_OutgoingEdges (entityToProto e)) = map edge_proto (OutgoingEdges e)"
  by (simp_all add: entityToProto_def proto_chunk_def comp_def map_idI)

text \<open>An entity that comes back from the service can be put again: the message made from an entity
  turns into the same entity, up to the clock: edges, chunks, vectors with their versions,
  importance, id and type are kept, while creation time, update time and the times of the
  embeddings are the server's own.\<close>

theorem proto_roundtrip:
  assumes "versions_counted e" and "\<forall>g\<in>set (IncomingEdges e) \<union> set (OutgoingEdges e). representable (edge_Timestamp g)"
  shows "\<exists>stamps u. protoToEntity now (entityToProto e) (TenantID e) =
    e\<lparr>Embeddings := map (\<lambda>(emb, ts). emb\<lparr>emb_Timestamp := ts\<rparr>) (zip (Embeddings e) stamps),
      CreatedAt := now 0, UpdatedAt := now u\<rparr> \<and> length stamps = length (Embeddings e)"
proof -
  let ?e = "protoToEntity now (entityToProto e) (TenantID e)"
  note f = protoToEntity_fields [of now "entityToProto e" "TenantID e"]
  have edges: "map proto_edge (map edge_proto gs) = gs" if "\<forall>g\<in>set gs. representable (edge_Timestamp g)" for gs
    using that by (induction gs) (auto simp: proto_edge_edge)
  have vecs: "map Vector (Embeddings ?e) = map Vector (Embeddings e)" by (simp only: f(4) entityToProto_fields)
  then have len: "length (Embeddings ?e) = length (Embeddings e)" using map_eq_imp_length_eq by blast
  have vers: "map Version (Embeddings ?e) = map Version (Embeddings e)"
    using f(5) assms(1) by (simp add: versions_counted_def len)
  let ?st = "map emb_Timestamp (Embeddings ?e)"
  have "Embeddings ?e = map (\<lambda>(emb, ts). emb\<lparr>emb_Timestamp := ts\<rparr>) (zip (Embeddings e) ?st)"
  proof (rule nth_equalityI)
    fix i assume "i < length (Embeddings ?e)"
    then show "Embeddings ?e ! i = map (\<lambda>(emb, ts). emb\<lparr>emb_Timestamp := ts\<rparr>) (zip (Embeddings e) ?st) ! i"
      using len arg_cong [OF vecs, of "\<lambda>xs. xs ! i"] arg_cong [OF vers, of "\<lambda>xs. xs ! i"] by simp
  qed (simp add: len)
  moreover have "Chunks ?e = Chunks e" by (simp only: f(8) entityToProto_fields)
  moreover have "IncomingEdges ?e = IncomingEdges e" "OutgoingEdges ?e = OutgoingEdges e"
    using edges assms(2) by (simp_all only: f(6,7) entityToProto_fields) blast+
  moreover obtain u where "UpdatedAt ?e = now u" using f(11) by blast
  ultimately show ?thesis using len
    by (intro exI [of _ ?st] exI [of _ u] conjI) (simp_all add: f(1-3,9,10) entityToProto_fields)
qed

lemma proto_roundtrip_witness:
  "\<exists>stamps u. protoToEntity (\<lambda>n. 100 + int n) (entityToProto sample_entity) (TenantID sample_entity) =
    sample_entity\<lparr>Embeddings := map (\<lambda>(emb, ts). emb\<lparr>emb_Timestamp := ts\<rparr>) (zip (Embeddings sample_entity) stamps),
      CreatedAt := 100, UpdatedAt := 100 + int u\<rparr>"
proof -
  have "versions_counted sample_entity"
    by (simp add: versions_counted_def sample_entity_def)
  moreover have "\<forall>g\<in>set (IncomingEdges sample_entity) \<union> set (OutgoingEdges sample_entity). representable (edge_Timestamp g)"
    using sample_entity_ok by (auto simp: entity_ok_def edge_ok_def list_all_iff)
  ultimately show ?thesis using proto_roundtrip [of sample_entity "\<lambda>n. 100 + int n"] by auto
qed

text \<open>C26. What a put acknowledged is there to read: when the level of the put and the read quorum together
  exceed the replicas, every later read that succeeds has among its responses bytes that decode to the entity of the request under the
  caller's tenant, as long as no other write reaches its key; and the put leaves the coordinator's configuration as it was.\<close>

theorem put_then_read:
  assumes "replica_client rd wrt" and "orders order"
    and "rpc_PutEntity (coord_service wrt order) idx now ctx req ((co, w), i) = (((co', w'), i'), Inr eid)"
    and "put_Entity req = Some p" and "proto_ok p (pb_TenantId p)" and "\<forall>k. representable (now k)"
    and "ReadQuorum (co_config co) + WriteQuorum (getCoordinatorConfig (co_config co) (put_Level req)) > ReplicaCount (co_config co)"
    and "ReplicaCount (co_config co) \<ge> 0"
    and "\<forall>n. rd n (entity_key (pb_TenantId p) eid) w'' = rd n (entity_key (pb_TenantId p) eid) w' \<or>
      (\<exists>e. rd n (entity_key (pb_TenantId p) eid) w'' = Inl e)"
    and "ReadWithResponses rd (co'\<lparr>co_gossip := g\<rparr>) (entity_key (pb_TenantId p) eid) w'' = Inr rs"
  shows "ctx = Some (pb_TenantId p) \<and> co' = co \<and>
    (\<exists>r\<in>set rs. \<exists>bs ent. Success r \<and> rsp_Value r = Some bs \<and> entity_FromBytes bs = Inr ent \<and>
       ent = protoToEntity now p (pb_TenantId p) \<and> EntityID ent = eid \<and> TenantID ent = pb_TenantId p)"
proof -
  let ?cfg = "getCoordinatorConfig (co_config co) (put_Level req)" and ?t = "pb_TenantId p"
  let ?ent = "protoToEntity now p ?t"
  obtain c1 where ctx: "ctx = Some ?t" and eid: "pb_EntityId p = eid"
    and wrote: "cs_Write (coord_service wrt order) (entity_key ?t eid) (Some (entity_enc ?ent))
       (cs_UpdateConfig (coord_service wrt order) (getCoordinatorConfig (cs_GetConfig (coord_service wrt order) (co, w)) (put_Level req)) (co, w))
      = (c1, Inr ())"
    and c': "(co', w') = cs_UpdateConfig (coord_service wrt order) (cs_GetConfig (coord_service wrt order) (co, w)) c1"
    using plain.put_success [OF assms(3)] assms(4) by (metis option.inject)
  have w: "coord_Write wrt order (co\<lparr>co_config := ?cfg\<rparr>) (entity_key ?t eid) (Some (entity_enc ?ent)) w = (w', Inr ())"
    and co: "co' = co"
    using wrote c' by (auto simp: coord_service_def GetConfig_def UpdateConfig_def Let_def split: prod.splits)
  have "ReplicaCount ?cfg = ReplicaCount (co_config co)" by (simp add: getCoordinatorConfig_def)
  with overlapping_quorums [OF assms(1,2) w, where c' = "co\<lparr>co_gossip := g\<rparr>" and w'' = w'' and rs = rs] assms(7-10)
  obtain r where "r \<in> set rs" "Success r" "rsp_Value r = Some (entity_enc ?ent)" by (auto simp: co)
  moreover have "entity_FromBytes (entity_enc ?ent) = Inr ?ent"
    using entity_FromBytes_append [OF protoToEntity_ok [OF assms(5,6)], of "[]"] by simp
  ultimately show ?thesis using ctx co eid protoToEntity_fields(1,2) [of now p ?t] by auto
qed

text \<open>C27. Paging is complete: as long as the data stay the same, a client that follows the page tokens
  until there is none gets exactly the entities the storage service returns for the range, each once, in the order of their keys, after at most one page
  more than there are entities, whatever the page size.\<close>

theorem scan_pages:
  assumes "RangeScan (sc_StartKey req) (sc_EndKey req) t svc = Inr data" and "length data < 2 ^ 63"
    and "t = (if sc_TenantId req = [] then the ctx else sc_TenantId req)" and "t \<noteq> []" and "sc_TenantId req = [] \<longrightarrow> ctx \<noteq> None"
    and "sc_NodeId req = [] \<or> localNode = [] \<or> sc_NodeId req = localNode"
  shows "all_pages (\<lambda>token. rpc_RangeScan (Some (\<lambda>a b t. RangeScan a b t svc)) localNode lookup remote ctx
      (req\<lparr>sc_PageToken := token\<rparr>)) (length data + 1) [] =
    Some (map (\<lambda>k. entityToProto (the (map_of data k))) (sort_Slice (<) (map fst data)))"
proof -
  let ?limit = "if sc_Limit req \<le> 0 then 100 else sc_Limit req"
  have "rpc_RangeScan (Some (\<lambda>a b t. RangeScan a b t svc)) localNode lookup remote ctx (req\<lparr>sc_PageToken := token\<rparr>) =
      Inr (scan_page data (scan_offset token) ?limit)" for token
  proof -
    have "(if sc_TenantId req = [] then rpc_tenant ctx else Inr (sc_TenantId req)) = Inr t"
      using assms(3-5) by auto
    with assms(1,6) show ?thesis by (auto simp: rpc_RangeScan_def Let_def rpc_status_def simp del: rpc_tenant_Inr)
  qed
  from pages_from [OF this _ assms(2), of 0 "[]" "length data + 1"] show ?thesis
    by (simp only: scan_offset_def) simp
qed

text \<open>Two entities in memory, one per page.\<close>

definition sample_two :: StorageService where
  "sample_two = sample_loaded\<lparr>ss_memtable := memtable_Put sample_other (ss_memtable sample_loaded)\<rparr>"

definition sample_scan :: ScanRequest where
  "sample_scan = \<lparr>sc_TenantId = ''acme'', sc_StartKey = ''a'', sc_EndKey = [], sc_Limit = 1, sc_PageToken = [], sc_NodeId = []\<rparr>"

lemma scan_pages_witness:
  "all_pages (\<lambda>token. rpc_RangeScan (Some (\<lambda>a b t. RangeScan a b t sample_two)) ''n1'' None (\<lambda>_ _. Inl RpcPanic) None
      (sample_scan\<lparr>sc_PageToken := token\<rparr>)) 3 [] = Some [entityToProto sample_entity, entityToProto sample_other]"
proof -
  have less: "''doc1'' \<noteq> ''doc2''" "''a'' < ''doc1''" "''a'' < ''doc2''" "''doc1'' < ''doc2''" by simp_all
  have r: "inRange ''doc1'' ''a'' []" "inRange ''doc2'' ''a'' []" using less by (simp_all add: inRange_def)
  have other: "EntityID sample_other = ''doc2''" "TenantID sample_other = ''acme''"
    by (simp_all add: sample_other_def)
  have data: "mt_data (ss_memtable sample_two) = [(''doc1'', [sample_entity]), (''doc2'', [sample_other])]"
    by (simp add: sample_two_def sample_loaded_def mt_Put_def rows_at_def Let_def other)
  have mem: "scan_memtable ''a'' [] ''acme'' sample_two = [(''doc1'', sample_entity), (''doc2'', sample_other)]"
    by (simp add: scan_memtable_def mt_GetAllEntities_def data mt_Get_def r other rows_at_def Let_def)
  have dir: "ss_dir sample_two = []" by (simp add: sample_two_def sample_loaded_def)
  have scan: "RangeScan (sc_StartKey sample_scan) (sc_EndKey sample_scan) ''acme'' sample_two =
      Inr [(''doc1'', sample_entity), (''doc2'', sample_other)]"
    by (simp add: RangeScan_def sample_scan_def mem dir table_files_def glob_names_def)
  have s: "sort_Slice (<) (map fst [(''doc1'', sample_entity), (''doc2'', sample_other)]) = [''doc1'', ''doc2'']"
    using less(4) by (simp add: sort_Slice_id)
  have n: "length [(''doc1'', sample_entity), (''doc2'', sample_other)] + 1 = 3" by simp
  have "all_pages (\<lambda>token. rpc_RangeScan (Some (\<lambda>a b t. RangeScan a b t sample_two)) ''n1'' None (\<lambda>_ _. Inl RpcPanic) None
      (sample_scan\<lparr>sc_PageToken := token\<rparr>)) (length [(''doc1'', sample_entity), (''doc2'', sample_other)] + 1) [] =
    Some (map (\<lambda>k. entityToProto (the (map_of [(''doc1'', sample_entity), (''doc2'', sample_other)] k)))
      (sort_Slice (<) (map fst [(''doc1'', sample_entity), (''doc2'', sample_other)])))"
    by (rule scan_pages [OF scan]) (simp_all add: sample_scan_def)
  then show ?thesis unfolding s n using less(1) by simp
qed

definition sample_coordinator :: Coordinator where
  "sample_coordinator = NewCoordinator (start_ring 1 1 ''n1'') None (majority_config 1 1)"

definition sample_put :: PutRequest where
  "sample_put = \<lparr>put_Entity = Some (entityToProto sample_entity), put_Level = CONSISTENCY_ALL\<rparr>"

lemma put_then_read_witness:
  "\<exists>ci w rs. rpc_PutEntity (coord_service mock_Write (\<lambda>n. [0..<n])) None (\<lambda>n. 100) (Some ''acme'') sample_put
      ((sample_coordinator, NewMockReplicaClient), ()) = (((sample_coordinator, w), ci), Inr ''doc1'') \<and>
    ReadWithResponses mock_Read sample_coordinator (entity_key ''acme'' ''doc1'') w = Inr rs \<and>
    (\<exists>r\<in>set rs. \<exists>bs ent. rsp_Value r = Some bs \<and> entity_FromBytes bs = Inr ent \<and> EntityID ent = ''doc1'')"
proof -
  let ?svc = "coord_service mock_Write (\<lambda>n. [0..<n])" and ?c = sample_coordinator and ?k = "entity_key ''acme'' ''doc1''"
  let ?bs = "entity_enc (protoToEntity (\<lambda>n. 100) (entityToProto sample_entity) ''acme'')"
  have c: "selectReplicas ?c ?k = Inr [''n1'']" "filterAliveNodes ?c [''n1''] = [''n1'']" "co_gossip ?c = None"
    "ReadQuorum (co_config ?c) = 1" "WriteQuorum (co_config ?c) = 1" "ReplicaCount (co_config ?c) = 1"
    by (simp_all add: sample_coordinator_def NewCoordinator_def selectReplicas_def filterAliveNodes_def majority_config_def)
  have cfg: "getCoordinatorConfig (co_config ?c) CONSISTENCY_ALL = co_config ?c"
    by (simp add: getCoordinatorConfig_def CONSISTENCY_ONE_def CONSISTENCY_QUORUM_def CONSISTENCY_ALL_def c flip: c(6))
  have p: "pb_TenantId (entityToProto sample_entity) = ''acme''" "pb_EntityId (entityToProto sample_entity) = ''doc1''"
    by (simp_all add: entityToProto_fields)
  define w where "w = fst (coord_Write mock_Write (\<lambda>n. [0..<n]) ?c ?k (Some ?bs) NewMockReplicaClient)"
  have "snd (coord_Write mock_Write (\<lambda>n. [0..<n]) ?c ?k (Some ?bs) NewMockReplicaClient) = Inr ()"
    by (simp add: coord_Write_def c writeToReplicas_def mock_Write_def NewMockReplicaClient_def waitForQuorum_def Let_def)
  then have wrote: "coord_Write mock_Write (\<lambda>n. [0..<n]) ?c ?k (Some ?bs) NewMockReplicaClient = (w, Inr ())"
    by (simp add: w_def prod_eq_iff)
  have put: "rpc_PutEntity ?svc None (\<lambda>n. 100) (Some ''acme'') sample_put ((?c, NewMockReplicaClient), ()) =
      (((?c, w), ()), Inr ''doc1'')"
    by (simp add: rpc_PutEntity_def sample_put_def p coord_service_def GetConfig_def UpdateConfig_def cfg wrote Let_def
        index_add_def rpc_tenant_def rpc_status_def tenant_RequireTenant_def TenantFromContext_def ctx_GetTenantID_def)
  have "\<exists>v. mock_Read ''n1'' ?k w = Inr v" by (auto simp: mock_Read_def split: option.splits)
  then obtain v where v: "mock_Read ''n1'' ?k w = Inr v" by blast
  have read: "ReadWithResponses mock_Read (?c\<lparr>co_gossip := None\<rparr>) ?k w = Inr [read_response mock_Read ?k w ''n1'']"
    using c by (simp add: ReadWithResponses_def filterAliveNodes_def readFromReplicas_def read_response_def
        waitForQuorum_def Let_def v)
  have ok: "proto_ok (entityToProto sample_entity) ''acme''"
    by (simp add: proto_ok_def entityToProto_def sample_entity_def sample_edge_def edge_proto_def proto_chunk_def chunk_ok_def fits32_def)
  have "\<exists>r\<in>set [read_response mock_Read ?k w ''n1'']. \<exists>bs ent. rsp_Value r = Some bs \<and> entity_FromBytes bs = Inr ent \<and> EntityID ent = ''doc1''"
    using put_then_read [OF mock.replica_client_axioms orders_upt put, where p = "entityToProto sample_entity" and w'' = w
        and g = None and rs = "[read_response mock_Read ?k w ''n1'']"] read ok
    by (simp add: p sample_put_def cfg c representable_def) blast
  moreover have "ReadWithResponses mock_Read ?c ?k w = Inr [read_response mock_Read ?k w ''n1'']"
    using read by (simp add: sample_coordinator_def NewCoordinator_def)
  ultimately show ?thesis using put by blast
qed

section \<open>Whose data a caller reaches\<close>

text \<open>The key of an entity names its tenant only if tenants have no colon.\<close>

lemma entity_key_inject:
  "CHR '':'' \<notin> set t \<Longrightarrow> CHR '':'' \<notin> set t' \<Longrightarrow> entity_key t e = entity_key t' e' \<longleftrightarrow> t = t' \<and> e = e'"
  by (auto simp: entity_key_def append_eq_append_conv2 append_eq_Cons_conv Cons_eq_append_conv)

lemma entity_key_clash: "entity_key ''a'' ''b:c'' = entity_key ''a:b'' ''c''"
  by (simp add: entity_key_def)

text \<open>A query answers only with entities of the caller's tenant.\<close>

lemma query_tenant_only:
  "rpc_Query exec ctx req = Inr (rs, tr, n) \<Longrightarrow>
     (\<exists>t. ctx = Some t \<and> t \<noteq> [] \<and> list_all (\<lambda>r. \<exists>p. pqr_Entity r = Some p \<and> pb_TenantId p = t) rs)"
  by (auto simp: rpc_Query_def rpc_bind_Inr Let_def list_all_iff entityToProto_fields split: if_splits option.splits)

text \<open>A scan names its tenant itself: whoever calls it, with or without a tenant of its own, gets that tenant's data.\<close>

lemma scan_any_tenant:
  "sc_TenantId req \<noteq> [] \<Longrightarrow> rpc_RangeScan scanner localNode lookup remote ctx req =
     rpc_RangeScan scanner localNode lookup remote ctx' req"
  by (simp add: rpc_RangeScan_def)

text \<open>A scan that relies on the caller's tenant cannot be sent on: the other node finds none.\<close>

lemma forwarded_scan_fails:
  assumes "sc_TenantId req = []" and "sc_NodeId req \<noteq> []" and "localNode \<noteq> []" and "sc_NodeId req \<noteq> localNode"
    and "lookup (sc_NodeId req) = Some addr" and "ctx = Some t" and "t \<noteq> []" and "other \<noteq> None"
  shows "rpc_RangeScan (Some scan) localNode (Some lookup) (\<lambda>addr. rpc_RangeScan other addr look rem None) ctx req =
    Inl (Status Unauthenticated ''tenant required: %v'')"
  using assms by (auto simp: rpc_RangeScan_def rpc_tenant_def rpc_status_def tenant_RequireTenant_def TenantFromContext_def
      ctx_GetTenantID_def Let_def)

end
