(* ===== verification/Soft_Float.thy ===== *)
theory Soft_Float
  imports Complex_Main Alli_Prelude
begin

text \<open>
  The floating-point numbers of Go: IEEE-754 binary32 and binary64 with round to nearest, ties to even.
  A number is kept as its value, an exact rational with its sign, so that a \<^verbatim>\<open>float32\<close>
  converts to \<^verbatim>\<open>float64\<close> unchanged; every operation computes exactly and rounds once. The code
  runs on amd64, where the compiler does not fuse a product into a sum. The theory also holds the integer square
  root behind \<^verbatim>\<open>math.Sqrt\<close> (correctly rounded) and the order that sorting by a
  float uses. The payload of a NaN is not kept.
\<close>

section \<open>Values\<close>

datatype fl = NaN | Infinite bool | Finite bool rat

datatype fl_format = F32 | F64

fun fl_prec :: "fl_format \<Rightarrow> int" where
  "fl_prec F32 = 24"
| "fl_prec F64 = 53"

fun fl_qmin :: "fl_format \<Rightarrow> int" where
  "fl_qmin F32 = -149"
| "fl_qmin F64 = -1074"

fun fl_emax :: "fl_format \<Rightarrow> int" where
  "fl_emax F32 = 127"
| "fl_emax F64 = 1023"

fun fl_val :: "fl \<Rightarrow> rat" where
  "fl_val (Finite s r) = (if s then - r else r)"
| "fl_val _ = 0"

fun is_nan :: "fl \<Rightarrow> bool" where
  "is_nan NaN = True"
| "is_nan _ = False"

fun is_finite :: "fl \<Rightarrow> bool" where
  "is_finite (Finite s r) = True"
| "is_finite _ = False"

section \<open>Rounding\<close>

definition pow2 :: "int \<Rightarrow> rat" where
  "pow2 k = (if 0 \<le> k then 2 ^ nat k else 1 / 2 ^ nat (- k))"

function bitlen :: "int \<Rightarrow> int" where
  "bitlen n = (if n \<le> 0 then 0 else bitlen (n div 2) + 1)"
  by auto
termination by (relation "measure nat") auto

declare bitlen.simps [simp del]

text \<open>The exponent of the leading bit of a positive rational.\<close>

definition ilog2 :: "rat \<Rightarrow> int" where
  "ilog2 q = (let (n, d) = quotient_of q; k = bitlen n - bitlen d
              in if pow2 k \<le> q then k else k - 1)"

definition half_even :: "rat \<Rightarrow> int" where
  "half_even x = (let f = \<lfloor>x\<rfloor>; r = x - of_int f
                  in if r < 1 / 2 then f else if 1 / 2 < r then f + 1 else if even f then f else f + 1)"

definition rounded :: "fl_format \<Rightarrow> rat \<Rightarrow> rat" where
  "rounded fm q = (let u = max (ilog2 q - fl_prec fm + 1) (fl_qmin fm)
                   in of_int (half_even (q / pow2 u)) * pow2 u)"

definition fl_pack :: "fl_format \<Rightarrow> bool \<Rightarrow> rat \<Rightarrow> fl" where
  "fl_pack fm s q = (if q = 0 then Finite s 0
                     else let r = rounded fm q in if pow2 (fl_emax fm + 1) \<le> r then Infinite s else Finite s r)"

definition fl_of_rat :: "fl_format \<Rightarrow> rat \<Rightarrow> fl" where
  "fl_of_rat fm q = fl_pack fm (q < 0) \<bar>q\<bar>"

section \<open>Arithmetic\<close>

fun fl_neg :: "fl \<Rightarrow> fl" where
  "fl_neg NaN = NaN"
| "fl_neg (Infinite s) = Infinite (\<not> s)"
| "fl_neg (Finite s r) = Finite (\<not> s) r"

fun fl_add :: "fl_format \<Rightarrow> fl \<Rightarrow> fl \<Rightarrow> fl" where
  "fl_add fm (Finite s a) (Finite t b) =
     (let v = fl_val (Finite s a) + fl_val (Finite t b)
      in if v = 0 then Finite (s \<and> t) 0 else fl_of_rat fm v)"
| "fl_add fm (Infinite s) (Infinite t) = (if s = t then Infinite s else NaN)"
| "fl_add fm (Infinite s) (Finite t b) = Infinite s"
| "fl_add fm (Finite s a) (Infinite t) = Infinite t"
| "fl_add fm _ _ = NaN"

definition fl_sub :: "fl_format \<Rightarrow> fl \<Rightarrow> fl \<Rightarrow> fl" where
  "fl_sub fm x y = fl_add fm x (fl_neg y)"

fun fl_mul :: "fl_format \<Rightarrow> fl \<Rightarrow> fl \<Rightarrow> fl" where
  "fl_mul fm (Finite s a) (Finite t b) = fl_pack fm (s \<noteq> t) (a * b)"
| "fl_mul fm (Infinite s) (Infinite t) = Infinite (s \<noteq> t)"
| "fl_mul fm (Infinite s) (Finite t b) = (if b = 0 then NaN else Infinite (s \<noteq> t))"
| "fl_mul fm (Finite s a) (Infinite t) = (if a = 0 then NaN else Infinite (s \<noteq> t))"
| "fl_mul fm _ _ = NaN"

fun fl_div :: "fl_format \<Rightarrow> fl \<Rightarrow> fl \<Rightarrow> fl" where
  "fl_div fm (Finite s a) (Finite t b) =
     (if b = 0 then if a = 0 then NaN else Infinite (s \<noteq> t) else fl_pack fm (s \<noteq> t) (a / b))"
| "fl_div fm (Infinite s) (Finite t b) = Infinite (s \<noteq> t)"
| "fl_div fm (Finite s a) (Infinite t) = Finite (s \<noteq> t) 0"
| "fl_div fm _ _ = NaN"

function isqrt :: "int \<Rightarrow> int" where
  "isqrt n = (if n \<le> 0 then 0
              else let r = 2 * isqrt (n div 4) in if (r + 1) * (r + 1) \<le> n then r + 1 else r)"
  by auto
termination by (relation "measure nat") auto

declare isqrt.simps [simp del]

text \<open>A root with more bits than the format, and one bit that says whether it is exact.\<close>

definition sqrt_approx :: "fl_format \<Rightarrow> rat \<Rightarrow> rat" where
  "sqrt_approx fm a =
     (let t = fl_prec fm + 3 - ilog2 a div 2; A = a * pow2 (2 * t); s = isqrt \<lfloor>A\<rfloor>
      in (2 * of_int s + (if of_int (s * s) = A then 0 else 1)) * pow2 (- t - 1))"

fun fl_sqrt :: "fl_format \<Rightarrow> fl \<Rightarrow> fl" where
  "fl_sqrt fm NaN = NaN"
| "fl_sqrt fm (Infinite s) = (if s then NaN else Infinite False)"
| "fl_sqrt fm (Finite s a) = (if a = 0 then Finite s 0 else if s then NaN else fl_pack fm False (sqrt_approx fm a))"

text \<open>Conversion between the formats, as \<^verbatim>\<open>float32(x)\<close> and \<^verbatim>\<open>float64(x)\<close>.\<close>

fun fl_conv :: "fl_format \<Rightarrow> fl \<Rightarrow> fl" where
  "fl_conv fm (Finite s a) = fl_pack fm s a"
| "fl_conv fm x = x"

section \<open>Comparison\<close>

fun fl_lt :: "fl \<Rightarrow> fl \<Rightarrow> bool" where
  "fl_lt (Finite s a) (Finite t b) \<longleftrightarrow> fl_val (Finite s a) < fl_val (Finite t b)"
| "fl_lt (Infinite s) (Infinite t) \<longleftrightarrow> s \<and> \<not> t"
| "fl_lt (Infinite s) (Finite t b) \<longleftrightarrow> s"
| "fl_lt (Finite s a) (Infinite t) \<longleftrightarrow> \<not> t"
| "fl_lt _ _ \<longleftrightarrow> False"

fun fl_eq :: "fl \<Rightarrow> fl \<Rightarrow> bool" where
  "fl_eq (Finite s a) (Finite t b) \<longleftrightarrow> fl_val (Finite s a) = fl_val (Finite t b)"
| "fl_eq (Infinite s) (Infinite t) \<longleftrightarrow> s = t"
| "fl_eq _ _ \<longleftrightarrow> False"

abbreviation "fl_gt x y \<equiv> fl_lt y x"

abbreviation "fl_0 \<equiv> Finite False 0"
abbreviation "fl_1 \<equiv> Finite False 1"

section \<open>Bits\<close>

text \<open>\<^verbatim>\<open>math.Float32frombits\<close> and the 64-bit one, and the bits of a number.\<close>

definition fl_of_parts :: "fl_format \<Rightarrow> bool \<Rightarrow> int \<Rightarrow> int \<Rightarrow> fl" where
  "fl_of_parts fm s e f =
     (if e = 2 * fl_emax fm + 1 then if f = 0 then Infinite s else NaN
      else if e = 0 then Finite s (of_int f * pow2 (fl_qmin fm))
      else Finite s (of_int (2 ^ nat (fl_prec fm - 1) + f) * pow2 (fl_qmin fm + e - 1)))"

definition fl_of_bits32 :: "float32 \<Rightarrow> fl" where
  "fl_of_bits32 w = (let n = uint w in fl_of_parts F32 (2 ^ 31 \<le> n) (n div 2 ^ 23 mod 2 ^ 8) (n mod 2 ^ 23))"

definition fl_of_bits64 :: "float64 \<Rightarrow> fl" where
  "fl_of_bits64 w = (let n = uint w in fl_of_parts F64 (2 ^ 63 \<le> n) (n div 2 ^ 52 mod 2 ^ 11) (n mod 2 ^ 52))"

fun fl_bits64 :: "fl \<Rightarrow> float64" where
  "fl_bits64 NaN = 0x7FF8000000000001"
| "fl_bits64 (Infinite s) = (if s then 0xFFF0000000000000 else 0x7FF0000000000000)"
| "fl_bits64 (Finite s a) =
     word_of_int ((if s then 2 ^ 63 else 0) +
       (if a < pow2 (-1022) then \<lfloor>a / pow2 (-1074)\<rfloor>
        else let e = ilog2 a in (e + 1023) * 2 ^ 52 + (\<lfloor>a / pow2 (e - 52)\<rfloor> - 2 ^ 52)))"

section \<open>Powers of two and the leading bit\<close>

lemma pow2_pos [simp]: "0 < pow2 k" "0 \<le> pow2 k" "pow2 k \<noteq> 0"
  by (simp_all add: pow2_def)

lemma pow2_0 [simp]: "pow2 0 = 1"
  by (simp add: pow2_def)

lemma pow2_powi: "pow2 k = 2 powi k"
  by (auto simp: pow2_def power_int_def power_one_over inverse_eq_divide)

lemma pow2_add: "pow2 (a + b) = pow2 a * pow2 b"
  by (simp add: pow2_powi power_int_add)

lemma pow2_diff: "pow2 (a - b) = pow2 a / pow2 b"
  by (simp add: pow2_powi power_int_diff)

lemma pow2_mono: "a \<le> b \<Longrightarrow> pow2 a \<le> pow2 b"
  by (simp add: pow2_powi power_int_increasing)

lemma pow2_less: "pow2 a < pow2 b \<longleftrightarrow> a < b"
proof (cases "a < b")
  case True
  then show ?thesis by (simp add: pow2_powi power_int_strict_increasing)
next
  case False
  then have "pow2 b \<le> pow2 a" by (intro pow2_mono) simp
  with False show ?thesis by simp
qed

lemma pow2_nat: "0 \<le> k \<Longrightarrow> pow2 k = of_int (2 ^ nat k)"
  by (simp add: pow2_def)

lemma bitlen_bounds: "0 < n \<Longrightarrow> 0 < bitlen n \<and> pow2 (bitlen n - 1) \<le> of_int n \<and> of_int n < pow2 (bitlen n)"
proof (induction n rule: bitlen.induct)
  case (1 n)
  show ?case
  proof (cases "n = 1")
    case True
    then show ?thesis by (simp add: bitlen.simps pow2_def)
  next
    case False
    with 1 have IH: "0 < bitlen (n div 2)" "pow2 (bitlen (n div 2) - 1) \<le> of_int (n div 2)"
        "of_int (n div 2) < pow2 (bitlen (n div 2))" and b: "bitlen n = bitlen (n div 2) + 1"
      by (simp_all add: bitlen.simps [of n])
    let ?k = "bitlen (n div 2)"
    from IH have "(of_int (2 ^ nat (?k - 1)) :: rat) \<le> of_int (n div 2)" "(of_int (n div 2) :: rat) < of_int (2 ^ nat ?k)"
      by (simp_all add: pow2_nat del: of_int_power)
    then have "2 ^ nat (?k - 1) \<le> n div 2" "n div 2 < 2 ^ nat ?k" by (simp_all only: of_int_le_iff of_int_less_iff)
    moreover have "nat ?k = Suc (nat (?k - 1))" using IH(1) by simp
    ultimately have "2 ^ nat ?k \<le> n" "n < 2 * 2 ^ nat ?k" by (simp_all, linarith+)
    then have "(of_int (2 ^ nat ?k) :: rat) \<le> of_int n" "of_int n < (of_int (2 * 2 ^ nat ?k) :: rat)"
      by (simp_all only: of_int_le_iff of_int_less_iff)
    with IH(1) b show ?thesis by (simp add: pow2_add pow2_nat [of 1] pow2_nat [of ?k])
  qed
qed

lemma ilog2_bounds:
  assumes "0 < q"
  shows "pow2 (ilog2 q) \<le> q \<and> q < pow2 (ilog2 q + 1)"
proof -
  obtain n d where nd: "quotient_of q = (n, d)" by (cases "quotient_of q")
  then have d: "0 < d" by (rule quotient_of_denom_pos)
  from nd have q: "q = of_int n / of_int d" by (rule quotient_of_div)
  with assms d have n: "0 < n" by (simp add: zero_less_divide_iff)
  let ?k = "bitlen n - bitlen d"
  from bitlen_bounds [OF n] bitlen_bounds [OF d]
  have B: "pow2 (bitlen n - 1) \<le> of_int n" "of_int n < pow2 (bitlen n)" "pow2 (bitlen d - 1) \<le> of_int d"
      "of_int d < pow2 (bitlen d)" by simp_all
  have shift: "pow2 (bitlen n - 1) = pow2 (?k - 1) * pow2 (bitlen d)"
      "pow2 (bitlen n) = pow2 (?k + 1) * pow2 (bitlen d - 1)"
    using pow2_add [of "?k - 1" "bitlen d"] pow2_add [of "?k + 1" "bitlen d - 1"] by simp_all
  have "pow2 (bitlen n - 1) * of_int d < of_int n * pow2 (bitlen d)"
    using B n d by (intro mult_le_less_imp_less) auto
  then have "(pow2 (?k - 1) * of_int d) * pow2 (bitlen d) < of_int n * pow2 (bitlen d)"
    unfolding shift(1) by (simp only: ac_simps)
  then have lo: "pow2 (?k - 1) < q" using d by (simp add: q pos_less_divide_eq mult_less_cancel_right_pos)
  have "of_int n * pow2 (bitlen d - 1) < pow2 (bitlen n) * of_int d"
    using B n d by (intro mult_less_le_imp_less) auto
  then have "of_int n * pow2 (bitlen d - 1) < (pow2 (?k + 1) * of_int d) * pow2 (bitlen d - 1)"
    unfolding shift(2) by (simp only: ac_simps)
  then have hi: "q < pow2 (?k + 1)" using d by (simp add: q pos_divide_less_eq mult_less_cancel_right_pos)
  show ?thesis
    using lo hi by (auto simp: ilog2_def nd Let_def)
qed

lemma ilog2_le: "0 < q \<Longrightarrow> q \<le> pow2 k \<Longrightarrow> ilog2 q \<le> k"
  using ilog2_bounds [of q] pow2_less by (meson leD leI order_le_less_trans)

section \<open>Rounding to nearest\<close>

lemma half_even_int [simp]: "half_even (of_int n) = n"
  by (simp add: half_even_def)

lemma half_even_error: "\<bar>of_int (half_even x) - x\<bar> \<le> 1 / 2"
proof -
  have "of_int \<lfloor>x\<rfloor> \<le> x" "x < of_int \<lfloor>x\<rfloor> + 1" by linarith+
  then show ?thesis by (simp add: half_even_def Let_def abs_le_iff)
qed

lemma half_even_le:
  assumes "x \<le> of_int n"
  shows "half_even x \<le> n"
proof (cases "\<lfloor>x\<rfloor> = n")
  case True
  with assms have "x = of_int n" by linarith
  then show ?thesis by simp
next
  case False
  with assms have "\<lfloor>x\<rfloor> < n" by linarith
  then show ?thesis by (simp add: half_even_def Let_def)
qed

lemma half_even_nonneg: "0 \<le> x \<Longrightarrow> 0 \<le> half_even x"
  by (auto simp: half_even_def Let_def)

lemma rounded_le_pow2:
  assumes "0 < q" "q \<le> pow2 k" "fl_qmin fm \<le> k"
  shows "rounded fm q \<le> pow2 k"
proof -
  let ?u = "max (ilog2 q - fl_prec fm + 1) (fl_qmin fm)"
  have "1 \<le> fl_prec fm" by (cases fm) simp_all
  with ilog2_le [OF assms(1,2)] assms(3) have u: "?u \<le> k" by linarith
  have "q / pow2 ?u \<le> pow2 k / pow2 ?u" using assms(2) by (simp add: divide_right_mono)
  also have "\<dots> = of_int (2 ^ nat (k - ?u))" using u by (simp add: pow2_diff [symmetric] pow2_nat)
  finally have "half_even (q / pow2 ?u) \<le> 2 ^ nat (k - ?u)" by (rule half_even_le)
  then have "of_int (half_even (q / pow2 ?u)) \<le> (of_int (2 ^ nat (k - ?u)) :: rat)" by (simp only: of_int_le_iff)
  also have "\<dots> = pow2 k / pow2 ?u" using u by (simp add: pow2_diff [symmetric] pow2_nat)
  finally show ?thesis by (simp add: rounded_def Let_def field_simps)
qed

lemma rounded_nonneg: "0 \<le> q \<Longrightarrow> 0 \<le> rounded fm q"
  by (simp add: rounded_def Let_def half_even_nonneg)

text \<open>Rounding is off by at most half a unit in the last place, and keeps what the format can hold.\<close>

lemma rounded_error:
  "\<bar>rounded fm q - q\<bar> \<le> pow2 (max (ilog2 q - fl_prec fm + 1) (fl_qmin fm)) / 2"
proof -
  let ?P = "pow2 (max (ilog2 q - fl_prec fm + 1) (fl_qmin fm))"
  have "rounded fm q - q = (of_int (half_even (q / ?P)) - q / ?P) * ?P"
    by (simp add: rounded_def Let_def left_diff_distrib)
  then have "\<bar>rounded fm q - q\<bar> = \<bar>of_int (half_even (q / ?P)) - q / ?P\<bar> * ?P"
    by (simp add: abs_mult)
  also have "\<dots> \<le> 1 / 2 * ?P"
    using half_even_error [of "q / ?P"] by (intro mult_right_mono) auto
  finally show ?thesis by simp
qed

lemma rounded_exact:
  "q = of_int m * pow2 (max (ilog2 q - fl_prec fm + 1) (fl_qmin fm)) \<Longrightarrow> rounded fm q = q"
  unfolding rounded_def Let_def by (metis half_even_int nonzero_mult_div_cancel_right pow2_pos(3))

lemma fl_pack_bound:
  assumes "0 \<le> q" "q \<le> pow2 k" "fl_qmin fm \<le> k" "k \<le> fl_emax fm"
  shows "\<exists>r. fl_pack fm s q = Finite s r \<and> 0 \<le> r \<and> r \<le> pow2 k"
proof (cases "q = 0")
  case True
  then show ?thesis by (simp add: fl_pack_def)
next
  case False
  with assms have "rounded fm q \<le> pow2 k" by (intro rounded_le_pow2) simp_all
  moreover have "pow2 k < pow2 (fl_emax fm + 1)" using assms(4) by (simp add: pow2_less)
  ultimately show ?thesis using False assms(1) by (simp add: fl_pack_def Let_def rounded_nonneg)
qed

section \<open>Laws of the arithmetic\<close>

lemma fl_add_comm: "fl_add fm x y = fl_add fm y x"
  by (cases x; cases y) (auto simp: add.commute conj_commute Let_def)

lemma fl_mul_comm: "fl_mul fm x y = fl_mul fm y x"
  by (cases x; cases y) (auto simp: mult.commute intro!: arg_cong2 [where f = "fl_pack fm"])

lemma fl_nan_arith [simp]:
  "fl_add fm x NaN = NaN" "fl_add fm NaN x = NaN" "fl_mul fm x NaN = NaN" "fl_mul fm NaN x = NaN"
  "fl_div fm x NaN = NaN" "fl_div fm NaN x = NaN"
  by (cases x; simp)+

lemma isqrt_bounds: "0 \<le> n \<Longrightarrow> 0 \<le> isqrt n \<and> isqrt n * isqrt n \<le> n \<and> n < (isqrt n + 1) * (isqrt n + 1)"
proof (induction n rule: isqrt.induct)
  case (1 n)
  show ?case
  proof (cases "n = 0")
    case True
    then show ?thesis by (simp add: isqrt.simps)
  next
    case False
    let ?r = "isqrt (n div 4)"
    from 1 False have r: "0 \<le> ?r" "?r * ?r \<le> n div 4" "n div 4 < (?r + 1) * (?r + 1)" by simp_all
    then have "4 * (?r * ?r) \<le> n" "n < 4 * ((?r + 1) * (?r + 1))" by linarith+
    with False 1(2) r(1) show ?thesis
      by (simp add: isqrt.simps [of n] Let_def algebra_simps)
  qed
qed

section \<open>The order of sorting\<close>

text \<open>Without NaN the comparison is a strict weak order; \<open>fl_before\<close> extends it by putting NaN last.\<close>

definition fl_before :: "fl \<Rightarrow> fl \<Rightarrow> bool" where
  "fl_before x y \<longleftrightarrow> fl_lt x y \<or> \<not> is_nan x \<and> is_nan y"

lemma fl_before_lt: "\<not> is_nan x \<Longrightarrow> \<not> is_nan y \<Longrightarrow> fl_before x y = fl_lt x y"
  by (simp add: fl_before_def)

lemma fl_lt_irrefl [simp]: "\<not> fl_lt x x"
  by (cases x) auto

lemma fl_lt_nan [simp]: "\<not> fl_lt NaN x" "\<not> fl_lt x NaN"
  by (cases x; simp)+

interpretation float_order: sort_order fl_before
proof
  fix x y :: fl
  show "fl_before x y \<Longrightarrow> \<not> fl_before y x"
    by (cases x; cases y) (auto simp: fl_before_def)
next
  fix x y z :: fl
  show "\<not> fl_before y x \<Longrightarrow> \<not> fl_before z y \<Longrightarrow> \<not> fl_before z x"
    by (cases x; cases y; cases z) (auto simp: fl_before_def split: if_splits)
qed

end
