(* ===== verification/Config_Model.thy ===== *)
theory Config_Model
  imports Soft_Float
begin

text \<open>
  The configuration of \<^verbatim>\<open>core/config/config.go\<close>: a record for every struct, with the
  defaults, and what the \<^verbatim>\<open>reflect\<close> package shows of them: a value is a struct of named and
  tagged fields or a leaf of one of the kinds the configuration uses. \<open>reflect_Config\<close> is that view
  and \<open>read_Config\<close> reads a value of the type back; they are inverse to each other. Integers are only
  compared here; an \<^verbatim>\<open>int\<close> holds what \<^verbatim>\<open>strconv.ParseInt\<close> accepts for 64 bits.
\<close>

section \<open>The structs\<close>

record NodeConfig =
  node_ID :: string
  node_ListenAddress :: string
  node_GRPCPort :: int
  node_HTTPPort :: int
  node_DataDir :: string

record ClusterConfig =
  cluster_SeedNodes :: "string list"
  cluster_ReplicationFactor :: int
  cluster_GossipPort :: int
  cluster_GossipIntervalMs :: int
  cluster_FailureTimeoutMs :: int
  cluster_CleanupIntervalMs :: int
  cluster_Fanout :: int
  cluster_VirtualNodesPerNode :: int

record yaml_WALConfig =
  wal_MaxFileMB :: int
  wal_Fsync :: bool

record yaml_MemtableConfig =
  memtable_MaxMB :: int

record yaml_SSTableConfig =
  sstable_BlockSizeKB :: int

record yaml_CompactionConfig =
  compaction_MaxConcurrent :: int
  compaction_SizeTierThreshold :: int

record StorageConfig =
  storage_WAL :: yaml_WALConfig
  storage_Memtable :: yaml_MemtableConfig
  storage_SSTable :: yaml_SSTableConfig
  storage_Compaction :: yaml_CompactionConfig

record HNSWConfig =
  hnsw_M :: int
  hnsw_EfConstruction :: int
  hnsw_EfSearch :: int
  hnsw_ShardCount :: int

record IndexConfig =
  index_HNSW :: HNSWConfig
  index_GraphCacheSize :: int
  index_EntityCacheSize :: int
  index_ReloadIntervalMs :: int
  index_RealtimeIndexEnabled :: bool

record QueryConfig =
  query_DefaultConsistency :: string
  query_MaxGraphHops :: int
  query_TimeoutMs :: int
  query_DefaultK :: int
  query_MaxCandidates :: int

record StaticAPIKeyConfig =
  apikey_Key :: string
  apikey_TenantID :: string

record AuthConfig =
  auth_Enabled :: bool
  auth_APIKeyHeader :: string
  auth_StaticAPIKeys :: "StaticAPIKeyConfig list"

record TLSConfig =
  tls_Enabled :: bool
  tls_CertFile :: string
  tls_KeyFile :: string
  tls_CAFile :: string

record SecurityConfig =
  security_Auth :: AuthConfig
  security_TLS :: TLSConfig

record ObservabilityConfig =
  obs_LogLevel :: string
  obs_MetricsEnabled :: bool

record HintedHandoffConfig =
  handoff_Enabled :: bool
  handoff_MaxHintsPerNode :: int
  handoff_MaxSizeMB :: int
  handoff_TTLMinutes :: int
  handoff_FlushIntervalMs :: int

record AntiEntropyConfig =
  entropy_Enabled :: bool
  entropy_IntervalMinutes :: int

record RepairConfig =
  repair_ReadRepairEnabled :: bool
  repair_HintedHandoff :: HintedHandoffConfig
  repair_AntiEntropy :: AntiEntropyConfig

record EmbeddingsConfig =
  emb_Provider :: string
  emb_Model :: string
  emb_Dim :: int
  emb_TimeoutMs :: int

record LLMConfig =
  llm_Provider :: string
  llm_Model :: string
  llm_Temperature :: fl
  llm_MaxTokens :: int
  llm_TimeoutMs :: int

record EntityExtractionConfig =
  extract_Enabled :: bool
  extract_MaxRetries :: int

record AIConfig =
  ai_Embeddings :: EmbeddingsConfig
  ai_LLM :: LLMConfig
  ai_EntityExtraction :: EntityExtractionConfig

record Config =
  cfg_Node :: NodeConfig
  cfg_Cluster :: ClusterConfig
  cfg_Storage :: StorageConfig
  cfg_Index :: IndexConfig
  cfg_Query :: QueryConfig
  cfg_Security :: SecurityConfig
  cfg_Observability :: ObservabilityConfig
  cfg_Repair :: RepairConfig
  cfg_AI :: AIConfig

definition config_DefaultConfig :: Config where
  "config_DefaultConfig = \<lparr>cfg_Node = \<lparr>node_ID = ''node-1'', node_ListenAddress = ''0.0.0.0'', node_GRPCPort = 7000,
         node_HTTPPort = 7001, node_DataDir = ''/var/lib/allidb''\<rparr>,
       cfg_Cluster = \<lparr>cluster_SeedNodes = [''node-1:7000'', ''node-2:7000''], cluster_ReplicationFactor = 3,
         cluster_GossipPort = 7946, cluster_GossipIntervalMs = 1000, cluster_FailureTimeoutMs = 5000,
         cluster_CleanupIntervalMs = 60000, cluster_Fanout = 3, cluster_VirtualNodesPerNode = 150\<rparr>,
       cfg_Storage = \<lparr>storage_WAL = \<lparr>wal_MaxFileMB = 128, wal_Fsync = True\<rparr>,
       storage_Memtable = \<lparr>memtable_MaxMB = 256\<rparr>,
       storage_SSTable = \<lparr>sstable_BlockSizeKB = 64\<rparr>,
       storage_Compaction = \<lparr>compaction_MaxConcurrent = 2, compaction_SizeTierThreshold = 4\<rparr>\<rparr>,
       cfg_Index = \<lparr>index_HNSW = \<lparr>hnsw_M = 16, hnsw_EfConstruction = 200, hnsw_EfSearch = 64,
         hnsw_ShardCount = 16\<rparr>, index_GraphCacheSize = 10000, index_EntityCacheSize = 1000,
         index_ReloadIntervalMs = 5000, index_RealtimeIndexEnabled = False\<rparr>,
       cfg_Query = \<lparr>query_DefaultConsistency = ''QUORUM'', query_MaxGraphHops = 2, query_TimeoutMs = 500,
         query_DefaultK = 10, query_MaxCandidates = 1000\<rparr>,
       cfg_Security = \<lparr>security_Auth = \<lparr>auth_Enabled = True, auth_APIKeyHeader = ''X-ALLIDB-API-KEY'',
         auth_StaticAPIKeys = [\<lparr>apikey_Key = ''test-api-key'', apikey_TenantID = ''tenant1''\<rparr>]\<rparr>,
       security_TLS = \<lparr>tls_Enabled = False, tls_CertFile = '''', tls_KeyFile = '''', tls_CAFile = ''''\<rparr>\<rparr>,
       cfg_Observability = \<lparr>obs_LogLevel = ''INFO'', obs_MetricsEnabled = True\<rparr>,
       cfg_Repair = \<lparr>repair_ReadRepairEnabled = True,
       repair_HintedHandoff = \<lparr>handoff_Enabled = True, handoff_MaxHintsPerNode = 10000, handoff_MaxSizeMB = 1024,
         handoff_TTLMinutes = 60, handoff_FlushIntervalMs = 1000\<rparr>,
       repair_AntiEntropy = \<lparr>entropy_Enabled = True, entropy_IntervalMinutes = 1440\<rparr>\<rparr>,
       cfg_AI = \<lparr>ai_Embeddings = \<lparr>emb_Provider = ''openai'', emb_Model = ''text-embedding-3-large'',
         emb_Dim = 3072, emb_TimeoutMs = 3000\<rparr>,
       ai_LLM = \<lparr>llm_Provider = ''openai'', llm_Model = ''gpt-4o-mini'', llm_Temperature = fl_0,
         llm_MaxTokens = 2048, llm_TimeoutMs = 5000\<rparr>,
       ai_EntityExtraction = \<lparr>extract_Enabled = True, extract_MaxRetries = 2\<rparr>\<rparr>\<rparr>"

section \<open>Reflection\<close>

datatype rvalue = RStruct rfields
  | RString string
  | RInt int
  | RFloat fl
  | RBool bool
  | RStrings "string list"
  | RKeys "StaticAPIKeyConfig list"
and rfields = RNil | RField string string rvalue rfields

text \<open>\<open>RField name tag v fs\<close>: the first field of a struct, with its name and its yaml tag.\<close>

definition reflect_NodeConfig :: "NodeConfig \<Rightarrow> rvalue" where
  "reflect_NodeConfig c = RStruct (
     RField ''ID'' ''id'' (RString (node_ID c)) (
     RField ''ListenAddress'' ''listen_address'' (RString (node_ListenAddress c)) (
     RField ''GRPCPort'' ''grpc_port'' (RInt (node_GRPCPort c)) (
     RField ''HTTPPort'' ''http_port'' (RInt (node_HTTPPort c)) (
     RField ''DataDir'' ''data_dir'' (RString (node_DataDir c)) RNil)))))"

definition reflect_ClusterConfig :: "ClusterConfig \<Rightarrow> rvalue" where
  "reflect_ClusterConfig c = RStruct (
     RField ''SeedNodes'' ''seed_nodes'' (RStrings (cluster_SeedNodes c)) (
     RField ''ReplicationFactor'' ''replication_factor'' (RInt (cluster_ReplicationFactor c)) (
     RField ''GossipPort'' ''gossip_port'' (RInt (cluster_GossipPort c)) (
     RField ''GossipIntervalMs'' ''gossip_interval_ms'' (RInt (cluster_GossipIntervalMs c)) (
     RField ''FailureTimeoutMs'' ''failure_timeout_ms'' (RInt (cluster_FailureTimeoutMs c)) (
     RField ''CleanupIntervalMs'' ''cleanup_interval_ms'' (RInt (cluster_CleanupIntervalMs c)) (
     RField ''Fanout'' ''fanout'' (RInt (cluster_Fanout c)) (
     RField ''VirtualNodesPerNode'' ''virtual_nodes_per_node'' (RInt (cluster_VirtualNodesPerNode c)) RNil))))))))"

definition reflect_yaml_WALConfig :: "yaml_WALConfig \<Rightarrow> rvalue" where
  "reflect_yaml_WALConfig c = RStruct (
     RField ''MaxFileMB'' ''max_file_mb'' (RInt (wal_MaxFileMB c)) (
     RField ''Fsync'' ''fsync'' (RBool (wal_Fsync c)) RNil))"

definition reflect_yaml_MemtableConfig :: "yaml_MemtableConfig \<Rightarrow> rvalue" where
  "reflect_yaml_MemtableConfig c = RStruct (
     RField ''MaxMB'' ''max_mb'' (RInt (memtable_MaxMB c)) RNil)"

definition reflect_yaml_SSTableConfig :: "yaml_SSTableConfig \<Rightarrow> rvalue" where
  "reflect_yaml_SSTableConfig c = RStruct (
     RField ''BlockSizeKB'' ''block_size_kb'' (RInt (sstable_BlockSizeKB c)) RNil)"

definition reflect_yaml_CompactionConfig :: "yaml_CompactionConfig \<Rightarrow> rvalue" where
  "reflect_yaml_CompactionConfig c = RStruct (
     RField ''MaxConcurrent'' ''max_concurrent'' (RInt (compaction_MaxConcurrent c)) (
     RField ''SizeTierThreshold'' ''size_tier_threshold'' (RInt (compaction_SizeTierThreshold c)) RNil))"

definition reflect_StorageConfig :: "StorageConfig \<Rightarrow> rvalue" where
  "reflect_StorageConfig c = RStruct (
     RField ''WAL'' ''wal'' (reflect_yaml_WALConfig (storage_WAL c)) (
     RField ''Memtable'' ''memtable'' (reflect_yaml_MemtableConfig (storage_Memtable c)) (
     RField ''SSTable'' ''sstable'' (reflect_yaml_SSTableConfig (storage_SSTable c)) (
     RField ''Compaction'' ''compaction'' (reflect_yaml_CompactionConfig (storage_Compaction c)) RNil))))"

definition reflect_HNSWConfig :: "HNSWConfig \<Rightarrow> rvalue" where
  "reflect_HNSWConfig c = RStruct (
     RField ''M'' ''m'' (RInt (hnsw_M c)) (
     RField ''EfConstruction'' ''ef_construction'' (RInt (hnsw_EfConstruction c)) (
     RField ''EfSearch'' ''ef_search'' (RInt (hnsw_EfSearch c)) (
     RField ''ShardCount'' ''shard_count'' (RInt (hnsw_ShardCount c)) RNil))))"

definition reflect_IndexConfig :: "IndexConfig \<Rightarrow> rvalue" where
  "reflect_IndexConfig c = RStruct (
     RField ''HNSW'' ''hnsw'' (reflect_HNSWConfig (index_HNSW c)) (
     RField ''GraphCacheSize'' ''graph_cache_size'' (RInt (index_GraphCacheSize c)) (
     RField ''EntityCacheSize'' ''entity_cache_size'' (RInt (index_EntityCacheSize c)) (
     RField ''ReloadIntervalMs'' ''reload_interval_ms'' (RInt (index_ReloadIntervalMs c)) (
     RField ''RealtimeIndexEnabled'' ''realtime_index_enabled'' (RBool (index_RealtimeIndexEnabled c)) RNil)))))"

definition reflect_QueryConfig :: "QueryConfig \<Rightarrow> rvalue" where
  "reflect_QueryConfig c = RStruct (
     RField ''DefaultConsistency'' ''default_consistency'' (RString (query_DefaultConsistency c)) (
     RField ''MaxGraphHops'' ''max_graph_hops'' (RInt (query_MaxGraphHops c)) (
     RField ''TimeoutMs'' ''timeout_ms'' (RInt (query_TimeoutMs c)) (
     RField ''DefaultK'' ''default_k'' (RInt (query_DefaultK c)) (
     RField ''MaxCandidates'' ''max_candidates'' (RInt (query_MaxCandidates c)) RNil)))))"

definition reflect_AuthConfig :: "AuthConfig \<Rightarrow> rvalue" where
  "reflect_AuthConfig c = RStruct (
     RField ''Enabled'' ''enabled'' (RBool (auth_Enabled c)) (
     RField ''APIKeyHeader'' ''api_key_header'' (RString (auth_APIKeyHeader c)) (
     RField ''StaticAPIKeys'' ''static_api_keys'' (RKeys (auth_StaticAPIKeys c)) RNil)))"

definition reflect_TLSConfig :: "TLSConfig \<Rightarrow> rvalue" where
  "reflect_TLSConfig c = RStruct (
     RField ''Enabled'' ''enabled'' (RBool (tls_Enabled c)) (
     RField ''CertFile'' ''cert_file'' (RString (tls_CertFile c)) (
     RField ''KeyFile'' ''key_file'' (RString (tls_KeyFile c)) (
     RField ''CAFile'' ''ca_file'' (RString (tls_CAFile c)) RNil))))"

definition reflect_SecurityConfig :: "SecurityConfig \<Rightarrow> rvalue" where
  "reflect_SecurityConfig c = RStruct (
     RField ''Auth'' ''auth'' (reflect_AuthConfig (security_Auth c)) (
     RField ''TLS'' ''tls'' (reflect_TLSConfig (security_TLS c)) RNil))"

definition reflect_ObservabilityConfig :: "ObservabilityConfig \<Rightarrow> rvalue" where
  "reflect_ObservabilityConfig c = RStruct (
     RField ''LogLevel'' ''log_level'' (RString (obs_LogLevel c)) (
     RField ''MetricsEnabled'' ''metrics_enabled'' (RBool (obs_MetricsEnabled c)) RNil))"

definition reflect_HintedHandoffConfig :: "HintedHandoffConfig \<Rightarrow> rvalue" where
  "reflect_HintedHandoffConfig c = RStruct (
     RField ''Enabled'' ''enabled'' (RBool (handoff_Enabled c)) (
     RField ''MaxHintsPerNode'' ''max_hints_per_node'' (RInt (handoff_MaxHintsPerNode c)) (
     RField ''MaxSizeMB'' ''max_size_mb'' (RInt (handoff_MaxSizeMB c)) (
     RField ''TTLMinutes'' ''ttl_minutes'' (RInt (handoff_TTLMinutes c)) (
     RField ''FlushIntervalMs'' ''flush_interval_ms'' (RInt (handoff_FlushIntervalMs c)) RNil)))))"

definition reflect_AntiEntropyConfig :: "AntiEntropyConfig \<Rightarrow> rvalue" where
  "reflect_AntiEntropyConfig c = RStruct (
     RField ''Enabled'' ''enabled'' (RBool (entropy_Enabled c)) (
     RField ''IntervalMinutes'' ''interval_minutes'' (RInt (entropy_IntervalMinutes c)) RNil))"

definition reflect_RepairConfig :: "RepairConfig \<Rightarrow> rvalue" where
  "reflect_RepairConfig c = RStruct (
     RField ''ReadRepairEnabled'' ''read_repair_enabled'' (RBool (repair_ReadRepairEnabled c)) (
     RField ''HintedHandoff'' ''hinted_handoff'' (reflect_HintedHandoffConfig (repair_HintedHandoff c)) (
     RField ''AntiEntropy'' ''anti_entropy'' (reflect_AntiEntropyConfig (repair_AntiEntropy c)) RNil)))"

definition reflect_EmbeddingsConfig :: "EmbeddingsConfig \<Rightarrow> rvalue" where
  "reflect_EmbeddingsConfig c = RStruct (
     RField ''Provider'' ''provider'' (RString (emb_Provider c)) (
     RField ''Model'' ''model'' (RString (emb_Model c)) (
     RField ''Dim'' ''dim'' (RInt (emb_Dim c)) (
     RField ''TimeoutMs'' ''timeout_ms'' (RInt (emb_TimeoutMs c)) RNil))))"

definition reflect_LLMConfig :: "LLMConfig \<Rightarrow> rvalue" where
  "reflect_LLMConfig c = RStruct (
     RField ''Provider'' ''provider'' (RString (llm_Provider c)) (
     RField ''Model'' ''model'' (RString (llm_Model c)) (
     RField ''Temperature'' ''temperature'' (RFloat (llm_Temperature c)) (
     RField ''MaxTokens'' ''max_tokens'' (RInt (llm_MaxTokens c)) (
     RField ''TimeoutMs'' ''timeout_ms'' (RInt (llm_TimeoutMs c)) RNil)))))"

definition reflect_EntityExtractionConfig :: "EntityExtractionConfig \<Rightarrow> rvalue" where
  "reflect_EntityExtractionConfig c = RStruct (
     RField ''Enabled'' ''enabled'' (RBool (extract_Enabled c)) (
     RField ''MaxRetries'' ''max_retries'' (RInt (extract_MaxRetries c)) RNil))"

definition reflect_AIConfig :: "AIConfig \<Rightarrow> rvalue" where
  "reflect_AIConfig c = RStruct (
     RField ''Embeddings'' ''embeddings'' (reflect_EmbeddingsConfig (ai_Embeddings c)) (
     RField ''LLM'' ''llm'' (reflect_LLMConfig (ai_LLM c)) (
     RField ''EntityExtraction'' ''entity_extraction'' (reflect_EntityExtractionConfig (ai_EntityExtraction c)) RNil)))"

definition reflect_Config :: "Config \<Rightarrow> rvalue" where
  "reflect_Config c = RStruct (
     RField ''Node'' ''node'' (reflect_NodeConfig (cfg_Node c)) (
     RField ''Cluster'' ''cluster'' (reflect_ClusterConfig (cfg_Cluster c)) (
     RField ''Storage'' ''storage'' (reflect_StorageConfig (cfg_Storage c)) (
     RField ''Index'' ''index'' (reflect_IndexConfig (cfg_Index c)) (
     RField ''Query'' ''query'' (reflect_QueryConfig (cfg_Query c)) (
     RField ''Security'' ''security'' (reflect_SecurityConfig (cfg_Security c)) (
     RField ''Observability'' ''observability'' (reflect_ObservabilityConfig (cfg_Observability c)) (
     RField ''Repair'' ''repair'' (reflect_RepairConfig (cfg_Repair c)) (
     RField ''AI'' ''ai'' (reflect_AIConfig (cfg_AI c)) RNil)))))))))"

fun find_field :: "string \<Rightarrow> rfields \<Rightarrow> rvalue option" where
  "find_field n RNil = None"
| "find_field n (RField m t v fs) = (if n = m then Some v else find_field n fs)"

fun FieldByName :: "rvalue \<Rightarrow> string \<Rightarrow> rvalue option" where
  "FieldByName (RStruct fs) n = find_field n fs"
| "FieldByName _ n = None"

definition at_field :: "rvalue \<Rightarrow> string \<Rightarrow> rvalue" where
  "at_field v n = (case FieldByName v n of Some w \<Rightarrow> w | None \<Rightarrow> RStruct RNil)"

fun as_string :: "rvalue \<Rightarrow> string" where "as_string (RString s) = s" | "as_string _ = []"

fun as_int :: "rvalue \<Rightarrow> int" where "as_int (RInt n) = n" | "as_int _ = 0"

fun as_float :: "rvalue \<Rightarrow> fl" where "as_float (RFloat x) = x" | "as_float _ = fl_0"

fun as_bool :: "rvalue \<Rightarrow> bool" where "as_bool (RBool b) = b" | "as_bool _ = False"

fun as_strings :: "rvalue \<Rightarrow> string list" where "as_strings (RStrings ss) = ss" | "as_strings _ = []"

fun as_keys :: "rvalue \<Rightarrow> StaticAPIKeyConfig list" where "as_keys (RKeys ks) = ks" | "as_keys _ = []"

definition read_NodeConfig :: "rvalue \<Rightarrow> NodeConfig" where
  "read_NodeConfig v = \<lparr>node_ID = as_string (at_field v ''ID''),
     node_ListenAddress = as_string (at_field v ''ListenAddress''),
     node_GRPCPort = as_int (at_field v ''GRPCPort''),
     node_HTTPPort = as_int (at_field v ''HTTPPort''),
     node_DataDir = as_string (at_field v ''DataDir'')\<rparr>"

definition read_ClusterConfig :: "rvalue \<Rightarrow> ClusterConfig" where
  "read_ClusterConfig v = \<lparr>cluster_SeedNodes = as_strings (at_field v ''SeedNodes''),
     cluster_ReplicationFactor = as_int (at_field v ''ReplicationFactor''),
     cluster_GossipPort = as_int (at_field v ''GossipPort''),
     cluster_GossipIntervalMs = as_int (at_field v ''GossipIntervalMs''),
     cluster_FailureTimeoutMs = as_int (at_field v ''FailureTimeoutMs''),
     cluster_CleanupIntervalMs = as_int (at_field v ''CleanupIntervalMs''),
     cluster_Fanout = as_int (at_field v ''Fanout''),
     cluster_VirtualNodesPerNode = as_int (at_field v ''VirtualNodesPerNode'')\<rparr>"

definition read_yaml_WALConfig :: "rvalue \<Rightarrow> yaml_WALConfig" where
  "read_yaml_WALConfig v = \<lparr>wal_MaxFileMB = as_int (at_field v ''MaxFileMB''),
     wal_Fsync = as_bool (at_field v ''Fsync'')\<rparr>"

definition read_yaml_MemtableConfig :: "rvalue \<Rightarrow> yaml_MemtableConfig" where
  "read_yaml_MemtableConfig v = \<lparr>memtable_MaxMB = as_int (at_field v ''MaxMB'')\<rparr>"

definition read_yaml_SSTableConfig :: "rvalue \<Rightarrow> yaml_SSTableConfig" where
  "read_yaml_SSTableConfig v = \<lparr>sstable_BlockSizeKB = as_int (at_field v ''BlockSizeKB'')\<rparr>"

definition read_yaml_CompactionConfig :: "rvalue \<Rightarrow> yaml_CompactionConfig" where
  "read_yaml_CompactionConfig v = \<lparr>compaction_MaxConcurrent = as_int (at_field v ''MaxConcurrent''),
     compaction_SizeTierThreshold = as_int (at_field v ''SizeTierThreshold'')\<rparr>"

definition read_StorageConfig :: "rvalue \<Rightarrow> StorageConfig" where
  "read_StorageConfig v = \<lparr>storage_WAL = read_yaml_WALConfig (at_field v ''WAL''),
     storage_Memtable = read_yaml_MemtableConfig (at_field v ''Memtable''),
     storage_SSTable = read_yaml_SSTableConfig (at_field v ''SSTable''),
     storage_Compaction = read_yaml_CompactionConfig (at_field v ''Compaction'')\<rparr>"

definition read_HNSWConfig :: "rvalue \<Rightarrow> HNSWConfig" where
  "read_HNSWConfig v = \<lparr>hnsw_M = as_int (at_field v ''M''),
     hnsw_EfConstruction = as_int (at_field v ''EfConstruction''),
     hnsw_EfSearch = as_int (at_field v ''EfSearch''),
     hnsw_ShardCount = as_int (at_field v ''ShardCount'')\<rparr>"

definition read_IndexConfig :: "rvalue \<Rightarrow> IndexConfig" where
  "read_IndexConfig v = \<lparr>index_HNSW = read_HNSWConfig (at_field v ''HNSW''),
     index_GraphCacheSize = as_int (at_field v ''GraphCacheSize''),
     index_EntityCacheSize = as_int (at_field v ''EntityCacheSize''),
     index_ReloadIntervalMs = as_int (at_field v ''ReloadIntervalMs''),
     index_RealtimeIndexEnabled = as_bool (at_field v ''RealtimeIndexEnabled'')\<rparr>"

definition read_QueryConfig :: "rvalue \<Rightarrow> QueryConfig" where
  "read_QueryConfig v = \<lparr>query_DefaultConsistency = as_string (at_field v ''DefaultConsistency''),
     query_MaxGraphHops = as_int (at_field v ''MaxGraphHops''),
     query_TimeoutMs = as_int (at_field v ''TimeoutMs''),
     query_DefaultK = as_int (at_field v ''DefaultK''),
     query_MaxCandidates = as_int (at_field v ''MaxCandidates'')\<rparr>"

definition read_AuthConfig :: "rvalue \<Rightarrow> AuthConfig" where
  "read_AuthConfig v = \<lparr>auth_Enabled = as_bool (at_field v ''Enabled''),
     auth_APIKeyHeader = as_string (at_field v ''APIKeyHeader''),
     auth_StaticAPIKeys = as_keys (at_field v ''StaticAPIKeys'')\<rparr>"

definition read_TLSConfig :: "rvalue \<Rightarrow> TLSConfig" where
  "read_TLSConfig v = \<lparr>tls_Enabled = as_bool (at_field v ''Enabled''),
     tls_CertFile = as_string (at_field v ''CertFile''),
     tls_KeyFile = as_string (at_field v ''KeyFile''),
     tls_CAFile = as_string (at_field v ''CAFile'')\<rparr>"

definition read_SecurityConfig :: "rvalue \<Rightarrow> SecurityConfig" where
  "read_SecurityConfig v = \<lparr>security_Auth = read_AuthConfig (at_field v ''Auth''),
     security_TLS = read_TLSConfig (at_field v ''TLS'')\<rparr>"

definition read_ObservabilityConfig :: "rvalue \<Rightarrow> ObservabilityConfig" where
  "read_ObservabilityConfig v = \<lparr>obs_LogLevel = as_string (at_field v ''LogLevel''),
     obs_MetricsEnabled = as_bool (at_field v ''MetricsEnabled'')\<rparr>"

definition read_HintedHandoffConfig :: "rvalue \<Rightarrow> HintedHandoffConfig" where
  "read_HintedHandoffConfig v = \<lparr>handoff_Enabled = as_bool (at_field v ''Enabled''),
     handoff_MaxHintsPerNode = as_int (at_field v ''MaxHintsPerNode''),
     handoff_MaxSizeMB = as_int (at_field v ''MaxSizeMB''),
     handoff_TTLMinutes = as_int (at_field v ''TTLMinutes''),
     handoff_FlushIntervalMs = as_int (at_field v ''FlushIntervalMs'')\<rparr>"

definition read_AntiEntropyConfig :: "rvalue \<Rightarrow> AntiEntropyConfig" where
  "read_AntiEntropyConfig v = \<lparr>entropy_Enabled = as_bool (at_field v ''Enabled''),
     entropy_IntervalMinutes = as_int (at_field v ''IntervalMinutes'')\<rparr>"

definition read_RepairConfig :: "rvalue \<Rightarrow> RepairConfig" where
  "read_RepairConfig v = \<lparr>repair_ReadRepairEnabled = as_bool (at_field v ''ReadRepairEnabled''),
     repair_HintedHandoff = read_HintedHandoffConfig (at_field v ''HintedHandoff''),
     repair_AntiEntropy = read_AntiEntropyConfig (at_field v ''AntiEntropy'')\<rparr>"

definition read_EmbeddingsConfig :: "rvalue \<Rightarrow> EmbeddingsConfig" where
  "read_EmbeddingsConfig v = \<lparr>emb_Provider = as_string (at_field v ''Provider''),
     emb_Model = as_string (at_field v ''Model''),
     emb_Dim = as_int (at_field v ''Dim''),
     emb_TimeoutMs = as_int (at_field v ''TimeoutMs'')\<rparr>"

definition read_LLMConfig :: "rvalue \<Rightarrow> LLMConfig" where
  "read_LLMConfig v = \<lparr>llm_Provider = as_string (at_field v ''Provider''),
     llm_Model = as_string (at_field v ''Model''),
     llm_Temperature = as_float (at_field v ''Temperature''),
     llm_MaxTokens = as_int (at_field v ''MaxTokens''),
     llm_TimeoutMs = as_int (at_field v ''TimeoutMs'')\<rparr>"

definition read_EntityExtractionConfig :: "rvalue \<Rightarrow> EntityExtractionConfig" where
  "read_EntityExtractionConfig v = \<lparr>extract_Enabled = as_bool (at_field v ''Enabled''),
     extract_MaxRetries = as_int (at_field v ''MaxRetries'')\<rparr>"

definition read_AIConfig :: "rvalue \<Rightarrow> AIConfig" where
  "read_AIConfig v = \<lparr>ai_Embeddings = read_EmbeddingsConfig (at_field v ''Embeddings''),
     ai_LLM = read_LLMConfig (at_field v ''LLM''),
     ai_EntityExtraction = read_EntityExtractionConfig (at_field v ''EntityExtraction'')\<rparr>"

definition read_Config :: "rvalue \<Rightarrow> Config" where
  "read_Config v = \<lparr>cfg_Node = read_NodeConfig (at_field v ''Node''),
     cfg_Cluster = read_ClusterConfig (at_field v ''Cluster''),
     cfg_Storage = read_StorageConfig (at_field v ''Storage''),
     cfg_Index = read_IndexConfig (at_field v ''Index''),
     cfg_Query = read_QueryConfig (at_field v ''Query''),
     cfg_Security = read_SecurityConfig (at_field v ''Security''),
     cfg_Observability = read_ObservabilityConfig (at_field v ''Observability''),
     cfg_Repair = read_RepairConfig (at_field v ''Repair''),
     cfg_AI = read_AIConfig (at_field v ''AI'')\<rparr>"

text \<open>The type of a value: the value with every leaf zeroed, as \<^verbatim>\<open>reflect.Zero\<close> makes it.\<close>

fun type_of :: "rvalue \<Rightarrow> rvalue"
and type_of_fields :: "rfields \<Rightarrow> rfields" where
  "type_of (RStruct fs) = RStruct (type_of_fields fs)"
| "type_of (RString s) = RString []"
| "type_of (RInt n) = RInt 0"
| "type_of (RFloat x) = RFloat fl_0"
| "type_of (RBool b) = RBool False"
| "type_of (RStrings ss) = RStrings []"
| "type_of (RKeys ks) = RKeys []"
| "type_of_fields RNil = RNil"
| "type_of_fields (RField n t v fs) = RField n t (type_of v) (type_of_fields fs)"

definition config_type :: rvalue where
  "config_type = type_of (reflect_Config config_DefaultConfig)"

lemmas reflect_defs = reflect_NodeConfig_def reflect_ClusterConfig_def reflect_yaml_WALConfig_def reflect_yaml_MemtableConfig_def reflect_yaml_SSTableConfig_def reflect_yaml_CompactionConfig_def reflect_StorageConfig_def reflect_HNSWConfig_def reflect_IndexConfig_def reflect_QueryConfig_def reflect_AuthConfig_def reflect_TLSConfig_def reflect_SecurityConfig_def reflect_ObservabilityConfig_def reflect_HintedHandoffConfig_def reflect_AntiEntropyConfig_def reflect_RepairConfig_def reflect_EmbeddingsConfig_def reflect_LLMConfig_def reflect_EntityExtractionConfig_def reflect_AIConfig_def reflect_Config_def

lemmas read_defs = read_NodeConfig_def read_ClusterConfig_def read_yaml_WALConfig_def read_yaml_MemtableConfig_def read_yaml_SSTableConfig_def read_yaml_CompactionConfig_def read_StorageConfig_def read_HNSWConfig_def read_IndexConfig_def read_QueryConfig_def read_AuthConfig_def read_TLSConfig_def read_SecurityConfig_def read_ObservabilityConfig_def read_HintedHandoffConfig_def read_AntiEntropyConfig_def read_RepairConfig_def read_EmbeddingsConfig_def read_LLMConfig_def read_EntityExtractionConfig_def read_AIConfig_def read_Config_def

lemma at_field_simps [simp]:
  "at_field (RStruct (RField m t v fs)) n = (if n = m then v else at_field (RStruct fs) n)"
  by (simp add: at_field_def)

lemma type_of_eq [simp]:
  "type_of v = RStruct gs \<longleftrightarrow> (\<exists>fs. v = RStruct fs \<and> type_of_fields fs = gs)"
  "type_of v = RString s \<longleftrightarrow> (\<exists>r. v = RString r) \<and> s = []"
  "type_of v = RInt n \<longleftrightarrow> (\<exists>k. v = RInt k) \<and> n = 0"
  "type_of v = RFloat x \<longleftrightarrow> (\<exists>y. v = RFloat y) \<and> x = fl_0"
  "type_of v = RBool b \<longleftrightarrow> (\<exists>c. v = RBool c) \<and> b = False"
  "type_of v = RStrings ss \<longleftrightarrow> (\<exists>rs. v = RStrings rs) \<and> ss = []"
  "type_of v = RKeys ks \<longleftrightarrow> (\<exists>js. v = RKeys js) \<and> ks = []"
  by (cases v; auto)+

lemma type_of_fields_eq [simp]:
  "type_of_fields fs = RNil \<longleftrightarrow> fs = RNil"
  "type_of_fields fs = RField n' t w gs \<longleftrightarrow>
     (\<exists>v hs. fs = RField n' t v hs \<and> type_of v = w \<and> type_of_fields hs = gs)"
  by (cases fs; auto)+

lemma reflect_read_NodeConfig: "type_of v = type_of (reflect_NodeConfig c) \<Longrightarrow> reflect_NodeConfig (read_NodeConfig v) = v"
  by (auto simp: reflect_NodeConfig_def read_NodeConfig_def)

lemma read_reflect_NodeConfig [simp]: "read_NodeConfig (reflect_NodeConfig c) = c"
  by (simp add: reflect_NodeConfig_def read_NodeConfig_def)

lemma type_reflect_NodeConfig: "type_of (reflect_NodeConfig c) = type_of (reflect_NodeConfig c')"
  by (simp add: reflect_NodeConfig_def)

lemma reflect_read_ClusterConfig: "type_of v = type_of (reflect_ClusterConfig c) \<Longrightarrow> reflect_ClusterConfig (read_ClusterConfig v) = v"
  by (auto simp: reflect_ClusterConfig_def read_ClusterConfig_def)

lemma read_reflect_ClusterConfig [simp]: "read_ClusterConfig (reflect_ClusterConfig c) = c"
  by (simp add: reflect_ClusterConfig_def read_ClusterConfig_def)

lemma type_reflect_ClusterConfig: "type_of (reflect_ClusterConfig c) = type_of (reflect_ClusterConfig c')"
  by (simp add: reflect_ClusterConfig_def)

lemma reflect_read_yaml_WALConfig: "type_of v = type_of (reflect_yaml_WALConfig c) \<Longrightarrow> reflect_yaml_WALConfig (read_yaml_WALConfig v) = v"
  by (auto simp: reflect_yaml_WALConfig_def read_yaml_WALConfig_def)

lemma read_reflect_yaml_WALConfig [simp]: "read_yaml_WALConfig (reflect_yaml_WALConfig c) = c"
  by (simp add: reflect_yaml_WALConfig_def read_yaml_WALConfig_def)

lemma type_reflect_yaml_WALConfig: "type_of (reflect_yaml_WALConfig c) = type_of (reflect_yaml_WALConfig c')"
  by (simp add: reflect_yaml_WALConfig_def)

lemma reflect_read_yaml_MemtableConfig: "type_of v = type_of (reflect_yaml_MemtableConfig c) \<Longrightarrow> reflect_yaml_MemtableConfig (read_yaml_MemtableConfig v) = v"
  by (auto simp: reflect_yaml_MemtableConfig_def read_yaml_MemtableConfig_def)

lemma read_reflect_yaml_MemtableConfig [simp]: "read_yaml_MemtableConfig (reflect_yaml_MemtableConfig c) = c"
  by (simp add: reflect_yaml_MemtableConfig_def read_yaml_MemtableConfig_def)

lemma type_reflect_yaml_MemtableConfig: "type_of (reflect_yaml_MemtableConfig c) = type_of (reflect_yaml_MemtableConfig c')"
  by (simp add: reflect_yaml_MemtableConfig_def)

lemma reflect_read_yaml_SSTableConfig: "type_of v = type_of (reflect_yaml_SSTableConfig c) \<Longrightarrow> reflect_yaml_SSTableConfig (read_yaml_SSTableConfig v) = v"
  by (auto simp: reflect_yaml_SSTableConfig_def read_yaml_SSTableConfig_def)

lemma read_reflect_yaml_SSTableConfig [simp]: "read_yaml_SSTableConfig (reflect_yaml_SSTableConfig c) = c"
  by (simp add: reflect_yaml_SSTableConfig_def read_yaml_SSTableConfig_def)

lemma type_reflect_yaml_SSTableConfig: "type_of (reflect_yaml_SSTableConfig c) = type_of (reflect_yaml_SSTableConfig c')"
  by (simp add: reflect_yaml_SSTableConfig_def)

lemma reflect_read_yaml_CompactionConfig: "type_of v = type_of (reflect_yaml_CompactionConfig c) \<Longrightarrow> reflect_yaml_CompactionConfig (read_yaml_CompactionConfig v) = v"
  by (auto simp: reflect_yaml_CompactionConfig_def read_yaml_CompactionConfig_def)

lemma read_reflect_yaml_CompactionConfig [simp]: "read_yaml_CompactionConfig (reflect_yaml_CompactionConfig c) = c"
  by (simp add: reflect_yaml_CompactionConfig_def read_yaml_CompactionConfig_def)

lemma type_reflect_yaml_CompactionConfig: "type_of (reflect_yaml_CompactionConfig c) = type_of (reflect_yaml_CompactionConfig c')"
  by (simp add: reflect_yaml_CompactionConfig_def)

lemma reflect_read_StorageConfig: "type_of v = type_of (reflect_StorageConfig c) \<Longrightarrow> reflect_StorageConfig (read_StorageConfig v) = v"
  by (auto simp: reflect_StorageConfig_def read_StorageConfig_def reflect_read_yaml_WALConfig [of _ "storage_WAL c"] reflect_read_yaml_MemtableConfig [of _ "storage_Memtable c"] reflect_read_yaml_SSTableConfig [of _ "storage_SSTable c"] reflect_read_yaml_CompactionConfig [of _ "storage_Compaction c"])

lemma read_reflect_StorageConfig [simp]: "read_StorageConfig (reflect_StorageConfig c) = c"
  by (simp add: reflect_StorageConfig_def read_StorageConfig_def)

lemma type_reflect_StorageConfig: "type_of (reflect_StorageConfig c) = type_of (reflect_StorageConfig c')"
  by (simp add: reflect_StorageConfig_def) (intro conjI type_reflect_yaml_WALConfig type_reflect_yaml_MemtableConfig type_reflect_yaml_SSTableConfig type_reflect_yaml_CompactionConfig)

lemma reflect_read_HNSWConfig: "type_of v = type_of (reflect_HNSWConfig c) \<Longrightarrow> reflect_HNSWConfig (read_HNSWConfig v) = v"
  by (auto simp: reflect_HNSWConfig_def read_HNSWConfig_def)

lemma read_reflect_HNSWConfig [simp]: "read_HNSWConfig (reflect_HNSWConfig c) = c"
  by (simp add: reflect_HNSWConfig_def read_HNSWConfig_def)

lemma type_reflect_HNSWConfig: "type_of (reflect_HNSWConfig c) = type_of (reflect_HNSWConfig c')"
  by (simp add: reflect_HNSWConfig_def)

lemma reflect_read_IndexConfig: "type_of v = type_of (reflect_IndexConfig c) \<Longrightarrow> reflect_IndexConfig (read_IndexConfig v) = v"
  by (auto simp: reflect_IndexConfig_def read_IndexConfig_def reflect_read_HNSWConfig [of _ "index_HNSW c"])

lemma read_reflect_IndexConfig [simp]: "read_IndexConfig (reflect_IndexConfig c) = c"
  by (simp add: reflect_IndexConfig_def read_IndexConfig_def)

lemma type_reflect_IndexConfig: "type_of (reflect_IndexConfig c) = type_of (reflect_IndexConfig c')"
  by (simp add: reflect_IndexConfig_def) (intro conjI type_reflect_HNSWConfig)

lemma reflect_read_QueryConfig: "type_of v = type_of (reflect_QueryConfig c) \<Longrightarrow> reflect_QueryConfig (read_QueryConfig v) = v"
  by (auto simp: reflect_QueryConfig_def read_QueryConfig_def)

lemma read_reflect_QueryConfig [simp]: "read_QueryConfig (reflect_QueryConfig c) = c"
  by (simp add: reflect_QueryConfig_def read_QueryConfig_def)

lemma type_reflect_QueryConfig: "type_of (reflect_QueryConfig c) = type_of (reflect_QueryConfig c')"
  by (simp add: reflect_QueryConfig_def)

lemma reflect_read_AuthConfig: "type_of v = type_of (reflect_AuthConfig c) \<Longrightarrow> reflect_AuthConfig (read_AuthConfig v) = v"
  by (auto simp: reflect_AuthConfig_def read_AuthConfig_def)

lemma read_reflect_AuthConfig [simp]: "read_AuthConfig (reflect_AuthConfig c) = c"
  by (simp add: reflect_AuthConfig_def read_AuthConfig_def)

lemma type_reflect_AuthConfig: "type_of (reflect_AuthConfig c) = type_of (reflect_AuthConfig c')"
  by (simp add: reflect_AuthConfig_def)

lemma reflect_read_TLSConfig: "type_of v = type_of (reflect_TLSConfig c) \<Longrightarrow> reflect_TLSConfig (read_TLSConfig v) = v"
  by (auto simp: reflect_TLSConfig_def read_TLSConfig_def)

lemma read_reflect_TLSConfig [simp]: "read_TLSConfig (reflect_TLSConfig c) = c"
  by (simp add: reflect_TLSConfig_def read_TLSConfig_def)

lemma type_reflect_TLSConfig: "type_of (reflect_TLSConfig c) = type_of (reflect_TLSConfig c')"
  by (simp add: reflect_TLSConfig_def)

lemma reflect_read_SecurityConfig: "type_of v = type_of (reflect_SecurityConfig c) \<Longrightarrow> reflect_SecurityConfig (read_SecurityConfig v) = v"
  by (auto simp: reflect_SecurityConfig_def read_SecurityConfig_def reflect_read_AuthConfig [of _ "security_Auth c"] reflect_read_TLSConfig [of _ "security_TLS c"])

lemma read_reflect_SecurityConfig [simp]: "read_SecurityConfig (reflect_SecurityConfig c) = c"
  by (simp add: reflect_SecurityConfig_def read_SecurityConfig_def)

lemma type_reflect_SecurityConfig: "type_of (reflect_SecurityConfig c) = type_of (reflect_SecurityConfig c')"
  by (simp add: reflect_SecurityConfig_def) (intro conjI type_reflect_AuthConfig type_reflect_TLSConfig)

lemma reflect_read_ObservabilityConfig: "type_of v = type_of (reflect_ObservabilityConfig c) \<Longrightarrow> reflect_ObservabilityConfig (read_ObservabilityConfig v) = v"
  by (auto simp: reflect_ObservabilityConfig_def read_ObservabilityConfig_def)

lemma read_reflect_ObservabilityConfig [simp]: "read_ObservabilityConfig (reflect_ObservabilityConfig c) = c"
  by (simp add: reflect_ObservabilityConfig_def read_ObservabilityConfig_def)

lemma type_reflect_ObservabilityConfig: "type_of (reflect_ObservabilityConfig c) = type_of (reflect_ObservabilityConfig c')"
  by (simp add: reflect_ObservabilityConfig_def)

lemma reflect_read_HintedHandoffConfig: "type_of v = type_of (reflect_HintedHandoffConfig c) \<Longrightarrow> reflect_HintedHandoffConfig (read_HintedHandoffConfig v) = v"
  by (auto simp: reflect_HintedHandoffConfig_def read_HintedHandoffConfig_def)

lemma read_reflect_HintedHandoffConfig [simp]: "read_HintedHandoffConfig (reflect_HintedHandoffConfig c) = c"
  by (simp add: reflect_HintedHandoffConfig_def read_HintedHandoffConfig_def)

lemma type_reflect_HintedHandoffConfig: "type_of (reflect_HintedHandoffConfig c) = type_of (reflect_HintedHandoffConfig c')"
  by (simp add: reflect_HintedHandoffConfig_def)

lemma reflect_read_AntiEntropyConfig: "type_of v = type_of (reflect_AntiEntropyConfig c) \<Longrightarrow> reflect_AntiEntropyConfig (read_AntiEntropyConfig v) = v"
  by (auto simp: reflect_AntiEntropyConfig_def read_AntiEntropyConfig_def)

lemma read_reflect_AntiEntropyConfig [simp]: "read_AntiEntropyConfig (reflect_AntiEntropyConfig c) = c"
  by (simp add: reflect_AntiEntropyConfig_def read_AntiEntropyConfig_def)

lemma type_reflect_AntiEntropyConfig: "type_of (reflect_AntiEntropyConfig c) = type_of (reflect_AntiEntropyConfig c')"
  by (simp add: reflect_AntiEntropyConfig_def)

lemma reflect_read_RepairConfig: "type_of v = type_of (reflect_RepairConfig c) \<Longrightarrow> reflect_RepairConfig (read_RepairConfig v) = v"
  by (auto simp: reflect_RepairConfig_def read_RepairConfig_def reflect_read_HintedHandoffConfig [of _ "repair_HintedHandoff c"] reflect_read_AntiEntropyConfig [of _ "repair_AntiEntropy c"])

lemma read_reflect_RepairConfig [simp]: "read_RepairConfig (reflect_RepairConfig c) = c"
  by (simp add: reflect_RepairConfig_def read_RepairConfig_def)

lemma type_reflect_RepairConfig: "type_of (reflect_RepairConfig c) = type_of (reflect_RepairConfig c')"
  by (simp add: reflect_RepairConfig_def) (intro conjI type_reflect_HintedHandoffConfig type_reflect_AntiEntropyConfig)

lemma reflect_read_EmbeddingsConfig: "type_of v = type_of (reflect_EmbeddingsConfig c) \<Longrightarrow> reflect_EmbeddingsConfig (read_EmbeddingsConfig v) = v"
  by (auto simp: reflect_EmbeddingsConfig_def read_EmbeddingsConfig_def)

lemma read_reflect_EmbeddingsConfig [simp]: "read_EmbeddingsConfig (reflect_EmbeddingsConfig c) = c"
  by (simp add: reflect_EmbeddingsConfig_def read_EmbeddingsConfig_def)

lemma type_reflect_EmbeddingsConfig: "type_of (reflect_EmbeddingsConfig c) = type_of (reflect_EmbeddingsConfig c')"
  by (simp add: reflect_EmbeddingsConfig_def)

lemma reflect_read_LLMConfig: "type_of v = type_of (reflect_LLMConfig c) \<Longrightarrow> reflect_LLMConfig (read_LLMConfig v) = v"
  by (auto simp: reflect_LLMConfig_def read_LLMConfig_def)

lemma read_reflect_LLMConfig [simp]: "read_LLMConfig (reflect_LLMConfig c) = c"
  by (simp add: reflect_LLMConfig_def read_LLMConfig_def)

lemma type_reflect_LLMConfig: "type_of (reflect_LLMConfig c) = type_of (reflect_LLMConfig c')"
  by (simp add: reflect_LLMConfig_def)

lemma reflect_read_EntityExtractionConfig: "type_of v = type_of (reflect_EntityExtractionConfig c) \<Longrightarrow> reflect_EntityExtractionConfig (read_EntityExtractionConfig v) = v"
  by (auto simp: reflect_EntityExtractionConfig_def read_EntityExtractionConfig_def)

lemma read_reflect_EntityExtractionConfig [simp]: "read_EntityExtractionConfig (reflect_EntityExtractionConfig c) = c"
  by (simp add: reflect_EntityExtractionConfig_def read_EntityExtractionConfig_def)

lemma type_reflect_EntityExtractionConfig: "type_of (reflect_EntityExtractionConfig c) = type_of (reflect_EntityExtractionConfig c')"
  by (simp add: reflect_EntityExtractionConfig_def)

lemma reflect_read_AIConfig: "type_of v = type_of (reflect_AIConfig c) \<Longrightarrow> reflect_AIConfig (read_AIConfig v) = v"
  by (auto simp: reflect_AIConfig_def read_AIConfig_def reflect_read_EmbeddingsConfig [of _ "ai_Embeddings c"] reflect_read_LLMConfig [of _ "ai_LLM c"] reflect_read_EntityExtractionConfig [of _ "ai_EntityExtraction c"])

lemma read_reflect_AIConfig [simp]: "read_AIConfig (reflect_AIConfig c) = c"
  by (simp add: reflect_AIConfig_def read_AIConfig_def)

lemma type_reflect_AIConfig: "type_of (reflect_AIConfig c) = type_of (reflect_AIConfig c')"
  by (simp add: reflect_AIConfig_def) (intro conjI type_reflect_EmbeddingsConfig type_reflect_LLMConfig type_reflect_EntityExtractionConfig)

lemma reflect_read_Config: "type_of v = type_of (reflect_Config c) \<Longrightarrow> reflect_Config (read_Config v) = v"
  by (auto simp: reflect_Config_def read_Config_def reflect_read_NodeConfig [of _ "cfg_Node c"] reflect_read_ClusterConfig [of _ "cfg_Cluster c"] reflect_read_StorageConfig [of _ "cfg_Storage c"] reflect_read_IndexConfig [of _ "cfg_Index c"] reflect_read_QueryConfig [of _ "cfg_Query c"] reflect_read_SecurityConfig [of _ "cfg_Security c"] reflect_read_ObservabilityConfig [of _ "cfg_Observability c"] reflect_read_RepairConfig [of _ "cfg_Repair c"] reflect_read_AIConfig [of _ "cfg_AI c"])

lemma read_reflect_Config [simp]: "read_Config (reflect_Config c) = c"
  by (simp add: reflect_Config_def read_Config_def)

lemma type_reflect_Config: "type_of (reflect_Config c) = type_of (reflect_Config c')"
  by (simp add: reflect_Config_def) (intro conjI type_reflect_NodeConfig type_reflect_ClusterConfig type_reflect_StorageConfig type_reflect_IndexConfig type_reflect_QueryConfig type_reflect_SecurityConfig type_reflect_ObservabilityConfig type_reflect_RepairConfig type_reflect_AIConfig)

lemma type_of_config: "type_of (reflect_Config c) = config_type"
  unfolding config_type_def by (rule type_reflect_Config)

lemma reflect_read: "type_of v = config_type \<Longrightarrow> reflect_Config (read_Config v) = v"
  using reflect_read_Config [of v config_DefaultConfig] by (simp add: config_type_def)

end
