(* ===== verification/Config_Validate.thy ===== *)
theory Config_Validate
  imports Config_Model
begin

text \<open>
  The strict validation of \<^verbatim>\<open>core/config/validate.go\<close>: every check of every section in the order
  of the source, with the message of its error. The file system it asks about the data directory and the
  TLS files is a parameter; creating a missing data directory changes it.
\<close>

section \<open>Files\<close>

datatype stat_info = StatDir | StatFile | StatMissing | StatDenied

text \<open>What \<^verbatim>\<open>os.Stat\<close> finds, what \<^verbatim>\<open>filepath.Abs\<close> makes of a path, and whether
  \<^verbatim>\<open>os.MkdirAll\<close> succeeds there and what it leaves behind.\<close>

record host =
  h_stat :: "string \<Rightarrow> stat_info"
  h_abs :: "string \<Rightarrow> string option"
  h_mkdir :: "string \<Rightarrow> bool"

definition MkdirAll :: "string \<Rightarrow> host \<Rightarrow> host \<times> unit go" where
  "MkdirAll p h = (if h_mkdir h p then (h\<lparr>h_stat := (h_stat h)(p := StatDir)\<rparr>, Inr ())
                   else (h, Inl (Fail ''mkdir'')))"

section \<open>Sections\<close>

text \<open>A run of \<^verbatim>\<open>if\<close> statements that return an error.\<close>

fun refuse :: "(bool \<times> string) list \<Rightarrow> unit go" where
  "refuse [] = Inr ()"
| "refuse ((bad, msg) # checks) = (if bad then Inl (Fail msg) else refuse checks)"

definition node_dir :: "string \<Rightarrow> host \<Rightarrow> host \<times> unit go" where
  "node_dir dir h =
     (case h_abs h dir of
        None \<Rightarrow> (h, Inl (Fail ''invalid data_dir path''))
      | Some p \<Rightarrow>
          (case h_stat h p of
             StatMissing \<Rightarrow> (let (h', r) = MkdirAll p h in (h', rwrap ''cannot create data_dir'' r))
           | StatDenied \<Rightarrow> (h, Inl (Fail ''cannot access data_dir''))
           | StatFile \<Rightarrow> (h, Inl (Fail ''data_dir is not a directory''))
           | StatDir \<Rightarrow> (h, Inr ())))"

definition validateNode :: "Config \<Rightarrow> host \<Rightarrow> host \<times> unit go" where
  "validateNode c h = (let n = cfg_Node c in
     case refuse [
     (node_ID n = [], ''id is required''),
     (node_ListenAddress n = [], ''listen_address is required''),
     (node_GRPCPort n \<le> 0 \<or> node_GRPCPort n > 65535, ''grpc_port must be between 1 and 65535''),
     (node_HTTPPort n \<le> 0 \<or> node_HTTPPort n > 65535, ''http_port must be between 1 and 65535''),
     (node_GRPCPort n = node_HTTPPort n, ''grpc_port and http_port must be different''),
     (node_DataDir n = [], ''data_dir is required'')] of
       Inl e \<Rightarrow> (h, Inl e)
     | Inr _ \<Rightarrow> node_dir (node_DataDir n) h)"

fun check_seeds :: "string list \<Rightarrow> unit go" where
  "check_seeds [] = Inr ()"
| "check_seeds (seed # seeds) =
     rbind (refuse [
       (seed = [], ''seed_nodes[%d] cannot be empty''),
       (length seed < 3 \<or> CHR '':'' \<notin> set seed, ''seed_nodes[%d] must be in format host:port'')])
       (\<lambda>_. check_seeds seeds)"

definition cluster_bounds :: "ClusterConfig \<Rightarrow> (bool \<times> string) list" where
  "cluster_bounds k = [
     (cluster_ReplicationFactor k < 1, ''replication_factor must be at least 1''),
     (cluster_ReplicationFactor k > 10, ''replication_factor should not exceed 10''),
     (cluster_GossipIntervalMs k < 100, ''gossip_interval_ms must be at least 100ms''),
     (cluster_FailureTimeoutMs k < 1000, ''failure_timeout_ms must be at least 1000ms''),
     (cluster_FailureTimeoutMs k \<le> cluster_GossipIntervalMs k, ''failure_timeout_ms''),
     (cluster_GossipPort k < 1 \<or> cluster_GossipPort k > 65535, ''gossip_port must be between 1 and 65535''),
     (cluster_CleanupIntervalMs k < 1000, ''cleanup_interval_ms must be at least 1000ms''),
     (cluster_Fanout k < 1, ''fanout must be at least 1''),
     (cluster_Fanout k > 10, ''fanout should not exceed 10''),
     (cluster_VirtualNodesPerNode k < 1, ''virtual_nodes_per_node must be at least 1''),
     (cluster_VirtualNodesPerNode k > 1000, ''virtual_nodes_per_node should not exceed 1000'')]"

definition validateCluster :: "Config \<Rightarrow> unit go" where
  "validateCluster c = (let k = cfg_Cluster c in
     rbind (refuse [(cluster_SeedNodes k = [], ''at least one seed node is required'')])
       (\<lambda>_. rbind (check_seeds (cluster_SeedNodes k)) (\<lambda>_. refuse (cluster_bounds k))))"

definition validateStorage :: "Config \<Rightarrow> unit go" where
  "validateStorage c =
     (let w = storage_WAL (cfg_Storage c); m = storage_Memtable (cfg_Storage c);
          s = storage_SSTable (cfg_Storage c); p = storage_Compaction (cfg_Storage c)
      in refuse [
     (wal_MaxFileMB w < 1, ''wal.max_file_mb must be at least 1''),
     (wal_MaxFileMB w > 10240, ''wal.max_file_mb should not exceed 10240 (10GB)''),
     (memtable_MaxMB m < 1, ''memtable.max_mb must be at least 1''),
     (memtable_MaxMB m > 10240, ''memtable.max_mb should not exceed 10240 (10GB)''),
     (sstable_BlockSizeKB s < 1, ''sstable.block_size_kb must be at least 1''),
     (sstable_BlockSizeKB s > 1024, ''sstable.block_size_kb should not exceed 1024 (1MB)''),
     (compaction_MaxConcurrent p < 1, ''compaction.max_concurrent must be at least 1''),
     (compaction_MaxConcurrent p > 10, ''compaction.max_concurrent should not exceed 10''),
     (compaction_SizeTierThreshold p < 2, ''compaction.size_tier_threshold must be at least 2'')])"

definition validateIndex :: "Config \<Rightarrow> unit go" where
  "validateIndex c = (let x = cfg_Index c; h = index_HNSW x in refuse [
     (hnsw_M h < 2, ''index.hnsw.m must be at least 2''),
     (hnsw_M h > 128, ''index.hnsw.m should not exceed 128''),
     (hnsw_EfConstruction h < hnsw_M h, ''index.hnsw.ef_construction''),
     (hnsw_EfConstruction h > 1000, ''index.hnsw.ef_construction should not exceed 1000''),
     (hnsw_EfSearch h < 1, ''index.hnsw.ef_search must be at least 1''),
     (hnsw_EfSearch h > 1000, ''index.hnsw.ef_search should not exceed 1000''),
     (hnsw_ShardCount h < 1, ''index.hnsw.shard_count must be at least 1''),
     (hnsw_ShardCount h > 64, ''index.hnsw.shard_count should not exceed 64''),
     (index_GraphCacheSize x < 0, ''index.graph_cache_size must be non-negative''),
     (index_EntityCacheSize x < 0, ''index.entity_cache_size must be non-negative''),
     (index_ReloadIntervalMs x < 100, ''index.reload_interval_ms must be at least 100ms''),
     (index_ReloadIntervalMs x > 600000, ''index.reload_interval_ms should not exceed 600000 (10 minutes)'')])"

definition validateQuery :: "Config \<Rightarrow> unit go" where
  "validateQuery c = (let q = cfg_Query c in refuse [
     (query_DefaultConsistency q \<notin> {''ONE'', ''QUORUM'', ''ALL''}, ''query.default_consistency must be ONE, QUORUM, or ALL''),
     (query_MaxGraphHops q < 0, ''query.max_graph_hops must be non-negative''),
     (query_MaxGraphHops q > 10, ''query.max_graph_hops should not exceed 10''),
     (query_TimeoutMs q < 1, ''query.timeout_ms must be at least 1''),
     (query_TimeoutMs q > 60000, ''query.timeout_ms should not exceed 60000 (60s)''),
     (query_DefaultK q < 1, ''query.default_k must be at least 1''),
     (query_DefaultK q > 10000, ''query.default_k should not exceed 10000''),
     (query_MaxCandidates q < 1, ''query.max_candidates must be at least 1''),
     (query_MaxCandidates q > 100000, ''query.max_candidates should not exceed 100000'')])"

fun check_keys :: "StaticAPIKeyConfig list \<Rightarrow> unit go" where
  "check_keys [] = Inr ()"
| "check_keys (k # ks) =
     rbind (refuse [
       (apikey_Key k = [], ''security.auth.static_api_keys[%d].key is required''),
       (apikey_TenantID k = [], ''security.auth.static_api_keys[%d].tenant_id is required'')])
       (\<lambda>_. check_keys ks)"

definition absent :: "host \<Rightarrow> string \<Rightarrow> bool" where
  "absent h p \<longleftrightarrow> h_stat h p \<in> {StatMissing, StatDenied}"

definition check_tls :: "TLSConfig \<Rightarrow> host \<Rightarrow> unit go" where
  "check_tls t h = refuse [
     (tls_CertFile t = [], ''security.tls.cert_file is required when TLS is enabled''),
     (tls_KeyFile t = [], ''security.tls.key_file is required when TLS is enabled''),
     (absent h (tls_CertFile t), ''security.tls.cert_file does not exist''),
     (absent h (tls_KeyFile t), ''security.tls.key_file does not exist''),
     (tls_CAFile t \<noteq> [] \<and> absent h (tls_CAFile t), ''security.tls.ca_file does not exist'')]"

definition validateSecurity :: "Config \<Rightarrow> host \<Rightarrow> unit go" where
  "validateSecurity c h = (let a = security_Auth (cfg_Security c); t = security_TLS (cfg_Security c) in
     rbind (refuse [(auth_APIKeyHeader a = [], ''security.auth.api_key_header is required when auth is enabled'')])
       (\<lambda>_. rbind (check_keys (auth_StaticAPIKeys a))
         (\<lambda>_. if tls_Enabled t then check_tls t h else Inr ())))"

definition validateObservability :: "Config \<Rightarrow> unit go" where
  "validateObservability c = refuse [
     (obs_LogLevel (cfg_Observability c) \<notin> {''DEBUG'', ''INFO'', ''WARN'', ''ERROR''},
      ''observability.log_level must be DEBUG, INFO, WARN, or ERROR'')]"

definition validateRepair :: "Config \<Rightarrow> unit go" where
  "validateRepair c = (let h = repair_HintedHandoff (cfg_Repair c); e = repair_AntiEntropy (cfg_Repair c) in
     rbind (if handoff_Enabled h then refuse [
     (handoff_MaxHintsPerNode h < 1, ''repair.hinted_handoff.max_hints_per_node must be at least 1''),
     (handoff_TTLMinutes h < 1, ''repair.hinted_handoff.ttl_minutes must be at least 1''),
     (handoff_TTLMinutes h > 10080, ''repair.hinted_handoff.ttl_minutes should not exceed 10080 (7 days)''),
     (handoff_MaxSizeMB h < 1, ''repair.hinted_handoff.max_size_mb must be at least 1''),
     (handoff_MaxSizeMB h > 1048576, ''repair.hinted_handoff.max_size_mb should not exceed 1048576 (1TB)''),
     (handoff_FlushIntervalMs h < 100, ''repair.hinted_handoff.flush_interval_ms must be at least 100ms''),
     (handoff_FlushIntervalMs h > 60000, ''repair.hinted_handoff.flush_interval_ms should not exceed 60000 (60s)'')] else Inr ())
     (\<lambda>_. if entropy_Enabled e then refuse [
     (entropy_IntervalMinutes e < 1, ''repair.anti_entropy.interval_minutes must be at least 1''),
     (entropy_IntervalMinutes e > 10080, ''repair.anti_entropy.interval_minutes should not exceed 10080 (7 days)'')] else Inr ()))"

definition validProviders :: "string set" where
  "validProviders = {''openai'', ''ollama'', ''local'', ''custom''}"

definition validateAI :: "Config \<Rightarrow> unit go" where
  "validateAI c = (let m = ai_Embeddings (cfg_AI c); l = ai_LLM (cfg_AI c); x = ai_EntityExtraction (cfg_AI c) in
     rbind (refuse [
     (emb_Provider m \<notin> validProviders, ''ai.embeddings.provider must be openai, ollama, local, or custom''),
     (emb_Model m = [], ''ai.embeddings.model is required''),
     (emb_Dim m < 1, ''ai.embeddings.dim must be at least 1''),
     (emb_Dim m > 16384, ''ai.embeddings.dim should not exceed 16384''),
     (emb_TimeoutMs m < 100, ''ai.embeddings.timeout_ms must be at least 100''),
     (emb_TimeoutMs m > 60000, ''ai.embeddings.timeout_ms should not exceed 60000 (60s)''),
     (llm_Provider l \<notin> validProviders, ''ai.llm.provider must be openai, ollama, local, or custom''),
     (llm_Model l = [], ''ai.llm.model is required''),
     (fl_lt (llm_Temperature l) fl_0 \<or> fl_lt (Finite False 2) (llm_Temperature l), ''ai.llm.temperature must be between 0.0 and 2.0''),
     (llm_MaxTokens l < 1, ''ai.llm.max_tokens must be at least 1''),
     (llm_MaxTokens l > 32768, ''ai.llm.max_tokens should not exceed 32768''),
     (llm_TimeoutMs l < 100, ''ai.llm.timeout_ms must be at least 100''),
     (llm_TimeoutMs l > 120000, ''ai.llm.timeout_ms should not exceed 120000 (120s)'')])
     (\<lambda>_. if extract_Enabled x then refuse [
     (llm_Provider l = [] \<or> llm_Provider l \<notin> validProviders, ''ai.entity_extraction.enabled requires ai.llm.provider to be configured''),
     (llm_Model l = [], ''ai.entity_extraction.enabled requires ai.llm.model to be configured''),
     (extract_MaxRetries x < 0, ''ai.entity_extraction.max_retries must be non-negative''),
     (extract_MaxRetries x > 10, ''ai.entity_extraction.max_retries should not exceed 10'')] else Inr ()))"

definition Validate :: "Config \<Rightarrow> host \<Rightarrow> host \<times> unit go" where
  "Validate c h =
     (case validateNode c h of
        (h', Inl e) \<Rightarrow> (h', rwrap ''node config'' (Inl e))
      | (h', Inr _) \<Rightarrow> (h',
          rbind (rwrap ''cluster config'' (validateCluster c)) (\<lambda>_.
          rbind (rwrap ''storage config'' (validateStorage c)) (\<lambda>_.
          rbind (rwrap ''index config'' (validateIndex c)) (\<lambda>_.
          rbind (rwrap ''query config'' (validateQuery c)) (\<lambda>_.
          rbind (rwrap ''security config'' (validateSecurity c h')) (\<lambda>_.
          rbind (rwrap ''observability config'' (validateObservability c)) (\<lambda>_.
          rbind (rwrap ''repair config'' (validateRepair c)) (\<lambda>_.
          rwrap ''ai config'' (validateAI c)))))))))) "

section \<open>What a valid configuration satisfies\<close>

lemma refuse_ok [simp]: "refuse checks = Inr u \<longleftrightarrow> (\<forall>(bad, msg)\<in>set checks. \<not> bad)"
  by (induction checks rule: refuse.induct) auto

lemma check_seeds_ok [simp]:
  "check_seeds seeds = Inr u \<longleftrightarrow> (\<forall>s\<in>set seeds. 3 \<le> length s \<and> CHR '':'' \<in> set s)"
  by (induction seeds) (auto simp: rbind_eq_Inr)

lemma check_keys_ok [simp]:
  "check_keys ks = Inr u \<longleftrightarrow> (\<forall>k\<in>set ks. apikey_Key k \<noteq> [] \<and> apikey_TenantID k \<noteq> [])"
  by (induction ks) (auto simp: rbind_eq_Inr)

lemma rbind_unit [simp]: "rbind m (\<lambda>_. k) = Inr (u :: unit) \<longleftrightarrow> (\<exists>x. m = Inr x) \<and> k = Inr ()"
  by (cases m) auto

lemma Validate_ok:
  "snd (Validate c h) = Inr () \<longleftrightarrow>
     snd (validateNode c h) = Inr () \<and> validateCluster c = Inr () \<and> validateStorage c = Inr () \<and>
     validateIndex c = Inr () \<and> validateQuery c = Inr () \<and>
     validateSecurity c (fst (validateNode c h)) = Inr () \<and> validateObservability c = Inr () \<and>
     validateRepair c = Inr () \<and> validateAI c = Inr ()"
  by (auto simp: Validate_def rwrap_eq_Inr split: prod.splits sum.splits)

end
