(* ===== verification/Config_Load.thy ===== *)
theory Config_Load
  imports Config_Validate
begin

text \<open>
  Loading a configuration: \<^verbatim>\<open>core/config/loader.go\<close> and \<^verbatim>\<open>core/config/env.go\<close>. The
  defaults are overlaid by the YAML file and then by the environment, both through reflection, and the result
  is validated. The YAML decoder (\<^verbatim>\<open>gopkg.in/yaml.v3\<close>) and the conversion of a decimal
  numeral to the nearest \<^verbatim>\<open>float64\<close> are parameters. Environment names are compared after
  \<^verbatim>\<open>strings.ToLower\<close>; the keys they are compared with are ASCII.
\<close>

section \<open>Merging the file over the defaults\<close>

fun isZeroValue :: "rvalue \<Rightarrow> bool"
and zero_fields :: "rfields \<Rightarrow> bool" where
  "isZeroValue (RString s) = (s = [])"
| "isZeroValue (RInt n) = (n = 0)"
| "isZeroValue (RFloat x) = fl_eq x fl_0"
| "isZeroValue (RBool b) = (\<not> b)"
| "isZeroValue (RStrings ss) = (ss = [])"
| "isZeroValue (RKeys ks) = (ks = [])"
| "isZeroValue (RStruct fs) = zero_fields fs"
| "zero_fields RNil = True"
| "zero_fields (RField n t v fs) = (isZeroValue v \<and> zero_fields fs)"

text \<open>Fields are taken in pairs; reading a value as another kind panics.\<close>

fun mergeStruct :: "rvalue \<Rightarrow> rvalue \<Rightarrow> rvalue go"
and merge_fields :: "rfields \<Rightarrow> rfields \<Rightarrow> rfields go"
and merge_field :: "rvalue \<Rightarrow> rvalue \<Rightarrow> rvalue go" where
  "mergeStruct (RStruct ds) src =
     (case src of RStruct ss \<Rightarrow> rbind (merge_fields ds ss) (\<lambda>fs. Inr (RStruct fs))
                | _ \<Rightarrow> Inl (Fail ''both values must be structs''))"
| "mergeStruct dst src = Inl (Fail ''both values must be structs'')"
| "merge_fields RNil ss = Inr RNil"
| "merge_fields (RField n t d ds) ss =
     (case ss of
        RNil \<Rightarrow> Inl Panic
      | RField n' t' s ss' \<Rightarrow>
          rbind (merge_field d s) (\<lambda>v. rbind (merge_fields ds ss') (\<lambda>vs. Inr (RField n t v vs))))"
| "merge_field (RStruct ds) s = rwrap ''failed to merge field'' (mergeStruct (RStruct ds) s)"
| "merge_field (RStrings xs) s =
     (case s of RStrings ys \<Rightarrow> Inr (if 0 < length ys then s else RStrings xs) | _ \<Rightarrow> Inl Panic)"
| "merge_field (RKeys xs) s =
     (case s of RKeys ys \<Rightarrow> Inr (if 0 < length ys then s else RKeys xs) | _ \<Rightarrow> Inl Panic)"
| "merge_field (RString x) s =
     (case s of RString y \<Rightarrow> Inr (if y \<noteq> [] then s else RString x) | _ \<Rightarrow> Inl Panic)"
| "merge_field (RInt x) s =
     (case s of RInt y \<Rightarrow> Inr (if y \<noteq> 0 then s else RInt x) | _ \<Rightarrow> Inl Panic)"
| "merge_field (RFloat x) s =
     (case s of RFloat y \<Rightarrow> Inr (if \<not> fl_eq y fl_0 then s else RFloat x) | _ \<Rightarrow> Inl Panic)"
| "merge_field (RBool x) s = (case s of RBool y \<Rightarrow> Inr s | _ \<Rightarrow> Inl Panic)"

definition mergeConfig :: "Config \<Rightarrow> Config \<Rightarrow> Config go" where
  "mergeConfig dst src =
     rbind (mergeStruct (reflect_Config dst) (reflect_Config src)) (\<lambda>v. Inr (read_Config v))"

section \<open>Names of environment variables\<close>

definition between :: "char \<Rightarrow> char \<Rightarrow> char \<Rightarrow> bool" where
  "between a b c \<longleftrightarrow> (of_char a :: nat) \<le> of_char c \<and> (of_char c :: nat) \<le> of_char b"

definition lower_char :: "char \<Rightarrow> char" where
  "lower_char c = (if between CHR ''A'' CHR ''Z'' c then char_of (of_char c + 32 :: nat) else c)"

text \<open>\<^verbatim>\<open>strings.ToLower\<close> where its result is ASCII: the letters, and the Kelvin sign.\<close>

fun ToLower :: "string \<Rightarrow> string" where
  "ToLower [] = []"
| "ToLower (a # s) =
     (if a = CHR 0xE2 \<and> take 2 s = [CHR 0x84, CHR 0xAA] then CHR ''k'' # ToLower (drop 2 s)
      else lower_char a # ToLower s)"

definition snake_break :: "string \<Rightarrow> nat \<Rightarrow> bool" where
  "snake_break s i \<longleftrightarrow> between CHR ''A'' CHR ''Z'' (s ! i) \<and> 0 < i \<and>
     (let prev = s ! (i - 1);
          nextIsLower = (i + 1 < length s \<and> between CHR ''a'' CHR ''z'' (s ! (i + 1)));
          prevIsLower = between CHR ''a'' CHR ''z'' prev;
          prevIsUpper = between CHR ''A'' CHR ''Z'' prev
      in prevIsLower \<or> prevIsUpper \<and> nextIsLower)"

definition toSnakeCase :: "string \<Rightarrow> string" where
  "toSnakeCase s = ToLower (concat (map (\<lambda>i. (if snake_break s i then ''_'' else []) @ [s ! i]) [0..<length s]))"

fun join :: "string \<Rightarrow> string list \<Rightarrow> string" where
  "join sep [] = []"
| "join sep [x] = x"
| "join sep (x # y # ys) = x @ sep @ join sep (y # ys)"

record fieldInfo =
  fi_path :: "string list"
  fi_type :: rvalue

definition yaml_name :: "string \<Rightarrow> string \<Rightarrow> string" where
  "yaml_name name tag =
     (if tag \<noteq> [] \<and> tag \<noteq> ''-'' then takeWhile (\<lambda>c. c \<noteq> CHR '','') tag else toSnakeCase name)"

text \<open>The paths are values here; \<^verbatim>\<open>append(path, name)\<close> shares its array with the paths of
  sibling fields only at a depth of four, and no field lies that deep.\<close>

fun buildFieldMapRecursive :: "rvalue \<Rightarrow> string list \<Rightarrow> string list \<Rightarrow> (string \<times> fieldInfo) list \<Rightarrow> (string \<times> fieldInfo) list"
and build_fields :: "rfields \<Rightarrow> string list \<Rightarrow> string list \<Rightarrow> (string \<times> fieldInfo) list \<Rightarrow> (string \<times> fieldInfo) list" where
  "buildFieldMapRecursive (RStruct fs) path yamlPath m = build_fields fs path yamlPath m"
| "buildFieldMapRecursive _ path yamlPath m = m"
| "build_fields RNil path yamlPath m = m"
| "build_fields (RField name tag v fs) path yamlPath m =
     (let newPath = path @ [name];
          newYamlPath = yamlPath @ [yaml_name name tag];
          envKey = ToLower (join ''_'' newYamlPath)
      in build_fields fs path yamlPath
           (case v of RStruct _ \<Rightarrow> buildFieldMapRecursive v newPath newYamlPath m
                    | _ \<Rightarrow> AList.update envKey \<lparr>fi_path = newPath, fi_type = type_of v\<rparr> m))"

definition buildFieldMap :: "rvalue \<Rightarrow> (string \<times> fieldInfo) list" where
  "buildFieldMap t = buildFieldMapRecursive t [] [] []"

section \<open>Values of environment variables\<close>

text \<open>\<^verbatim>\<open>strconv.ParseInt(s, 10, 64)\<close> and \<^verbatim>\<open>strconv.ParseBool\<close>.\<close>

definition ParseInt :: "string \<Rightarrow> int option" where
  "ParseInt s =
     (let neg = (s \<noteq> [] \<and> hd s = CHR ''-''); ds = (if s \<noteq> [] \<and> hd s \<in> {CHR ''-'', CHR ''+''} then tl s else s)
      in if ds = [] \<or> \<not> list_all is_digit ds then None
         else let n = int (undecimal ds) in
              if neg then if n \<le> 2 ^ 63 then Some (- n) else None
              else if n < 2 ^ 63 then Some n else None)"

definition ParseBool :: "string \<Rightarrow> bool option" where
  "ParseBool s =
     (if s \<in> {''1'', ''t'', ''T'', ''TRUE'', ''true'', ''True''} then Some True
      else if s \<in> {''0'', ''f'', ''F'', ''FALSE'', ''false'', ''False''} then Some False else None)"

text \<open>\<^verbatim>\<open>strings.Split(s, ",")\<close> and \<^verbatim>\<open>strings.TrimSpace\<close>: white space in UTF-8.\<close>

fun split_comma :: "string \<Rightarrow> string list" where
  "split_comma [] = [[]]"
| "split_comma (c # s) =
     (if c = CHR '','' then [] # split_comma s
      else case split_comma s of p # ps \<Rightarrow> (c # p) # ps | [] \<Rightarrow> [[c]])"

definition space_runes :: "string list" where
  "space_runes =
     [[CHR 0x09], [CHR 0x0A], [CHR 0x0B], [CHR 0x0C], [CHR 0x0D], [CHR 0x20], [CHR 0xC2, CHR 0x85],
      [CHR 0xC2, CHR 0xA0], [CHR 0xE1, CHR 0x9A, CHR 0x80], [CHR 0xE2, CHR 0x80, CHR 0x80],
      [CHR 0xE2, CHR 0x80, CHR 0x81], [CHR 0xE2, CHR 0x80, CHR 0x82], [CHR 0xE2, CHR 0x80, CHR 0x83],
      [CHR 0xE2, CHR 0x80, CHR 0x84], [CHR 0xE2, CHR 0x80, CHR 0x85], [CHR 0xE2, CHR 0x80, CHR 0x86],
      [CHR 0xE2, CHR 0x80, CHR 0x87], [CHR 0xE2, CHR 0x80, CHR 0x88], [CHR 0xE2, CHR 0x80, CHR 0x89],
      [CHR 0xE2, CHR 0x80, CHR 0x8A], [CHR 0xE2, CHR 0x80, CHR 0xA8], [CHR 0xE2, CHR 0x80, CHR 0xA9],
      [CHR 0xE2, CHR 0x80, CHR 0xAF], [CHR 0xE2, CHR 0x81, CHR 0x9F], [CHR 0xE3, CHR 0x80, CHR 0x80]]"

text \<open>Drops white space in front; \<open>k\<close> counts the bytes left of the character being dropped.\<close>

fun trim_left :: "string list \<Rightarrow> nat \<Rightarrow> string \<Rightarrow> string" where
  "trim_left ws k [] = []"
| "trim_left ws (Suc k) (c # s) = trim_left ws k s"
| "trim_left ws 0 (c # s) =
     (case filter (\<lambda>w. prefix w (c # s)) ws of w # _ \<Rightarrow> trim_left ws (length w - 1) s | [] \<Rightarrow> c # s)"

definition TrimSpace :: "string \<Rightarrow> string" where
  "TrimSpace s = rev (trim_left (map rev space_runes) 0 (rev (trim_left space_runes 0 s)))"

definition env_value :: "(string \<Rightarrow> fl option) \<Rightarrow> string \<Rightarrow> rvalue \<Rightarrow> rvalue go" where
  "env_value ParseFloat s t =
     (case t of
        RString _ \<Rightarrow> Inr (RString s)
      | RInt _ \<Rightarrow> (case ParseInt s of Some n \<Rightarrow> Inr (RInt n) | None \<Rightarrow> Inl (Fail ''invalid int value''))
      | RFloat _ \<Rightarrow> (case ParseFloat s of Some x \<Rightarrow> Inr (RFloat x) | None \<Rightarrow> Inl (Fail ''invalid float value''))
      | RBool _ \<Rightarrow> (case ParseBool s of Some b \<Rightarrow> Inr (RBool b) | None \<Rightarrow> Inl (Fail ''invalid bool value''))
      | RStrings _ \<Rightarrow> Inr (RStrings (map TrimSpace (split_comma s)))
      | RKeys _ \<Rightarrow> Inl (Fail ''unsupported slice element type'')
      | RStruct _ \<Rightarrow> Inl (Fail ''unsupported field type''))"

text \<open>The field at a path is replaced; a name on the path that is not a field is an error.\<close>

fun set_path :: "string list \<Rightarrow> rvalue go \<Rightarrow> rvalue \<Rightarrow> rvalue go"
and set_field :: "string list \<Rightarrow> rvalue go \<Rightarrow> rfields \<Rightarrow> rfields go" where
  "set_path [] new v = new"
| "set_path (p # ps) new v =
     (case v of RStruct fs \<Rightarrow> rbind (set_field (p # ps) new fs) (\<lambda>fs'. Inr (RStruct fs')) | _ \<Rightarrow> Inl Panic)"
| "set_field [] new fs = Inr fs"
| "set_field (p # ps) new RNil = Inl (Fail ''field not found'')"
| "set_field (p # ps) new (RField n t v fs) =
     (if n = p then rbind (set_path ps new v) (\<lambda>v'. Inr (RField n t v' fs))
      else rbind (set_field (p # ps) new fs) (\<lambda>fs'. Inr (RField n t v fs')))"

definition setFieldValue :: "(string \<Rightarrow> fl option) \<Rightarrow> rvalue \<Rightarrow> string list \<Rightarrow> string \<Rightarrow> rvalue \<Rightarrow> rvalue go" where
  "setFieldValue ParseFloat v path s t = set_path path (env_value ParseFloat s t) v"

definition envPrefix :: string where "envPrefix = ''ALLIDB_''"

definition apply_var :: "(string \<Rightarrow> fl option) \<Rightarrow> (string \<times> fieldInfo) list \<Rightarrow> string \<Rightarrow> rvalue \<Rightarrow> rvalue go" where
  "apply_var ParseFloat fieldMap envVar v =
     (let key = takeWhile (\<lambda>c. c \<noteq> CHR ''='') envVar; value = drop (length key + 1) envVar
      in if CHR ''='' \<notin> set envVar \<or> \<not> prefix envPrefix key then Inr v
         else let fieldPath = drop (length envPrefix) key in
              if fieldPath = [] then Inr v
              else case map_of fieldMap (ToLower fieldPath) of
                     None \<Rightarrow> Inr v
                   | Some fi \<Rightarrow> rwrap ''failed to set'' (setFieldValue ParseFloat v (fi_path fi) value (fi_type fi)))"

fun apply_vars :: "(string \<Rightarrow> fl option) \<Rightarrow> (string \<times> fieldInfo) list \<Rightarrow> string list \<Rightarrow> rvalue \<Rightarrow> rvalue go" where
  "apply_vars ParseFloat fieldMap [] v = Inr v"
| "apply_vars ParseFloat fieldMap (envVar # envVars) v =
     rbind (apply_var ParseFloat fieldMap envVar v) (apply_vars ParseFloat fieldMap envVars)"

definition ApplyEnvOverrides :: "(string \<Rightarrow> fl option) \<Rightarrow> string list \<Rightarrow> Config \<Rightarrow> Config go" where
  "ApplyEnvOverrides ParseFloat environ c =
     rbind (apply_vars ParseFloat (buildFieldMap config_type) environ (reflect_Config c)) (\<lambda>v. Inr (read_Config v))"

section \<open>Loading\<close>

text \<open>\<open>load_env\<close>: what loading finds outside: the file's bytes if it can be read, the decoder
  (a configuration whose absent fields are zero), and the environment.\<close>

record load_env =
  le_data :: "string \<Rightarrow> bytes option"
  le_unmarshal :: "bytes \<Rightarrow> Config option"
  le_ParseFloat :: "string \<Rightarrow> fl option"
  le_environ :: "string list"

definition LoadConfig :: "load_env \<Rightarrow> string \<Rightarrow> host \<Rightarrow> host \<times> Config go" where
  "LoadConfig E path h =
     (if h_stat h path = StatMissing then (h, Inl (Fail ''config file does not exist''))
      else case le_data E path of
        None \<Rightarrow> (h, Inl (Fail ''failed to read config file''))
      | Some data \<Rightarrow>
          (case le_unmarshal E data of
             None \<Rightarrow> (h, Inl (Fail ''failed to parse YAML config file''))
           | Some yamlConfig \<Rightarrow>
               (case rbind (rwrap ''failed to merge config'' (mergeConfig config_DefaultConfig yamlConfig))
                       (\<lambda>c. rwrap ''failed to apply environment variable overrides''
                              (ApplyEnvOverrides (le_ParseFloat E) (le_environ E) c)) of
                  Inl e \<Rightarrow> (h, Inl e)
                | Inr c \<Rightarrow>
                    (case Validate c h of
                       (h', Inl e) \<Rightarrow> (h', rwrap ''config validation failed'' (Inl e))
                     | (h', Inr _) \<Rightarrow> (h', Inr c)))))"

text \<open>For logging: the copy with sensitive fields redacted, and its one-line form.\<close>

definition redact :: "string \<Rightarrow> string" where
  "redact s = (if s \<noteq> [] then ''[REDACTED]'' else s)"

definition RedactSecrets :: "Config \<Rightarrow> Config" where
  "RedactSecrets c =
     (let s = cfg_Security c; a = security_Auth s; t = security_TLS s
      in c\<lparr>cfg_Security := s\<lparr>
           security_Auth := a\<lparr>auth_APIKeyHeader := redact (auth_APIKeyHeader a)\<rparr>,
           security_TLS := t\<lparr>tls_CertFile := redact (tls_CertFile t), tls_KeyFile := redact (tls_KeyFile t),
                              tls_CAFile := redact (tls_CAFile t)\<rparr>\<rparr>\<rparr>)"

definition int_text :: "int \<Rightarrow> string" where
  "int_text n = (if n < 0 then ''-'' @ decimal (nat (- n)) else decimal (nat n))"

definition config_String :: "Config \<Rightarrow> string" where
  "config_String c =
     (let n = cfg_Node (RedactSecrets c)
      in ''Config{'' @ ''NodeID: '' @ node_ID n @ '', '' @ ''GRPCPort: '' @ int_text (node_GRPCPort n) @ '', '' @
         ''HTTPPort: '' @ int_text (node_HTTPPort n) @ '', '' @ ''DataDir: '' @ node_DataDir n @ ''}'')"

definition ToYAML :: "(Config \<Rightarrow> string go) \<Rightarrow> Config \<Rightarrow> string go" where
  "ToYAML marshal c = rwrap ''failed to marshal config to YAML'' (marshal (RedactSecrets c))"

section \<open>What loading does, field by field\<close>

text \<open>The overlay without reflection: booleans come from the file, everything else from the file unless
  it is zero there.\<close>

definition pick :: "'a \<Rightarrow> 'a \<Rightarrow> 'a \<Rightarrow> 'a" where
  "pick d zero y = (if y = zero then d else y)"

definition overlay_NodeConfig :: "NodeConfig \<Rightarrow> NodeConfig \<Rightarrow> NodeConfig" where
  "overlay_NodeConfig d y = \<lparr>node_ID = (pick (node_ID (d)) [] (node_ID (y))),
     node_ListenAddress = (pick (node_ListenAddress (d)) [] (node_ListenAddress (y))),
     node_GRPCPort = (pick (node_GRPCPort (d)) 0 (node_GRPCPort (y))),
     node_HTTPPort = (pick (node_HTTPPort (d)) 0 (node_HTTPPort (y))),
     node_DataDir = (pick (node_DataDir (d)) [] (node_DataDir (y)))\<rparr>"

definition overlay_ClusterConfig :: "ClusterConfig \<Rightarrow> ClusterConfig \<Rightarrow> ClusterConfig" where
  "overlay_ClusterConfig d y = \<lparr>cluster_SeedNodes = (pick (cluster_SeedNodes (d)) [] (cluster_SeedNodes (y))),
     cluster_ReplicationFactor = (pick (cluster_ReplicationFactor (d)) 0 (cluster_ReplicationFactor (y))),
     cluster_GossipPort = (pick (cluster_GossipPort (d)) 0 (cluster_GossipPort (y))),
     cluster_GossipIntervalMs = (pick (cluster_GossipIntervalMs (d)) 0 (cluster_GossipIntervalMs (y))),
     cluster_FailureTimeoutMs = (pick (cluster_FailureTimeoutMs (d)) 0 (cluster_FailureTimeoutMs (y))),
     cluster_CleanupIntervalMs = (pick (cluster_CleanupIntervalMs (d)) 0 (cluster_CleanupIntervalMs (y))),
     cluster_Fanout = (pick (cluster_Fanout (d)) 0 (cluster_Fanout (y))),
     cluster_VirtualNodesPerNode = (pick (cluster_VirtualNodesPerNode (d)) 0 (cluster_VirtualNodesPerNode (y)))\<rparr>"

definition overlay_yaml_WALConfig :: "yaml_WALConfig \<Rightarrow> yaml_WALConfig \<Rightarrow> yaml_WALConfig" where
  "overlay_yaml_WALConfig d y = \<lparr>wal_MaxFileMB = (pick (wal_MaxFileMB (d)) 0 (wal_MaxFileMB (y))),
     wal_Fsync = (wal_Fsync (y))\<rparr>"

definition overlay_yaml_MemtableConfig :: "yaml_MemtableConfig \<Rightarrow> yaml_MemtableConfig \<Rightarrow> yaml_MemtableConfig" where
  "overlay_yaml_MemtableConfig d y = \<lparr>memtable_MaxMB = (pick (memtable_MaxMB (d)) 0 (memtable_MaxMB (y)))\<rparr>"

definition overlay_yaml_SSTableConfig :: "yaml_SSTableConfig \<Rightarrow> yaml_SSTableConfig \<Rightarrow> yaml_SSTableConfig" where
  "overlay_yaml_SSTableConfig d y = \<lparr>sstable_BlockSizeKB = (pick (sstable_BlockSizeKB (d)) 0 (sstable_BlockSizeKB (y)))\<rparr>"

definition overlay_yaml_CompactionConfig :: "yaml_CompactionConfig \<Rightarrow> yaml_CompactionConfig \<Rightarrow> yaml_CompactionConfig" where
  "overlay_yaml_CompactionConfig d y = \<lparr>compaction_MaxConcurrent = (pick (compaction_MaxConcurrent (d)) 0 (compaction_MaxConcurrent (y))),
     compaction_SizeTierThreshold = (pick (compaction_SizeTierThreshold (d)) 0 (compaction_SizeTierThreshold (y)))\<rparr>"

definition overlay_StorageConfig :: "StorageConfig \<Rightarrow> StorageConfig \<Rightarrow> StorageConfig" where
  "overlay_StorageConfig d y = \<lparr>storage_WAL = (overlay_yaml_WALConfig (storage_WAL (d)) (storage_WAL (y))),
     storage_Memtable = (overlay_yaml_MemtableConfig (storage_Memtable (d)) (storage_Memtable (y))),
     storage_SSTable = (overlay_yaml_SSTableConfig (storage_SSTable (d)) (storage_SSTable (y))),
     storage_Compaction = (overlay_yaml_CompactionConfig (storage_Compaction (d)) (storage_Compaction (y)))\<rparr>"

definition overlay_HNSWConfig :: "HNSWConfig \<Rightarrow> HNSWConfig \<Rightarrow> HNSWConfig" where
  "overlay_HNSWConfig d y = \<lparr>hnsw_M = (pick (hnsw_M (d)) 0 (hnsw_M (y))),
     hnsw_EfConstruction = (pick (hnsw_EfConstruction (d)) 0 (hnsw_EfConstruction (y))),
     hnsw_EfSearch = (pick (hnsw_EfSearch (d)) 0 (hnsw_EfSearch (y))),
     hnsw_ShardCount = (pick (hnsw_ShardCount (d)) 0 (hnsw_ShardCount (y)))\<rparr>"

definition overlay_IndexConfig :: "IndexConfig \<Rightarrow> IndexConfig \<Rightarrow> IndexConfig" where
  "overlay_IndexConfig d y = \<lparr>index_HNSW = (overlay_HNSWConfig (index_HNSW (d)) (index_HNSW (y))),
     index_GraphCacheSize = (pick (index_GraphCacheSize (d)) 0 (index_GraphCacheSize (y))),
     index_EntityCacheSize = (pick (index_EntityCacheSize (d)) 0 (index_EntityCacheSize (y))),
     index_ReloadIntervalMs = (pick (index_ReloadIntervalMs (d)) 0 (index_ReloadIntervalMs (y))),
     index_RealtimeIndexEnabled = (index_RealtimeIndexEnabled (y))\<rparr>"

definition overlay_QueryConfig :: "QueryConfig \<Rightarrow> QueryConfig \<Rightarrow> QueryConfig" where
  "overlay_QueryConfig d y = \<lparr>query_DefaultConsistency = (pick (query_DefaultConsistency (d)) [] (query_DefaultConsistency (y))),
     query_MaxGraphHops = (pick (query_MaxGraphHops (d)) 0 (query_MaxGraphHops (y))),
     query_TimeoutMs = (pick (query_TimeoutMs (d)) 0 (query_TimeoutMs (y))),
     query_DefaultK = (pick (query_DefaultK (d)) 0 (query_DefaultK (y))),
     query_MaxCandidates = (pick (query_MaxCandidates (d)) 0 (query_MaxCandidates (y)))\<rparr>"

definition overlay_AuthConfig :: "AuthConfig \<Rightarrow> AuthConfig \<Rightarrow> AuthConfig" where
  "overlay_AuthConfig d y = \<lparr>auth_Enabled = (auth_Enabled (y)),
     auth_APIKeyHeader = (pick (auth_APIKeyHeader (d)) [] (auth_APIKeyHeader (y))),
     auth_StaticAPIKeys = (pick (auth_StaticAPIKeys (d)) [] (auth_StaticAPIKeys (y)))\<rparr>"

definition overlay_TLSConfig :: "TLSConfig \<Rightarrow> TLSConfig \<Rightarrow> TLSConfig" where
  "overlay_TLSConfig d y = \<lparr>tls_Enabled = (tls_Enabled (y)),
     tls_CertFile = (pick (tls_CertFile (d)) [] (tls_CertFile (y))),
     tls_KeyFile = (pick (tls_KeyFile (d)) [] (tls_KeyFile (y))),
     tls_CAFile = (pick (tls_CAFile (d)) [] (tls_CAFile (y)))\<rparr>"

definition overlay_SecurityConfig :: "SecurityConfig \<Rightarrow> SecurityConfig \<Rightarrow> SecurityConfig" where
  "overlay_SecurityConfig d y = \<lparr>security_Auth = (overlay_AuthConfig (security_Auth (d)) (security_Auth (y))),
     security_TLS = (overlay_TLSConfig (security_TLS (d)) (security_TLS (y)))\<rparr>"

definition overlay_ObservabilityConfig :: "ObservabilityConfig \<Rightarrow> ObservabilityConfig \<Rightarrow> ObservabilityConfig" where
  "overlay_ObservabilityConfig d y = \<lparr>obs_LogLevel = (pick (obs_LogLevel (d)) [] (obs_LogLevel (y))),
     obs_MetricsEnabled = (obs_MetricsEnabled (y))\<rparr>"

definition overlay_HintedHandoffConfig :: "HintedHandoffConfig \<Rightarrow> HintedHandoffConfig \<Rightarrow> HintedHandoffConfig" where
  "overlay_HintedHandoffConfig d y = \<lparr>handoff_Enabled = (handoff_Enabled (y)),
     handoff_MaxHintsPerNode = (pick (handoff_MaxHintsPerNode (d)) 0 (handoff_MaxHintsPerNode (y))),
     handoff_MaxSizeMB = (pick (handoff_MaxSizeMB (d)) 0 (handoff_MaxSizeMB (y))),
     handoff_TTLMinutes = (pick (handoff_TTLMinutes (d)) 0 (handoff_TTLMinutes (y))),
     handoff_FlushIntervalMs = (pick (handoff_FlushIntervalMs (d)) 0 (handoff_FlushIntervalMs (y)))\<rparr>"

definition overlay_AntiEntropyConfig :: "AntiEntropyConfig \<Rightarrow> AntiEntropyConfig \<Rightarrow> AntiEntropyConfig" where
  "overlay_AntiEntropyConfig d y = \<lparr>entropy_Enabled = (entropy_Enabled (y)),
     entropy_IntervalMinutes = (pick (entropy_IntervalMinutes (d)) 0 (entropy_IntervalMinutes (y)))\<rparr>"

definition overlay_RepairConfig :: "RepairConfig \<Rightarrow> RepairConfig \<Rightarrow> RepairConfig" where
  "overlay_RepairConfig d y = \<lparr>repair_ReadRepairEnabled = (repair_ReadRepairEnabled (y)),
     repair_HintedHandoff = (overlay_HintedHandoffConfig (repair_HintedHandoff (d)) (repair_HintedHandoff (y))),
     repair_AntiEntropy = (overlay_AntiEntropyConfig (repair_AntiEntropy (d)) (repair_AntiEntropy (y)))\<rparr>"

definition overlay_EmbeddingsConfig :: "EmbeddingsConfig \<Rightarrow> EmbeddingsConfig \<Rightarrow> EmbeddingsConfig" where
  "overlay_EmbeddingsConfig d y = \<lparr>emb_Provider = (pick (emb_Provider (d)) [] (emb_Provider (y))),
     emb_Model = (pick (emb_Model (d)) [] (emb_Model (y))),
     emb_Dim = (pick (emb_Dim (d)) 0 (emb_Dim (y))),
     emb_TimeoutMs = (pick (emb_TimeoutMs (d)) 0 (emb_TimeoutMs (y)))\<rparr>"

definition overlay_LLMConfig :: "LLMConfig \<Rightarrow> LLMConfig \<Rightarrow> LLMConfig" where
  "overlay_LLMConfig d y = \<lparr>llm_Provider = (pick (llm_Provider (d)) [] (llm_Provider (y))),
     llm_Model = (pick (llm_Model (d)) [] (llm_Model (y))),
     llm_Temperature = (if fl_eq (llm_Temperature (y)) fl_0 then llm_Temperature (d) else llm_Temperature (y)),
     llm_MaxTokens = (pick (llm_MaxTokens (d)) 0 (llm_MaxTokens (y))),
     llm_TimeoutMs = (pick (llm_TimeoutMs (d)) 0 (llm_TimeoutMs (y)))\<rparr>"

definition overlay_EntityExtractionConfig :: "EntityExtractionConfig \<Rightarrow> EntityExtractionConfig \<Rightarrow> EntityExtractionConfig" where
  "overlay_EntityExtractionConfig d y = \<lparr>extract_Enabled = (extract_Enabled (y)),
     extract_MaxRetries = (pick (extract_MaxRetries (d)) 0 (extract_MaxRetries (y)))\<rparr>"

definition overlay_AIConfig :: "AIConfig \<Rightarrow> AIConfig \<Rightarrow> AIConfig" where
  "overlay_AIConfig d y = \<lparr>ai_Embeddings = (overlay_EmbeddingsConfig (ai_Embeddings (d)) (ai_Embeddings (y))),
     ai_LLM = (overlay_LLMConfig (ai_LLM (d)) (ai_LLM (y))),
     ai_EntityExtraction = (overlay_EntityExtractionConfig (ai_EntityExtraction (d)) (ai_EntityExtraction (y)))\<rparr>"

definition overlay_Config :: "Config \<Rightarrow> Config \<Rightarrow> Config" where
  "overlay_Config d y = \<lparr>cfg_Node = (overlay_NodeConfig (cfg_Node (d)) (cfg_Node (y))),
     cfg_Cluster = (overlay_ClusterConfig (cfg_Cluster (d)) (cfg_Cluster (y))),
     cfg_Storage = (overlay_StorageConfig (cfg_Storage (d)) (cfg_Storage (y))),
     cfg_Index = (overlay_IndexConfig (cfg_Index (d)) (cfg_Index (y))),
     cfg_Query = (overlay_QueryConfig (cfg_Query (d)) (cfg_Query (y))),
     cfg_Security = (overlay_SecurityConfig (cfg_Security (d)) (cfg_Security (y))),
     cfg_Observability = (overlay_ObservabilityConfig (cfg_Observability (d)) (cfg_Observability (y))),
     cfg_Repair = (overlay_RepairConfig (cfg_Repair (d)) (cfg_Repair (y))),
     cfg_AI = (overlay_AIConfig (cfg_AI (d)) (cfg_AI (y)))\<rparr>"
lemmas overlay_defs = overlay_NodeConfig_def overlay_ClusterConfig_def overlay_yaml_WALConfig_def overlay_yaml_MemtableConfig_def overlay_yaml_SSTableConfig_def overlay_yaml_CompactionConfig_def overlay_StorageConfig_def overlay_HNSWConfig_def overlay_IndexConfig_def overlay_QueryConfig_def overlay_AuthConfig_def overlay_TLSConfig_def overlay_SecurityConfig_def overlay_ObservabilityConfig_def overlay_HintedHandoffConfig_def overlay_AntiEntropyConfig_def overlay_RepairConfig_def overlay_EmbeddingsConfig_def overlay_LLMConfig_def overlay_EntityExtractionConfig_def overlay_AIConfig_def overlay_Config_def

lemma merge_nested:
  "merge_field (reflect_NodeConfig a0) s = rwrap ''failed to merge field'' (mergeStruct (reflect_NodeConfig a0) s)"
  "merge_field (reflect_ClusterConfig a1) s = rwrap ''failed to merge field'' (mergeStruct (reflect_ClusterConfig a1) s)"
  "merge_field (reflect_yaml_WALConfig a2) s = rwrap ''failed to merge field'' (mergeStruct (reflect_yaml_WALConfig a2) s)"
  "merge_field (reflect_yaml_MemtableConfig a3) s = rwrap ''failed to merge field'' (mergeStruct (reflect_yaml_MemtableConfig a3) s)"
  "merge_field (reflect_yaml_SSTableConfig a4) s = rwrap ''failed to merge field'' (mergeStruct (reflect_yaml_SSTableConfig a4) s)"
  "merge_field (reflect_yaml_CompactionConfig a5) s = rwrap ''failed to merge field'' (mergeStruct (reflect_yaml_CompactionConfig a5) s)"
  "merge_field (reflect_StorageConfig a6) s = rwrap ''failed to merge field'' (mergeStruct (reflect_StorageConfig a6) s)"
  "merge_field (reflect_HNSWConfig a7) s = rwrap ''failed to merge field'' (mergeStruct (reflect_HNSWConfig a7) s)"
  "merge_field (reflect_IndexConfig a8) s = rwrap ''failed to merge field'' (mergeStruct (reflect_IndexConfig a8) s)"
  "merge_field (reflect_QueryConfig a9) s = rwrap ''failed to merge field'' (mergeStruct (reflect_QueryConfig a9) s)"
  "merge_field (reflect_AuthConfig a10) s = rwrap ''failed to merge field'' (mergeStruct (reflect_AuthConfig a10) s)"
  "merge_field (reflect_TLSConfig a11) s = rwrap ''failed to merge field'' (mergeStruct (reflect_TLSConfig a11) s)"
  "merge_field (reflect_SecurityConfig a12) s = rwrap ''failed to merge field'' (mergeStruct (reflect_SecurityConfig a12) s)"
  "merge_field (reflect_ObservabilityConfig a13) s = rwrap ''failed to merge field'' (mergeStruct (reflect_ObservabilityConfig a13) s)"
  "merge_field (reflect_HintedHandoffConfig a14) s = rwrap ''failed to merge field'' (mergeStruct (reflect_HintedHandoffConfig a14) s)"
  "merge_field (reflect_AntiEntropyConfig a15) s = rwrap ''failed to merge field'' (mergeStruct (reflect_AntiEntropyConfig a15) s)"
  "merge_field (reflect_RepairConfig a16) s = rwrap ''failed to merge field'' (mergeStruct (reflect_RepairConfig a16) s)"
  "merge_field (reflect_EmbeddingsConfig a17) s = rwrap ''failed to merge field'' (mergeStruct (reflect_EmbeddingsConfig a17) s)"
  "merge_field (reflect_LLMConfig a18) s = rwrap ''failed to merge field'' (mergeStruct (reflect_LLMConfig a18) s)"
  "merge_field (reflect_EntityExtractionConfig a19) s = rwrap ''failed to merge field'' (mergeStruct (reflect_EntityExtractionConfig a19) s)"
  "merge_field (reflect_AIConfig a20) s = rwrap ''failed to merge field'' (mergeStruct (reflect_AIConfig a20) s)"
  by (simp_all add: reflect_defs)

lemma merge_NodeConfig:
  "mergeStruct (reflect_NodeConfig d) (reflect_NodeConfig y) = Inr (reflect_NodeConfig (overlay_NodeConfig d y))"
  by (simp add: reflect_NodeConfig_def overlay_NodeConfig_def pick_def)

lemma merge_ClusterConfig:
  "mergeStruct (reflect_ClusterConfig d) (reflect_ClusterConfig y) = Inr (reflect_ClusterConfig (overlay_ClusterConfig d y))"
  by (simp add: reflect_ClusterConfig_def overlay_ClusterConfig_def pick_def)

lemma merge_yaml_WALConfig:
  "mergeStruct (reflect_yaml_WALConfig d) (reflect_yaml_WALConfig y) = Inr (reflect_yaml_WALConfig (overlay_yaml_WALConfig d y))"
  by (simp add: reflect_yaml_WALConfig_def overlay_yaml_WALConfig_def pick_def)

lemma merge_yaml_MemtableConfig:
  "mergeStruct (reflect_yaml_MemtableConfig d) (reflect_yaml_MemtableConfig y) = Inr (reflect_yaml_MemtableConfig (overlay_yaml_MemtableConfig d y))"
  by (simp add: reflect_yaml_MemtableConfig_def overlay_yaml_MemtableConfig_def pick_def)

lemma merge_yaml_SSTableConfig:
  "mergeStruct (reflect_yaml_SSTableConfig d) (reflect_yaml_SSTableConfig y) = Inr (reflect_yaml_SSTableConfig (overlay_yaml_SSTableConfig d y))"
  by (simp add: reflect_yaml_SSTableConfig_def overlay_yaml_SSTableConfig_def pick_def)

lemma merge_yaml_CompactionConfig:
  "mergeStruct (reflect_yaml_CompactionConfig d) (reflect_yaml_CompactionConfig y) = Inr (reflect_yaml_CompactionConfig (overlay_yaml_CompactionConfig d y))"
  by (simp add: reflect_yaml_CompactionConfig_def overlay_yaml_CompactionConfig_def pick_def)

lemma merge_StorageConfig:
  "mergeStruct (reflect_StorageConfig d) (reflect_StorageConfig y) = Inr (reflect_StorageConfig (overlay_StorageConfig d y))"
  by (simp add: reflect_StorageConfig_def overlay_StorageConfig_def pick_def merge_nested merge_yaml_WALConfig merge_yaml_MemtableConfig merge_yaml_SSTableConfig merge_yaml_CompactionConfig)

lemma merge_HNSWConfig:
  "mergeStruct (reflect_HNSWConfig d) (reflect_HNSWConfig y) = Inr (reflect_HNSWConfig (overlay_HNSWConfig d y))"
  by (simp add: reflect_HNSWConfig_def overlay_HNSWConfig_def pick_def)

lemma merge_IndexConfig:
  "mergeStruct (reflect_IndexConfig d) (reflect_IndexConfig y) = Inr (reflect_IndexConfig (overlay_IndexConfig d y))"
  by (simp add: reflect_IndexConfig_def overlay_IndexConfig_def pick_def merge_nested merge_HNSWConfig)

lemma merge_QueryConfig:
  "mergeStruct (reflect_QueryConfig d) (reflect_QueryConfig y) = Inr (reflect_QueryConfig (overlay_QueryConfig d y))"
  by (simp add: reflect_QueryConfig_def overlay_QueryConfig_def pick_def)

lemma merge_AuthConfig:
  "mergeStruct (reflect_AuthConfig d) (reflect_AuthConfig y) = Inr (reflect_AuthConfig (overlay_AuthConfig d y))"
  by (simp add: reflect_AuthConfig_def overlay_AuthConfig_def pick_def)

lemma merge_TLSConfig:
  "mergeStruct (reflect_TLSConfig d) (reflect_TLSConfig y) = Inr (reflect_TLSConfig (overlay_TLSConfig d y))"
  by (simp add: reflect_TLSConfig_def overlay_TLSConfig_def pick_def)

lemma merge_SecurityConfig:
  "mergeStruct (reflect_SecurityConfig d) (reflect_SecurityConfig y) = Inr (reflect_SecurityConfig (overlay_SecurityConfig d y))"
  by (simp add: reflect_SecurityConfig_def overlay_SecurityConfig_def pick_def merge_nested merge_AuthConfig merge_TLSConfig)

lemma merge_ObservabilityConfig:
  "mergeStruct (reflect_ObservabilityConfig d) (reflect_ObservabilityConfig y) = Inr (reflect_ObservabilityConfig (overlay_ObservabilityConfig d y))"
  by (simp add: reflect_ObservabilityConfig_def overlay_ObservabilityConfig_def pick_def)

lemma merge_HintedHandoffConfig:
  "mergeStruct (reflect_HintedHandoffConfig d) (reflect_HintedHandoffConfig y) = Inr (reflect_HintedHandoffConfig (overlay_HintedHandoffConfig d y))"
  by (simp add: reflect_HintedHandoffConfig_def overlay_HintedHandoffConfig_def pick_def)

lemma merge_AntiEntropyConfig:
  "mergeStruct (reflect_AntiEntropyConfig d) (reflect_AntiEntropyConfig y) = Inr (reflect_AntiEntropyConfig (overlay_AntiEntropyConfig d y))"
  by (simp add: reflect_AntiEntropyConfig_def overlay_AntiEntropyConfig_def pick_def)

lemma merge_RepairConfig:
  "mergeStruct (reflect_RepairConfig d) (reflect_RepairConfig y) = Inr (reflect_RepairConfig (overlay_RepairConfig d y))"
  by (simp add: reflect_RepairConfig_def overlay_RepairConfig_def pick_def merge_nested merge_HintedHandoffConfig merge_AntiEntropyConfig)

lemma merge_EmbeddingsConfig:
  "mergeStruct (reflect_EmbeddingsConfig d) (reflect_EmbeddingsConfig y) = Inr (reflect_EmbeddingsConfig (overlay_EmbeddingsConfig d y))"
  by (simp add: reflect_EmbeddingsConfig_def overlay_EmbeddingsConfig_def pick_def)

lemma merge_LLMConfig:
  "mergeStruct (reflect_LLMConfig d) (reflect_LLMConfig y) = Inr (reflect_LLMConfig (overlay_LLMConfig d y))"
  by (simp add: reflect_LLMConfig_def overlay_LLMConfig_def pick_def)

lemma merge_EntityExtractionConfig:
  "mergeStruct (reflect_EntityExtractionConfig d) (reflect_EntityExtractionConfig y) = Inr (reflect_EntityExtractionConfig (overlay_EntityExtractionConfig d y))"
  by (simp add: reflect_EntityExtractionConfig_def overlay_EntityExtractionConfig_def pick_def)

lemma merge_AIConfig:
  "mergeStruct (reflect_AIConfig d) (reflect_AIConfig y) = Inr (reflect_AIConfig (overlay_AIConfig d y))"
  by (simp add: reflect_AIConfig_def overlay_AIConfig_def pick_def merge_nested merge_EmbeddingsConfig merge_LLMConfig merge_EntityExtractionConfig)

lemma merge_Config:
  "mergeStruct (reflect_Config d) (reflect_Config y) = Inr (reflect_Config (overlay_Config d y))"
  by (simp add: reflect_Config_def overlay_Config_def pick_def merge_nested merge_NodeConfig merge_ClusterConfig merge_StorageConfig merge_IndexConfig merge_QueryConfig merge_SecurityConfig merge_ObservabilityConfig merge_RepairConfig merge_AIConfig)

lemma mergeConfig_overlay: "mergeConfig d y = Inr (overlay_Config d y)"
  by (simp add: mergeConfig_def merge_Config)

end
