(* ===== verification/Config_Fields.thy ===== *)
theory Config_Fields
  imports Config_Load
begin

text \<open>
  The fields of the configuration as the environment sees them: the table that
  \<^verbatim>\<open>buildFieldMap\<close> computes, what setting one field leaves alone, and the properties of loading that
  follow.
\<close>

section \<open>The variables of the configuration\<close>

lemma lower_letters [simp]:
  "lower_char CHR ''_'' = CHR ''_''"
  "lower_char CHR ''a'' = CHR ''a''"
  "lower_char CHR ''b'' = CHR ''b''"
  "lower_char CHR ''c'' = CHR ''c''"
  "lower_char CHR ''d'' = CHR ''d''"
  "lower_char CHR ''e'' = CHR ''e''"
  "lower_char CHR ''f'' = CHR ''f''"
  "lower_char CHR ''g'' = CHR ''g''"
  "lower_char CHR ''h'' = CHR ''h''"
  "lower_char CHR ''i'' = CHR ''i''"
  "lower_char CHR ''k'' = CHR ''k''"
  "lower_char CHR ''l'' = CHR ''l''"
  "lower_char CHR ''m'' = CHR ''m''"
  "lower_char CHR ''n'' = CHR ''n''"
  "lower_char CHR ''o'' = CHR ''o''"
  "lower_char CHR ''p'' = CHR ''p''"
  "lower_char CHR ''q'' = CHR ''q''"
  "lower_char CHR ''r'' = CHR ''r''"
  "lower_char CHR ''s'' = CHR ''s''"
  "lower_char CHR ''t'' = CHR ''t''"
  "lower_char CHR ''u'' = CHR ''u''"
  "lower_char CHR ''v'' = CHR ''v''"
  "lower_char CHR ''w'' = CHR ''w''"
  "lower_char CHR ''x'' = CHR ''x''"
  "lower_char CHR ''y'' = CHR ''y''"
  "lower_char CHR ''z'' = CHR ''z''"
  by code_simp+

fun leaves :: "rvalue \<Rightarrow> string list \<Rightarrow> string list \<Rightarrow> (string \<times> fieldInfo) list"
and leaf_fields :: "rfields \<Rightarrow> string list \<Rightarrow> string list \<Rightarrow> (string \<times> fieldInfo) list" where
  "leaves (RStruct fs) path yamlPath = leaf_fields fs path yamlPath"
| "leaves v path yamlPath = [(ToLower (join ''_'' yamlPath), \<lparr>fi_path = path, fi_type = type_of v\<rparr>)]"
| "leaf_fields RNil path yamlPath = []"
| "leaf_fields (RField name tag v fs) path yamlPath =
     leaves v (path @ [name]) (yamlPath @ [yaml_name name tag]) @ leaf_fields fs path yamlPath"

lemma buildFieldMap_leaves:
  "(case v of RStruct fs \<Rightarrow> buildFieldMapRecursive v path yamlPath m = fold (\<lambda>(k, fi). AList.update k fi) (leaves v path yamlPath) m
            | _ \<Rightarrow> True)"
  "build_fields fs path yamlPath m = fold (\<lambda>(k, fi). AList.update k fi) (leaf_fields fs path yamlPath) m"
  by (induction v and fs arbitrary: path yamlPath m and path yamlPath m)
     (auto simp: Let_def split: rvalue.splits)

lemma leaves_Node:
  "leaves (type_of (reflect_NodeConfig c)) [''Node''] [''node''] = [
     (''node_id'', \<lparr>fi_path = [''Node'', ''ID''], fi_type = RString []\<rparr>),
     (''node_listen_address'', \<lparr>fi_path = [''Node'', ''ListenAddress''], fi_type = RString []\<rparr>),
     (''node_grpc_port'', \<lparr>fi_path = [''Node'', ''GRPCPort''], fi_type = RInt 0\<rparr>),
     (''node_http_port'', \<lparr>fi_path = [''Node'', ''HTTPPort''], fi_type = RInt 0\<rparr>),
     (''node_data_dir'', \<lparr>fi_path = [''Node'', ''DataDir''], fi_type = RString []\<rparr>)]"
  by (simp add: reflect_defs yaml_name_def)

lemma leaves_Cluster:
  "leaves (type_of (reflect_ClusterConfig c)) [''Cluster''] [''cluster''] = [
     (''cluster_seed_nodes'', \<lparr>fi_path = [''Cluster'', ''SeedNodes''], fi_type = RStrings []\<rparr>),
     (''cluster_replication_factor'', \<lparr>fi_path = [''Cluster'', ''ReplicationFactor''], fi_type = RInt 0\<rparr>),
     (''cluster_gossip_port'', \<lparr>fi_path = [''Cluster'', ''GossipPort''], fi_type = RInt 0\<rparr>),
     (''cluster_gossip_interval_ms'', \<lparr>fi_path = [''Cluster'', ''GossipIntervalMs''], fi_type = RInt 0\<rparr>),
     (''cluster_failure_timeout_ms'', \<lparr>fi_path = [''Cluster'', ''FailureTimeoutMs''], fi_type = RInt 0\<rparr>),
     (''cluster_cleanup_interval_ms'', \<lparr>fi_path = [''Cluster'', ''CleanupIntervalMs''], fi_type = RInt 0\<rparr>),
     (''cluster_fanout'', \<lparr>fi_path = [''Cluster'', ''Fanout''], fi_type = RInt 0\<rparr>),
     (''cluster_virtual_nodes_per_node'', \<lparr>fi_path = [''Cluster'', ''VirtualNodesPerNode''], fi_type = RInt 0\<rparr>)]"
  by (simp add: reflect_defs yaml_name_def)

lemma leaves_Storage:
  "leaves (type_of (reflect_StorageConfig c)) [''Storage''] [''storage''] = [
     (''storage_wal_max_file_mb'', \<lparr>fi_path = [''Storage'', ''WAL'', ''MaxFileMB''], fi_type = RInt 0\<rparr>),
     (''storage_wal_fsync'', \<lparr>fi_path = [''Storage'', ''WAL'', ''Fsync''], fi_type = RBool False\<rparr>),
     (''storage_memtable_max_mb'', \<lparr>fi_path = [''Storage'', ''Memtable'', ''MaxMB''], fi_type = RInt 0\<rparr>),
     (''storage_sstable_block_size_kb'', \<lparr>fi_path = [''Storage'', ''SSTable'', ''BlockSizeKB''], fi_type = RInt 0\<rparr>),
     (''storage_compaction_max_concurrent'', \<lparr>fi_path = [''Storage'', ''Compaction'', ''MaxConcurrent''], fi_type = RInt 0\<rparr>),
     (''storage_compaction_size_tier_threshold'', \<lparr>fi_path = [''Storage'', ''Compaction'', ''SizeTierThreshold''], fi_type = RInt 0\<rparr>)]"
  by (simp add: reflect_defs yaml_name_def)

lemma leaves_Index:
  "leaves (type_of (reflect_IndexConfig c)) [''Index''] [''index''] = [
     (''index_hnsw_m'', \<lparr>fi_path = [''Index'', ''HNSW'', ''M''], fi_type = RInt 0\<rparr>),
     (''index_hnsw_ef_construction'', \<lparr>fi_path = [''Index'', ''HNSW'', ''EfConstruction''], fi_type = RInt 0\<rparr>),
     (''index_hnsw_ef_search'', \<lparr>fi_path = [''Index'', ''HNSW'', ''EfSearch''], fi_type = RInt 0\<rparr>),
     (''index_hnsw_shard_count'', \<lparr>fi_path = [''Index'', ''HNSW'', ''ShardCount''], fi_type = RInt 0\<rparr>),
     (''index_graph_cache_size'', \<lparr>fi_path = [''Index'', ''GraphCacheSize''], fi_type = RInt 0\<rparr>),
     (''index_entity_cache_size'', \<lparr>fi_path = [''Index'', ''EntityCacheSize''], fi_type = RInt 0\<rparr>),
     (''index_reload_interval_ms'', \<lparr>fi_path = [''Index'', ''ReloadIntervalMs''], fi_type = RInt 0\<rparr>),
     (''index_realtime_index_enabled'', \<lparr>fi_path = [''Index'', ''RealtimeIndexEnabled''], fi_type = RBool False\<rparr>)]"
  by (simp add: reflect_defs yaml_name_def)

lemma leaves_Query:
  "leaves (type_of (reflect_QueryConfig c)) [''Query''] [''query''] = [
     (''query_default_consistency'', \<lparr>fi_path = [''Query'', ''DefaultConsistency''], fi_type = RString []\<rparr>),
     (''query_max_graph_hops'', \<lparr>fi_path = [''Query'', ''MaxGraphHops''], fi_type = RInt 0\<rparr>),
     (''query_timeout_ms'', \<lparr>fi_path = [''Query'', ''TimeoutMs''], fi_type = RInt 0\<rparr>),
     (''query_default_k'', \<lparr>fi_path = [''Query'', ''DefaultK''], fi_type = RInt 0\<rparr>),
     (''query_max_candidates'', \<lparr>fi_path = [''Query'', ''MaxCandidates''], fi_type = RInt 0\<rparr>)]"
  by (simp add: reflect_defs yaml_name_def)

lemma leaves_Security:
  "leaves (type_of (reflect_SecurityConfig c)) [''Security''] [''security''] = [
     (''security_auth_enabled'', \<lparr>fi_path = [''Security'', ''Auth'', ''Enabled''], fi_type = RBool False\<rparr>),
     (''security_auth_api_key_header'', \<lparr>fi_path = [''Security'', ''Auth'', ''APIKeyHeader''], fi_type = RString []\<rparr>),
     (''security_auth_static_api_keys'', \<lparr>fi_path = [''Security'', ''Auth'', ''StaticAPIKeys''], fi_type = RKeys []\<rparr>),
     (''security_tls_enabled'', \<lparr>fi_path = [''Security'', ''TLS'', ''Enabled''], fi_type = RBool False\<rparr>),
     (''security_tls_cert_file'', \<lparr>fi_path = [''Security'', ''TLS'', ''CertFile''], fi_type = RString []\<rparr>),
     (''security_tls_key_file'', \<lparr>fi_path = [''Security'', ''TLS'', ''KeyFile''], fi_type = RString []\<rparr>),
     (''security_tls_ca_file'', \<lparr>fi_path = [''Security'', ''TLS'', ''CAFile''], fi_type = RString []\<rparr>)]"
  by (simp add: reflect_defs yaml_name_def)

lemma leaves_Observability:
  "leaves (type_of (reflect_ObservabilityConfig c)) [''Observability''] [''observability''] = [
     (''observability_log_level'', \<lparr>fi_path = [''Observability'', ''LogLevel''], fi_type = RString []\<rparr>),
     (''observability_metrics_enabled'', \<lparr>fi_path = [''Observability'', ''MetricsEnabled''], fi_type = RBool False\<rparr>)]"
  by (simp add: reflect_defs yaml_name_def)

lemma leaves_Repair:
  "leaves (type_of (reflect_RepairConfig c)) [''Repair''] [''repair''] = [
     (''repair_read_repair_enabled'', \<lparr>fi_path = [''Repair'', ''ReadRepairEnabled''], fi_type = RBool False\<rparr>),
     (''repair_hinted_handoff_enabled'', \<lparr>fi_path = [''Repair'', ''HintedHandoff'', ''Enabled''], fi_type = RBool False\<rparr>),
     (''repair_hinted_handoff_max_hints_per_node'', \<lparr>fi_path = [''Repair'', ''HintedHandoff'', ''MaxHintsPerNode''], fi_type = RInt 0\<rparr>),
     (''repair_hinted_handoff_max_size_mb'', \<lparr>fi_path = [''Repair'', ''HintedHandoff'', ''MaxSizeMB''], fi_type = RInt 0\<rparr>),
     (''repair_hinted_handoff_ttl_minutes'', \<lparr>fi_path = [''Repair'', ''HintedHandoff'', ''TTLMinutes''], fi_type = RInt 0\<rparr>),
     (''repair_hinted_handoff_flush_interval_ms'', \<lparr>fi_path = [''Repair'', ''HintedHandoff'', ''FlushIntervalMs''], fi_type = RInt 0\<rparr>),
     (''repair_anti_entropy_enabled'', \<lparr>fi_path = [''Repair'', ''AntiEntropy'', ''Enabled''], fi_type = RBool False\<rparr>),
     (''repair_anti_entropy_interval_minutes'', \<lparr>fi_path = [''Repair'', ''AntiEntropy'', ''IntervalMinutes''], fi_type = RInt 0\<rparr>)]"
  by (simp add: reflect_defs yaml_name_def)

lemma leaves_AI:
  "leaves (type_of (reflect_AIConfig c)) [''AI''] [''ai''] = [
     (''ai_embeddings_provider'', \<lparr>fi_path = [''AI'', ''Embeddings'', ''Provider''], fi_type = RString []\<rparr>),
     (''ai_embeddings_model'', \<lparr>fi_path = [''AI'', ''Embeddings'', ''Model''], fi_type = RString []\<rparr>),
     (''ai_embeddings_dim'', \<lparr>fi_path = [''AI'', ''Embeddings'', ''Dim''], fi_type = RInt 0\<rparr>),
     (''ai_embeddings_timeout_ms'', \<lparr>fi_path = [''AI'', ''Embeddings'', ''TimeoutMs''], fi_type = RInt 0\<rparr>),
     (''ai_llm_provider'', \<lparr>fi_path = [''AI'', ''LLM'', ''Provider''], fi_type = RString []\<rparr>),
     (''ai_llm_model'', \<lparr>fi_path = [''AI'', ''LLM'', ''Model''], fi_type = RString []\<rparr>),
     (''ai_llm_temperature'', \<lparr>fi_path = [''AI'', ''LLM'', ''Temperature''], fi_type = RFloat fl_0\<rparr>),
     (''ai_llm_max_tokens'', \<lparr>fi_path = [''AI'', ''LLM'', ''MaxTokens''], fi_type = RInt 0\<rparr>),
     (''ai_llm_timeout_ms'', \<lparr>fi_path = [''AI'', ''LLM'', ''TimeoutMs''], fi_type = RInt 0\<rparr>),
     (''ai_entity_extraction_enabled'', \<lparr>fi_path = [''AI'', ''EntityExtraction'', ''Enabled''], fi_type = RBool False\<rparr>),
     (''ai_entity_extraction_max_retries'', \<lparr>fi_path = [''AI'', ''EntityExtraction'', ''MaxRetries''], fi_type = RInt 0\<rparr>)]"
  by (simp add: reflect_defs yaml_name_def)

definition config_fields :: "(string \<times> fieldInfo) list" where
  "config_fields = [
     (''node_id'', \<lparr>fi_path = [''Node'', ''ID''], fi_type = RString []\<rparr>),
     (''node_listen_address'', \<lparr>fi_path = [''Node'', ''ListenAddress''], fi_type = RString []\<rparr>),
     (''node_grpc_port'', \<lparr>fi_path = [''Node'', ''GRPCPort''], fi_type = RInt 0\<rparr>),
     (''node_http_port'', \<lparr>fi_path = [''Node'', ''HTTPPort''], fi_type = RInt 0\<rparr>),
     (''node_data_dir'', \<lparr>fi_path = [''Node'', ''DataDir''], fi_type = RString []\<rparr>),
     (''cluster_seed_nodes'', \<lparr>fi_path = [''Cluster'', ''SeedNodes''], fi_type = RStrings []\<rparr>),
     (''cluster_replication_factor'', \<lparr>fi_path = [''Cluster'', ''ReplicationFactor''], fi_type = RInt 0\<rparr>),
     (''cluster_gossip_port'', \<lparr>fi_path = [''Cluster'', ''GossipPort''], fi_type = RInt 0\<rparr>),
     (''cluster_gossip_interval_ms'', \<lparr>fi_path = [''Cluster'', ''GossipIntervalMs''], fi_type = RInt 0\<rparr>),
     (''cluster_failure_timeout_ms'', \<lparr>fi_path = [''Cluster'', ''FailureTimeoutMs''], fi_type = RInt 0\<rparr>),
     (''cluster_cleanup_interval_ms'', \<lparr>fi_path = [''Cluster'', ''CleanupIntervalMs''], fi_type = RInt 0\<rparr>),
     (''cluster_fanout'', \<lparr>fi_path = [''Cluster'', ''Fanout''], fi_type = RInt 0\<rparr>),
     (''cluster_virtual_nodes_per_node'', \<lparr>fi_path = [''Cluster'', ''VirtualNodesPerNode''], fi_type = RInt 0\<rparr>),
     (''storage_wal_max_file_mb'', \<lparr>fi_path = [''Storage'', ''WAL'', ''MaxFileMB''], fi_type = RInt 0\<rparr>),
     (''storage_wal_fsync'', \<lparr>fi_path = [''Storage'', ''WAL'', ''Fsync''], fi_type = RBool False\<rparr>),
     (''storage_memtable_max_mb'', \<lparr>fi_path = [''Storage'', ''Memtable'', ''MaxMB''], fi_type = RInt 0\<rparr>),
     (''storage_sstable_block_size_kb'', \<lparr>fi_path = [''Storage'', ''SSTable'', ''BlockSizeKB''], fi_type = RInt 0\<rparr>),
     (''storage_compaction_max_concurrent'', \<lparr>fi_path = [''Storage'', ''Compaction'', ''MaxConcurrent''], fi_type = RInt 0\<rparr>),
     (''storage_compaction_size_tier_threshold'', \<lparr>fi_path = [''Storage'', ''Compaction'', ''SizeTierThreshold''], fi_type = RInt 0\<rparr>),
     (''index_hnsw_m'', \<lparr>fi_path = [''Index'', ''HNSW'', ''M''], fi_type = RInt 0\<rparr>),
     (''index_hnsw_ef_construction'', \<lparr>fi_path = [''Index'', ''HNSW'', ''EfConstruction''], fi_type = RInt 0\<rparr>),
     (''index_hnsw_ef_search'', \<lparr>fi_path = [''Index'', ''HNSW'', ''EfSearch''], fi_type = RInt 0\<rparr>),
     (''index_hnsw_shard_count'', \<lparr>fi_path = [''Index'', ''HNSW'', ''ShardCount''], fi_type = RInt 0\<rparr>),
     (''index_graph_cache_size'', \<lparr>fi_path = [''Index'', ''GraphCacheSize''], fi_type = RInt 0\<rparr>),
     (''index_entity_cache_size'', \<lparr>fi_path = [''Index'', ''EntityCacheSize''], fi_type = RInt 0\<rparr>),
     (''index_reload_interval_ms'', \<lparr>fi_path = [''Index'', ''ReloadIntervalMs''], fi_type = RInt 0\<rparr>),
     (''index_realtime_index_enabled'', \<lparr>fi_path = [''Index'', ''RealtimeIndexEnabled''], fi_type = RBool False\<rparr>),
     (''query_default_consistency'', \<lparr>fi_path = [''Query'', ''DefaultConsistency''], fi_type = RString []\<rparr>),
     (''query_max_graph_hops'', \<lparr>fi_path = [''Query'', ''MaxGraphHops''], fi_type = RInt 0\<rparr>),
     (''query_timeout_ms'', \<lparr>fi_path = [''Query'', ''TimeoutMs''], fi_type = RInt 0\<rparr>),
     (''query_default_k'', \<lparr>fi_path = [''Query'', ''DefaultK''], fi_type = RInt 0\<rparr>),
     (''query_max_candidates'', \<lparr>fi_path = [''Query'', ''MaxCandidates''], fi_type = RInt 0\<rparr>),
     (''security_auth_enabled'', \<lparr>fi_path = [''Security'', ''Auth'', ''Enabled''], fi_type = RBool False\<rparr>),
     (''security_auth_api_key_header'', \<lparr>fi_path = [''Security'', ''Auth'', ''APIKeyHeader''], fi_type = RString []\<rparr>),
     (''security_auth_static_api_keys'', \<lparr>fi_path = [''Security'', ''Auth'', ''StaticAPIKeys''], fi_type = RKeys []\<rparr>),
     (''security_tls_enabled'', \<lparr>fi_path = [''Security'', ''TLS'', ''Enabled''], fi_type = RBool False\<rparr>),
     (''security_tls_cert_file'', \<lparr>fi_path = [''Security'', ''TLS'', ''CertFile''], fi_type = RString []\<rparr>),
     (''security_tls_key_file'', \<lparr>fi_path = [''Security'', ''TLS'', ''KeyFile''], fi_type = RString []\<rparr>),
     (''security_tls_ca_file'', \<lparr>fi_path = [''Security'', ''TLS'', ''CAFile''], fi_type = RString []\<rparr>),
     (''observability_log_level'', \<lparr>fi_path = [''Observability'', ''LogLevel''], fi_type = RString []\<rparr>),
     (''observability_metrics_enabled'', \<lparr>fi_path = [''Observability'', ''MetricsEnabled''], fi_type = RBool False\<rparr>),
     (''repair_read_repair_enabled'', \<lparr>fi_path = [''Repair'', ''ReadRepairEnabled''], fi_type = RBool False\<rparr>),
     (''repair_hinted_handoff_enabled'', \<lparr>fi_path = [''Repair'', ''HintedHandoff'', ''Enabled''], fi_type = RBool False\<rparr>),
     (''repair_hinted_handoff_max_hints_per_node'', \<lparr>fi_path = [''Repair'', ''HintedHandoff'', ''MaxHintsPerNode''], fi_type = RInt 0\<rparr>),
     (''repair_hinted_handoff_max_size_mb'', \<lparr>fi_path = [''Repair'', ''HintedHandoff'', ''MaxSizeMB''], fi_type = RInt 0\<rparr>),
     (''repair_hinted_handoff_ttl_minutes'', \<lparr>fi_path = [''Repair'', ''HintedHandoff'', ''TTLMinutes''], fi_type = RInt 0\<rparr>),
     (''repair_hinted_handoff_flush_interval_ms'', \<lparr>fi_path = [''Repair'', ''HintedHandoff'', ''FlushIntervalMs''], fi_type = RInt 0\<rparr>),
     (''repair_anti_entropy_enabled'', \<lparr>fi_path = [''Repair'', ''AntiEntropy'', ''Enabled''], fi_type = RBool False\<rparr>),
     (''repair_anti_entropy_interval_minutes'', \<lparr>fi_path = [''Repair'', ''AntiEntropy'', ''IntervalMinutes''], fi_type = RInt 0\<rparr>),
     (''ai_embeddings_provider'', \<lparr>fi_path = [''AI'', ''Embeddings'', ''Provider''], fi_type = RString []\<rparr>),
     (''ai_embeddings_model'', \<lparr>fi_path = [''AI'', ''Embeddings'', ''Model''], fi_type = RString []\<rparr>),
     (''ai_embeddings_dim'', \<lparr>fi_path = [''AI'', ''Embeddings'', ''Dim''], fi_type = RInt 0\<rparr>),
     (''ai_embeddings_timeout_ms'', \<lparr>fi_path = [''AI'', ''Embeddings'', ''TimeoutMs''], fi_type = RInt 0\<rparr>),
     (''ai_llm_provider'', \<lparr>fi_path = [''AI'', ''LLM'', ''Provider''], fi_type = RString []\<rparr>),
     (''ai_llm_model'', \<lparr>fi_path = [''AI'', ''LLM'', ''Model''], fi_type = RString []\<rparr>),
     (''ai_llm_temperature'', \<lparr>fi_path = [''AI'', ''LLM'', ''Temperature''], fi_type = RFloat fl_0\<rparr>),
     (''ai_llm_max_tokens'', \<lparr>fi_path = [''AI'', ''LLM'', ''MaxTokens''], fi_type = RInt 0\<rparr>),
     (''ai_llm_timeout_ms'', \<lparr>fi_path = [''AI'', ''LLM'', ''TimeoutMs''], fi_type = RInt 0\<rparr>),
     (''ai_entity_extraction_enabled'', \<lparr>fi_path = [''AI'', ''EntityExtraction'', ''Enabled''], fi_type = RBool False\<rparr>),
     (''ai_entity_extraction_max_retries'', \<lparr>fi_path = [''AI'', ''EntityExtraction'', ''MaxRetries''], fi_type = RInt 0\<rparr>)]"

lemma config_fields_distinct: "distinct (map fst config_fields)" "distinct (map (fi_path \<circ> snd) config_fields)"
  by (simp_all add: config_fields_def)

lemma config_leaves: "leaves config_type [] [] = config_fields"
  by (simp add: config_type_def reflect_Config_def yaml_name_def config_fields_def leaves_Node leaves_Cluster leaves_Storage leaves_Index leaves_Query leaves_Security leaves_Observability leaves_Repair leaves_AI)

lemma field_map: "buildFieldMap config_type = config_fields"
proof -
  obtain fs where fs: "config_type = RStruct fs" by (simp add: config_type_def reflect_Config_def)
  have "buildFieldMap config_type = fold (\<lambda>(k, fi). AList.update k fi) config_fields []"
    using buildFieldMap_leaves(1) [of config_type "[]" "[]" "[]"] by (simp add: buildFieldMap_def fs config_leaves [symmetric])
  with config_fields_distinct(1) show ?thesis by (simp add: alist_fold_update_fresh)
qed

section \<open>Environment variables replace single fields\<close>

fun get_path :: "string list \<Rightarrow> rvalue \<Rightarrow> rvalue option" where
  "get_path [] v = Some v"
| "get_path (p # ps) v = (case FieldByName v p of Some w \<Rightarrow> get_path ps w | None \<Rightarrow> None)"

fun is_struct :: "rvalue \<Rightarrow> bool" where
  "is_struct (RStruct fs) = True"
| "is_struct _ = False"

text \<open>An entry of the environment that names a variable, its value, and the last such value.\<close>

definition names_var :: "string \<Rightarrow> string \<Rightarrow> bool" where
  "names_var key envVar \<longleftrightarrow>
     (let k = takeWhile (\<lambda>c. c \<noteq> CHR ''='') envVar
      in CHR ''='' \<in> set envVar \<and> prefix envPrefix k \<and> drop (length envPrefix) k \<noteq> [] \<and>
         ToLower (drop (length envPrefix) k) = key)"

definition var_value :: "string \<Rightarrow> string" where
  "var_value envVar = drop (length (takeWhile (\<lambda>c. c \<noteq> CHR ''='') envVar) + 1) envVar"

definition last_setting :: "string \<Rightarrow> string list \<Rightarrow> string option" where
  "last_setting key environ =
     (case filter (names_var key) environ of [] \<Rightarrow> None | vs \<Rightarrow> Some (var_value (last vs)))"

lemma last_setting_simps [simp]:
  "last_setting key [] = None"
  "last_setting key (e # es) =
     (case last_setting key es of Some s \<Rightarrow> Some s | None \<Rightarrow> if names_var key e then Some (var_value e) else None)"
  by (auto simp: last_setting_def split: list.splits)

lemma find_field_type: "find_field n (type_of_fields fs) = map_option type_of (find_field n fs)"
  by (induction fs rule: find_field.induct) auto

lemma get_path_type: "get_path p (type_of v) = map_option type_of (get_path p v)"
proof (induction p arbitrary: v)
  case Nil
  then show ?case by simp
next
  case (Cons n p)
  show ?case
    by (cases v) (auto simp: find_field_type Cons split: option.splits)
qed

fun put_field :: "string \<Rightarrow> rvalue \<Rightarrow> rfields \<Rightarrow> rfields" where
  "put_field p w RNil = RNil"
| "put_field p w (RField n t v fs) = (if n = p then RField n t w fs else RField n t v (put_field p w fs))"

lemma set_field_put:
  "find_field p fs = Some w \<Longrightarrow> set_field (p # ps) new fs = rbind (set_path ps new w) (\<lambda>w'. Inr (put_field p w' fs))"
proof (induction fs rule: find_field.induct)
  case (1 n)
  then show ?case by simp
next
  case (2 n m t v fs)
  then show ?case by (cases "set_path ps new w") (auto split: if_splits)
qed

lemma find_put_field: "find_field q (put_field p w fs) = (if q = p then map_option (\<lambda>_. w) (find_field p fs) else find_field q fs)"
  by (induction fs rule: find_field.induct) auto

lemma type_put_field:
  "find_field p fs = Some old \<Longrightarrow> type_of w = type_of old \<Longrightarrow> type_of_fields (put_field p w fs) = type_of_fields fs"
  by (induction fs rule: find_field.induct) (auto split: if_splits)

lemma set_path_struct:
  "get_path (n # p) v = Some old \<Longrightarrow>
     \<exists>fs w. v = RStruct fs \<and> find_field n fs = Some w \<and> get_path p w = Some old \<and>
       set_path (n # p) new v = rbind (set_path p new w) (\<lambda>w'. Inr (RStruct (put_field n w' fs)))"
  by (cases v; cases "set_path p new (the (FieldByName v n))") (auto simp: set_field_put split: option.splits)

lemma set_path_get:
  "get_path p v = Some old \<Longrightarrow>
     \<exists>v'. set_path p (Inr new) v = Inr v' \<and> get_path p v' = Some new \<and>
       (type_of new = type_of old \<longrightarrow> type_of v' = type_of v) \<and>
       (\<forall>q. \<not> prefix p q \<longrightarrow> \<not> prefix q p \<longrightarrow> get_path q v' = get_path q v)"
proof (induction p arbitrary: v)
  case Nil
  then show ?case by simp
next
  case (Cons n p)
  obtain fs w where v: "v = RStruct fs" "find_field n fs = Some w" "get_path p w = Some old"
      "set_path (n # p) (Inr new) v = rbind (set_path p (Inr new) w) (\<lambda>w'. Inr (RStruct (put_field n w' fs)))"
    using set_path_struct [OF Cons.prems] by blast
  from Cons.IH [OF v(3)] obtain w' where w': "set_path p (Inr new) w = Inr w'" "get_path p w' = Some new"
      "type_of new = type_of old \<Longrightarrow> type_of w' = type_of w"
      "\<And>q. \<not> prefix p q \<Longrightarrow> \<not> prefix q p \<Longrightarrow> get_path q w' = get_path q w"
    by blast
  let ?v = "RStruct (put_field n w' fs)"
  have "get_path q ?v = get_path q v" if "\<not> prefix (n # p) q" "\<not> prefix q (n # p)" for q
  proof (cases q)
    case Nil
    with that show ?thesis by simp
  next
    case (Cons m r)
    with that v w'(4) show ?thesis by (auto simp: find_put_field)
  qed
  moreover have "get_path (n # p) ?v = Some new" using v w' by (simp add: find_put_field)
  moreover have "type_of new = type_of old \<longrightarrow> type_of ?v = type_of v"
    using type_put_field [OF v(2), of w'] w'(3) v(1) by simp
  ultimately show ?case using v(4) w'(1) by simp
qed

lemma set_path_error: "get_path p v = Some old \<Longrightarrow> set_path p (Inl e) v = Inl e"
proof (induction p arbitrary: v)
  case Nil
  then show ?case by simp
next
  case (Cons n p)
  from set_path_struct [OF Cons.prems, of "Inl e"] Cons.IH show ?case by auto
qed

text \<open>Every leaf is found at its path, when no struct has two fields of one name.\<close>

fun names_ok :: "rvalue \<Rightarrow> bool"
and field_names_ok :: "rfields \<Rightarrow> bool" where
  "names_ok (RStruct fs) = field_names_ok fs"
| "names_ok _ = True"
| "field_names_ok RNil = True"
| "field_names_ok (RField n t v fs) = (names_ok v \<and> find_field n fs = None \<and> field_names_ok fs)"

definition leaf_at :: "string list \<Rightarrow> rvalue \<Rightarrow> rvalue \<Rightarrow> bool" where
  "leaf_at q v t \<longleftrightarrow> (\<exists>w. get_path q v = Some w \<and> \<not> is_struct w \<and> type_of w = t)"

lemma leaf_at_Nil: "\<not> is_struct v \<Longrightarrow> leaf_at [] v (type_of v)"
  by (simp add: leaf_at_def)

lemma leaf_at_Cons: "find_field n fs = Some x \<Longrightarrow> leaf_at q x t \<Longrightarrow> leaf_at (n # q) (RStruct fs) t"
  by (auto simp: leaf_at_def)

lemma leaf_at_skip: "find_field m fs = None \<Longrightarrow> leaf_at (n # q) (RStruct fs) t \<Longrightarrow> leaf_at (n # q) (RStruct (RField m t' v fs)) t"
  by (auto simp: leaf_at_def split: option.splits)

lemma leaves_paths:
  "names_ok v \<Longrightarrow> e \<in> set (leaves v path yamlPath) \<Longrightarrow>
     \<exists>q. fi_path (snd e) = path @ q \<and> leaf_at q v (fi_type (snd e))"
  "field_names_ok fs \<Longrightarrow> e \<in> set (leaf_fields fs path yamlPath) \<Longrightarrow>
     \<exists>n q. fi_path (snd e) = path @ n # q \<and> leaf_at (n # q) (RStruct fs) (fi_type (snd e))"
proof (induction v and fs arbitrary: path yamlPath and path yamlPath)
  case (RStruct fs)
  from RStruct(1) [of path yamlPath] RStruct(2,3) show ?case by auto
next
  case (RField n t v fs)
  from RField.prems(2) consider "e \<in> set (leaves v (path @ [n]) (yamlPath @ [yaml_name n t]))"
    | "e \<in> set (leaf_fields fs path yamlPath)" by auto
  then show ?case
  proof cases
    case 1
    with RField.IH(1) RField.prems(1) obtain q where "fi_path (snd e) = (path @ [n]) @ q" "leaf_at q v (fi_type (snd e))"
      by fastforce
    then show ?thesis using leaf_at_Cons [of n "RField n t v fs" v q] by auto
  next
    case 2
    with RField.IH(2) RField.prems(1) obtain m q where "fi_path (snd e) = path @ m # q"
        "leaf_at (m # q) (RStruct fs) (fi_type (snd e))" by fastforce
    with RField.prems(1) show ?thesis using leaf_at_skip by auto
  qed
qed (auto intro: leaf_at_Nil simp: leaf_at_def)

lemma config_names: "names_ok config_type"
  by (simp add: config_type_def reflect_defs)

lemma config_paths:
  assumes "(key, fi) \<in> set config_fields" "type_of v = config_type"
  shows "\<exists>old. get_path (fi_path fi) v = Some old \<and> \<not> is_struct old \<and> type_of old = fi_type fi"
proof -
  obtain w where w: "get_path (fi_path fi) (type_of v) = Some w" "\<not> is_struct w" "type_of w = fi_type fi"
    using leaves_paths(1) [OF config_names, of "(key, fi)" "[]" "[]"] assms by (auto simp: leaf_at_def config_leaves)
  then obtain old where "get_path (fi_path fi) v = Some old" "w = type_of old" by (auto simp: get_path_type)
  with w(2,3) show ?thesis by (cases old) auto
qed

lemma leaf_prefix: "get_path p v = Some w \<Longrightarrow> \<not> is_struct w \<Longrightarrow> get_path q v = Some x \<Longrightarrow> prefix p q \<Longrightarrow> p = q"
proof (induction p arbitrary: v q)
  case Nil
  then show ?case by (cases q; cases v) auto
next
  case (Cons n p)
  then show ?case by (cases q) (auto split: option.splits)
qed

lemma env_value_type: "env_value pf s t = Inr w \<Longrightarrow> type_of t = t \<Longrightarrow> type_of w = t"
  by (cases t) (auto simp: env_value_def split: option.splits)

lemma env_value_no_panic: "env_value pf s t \<noteq> Inl Panic"
  by (auto simp: env_value_def split: option.splits rvalue.splits)

lemma type_type [simp]: "type_of (type_of v) = type_of v"
  "type_of_fields (type_of_fields fs) = type_of_fields fs"
  by (induction v and fs) auto

text \<open>What one entry of the environment does to a configuration.\<close>

lemma apply_var_cases:
  "apply_var pf config_fields e v =
     (case find (\<lambda>(key, fi). names_var key e) config_fields of
        None \<Rightarrow> Inr v
      | Some (key, fi) \<Rightarrow>
          rwrap ''failed to set'' (set_path (fi_path fi) (env_value pf (var_value e) (fi_type fi)) v))"
proof -
  let ?k = "takeWhile (\<lambda>c. c \<noteq> CHR ''='') e"
  let ?name = "ToLower (drop (length envPrefix) ?k)"
  have find_map: "find (\<lambda>(key, fi). ?name = key) al = (case map_of al ?name of None \<Rightarrow> None | Some fi \<Rightarrow> Some (?name, fi))"
    for al :: "(string \<times> fieldInfo) list"
    by (induction al) auto
  show ?thesis
  proof (cases "CHR ''='' \<in> set e \<and> prefix envPrefix ?k \<and> drop (length envPrefix) ?k \<noteq> []")
    case True
    then have "names_var key e \<longleftrightarrow> ?name = key" for key by (simp add: names_var_def Let_def)
    with True show ?thesis
      by (simp add: apply_var_def Let_def find_map var_value_def setFieldValue_def split: option.splits)
  next
    case False
    then have "\<not> names_var key e" for key by (auto simp: names_var_def Let_def)
    then have "find (\<lambda>(key, fi). names_var key e) config_fields = None" by (auto simp: find_None_iff)
    with False show ?thesis by (auto simp: apply_var_def Let_def)
  qed
qed

definition setting_of :: "(string \<Rightarrow> fl option) \<Rightarrow> string option \<Rightarrow> rvalue \<Rightarrow> rvalue option \<Rightarrow> rvalue option" where
  "setting_of pf s t old = (case s of None \<Rightarrow> old | Some x \<Rightarrow> (case env_value pf x t of Inr w \<Rightarrow> Some w | Inl _ \<Rightarrow> None))"

lemma names_var_unique: "names_var k e \<Longrightarrow> names_var k' e \<Longrightarrow> k = k'"
  by (simp add: names_var_def Let_def)

lemma config_field_unique:
  "(key, fi) \<in> set config_fields \<Longrightarrow> (key', fi') \<in> set config_fields \<Longrightarrow> fi_path fi = fi_path fi' \<or> key = key' \<Longrightarrow>
     key = key' \<and> fi = fi'"
  using eq_key_imp_eq_value [OF config_fields_distinct(1), of key fi fi']
    inj_onD [OF conjunct2 [OF config_fields_distinct(2) [unfolded distinct_map]], of "(key, fi)" "(key', fi')"]
  by auto

lemma find_in: "find P xs = Some x \<Longrightarrow> x \<in> set xs \<and> P x"
  by (auto simp: find_Some_iff)

lemma apply_var_step:
  assumes "apply_var pf config_fields e v = Inr v'" "type_of v = config_type"
  shows "type_of v' = config_type \<and>
     (\<forall>(key, fi)\<in>set config_fields. get_path (fi_path fi) v' =
        setting_of pf (if names_var key e then Some (var_value e) else None) (fi_type fi) (get_path (fi_path fi) v))"
proof (cases "find (\<lambda>(key, fi). names_var key e) config_fields")
  case None
  then have "\<forall>(key, fi)\<in>set config_fields. \<not> names_var key e" by (auto simp: find_None_iff)
  with None assms show ?thesis by (auto simp: apply_var_cases setting_of_def)
next
  case (Some kf)
  obtain k f where kf: "kf = (k, f)" by (cases kf)
  with find_in [OF Some] have f: "names_var k e" "(k, f) \<in> set config_fields" by auto
  from config_paths [OF f(2) assms(2)] obtain old where old: "get_path (fi_path f) v = Some old" "\<not> is_struct old"
      "type_of old = fi_type f" by blast
  obtain w where w: "env_value pf (var_value e) (fi_type f) = Inr w"
    using assms(1) Some kf old(1)
    by (cases "env_value pf (var_value e) (fi_type f)") (auto simp: apply_var_cases set_path_error rwrap_eq_Inr)
  from old(3) have "type_of (fi_type f) = fi_type f" by (metis type_type(1))
  with env_value_type [OF w] old(3) have tw: "type_of w = type_of old" by simp
  from set_path_get [OF old(1), of w] tw assms(1) Some kf w
  have v': "get_path (fi_path f) v' = Some w" "type_of v' = type_of v"
      "\<And>q. \<not> prefix (fi_path f) q \<Longrightarrow> \<not> prefix q (fi_path f) \<Longrightarrow> get_path q v' = get_path q v"
    by (auto simp: apply_var_cases rwrap_eq_Inr)
  have "get_path (fi_path fi) v' =
      setting_of pf (if names_var key e then Some (var_value e) else None) (fi_type fi) (get_path (fi_path fi) v)"
    if m: "(key, fi) \<in> set config_fields" for key fi
  proof (cases "key = k")
    case True
    with config_field_unique [OF m f(2)] f(1) v'(1) w show ?thesis by (simp add: setting_of_def)
  next
    case False
    with f(1) have n: "\<not> names_var key e" using names_var_unique by blast
    from config_paths [OF m assms(2)] obtain old' where old': "get_path (fi_path fi) v = Some old'" "\<not> is_struct old'" by blast
    from False config_field_unique [OF m f(2)] have "fi_path fi \<noteq> fi_path f" by blast
    with leaf_prefix [OF old(1,2) old'(1)] leaf_prefix [OF old' old(1)] v'(3) n show ?thesis
      by (auto simp: setting_of_def)
  qed
  with v'(2) assms(2) show ?thesis by auto
qed

lemma apply_vars_step:
  "apply_vars pf config_fields es v = Inr v' \<Longrightarrow> type_of v = config_type \<Longrightarrow>
     type_of v' = config_type \<and>
     (\<forall>(key, fi)\<in>set config_fields.
        get_path (fi_path fi) v' = setting_of pf (last_setting key es) (fi_type fi) (get_path (fi_path fi) v))"
proof (induction es arbitrary: v)
  case Nil
  then show ?case by (auto simp: setting_of_def)
next
  case (Cons e es)
  then obtain u where u: "apply_var pf config_fields e v = Inr u" "apply_vars pf config_fields es u = Inr v'"
    by (auto simp: rbind_eq_Inr)
  from apply_var_step [OF u(1) Cons.prems(2)] Cons.IH [OF u(2)] show ?case
    by (fastforce simp: setting_of_def split: option.splits)
qed

lemma set_path_no_panic:
  "get_path p v = Some old \<Longrightarrow> new \<noteq> Inl Panic \<Longrightarrow> set_path p new v \<noteq> Inl Panic"
  using set_path_get [of p v old "projr new"] by (cases new) (auto simp: set_path_error)

lemma apply_vars_no_panic: "type_of v = config_type \<Longrightarrow> apply_vars pf config_fields es v \<noteq> Inl Panic"
proof (induction es arbitrary: v)
  case Nil
  then show ?case by simp
next
  case (Cons e es)
  have "apply_var pf config_fields e v \<noteq> Inl Panic"
  proof (cases "find (\<lambda>(key, fi). names_var key e) config_fields")
    case (Some kf)
    from find_in [OF Some] obtain k f where kf: "kf = (k, f)" "(k, f) \<in> set config_fields" by (cases kf) auto
    from config_paths [OF kf(2) Cons.prems] obtain old where "get_path (fi_path f) v = Some old" by blast
    from set_path_no_panic [OF this env_value_no_panic] Some kf(1) show ?thesis
      by (simp add: apply_var_cases rwrap_eq_Panic)
  qed (simp add: apply_var_cases)
  moreover have "apply_vars pf config_fields es u \<noteq> Inl Panic" if "apply_var pf config_fields e v = Inr u" for u
    using apply_var_step [OF that Cons.prems] Cons.IH by blast
  ultimately show ?case by (auto simp: rbind_eq_Inl)
qed

section \<open>Properties of loading\<close>

lemma refuse_no_panic [simp]: "refuse checks \<noteq> Inl Panic"
  by (induction checks rule: refuse.induct) auto

lemma check_no_panic [simp]: "check_seeds seeds \<noteq> Inl Panic" "check_keys ks \<noteq> Inl Panic"
  by (induction seeds, simp_all add: rbind_eq_Inl) (induction ks, simp_all add: rbind_eq_Inl)

lemma rbind_no_panic: "m \<noteq> Inl Panic \<Longrightarrow> (\<And>x. k x \<noteq> Inl Panic) \<Longrightarrow> rbind m k \<noteq> Inl Panic"
  by (simp add: rbind_eq_Inl)

lemma section_no_panic:
  "validateCluster c \<noteq> Inl Panic" "validateStorage c \<noteq> Inl Panic" "validateIndex c \<noteq> Inl Panic"
  "validateQuery c \<noteq> Inl Panic" "validateSecurity c h \<noteq> Inl Panic" "validateObservability c \<noteq> Inl Panic"
  "validateRepair c \<noteq> Inl Panic" "validateAI c \<noteq> Inl Panic"
  unfolding validateCluster_def validateStorage_def validateIndex_def validateQuery_def validateSecurity_def
    validateObservability_def validateRepair_def validateAI_def Let_def check_tls_def
  by (intro rbind_no_panic refuse_no_panic check_no_panic; simp)+

lemma validateNode_no_panic: "snd (validateNode c h) \<noteq> Inl Panic"
  using refuse_no_panic
  by (auto simp: validateNode_def node_dir_def MkdirAll_def Let_def split: sum.splits option.splits stat_info.splits)

lemma Validate_no_panic: "snd (Validate c h) \<noteq> Inl Panic"
  using validateNode_no_panic [of c h]
  by (auto simp: Validate_def rbind_eq_Inl section_no_panic split: prod.splits sum.splits)

lemma load_steps:
  assumes "le_data E path = Some data" "le_unmarshal E data = Some y"
  shows "LoadConfig E path h = (h', Inr c) \<longleftrightarrow>
     h_stat h path \<noteq> StatMissing \<and>
     ApplyEnvOverrides (le_ParseFloat E) (le_environ E) (overlay_Config config_DefaultConfig y) = Inr c \<and>
     Validate c h = (h', Inr ())"
  by (auto simp: LoadConfig_def assms mergeConfig_overlay rwrap_eq_Inr split: sum.splits prod.splits)

lemma env_overlay:
  assumes "ApplyEnvOverrides pf environ c = Inr c'"
  shows "\<forall>(key, fi)\<in>set (buildFieldMap config_type). get_path (fi_path fi) (reflect_Config c') =
     setting_of pf (last_setting key environ) (fi_type fi) (get_path (fi_path fi) (reflect_Config c))"
proof -
  from assms obtain v' where v': "apply_vars pf config_fields environ (reflect_Config c) = Inr v'" "c' = read_Config v'"
    by (auto simp: ApplyEnvOverrides_def field_map rbind_eq_Inr)
  from apply_vars_step [OF v'(1) type_of_config] v'(2) show ?thesis by (simp add: field_map reflect_read)
qed

text \<open>C29. Loading is type safe although it goes through reflection: whatever the file and the environment hold,
  it returns a configuration or an error and never panics, and every value that merging and the environment
  produce is again a value of the configuration's type (reading it as a configuration loses nothing).\<close>

theorem loading_is_typed:
  "snd (LoadConfig E path h) \<noteq> Inl Panic \<and>
   (case mergeStruct (reflect_Config d) (reflect_Config y) of
      Inr v \<Rightarrow> reflect_Config (read_Config v) = v | Inl e \<Rightarrow> False) \<and>
   (case apply_vars pf (buildFieldMap config_type) environ (reflect_Config c) of
      Inr v \<Rightarrow> reflect_Config (read_Config v) = v | Inl e \<Rightarrow> e \<noteq> Panic)"
proof -
  have "ApplyEnvOverrides pf es k \<noteq> Inl Panic" for pf es k
    using apply_vars_no_panic [OF type_of_config] by (auto simp: ApplyEnvOverrides_def field_map rbind_eq_Inl)
  then have "snd (LoadConfig E path h) \<noteq> Inl Panic"
    using Validate_no_panic
    by (auto simp: LoadConfig_def mergeConfig_overlay rbind_eq_Inl split: option.splits sum.splits prod.splits)
       (metis snd_conv)
  moreover have "case apply_vars pf (buildFieldMap config_type) environ (reflect_Config c) of
      Inr v \<Rightarrow> reflect_Config (read_Config v) = v | Inl e \<Rightarrow> e \<noteq> Panic"
    using apply_vars_no_panic [OF type_of_config] apply_vars_step [OF _ type_of_config] reflect_read
    by (auto simp: field_map split: sum.splits)
  ultimately show ?thesis by (simp add: merge_Config)
qed

text \<open>C28. Where a setting of a loaded configuration comes from: the last environment variable that names the
  field wins; otherwise a boolean is what the file says, false when the file leaves it out, and any other field
  is the file's unless it is zero there, when it is the default.\<close>

theorem config_precedence:
  assumes "LoadConfig E path h = (h', Inr c)" and "le_data E path = Some data" and "le_unmarshal E data = Some y"
    and "(key, fi) \<in> set (buildFieldMap config_type)"
  shows "get_path (fi_path fi) (reflect_Config c) =
     (case last_setting key (le_environ E) of
        None \<Rightarrow> get_path (fi_path fi) (reflect_Config (overlay_Config config_DefaultConfig y))
      | Some s \<Rightarrow> (case env_value (le_ParseFloat E) s (fi_type fi) of Inr v \<Rightarrow> Some v | Inl _ \<Rightarrow> None))"
proof -
  from assms have "ApplyEnvOverrides (le_ParseFloat E) (le_environ E) (overlay_Config config_DefaultConfig y) = Inr c"
    by (simp add: load_steps)
  from env_overlay [OF this] assms(4) show ?thesis by (auto simp: setting_of_def)
qed

definition zero_Config :: Config where "zero_Config = read_Config config_type"

definition sample_host :: host where
  "sample_host = \<lparr>h_stat = (\<lambda>_. StatDir), h_abs = Some, h_mkdir = (\<lambda>_. False)\<rparr>"

definition sample_env :: load_env where
  "sample_env = \<lparr>le_data = (\<lambda>_. Some []), le_unmarshal = (\<lambda>_. Some zero_Config), le_ParseFloat = (\<lambda>_. None),
     le_environ = [''HOME=/'', ''ALLIDB_NODE_ID=n7'', ''ALLIDB_X=1'']\<rparr>"

lemma upper_letters [simp]:
  "lower_char CHR ''N'' = CHR ''n''" "lower_char CHR ''O'' = CHR ''o''" "lower_char CHR ''D'' = CHR ''d''"
  "lower_char CHR ''E'' = CHR ''e''" "lower_char CHR ''I'' = CHR ''i''" "lower_char CHR ''X'' = CHR ''x''"
  by code_simp+

lemma node_id_field:
  "map_of config_fields ''node_id'' = Some \<lparr>fi_path = [''Node'', ''ID''], fi_type = RString []\<rparr>"
  "map_of config_fields ''x'' = None"
  by (simp_all add: config_fields_def)

lemma set_node_id:
  "set_path [''Node'', ''ID''] (Inr (RString s)) (reflect_Config c) =
     Inr (reflect_Config (c\<lparr>cfg_Node := (cfg_Node c)\<lparr>node_ID := s\<rparr>\<rparr>))"
  by (simp add: reflect_Config_def reflect_NodeConfig_def)

lemma sample_applied:
  "ApplyEnvOverrides pf [''HOME=/'', ''ALLIDB_NODE_ID=n7'', ''ALLIDB_X=1''] c =
     Inr (c\<lparr>cfg_Node := (cfg_Node c)\<lparr>node_ID := ''n7''\<rparr>\<rparr>)"
  by (simp add: ApplyEnvOverrides_def field_map apply_var_def envPrefix_def Let_def node_id_field setFieldValue_def
      env_value_def set_node_id del: set_path.simps)

text \<open>A file that sets nothing leaves the defaults, with every switch off.\<close>

lemma zero_overlay:
  "cfg_Node (overlay_Config d zero_Config) = cfg_Node d"
  "cfg_Cluster (overlay_Config d zero_Config) = cfg_Cluster d"
  "cfg_Storage (overlay_Config d zero_Config) = (cfg_Storage d)\<lparr>storage_WAL := (storage_WAL (cfg_Storage d))\<lparr>wal_Fsync := False\<rparr>\<rparr>"
  "cfg_Index (overlay_Config d zero_Config) = (cfg_Index d)\<lparr>index_RealtimeIndexEnabled := False\<rparr>"
  "cfg_Query (overlay_Config d zero_Config) = cfg_Query d"
  "cfg_Security (overlay_Config d zero_Config) =
     \<lparr>security_Auth = (security_Auth (cfg_Security d))\<lparr>auth_Enabled := False\<rparr>,
      security_TLS = (security_TLS (cfg_Security d))\<lparr>tls_Enabled := False\<rparr>\<rparr>"
  "cfg_Observability (overlay_Config d zero_Config) = (cfg_Observability d)\<lparr>obs_MetricsEnabled := False\<rparr>"
  "cfg_Repair (overlay_Config d zero_Config) =
     \<lparr>repair_ReadRepairEnabled = False, repair_HintedHandoff = (repair_HintedHandoff (cfg_Repair d))\<lparr>handoff_Enabled := False\<rparr>,
      repair_AntiEntropy = (repair_AntiEntropy (cfg_Repair d))\<lparr>entropy_Enabled := False\<rparr>\<rparr>"
  "cfg_AI (overlay_Config d zero_Config) = (cfg_AI d)\<lparr>ai_EntityExtraction := (ai_EntityExtraction (cfg_AI d))\<lparr>extract_Enabled := False\<rparr>\<rparr>"
  by (simp_all add: zero_Config_def config_type_def reflect_defs read_defs overlay_defs pick_def)

definition sample_config_loaded :: Config where
  "sample_config_loaded = (let c = overlay_Config config_DefaultConfig zero_Config
                    in c\<lparr>cfg_Node := (cfg_Node c)\<lparr>node_ID := ''n7''\<rparr>\<rparr>)"

lemma sample_valid: "Validate sample_config_loaded sample_host = (sample_host, Inr ())"
proof -
  have n: "validateNode sample_config_loaded sample_host = (sample_host, Inr ())"
    by (simp add: validateNode_def node_dir_def Let_def sample_host_def sample_config_loaded_def zero_overlay config_DefaultConfig_def)
  have "validateCluster sample_config_loaded = Inr ()"
    by (simp add: validateCluster_def cluster_bounds_def Let_def sample_config_loaded_def zero_overlay config_DefaultConfig_def)
  moreover have "validateStorage sample_config_loaded = Inr ()"
    by (simp add: validateStorage_def Let_def sample_config_loaded_def zero_overlay config_DefaultConfig_def)
  moreover have "validateIndex sample_config_loaded = Inr ()"
    by (simp add: validateIndex_def Let_def sample_config_loaded_def zero_overlay config_DefaultConfig_def)
  moreover have "validateQuery sample_config_loaded = Inr ()"
    by (simp add: validateQuery_def Let_def sample_config_loaded_def zero_overlay config_DefaultConfig_def)
  moreover have "validateSecurity sample_config_loaded sample_host = Inr ()"
    by (simp add: validateSecurity_def Let_def sample_config_loaded_def zero_overlay config_DefaultConfig_def)
  moreover have "validateObservability sample_config_loaded = Inr ()"
    by (simp add: validateObservability_def Let_def sample_config_loaded_def zero_overlay config_DefaultConfig_def)
  moreover have "validateRepair sample_config_loaded = Inr ()"
    by (simp add: validateRepair_def Let_def sample_config_loaded_def zero_overlay config_DefaultConfig_def)
  moreover have "validateAI sample_config_loaded = Inr ()"
    by (simp add: validateAI_def validProviders_def Let_def sample_config_loaded_def zero_overlay config_DefaultConfig_def)
  ultimately show ?thesis by (simp add: Validate_def n)
qed

lemma sample_loads: "LoadConfig sample_env ''allidb.yaml'' sample_host = (sample_host, Inr sample_config_loaded)"
  using sample_valid
  by (subst load_steps [of _ _ "[]" zero_Config])
     (simp_all add: sample_env_def sample_host_def sample_applied sample_config_loaded_def Let_def)

lemma config_precedence_witness:
  "get_path [''Node'', ''ID''] (reflect_Config sample_config_loaded) = Some (RString ''n7'') \<and>
   get_path [''Security'', ''Auth'', ''Enabled''] (reflect_Config sample_config_loaded) = Some (RBool False)"
proof -
  have e: "le_data sample_env ''allidb.yaml'' = Some []" "le_unmarshal sample_env [] = Some zero_Config"
    by (simp_all add: sample_env_def)
  have m: "(''node_id'', \<lparr>fi_path = [''Node'', ''ID''], fi_type = RString []\<rparr>) \<in> set (buildFieldMap config_type)"
      "(''security_auth_enabled'', \<lparr>fi_path = [''Security'', ''Auth'', ''Enabled''], fi_type = RBool False\<rparr>)
         \<in> set (buildFieldMap config_type)"
    by (simp_all add: field_map config_fields_def)
  show ?thesis
    using config_precedence [OF sample_loads e m(1)] config_precedence [OF sample_loads e m(2)]
    by (simp add: sample_env_def names_var_def envPrefix_def var_value_def env_value_def reflect_Config_def
        reflect_SecurityConfig_def reflect_AuthConfig_def zero_overlay)
qed

text \<open>Redaction does not touch the static API keys, which are the secrets of the configuration.\<close>

lemma redaction_keeps_api_keys:
  "auth_StaticAPIKeys (security_Auth (cfg_Security (RedactSecrets c))) = auth_StaticAPIKeys (security_Auth (cfg_Security c))"
  by (simp add: RedactSecrets_def Let_def)

lemma merge_defaults_on:
  "auth_Enabled (security_Auth (cfg_Security config_DefaultConfig))" "wal_Fsync (storage_WAL (cfg_Storage config_DefaultConfig))"
  by (simp_all add: config_DefaultConfig_def)

end
