(* ===== verification/Hnsw.thy ===== *)
theory Hnsw
  imports Soft_Float
begin

text \<open>
  The vector index of \<^verbatim>\<open>core/index/hnsw\<close>: the distances of \<^verbatim>\<open>distance.go\<close> and the layered
  graph of \<^verbatim>\<open>hnsw.go\<close>. Nodes are shared by pointer between the shards and the copy-on-write map that
  readers use, and their neighbour lists are changed in place, so there is an explicit heap of nodes; the maps hold
  addresses. Every caller in the server holds the lock of the unified index around \<^verbatim>\<open>Add\<close> and
  \<^verbatim>\<open>Search\<close>, so both are single steps. The random draws of a level, \<^verbatim>\<open>math.Exp\<close> and
  the value of \<^verbatim>\<open>math.Log(2)\<close> are parameters. The sizes of the graph keep an \<^verbatim>\<open>int\<close> far
  below \<open>2 ^ 63\<close>.
\<close>

section \<open>Distances\<close>

definition MaxFloat32 :: fl where
  "MaxFloat32 = Finite False (of_int (2 ^ 24 - 1) * pow2 104)"

fun cosine_sums :: "float32 list \<Rightarrow> float32 list \<Rightarrow> fl \<times> fl \<times> fl \<Rightarrow> fl \<times> fl \<times> fl" where
  "cosine_sums (a # as) (b # bs) (dotProduct, normA, normB) =
     (let ai = fl_of_bits32 a; bi = fl_of_bits32 b
      in cosine_sums as bs (fl_add F64 dotProduct (fl_mul F64 ai bi), fl_add F64 normA (fl_mul F64 ai ai),
                            fl_add F64 normB (fl_mul F64 bi bi)))"
| "cosine_sums _ _ acc = acc"

definition clamp_similarity :: "fl \<Rightarrow> fl" where
  "clamp_similarity s = (if fl_gt s fl_1 then fl_1 else if fl_lt s (Finite True 1) then Finite True 1 else s)"

definition CosineDistance :: "float32 list \<Rightarrow> float32 list \<Rightarrow> fl" where
  "CosineDistance a b =
     (if length a \<noteq> length b then MaxFloat32
      else let (dotProduct, normA, normB) = cosine_sums a b (fl_0, fl_0, fl_0)
           in if fl_eq normA fl_0 \<or> fl_eq normB fl_0 then fl_1
              else let similarity = fl_div F64 dotProduct (fl_mul F64 (fl_sqrt F64 normA) (fl_sqrt F64 normB))
                   in fl_conv F32 (fl_sub F64 fl_1 (clamp_similarity similarity)))"

definition CosineSimilarity :: "float32 list \<Rightarrow> float32 list \<Rightarrow> fl" where
  "CosineSimilarity a b =
     (if length a \<noteq> length b then Finite True 1
      else let (dotProduct, normA, normB) = cosine_sums a b (fl_0, fl_0, fl_0)
           in if fl_eq normA fl_0 \<or> fl_eq normB fl_0 then fl_0
              else let similarity = fl_div F64 dotProduct (fl_mul F64 (fl_sqrt F64 normA) (fl_sqrt F64 normB))
                   in fl_conv F32 (clamp_similarity similarity))"

section \<open>The graph\<close>

type_synonym hnsw_id = "64 word"

record HnswNode =
  hn_ID :: hnsw_id
  hn_Vector :: "float32 list"
  hn_Level :: nat
  hn_Neighbors :: "hnsw_id list list"

record nodeData =
  nd_nodes :: "(hnsw_id \<times> nat) list"
  nd_entryPoint :: hnsw_id
  nd_maxLevel :: int

record HnswConfig =
  hc_M :: int
  hc_Ef :: int
  hc_EfConstruction :: int
  hc_ShardCount :: int

definition hnsw_DefaultConfig :: HnswConfig where
  "hnsw_DefaultConfig = \<lparr>hc_M = 16, hc_Ef = 200, hc_EfConstruction = 200, hc_ShardCount = 16\<rparr>"

record HNSW =
  hx_M :: nat
  hx_ef :: nat
  hx_efConstruction :: nat
  hx_ml :: fl
  hx_shardCount :: nat
  hx_shards :: "(hnsw_id \<times> nat) list list"
  hx_data :: nodeData
  hx_nodeCount :: int
  hx_heap :: "HnswNode list"

definition positive_or :: "int \<Rightarrow> nat \<Rightarrow> nat" where
  "positive_or n d = (if n \<le> 0 then d else nat n)"

definition hnsw_New :: "fl \<Rightarrow> HnswConfig \<Rightarrow> HNSW" where
  "hnsw_New ln2 config =
     (let shardCount = positive_or (hc_ShardCount config) 16
      in \<lparr>hx_M = positive_or (hc_M config) 16, hx_ef = positive_or (hc_Ef config) 200,
          hx_efConstruction = positive_or (hc_EfConstruction config) 200, hx_ml = fl_div F64 fl_1 ln2,
          hx_shardCount = shardCount, hx_shards = replicate shardCount [],
          hx_data = \<lparr>nd_nodes = [], nd_entryPoint = 0, nd_maxLevel = -1\<rparr>, hx_nodeCount = 0, hx_heap = []\<rparr>)"

definition getShard :: "HNSW \<Rightarrow> hnsw_id \<Rightarrow> nat" where
  "getShard h nodeID = nat (uint nodeID mod int (hx_shardCount h))"

text \<open>Level of a new node: \<open>draws n\<close> is what the \<open>n\<close>-th call of \<^verbatim>\<open>rand.Float64\<close> returns.\<close>

function level_loop :: "(fl \<Rightarrow> fl) \<Rightarrow> fl \<Rightarrow> (nat \<Rightarrow> fl) \<Rightarrow> nat \<Rightarrow> nat" where
  "level_loop math_exp ml draws level =
     (if fl_lt (draws level) (math_exp (fl_div F64 (fl_neg (fl_of_rat F64 (of_nat level))) ml)) \<and> level < 16
      then level_loop math_exp ml draws (level + 1) else level)"
  by auto
termination by (relation "measure (\<lambda>(_, _, _, level). 16 - level)") auto

declare level_loop.simps [simp del]

definition randomLevel :: "(fl \<Rightarrow> fl) \<Rightarrow> (nat \<Rightarrow> fl) \<Rightarrow> HNSW \<Rightarrow> nat" where
  "randomLevel math_exp draws h = level_loop math_exp (hx_ml h) draws 0"

section \<open>Searching a layer\<close>

record candidate =
  cand_id :: hnsw_id
  cand_distance :: fl

definition closer :: "candidate \<Rightarrow> candidate \<Rightarrow> bool" where
  "closer a b \<longleftrightarrow> fl_lt (cand_distance a) (cand_distance b)"

definition node_at :: "HnswNode list \<Rightarrow> (hnsw_id \<times> nat) list \<Rightarrow> hnsw_id \<Rightarrow> HnswNode option" where
  "node_at heap nodes nid = map_option (nth heap) (map_of nodes nid)"

fun entry_candidates :: "HnswNode list \<Rightarrow> nodeData \<Rightarrow> float32 list \<Rightarrow> nat \<Rightarrow> hnsw_id list \<Rightarrow> candidate list" where
  "entry_candidates heap data query level [] = []"
| "entry_candidates heap data query level (ep # eps) =
     (case node_at heap (nd_nodes data) ep of
        Some node \<Rightarrow>
          (if level \<le> hn_Level node then [\<lparr>cand_id = ep, cand_distance = CosineDistance query (hn_Vector node)\<rparr>] else [])
      | None \<Rightarrow> []) @ entry_candidates heap data query level eps"

text \<open>The neighbours of one candidate; the state is the candidates, the visited ids and whether one was added.\<close>

type_synonym visit_state = "candidate list \<times> hnsw_id list \<times> bool"

fun visit_one :: "HnswNode list \<Rightarrow> nodeData \<Rightarrow> float32 list \<Rightarrow> nat \<Rightarrow> fl \<Rightarrow> hnsw_id \<Rightarrow> visit_state \<Rightarrow> visit_state" where
  "visit_one heap data query ef currentBest nid (candidates, visited, changed) =
     (if nid \<in> set visited then (candidates, visited, changed)
      else case node_at heap (nd_nodes data) nid of
             None \<Rightarrow> (candidates, nid # visited, changed)
           | Some neighbor \<Rightarrow>
               let dist = CosineDistance query (hn_Vector neighbor)
               in if fl_lt dist currentBest \<or> length candidates < ef
                  then (candidates @ [\<lparr>cand_id = nid, cand_distance = dist\<rparr>], nid # visited, True)
                  else (candidates, nid # visited, changed))"

definition visit_neighbors ::
  "HnswNode list \<Rightarrow> nodeData \<Rightarrow> float32 list \<Rightarrow> nat \<Rightarrow> fl \<Rightarrow> hnsw_id list \<Rightarrow> visit_state \<Rightarrow> visit_state" where
  "visit_neighbors heap data query ef currentBest nids = fold (visit_one heap data query ef currentBest) nids"

lemma visit_neighbors_keeps:
  assumes "\<And>nid st. nid \<in> set nids \<Longrightarrow> P st \<Longrightarrow> P (visit_one heap data query ef best nid st)" "P st"
  shows "P (visit_neighbors heap data query ef best nids st)"
  using assms unfolding visit_neighbors_def by (induction nids arbitrary: st) auto

definition unvisited :: "nodeData \<Rightarrow> hnsw_id list \<Rightarrow> nat" where
  "unvisited data visited = card (fst ` set (nd_nodes data) - set visited)"

lemma unvisited_mono: "set visited \<subseteq> set visited' \<Longrightarrow> unvisited data visited' \<le> unvisited data visited"
  unfolding unvisited_def by (intro card_mono) auto

lemma unvisited_insert:
  assumes "node_at heap (nd_nodes data) nid = Some n" "nid \<notin> set visited"
  shows "unvisited data (nid # visited) < unvisited data visited"
proof -
  have "nid \<in> fst ` set (nd_nodes data)"
    using assms(1) by (auto simp: node_at_def dest: map_of_SomeD) (metis fst_conv image_eqI map_of_SomeD)
  with assms(2) show ?thesis
    unfolding unvisited_def by (intro psubset_card_mono) auto
qed

definition progress :: "nodeData \<Rightarrow> visit_state \<Rightarrow> visit_state \<Rightarrow> bool" where
  "progress data = (\<lambda>(cs, vis, ch) (cs', vis', ch').
     length cs' + unvisited data vis' \<le> length cs + unvisited data vis \<and> length cs \<le> length cs' \<and>
     unvisited data vis' \<le> unvisited data vis \<and> (ch' \<longrightarrow> ch \<or> unvisited data vis' < unvisited data vis))"

lemma progress_refl: "progress data st st"
  by (auto simp: progress_def)

lemma progress_trans: "progress data st st' \<Longrightarrow> progress data st' st'' \<Longrightarrow> progress data st st''"
  by (auto simp: progress_def split: prod.splits)

lemma visit_one_progress: "progress data st (visit_one heap data query ef best nid st)"
proof -
  obtain cs vis ch where st: "st = (cs, vis, ch)" by (cases st)
  have mono: "unvisited data (nid # vis) \<le> unvisited data vis" by (rule unvisited_mono) auto
  show ?thesis
    using mono unvisited_insert [of heap data nid _ vis]
    by (fastforce simp: st progress_def Let_def split: option.splits)
qed

lemma visit_neighbors_progress: "progress data st (visit_neighbors heap data query ef best nids st)"
  by (rule visit_neighbors_keeps) (auto intro: progress_refl progress_trans visit_one_progress)

text \<open>Reading a neighbour list beyond the levels of a node panics.\<close>

definition neighbors_at :: "HnswNode \<Rightarrow> nat \<Rightarrow> hnsw_id list go" where
  "neighbors_at node level =
     (if level < length (hn_Neighbors node) then Inr (hn_Neighbors node ! level) else Inl Panic)"

function explore ::
  "HnswNode list \<Rightarrow> nodeData \<Rightarrow> float32 list \<Rightarrow> nat \<Rightarrow> nat \<Rightarrow> fl \<Rightarrow> nat \<Rightarrow>
     candidate list \<times> hnsw_id list \<times> bool \<Rightarrow> (candidate list \<times> hnsw_id list \<times> bool) go" where
  "explore heap data query ef level currentBest i (candidates, visited, changed) =
     (if i < length candidates then
        let cand = candidates ! i in
        if fl_gt (cand_distance cand) currentBest then Inr (candidates, visited, changed)
        else case node_at heap (nd_nodes data) (cand_id cand) of
               None \<Rightarrow> explore heap data query ef level currentBest (i + 1) (candidates, visited, changed)
             | Some node \<Rightarrow>
                 if hn_Level node < level
                 then explore heap data query ef level currentBest (i + 1) (candidates, visited, changed)
                 else (case neighbors_at node level of
                         Inl e \<Rightarrow> Inl e
                       | Inr neighbors \<Rightarrow>
                           explore heap data query ef level currentBest (i + 1)
                             (visit_neighbors heap data query ef currentBest neighbors (candidates, visited, changed)))
      else Inr (candidates, visited, changed))"
  by pat_completeness auto
termination
proof (relation "measure (\<lambda>(_, data, _, _, _, _, i, cs, vis, _). length cs - i + unvisited data vis)", goal_cases)
  case (4 heap data query ef level best i cs vis ch x n ns)
  with visit_neighbors_progress [of data "(cs, vis, ch)" heap query ef best ns] show ?case
    by (auto simp: progress_def split: prod.splits)
qed auto

declare explore.simps [simp del]

text \<open>What visiting the neighbours of a node keeps, exploring keeps.\<close>

lemma explore_keeps:
  assumes "explore heap data query ef level best i st = Inr st'" and "P st"
    and step: "\<And>cs vis ch j node ns. P (cs, vis, ch) \<Longrightarrow> j < length cs \<Longrightarrow>
      node_at heap (nd_nodes data) (cand_id (cs ! j)) = Some node \<Longrightarrow> level \<le> hn_Level node \<Longrightarrow>
      neighbors_at node level = Inr ns \<Longrightarrow> P (visit_neighbors heap data query ef best ns (cs, vis, ch))"
  shows "P st'"
  using assms(1,2) step
proof (induction heap data query ef level best i st arbitrary: rule: explore.induct)
  case (1 heap data query ef level best i cs vis ch)
  note unfolded = explore.simps [of heap data query ef level best i cs vis ch]
  show ?case
  proof (cases "i < length cs \<and> \<not> fl_gt (cand_distance (cs ! i)) best")
    case False
    with "1.prems"(1,2) show ?thesis by (auto simp: unfolded Let_def split: if_splits)
  next
    case c: True
    consider "node_at heap (nd_nodes data) (cand_id (cs ! i)) = None"
      | n where "node_at heap (nd_nodes data) (cand_id (cs ! i)) = Some n" "hn_Level n < level"
      | n where "node_at heap (nd_nodes data) (cand_id (cs ! i)) = Some n" "\<not> hn_Level n < level"
      by fastforce
    then show ?thesis
    proof cases
      case 1
      with c "1.prems" have "explore heap data query ef level best (i + 1) (cs, vis, ch) = Inr st'"
        by (simp add: unfolded Let_def)
      with 1 c "1.prems"(2,3) "1.IH"(1) show ?thesis by blast
    next
      case 2
      with c "1.prems" have "explore heap data query ef level best (i + 1) (cs, vis, ch) = Inr st'"
        by (simp add: unfolded Let_def)
      with 2 c "1.prems"(2,3) "1.IH"(2) show ?thesis by blast
    next
      case 3
      obtain ns where ns: "neighbors_at n level = Inr ns"
        using 3 c "1.prems" by (cases "neighbors_at n level") (auto simp: unfolded Let_def)
      with 3 c "1.prems" have e: "explore heap data query ef level best (i + 1)
          (visit_neighbors heap data query ef best ns (cs, vis, ch)) = Inr st'"
        by (simp add: unfolded Let_def)
      have "P (visit_neighbors heap data query ef best ns (cs, vis, ch))"
        using "1.prems"(2,3) c 3 ns by (meson linorder_not_less)
      with 3 c ns e "1.prems"(3) "1.IH"(3) show ?thesis by blast
    qed
  qed
qed

lemma explore_progress:
  assumes "explore heap data query ef level best i st = Inr st'"
  shows "progress data st st'"
  by (rule explore_keeps [OF assms]) (auto intro: progress_refl progress_trans visit_neighbors_progress)

function search_rounds ::
  "HnswNode list \<Rightarrow> nodeData \<Rightarrow> float32 list \<Rightarrow> nat \<Rightarrow> nat \<Rightarrow> candidate list \<Rightarrow> hnsw_id list \<Rightarrow> candidate list go" where
  "search_rounds heap data query ef level candidates visited =
     (if candidates = [] then Inr []
      else case explore heap data query ef level (cand_distance (hd candidates)) 0 (candidates, visited, False) of
             Inl e \<Rightarrow> Inl e
           | Inr (candidates', visited', changed) \<Rightarrow>
               let best = take ef (sort_Slice closer candidates')
               in if changed then search_rounds heap data query ef level best visited' else Inr best)"
  by pat_completeness auto
termination
  by (relation "measure (\<lambda>(_, data, _, _, _, _, vis). unvisited data vis)") (auto dest!: explore_progress simp: progress_def)

declare search_rounds.simps [simp del]

definition searchLayer :: "HnswNode list \<Rightarrow> nodeData \<Rightarrow> hnsw_id list \<Rightarrow> float32 list \<Rightarrow> nat \<Rightarrow> nat \<Rightarrow> hnsw_id list go" where
  "searchLayer heap data entryPoints query ef level =
     (if entryPoints = [] then Inr []
      else let cs = entry_candidates heap data query level entryPoints;
               visited = map cand_id cs
           in rbind (search_rounds heap data query ef level (take ef (sort_Slice closer cs)) visited)
                (\<lambda>candidates. Inr (map cand_id candidates)))"

section \<open>Operations\<close>

definition selectNeighbors :: "hnsw_id list \<Rightarrow> nat \<Rightarrow> hnsw_id list" where
  "selectNeighbors candidates M = (if length candidates \<le> M then candidates else take M candidates)"

definition selectNeighborsWithDistances :: "candidate list \<Rightarrow> nat \<Rightarrow> hnsw_id list" where
  "selectNeighborsWithDistances candidates M = map cand_id (take M (sort_Slice closer candidates))"

definition updateDataWithNode :: "HNSW \<Rightarrow> nat \<Rightarrow> HnswNode \<Rightarrow> bool \<Rightarrow> HNSW" where
  "updateDataWithNode h a node updateEntryPoint =
     (let oldData = hx_data h
      in h\<lparr>hx_data :=
           \<lparr>nd_nodes = AList.update (hn_ID node) a (nd_nodes oldData),
            nd_entryPoint = (if updateEntryPoint \<or> nd_nodes oldData = [] then hn_ID node else nd_entryPoint oldData),
            nd_maxLevel = max (nd_maxLevel oldData) (int (hn_Level node))\<rparr>\<rparr>)"

definition shard_put :: "HNSW \<Rightarrow> hnsw_id \<Rightarrow> nat \<Rightarrow> HNSW" where
  "shard_put h nid a =
     h\<lparr>hx_shards := (hx_shards h)[getShard h nid := AList.update nid a (hx_shards h ! getShard h nid)]\<rparr>"

text \<open>One neighbour list of the node at an address.\<close>

definition list_at :: "HNSW \<Rightarrow> nat \<Rightarrow> nat \<Rightarrow> hnsw_id list" where
  "list_at h a lc = hn_Neighbors (hx_heap h ! a) ! lc"

definition set_list_at :: "HNSW \<Rightarrow> nat \<Rightarrow> nat \<Rightarrow> hnsw_id list \<Rightarrow> HNSW" where
  "set_list_at h a lc ids =
     h\<lparr>hx_heap := (hx_heap h)[a := (hx_heap h ! a)\<lparr>hn_Neighbors := (hn_Neighbors (hx_heap h ! a))[lc := ids]\<rparr>]\<rparr>"

text \<open>The candidates for pruning the list of a neighbour with the given vector.\<close>

definition prune_candidates :: "HNSW \<Rightarrow> float32 list \<Rightarrow> hnsw_id list \<Rightarrow> candidate list" where
  "prune_candidates h vector ids =
     map (\<lambda>nid. case node_at (hx_heap h) (nd_nodes (hx_data h)) nid of
                  Some n \<Rightarrow> \<lparr>cand_id = nid, cand_distance = CosineDistance vector (hn_Vector n)\<rparr>
                | None \<Rightarrow> \<lparr>cand_id = nid, cand_distance = MaxFloat32\<rparr>) ids"

definition find_neighbor :: "HNSW \<Rightarrow> hnsw_id \<Rightarrow> nat option" where
  "find_neighbor h nid =
     (case map_of (hx_shards h ! getShard h nid) nid of
        Some b \<Rightarrow> Some b | None \<Rightarrow> map_of (nd_nodes (hx_data h)) nid)"

definition add_backlink :: "hnsw_id \<Rightarrow> nat \<Rightarrow> nat \<Rightarrow> HNSW \<Rightarrow> HNSW" where
  "add_backlink nid lc b h =
     (if lc < length (hn_Neighbors (hx_heap h ! b)) then
        let ids = list_at h b lc @ [nid]; h1 = set_list_at h b lc ids
        in if hx_M h < length ids
           then set_list_at h1 b lc
                  (selectNeighborsWithDistances (prune_candidates h1 (hn_Vector (hx_heap h1 ! b)) ids) (hx_M h))
           else h1
      else h)"

definition connect :: "hnsw_id \<Rightarrow> nat \<Rightarrow> nat \<Rightarrow> hnsw_id \<Rightarrow> HNSW \<Rightarrow> HNSW" where
  "connect nid a lc neighborID h =
     (let h1 = set_list_at h a lc (list_at h a lc @ [neighborID])
      in case find_neighbor h1 neighborID of None \<Rightarrow> h1 | Some b \<Rightarrow> add_backlink nid lc b h1)"

text \<open>The neighbours are taken in the order of their shards.\<close>

definition by_shard :: "HNSW \<Rightarrow> hnsw_id list \<Rightarrow> hnsw_id list" where
  "by_shard h = sort_Slice (\<lambda>i j. getShard h i < getShard h j)"

fun add_layers :: "nodeData \<Rightarrow> hnsw_id \<Rightarrow> float32 list \<Rightarrow> nat \<Rightarrow> nat list \<Rightarrow> hnsw_id list \<Rightarrow> HNSW \<Rightarrow> HNSW go" where
  "add_layers data nid vector a [] ep h = Inr h"
| "add_layers data nid vector a (lc # lcs) ep h =
     rbind (searchLayer (hx_heap h) data ep vector (hx_efConstruction h) lc) (\<lambda>candidates.
       let neighbors = selectNeighbors candidates (hx_M h)
       in add_layers data nid vector a lcs neighbors
            (fold (connect nid a lc) (by_shard h neighbors) (shard_put h nid a)))"

fun descend :: "HnswNode list \<Rightarrow> nodeData \<Rightarrow> float32 list \<Rightarrow> nat list \<Rightarrow> hnsw_id list \<Rightarrow> hnsw_id list go" where
  "descend heap data vector [] ep = Inr ep"
| "descend heap data vector (lc # lcs) ep =
     rbind (searchLayer heap data ep vector 1 lc) (descend heap data vector lcs)"

text \<open>\<open>downto hi lo\<close>: the layers of the loop \<^verbatim>\<open>for lc := hi; lc >= lo; lc--\<close>.\<close>

definition layers :: "int \<Rightarrow> int \<Rightarrow> nat list" where
  "layers hi lo = map nat (rev [lo .. hi])"

definition hnsw_Add :: "HNSW \<Rightarrow> hnsw_id \<Rightarrow> float32 list \<Rightarrow> nat \<Rightarrow> HNSW go" where
  "hnsw_Add h nid vector level =
     (let node = \<lparr>hn_ID = nid, hn_Vector = vector, hn_Level = level, hn_Neighbors = replicate (level + 1) []\<rparr>;
          a = length (hx_heap h);
          h0 = h\<lparr>hx_heap := hx_heap h @ [node]\<rparr>;
          data = hx_data h
      in if nd_nodes data = []
         then Inr ((updateDataWithNode (shard_put h0 nid a) a node True)\<lparr>hx_nodeCount := hx_nodeCount h + 1\<rparr>)
         else rbind (descend (hx_heap h0) data vector (layers (nd_maxLevel data) (int level + 1)) [nd_entryPoint data])
                (\<lambda>ep. rbind (add_layers data nid vector a (layers (min (int level) (nd_maxLevel data)) 0) ep h0)
                  (\<lambda>h1. Inr ((updateDataWithNode h1 a node (nd_maxLevel data < int level))
                               \<lparr>hx_nodeCount := hx_nodeCount h + 1\<rparr>))))"

text \<open>\<^verbatim>\<open>candidates[:k]\<close> with a negative \<open>k\<close> panics.\<close>

definition first_k :: "'a list \<Rightarrow> int \<Rightarrow> 'a list go" where
  "first_k xs k = (if k < int (length xs) then if k < 0 then Inl Panic else Inr (take (nat k) xs) else Inr xs)"

fun search_down :: "HnswNode list \<Rightarrow> nodeData \<Rightarrow> float32 list \<Rightarrow> nat list \<Rightarrow> hnsw_id list \<Rightarrow> hnsw_id list go" where
  "search_down heap data query [] ep = Inr ep"
| "search_down heap data query (lc # lcs) ep =
     rbind (searchLayer heap data ep query 1 lc) (\<lambda>ep'. if ep' = [] then Inr [] else search_down heap data query lcs ep')"

definition hnsw_Search :: "HNSW \<Rightarrow> float32 list \<Rightarrow> int \<Rightarrow> hnsw_id list go" where
  "hnsw_Search h query k =
     (let data = hx_data h
      in if nd_nodes data = [] then Inr []
         else rbind (search_down (hx_heap h) data query (layers (nd_maxLevel data) 1) [nd_entryPoint data])
                (\<lambda>ep. if ep = [] then Inr []
                      else rbind (searchLayer (hx_heap h) data ep query (hx_ef h) 0) (\<lambda>candidates. first_k candidates k)))"

definition hnsw_Size :: "HNSW \<Rightarrow> int" where
  "hnsw_Size h = hx_nodeCount h"

end
