(* ===== verification/Hnsw_Add.thy ===== *)
theory Hnsw_Add
  imports Hnsw_Graph
begin

text \<open>
  Adding a node to the vector index: what each step changes (one neighbour list at a time, everything else is a
  frame), that the graph stays well formed, and which back links a new node really gets.
\<close>

section \<open>Frames\<close>

definition same_frame :: "HNSW \<Rightarrow> HNSW \<Rightarrow> bool" where
  "same_frame h h' \<longleftrightarrow>
     hx_M h' = hx_M h \<and> hx_ef h' = hx_ef h \<and> hx_efConstruction h' = hx_efConstruction h \<and> hx_ml h' = hx_ml h \<and>
     hx_shardCount h' = hx_shardCount h \<and> hx_data h' = hx_data h \<and> hx_nodeCount h' = hx_nodeCount h \<and>
     length (hx_heap h') = length (hx_heap h) \<and>
     (\<forall>b<length (hx_heap h).
        hn_ID (hx_heap h' ! b) = hn_ID (hx_heap h ! b) \<and> hn_Vector (hx_heap h' ! b) = hn_Vector (hx_heap h ! b) \<and>
        hn_Level (hx_heap h' ! b) = hn_Level (hx_heap h ! b) \<and>
        length (hn_Neighbors (hx_heap h' ! b)) = length (hn_Neighbors (hx_heap h ! b)))"

lemma frame_refl [simp]: "same_frame h h"
  by (simp add: same_frame_def)

lemma frame_trans: "same_frame h h' \<Longrightarrow> same_frame h' h'' \<Longrightarrow> same_frame h h''"
  by (simp add: same_frame_def)

lemma frame_shard_put [simp]: "same_frame h (shard_put h nid a)"
  by (simp add: same_frame_def shard_put_def)

lemma frame_set_list [simp]: "same_frame h (set_list_at h a lc ids)"
  by (cases "a < length (hx_heap h)") (auto simp: same_frame_def set_list_at_def nth_list_update)

lemma frame_simps:
  assumes "same_frame h h'"
  shows "hx_M h' = hx_M h" "hx_ef h' = hx_ef h" "hx_efConstruction h' = hx_efConstruction h"
    "hx_shardCount h' = hx_shardCount h" "hx_data h' = hx_data h" "hx_nodeCount h' = hx_nodeCount h"
    "length (hx_heap h') = length (hx_heap h)"
  using assms by (simp_all add: same_frame_def)

text \<open>\<open>slot h b k\<close>: there is a neighbour list for level \<open>k\<close> at address \<open>b\<close>.\<close>

definition slot :: "HNSW \<Rightarrow> nat \<Rightarrow> nat \<Rightarrow> bool" where
  "slot h b k \<longleftrightarrow> b < length (hx_heap h) \<and> k < length (hn_Neighbors (hx_heap h ! b))"

lemma slot_frame: "same_frame h h' \<Longrightarrow> slot h' b k = slot h b k"
  by (auto simp: same_frame_def slot_def)

lemma list_at_set:
  "slot h a lc \<Longrightarrow> list_at (set_list_at h a lc ids) b k = (if b = a \<and> k = lc then ids else list_at h b k)"
  by (auto simp: slot_def list_at_def set_list_at_def nth_list_update)

lemma shards_set_list [simp]: "hx_shards (set_list_at h a lc ids) = hx_shards h"
  by (simp add: set_list_at_def)

definition addresses_ok :: "HNSW \<Rightarrow> bool" where
  "addresses_ok h \<longleftrightarrow> (\<forall>x a. map_of (nd_nodes (hx_data h)) x = Some a \<longrightarrow> a < length (hx_heap h))"

lemma addresses_frame: "same_frame h h' \<Longrightarrow> addresses_ok h' = addresses_ok h"
  by (simp add: same_frame_def addresses_ok_def)

lemma prune_frame:
  assumes "same_frame h h'" "addresses_ok h"
  shows "prune_candidates h' v ids = prune_candidates h v ids"
  using assms by (auto simp: prune_candidates_def node_at_def same_frame_def addresses_ok_def split: option.splits)

lemma tall_frame:
  assumes "same_frame h h'" "addresses_ok h"
  shows "tall (hx_heap h') (hx_data h') k = tall (hx_heap h) (hx_data h) k"
  using assms by (auto simp: tall_def node_at_def same_frame_def addresses_ok_def)

lemma getShard_frame: "same_frame h h' \<Longrightarrow> getShard h' x = getShard h x"
  by (simp add: same_frame_def getShard_def)

lemma find_neighbor_frame: "same_frame h h' \<Longrightarrow> hx_shards h' = hx_shards h \<Longrightarrow> find_neighbor h' x = find_neighbor h x"
  by (simp add: find_neighbor_def getShard_frame [of h h'] frame_simps [of h h'] split: option.splits)

section \<open>Back links\<close>

text \<open>The list of a neighbour once the new node is linked to it.\<close>

definition backlinked :: "HNSW \<Rightarrow> nat \<Rightarrow> nat \<Rightarrow> hnsw_id \<Rightarrow> hnsw_id list" where
  "backlinked h b lc nid =
     (let ids = list_at h b lc @ [nid]
      in if hx_M h < length ids
         then selectNeighborsWithDistances (prune_candidates h (hn_Vector (hx_heap h ! b)) ids) (hx_M h) else ids)"

lemma backlinked_frame:
  assumes "same_frame h h'" "addresses_ok h" "b < length (hx_heap h)" "list_at h' b lc = list_at h b lc"
  shows "backlinked h' b lc nid = backlinked h b lc nid"
  using assms by (simp add: backlinked_def Let_def prune_frame) (simp add: same_frame_def)

lemma cand_id_prune [simp]: "map cand_id (prune_candidates h v ids) = ids"
  unfolding prune_candidates_def by (induction ids) (auto split: option.splits)

lemma set_select: "set (selectNeighborsWithDistances cs M) \<subseteq> cand_id ` set cs"
  by (auto simp: selectNeighborsWithDistances_def dest: in_set_takeD)

lemma backlinked_bound:
  "length (list_at h b lc) \<le> hx_M h \<Longrightarrow> length (backlinked h b lc nid) \<le> hx_M h"
  "set (backlinked h b lc nid) \<subseteq> insert nid (set (list_at h b lc))"
proof -
  let ?ids = "list_at h b lc @ [nid]"
  have "cand_id ` set (prune_candidates h v ?ids) = set ?ids" for v
    using arg_cong [OF cand_id_prune [of h v ?ids], of set] by (simp only: set_map)
  then have "set (selectNeighborsWithDistances (prune_candidates h v ?ids) M) \<subseteq> set ?ids" for v M
    using set_select by metis
  then show "set (backlinked h b lc nid) \<subseteq> insert nid (set (list_at h b lc))"
    by (auto simp: backlinked_def Let_def)
  show "length (list_at h b lc) \<le> hx_M h \<Longrightarrow> length (backlinked h b lc nid) \<le> hx_M h"
    by (simp add: backlinked_def Let_def selectNeighborsWithDistances_def)
qed

lemma add_backlink_effect:
  assumes "b < length (hx_heap h)" "addresses_ok h"
  shows "same_frame h (add_backlink nid lc b h)" "hx_shards (add_backlink nid lc b h) = hx_shards h"
    "slot h c k \<Longrightarrow> list_at (add_backlink nid lc b h) c k =
       (if c = b \<and> k = lc then backlinked h b lc nid else list_at h c k)"
proof -
  let ?ids = "list_at h b lc @ [nid]"
  let ?h1 = "set_list_at h b lc ?ids"
  show "same_frame h (add_backlink nid lc b h)"
    using frame_trans [OF frame_set_list frame_set_list] by (simp add: add_backlink_def Let_def)
  show "hx_shards (add_backlink nid lc b h) = hx_shards h"
    by (simp add: add_backlink_def Let_def)
  assume c: "slot h c k"
  show "list_at (add_backlink nid lc b h) c k = (if c = b \<and> k = lc then backlinked h b lc nid else list_at h c k)"
  proof (cases "lc < length (hn_Neighbors (hx_heap h ! b))")
    case False
    with c show ?thesis by (auto simp: add_backlink_def slot_def)
  next
    case True
    with assms have s: "slot h b lc" by (simp add: slot_def)
    then have s1: "slot ?h1 b lc" by (simp add: slot_frame [OF frame_set_list])
    have p: "prune_candidates ?h1 v ids = prune_candidates h v ids" for v ids
      using assms(2) by (intro prune_frame) simp_all
    have v: "hn_Vector (hx_heap ?h1 ! b) = hn_Vector (hx_heap h ! b)"
      using frame_set_list [of h b lc ?ids] assms(1) by (simp add: same_frame_def)
    show ?thesis
      using True s s1 by (auto simp: add_backlink_def Let_def list_at_set p v backlinked_def)
  qed
qed

lemma connect_effect:
  assumes "slot h a lc" "addresses_ok h" "find_neighbor h x = Some b" "b \<noteq> a" "b < length (hx_heap h)"
  shows "same_frame h (connect nid a lc x h)" "hx_shards (connect nid a lc x h) = hx_shards h"
    "slot h c k \<Longrightarrow> list_at (connect nid a lc x h) c k =
       (if k = lc \<and> c = a then list_at h a lc @ [x]
        else if k = lc \<and> c = b then backlinked h b lc nid else list_at h c k)"
proof -
  let ?h1 = "set_list_at h a lc (list_at h a lc @ [x])"
  have f: "find_neighbor ?h1 x = Some b"
    using assms(3) find_neighbor_frame [of h ?h1 x] by simp
  have c: "connect nid a lc x h = add_backlink nid lc b ?h1"
    by (simp add: connect_def Let_def f)
  have b1: "b < length (hx_heap ?h1)" "addresses_ok ?h1"
    using assms(2,5) by (simp_all add: addresses_frame [OF frame_set_list] frame_simps(7) [OF frame_set_list])
  note eff = add_backlink_effect [OF b1]
  show "same_frame h (connect nid a lc x h)"
    unfolding c by (rule frame_trans [OF frame_set_list eff(1)])
  show "hx_shards (connect nid a lc x h) = hx_shards h"
    unfolding c using eff(2) by simp
  assume s: "slot h c k"
  have "backlinked ?h1 b lc nid = backlinked h b lc nid"
    using assms by (intro backlinked_frame) (simp_all add: list_at_set)
  with eff(3) [of c k] s assms(1,4) show "list_at (connect nid a lc x h) c k =
       (if k = lc \<and> c = a then list_at h a lc @ [x]
        else if k = lc \<and> c = b then backlinked h b lc nid else list_at h c k)"
    unfolding c by (simp add: slot_frame [OF frame_set_list] list_at_set)
qed

text \<open>Linking to a list of neighbours, found at the addresses \<open>adr\<close>.\<close>

lemma fold_connect_effect:
  assumes "slot h a lc" "addresses_ok h" "distinct xs" "inj_on adr (set xs)"
    and "\<forall>x\<in>set xs. find_neighbor h x = Some (adr x) \<and> adr x \<noteq> a \<and> adr x < length (hx_heap h)"
  shows "same_frame h (fold (connect nid a lc) xs h) \<and> hx_shards (fold (connect nid a lc) xs h) = hx_shards h \<and>
    (\<forall>c k. slot h c k \<longrightarrow> list_at (fold (connect nid a lc) xs h) c k =
       (if k = lc \<and> c = a then list_at h a lc @ xs
        else if k = lc \<and> c \<in> adr ` set xs then backlinked h c lc nid else list_at h c k))"
  using assms
proof (induction xs arbitrary: h)
  case Nil
  then show ?case by simp
next
  case (Cons x xs)
  let ?h1 = "connect nid a lc x h"
  from Cons.prems have x: "find_neighbor h x = Some (adr x)" "adr x \<noteq> a" "adr x < length (hx_heap h)" by simp_all
  note eff = connect_effect [OF Cons.prems(1,2) x, where nid = nid]
  have fr: "same_frame h ?h1" "hx_shards ?h1 = hx_shards h" by (rule eff(1), rule eff(2))
  have "find_neighbor ?h1 y = find_neighbor h y" for y by (rule find_neighbor_frame [OF fr])
  moreover have "length (hx_heap ?h1) = length (hx_heap h)" using fr(1) by (simp add: same_frame_def)
  ultimately have IH: "same_frame ?h1 (fold (connect nid a lc) xs ?h1)"
      "hx_shards (fold (connect nid a lc) xs ?h1) = hx_shards ?h1"
      "\<And>c k. slot ?h1 c k \<Longrightarrow> list_at (fold (connect nid a lc) xs ?h1) c k =
       (if k = lc \<and> c = a then list_at ?h1 a lc @ xs
        else if k = lc \<and> c \<in> adr ` set xs then backlinked ?h1 c lc nid else list_at ?h1 c k)"
    using Cons.IH [of ?h1] Cons.prems slot_frame [OF fr(1)] addresses_frame [OF fr(1)] by simp_all
  have notin: "adr x \<notin> adr ` set xs" using Cons.prems(3,4) by auto
  have "list_at (fold (connect nid a lc) (x # xs) h) c k =
       (if k = lc \<and> c = a then list_at h a lc @ x # xs
        else if k = lc \<and> c \<in> adr ` set (x # xs) then backlinked h c lc nid else list_at h c k)" if s: "slot h c k" for c k
  proof -
    have b: "backlinked ?h1 c lc nid = backlinked h c lc nid" if "k = lc" "c \<noteq> a" "c \<noteq> adr x"
      using that s eff(3) [OF s] Cons.prems(2) fr(1) by (intro backlinked_frame) (auto simp: slot_def)
    from s have "slot ?h1 c k" by (simp add: slot_frame [OF fr(1)])
    from IH(3) [OF this] eff(3) [OF s] eff(3) [OF Cons.prems(1)] b notin show ?thesis
      by (auto simp: image_iff)
  qed
  with frame_trans [OF fr(1) IH(1)] IH(2) fr(2) show ?case by simp
qed

section \<open>The layers of a new node\<close>

text \<open>The graph with the new node, not yet linked, at address \<open>a\<close> of the heap; \<open>R\<close> is a set of nodes closed
  under their lists, with the entry point.\<close>

definition base_ok :: "HNSW \<Rightarrow> hnsw_id set \<Rightarrow> hnsw_id \<Rightarrow> nat \<Rightarrow> bool" where
  "base_ok h R nid a \<longleftrightarrow>
     0 < hx_shardCount h \<and> a < length (hx_heap h) \<and> map_of (nd_nodes (hx_data h)) nid = None \<and>
     (\<forall>x c. map_of (nd_nodes (hx_data h)) x = Some c \<longrightarrow>
        c < length (hx_heap h) \<and> c \<noteq> a \<and> hn_ID (hx_heap h ! c) = x \<and>
        length (hn_Neighbors (hx_heap h ! c)) = hn_Level (hx_heap h ! c) + 1 \<and>
        (\<forall>k\<le>hn_Level (hx_heap h ! c). set (list_at h c k) \<subseteq> tall (hx_heap h) (hx_data h) k \<and>
           (x \<in> R \<longrightarrow> set (list_at h c k) \<subseteq> R)))"

text \<open>The layers in \<open>done\<close> are linked: the new node has a list there, and each older list is as before or has
  got its back link.\<close>

definition layered :: "HNSW \<Rightarrow> hnsw_id set \<Rightarrow> hnsw_id \<Rightarrow> nat \<Rightarrow> nat set \<Rightarrow> HNSW \<Rightarrow> bool" where
  "layered h0 R nid a ks h \<longleftrightarrow>
     same_frame h0 h \<and> length (hx_shards h) = hx_shardCount h0 \<and>
     (\<forall>x. map_of (hx_shards h ! getShard h0 x) x =
        (if x = nid then if ks = {} then None else Some a else map_of (nd_nodes (hx_data h0)) x)) \<and>
     (\<forall>k. slot h0 a k \<longrightarrow>
        (if k \<in> ks then length (list_at h a k) \<le> hx_M h0 \<and> set (list_at h a k) \<subseteq> tall (hx_heap h0) (hx_data h0) k \<inter> R
         else list_at h a k = [])) \<and>
     (\<forall>c k. slot h0 c k \<longrightarrow> c \<noteq> a \<longrightarrow>
        list_at h c k = list_at h0 c k \<or> k \<in> ks \<and> list_at h c k = backlinked h0 c k nid)"

lemma getShard_less: "0 < hx_shardCount h \<Longrightarrow> getShard h x < hx_shardCount h"
  by (simp add: getShard_def nat_less_iff)

lemma base_addresses: "base_ok h R nid a \<Longrightarrow> addresses_ok h"
  by (simp add: base_ok_def addresses_ok_def)

lemma layered_lists:
  assumes "base_ok h0 R nid a" "layered h0 R nid a ks h" "k \<notin> ks"
  shows "lists_present (hx_heap h) (hx_data h0)"
    and "closed_at (hx_heap h) (hx_data h0) k (tall (hx_heap h0) (hx_data h0) k \<inter> R)"
proof -
  have fr: "same_frame h0 h" using assms(2) by (simp add: layered_def)
  have node: "c < length (hx_heap h0) \<and> c \<noteq> a \<and> length (hn_Neighbors (hx_heap h ! c)) = hn_Level (hx_heap h ! c) + 1 \<and>
      hn_Level (hx_heap h ! c) = hn_Level (hx_heap h0 ! c) \<and>
      (\<forall>k\<le>hn_Level (hx_heap h0 ! c). set (list_at h0 c k) \<subseteq> tall (hx_heap h0) (hx_data h0) k \<and>
        (x \<in> R \<longrightarrow> set (list_at h0 c k) \<subseteq> R))"
    if "map_of (nd_nodes (hx_data h0)) x = Some c" for x c
    using that assms(1) fr by (auto simp: base_ok_def same_frame_def)
  then show "lists_present (hx_heap h) (hx_data h0)"
    by (auto simp: lists_present_def node_at_def)
  show "closed_at (hx_heap h) (hx_data h0) k (tall (hx_heap h0) (hx_data h0) k \<inter> R)"
    unfolding closed_at_def
  proof (intro ballI allI impI)
    fix x n ns
    assume x: "x \<in> tall (hx_heap h0) (hx_data h0) k \<inter> R"
      and n: "node_at (hx_heap h) (nd_nodes (hx_data h0)) x = Some n" "k \<le> hn_Level n" "neighbors_at n k = Inr ns"
    then obtain c where c: "map_of (nd_nodes (hx_data h0)) x = Some c" "n = hx_heap h ! c" by (auto simp: node_at_def)
    from node [OF c(1)] n c(2) fr have s: "slot h0 c k" "c \<noteq> a" "k \<le> hn_Level (hx_heap h0 ! c)"
      by (auto simp: slot_def same_frame_def)
    from s assms(2,3) have "list_at h c k = list_at h0 c k" by (auto simp: layered_def)
    with node [OF c(1)] s n(3) c(2) x show "set ns \<subseteq> tall (hx_heap h0) (hx_data h0) k \<inter> R"
      by (auto simp: list_at_def neighbors_at_def split: if_splits)
  qed
qed

lemma tall_in: "x \<in> tall heap data k \<Longrightarrow> \<exists>c. map_of (nd_nodes data) x = Some c"
  by (auto simp: tall_def node_at_def)

lemma selectNeighbors_take: "selectNeighbors ids M = take M ids"
  by (simp add: selectNeighbors_def)

lemma layered_step:
  assumes base: "base_ok h0 R nid a" and lay: "layered h0 R nid a ks h" and k: "k \<notin> ks" "slot h0 a k"
    and xs: "distinct xs" "length xs \<le> hx_M h0" "set xs \<subseteq> tall (hx_heap h0) (hx_data h0) k \<inter> R"
  shows "layered h0 R nid a (insert k ks) (fold (connect nid a k) (by_shard h xs) (shard_put h nid a))"
proof -
  let ?h1 = "shard_put h nid a" and ?ys = "by_shard h xs" and ?nodes = "nd_nodes (hx_data h0)"
  let ?h2 = "fold (connect nid a k) ?ys ?h1"
  define adr where "adr x = the (map_of ?nodes x)" for x
  have fr: "same_frame h0 h" "same_frame h0 ?h1"
    using lay frame_trans [OF _ frame_shard_put] by (simp_all add: layered_def)
  have ys: "set ?ys = set xs" "distinct ?ys" "length ?ys = length xs"
    using xs(1) by (simp_all add: by_shard_def)
  have len: "length (hx_shards h) = hx_shardCount h0" "0 < hx_shardCount h0"
    using lay base by (simp_all add: layered_def base_ok_def)
  have shard: "map_of (hx_shards ?h1 ! getShard h0 x) x = (if x = nid then Some a else map_of ?nodes x)" for x
    using lay getShard_less [OF len(2), of nid] getShard_frame [OF fr(1)] len(1)
    by (auto simp: layered_def shard_put_def nth_list_update)
  have adr: "find_neighbor ?h1 x = Some (adr x) \<and> adr x \<noteq> a \<and> adr x < length (hx_heap ?h1) \<and> hn_ID (hx_heap h0 ! adr x) = x"
    if "x \<in> set xs" for x
  proof -
    from that xs(3) obtain c where c: "map_of ?nodes x = Some c" using tall_in by blast
    with base have "x \<noteq> nid" "c \<noteq> a" "c < length (hx_heap h0)" "hn_ID (hx_heap h0 ! c) = x"
      by (auto simp: base_ok_def)
    with c shard [of x] show ?thesis
      by (simp add: find_neighbor_def getShard_frame [OF fr(2)] frame_simps(7) [OF fr(2)] adr_def)
  qed
  have inj: "inj_on adr (set ?ys)"
    using adr unfolding ys(1) by (metis inj_onI)
  have slots: "slot ?h1 a k" "addresses_ok ?h1"
    using k(2) base_addresses [OF base] slot_frame [OF fr(2)] addresses_frame [OF fr(2)] by simp_all
  have eff: "same_frame ?h1 ?h2" "hx_shards ?h2 = hx_shards ?h1"
      "slot ?h1 c j \<Longrightarrow> list_at ?h2 c j =
       (if j = k \<and> c = a then list_at ?h1 a k @ ?ys
        else if j = k \<and> c \<in> adr ` set ?ys then backlinked ?h1 c k nid else list_at ?h1 c j)" for c j
    using fold_connect_effect [OF slots ys(2) inj, of nid] adr ys(1) by simp_all
  have l1: "list_at ?h1 c j = list_at h c j" for c j by (simp add: list_at_def shard_put_def)
  have linked: "backlinked ?h1 c k nid = backlinked h0 c k nid" if "slot h0 c k" "list_at h c k = list_at h0 c k" for c
    using that base_addresses [OF base] by (intro backlinked_frame [OF fr(2)]) (simp_all add: slot_def l1)
  have lists: "\<forall>j. slot h0 a j \<longrightarrow>
      (if j \<in> ks then length (list_at h a j) \<le> hx_M h0 \<and> set (list_at h a j) \<subseteq> tall (hx_heap h0) (hx_data h0) j \<inter> R
       else list_at h a j = [])"
    using lay unfolding layered_def by (elim conjE)
  have lists': "\<And>c j. slot h0 c j \<Longrightarrow> c \<noteq> a \<Longrightarrow> list_at h c j = list_at h0 c j \<or> j \<in> ks \<and> list_at h c j = backlinked h0 c j nid"
    using lay by (simp add: layered_def)
  show ?thesis
    unfolding layered_def
  proof (intro conjI allI impI)
    show "same_frame h0 ?h2" using frame_trans [OF fr(2) eff(1)] .
    show "length (hx_shards ?h2) = hx_shardCount h0" using eff(2) len(1) by (simp add: shard_put_def)
    show "map_of (hx_shards ?h2 ! getShard h0 x) x =
        (if x = nid then if insert k ks = {} then None else Some a else map_of ?nodes x)" for x
      using shard [of x] eff(2) by simp
    show "if j \<in> insert k ks then length (list_at ?h2 a j) \<le> hx_M h0 \<and> set (list_at ?h2 a j) \<subseteq> tall (hx_heap h0) (hx_data h0) j \<inter> R
        else list_at ?h2 a j = []" if "slot h0 a j" for j
    proof -
      have "a \<notin> adr ` set ?ys" using adr ys(1) by auto
      with eff(3) [of a j] that slot_frame [OF fr(2)] have "list_at ?h2 a j = (if j = k then list_at h a k @ ?ys else list_at h a j)"
        by (simp add: l1)
      with spec [OF lists, of j] that k xs(2,3) ys show ?thesis by auto
    qed
    show "list_at ?h2 c j = list_at h0 c j \<or> j \<in> insert k ks \<and> list_at ?h2 c j = backlinked h0 c j nid"
      if "slot h0 c j" "c \<noteq> a" for c j
      using eff(3) [of c j] that slot_frame [OF fr(2)] lists' [OF that] linked [of c] k(1) by (auto simp: l1)
  qed
qed

lemma add_layers_spec:
  assumes "base_ok h0 R nid a" "distinct lcs" "layered h0 R nid a ks h" "set lcs \<inter> ks = {}" "\<forall>k\<in>set lcs. slot h0 a k" "distinct ep" "set ep \<subseteq> R"
  shows "\<exists>h'. add_layers (hx_data h0) nid vector a lcs ep h = Inr h' \<and> layered h0 R nid a (ks \<union> set lcs) h'"
  using assms
proof (induction lcs arbitrary: ks h ep)
  case Nil
  then show ?case by simp
next
  case (Cons k lcs)
  have k: "k \<notin> ks" "slot h0 a k" using Cons.prems by auto
  have fr: "same_frame h0 h" using Cons.prems(3) by (simp add: layered_def)
  note lists = layered_lists [OF Cons.prems(1,3) k(1)]
  obtain cs where cs: "searchLayer (hx_heap h) (hx_data h0) ep vector (hx_efConstruction h) k = Inr (map cand_id cs)"
      "layer_result (hx_heap h) (hx_data h0) vector (hx_efConstruction h) k (set ep \<inter> tall (hx_heap h) (hx_data h0) k) cs"
    using searchLayer_spec [OF lists(1) Cons.prems(6)] by blast
  let ?xs = "selectNeighbors (map cand_id cs) (hx_M h)"
  have t: "tall (hx_heap h) (hx_data h0) k = tall (hx_heap h0) (hx_data h0) k"
    using tall_frame [OF fr base_addresses [OF Cons.prems(1)]] frame_simps(5) [OF fr] by simp
  have "cand_id ` set cs \<subseteq> tall (hx_heap h0) (hx_data h0) k \<inter> R"
    using layer_result_ids(4) [OF cs(2) lists(2)] t Cons.prems(7) by auto
  then have "set (map cand_id cs) \<subseteq> tall (hx_heap h0) (hx_data h0) k \<inter> R" by simp
  then have xs: "distinct ?xs" "length ?xs \<le> hx_M h0" "set ?xs \<subseteq> tall (hx_heap h0) (hx_data h0) k \<inter> R"
    using layer_result_ids(2) [OF cs(2)] frame_simps(1) [OF fr] set_take_subset [of "hx_M h" "map cand_id cs"]
    by (auto simp: selectNeighbors_take distinct_take simp del: set_map)
  let ?h = "fold (connect nid a k) (by_shard h ?xs) (shard_put h nid a)"
  have "layered h0 R nid a (insert k ks) ?h" by (rule layered_step [OF Cons.prems(1,3) k xs])
  from Cons.IH [OF Cons.prems(1) _ this _ _ xs(1)] Cons.prems xs(3) show ?case
    by (auto simp: cs(1) Let_def)
qed

lemma descend_spec:
  assumes "lists_present heap data" "\<forall>k. closed_at heap data k R" "distinct ep" "set ep \<subseteq> R"
  shows "\<exists>ep'. descend heap data vector lcs ep = Inr ep' \<and> distinct ep' \<and> set ep' \<subseteq> R"
  using assms(3,4)
proof (induction lcs arbitrary: ep)
  case Nil
  then show ?case by simp
next
  case (Cons k lcs)
  from searchLayer_spec [OF assms(1) Cons.prems(1), of vector 1 k] obtain cs where
    cs: "searchLayer heap data ep vector 1 k = Inr (map cand_id cs)"
      "layer_result heap data vector 1 k (set ep \<inter> tall heap data k) cs" by blast
  have "closed_at heap data k R" using assms(2) by simp
  then have "set (map cand_id cs) \<subseteq> R" using layer_result_ids(4) [OF cs(2)] Cons.prems(2) by auto
  with Cons.IH [OF layer_result_ids(2) [OF cs(2)]] cs(1) show ?case by simp
qed

section \<open>Adding a node\<close>

text \<open>What an addition leaves: the older nodes with their lists, some of them back-linked, and the new node.\<close>

definition node_added :: "HNSW \<Rightarrow> hnsw_id set \<Rightarrow> hnsw_id \<Rightarrow> float32 list \<Rightarrow> nat \<Rightarrow> HNSW \<Rightarrow> bool" where
  "node_added h R nid vector level h' \<longleftrightarrow>
     hx_M h' = hx_M h \<and> hx_ef h' = hx_ef h \<and> hx_efConstruction h' = hx_efConstruction h \<and>
     hx_shardCount h' = hx_shardCount h \<and> length (hx_shards h') = hx_shardCount h \<and>
     nd_nodes (hx_data h') = nd_nodes (hx_data h) @ [(nid, length (hx_heap h))] \<and>
     nd_entryPoint (hx_data h') =
       (if nd_nodes (hx_data h) = [] \<or> nd_maxLevel (hx_data h) < int level then nid else nd_entryPoint (hx_data h)) \<and>
     nd_maxLevel (hx_data h') = max (nd_maxLevel (hx_data h)) (int level) \<and>
     hx_nodeCount h' = hx_nodeCount h + 1 \<and> length (hx_heap h') = length (hx_heap h) + 1 \<and>
     (\<forall>x. map_of (hx_shards h' ! getShard h x) x = map_of (nd_nodes (hx_data h')) x) \<and>
     (let n = hx_heap h' ! length (hx_heap h)
      in hn_ID n = nid \<and> hn_Vector n = vector \<and> hn_Level n = level \<and> length (hn_Neighbors n) = level + 1 \<and>
         (\<forall>k\<le>level. length (hn_Neighbors n ! k) \<le> hx_M h \<and> set (hn_Neighbors n ! k) \<subseteq> tall (hx_heap h) (hx_data h) k \<inter> R)) \<and>
     (\<forall>c<length (hx_heap h).
        hn_ID (hx_heap h' ! c) = hn_ID (hx_heap h ! c) \<and> hn_Vector (hx_heap h' ! c) = hn_Vector (hx_heap h ! c) \<and>
        hn_Level (hx_heap h' ! c) = hn_Level (hx_heap h ! c) \<and>
        length (hn_Neighbors (hx_heap h' ! c)) = length (hn_Neighbors (hx_heap h ! c)) \<and>
        (\<forall>k<length (hn_Neighbors (hx_heap h ! c)).
           list_at h' c k = list_at h c k \<or> k \<le> level \<and> list_at h' c k = backlinked h c k nid))"

lemma hnsw_ok_node:
  assumes "hnsw_ok h" "map_of (nd_nodes (hx_data h)) x = Some c"
  shows "c < length (hx_heap h)" "node_ok h x (hx_heap h ! c)"
  using assms by (simp_all add: hnsw_ok_def)

lemma node_at_append:
  "\<forall>c. map_of nodes x = Some c \<longrightarrow> c < length heap \<Longrightarrow> node_at (heap @ [n]) nodes x = node_at heap nodes x"
  by (cases "map_of nodes x") (simp_all add: node_at_def nth_append)

lemma hnsw_ok_fresh: "nid \<notin> hnsw_ids h \<Longrightarrow> map_of (nd_nodes (hx_data h)) nid = None"
  by (simp add: hnsw_ids_def map_of_eq_None_iff)

lemma layers_props:
  "0 \<le> lo \<Longrightarrow> distinct (layers hi lo)" "0 \<le> lo \<Longrightarrow> set (layers hi lo) = {k. lo \<le> int k \<and> int k \<le> hi}"
  unfolding layers_def
  by (auto simp: distinct_map inj_on_def image_iff intro!: bexI [of _ "int _"])

lemma hnsw_Add_first:
  assumes "hnsw_ok h" "nd_nodes (hx_data h) = []"
  shows "\<exists>h'. hnsw_Add h nid vector level = Inr h' \<and> node_added h R nid vector level h'"
proof -
  have s: "0 < hx_shardCount h" "length (hx_shards h) = hx_shardCount h" "nd_maxLevel (hx_data h) = -1"
      "\<And>x. map_of (hx_shards h ! getShard h x) x = None"
    using assms by (simp_all add: hnsw_ok_def)
  from getShard_less [OF s(1), of nid] s(2) have g: "getShard h nid < length (hx_shards h)" by simp
  show ?thesis
    using s assms(2) g
    by (auto simp: hnsw_Add_def Let_def node_added_def updateDataWithNode_def shard_put_def getShard_def nth_append
        nth_list_update list_at_def less_Suc_eq_le nth_Cons')
qed

text \<open>The graph with the new node put on the heap.\<close>

definition with_node :: "HNSW \<Rightarrow> hnsw_id \<Rightarrow> float32 list \<Rightarrow> nat \<Rightarrow> HNSW" where
  "with_node h nid vector level =
     h\<lparr>hx_heap := hx_heap h @ [\<lparr>hn_ID = nid, hn_Vector = vector, hn_Level = level, hn_Neighbors = replicate (level + 1) []\<rparr>]\<rparr>"

lemma with_node_simps [simp]:
  "hx_data (with_node h nid vector level) = hx_data h" "hx_M (with_node h nid vector level) = hx_M h"
  "hx_ef (with_node h nid vector level) = hx_ef h" "hx_shards (with_node h nid vector level) = hx_shards h"
  "hx_efConstruction (with_node h nid vector level) = hx_efConstruction h"
  "hx_shardCount (with_node h nid vector level) = hx_shardCount h"
  "hx_nodeCount (with_node h nid vector level) = hx_nodeCount h"
  "length (hx_heap (with_node h nid vector level)) = length (hx_heap h) + 1"
  "c < length (hx_heap h) \<Longrightarrow> hx_heap (with_node h nid vector level) ! c = hx_heap h ! c"
  "hx_heap (with_node h nid vector level) ! length (hx_heap h) =
     \<lparr>hn_ID = nid, hn_Vector = vector, hn_Level = level, hn_Neighbors = replicate (level + 1) []\<rparr>"
  "getShard (with_node h nid vector level) x = getShard h x"
  "c < length (hx_heap h) \<Longrightarrow> list_at (with_node h nid vector level) c k = list_at h c k"
  by (simp_all add: with_node_def nth_append getShard_def list_at_def)

lemma with_node_old:
  assumes "hnsw_ok h"
  shows "node_at (hx_heap (with_node h nid vector level)) (nd_nodes (hx_data h)) x = hnode h x"
    and "tall (hx_heap (with_node h nid vector level)) (hx_data h) k = tall (hx_heap h) (hx_data h) k"
    and "c < length (hx_heap h) \<Longrightarrow> backlinked (with_node h nid vector level) c k nid = backlinked h c k nid"
proof -
  have n: "node_at (hx_heap (with_node h nid vector level)) (nd_nodes (hx_data h)) x = hnode h x" for x
    using hnsw_ok_node(1) [OF assms] unfolding with_node_def by (simp add: node_at_append)
  then show "node_at (hx_heap (with_node h nid vector level)) (nd_nodes (hx_data h)) x = hnode h x"
    and "tall (hx_heap (with_node h nid vector level)) (hx_data h) k = tall (hx_heap h) (hx_data h) k"
    by (simp_all add: tall_def)
  have "prune_candidates (with_node h nid vector level) v ids = prune_candidates h v ids" for v ids
    by (simp add: prune_candidates_def n)
  then show "c < length (hx_heap h) \<Longrightarrow> backlinked (with_node h nid vector level) c k nid = backlinked h c k nid"
    by (simp add: backlinked_def Let_def)
qed

text \<open>A set of nodes closed under their neighbour lists.\<close>

definition closed_graph :: "HNSW \<Rightarrow> hnsw_id set \<Rightarrow> bool" where
  "closed_graph h R \<longleftrightarrow>
     (\<forall>x c. map_of (nd_nodes (hx_data h)) x = Some c \<longrightarrow> x \<in> R \<longrightarrow>
        (\<forall>k\<le>hn_Level (hx_heap h ! c). set (list_at h c k) \<subseteq> R))"

lemma closed_graph_UNIV [simp]: "closed_graph h UNIV"
  by (simp add: closed_graph_def)

lemma closed_graph_layer: "closed_graph h R \<Longrightarrow> closed_at (hx_heap h) (hx_data h) k R"
  by (auto simp: closed_graph_def closed_at_def node_at_def neighbors_at_def list_at_def split: if_splits)

lemma with_node_closed: "hnsw_ok h \<Longrightarrow> closed_graph h R \<Longrightarrow> closed_graph (with_node h nid vector level) R"
  using hnsw_ok_node(1) [of h] by (simp add: closed_graph_def)

lemma with_node_base:
  assumes "hnsw_ok h" "nid \<notin> hnsw_ids h" "closed_graph h R"
  shows "base_ok (with_node h nid vector level) R nid (length (hx_heap h))"
    and "layered (with_node h nid vector level) R nid (length (hx_heap h)) {} (with_node h nid vector level)"
proof -
  have old: "c < length (hx_heap h) \<and> hn_ID (hx_heap h ! c) = x \<and>
      length (hn_Neighbors (hx_heap h ! c)) = hn_Level (hx_heap h ! c) + 1 \<and>
      (\<forall>k\<le>hn_Level (hx_heap h ! c). set (list_at h c k) \<subseteq> tall (hx_heap h) (hx_data h) k \<and>
         (x \<in> R \<longrightarrow> set (list_at h c k) \<subseteq> R))"
    if "map_of (nd_nodes (hx_data h)) x = Some c" for x c
    using hnsw_ok_node [OF assms(1) that] assms(3) that by (auto simp: node_ok_def list_at_def closed_graph_def)
  have s: "0 < hx_shardCount h" "length (hx_shards h) = hx_shardCount h"
      "\<And>x. map_of (hx_shards h ! getShard h x) x = map_of (nd_nodes (hx_data h)) x"
    using assms(1) by (simp_all add: hnsw_ok_def)
  show "base_ok (with_node h nid vector level) R nid (length (hx_heap h))"
    using s(1) hnsw_ok_fresh [OF assms(2)]
    by (auto simp: base_ok_def with_node_old(2) [OF assms(1)] less_SucI dest!: old) blast+
  have empty: "([] # replicate level []) ! k = []" if "k < Suc level" for k
    using that by (cases k) simp_all
  show "layered (with_node h nid vector level) R nid (length (hx_heap h)) {} (with_node h nid vector level)"
    using s hnsw_ok_fresh [OF assms(2)]
    by (auto simp: layered_def slot_def list_at_def empty)
qed

lemma hnsw_entry:
  assumes "hnsw_ok h" "nd_nodes (hx_data h) \<noteq> []"
  shows "0 \<le> nd_maxLevel (hx_data h)" "nd_entryPoint (hx_data h) \<in> tall (hx_heap h) (hx_data h) (nat (nd_maxLevel (hx_data h)))"
  using assms by (auto simp: hnsw_ok_def tall_def)

lemma hnsw_Add_next:
  assumes "hnsw_ok h" "nid \<notin> hnsw_ids h" "nd_nodes (hx_data h) \<noteq> []" "closed_graph h R" "nd_entryPoint (hx_data h) \<in> R"
  shows "\<exists>h'. hnsw_Add h nid vector level = Inr h' \<and> node_added h R nid vector level h'"
proof -
  let ?h0 = "with_node h nid vector level" and ?a = "length (hx_heap h)" and ?max = "nd_maxLevel (hx_data h)"
  let ?node = "\<lparr>hn_ID = nid, hn_Vector = vector, hn_Level = level, hn_Neighbors = replicate (level + 1) []\<rparr>"
  let ?ks = "layers (min (int level) ?max) 0"
  note base = with_node_base [OF assms(1,2,4), of vector level]
  from hnsw_entry(1) [OF assms(1,3)] have ks: "set ?ks = {k. k \<le> level \<and> int k \<le> ?max}" "distinct ?ks" "0 \<in> set ?ks"
    by (auto simp: layers_props)
  have lists: "lists_present (hx_heap ?h0) (hx_data h)"
    using layered_lists(1) [OF base, of 0] by simp
  have closed: "closed_at (hx_heap ?h0) (hx_data h) k R" for k
    using closed_graph_layer [OF with_node_closed [OF assms(1,4)]] by simp
  then obtain ep where ep: "descend (hx_heap ?h0) (hx_data h) vector (layers ?max (int level + 1)) [nd_entryPoint (hx_data h)] = Inr ep"
      "distinct ep" "set ep \<subseteq> R"
    using descend_spec [of "hx_heap ?h0" "hx_data h" R "[nd_entryPoint (hx_data h)]"] lists closed assms(5) by fastforce
  have slots: "\<forall>k\<in>set ?ks. slot ?h0 ?a k" using ks(1) by (auto simp: slot_def)
  obtain h1 where h1: "add_layers (hx_data h) nid vector ?a ?ks ep ?h0 = Inr h1" "layered ?h0 R nid ?a (set ?ks) h1"
    using add_layers_spec [OF base(1) ks(2) base(2) _ slots ep(2,3), of vector] by auto
  let ?h2 = "(updateDataWithNode h1 ?a ?node (?max < int level))\<lparr>hx_nodeCount := hx_nodeCount h + 1\<rparr>"
  have add: "hnsw_Add h nid vector level = Inr ?h2"
    using assms(3) ep(1) h1(1) by (simp add: hnsw_Add_def Let_def with_node_def)
  have fr: "same_frame ?h0 h1" using h1(2) by (simp add: layered_def)
  note fs = frame_simps [OF fr, simplified]
  have heap: "hn_ID (hx_heap h1 ! c) = hn_ID (hx_heap ?h0 ! c) \<and> hn_Vector (hx_heap h1 ! c) = hn_Vector (hx_heap ?h0 ! c) \<and>
      hn_Level (hx_heap h1 ! c) = hn_Level (hx_heap ?h0 ! c) \<and>
      length (hn_Neighbors (hx_heap h1 ! c)) = length (hn_Neighbors (hx_heap ?h0 ! c))" if "c \<le> ?a" for c
    using fr that by (simp add: same_frame_def)
  have shards: "map_of (hx_shards h1 ! getShard h x) x = map_of (nd_nodes (hx_data h) @ [(nid, ?a)]) x"
      "length (hx_shards h1) = hx_shardCount h" for x
    using h1(2) ks(3) hnsw_ok_fresh [OF assms(2)]
    by (auto simp: layered_def map_add_def split: option.splits)
  have fresh: "AList.update nid ?a (nd_nodes (hx_data h)) = nd_nodes (hx_data h) @ [(nid, ?a)]"
    using assms(2) by (simp add: alist_update_fresh hnsw_ids_def)
  have new: "length (list_at h1 ?a k) \<le> hx_M h \<and> set (list_at h1 ?a k) \<subseteq> tall (hx_heap h) (hx_data h) k \<inter> R" if "k \<le> level" for k
  proof -
    have "slot ?h0 ?a k" using that by (simp add: slot_def)
    with h1(2) show ?thesis
      by (auto simp: layered_def with_node_old(2) [OF assms(1)] split: if_splits)
  qed
  have old: "list_at h1 c k = list_at h c k \<or> k \<le> level \<and> list_at h1 c k = backlinked h c k nid"
    if "c < ?a" "k < length (hn_Neighbors (hx_heap h ! c))" for c k
  proof -
    have "slot ?h0 c k" "c \<noteq> ?a" using that by (simp_all add: slot_def)
    with h1(2) have "list_at h1 c k = list_at ?h0 c k \<or> k \<in> set ?ks \<and> list_at h1 c k = backlinked ?h0 c k nid"
      by (simp add: layered_def)
    with that(1) ks(1) show ?thesis by (auto simp: with_node_old(3) [OF assms(1)])
  qed
  have "node_added h R nid vector level ?h2"
    unfolding node_added_def Let_def
  proof (intro conjI allI impI)
    show "nd_maxLevel (hx_data ?h2) = max ?max (int level)" by (simp add: updateDataWithNode_def Let_def fs)
  qed (use fs shards fresh new old heap assms(3) in \<open>auto simp: updateDataWithNode_def Let_def list_at_def\<close>)
  with add show ?thesis by blast
qed

end
