(* ===== verification/Hnsw_Greedy.thy ===== *)
theory Hnsw_Greedy
  imports Hnsw_Graph
begin

text \<open>
  How good the answer of a layer search is: without NaN among the distances the loop stops only at a node that none of
  its neighbours is closer than, and nothing the search has visited is closer than its best answer.
\<close>

section \<open>Greedy search\<close>

definition no_nan :: "HnswNode list \<Rightarrow> nodeData \<Rightarrow> float32 list \<Rightarrow> bool" where
  "no_nan heap data query \<longleftrightarrow>
     (\<forall>x n. node_at heap (nd_nodes data) x = Some n \<longrightarrow> \<not> is_nan (CosineDistance query (hn_Vector n)))"

text \<open>No visited node is closer than \<open>best\<close>, those that are candidates apart.\<close>

definition none_closer ::
  "HnswNode list \<Rightarrow> nodeData \<Rightarrow> float32 list \<Rightarrow> fl \<Rightarrow> hnsw_id list \<Rightarrow> candidate list \<Rightarrow> bool" where
  "none_closer heap data query best vis cs \<longleftrightarrow>
     (\<forall>x\<in>set vis. \<forall>n. node_at heap (nd_nodes data) x = Some n \<longrightarrow>
        x \<in> cand_id ` set cs \<or> \<not> fl_lt (CosineDistance query (hn_Vector n)) best)"

definition grown ::
  "HnswNode list \<Rightarrow> nodeData \<Rightarrow> float32 list \<Rightarrow> fl \<Rightarrow> candidate list \<Rightarrow> hnsw_id set \<Rightarrow> visit_state \<Rightarrow> bool" where
  "grown heap data query best cs0 V = (\<lambda>(cs, vis, ch).
     none_closer heap data query best vis cs \<and> (\<exists>zs. cs = cs0 @ zs) \<and> (\<not> ch \<longrightarrow> cs = cs0) \<and> V \<subseteq> set vis)"

lemma visit_one_grown:
  "grown heap data query best cs0 V st \<Longrightarrow> grown heap data query best cs0 (insert nid V) (visit_one heap data query ef best nid st)"
  by (cases st) (auto simp: grown_def none_closer_def Let_def split: option.splits)

lemma visit_neighbors_grown:
  "grown heap data query best cs0 V st \<Longrightarrow>
     grown heap data query best cs0 (V \<union> set ns) (visit_neighbors heap data query ef best ns st)"
proof (induction ns arbitrary: st V)
  case Nil
  then show ?case by (simp add: visit_neighbors_def)
next
  case (Cons n ns)
  from Cons.IH [OF visit_one_grown [OF Cons.prems]] show ?case by (simp add: visit_neighbors_def)
qed

lemma grown_mono: "grown heap data query best cs0 V st \<Longrightarrow> V' \<subseteq> V \<Longrightarrow> grown heap data query best cs0 V' st"
  by (auto simp: grown_def)

text \<open>A round visits the neighbours of the best candidate.\<close>

lemma explore_grown:
  assumes "explore heap data query ef level (cand_distance (hd cs)) 0 (cs, vis, False) = Inr (cs', vis', ch')" "cs \<noteq> []"
    and "node_at heap (nd_nodes data) (cand_id (hd cs)) = Some n" "level \<le> hn_Level n" "neighbors_at n level = Inr ns"
    and "none_closer heap data query (cand_distance (hd cs)) vis cs"
  shows "grown heap data query (cand_distance (hd cs)) cs (set vis \<union> set ns) (cs', vis', ch')"
proof -
  let ?best = "cand_distance (hd cs)" and ?st = "visit_neighbors heap data query ef (cand_distance (hd cs)) ns (cs, vis, False)"
  have hd: "cs ! 0 = hd cs" using assms(2) by (simp add: hd_conv_nth)
  have e: "explore heap data query ef level ?best (0 + 1) ?st = Inr (cs', vis', ch')"
    using assms(1-5) hd by (simp add: explore.simps [of heap data query ef level ?best 0 cs vis False] Let_def)
  have "grown heap data query ?best cs (set vis) (cs, vis, False)"
    using assms(6) by (simp add: grown_def)
  from visit_neighbors_grown [OF this, of ns] have g: "grown heap data query ?best cs (set vis \<union> set ns) ?st" .
  show ?thesis
  proof (rule explore_keeps [OF e, of "grown heap data query ?best cs (set vis \<union> set ns)", OF g])
    show "grown heap data query ?best cs (set vis \<union> set ns) (visit_neighbors heap data query ef ?best ms (cs1, vis1, ch1))"
      if "grown heap data query ?best cs (set vis \<union> set ns) (cs1, vis1, ch1)" for cs1 vis1 ch1 ms
      by (rule grown_mono [OF visit_neighbors_grown [OF that]]) simp
  qed
qed

lemma hd_sort_closest:
  assumes "cs \<noteq> []" "\<forall>c\<in>set cs. \<not> is_nan (cand_distance c)"
  shows "hd (sort_Slice closer cs) \<in> set cs"
    and "c \<in> set cs \<Longrightarrow> \<not> fl_lt (cand_distance c) (cand_distance (hd (sort_Slice closer cs)))"
proof -
  obtain d ds where d: "sort_Slice closer cs = d # ds"
    using assms(1) length_sort_Slice [of closer cs] by (cases "sort_Slice closer cs") auto
  have set: "set cs = insert d (set ds)" using set_sort_Slice [of closer cs] by (simp add: d)
  then show "hd (sort_Slice closer cs) \<in> set cs" by (simp add: d)
  have "sorted_wrt (\<lambda>a b. \<not> fl_before (cand_distance b) (cand_distance a)) (d # ds)"
    using distance_order.sort_Slice_in_order [of cs] by (simp add: closer_order [OF assms(2), symmetric] d)
  with set show "c \<in> set cs \<Longrightarrow> \<not> fl_lt (cand_distance c) (cand_distance (hd (sort_Slice closer cs)))"
    by (auto simp: d fl_before_def)
qed

lemma take_in_order:
  assumes "\<forall>c\<in>set cs. \<not> is_nan (cand_distance c)"
  shows "sorted_wrt (\<lambda>a b. \<not> closer b a) (take k (sort_Slice closer cs))"
proof -
  have "sorted_wrt (\<lambda>a b. \<not> fl_before (cand_distance b) (cand_distance a)) (take k (sort_Slice closer cs))"
    using distance_order.sort_Slice_in_order [of cs] by (simp add: closer_order [OF assms, symmetric] sorted_wrt_take)
  then show ?thesis by (rule sorted_wrt_mono_rel [rotated]) (simp add: closer_def fl_before_def)
qed

lemma not_closer_trans:
  "\<not> is_nan x \<Longrightarrow> \<not> is_nan y \<Longrightarrow> \<not> is_nan z \<Longrightarrow> \<not> fl_lt y x \<Longrightarrow> \<not> fl_lt z y \<Longrightarrow> \<not> fl_lt z x"
  using float_order.neg_trans [of y x z] by (simp add: fl_before_lt)

text \<open>No neighbour of the best result is closer than it, nor is anything the search had seen before.\<close>

definition greedy_best ::
  "HnswNode list \<Rightarrow> nodeData \<Rightarrow> float32 list \<Rightarrow> nat \<Rightarrow> hnsw_id list \<Rightarrow> candidate list \<Rightarrow> bool" where
  "greedy_best heap data query level vis cs \<longleftrightarrow>
     cs \<noteq> [] \<and> none_closer heap data query (cand_distance (hd cs)) vis [] \<and>
     (\<forall>n ns. node_at heap (nd_nodes data) (cand_id (hd cs)) = Some n \<longrightarrow> neighbors_at n level = Inr ns \<longrightarrow>
        none_closer heap data query (cand_distance (hd cs)) ns [])"

lemma none_closer_mono:
  "none_closer heap data query best vis cs \<Longrightarrow> set vis' \<subseteq> set vis \<Longrightarrow> none_closer heap data query best vis' cs"
  by (auto simp: none_closer_def)

lemma greedy_best_mono:
  assumes "greedy_best heap data query level vis cs" "set vis' \<subseteq> set vis"
  shows "greedy_best heap data query level vis' cs"
  using assms(1) none_closer_mono [OF _ assms(2), of heap data query _ "[]"] unfolding greedy_best_def by blast

lemma search_rounds_greedy:
  "lists_present heap data \<Longrightarrow> no_nan heap data query \<Longrightarrow> closed_at heap data level (tall heap data level) \<Longrightarrow>
     cands_ok heap data query cs vis \<Longrightarrow> cand_id ` set cs \<subseteq> tall heap data level \<Longrightarrow>
     sorted_wrt (\<lambda>a b. \<not> closer b a) cs \<Longrightarrow> none_closer heap data query (cand_distance (hd cs)) vis [] \<Longrightarrow>
     0 < ef \<Longrightarrow> cs \<noteq> [] \<Longrightarrow> search_rounds heap data query ef level cs vis = Inr cs' \<Longrightarrow>
     greedy_best heap data query level vis cs'"
proof (induction heap data query ef level cs vis rule: search_rounds.induct)
  case (1 heap data query ef level cs vis)
  let ?best = "cand_distance (hd cs)" and ?tall = "tall heap data level"
  obtain cs1 vis1 ch1 where e: "explore heap data query ef level ?best 0 (cs, vis, False) = Inr (cs1, vis1, ch1)"
    using explore_total [OF "1.prems"(1), of query ef level ?best 0 "(cs, vis, False)"] by auto
  have "hd cs \<in> set cs" using "1.prems"(9) by simp
  with "1.prems"(5) obtain n where n: "node_at heap (nd_nodes data) (cand_id (hd cs)) = Some n" "level \<le> hn_Level n"
    by (auto simp: tall_def)
  with "1.prems"(1) obtain ns where ns: "neighbors_at n level = Inr ns" by (auto simp: lists_present_def neighbors_at_def)
  have nc: "none_closer heap data query ?best vis cs" using "1.prems"(7) by (auto simp: none_closer_def)
  have g: "none_closer heap data query ?best vis1 cs1" "\<exists>zs. cs1 = cs @ zs" "\<not> ch1 \<Longrightarrow> cs1 = cs" "set ns \<subseteq> set vis1"
      and vis: "set vis \<subseteq> set vis1"
    using explore_grown [OF e "1.prems"(9) n ns nc] by (auto simp: grown_def)
  have ok: "cands_ok heap data query cs1 vis1" "cand_id ` set cs1 \<subseteq> ?tall"
    using explore_inside [OF e _ "1.prems"(3)] "1.prems"(4,5) by (simp_all add: search_inside_def)
  have fin: "\<forall>c\<in>set cs1. \<not> is_nan (cand_distance c)"
    using ok(1) "1.prems"(2) by (fastforce simp: cands_ok_def no_nan_def)
  have ne: "cs1 \<noteq> []" "hd cs \<in> set cs1" using g(2) "1.prems"(9) by auto
  let ?ds = "take ef (sort_Slice closer cs1)"
  have hd: "hd ?ds = hd (sort_Slice closer cs1)" using "1.prems"(8) by (simp add: hd_take)
  note min = hd_sort_closest [OF ne(1) fin]
  have seen: "none_closer heap data query (cand_distance (hd ?ds)) vis1 []"
    unfolding none_closer_def
  proof (intro ballI allI impI)
    fix x m
    assume x: "x \<in> set vis1" "node_at heap (nd_nodes data) x = Some m"
    let ?d = "CosineDistance query (hn_Vector m)"
    have "\<not> fl_lt ?d (cand_distance (hd ?ds))"
    proof (cases "x \<in> cand_id ` set cs1")
      case True
      then obtain c where c: "c \<in> set cs1" "x = cand_id c" by blast
      with ok(1) x(2) have "cand_distance c = ?d" by (fastforce simp: cands_ok_def)
      with min(2) [OF c(1)] show ?thesis by (simp add: hd)
    next
      case False
      with g(1) x have "\<not> fl_lt ?d ?best" by (auto simp: none_closer_def)
      moreover have "\<not> is_nan ?d" using "1.prems"(2) x(2) by (simp add: no_nan_def)
      moreover have "\<not> is_nan (cand_distance (hd (sort_Slice closer cs1)))" "\<not> is_nan ?best"
        using fin min(1) ne(2) by blast+
      ultimately show ?thesis
        unfolding hd using not_closer_trans min(2) [OF ne(2)] by blast
    qed
    then show "x \<in> cand_id ` set [] \<or> \<not> fl_lt ?d (cand_distance (hd ?ds))" by simp
  qed
  have step: "search_rounds heap data query ef level cs vis = (if ch1 then search_rounds heap data query ef level ?ds vis1 else Inr ?ds)"
    using "1.prems"(9) e by (simp add: search_rounds.simps [of heap data query ef level cs vis] Let_def)
  have "sort_Slice closer cs1 \<noteq> []" using ne(1) by (metis length_0_conv length_sort_Slice)
  with "1.prems"(8) have ds: "?ds \<noteq> []" by simp
  show ?case
  proof (cases ch1)
    case False
    with g(3) have "cs1 = cs" by simp
    moreover have "sort_Slice closer cs = cs" by (rule sort_Slice_id [OF "1.prems"(6)])
    ultimately have hd_ds: "hd ?ds = hd cs" using "1.prems"(8) by (simp add: hd_take)
    have cs': "cs' = ?ds" using False step "1.prems"(10) by simp
    show ?thesis
      unfolding greedy_best_def cs'
    proof (intro conjI allI impI)
      show "none_closer heap data query (cand_distance (hd ?ds)) ns' []"
        if "node_at heap (nd_nodes data) (cand_id (hd ?ds)) = Some n'" "neighbors_at n' level = Inr ns'" for n' ns'
        using that n(1) ns none_closer_mono [OF seen g(4)] unfolding hd_ds by simp
    qed (rule ds, rule none_closer_mono [OF seen vis])
  next
    case True
    have sorted: "sorted_wrt (\<lambda>a b. \<not> closer b a) ?ds" by (rule take_in_order [OF fin])
    have "greedy_best heap data query level vis1 cs'"
    proof (rule "1.IH" [OF "1.prems"(9) e refl refl refl True "1.prems"(1-3) cands_ok_take [OF ok(1)] _ sorted seen "1.prems"(8) ds])
      show "cand_id ` set ?ds \<subseteq> ?tall" using ok(2) set_take_subset [of ef "sort_Slice closer cs1"] by auto
      show "search_rounds heap data query ef level ?ds vis1 = Inr cs'" using step True "1.prems"(10) by simp
    qed
    with vis show ?thesis by (rule greedy_best_mono [rotated])
  qed
qed
lemma searchLayer_greedy:
  assumes "lists_present heap data" "no_nan heap data query" "closed_at heap data level (tall heap data level)"
    and "distinct ep" "ep \<noteq> []" "set ep \<subseteq> tall heap data level" "0 < ef"
    and "searchLayer heap data ep query ef level = Inr (map cand_id cs)"
    and "layer_result heap data query ef level start cs" "start \<subseteq> tall heap data level"
  shows "greedy_best heap data query level ep cs"
proof -
  let ?cs = "entry_candidates heap data query level ep"
  note entry = entry_candidates_spec [OF assms(4), of heap data query level]
  obtain cs' where cs': "search_rounds heap data query ef level (take ef (sort_Slice closer ?cs)) (map cand_id ?cs) = Inr cs'"
      "map cand_id cs' = map cand_id cs"
    using assms(5,8) by (auto simp: searchLayer_def Let_def rbind_eq_Inr)
  have fin: "\<forall>c\<in>set ?cs. \<not> is_nan (cand_distance c)"
    using entry(1) assms(2) by (fastforce simp: cands_ok_def no_nan_def)
  have "cand_id ` set ?cs = set ep" using entry(2) assms(6) by (simp add: Int_absorb2)
  with assms(5) have ne: "?cs \<noteq> []" by fastforce
  then have "sort_Slice closer ?cs \<noteq> []" by (metis length_0_conv length_sort_Slice)
  with assms(7) have ds: "take ef (sort_Slice closer ?cs) \<noteq> []" by simp
  have hd: "hd (take ef (sort_Slice closer ?cs)) = hd (sort_Slice closer ?cs)" using assms(7) by (simp add: hd_take)
  have seen: "none_closer heap data query (cand_distance (hd (take ef (sort_Slice closer ?cs)))) (map cand_id ?cs) []"
    unfolding none_closer_def hd
  proof (intro ballI allI impI disjI2)
    fix x m
    assume x: "x \<in> set (map cand_id ?cs)" "node_at heap (nd_nodes data) x = Some m"
    then obtain c where c: "c \<in> set ?cs" "x = cand_id c" by auto
    with entry(1) x(2) have "cand_distance c = CosineDistance query (hn_Vector m)" by (fastforce simp: cands_ok_def)
    with hd_sort_closest(2) [OF ne fin c(1)]
    show "\<not> fl_lt (CosineDistance query (hn_Vector m)) (cand_distance (hd (sort_Slice closer ?cs)))" by simp
  qed
  have sub: "cand_id ` set (take ef (sort_Slice closer ?cs)) \<subseteq> tall heap data level"
    using set_take_subset [of ef "sort_Slice closer ?cs"] entry(2) by auto
  have g: "greedy_best heap data query level (map cand_id ?cs) cs'"
    by (rule search_rounds_greedy [OF assms(1-3) cands_ok_take [OF entry(1)] sub take_in_order [OF fin] seen assms(7) ds cs'(1)])
  have "set ep \<subseteq> set (map cand_id ?cs)" using entry(2) assms(6) by auto
  with g have g: "greedy_best heap data query level ep cs'" by (rule greedy_best_mono)
  have "cs \<noteq> []" using cs'(2) g by (auto simp: greedy_best_def)
  have "layer_result heap data query ef level (cand_id ` set (take ef (sort_Slice closer ?cs))) cs'"
    using search_rounds_spec [OF assms(1) cands_ok_take [OF entry(1), of ef], of ef level] cs'(1) by auto
  note r' = layer_result_ids(3) [OF this] and r = layer_result_ids(3) [OF assms(9)]
  have hds: "cand_id (hd cs) = cand_id (hd cs')"
    using cs'(2) \<open>cs \<noteq> []\<close> g by (cases cs; cases cs') (auto simp: greedy_best_def)
  moreover have "hd cs \<in> set cs" "hd cs' \<in> set cs'" using \<open>cs \<noteq> []\<close> g by (auto simp: greedy_best_def)
  ultimately have "cand_distance (hd cs) = cand_distance (hd cs')" using r r' by fastforce
  with g hds \<open>cs \<noteq> []\<close> show ?thesis by (simp add: greedy_best_def)
qed

end
