(* ===== verification/Hnsw_Index.thy ===== *)
theory Hnsw_Index
  imports Hnsw_Add Hnsw_Greedy
begin

text \<open>
  The properties of the vector index: additions keep the graph well formed, searches are total and sound, and a node
  all of whose neighbours are full when it is added can never be found.
\<close>

section \<open>Additions keep the graph well formed\<close>

lemma hnsw_Add_spec:
  assumes "hnsw_ok h" "nid \<notin> hnsw_ids h"
    and "closed_graph h R" "nd_nodes (hx_data h) \<noteq> [] \<Longrightarrow> nd_entryPoint (hx_data h) \<in> R"
  shows "\<exists>h'. hnsw_Add h nid vector level = Inr h' \<and> node_added h R nid vector level h'"
  using hnsw_Add_first [OF assms(1)] hnsw_Add_next [OF assms(1,2) _ assms(3,4)] by blast

lemma added_ids: "node_added h R nid vector level h' \<Longrightarrow> hnsw_ids h' = insert nid (hnsw_ids h)"
  by (auto simp: node_added_def hnsw_ids_def)

lemma added_map_of:
  assumes "node_added h R nid vector level h'" "nid \<notin> hnsw_ids h"
  shows "map_of (nd_nodes (hx_data h')) x = (if x = nid then Some (length (hx_heap h)) else map_of (nd_nodes (hx_data h)) x)"
  using assms hnsw_ok_fresh [OF assms(2)] by (simp add: node_added_def map_add_def split: option.splits)

lemma added_tall:
  assumes "hnsw_ok h" "nid \<notin> hnsw_ids h" "node_added h R nid vector level h'"
  shows "tall (hx_heap h') (hx_data h') k = tall (hx_heap h) (hx_data h) k \<union> (if k \<le> level then {nid} else {})"
proof -
  have new: "hn_Level (hx_heap h' ! length (hx_heap h)) = level"
    using assms(3) by (simp add: node_added_def Let_def)
  have old: "hn_Level (hx_heap h' ! c) = hn_Level (hx_heap h ! c)" if "map_of (nd_nodes (hx_data h)) x = Some c" for x c
    using assms(3) hnsw_ok_node(1) [OF assms(1) that] by (simp add: node_added_def)
  show ?thesis
    using hnsw_ok_fresh [OF assms(2)] old
    by (auto simp: tall_def node_at_def added_map_of [OF assms(3,2)] new split: if_splits)
qed

lemma added_node_ok:
  assumes "hnsw_ok h" "nid \<notin> hnsw_ids h" "node_added h R nid vector level h'"
    and "map_of (nd_nodes (hx_data h')) x = Some a"
  shows "a < length (hx_heap h') \<and> node_ok h' x (hx_heap h' ! a)"
proof (cases "x = nid")
  case True
  with assms(4) have a: "a = length (hx_heap h)" by (simp add: added_map_of [OF assms(3,2)])
  have n: "length (hx_heap h') = length (hx_heap h) + 1" "hx_M h' = hx_M h"
      "nd_maxLevel (hx_data h') = max (nd_maxLevel (hx_data h)) (int level)"
      "hn_ID (hx_heap h' ! a) = nid" "hn_Level (hx_heap h' ! a) = level" "length (hn_Neighbors (hx_heap h' ! a)) = level + 1"
      "k \<le> level \<Longrightarrow> length (hn_Neighbors (hx_heap h' ! a) ! k) \<le> hx_M h \<and>
         set (hn_Neighbors (hx_heap h' ! a) ! k) \<subseteq> tall (hx_heap h) (hx_data h) k" for k
    using assms(3) by (simp_all add: node_added_def Let_def a)
  with a True show ?thesis by (auto simp: node_ok_def added_tall [OF assms(1-3)])
next
  case False
  with assms(4) have a: "map_of (nd_nodes (hx_data h)) x = Some a" by (simp add: added_map_of [OF assms(3,2)])
  note ok = hnsw_ok_node [OF assms(1) a]
  have same: "hn_ID (hx_heap h' ! a) = x" "hn_Level (hx_heap h' ! a) = hn_Level (hx_heap h ! a)"
      "length (hn_Neighbors (hx_heap h' ! a)) = hn_Level (hx_heap h ! a) + 1" "hx_M h' = hx_M h"
      "int (hn_Level (hx_heap h ! a)) \<le> nd_maxLevel (hx_data h')" "length (hx_heap h') = length (hx_heap h) + 1"
    using ok assms(3) by (auto simp: node_added_def node_ok_def)
  have lists: "length (list_at h' a k) \<le> hx_M h \<and> set (list_at h' a k) \<subseteq> tall (hx_heap h') (hx_data h') k"
    if "k \<le> hn_Level (hx_heap h ! a)" for k
  proof -
    have o: "length (list_at h a k) \<le> hx_M h" "set (list_at h a k) \<subseteq> tall (hx_heap h) (hx_data h) k"
      using ok(2) that by (auto simp: node_ok_def list_at_def)
    have "list_at h' a k = list_at h a k \<or> k \<le> level \<and> list_at h' a k = backlinked h a k nid"
      using assms(3) ok that by (auto simp: node_added_def node_ok_def)
    with o backlinked_bound [of h a k nid] show ?thesis
      by (auto simp: added_tall [OF assms(1-3)])
  qed
  with ok same show ?thesis by (simp add: node_ok_def list_at_def)
qed

lemma added_ok:
  assumes "hnsw_ok h" "nid \<notin> hnsw_ids h" "node_added h R nid vector level h'"
  shows "hnsw_ok h'"
proof -
  have m: "map_of (nd_nodes (hx_data h')) y = (if y = nid then Some (length (hx_heap h)) else map_of (nd_nodes (hx_data h)) y)"
    for y by (rule added_map_of [OF assms(3,2)])
  have entry: "\<exists>n. hnode h' (nd_entryPoint (hx_data h')) = Some n \<and> int (hn_Level n) = nd_maxLevel (hx_data h')"
  proof (cases "nd_nodes (hx_data h) = [] \<or> nd_maxLevel (hx_data h) < int level")
    case True
    then have "nd_maxLevel (hx_data h) \<le> int level" using assms(1) by (auto simp: hnsw_ok_def)
    with True assms(3) have "nd_entryPoint (hx_data h') = nid" "nd_maxLevel (hx_data h') = int level"
        "hn_Level (hx_heap h' ! length (hx_heap h)) = level"
      by (simp_all add: node_added_def Let_def)
    then show ?thesis by (simp add: node_at_def m)
  next
    case False
    with assms(1) obtain n where n: "hnode h (nd_entryPoint (hx_data h)) = Some n" "int (hn_Level n) = nd_maxLevel (hx_data h)"
      by (auto simp: hnsw_ok_def)
    then obtain c where c: "map_of (nd_nodes (hx_data h)) (nd_entryPoint (hx_data h)) = Some c" "n = hx_heap h ! c"
      by (auto simp: node_at_def)
    have "nd_entryPoint (hx_data h) \<noteq> nid" using c(1) hnsw_ok_fresh [OF assms(2)] by auto
    moreover have "nd_entryPoint (hx_data h') = nd_entryPoint (hx_data h)" "nd_maxLevel (hx_data h') = nd_maxLevel (hx_data h)"
        "hn_Level (hx_heap h' ! c) = hn_Level (hx_heap h ! c)"
      using False hnsw_ok_node(1) [OF assms(1) c(1)] assms(3) by (simp_all add: node_added_def)
    ultimately show ?thesis using n c by (simp add: node_at_def m)
  qed
  have g: "getShard h' y = getShard h y" for y using assms(3) by (simp add: node_added_def getShard_def)
  show ?thesis
    unfolding hnsw_ok_def
  proof (intro conjI allI impI)
    show "a < length (hx_heap h')" if "map_of (nd_nodes (hx_data h')) y = Some a" for y a
      using added_node_ok [OF assms that] by simp
    show "node_ok h' y (hx_heap h' ! a)" if "map_of (nd_nodes (hx_data h')) y = Some a" for y a
      using added_node_ok [OF assms that] by simp
    show "distinct (map fst (nd_nodes (hx_data h')))"
      using assms by (auto simp: node_added_def hnsw_ok_def hnsw_ids_def)
  qed (use assms(1,3) entry g in \<open>auto simp: node_added_def hnsw_ok_def\<close>)
qed

lemma hnsw_New_ok: "hnsw_ok (hnsw_New ln2 config)"
proof -
  have "0 < positive_or n 16" "0 < positive_or n 200" for n by (simp_all add: positive_or_def)
  then show ?thesis
    by (auto simp: hnsw_ok_def hnsw_New_def Let_def getShard_def nat_less_iff)
qed

lemma hnsw_New_ids [simp]: "hnsw_ids (hnsw_New ln2 config) = {}"
  by (simp add: hnsw_ids_def hnsw_New_def Let_def)

text \<open>A sequence of additions; the level of each is what \<open>randomLevel\<close> drew for it.\<close>

fun hnsw_adds :: "(hnsw_id \<times> float32 list \<times> nat) list \<Rightarrow> HNSW \<Rightarrow> HNSW go" where
  "hnsw_adds [] h = Inr h"
| "hnsw_adds ((nid, vector, level) # xs) h = rbind (hnsw_Add h nid vector level) (hnsw_adds xs)"

lemma hnsw_adds_ok:
  assumes "hnsw_ok h" "distinct (map fst xs)" "fst ` set xs \<inter> hnsw_ids h = {}"
  shows "\<exists>h'. hnsw_adds xs h = Inr h' \<and> hnsw_ok h' \<and> hnsw_ids h' = hnsw_ids h \<union> fst ` set xs"
  using assms
proof (induction xs arbitrary: h)
  case Nil
  then show ?case by simp
next
  case (Cons x xs)
  obtain nid v l where x: "x = (nid, v, l)" by (cases x)
  with Cons.prems have nid: "nid \<notin> hnsw_ids h" by simp
  from hnsw_Add_spec [OF Cons.prems(1) nid, of UNIV] obtain h1 where h1: "hnsw_Add h nid v l = Inr h1" "node_added h UNIV nid v l h1" by auto
  have "hnsw_ok h1" "hnsw_ids h1 = insert nid (hnsw_ids h)"
    using added_ok [OF Cons.prems(1) nid h1(2)] added_ids [OF h1(2)] by simp_all
  with Cons.IH [of h1] Cons.prems x h1(1) show ?case by auto
qed

section \<open>Searching\<close>

lemma closed_tall:
  assumes "hnsw_ok h" "closed_graph h R"
  shows "closed_at (hx_heap h) (hx_data h) k (tall (hx_heap h) (hx_data h) k \<inter> R)" and "lists_present (hx_heap h) (hx_data h)"
  using assms hnsw_ok_node(2) [OF assms(1)]
  by (fastforce simp: closed_graph_def closed_at_def node_at_def neighbors_at_def list_at_def node_ok_def split: if_splits,
      fastforce simp: lists_present_def node_at_def node_ok_def)

lemma tall_ids: "tall (hx_heap h) (hx_data h) k \<subseteq> hnsw_ids h"
  by (auto simp: tall_def node_at_def hnsw_ids_def dest: map_of_SomeD intro: rev_image_eqI)

lemma search_down_spec:
  assumes "lists_present heap data" "\<forall>k. closed_at heap data k R" "distinct ep" "set ep \<subseteq> R"
  shows "\<exists>ep'. search_down heap data query lcs ep = Inr ep' \<and> distinct ep' \<and> set ep' \<subseteq> R"
  using assms(3,4)
proof (induction lcs arbitrary: ep)
  case Nil
  then show ?case by simp
next
  case (Cons k lcs)
  from searchLayer_spec [OF assms(1) Cons.prems(1), of query 1 k] obtain cs where
    cs: "searchLayer heap data ep query 1 k = Inr (map cand_id cs)"
      "layer_result heap data query 1 k (set ep \<inter> tall heap data k) cs" by blast
  have "closed_at heap data k R" using assms(2) by simp
  then have "set (map cand_id cs) \<subseteq> R" using layer_result_ids(4) [OF cs(2)] Cons.prems(2) by auto
  with Cons.IH [OF layer_result_ids(2) [OF cs(2)]] cs(1) show ?case by simp
qed

text \<open>A search answers with the nearest of what the last layer search found, all within a closed set.\<close>

lemma hnsw_Search_spec:
  assumes "hnsw_ok h" "closed_graph h R" "nd_nodes (hx_data h) \<noteq> [] \<Longrightarrow> nd_entryPoint (hx_data h) \<in> R" "0 \<le> k"
  shows "\<exists>cs start. hnsw_Search h query k = Inr (map cand_id (take (nat k) cs)) \<and>
     layer_result (hx_heap h) (hx_data h) query (hx_ef h) 0 start cs \<and> cand_id ` set cs \<subseteq> hnsw_ids h \<inter> R"
proof (cases "nd_nodes (hx_data h) = []")
  case True
  then show ?thesis
    by (intro exI [of _ "[]"] exI [of _ "{}"]) (auto simp: hnsw_Search_def layer_result_def cands_ok_def intro!: exI [of _ "[]"])
next
  case False
  have closed: "\<forall>k. closed_at (hx_heap h) (hx_data h) k R" using closed_graph_layer [OF assms(2)] by simp
  obtain ep where ep: "search_down (hx_heap h) (hx_data h) query (layers (nd_maxLevel (hx_data h)) 1) [nd_entryPoint (hx_data h)] = Inr ep"
      "distinct ep" "set ep \<subseteq> R"
    using search_down_spec [OF closed_tall(2) [OF assms(1,2)] closed, of "[nd_entryPoint (hx_data h)]"] assms(3) False by fastforce
  obtain cs where cs: "searchLayer (hx_heap h) (hx_data h) ep query (hx_ef h) 0 = Inr (map cand_id cs)"
      "layer_result (hx_heap h) (hx_data h) query (hx_ef h) 0 (set ep \<inter> tall (hx_heap h) (hx_data h) 0) cs"
    using searchLayer_spec [OF closed_tall(2) [OF assms(1,2)] ep(2)] by blast
  have "cand_id ` set cs \<subseteq> tall (hx_heap h) (hx_data h) 0 \<inter> R"
    using layer_result_ids(4) [OF cs(2) closed_tall(1) [OF assms(1,2)]] ep(3) by blast
  then have sub: "cand_id ` set cs \<subseteq> hnsw_ids h \<inter> R" using tall_ids [of h 0] by blast
  have "cs = []" if "ep = []"
    using cs(1) that by (simp add: searchLayer_def)
  then have "hnsw_Search h query k = Inr (map cand_id (take (nat k) cs))"
    using False ep(1) cs(1) assms(4) by (auto simp: hnsw_Search_def Let_def first_k_def take_map)
  with cs(2) sub show ?thesis by blast
qed

section \<open>Nodes that are never found\<close>

text \<open>Distances of vectors of the same length are in \<open>[0, 2]\<close>, when they are numbers.\<close>

lemma clamp_range: "\<not> is_nan s \<Longrightarrow> \<exists>t r. clamp_similarity s = Finite t r \<and> \<bar>fl_val (Finite t r)\<bar> \<le> 1"
  by (cases s) (auto simp: clamp_similarity_def abs_le_iff)

lemma one_minus_range:
  assumes "\<bar>fl_val (Finite t r)\<bar> \<le> 1"
  shows "\<exists>r'. fl_sub F64 fl_1 (Finite t r) = Finite False r' \<and> 0 \<le> r' \<and> r' \<le> 2"
proof -
  let ?v = "1 - fl_val (Finite t r)"
  have v: "0 \<le> ?v" "?v \<le> 2" using assms by (simp_all add: abs_le_iff)
  have "\<exists>r'. fl_pack F64 False ?v = Finite False r' \<and> 0 \<le> r' \<and> r' \<le> pow2 1"
    using v by (intro fl_pack_bound) (simp_all add: pow2_def)
  moreover have "fl_sub F64 fl_1 (Finite t r) = fl_pack F64 False ?v"
    using v by (cases t) (auto simp: fl_sub_def Let_def fl_of_rat_def fl_pack_def)
  ultimately show ?thesis by (simp add: pow2_def)
qed

lemma CosineDistance_range:
  assumes "length a = length b" "\<not> is_nan (CosineDistance a b)"
  shows "\<exists>r. CosineDistance a b = Finite False r \<and> 0 \<le> r \<and> r \<le> 2"
proof -
  obtain d na nb where sums: "cosine_sums a b (fl_0, fl_0, fl_0) = (d, na, nb)" by (cases "cosine_sums a b (fl_0, fl_0, fl_0)")
  let ?s = "fl_div F64 d (fl_mul F64 (fl_sqrt F64 na) (fl_sqrt F64 nb))"
  show ?thesis
  proof (cases "fl_eq na fl_0 \<or> fl_eq nb fl_0")
    case True
    with assms(1) sums show ?thesis by (simp add: CosineDistance_def)
  next
    case False
    then have c: "CosineDistance a b = fl_conv F32 (fl_sub F64 fl_1 (clamp_similarity ?s))"
      using assms(1) sums by (simp add: CosineDistance_def Let_def)
    have "clamp_similarity NaN = NaN" by (simp add: clamp_similarity_def)
    with assms(2) c have "\<not> is_nan ?s" by (cases ?s) (auto simp: fl_sub_def)
    then obtain t r where "clamp_similarity ?s = Finite t r" "\<bar>fl_val (Finite t r)\<bar> \<le> 1" using clamp_range by blast
    moreover from this obtain r' where r': "fl_sub F64 fl_1 (Finite t r) = Finite False r'" "0 \<le> r'" "r' \<le> 2"
      using one_minus_range by blast
    moreover have "\<exists>r''. fl_pack F32 False r' = Finite False r'' \<and> 0 \<le> r'' \<and> r'' \<le> pow2 1"
      using r' by (intro fl_pack_bound) (simp_all add: pow2_def)
    ultimately show ?thesis using c by (simp add: pow2_def)
  qed
qed

lemma CosineDistance_less_max:
  "length a = length b \<Longrightarrow> \<not> is_nan (CosineDistance a b) \<Longrightarrow> fl_lt (CosineDistance a b) MaxFloat32"
  using CosineDistance_range [of a b] by (auto simp: MaxFloat32_def pow2_def)

text \<open>All lists of the layers up to \<open>level\<close> are full, with vectors of one length.\<close>

definition full_layers :: "HNSW \<Rightarrow> nat \<Rightarrow> bool" where
  "full_layers h level \<longleftrightarrow>
     (\<forall>(x, a)\<in>set (nd_nodes (hx_data h)). \<forall>k\<le>min level (hn_Level (hx_heap h ! a)).
        length (list_at h a k) = hx_M h \<and>
        (\<forall>y\<in>set (list_at h a k). \<forall>n. hnode h y = Some n \<longrightarrow>
           length (hn_Vector n) = length (hn_Vector (hx_heap h ! a)) \<and>
           \<not> is_nan (CosineDistance (hn_Vector (hx_heap h ! a)) (hn_Vector n))))"

lemma sort_last:
  assumes "\<forall>y\<in>set ys. lt y c \<and> \<not> lt c y"
  shows "sort_Slice lt (ys @ [c]) = sort_Slice lt ys @ [c]"
  using assms
proof (induction ys)
  case Nil
  then show ?case by simp
next
  case (Cons y ys)
  have "sort_insert lt y (zs @ [c]) = sort_insert lt y zs @ [c]" for zs
    using Cons.prems by (induction zs) auto
  with Cons show ?case by simp
qed

lemma full_backlinked:
  assumes "hnsw_ok h" "nid \<notin> hnsw_ids h" "full_layers h level"
    and "map_of (nd_nodes (hx_data h)) x = Some a" "k \<le> level" "k \<le> hn_Level (hx_heap h ! a)"
  shows "nid \<notin> set (backlinked h a k nid)"
proof -
  let ?v = "hn_Vector (hx_heap h ! a)" and ?ids = "list_at h a k" and ?c = "\<lparr>cand_id = nid, cand_distance = MaxFloat32\<rparr>"
  have full: "length ?ids = hx_M h" "\<And>y n. y \<in> set ?ids \<Longrightarrow> hnode h y = Some n \<Longrightarrow>
      length (hn_Vector n) = length ?v \<and> \<not> is_nan (CosineDistance ?v (hn_Vector n))"
    using bspec [OF assms(3) [unfolded full_layers_def] map_of_SomeD [OF assms(4)]] assms(5,6) by simp_all
  have sub: "set ?ids \<subseteq> tall (hx_heap h) (hx_data h) k"
    using hnsw_ok_node(2) [OF assms(1,4)] assms(6) by (auto simp: node_ok_def list_at_def)
  then have old: "set ?ids \<subseteq> hnsw_ids h" using tall_ids by blast
  have p: "prune_candidates h ?v (?ids @ [nid]) = prune_candidates h ?v ?ids @ [?c]"
    using hnsw_ok_fresh [OF assms(2)] by (simp add: prune_candidates_def node_at_def)
  have "closer c ?c \<and> \<not> closer ?c c" if "c \<in> set (prune_candidates h ?v ?ids)" for c
  proof -
    from that sub obtain y n where y: "y \<in> set ?ids" "hnode h y = Some n" "cand_distance c = CosineDistance ?v (hn_Vector n)"
      by (fastforce simp: prune_candidates_def tall_def split: option.splits)
    with full(2) [OF y(1,2)] CosineDistance_range [of ?v "hn_Vector n"] show ?thesis
      by (auto simp: closer_def MaxFloat32_def pow2_def)
  qed
  then have s: "sort_Slice closer (prune_candidates h ?v ?ids @ [?c]) = sort_Slice closer (prune_candidates h ?v ?ids) @ [?c]"
    by (intro sort_last) blast
  have l: "length (prune_candidates h ?v ?ids) = hx_M h" using full(1) by (simp add: prune_candidates_def)
  have "backlinked h a k nid = map cand_id (sort_Slice closer (prune_candidates h ?v ?ids))"
    using full(1) by (simp add: backlinked_def Let_def p selectNeighborsWithDistances_def s l)
  moreover have "cand_id ` set (prune_candidates h ?v ?ids) = set ?ids"
    using arg_cong [OF cand_id_prune [of h ?v ?ids], of set] by (simp only: set_map)
  ultimately show ?thesis using old assms(2) by auto
qed

text \<open>A node that no list names and that is not the entry point.\<close>

definition hidden :: "HNSW \<Rightarrow> hnsw_id \<Rightarrow> bool" where
  "hidden h x \<longleftrightarrow> nd_entryPoint (hx_data h) \<noteq> x \<and> closed_graph h (- {x})"

lemma hidden_not_found:
  assumes "hnsw_ok h" "hidden h x" "0 \<le> k"
  shows "\<exists>ids. hnsw_Search h query k = Inr ids \<and> x \<notin> set ids"
proof -
  from assms(2) have c: "closed_graph h (- {x})" "nd_entryPoint (hx_data h) \<in> - {x}" by (simp_all add: hidden_def)
  from hnsw_Search_spec [OF assms(1) c assms(3), of query] show ?thesis
  proof (elim exE conjE)
    fix cs start
    assume cs: "hnsw_Search h query k = Inr (map cand_id (take (nat k) cs))" "cand_id ` set cs \<subseteq> hnsw_ids h \<inter> - {x}"
    then have "x \<notin> cand_id ` set (take (nat k) cs)" using image_mono [OF set_take_subset [of "nat k" cs], of cand_id] by auto
    with cs(1) show ?thesis by simp
  qed
qed

lemma added_list:
  assumes "hnsw_ok h" "node_added h R nid vector level h'" "map_of (nd_nodes (hx_data h)) x = Some a" "k \<le> hn_Level (hx_heap h ! a)"
  shows "hn_Level (hx_heap h' ! a) = hn_Level (hx_heap h ! a)"
    and "list_at h' a k = list_at h a k \<or> k \<le> level \<and> list_at h' a k = backlinked h a k nid"
  using assms(2,4) hnsw_ok_node [OF assms(1,3)] by (auto simp: node_added_def node_ok_def)

lemma hidden_added:
  assumes "hnsw_ok h" "nid \<notin> hnsw_ids h" "x \<in> hnsw_ids h" "hidden h x" "node_added h (- {x}) nid vector level h'"
  shows "hidden h' x"
proof -
  have ne: "nid \<noteq> x" using assms(2,3) by blast
  have "set (list_at h' a k) \<subseteq> - {x}"
    if a: "map_of (nd_nodes (hx_data h')) y = Some a" "y \<noteq> x" "k \<le> hn_Level (hx_heap h' ! a)" for y a k
  proof (cases "y = nid")
    case True
    with a assms(5) show ?thesis by (auto simp: added_map_of [OF assms(5,2)] node_added_def Let_def list_at_def)
  next
    case False
    with a(1) have o: "map_of (nd_nodes (hx_data h)) y = Some a" by (simp add: added_map_of [OF assms(5,2)])
    have lev: "hn_Level (hx_heap h' ! a) = hn_Level (hx_heap h ! a)" using added_list(1) [OF assms(1,5) o le0] .
    with a(3) added_list(2) [OF assms(1,5) o, of k]
    have "list_at h' a k = list_at h a k \<or> list_at h' a k = backlinked h a k nid" by auto
    moreover have "set (list_at h a k) \<subseteq> - {x}"
      using assms(4) o a(2,3) lev by (auto simp: hidden_def closed_graph_def)
    ultimately show ?thesis using backlinked_bound(2) [of h a k nid] ne by auto
  qed
  moreover have "nd_entryPoint (hx_data h') \<noteq> x"
    using assms(4,5) ne by (auto simp: node_added_def hidden_def)
  ultimately show ?thesis by (auto simp: hidden_def closed_graph_def)
qed

lemma added_hidden:
  assumes "hnsw_ok h" "nid \<notin> hnsw_ids h" "full_layers h level" "int level \<le> nd_maxLevel (hx_data h)"
    and "node_added h UNIV nid vector level h'"
  shows "hidden h' nid"
proof -
  have ne: "nd_nodes (hx_data h) \<noteq> []" using assms(1,4) by (auto simp: hnsw_ok_def)
  then have "nd_entryPoint (hx_data h) \<in> tall (hx_heap h) (hx_data h) (nat (nd_maxLevel (hx_data h)))"
    by (rule hnsw_entry(2) [OF assms(1)])
  then have "nd_entryPoint (hx_data h) \<in> hnsw_ids h" using tall_ids by blast
  with assms(2,4,5) ne have entry: "nd_entryPoint (hx_data h') \<noteq> nid" by (auto simp: node_added_def)
  have "set (list_at h' a k) \<subseteq> - {nid}"
    if a: "map_of (nd_nodes (hx_data h')) y = Some a" "y \<noteq> nid" "k \<le> hn_Level (hx_heap h' ! a)" for y a k
  proof -
    from a(1,2) have o: "map_of (nd_nodes (hx_data h)) y = Some a" by (simp add: added_map_of [OF assms(5,2)])
    have lev: "hn_Level (hx_heap h' ! a) = hn_Level (hx_heap h ! a)" using added_list(1) [OF assms(1,5) o le0] .
    have "set (list_at h a k) \<subseteq> hnsw_ids h"
      using hnsw_ok_node(2) [OF assms(1) o] a(3) lev tall_ids [of h k] by (fastforce simp: node_ok_def list_at_def)
    with added_list(2) [OF assms(1,5) o, of k] full_backlinked [OF assms(1-3) o, of k] a(3) lev assms(2) show ?thesis
      by auto
  qed
  with entry show ?thesis by (auto simp: hidden_def closed_graph_def)
qed

lemma hidden_forever:
  assumes "hnsw_ok h" "x \<in> hnsw_ids h" "hidden h x" "distinct (map fst xs)" "fst ` set xs \<inter> hnsw_ids h = {}"
  shows "\<exists>h'. hnsw_adds xs h = Inr h' \<and> hnsw_ok h' \<and> x \<in> hnsw_ids h' \<and> hidden h' x"
  using assms
proof (induction xs arbitrary: h)
  case Nil
  then show ?case by simp
next
  case (Cons y xs)
  obtain nid v l where y: "y = (nid, v, l)" by (cases y)
  with Cons.prems have nid: "nid \<notin> hnsw_ids h" by simp
  from Cons.prems(3) have c: "closed_graph h (- {x})" "nd_entryPoint (hx_data h) \<in> - {x}" by (simp_all add: hidden_def)
  obtain h1 where h1: "hnsw_Add h nid v l = Inr h1" "node_added h (- {x}) nid v l h1"
    using hnsw_Add_spec [OF Cons.prems(1) nid c] by blast
  have "hnsw_ok h1" "hnsw_ids h1 = insert nid (hnsw_ids h)" "hidden h1 x"
    using added_ok [OF Cons.prems(1) nid h1(2)] added_ids [OF h1(2)] hidden_added [OF Cons.prems(1) nid Cons.prems(2,3) h1(2)]
    by simp_all
  with Cons.IH [of h1] Cons.prems y h1(1) show ?case by auto
qed

section \<open>The answer of a search\<close>

lemma tall_mono: "j \<le> k \<Longrightarrow> tall heap data k \<subseteq> tall heap data j"
  by (fastforce simp: tall_def)

lemma search_down_greedy:
  assumes "hnsw_ok h" "no_nan (hx_heap h) (hx_data h) query" "sorted_wrt (\<ge>) lcs" "distinct ep" "ep \<noteq> []"
    and "\<forall>k\<in>set lcs. set ep \<subseteq> tall (hx_heap h) (hx_data h) k" "set ep \<subseteq> tall (hx_heap h) (hx_data h) 0"
  shows "\<exists>ep'. search_down (hx_heap h) (hx_data h) query lcs ep = Inr ep' \<and> ep' \<noteq> [] \<and> distinct ep' \<and>
     set ep' \<subseteq> tall (hx_heap h) (hx_data h) 0"
  using assms(3-7)
proof (induction lcs arbitrary: ep)
  case Nil
  then show ?case by simp
next
  case (Cons k lcs)
  note graph = closed_tall [OF assms(1) closed_graph_UNIV, simplified]
  obtain cs where cs: "searchLayer (hx_heap h) (hx_data h) ep query 1 k = Inr (map cand_id cs)"
      "layer_result (hx_heap h) (hx_data h) query 1 k (set ep \<inter> tall (hx_heap h) (hx_data h) k) cs"
    using searchLayer_spec [OF graph(2) Cons.prems(2)] by blast
  have g: "greedy_best (hx_heap h) (hx_data h) query k ep cs"
    using Cons.prems by (intro searchLayer_greedy [OF graph(2) assms(2) graph(1) _ _ _ _ cs]) auto
  have t: "set (map cand_id cs) \<subseteq> tall (hx_heap h) (hx_data h) k"
    using layer_result_ids(4) [OF cs(2) graph(1)] by simp
  then have "\<forall>j\<in>set lcs. set (map cand_id cs) \<subseteq> tall (hx_heap h) (hx_data h) j"
    using Cons.prems(1) tall_mono [of _ k] by (meson order_trans sorted_wrt.simps(2))
  moreover have "set (map cand_id cs) \<subseteq> tall (hx_heap h) (hx_data h) 0" using t tall_mono [of 0 k] by blast
  ultimately show ?case
    using Cons.IH [OF _ layer_result_ids(2) [OF cs(2)]] Cons.prems(1) g cs(1) by (simp add: greedy_best_def)
qed

text \<open>The distance of a node to a query, and its neighbours in the bottom layer.\<close>

definition hnsw_distance :: "HNSW \<Rightarrow> float32 list \<Rightarrow> hnsw_id \<Rightarrow> fl" where
  "hnsw_distance h query x = (case hnode h x of Some n \<Rightarrow> CosineDistance query (hn_Vector n) | None \<Rightarrow> NaN)"

definition bottom_neighbors :: "HNSW \<Rightarrow> hnsw_id \<Rightarrow> hnsw_id list" where
  "bottom_neighbors h x = (case hnode h x of Some n \<Rightarrow> hn_Neighbors n ! 0 | None \<Rightarrow> [])"

lemma hnsw_ids_node: "x \<in> hnsw_ids h \<longleftrightarrow> (\<exists>n. hnode h x = Some n)"
  using map_of_eq_None_iff [of "nd_nodes (hx_data h)" x] by (cases "map_of (nd_nodes (hx_data h)) x") (auto simp: hnsw_ids_def node_at_def)

lemma hnsw_Search_best:
  assumes "hnsw_ok h" "no_nan (hx_heap h) (hx_data h) query" "nd_nodes (hx_data h) \<noteq> []" "0 \<le> k"
  shows "\<exists>cs. hnsw_Search h query k = Inr (map cand_id (take (nat k) cs)) \<and>
     greedy_best (hx_heap h) (hx_data h) query 0 [] cs \<and>
     layer_result (hx_heap h) (hx_data h) query (hx_ef h) 0 (tall (hx_heap h) (hx_data h) 0) cs"
proof -
  note graph = closed_tall [OF assms(1) closed_graph_UNIV, simplified]
  let ?lcs = "layers (nd_maxLevel (hx_data h)) 1" and ?e = "nd_entryPoint (hx_data h)"
  have e: "?e \<in> tall (hx_heap h) (hx_data h) (nat (nd_maxLevel (hx_data h)))" by (rule hnsw_entry(2) [OF assms(1,3)])
  have ks: "\<forall>k\<in>set ?lcs. k \<le> nat (nd_maxLevel (hx_data h))"
    using layers_props(2) [of 1 "nd_maxLevel (hx_data h)"] by auto
  have "sorted_wrt (\<lambda>x y. nat x \<ge> nat y) (rev [1 .. nd_maxLevel (hx_data h)])"
    unfolding sorted_wrt_rev by (rule sorted_wrt_mono_rel [OF _ sorted_upto]) simp
  then have "sorted_wrt (\<ge>) ?lcs" by (simp add: layers_def sorted_wrt_map)
  then obtain ep where ep: "search_down (hx_heap h) (hx_data h) query ?lcs [?e] = Inr ep" "ep \<noteq> []" "distinct ep"
      "set ep \<subseteq> tall (hx_heap h) (hx_data h) 0"
    using search_down_greedy [OF assms(1,2), of ?lcs "[?e]"] e ks tall_mono [of _ "nat (nd_maxLevel (hx_data h))"]
    by fastforce
  obtain cs where cs: "searchLayer (hx_heap h) (hx_data h) ep query (hx_ef h) 0 = Inr (map cand_id cs)"
      "layer_result (hx_heap h) (hx_data h) query (hx_ef h) 0 (set ep \<inter> tall (hx_heap h) (hx_data h) 0) cs"
    using searchLayer_spec [OF graph(2) ep(3)] by blast
  have "greedy_best (hx_heap h) (hx_data h) query 0 ep cs"
    using assms(1) ep by (intro searchLayer_greedy [OF graph(2) assms(2) graph(1) _ _ _ _ cs]) (auto simp: hnsw_ok_def)
  then have "greedy_best (hx_heap h) (hx_data h) query 0 [] cs" by (rule greedy_best_mono) simp
  moreover have "hnsw_Search h query k = Inr (map cand_id (take (nat k) cs))"
    using assms(3,4) ep(1,2) cs(1) by (auto simp: hnsw_Search_def Let_def first_k_def take_map)
  ultimately show ?thesis using layer_result_mono [OF cs(2)] by blast
qed

text \<open>C30. Adding nodes with distinct ids to a new vector index, at whatever levels are drawn, never panics and keeps the
  graph well formed: every shard agrees with the map readers use, each node has one list per level with at most
  \<open>M\<close> ids of nodes that reach the level, the entry point is a node of the top level, and \<open>Size\<close> counts
  the nodes.\<close>

theorem hnsw_additions:
  assumes "distinct (map fst xs)"
  shows "\<exists>h. hnsw_adds xs (hnsw_New ln2 config) = Inr h \<and> hnsw_ok h \<and> hnsw_ids h = fst ` set xs \<and>
     hnsw_Size h = int (length xs)"
proof -
  obtain h where h: "hnsw_adds xs (hnsw_New ln2 config) = Inr h" "hnsw_ok h" "hnsw_ids h = fst ` set xs"
    using hnsw_adds_ok [OF hnsw_New_ok assms, of ln2 config] by auto
  have "length (nd_nodes (hx_data h)) = card (hnsw_ids h)"
    using h(2) distinct_card [of "map fst (nd_nodes (hx_data h))"] by (simp add: hnsw_ok_def hnsw_ids_def)
  also have "\<dots> = length xs" using distinct_card [OF assms] h(3) by simp
  finally show ?thesis using h by (simp add: hnsw_Size_def hnsw_ok_def)
qed

theorem hnsw_additions_witness:
  "\<exists>h. hnsw_adds [(7, [0x3f800000], 1), (9, [0], 0), (23, [0x3f800000], 3)] (hnsw_New fl_1 hnsw_DefaultConfig) = Inr h \<and>
     hnsw_ok h \<and> hnsw_ids h = {7, 9, 23} \<and> hnsw_Size h = 3"
  using hnsw_additions [of "[(7, [0x3f800000], 1), (9, [0], 0), (23, [0x3f800000], 3)]" fl_1 hnsw_DefaultConfig] by simp

lemma first_answer_best:
  assumes "hnsw_ok h" "greedy_best (hx_heap h) (hx_data h) query 0 vis cs"
    and "layer_result (hx_heap h) (hx_data h) query ef 0 start cs" "y \<in> set (bottom_neighbors h (cand_id (hd cs)))"
  shows "\<not> fl_lt (hnsw_distance h query y) (cand_distance (hd cs))"
proof -
  have "hd cs \<in> set cs" using assms(2) by (simp add: greedy_best_def)
  with layer_result_ids(3) [OF assms(3)] obtain n where n: "hnode h (cand_id (hd cs)) = Some n" by blast
  have "length (hn_Neighbors n) = hn_Level n + 1"
    using closed_tall(2) [OF assms(1) closed_graph_UNIV] n by (simp add: lists_present_def)
  then have "neighbors_at n 0 = Inr (hn_Neighbors n ! 0)" by (simp add: neighbors_at_def)
  with assms(2) n have "none_closer (hx_heap h) (hx_data h) query (cand_distance (hd cs)) (hn_Neighbors n ! 0) []"
    by (simp add: greedy_best_def)
  with assms(4) n show ?thesis
    by (auto simp: none_closer_def hnsw_distance_def bottom_neighbors_def split: option.splits)
qed

text \<open>C31. A search of a well-formed vector index, with a \<open>k\<close> that is not negative and no NaN among the distances,
  returns distinct nodes of the index, at most \<open>k\<close> and at most \<open>ef\<close>, nearest first. It answers whenever
  \<open>k\<close> is positive and the index is not empty, and its first answer is a local optimum: no neighbour of it in
  the bottom layer is closer to the query.\<close>

theorem hnsw_search_answer:
  assumes "hnsw_ok h" "0 \<le> k" "\<forall>x\<in>hnsw_ids h. \<not> is_nan (hnsw_distance h query x)"
  shows "\<exists>ids. hnsw_Search h query k = Inr ids \<and> distinct ids \<and> set ids \<subseteq> hnsw_ids h \<and>
     int (length ids) \<le> k \<and> length ids \<le> hx_ef h \<and>
     sorted_wrt (\<lambda>x y. \<not> fl_lt (hnsw_distance h query y) (hnsw_distance h query x)) ids \<and>
     (hnsw_ids h \<noteq> {} \<longrightarrow> 0 < k \<longrightarrow> ids \<noteq> [] \<and>
        (\<forall>y\<in>set (bottom_neighbors h (hd ids)). \<not> fl_lt (hnsw_distance h query y) (hnsw_distance h query (hd ids))))"
proof (cases "nd_nodes (hx_data h) = []")
  case True
  with assms(2) show ?thesis by (auto simp: hnsw_Search_def hnsw_ids_def)
next
  case False
  have nan: "no_nan (hx_heap h) (hx_data h) query"
    unfolding no_nan_def
  proof (intro allI impI)
    show "\<not> is_nan (CosineDistance query (hn_Vector n))" if "hnode h x = Some n" for x n
      using bspec [OF assms(3), of x] that by (simp add: hnsw_ids_node hnsw_distance_def)
  qed
  obtain cs where cs: "hnsw_Search h query k = Inr (map cand_id (take (nat k) cs))" "greedy_best (hx_heap h) (hx_data h) query 0 [] cs"
      "layer_result (hx_heap h) (hx_data h) query (hx_ef h) 0 (tall (hx_heap h) (hx_data h) 0) cs"
    using hnsw_Search_best [OF assms(1) nan False assms(2)] by blast
  note r = layer_result_ids(1-3) [OF cs(3)]
  let ?cs = "take (nat k) cs"
  have sub: "set ?cs \<subseteq> set cs" by (rule set_take_subset)
  have dist: "cand_id c \<in> hnsw_ids h \<and> hnsw_distance h query (cand_id c) = cand_distance c" if "c \<in> set cs" for c
    using r(3) that by (fastforce simp: hnsw_ids_node hnsw_distance_def)
  have "sorted_wrt (\<lambda>a b. \<not> fl_lt (cand_distance b) (cand_distance a)) cs"
    using nan by (intro layer_result_sorted [OF cs(3)]) (simp add: no_nan_def)
  then have "sorted_wrt (\<lambda>a b. \<not> fl_lt (hnsw_distance h query (cand_id b)) (hnsw_distance h query (cand_id a))) cs"
    by (rule sorted_wrt_mono_rel [rotated]) (simp add: dist)
  then have sorted: "sorted_wrt (\<lambda>x y. \<not> fl_lt (hnsw_distance h query y) (hnsw_distance h query x)) (map cand_id ?cs)"
    by (simp add: sorted_wrt_map sorted_wrt_take)
  have best: "map cand_id ?cs \<noteq> [] \<and> (\<forall>y\<in>set (bottom_neighbors h (hd (map cand_id ?cs))).
      \<not> fl_lt (hnsw_distance h query y) (hnsw_distance h query (hd (map cand_id ?cs))))" if "0 < k"
  proof -
    have "hd (map cand_id ?cs) = cand_id (hd cs)" "hd cs \<in> set cs" "?cs \<noteq> []"
      using cs(2) that by (simp_all add: greedy_best_def hd_map hd_take)
    with first_answer_best [OF assms(1) cs(2,3)] dist show ?thesis by simp
  qed
  have "distinct (map cand_id ?cs)" using r(2) by (simp add: take_map [symmetric] distinct_take)
  moreover have "set (map cand_id ?cs) \<subseteq> hnsw_ids h" using dist sub by auto
  moreover have "int (length (map cand_id ?cs)) \<le> k" "length (map cand_id ?cs) \<le> hx_ef h" using r(1) assms(2) by simp_all
  ultimately show ?thesis using cs(1) sorted best by blast
qed

text \<open>A node above the top layer of the index is its new entry point: that one is not hidden.\<close>

lemma hnsw_higher_node_enters:
  assumes "hnsw_ok h" "nid \<notin> hnsw_ids h" "nd_maxLevel (hx_data h) < int level"
  shows "\<exists>h'. hnsw_Add h nid vector level = Inr h' \<and> nd_entryPoint (hx_data h') = nid \<and>
     nd_maxLevel (hx_data h') = int level"
  using hnsw_Add_spec [OF assms(1,2) closed_graph_UNIV, of vector level] assms(3) by (fastforce simp: node_added_def)

text \<open>C32. Let a new node's level be at most the top level of the index, and let the neighbour lists of the layers it
  reaches be full: every list there holds \<open>M\<close> nodes, with vectors of the length of its owner's and distances to it that
  are numbers. Then the node can never be found: the back links to it are pruned at once, because it is not
  yet in the map that gives the distances and so counts as infinitely far. No search, now or after any later
  additions of new nodes, returns it. (A node above the top level becomes the entry point instead, lemma
  \<open>hnsw_higher_node_enters\<close>.)\<close>

theorem hnsw_full_hides_new_node:
  assumes "hnsw_ok h" "full_layers h level" "int level \<le> nd_maxLevel (hx_data h)"
    and "distinct (map fst ((nid, vector, level) # xs))" "fst ` set ((nid, vector, level) # xs) \<inter> hnsw_ids h = {}"
  shows "\<exists>h'. hnsw_adds ((nid, vector, level) # xs) h = Inr h' \<and> nid \<in> hnsw_ids h' \<and>
     (\<forall>query. \<forall>k\<ge>0. \<exists>ids. hnsw_Search h' query k = Inr ids \<and> nid \<notin> set ids)"
proof -
  have nid: "nid \<notin> hnsw_ids h" using assms(5) by simp
  obtain h1 where h1: "hnsw_Add h nid vector level = Inr h1" "node_added h UNIV nid vector level h1"
    using hnsw_Add_spec [OF assms(1) nid closed_graph_UNIV] by auto
  have "hnsw_ok h1" "hnsw_ids h1 = insert nid (hnsw_ids h)" "hidden h1 nid"
    using added_ok [OF assms(1) nid h1(2)] added_ids [OF h1(2)] added_hidden [OF assms(1) nid assms(2,3) h1(2)] by simp_all
  with hidden_forever [of h1 nid xs] assms(4,5)
  obtain h' where h': "hnsw_adds xs h1 = Inr h'" "hnsw_ok h'" "nid \<in> hnsw_ids h'" "hidden h' nid" by auto
  with h1(1) hidden_not_found [OF h'(2,4)] show ?thesis by auto
qed

text \<open>Two nodes linked to each other, in an index with \<open>M = 1\<close>.\<close>

definition sample_hnsw :: HNSW where
  "sample_hnsw =
     \<lparr>hx_M = 1, hx_ef = 2, hx_efConstruction = 2, hx_ml = fl_1, hx_shardCount = 1, hx_shards = [[(1, 0), (2, 1)]],
      hx_data = \<lparr>nd_nodes = [(1, 0), (2, 1)], nd_entryPoint = 1, nd_maxLevel = 0\<rparr>, hx_nodeCount = 2,
      hx_heap = [\<lparr>hn_ID = 1, hn_Vector = [0x3f800000], hn_Level = 0, hn_Neighbors = [[2]]\<rparr>,
                 \<lparr>hn_ID = 2, hn_Vector = [0x3f800000], hn_Level = 0, hn_Neighbors = [[1]]\<rparr>]\<rparr>"

lemma bitlen_num:
  "bitlen 0 = 0" "bitlen 1 = 1" "bitlen (numeral (Num.Bit0 n)) = bitlen (numeral n) + 1"
  "bitlen (numeral (Num.Bit1 n)) = bitlen (numeral n) + 1"
  by (simp_all add: bitlen.simps [of 0] bitlen.simps [of 1] bitlen.simps [of "numeral (Num.Bit0 n)"]
      bitlen.simps [of "numeral (Num.Bit1 n)"])

lemma sample_one: "fl_of_bits32 0x3f800000 = fl_1"
  by (simp add: fl_of_bits32_def Let_def fl_of_parts_def pow2_def)

lemma pack_small: "fl_pack fm s 0 = Finite s 0" "fl_pack F64 False 1 = fl_1"
  by (simp_all add: fl_pack_def rounded_def Let_def ilog2_def bitlen_num pow2_def half_even_def)

lemma sqrt_one: "fl_pack F64 False (sqrt_approx F64 1) = fl_1"
  by (simp add: sqrt_approx_def ilog2_def Let_def bitlen_num pow2_def isqrt.simps pack_small)

lemma sample_distance: "CosineDistance [0x3f800000] [0x3f800000] = fl_0"
  by (simp add: CosineDistance_def sample_one pack_small sqrt_one fl_of_rat_def clamp_similarity_def fl_sub_def Let_def)

lemma sample_hnsw_ok: "hnsw_ok sample_hnsw" "full_layers sample_hnsw 0" "hnsw_ids sample_hnsw = {1, 2}"
  by (auto simp: sample_hnsw_def hnsw_ok_def node_ok_def tall_def node_at_def getShard_def full_layers_def list_at_def
      sample_distance hnsw_ids_def split: if_splits)

theorem hnsw_full_hides_new_node_witness:
  "\<exists>h'. hnsw_adds [(3, [0x3f800000], 0), (4, [0], 2)] sample_hnsw = Inr h' \<and> 3 \<in> hnsw_ids h' \<and>
     (\<forall>query. \<forall>k\<ge>0. \<exists>ids. hnsw_Search h' query k = Inr ids \<and> 3 \<notin> set ids)"
  by (rule hnsw_full_hides_new_node) (simp_all add: sample_hnsw_ok, simp add: sample_hnsw_def)

theorem hnsw_search_answer_witness:
  "\<exists>ids. hnsw_Search sample_hnsw [0x3f800000] 1 = Inr ids \<and> distinct ids \<and> length ids = 1"
proof -
  have "\<forall>x\<in>hnsw_ids sample_hnsw. \<not> is_nan (hnsw_distance sample_hnsw [0x3f800000] x)"
    unfolding sample_hnsw_ok(3)
    by (simp add: hnsw_distance_def sample_hnsw_def node_at_def sample_distance)
  from hnsw_search_answer [OF sample_hnsw_ok(1) _ this, of 1] sample_hnsw_ok(3)
  obtain ids where "hnsw_Search sample_hnsw [0x3f800000] 1 = Inr ids" "distinct ids" "int (length ids) \<le> 1" "ids \<noteq> []"
    by auto
  then show ?thesis by (cases ids) auto
qed

end
