(* ===== verification/Unified_Index.thy ===== *)
theory Unified_Index
  imports Storage_Service Graph_Cache Hnsw_Index
begin

text \<open>
  The unified index of \<^verbatim>\<open>src/core/index/unified/unified_index.go\<close>: the vector index, the graph
  cache and a cache of entities over the tables of the storage service, with the reload that rebuilds them and the
  updates after a write. Every method holds \<open>reloadMu\<close>; searches share it, and are single steps here. The
  directory of tables is an argument. \<open>ui_env\<close> holds what the code takes from outside: the clock, the
  random draws, the exponential and logarithm, and the order in which loops over maps meet their keys; the state counts
  the clock readings and the nodes added, so that each use is a new one. An entity is stored in the cache as a value:
  nothing changes it after it is handed over. Errors of the operating system are left out.
\<close>

section \<open>State\<close>

record ui_env =
  env_exp :: "fl \<Rightarrow> fl"
  env_ln2 :: fl
  env_draws :: "nat \<Rightarrow> nat \<Rightarrow> fl"
  env_clock :: "nat \<Rightarrow> time"
  env_rng :: "string list \<Rightarrow> string list"

record UnifiedConfig =
  uc_HNSWConfig :: HnswConfig
  uc_GraphCacheSize :: int
  uc_EntityCacheSize :: int
  uc_SSTableDir :: string
  uc_SSTablePrefix :: string
  uc_ReloadInterval :: int

definition unified_DefaultConfig :: "string \<Rightarrow> UnifiedConfig" where
  "unified_DefaultConfig sstableDir =
     \<lparr>uc_HNSWConfig = hnsw_DefaultConfig, uc_GraphCacheSize = 10000, uc_EntityCacheSize = 1000,
      uc_SSTableDir = sstableDir, uc_SSTablePrefix = ''sstable'', uc_ReloadInterval = 5 * Second\<rparr>"

record entityCache =
  ec_cache :: "(string \<times> UnifiedEntity) list"
  ec_maxSize :: int

record UnifiedIndex =
  ui_hnswIndex :: HNSW
  ui_graphCache :: GraphCache
  ui_entityCache :: entityCache
  ui_idMapping :: "(string \<times> hnsw_id) list"
  ui_reverseMapping :: "(hnsw_id \<times> string) list"
  ui_sstableReaders :: "Reader list"
  ui_mergeReader :: "Reader list option"
  ui_lastReload :: "time option"
  ui_stopped :: bool
  ui_config :: UnifiedConfig
  ui_ticks :: nat
  ui_adds :: nat

text \<open>A reading of the clock, and an addition to the vector index at a random level.\<close>

definition clock_tick :: "ui_env \<Rightarrow> UnifiedIndex \<Rightarrow> UnifiedIndex \<times> time" where
  "clock_tick env idx = (idx\<lparr>ui_ticks := ui_ticks idx + 1\<rparr>, env_clock env (ui_ticks idx))"

definition add_vector :: "ui_env \<Rightarrow> hnsw_id \<Rightarrow> float32 list \<Rightarrow> UnifiedIndex \<Rightarrow> UnifiedIndex go" where
  "add_vector env vectorID vector idx =
     rbind (hnsw_Add (ui_hnswIndex idx) vectorID vector
              (randomLevel (env_exp env) (env_draws env (ui_adds idx)) (ui_hnswIndex idx)))
       (\<lambda>h. Inr (idx\<lparr>ui_hnswIndex := h, ui_adds := ui_adds idx + 1\<rparr>))"

definition map_ids :: "string \<Rightarrow> hnsw_id \<Rightarrow> UnifiedIndex \<Rightarrow> UnifiedIndex" where
  "map_ids entityID vectorID idx =
     idx\<lparr>ui_idMapping := AList.update entityID vectorID (ui_idMapping idx),
         ui_reverseMapping := AList.update vectorID entityID (ui_reverseMapping idx)\<rparr>"

section \<open>Rows of the tables\<close>

definition decodeVector :: "bytes \<Rightarrow> (float32 list \<times> hnsw_id) go" where
  "decodeVector data =
     (if length data < 12 then Inl (Fail ''insufficient data for vector'')
      else let vid = get_u64 (take 8 data); vectorLen = unat (get_u32 (take 4 (drop 8 data)))
           in if length data < 12 + vectorLen * 4 then Inl (Fail ''insufficient data for vector content'')
              else Inr (map (\<lambda>i. get_u32 (take 4 (drop (12 + i * 4) data))) [0..<vectorLen], vid))"

definition decodeEdge :: "bytes \<Rightarrow> GraphEdge go" where
  "decodeEdge data = edge_FromBytes data"

text \<open>One row of an entity that is put together from its rows; an error of a decoder is skipped. The result has the
  number of clock readings so far.\<close>

definition reconstruct_row :: "(nat \<Rightarrow> time) \<Rightarrow> string \<Rightarrow> Row \<Rightarrow> UnifiedEntity \<times> nat \<Rightarrow> UnifiedEntity \<times> nat" where
  "reconstruct_row clock entityID row = (\<lambda>(ent, t).
     (if row_Type row = RowTypeVector then
        (case decodeVector (row_Data row) of
           Inr (vector, _) \<Rightarrow> (AddEmbedding (clock t) (clock (t + 1)) vector ent, t + 2)
         | Inl _ \<Rightarrow> (ent, t))
      else if row_Type row = RowTypeEdge then
        (case decodeEdge (row_Data row) of
           Inr edge \<Rightarrow>
             if ToEntity edge = entityID then (AddIncomingEdge (clock t) edge ent, t + 1)
             else if FromEntity edge = entityID then (AddOutgoingEdge (clock t) edge ent, t + 1)
             else (ent, t)
         | Inl _ \<Rightarrow> (ent, t))
      else if row_Type row = RowTypeChunk then
        (case chunk_FromBytes (row_Data row) of
           Inr chunk \<Rightarrow> (AddChunk (clock t) chunk ent, t + 1)
         | Inl _ \<Rightarrow> (ent, t))
      else if row_Type row = RowTypeMeta then
        (case entity_FromBytes (row_Data row) of Inr decoded \<Rightarrow> (decoded, t) | Inl _ \<Rightarrow> (ent, t))
      else (ent, t)))"

definition reconstructEntity :: "(nat \<Rightarrow> time) \<Rightarrow> string \<Rightarrow> Row list \<Rightarrow> nat \<Rightarrow> UnifiedEntity \<times> nat" where
  "reconstructEntity clock entityID rows t =
     fold (reconstruct_row clock entityID) rows (NewUnifiedEntity (clock t) entityID '''' '''', t + 1)"

section \<open>Loading the tables\<close>

text \<open>The rows of one entity give the vector index its last decodable vector, the graph cache every decodable edge.\<close>

type_synonym row_scan = "GraphCache \<times> float32 list option \<times> hnsw_id"

definition scan_row :: "Row \<Rightarrow> row_scan \<Rightarrow> row_scan" where
  "scan_row row = (\<lambda>(gc, latestVector, vectorID).
     (if row_Type row = RowTypeVector then
        (case decodeVector (row_Data row) of
           Inr (vector, vid) \<Rightarrow> (gc, Some vector, vid) | Inl _ \<Rightarrow> (gc, latestVector, vectorID))
      else if row_Type row = RowTypeEdge then
        (case decodeEdge (row_Data row) of
           Inr edge \<Rightarrow> (AddEdge edge gc, latestVector, vectorID) | Inl _ \<Rightarrow> (gc, latestVector, vectorID))
      else (gc, latestVector, vectorID)))"

fun load_entities :: "ui_env \<Rightarrow> Reader list \<Rightarrow> string list \<Rightarrow> UnifiedIndex \<Rightarrow> UnifiedIndex go" where
  "load_entities env readers [] idx = Inr idx"
| "load_entities env readers (entityID # ids) idx =
     skip_fail (merge_Get readers entityID) (load_entities env readers ids idx) (\<lambda>rows.
       let (gc, latestVector, vectorID) = fold scan_row rows (ui_graphCache idx, None, 0);
           idx = idx\<lparr>ui_graphCache := gc\<rparr>
       in case latestVector of
            None \<Rightarrow> load_entities env readers ids idx
          | Some vector \<Rightarrow>
              if vectorID = 0 then load_entities env readers ids idx
              else rbind (add_vector env vectorID vector idx)
                     (\<lambda>idx. load_entities env readers ids (map_ids entityID vectorID idx)))"

definition all_table_ids :: "Reader list \<Rightarrow> string list" where
  "all_table_ids readers = remdups (concat (map reader_GetAllEntityIDs readers))"

definition rebuildIndexes :: "ui_env \<Rightarrow> UnifiedIndex \<Rightarrow> UnifiedIndex go" where
  "rebuildIndexes env idx =
     (case ui_mergeReader idx of
        None \<Rightarrow> Inr idx
      | Some readers \<Rightarrow>
          let idx = idx\<lparr>ui_hnswIndex := hnsw_New (env_ln2 env) (uc_HNSWConfig (ui_config idx)),
                        ui_graphCache := gc_Clear (ui_graphCache idx), ui_idMapping := [], ui_reverseMapping := [],
                        ui_entityCache := (ui_entityCache idx)\<lparr>ec_cache := []\<rparr>\<rparr>
          in load_entities env readers (env_rng env (all_table_ids (ui_sstableReaders idx))) idx)"

text \<open>Opening the files; one that is no table is skipped.\<close>

fun open_tables :: "sst_dir \<Rightarrow> string list \<Rightarrow> Reader list go" where
  "open_tables dir [] = Inr []"
| "open_tables dir (path # paths) =
     (case map_of dir path of
        None \<Rightarrow> open_tables dir paths
      | Some (data, modTime) \<Rightarrow>
          skip_fail (NewReader data) (open_tables dir paths) (\<lambda>reader.
            rbind (open_tables dir paths) (\<lambda>readers. Inr (reader # readers))))"

definition unified_glob :: "UnifiedConfig \<Rightarrow> sst_dir \<Rightarrow> string list" where
  "unified_glob cfg dir = glob_names (uc_SSTablePrefix cfg) ''.sst'' (map fst dir)"

definition reloadSSTables :: "ui_env \<Rightarrow> sst_dir \<Rightarrow> UnifiedIndex \<Rightarrow> UnifiedIndex go" where
  "reloadSSTables env dir idx =
     rbind (open_tables dir (sort_Slice (<) (unified_glob (ui_config idx) dir))) (\<lambda>newReaders.
     let readers = rev newReaders;
         idx = idx\<lparr>ui_sstableReaders := readers, ui_mergeReader := (if readers \<noteq> [] then Some readers else None)\<rparr>
     in rbind (rwrap ''failed to rebuild indexes'' (rebuildIndexes env idx)) (\<lambda>idx.
        let (idx, now) = clock_tick env idx in Inr (idx\<lparr>ui_lastReload := Some now\<rparr>)))"

definition unified_New :: "ui_env \<Rightarrow> UnifiedConfig \<Rightarrow> sst_dir \<Rightarrow> UnifiedIndex go" where
  "unified_New env config dir =
     rwrap ''failed to load initial SSTables'' (reloadSSTables env dir
       \<lparr>ui_hnswIndex = hnsw_New (env_ln2 env) (uc_HNSWConfig config),
        ui_graphCache = NewGraphCache (uc_GraphCacheSize config),
        ui_entityCache = \<lparr>ec_cache = [], ec_maxSize = uc_EntityCacheSize config\<rparr>,
        ui_idMapping = [], ui_reverseMapping = [], ui_sstableReaders = [], ui_mergeReader = None,
        ui_lastReload = None, ui_stopped = False, ui_config = config, ui_ticks = 0, ui_adds = 0\<rparr>)"

text \<open>The time before any reload is the zero time, before every modification time.\<close>

definition shouldReload :: "sst_dir \<Rightarrow> UnifiedIndex \<Rightarrow> bool" where
  "shouldReload dir idx =
     list_ex (\<lambda>path. case map_of dir path of
                       None \<Rightarrow> False
                     | Some (data, modTime) \<Rightarrow>
                         (case ui_lastReload idx of None \<Rightarrow> True | Some last_reload \<Rightarrow> last_reload < modTime))
       (unified_glob (ui_config idx) dir)"

text \<open>One round of the loop in the background: a tick of the ticker, or the stop signal. A reload that fails leaves
  what it had changed; all its failures come before a change.\<close>

definition hot_reload_round :: "ui_env \<Rightarrow> sst_dir \<Rightarrow> UnifiedIndex \<Rightarrow> UnifiedIndex go" where
  "hot_reload_round env dir idx =
     (if ui_stopped idx then Inr idx
      else if shouldReload dir idx then skip_fail (reloadSSTables env dir idx) (Inr idx) Inr
      else Inr idx)"

definition unified_Close :: "UnifiedIndex \<Rightarrow> UnifiedIndex" where
  "unified_Close idx = (if ui_stopped idx then idx else idx\<lparr>ui_stopped := True\<rparr>)"

section \<open>Entities\<close>

text \<open>A full cache drops one entry, the first that a loop over the map meets.\<close>

definition cache_entity :: "ui_env \<Rightarrow> string \<Rightarrow> UnifiedEntity \<Rightarrow> UnifiedIndex \<Rightarrow> UnifiedIndex" where
  "cache_entity env entityID ent idx =
     (let ec = ui_entityCache idx;
          kept = (if ec_maxSize ec \<le> int (length (ec_cache ec))
                  then (case env_rng env (map fst (ec_cache ec)) of [] \<Rightarrow> ec_cache ec | k # _ \<Rightarrow> AList.delete k (ec_cache ec))
                  else ec_cache ec)
      in idx\<lparr>ui_entityCache := ec\<lparr>ec_cache := AList.update entityID ent kept\<rparr>\<rparr>)"

definition unified_getEntity :: "ui_env \<Rightarrow> string \<Rightarrow> UnifiedIndex \<Rightarrow> (UnifiedIndex \<times> UnifiedEntity option) go" where
  "unified_getEntity env entityID idx =
     (case map_of (ec_cache (ui_entityCache idx)) entityID of
        Some hit \<Rightarrow> Inr (idx, Some hit)
      | None \<Rightarrow>
          (case ui_mergeReader idx of
             None \<Rightarrow> Inr (idx, None)
           | Some readers \<Rightarrow>
               skip_fail (merge_Get readers entityID) (Inr (idx, None)) (\<lambda>rows.
                 if length rows = 0 then Inr (idx, None)
                 else let (ent, t) = reconstructEntity (env_clock env) entityID rows (ui_ticks idx)
                      in Inr (cache_entity env entityID ent (idx\<lparr>ui_ticks := t\<rparr>), Some ent))))"

definition unified_Size :: "UnifiedIndex \<Rightarrow> int" where
  "unified_Size idx = hnsw_Size (ui_hnswIndex idx)"

text \<open>The methods of the graph cache that the index passes on.\<close>

definition on_graph :: "(GraphCache \<Rightarrow> GraphCache \<times> 'a) \<Rightarrow> UnifiedIndex \<Rightarrow> UnifiedIndex \<times> 'a" where
  "on_graph f idx = (let (gc, x) = f (ui_graphCache idx) in (idx\<lparr>ui_graphCache := gc\<rparr>, x))"

definition unified_GetNeighbors :: "ui_env \<Rightarrow> string \<Rightarrow> UnifiedIndex \<Rightarrow> UnifiedIndex \<times> string list" where
  "unified_GetNeighbors env entityID = on_graph (gc_GetNeighbors (env_rng env) entityID)"

definition unified_GetOutgoingNeighbors :: "string \<Rightarrow> UnifiedIndex \<Rightarrow> UnifiedIndex \<times> string list" where
  "unified_GetOutgoingNeighbors entityID = on_graph (GetOutgoingNeighbors entityID)"

definition unified_GetIncomingNeighbors :: "string \<Rightarrow> UnifiedIndex \<Rightarrow> UnifiedIndex \<times> string list" where
  "unified_GetIncomingNeighbors entityID = on_graph (GetIncomingNeighbors entityID)"

definition unified_GetOutgoingEdges :: "string \<Rightarrow> UnifiedIndex \<Rightarrow> UnifiedIndex \<times> GraphEdge list option" where
  "unified_GetOutgoingEdges entityID = on_graph (gc_GetOutgoingEdges entityID)"

definition unified_GetAllEntityIDs :: "ui_env \<Rightarrow> UnifiedIndex \<Rightarrow> string list" where
  "unified_GetAllEntityIDs env idx = env_rng env (all_table_ids (ui_sstableReaders idx))"

section \<open>Updates after a write\<close>

definition hashEntityID :: "string \<Rightarrow> hnsw_id" where
  "hashEntityID entityID = fold (\<lambda>b hash. xor hash (ucast b) * 16777619) (bytes_of entityID) 2166136261"

definition unified_AddEntity :: "ui_env \<Rightarrow> UnifiedEntity \<Rightarrow> UnifiedIndex \<Rightarrow> UnifiedIndex go" where
  "unified_AddEntity env ent idx =
     (let entityID = EntityID ent
      in rbind (case GetLatestEmbedding ent of
                  None \<Rightarrow> Inr idx
                | Some embedding \<Rightarrow>
                    if length (Vector embedding) = 0 then Inr idx
                    else if map_of (ui_idMapping idx) entityID \<noteq> None then Inr idx
                    else rbind (add_vector env (hashEntityID entityID) (Vector embedding) idx)
                           (\<lambda>idx. Inr (map_ids entityID (hashEntityID entityID) idx)))
           (\<lambda>idx. Inr (cache_entity env entityID ent
              (idx\<lparr>ui_graphCache := fold AddEdge (IncomingEdges ent) (fold AddEdge (OutgoingEdges ent) (ui_graphCache idx))\<rparr>))))"

section \<open>Search\<close>

text \<open>The entities of the nodes found, with their neighbours in the graph.\<close>

fun expand_nodes :: "ui_env \<Rightarrow> hnsw_id list \<Rightarrow> UnifiedIndex \<Rightarrow> string list \<Rightarrow> UnifiedIndex \<times> string list" where
  "expand_nodes env [] idx found = (idx, found)"
| "expand_nodes env (candidateID # cs) idx found =
     (case map_of (ui_reverseMapping idx) candidateID of
        None \<Rightarrow> expand_nodes env cs idx found
      | Some entityID \<Rightarrow>
          let (idx, neighbors) = unified_GetNeighbors env entityID idx
          in expand_nodes env cs idx (remdups (found @ entityID # neighbors)))"

definition entity_score :: "float32 list \<Rightarrow> UnifiedEntity \<Rightarrow> VectorEmbedding \<Rightarrow> fl" where
  "entity_score query ent embedding =
     (let distance = CosineDistance query (Vector embedding);
          score = fl_div F64 fl_1 (fl_add F64 fl_1 distance)
      in fl_mul F64 score (fl_add F64 fl_1 (fl_of_bits64 (Importance ent))))"

record scoredCandidate =
  sc_entityID :: string
  sc_score :: fl

fun score_entities ::
  "ui_env \<Rightarrow> float32 list \<Rightarrow> string list \<Rightarrow> UnifiedIndex \<Rightarrow> scoredCandidate list \<Rightarrow> (UnifiedIndex \<times> scoredCandidate list) go" where
  "score_entities env query [] idx candidates = Inr (idx, candidates)"
| "score_entities env query (entityID # ids) idx candidates =
     rbind (unified_getEntity env entityID idx) (\<lambda>(idx, ent).
       score_entities env query ids idx
         (candidates @
          (case ent of None \<Rightarrow> []
           | Some e \<Rightarrow>
               (case GetLatestEmbedding e of None \<Rightarrow> []
                | Some embedding \<Rightarrow> [\<lparr>sc_entityID = entityID, sc_score = entity_score query e embedding\<rparr>]))))"

definition by_score :: "scoredCandidate \<Rightarrow> scoredCandidate \<Rightarrow> bool" where
  "by_score a b \<longleftrightarrow> fl_gt (sc_score a) (sc_score b)"

text \<open>A negative capacity of a slice panics.\<close>

definition unified_Search ::
  "ui_env \<Rightarrow> float32 list \<Rightarrow> int \<Rightarrow> int \<Rightarrow> UnifiedIndex \<Rightarrow> (UnifiedIndex \<times> string list) go" where
  "unified_Search env query k expandFactor idx =
     rbind (hnsw_Search (ui_hnswIndex idx) query (wrap64 (k * expandFactor))) (\<lambda>annCandidates.
       if length annCandidates = 0 then Inr (idx, [])
       else let (idx, expanded) = expand_nodes env annCandidates idx []
            in rbind (score_entities env query (env_rng env expanded) idx []) (\<lambda>(idx, candidates).
                 if k < 0 then Inl Panic
                 else Inr (idx, map sc_entityID (take (nat k) (sort_Slice by_score candidates)))))"

section \<open>Reading the tables\<close>

lemma reader_Get_no_panic [no_panic]: "reader_Get r entityID \<noteq> Inl Panic"
  by (simp add: reader_Get_def Let_def no_panic)

lemma merge_Get_no_panic [no_panic]: "merge_Get readers entityID \<noteq> Inl Panic"
  by (induction readers) (auto simp: rbind_eq_Inl no_panic)

lemma skip_fail_total: "r \<noteq> Inl Panic \<Longrightarrow> (skip_fail r a f = a) \<or> (\<exists>x. r = Inr x \<and> skip_fail r a f = f x)"
  by (auto simp: skip_fail_def split: sum.splits go_error.splits)

lemma skip_fail_ok [simp]: "skip_fail (Inr x) a f = f x"
  by (simp add: skip_fail_def)

text \<open>Reading an entity changes only the entity cache and the clock.\<close>

definition same_index :: "UnifiedIndex \<Rightarrow> UnifiedIndex \<Rightarrow> bool" where
  "same_index idx idx' \<longleftrightarrow>
     ui_hnswIndex idx' = ui_hnswIndex idx \<and> ui_graphCache idx' = ui_graphCache idx \<and>
     ui_idMapping idx' = ui_idMapping idx \<and> ui_reverseMapping idx' = ui_reverseMapping idx \<and>
     ui_sstableReaders idx' = ui_sstableReaders idx \<and> ui_mergeReader idx' = ui_mergeReader idx \<and>
     ui_lastReload idx' = ui_lastReload idx \<and> ui_stopped idx' = ui_stopped idx \<and> ui_config idx' = ui_config idx \<and>
     ui_adds idx' = ui_adds idx"

lemma same_index_cache [simp]: "same_index idx (cache_entity env entityID ent (idx\<lparr>ui_ticks := t\<rparr>))" "same_index idx idx"
  by (simp_all add: same_index_def cache_entity_def Let_def)

lemma same_index_trans: "same_index a b \<Longrightarrow> same_index b c \<Longrightarrow> same_index a c"
  by (simp add: same_index_def)

lemma getEntity_total: "\<exists>idx' ent. unified_getEntity env entityID idx = Inr (idx', ent) \<and> same_index idx idx'"
proof (cases "map_of (ec_cache (ui_entityCache idx)) entityID")
  case None
  show ?thesis
  proof (cases "ui_mergeReader idx")
    case (Some readers)
    from skip_fail_total [OF merge_Get_no_panic, of readers entityID "Inr (idx, None)"
        "\<lambda>rows. if length rows = 0 then Inr (idx, None)
          else let (ent, t) = reconstructEntity (env_clock env) entityID rows (ui_ticks idx)
               in Inr (cache_entity env entityID ent (idx\<lparr>ui_ticks := t\<rparr>), Some ent)"]
    show ?thesis
      unfolding unified_getEntity_def None Some option.case by (auto simp: Let_def split: prod.splits)
  qed (simp add: unified_getEntity_def None)
qed (simp add: unified_getEntity_def)

section \<open>Tables written by the server\<close>

lemma open_flushed:
  assumes "flushed dir tab"
  shows "set paths \<subseteq> fst ` set dir \<Longrightarrow> open_tables dir paths = Inr (map (\<lambda>p. table_reader (snapshot_rows (tab p))) paths)"
proof (induction paths)
  case Nil
  then show ?case by simp
next
  case (Cons p paths)
  then obtain bs t where f: "map_of dir p = Some (bs, t)"
    by (metis insert_subset list.simps(15) map_of_eq_None_iff option.exhaust surj_pair)
  with assms have "snapshot_ok (tab p)" "bs = table_enc (snapshot_rows (tab p))" by (simp_all add: flushed_def)
  with f Cons snapshot_table [of "tab p"] show ?case by simp
qed

lemma flushed_ok_at: "flushed dir tab \<Longrightarrow> p \<in> fst ` set dir \<Longrightarrow> snapshot_ok (tab p)"
  by (metis flushed_def map_of_eq_None_iff option.exhaust surj_pair)

lemma flushed_tables_ok:
  assumes "flushed dir tab" "set paths \<subseteq> fst ` set dir"
  shows "\<forall>d\<in>set (map tab paths). snapshot_ok d"
proof
  fix d assume "d \<in> set (map tab paths)"
  then obtain p where "p \<in> set paths" "d = tab p" by auto
  with assms flushed_ok_at show "snapshot_ok d" by blast
qed

lemma merge_flushed:
  assumes "eid \<noteq> []"
  shows "\<forall>d\<in>set ds. snapshot_ok d \<Longrightarrow> merge_Get (map (\<lambda>d. table_reader (snapshot_rows d)) ds) eid =
    Inr (map (\<lambda>e. stamped (meta_row eid e)) (concat (map (\<lambda>d. rows_at d eid) ds)))"
proof (induction ds)
  case Nil
  then show ?case by simp
next
  case (Cons d ds)
  then have "reader_Get (table_reader (snapshot_rows d)) eid = Inr (map (\<lambda>e. stamped (meta_row eid e)) (rows_at d eid))"
    using snapshot_table [of d eid] assms by simp
  with Cons show ?case by simp
qed

lemma row_types [simp]:
  "row_Type (meta_row k e) = RowTypeMeta" "RowTypeMeta \<noteq> RowTypeVector" "RowTypeMeta \<noteq> RowTypeEdge"
  "RowTypeMeta \<noteq> RowTypeChunk"
  by (simp_all add: meta_row_def RowTypeMeta_def RowTypeVector_def RowTypeEdge_def RowTypeChunk_def)

lemma scan_flushed: "fold scan_row (map (\<lambda>e. stamped (meta_row k e)) es) st = st"
  by (induction es arbitrary: st) (simp_all add: scan_row_def split: prod.splits)

lemma load_flushed:
  "\<forall>d\<in>set ds. snapshot_ok d \<Longrightarrow> [] \<notin> set ids \<Longrightarrow>
     load_entities env (map (\<lambda>d. table_reader (snapshot_rows d)) ds) ids idx = Inr idx"
proof (induction ids)
  case Nil
  then show ?case by simp
next
  case (Cons k ids)
  then have "k \<noteq> []" by auto
  with Cons show ?case by (simp add: merge_flushed scan_flushed)
qed

lemma reconstruct_flushed:
  assumes "\<forall>e\<in>set es. storable e" "es \<noteq> []"
  shows "fold (reconstruct_row clock k) (map (\<lambda>e. stamped (meta_row k e)) es) st = (last es, snd st)"
  using assms
proof (induction es arbitrary: st)
  case (Cons e es)
  have "entity_FromBytes (entity_enc e) = Inr e"
    using Cons.prems entity_FromBytes_append [of e "[]"] by (simp add: storable_def)
  then have "reconstruct_row clock k (stamped (meta_row k e)) st = (e, snd st)"
    by (cases st) (simp add: reconstruct_row_def)
  with Cons show ?case by (cases "es = []") simp_all
qed simp

lemma getEntity_flushed:
  assumes "map_of (ec_cache (ui_entityCache idx)) eid = None" "ui_mergeReader idx = Some readers"
    and "merge_Get readers eid = Inr (map (\<lambda>e. stamped (meta_row eid e)) es)" "\<forall>e\<in>set es. storable e"
  shows "\<exists>idx2. unified_getEntity env eid idx = Inr (idx2, if es = [] then None else Some (last es))"
  using assms reconstruct_flushed [OF assms(4), of "env_clock env" eid]
  by (auto simp: unified_getEntity_def reconstructEntity_def Let_def)

text \<open>The tables a reload sees, newest first, and the state it leaves.\<close>

abbreviation tables_newest_first :: "UnifiedConfig \<Rightarrow> sst_dir \<Rightarrow> string list" where
  "tables_newest_first cfg dir \<equiv> rev (sort_Slice (<) (unified_glob cfg dir))"

lemma reload_flushed:
  assumes "flushed dir tab" "reorders (env_rng env)" "unified_glob (ui_config idx) dir \<noteq> []"
  shows "\<exists>idx'. reloadSSTables env dir idx = Inr idx' \<and>
     ui_hnswIndex idx' = hnsw_New (env_ln2 env) (uc_HNSWConfig (ui_config idx)) \<and> ec_cache (ui_entityCache idx') = [] \<and>
     ui_config idx' = ui_config idx \<and>
     ui_mergeReader idx' = Some (map (\<lambda>p. table_reader (snapshot_rows (tab p))) (tables_newest_first (ui_config idx) dir))"
proof -
  let ?paths = "sort_Slice (<) (unified_glob (ui_config idx) dir)"
  let ?ds = "map tab (rev ?paths)"
  let ?readers = "map (\<lambda>d. table_reader (snapshot_rows d)) ?ds"
  have sub: "set ?paths \<subseteq> fst ` set dir" by (auto simp: unified_glob_def glob_names_def)
  have ne: "?paths \<noteq> []" using assms(3) by (metis length_0_conv length_sort_Slice)
  have ok: "\<forall>d\<in>set ?ds. snapshot_ok d"
    using sub by (intro flushed_tables_ok [OF assms(1)]) simp
  have "k \<noteq> []" if d: "d \<in> set ?ds" "k \<in> set (reader_GetAllEntityIDs (table_reader (snapshot_rows d)))" for d k
    using d ok snapshot_ids [of d] by (fastforce simp: snapshot_ok_def list_all_iff)
  then have "[] \<notin> set (all_table_ids ?readers)" by (auto simp: all_table_ids_def)
  then have ids: "[] \<notin> set (env_rng env (all_table_ids ?readers))" by (simp add: reorders_set [OF assms(2)])
  have "rev (map (\<lambda>p. table_reader (snapshot_rows (tab p))) ?paths) = ?readers" by (simp add: rev_map)
  with ne show ?thesis
    by (simp add: reloadSSTables_def open_flushed [OF assms(1) sub] Let_def rebuildIndexes_def load_flushed [OF ok ids] clock_tick_def
        rev_map o_def del: map_map)
qed

lemma empty_Search: "nd_nodes (hx_data (ui_hnswIndex idx)) = [] \<Longrightarrow> unified_Search env query k e idx = Inr (idx, [])"
  by (simp add: unified_Search_def hnsw_Search_def)

text \<open>C33. A reload of tables the server has flushed leaves an index in which every search finds nothing: a flush writes
  only whole entities, never the rows the vector index is built from, and the reload drops what was indexed in real
  time.\<close>

theorem flush_empties_search:
  assumes "flushed dir tab" "reorders (env_rng env)" "unified_glob (ui_config idx) dir \<noteq> []"
  shows "\<exists>idx'. reloadSSTables env dir idx = Inr idx' \<and> unified_Size idx' = 0 \<and>
     (\<forall>query k e. unified_Search env query k e idx' = Inr (idx', []))"
proof -
  from reload_flushed [OF assms] obtain idx' where idx': "reloadSSTables env dir idx = Inr idx'"
      "ui_hnswIndex idx' = hnsw_New (env_ln2 env) (uc_HNSWConfig (ui_config idx))" by blast
  then have "nd_nodes (hx_data (ui_hnswIndex idx')) = []" "unified_Size idx' = 0"
    by (simp_all add: unified_Size_def hnsw_Size_def hnsw_New_def Let_def)
  with idx'(1) empty_Search show ?thesis by blast
qed

text \<open>After such a reload an entity is read as the oldest table has it: the rows come newest table first, and each whole
  entity replaces the one before.\<close>

theorem reload_reads_oldest:
  assumes "flushed dir tab" "reorders (env_rng env)" "unified_glob (ui_config idx) dir \<noteq> []" "eid \<noteq> []"
    and "reloadSSTables env dir idx = Inr idx'"
  shows "\<exists>idx2. unified_getEntity env eid idx' = Inr (idx2,
     let versions = concat (map (\<lambda>p. rows_at (tab p) eid) (tables_newest_first (ui_config idx) dir))
     in if versions = [] then None else Some (last versions))"
proof -
  let ?paths = "tables_newest_first (ui_config idx) dir"
  let ?es = "concat (map (\<lambda>p. rows_at (tab p) eid) ?paths)"
  have sub: "set ?paths \<subseteq> fst ` set dir" by (auto simp: unified_glob_def glob_names_def)
  have ok: "\<forall>d\<in>set (map tab ?paths). snapshot_ok d"
    using sub by (intro flushed_tables_ok [OF assms(1)]) simp
  from reload_flushed [OF assms(1-3)] assms(5) have idx': "ec_cache (ui_entityCache idx') = []"
      "ui_mergeReader idx' = Some (map (\<lambda>d. table_reader (snapshot_rows d)) (map tab ?paths))"
    by (auto simp: o_def)
  have rows: "merge_Get (map (\<lambda>d. table_reader (snapshot_rows d)) (map tab ?paths)) eid =
      Inr (map (\<lambda>e. stamped (meta_row eid e)) ?es)"
    using merge_flushed [OF assms(4) ok] by (simp add: o_def)
  have st: "\<forall>e\<in>set ?es. storable e" using ok rows_at_ok by (fastforce simp: list_all_iff)
  show ?thesis
    using getEntity_flushed [OF _ idx'(2) rows st] idx'(1) by (simp add: Let_def)
qed

section \<open>Searches end without a panic\<close>

lemma expand_nodes_keeps:
  assumes "expand_nodes env cs idx found = (idx', found')"
  shows "ui_hnswIndex idx' = ui_hnswIndex idx \<and> ui_mergeReader idx' = ui_mergeReader idx \<and>
     ui_config idx' = ui_config idx \<and> (distinct found \<longrightarrow> distinct found')"
  using assms
proof (induction cs arbitrary: idx found)
  case (Cons c cs)
  show ?case
  proof (cases "map_of (ui_reverseMapping idx) c")
    case (Some entityID)
    obtain idx1 ns where n: "unified_GetNeighbors env entityID idx = (idx1, ns)" by fastforce
    then have "ui_hnswIndex idx1 = ui_hnswIndex idx" "ui_mergeReader idx1 = ui_mergeReader idx" "ui_config idx1 = ui_config idx"
      by (auto simp: unified_GetNeighbors_def on_graph_def Let_def split: prod.splits)
    with Cons.IH [of idx1 "remdups (found @ entityID # ns)"] Cons.prems Some n show ?thesis by simp
  qed (use Cons in simp)
qed simp

lemma score_entities_total:
  "\<exists>idx' cs'. score_entities env query ids idx cs = Inr (idx', cs') \<and> same_index idx idx' \<and>
     (\<exists>new. map sc_entityID cs' = map sc_entityID cs @ new \<and> subseq new ids)"
proof (induction ids arbitrary: idx cs)
  case Nil
  then show ?case by simp
next
  case (Cons entityID ids)
  obtain idx1 ent where e: "unified_getEntity env entityID idx = Inr (idx1, ent)" "same_index idx idx1"
    using getEntity_total by blast
  let ?cs = "case ent of None \<Rightarrow> [] | Some e \<Rightarrow> (case GetLatestEmbedding e of None \<Rightarrow> []
     | Some embedding \<Rightarrow> [\<lparr>sc_entityID = entityID, sc_score = entity_score query e embedding\<rparr>])"
  obtain idx2 cs2 new where r: "score_entities env query ids idx1 (cs @ ?cs) = Inr (idx2, cs2)" "same_index idx1 idx2"
      "map sc_entityID cs2 = map sc_entityID (cs @ ?cs) @ new" "subseq new ids"
    using Cons.IH [of idx1 "cs @ ?cs"] by blast
  have "map sc_entityID ?cs = [] \<or> map sc_entityID ?cs = [entityID]" by (simp split: option.split)
  with r(4) have "subseq (map sc_entityID ?cs @ new) (entityID # ids)" by auto
  with r(3) have "\<exists>new'. map sc_entityID cs2 = map sc_entityID cs @ new' \<and> subseq new' (entityID # ids)" by simp
  with e r(1,2) same_index_trans [OF e(2) r(2)] show ?case by simp
qed

text \<open>On a well-formed vector index a search with sensible sizes ends and returns at most \<open>k\<close> distinct ids.\<close>

lemma unified_Search_total:
  assumes "hnsw_ok (ui_hnswIndex idx)" "reorders (env_rng env)" "0 \<le> k" "0 \<le> wrap64 (k * expandFactor)"
  shows "\<exists>idx' ids. unified_Search env query k expandFactor idx = Inr (idx', ids) \<and>
     ui_hnswIndex idx' = ui_hnswIndex idx \<and> distinct ids \<and> int (length ids) \<le> k"
proof -
  obtain ann where ann: "hnsw_Search (ui_hnswIndex idx) query (wrap64 (k * expandFactor)) = Inr ann"
    using hnsw_Search_spec [OF assms(1) closed_graph_UNIV _ assms(4)] by blast
  show ?thesis
  proof (cases "ann = []")
    case True
    with ann assms(3) show ?thesis by (simp add: unified_Search_def)
  next
    case False
    obtain idx1 found where f: "expand_nodes env ann idx [] = (idx1, found)" by fastforce
    note keep = expand_nodes_keeps [OF f]
    obtain idx2 cs where s: "score_entities env query (env_rng env found) idx1 [] = Inr (idx2, cs)" "same_index idx1 idx2"
        "subseq (map sc_entityID cs) (env_rng env found)"
      using score_entities_total [of env query "env_rng env found" idx1 "[]"] by auto
    have "distinct (env_rng env found)" using keep by (simp add: reorders_distinct [OF assms(2)])
    with s(3) have "distinct (map sc_entityID cs)" by (rule subseq_distinct)
    then have "distinct (map sc_entityID (sort_Slice by_score cs))" by simp
    then have "distinct (map sc_entityID (take (nat k) (sort_Slice by_score cs)))"
      by (simp only: take_map [symmetric] distinct_take)
    moreover have "unified_Search env query k expandFactor idx =
        Inr (idx2, map sc_entityID (take (nat k) (sort_Slice by_score cs)))"
      using ann False f s(1) assms(3) by (simp add: unified_Search_def)
    ultimately show ?thesis using keep s(2) assms(3) by (simp add: same_index_def)
  qed
qed

section \<open>Additions in real time\<close>

text \<open>An entity that is indexed already keeps its first vector.\<close>

lemma update_keeps_first_vector:
  "map_of (ui_idMapping idx) (EntityID ent) = Some v \<Longrightarrow>
     \<exists>idx'. unified_AddEntity env ent idx = Inr idx' \<and> ui_hnswIndex idx' = ui_hnswIndex idx"
  by (simp add: unified_AddEntity_def Let_def cache_entity_def split: option.splits)

section \<open>A flushed entity\<close>

definition sample_ui_env :: ui_env where
  "sample_ui_env = \<lparr>env_exp = (\<lambda>x. fl_1), env_ln2 = fl_1, env_draws = (\<lambda>n i. fl_0), env_clock = int, env_rng = (\<lambda>xs. xs)\<rparr>"

definition sample_index :: UnifiedIndex where
  "sample_index =
     \<lparr>ui_hnswIndex = sample_hnsw, ui_graphCache = NewGraphCache 10,
      ui_entityCache = \<lparr>ec_cache = [(''doc1'', sample_entity)], ec_maxSize = 10\<rparr>,
      ui_idMapping = [(''doc1'', 1)], ui_reverseMapping = [(1, ''doc1'')], ui_sstableReaders = [], ui_mergeReader = None,
      ui_lastReload = None, ui_stopped = False, ui_config = unified_DefaultConfig ''data'', ui_ticks = 0, ui_adds = 2\<rparr>"

lemma sample_tables: "unified_glob (ui_config sample_index) (ss_dir sample_flushed) = [flush_path 2]"
  using flush_path_glob [of 2]
  by (simp add: unified_glob_def sample_index_def unified_DefaultConfig_def sample_flushed_def glob_names_def)

lemma sample_reorders: "reorders (env_rng sample_ui_env)"
  by (simp add: sample_ui_env_def reorders_def)

lemma flush_empties_search_witness:
  "\<exists>idx'. reloadSSTables sample_ui_env (ss_dir sample_flushed) sample_index = Inr idx' \<and> unified_Size idx' = 0 \<and>
     unified_Search sample_ui_env [0x3f800000] 5 2 idx' = Inr (idx', [])"
  using flush_empties_search [OF sample_flushed_ok sample_reorders, of sample_index] sample_tables by auto

lemma reload_reads_oldest_witness:
  "\<exists>idx' idx2. reloadSSTables sample_ui_env (ss_dir sample_flushed) sample_index = Inr idx' \<and>
     unified_getEntity sample_ui_env ''doc1'' idx' = Inr (idx2, Some sample_entity)"
proof -
  have ne: "unified_glob (ui_config sample_index) (ss_dir sample_flushed) \<noteq> []" by (simp add: sample_tables)
  obtain idx' where r: "reloadSSTables sample_ui_env (ss_dir sample_flushed) sample_index = Inr idx'"
    using reload_flushed [OF sample_flushed_ok sample_reorders ne] by blast
  from reload_reads_oldest [OF sample_flushed_ok sample_reorders ne _ r, of "''doc1''"] r show ?thesis
    by (simp add: sample_tables rows_at_def)
qed

end
