(* ===== verification/Query_Executor.thy ===== *)
theory Query_Executor
  imports Unified_Index
begin

text \<open>
  The query executor of \<^verbatim>\<open>src/core/query\<close>: the scorer of \<^verbatim>\<open>scorer.go\<close> and the stages of
  \<^verbatim>\<open>executor.go\<close>, a search in the unified index, a bounded breadth-first expansion over the graph, scoring
  and selection. The context of a query is given a deadline that no stage looks at, so it is left out. Reading the clock
  and the loops over maps are as in the unified index, whose state the executor threads. The details of a trace event are
  its numbers.
\<close>

section \<open>Scoring\<close>

record ScoringWeights =
  sw_CosineSimilarity :: fl
  sw_GraphWeight :: fl
  sw_Importance :: fl
  sw_Recency :: fl

definition DefaultScoringWeights :: ScoringWeights where
  "DefaultScoringWeights =
     \<lparr>sw_CosineSimilarity = fl_1, sw_GraphWeight = fl_of_rat F64 (3 / 10), sw_Importance = fl_of_rat F64 (2 / 10),
      sw_Recency = fl_of_rat F64 (1 / 10)\<rparr>"

record Scorer =
  sr_weights :: ScoringWeights
  sr_now :: time

definition NewScorer :: "time \<Rightarrow> ScoringWeights \<Rightarrow> Scorer" where
  "NewScorer now weights = \<lparr>sr_weights = weights, sr_now = now\<rparr>"

record ScoreCandidate =
  cd_EntityID :: string
  cd_QueryVector :: "float32 list"
  cd_Entity :: "UnifiedEntity option"
  cd_GraphPath :: "string list"
  cd_GraphWeights :: "fl list"

definition fl_clamp01 :: "fl \<Rightarrow> fl" where
  "fl_clamp01 x = (let x = (if fl_gt x fl_1 then fl_1 else x) in if fl_lt x fl_0 then fl_0 else x)"

definition computeCosineScore :: "float32 list \<Rightarrow> float32 list \<Rightarrow> fl" where
  "computeCosineScore query vec = fl_div F32 (fl_add F32 (CosineSimilarity query vec) fl_1) (Finite False 2)"

definition computeGraphScore :: "fl list \<Rightarrow> fl" where
  "computeGraphScore weights =
     (if length weights = 0 then fl_1
      else fl_clamp01 (fl_div F64 (fold (\<lambda>w total. fl_add F64 total w) weights fl_0) (fl_of_rat F64 (of_nat (length weights)))))"

definition computeImportanceScore :: "(fl \<Rightarrow> fl) \<Rightarrow> fl \<Rightarrow> fl" where
  "computeImportanceScore math_exp importance = fl_div F64 fl_1 (fl_add F64 fl_1 (math_exp (fl_neg importance)))"

text \<open>\<^verbatim>\<open>Time.Sub\<close> saturates at the ends of the range of a duration.\<close>

definition time_Sub :: "time \<Rightarrow> time \<Rightarrow> int" where
  "time_Sub t u = max (- (2 ^ 63)) (min (2 ^ 63 - 1) (t - u))"

definition computeRecencyScore :: "(fl \<Rightarrow> fl) \<Rightarrow> time \<Rightarrow> time \<Rightarrow> fl" where
  "computeRecencyScore math_exp now updatedAt =
     (let age = time_Sub now updatedAt; halfLife = 30 * 24 * Hour
      in fl_clamp01 (math_exp (fl_div F64 (fl_neg (fl_of_rat F64 (of_int age))) (fl_of_rat F64 (of_int halfLife)))))"

definition Score :: "(fl \<Rightarrow> fl) \<Rightarrow> Scorer \<Rightarrow> ScoreCandidate \<Rightarrow> fl" where
  "Score math_exp s cand =
     (case cd_Entity cand of None \<Rightarrow> fl_0
      | Some ent \<Rightarrow>
          (case GetLatestEmbedding ent of None \<Rightarrow> fl_0
           | Some embedding \<Rightarrow>
               let w = sr_weights s;
                   cosineScore = computeCosineScore (cd_QueryVector cand) (Vector embedding);
                   graphScore = computeGraphScore (cd_GraphWeights cand);
                   importanceScore = computeImportanceScore math_exp (fl_of_bits64 (Importance ent));
                   recencyScore = computeRecencyScore math_exp (sr_now s) (UpdatedAt ent)
               in fl_add F64
                    (fl_add F64
                      (fl_add F64 (fl_mul F64 (sw_CosineSimilarity w) cosineScore) (fl_mul F64 (sw_GraphWeight w) graphScore))
                      (fl_mul F64 (sw_Importance w) importanceScore))
                    (fl_mul F64 (sw_Recency w) recencyScore)))"

definition ScoreBatch :: "(fl \<Rightarrow> fl) \<Rightarrow> Scorer \<Rightarrow> ScoreCandidate list \<Rightarrow> fl list" where
  "ScoreBatch math_exp s candidates = map (Score math_exp s) candidates"

definition UpdateTime :: "time \<Rightarrow> Scorer \<Rightarrow> Scorer" where
  "UpdateTime now s = s\<lparr>sr_now := now\<rparr>"

section \<open>The executor\<close>

record TraceEvent =
  te_Stage :: string
  te_Timestamp :: time
  te_Duration :: int
  te_Details :: "(string \<times> int) list"

record ExecutorQueryConfig =
  xq_ScoringWeights :: ScoringWeights
  xq_DefaultK :: int
  xq_DefaultExpandFactor :: int
  xq_MaxCandidates :: int
  xq_DefaultConsistency :: string
  xq_MaxGraphHops :: int
  xq_Timeout :: int
  xq_EnableTracing :: bool

definition executor_DefaultConfig :: ExecutorQueryConfig where
  "executor_DefaultConfig =
     \<lparr>xq_ScoringWeights = DefaultScoringWeights, xq_DefaultK = 10, xq_DefaultExpandFactor = 2, xq_MaxCandidates = 1000,
      xq_DefaultConsistency = '''', xq_MaxGraphHops = 0, xq_Timeout = 0, xq_EnableTracing = False\<rparr>"

record QueryExec =
  ex_index :: UnifiedIndex
  ex_scorer :: Scorer
  ex_config :: ExecutorQueryConfig
  ex_traceEnabled :: bool
  ex_traces :: "TraceEvent list"

text \<open>An operation of the index, and a reading of the clock.\<close>

definition on_index :: "(UnifiedIndex \<Rightarrow> UnifiedIndex \<times> 'a) \<Rightarrow> QueryExec \<Rightarrow> QueryExec \<times> 'a" where
  "on_index f ex = (let (idx, x) = f (ex_index ex) in (ex\<lparr>ex_index := idx\<rparr>, x))"

definition on_index_go :: "(UnifiedIndex \<Rightarrow> (UnifiedIndex \<times> 'a) go) \<Rightarrow> QueryExec \<Rightarrow> (QueryExec \<times> 'a) go" where
  "on_index_go f ex = rbind (f (ex_index ex)) (\<lambda>(idx, x). Inr (ex\<lparr>ex_index := idx\<rparr>, x))"

definition exec_now :: "ui_env \<Rightarrow> QueryExec \<Rightarrow> QueryExec \<times> time" where
  "exec_now env = on_index (clock_tick env)"

definition NewQueryExec :: "ui_env \<Rightarrow> UnifiedIndex \<Rightarrow> ExecutorQueryConfig \<Rightarrow> QueryExec" where
  "NewQueryExec env index config =
     (let (idx, now) = clock_tick env index
      in \<lparr>ex_index = idx, ex_scorer = NewScorer now (xq_ScoringWeights config), ex_config = config,
          ex_traceEnabled = xq_EnableTracing config, ex_traces = []\<rparr>)"

subsection \<open>Traces\<close>

definition trace :: "string \<Rightarrow> time \<Rightarrow> int \<Rightarrow> (string \<times> int) list \<Rightarrow> QueryExec \<Rightarrow> QueryExec" where
  "trace stage startTime duration details ex =
     (if \<not> ex_traceEnabled ex then ex
      else ex\<lparr>ex_traces := ex_traces ex @
                [\<lparr>te_Stage = stage, te_Timestamp = startTime, te_Duration = duration, te_Details = details\<rparr>]\<rparr>)"

definition trace_since :: "ui_env \<Rightarrow> string \<Rightarrow> time \<Rightarrow> (string \<times> int) list \<Rightarrow> QueryExec \<Rightarrow> QueryExec" where
  "trace_since env stage startTime details ex =
     (let (ex, now) = exec_now env ex in trace stage startTime (time_Sub now startTime) details ex)"

definition GetTrace :: "QueryExec \<Rightarrow> TraceEvent list" where
  "GetTrace ex = ex_traces ex"

definition ClearTrace :: "QueryExec \<Rightarrow> QueryExec" where
  "ClearTrace ex = ex\<lparr>ex_traces := []\<rparr>"

subsection \<open>Stages\<close>

definition annSearch :: "ui_env \<Rightarrow> float32 list \<Rightarrow> int \<Rightarrow> QueryExec \<Rightarrow> (QueryExec \<times> string list) go" where
  "annSearch env queryVector candidateCount ex =
     (let cfg = ex_config ex;
          searchK = (if candidateCount > xq_MaxCandidates cfg then xq_MaxCandidates cfg else candidateCount);
          searchK = (if searchK < xq_DefaultK cfg then xq_DefaultK cfg else searchK);
          ef = (if searchK < xq_MaxCandidates cfg then xq_MaxCandidates cfg else searchK)
      in on_index_go (unified_Search env queryVector searchK ef) ex)"

record queueItem =
  qi_id :: string
  qi_depth :: int
  qi_path :: "string list"

text \<open>The visited entities (in the order they were met), the path to each and the queue.\<close>

type_synonym expansion = "string list \<times> (string \<times> string list) list \<times> queueItem list"

definition seed_queue :: "string list \<Rightarrow> expansion" where
  "seed_queue candidates =
     (remdups candidates, fold (\<lambda>cand. AList.update cand [cand]) candidates [],
      map (\<lambda>cand. \<lparr>qi_id = cand, qi_depth = 0, qi_path = [cand]\<rparr>) candidates)"

fun expand_neighbors :: "int \<Rightarrow> int \<Rightarrow> queueItem \<Rightarrow> string list \<Rightarrow> int \<Rightarrow> expansion \<Rightarrow> expansion" where
  "expand_neighbors expandFactor totalLimit item [] taken st = st"
| "expand_neighbors expandFactor totalLimit item (neighbor # ns) taken (expanded, graphPaths, queue) =
     (if neighbor \<in> set expanded then expand_neighbors expandFactor totalLimit item ns taken (expanded, graphPaths, queue)
      else if expandFactor \<le> taken then (expanded, graphPaths, queue)
      else if totalLimit \<le> int (length expanded) then (expanded, graphPaths, queue)
      else let pathCopy = qi_path item @ [neighbor]
           in expand_neighbors expandFactor totalLimit item ns (taken + 1)
                (expanded @ [neighbor], AList.update neighbor pathCopy graphPaths,
                 queue @ [\<lparr>qi_id = neighbor, qi_depth = qi_depth item + 1, qi_path = pathCopy\<rparr>]))"

lemma expand_neighbors_progress:
  "expand_neighbors expandFactor totalLimit item ns taken (expanded, paths, queue) = (expanded', paths', queue') \<Longrightarrow>
     (expanded' = expanded \<and> queue' = queue) \<or> (length expanded < length expanded' \<and> int (length expanded) < totalLimit)"
proof (induction ns arbitrary: taken expanded paths queue)
  case (Cons n ns)
  show ?case
  proof (cases "n \<in> set expanded \<or> expandFactor \<le> taken \<or> totalLimit \<le> int (length expanded)")
    case True
    with Cons.prems Cons.IH show ?thesis by (auto split: if_splits)
  next
    case False
    with Cons.prems have e: "expand_neighbors expandFactor totalLimit item ns (taken + 1) (expanded @ [n],
        AList.update n (qi_path item @ [n]) paths,
        queue @ [\<lparr>qi_id = n, qi_depth = qi_depth item + 1, qi_path = qi_path item @ [n]\<rparr>]) = (expanded', paths', queue')"
      by (simp add: Let_def)
    from Cons.IH [OF e] False show ?thesis by auto
  qed
qed simp

function graph_loop ::
  "ui_env \<Rightarrow> int \<Rightarrow> int \<Rightarrow> int \<Rightarrow> QueryExec \<Rightarrow> expansion \<Rightarrow> QueryExec \<times> string list \<times> (string \<times> string list) list" where
  "graph_loop env maxHops expandFactor totalLimit ex (expanded, graphPaths, []) = (ex, expanded, graphPaths)"
| "graph_loop env maxHops expandFactor totalLimit ex (expanded, graphPaths, item # queue) =
     (if maxHops \<le> qi_depth item then graph_loop env maxHops expandFactor totalLimit ex (expanded, graphPaths, queue)
      else let (ex, neighbors) = on_index (unified_GetNeighbors env (qi_id item)) ex
           in graph_loop env maxHops expandFactor totalLimit ex
                (expand_neighbors expandFactor totalLimit item neighbors 0 (expanded, graphPaths, queue)))"
  by pat_completeness auto
termination
proof (relation "measures [\<lambda>(_, _, _, limit, _, expanded, _, queue). nat limit - length expanded,
    \<lambda>(_, _, _, _, _, expanded, _, queue). length queue]", goal_cases)
  case (3 env maxHops expandFactor totalLimit ex expanded graphPaths item queue x ex' neighbors)
  obtain e p q where st: "expand_neighbors expandFactor totalLimit item neighbors 0 (expanded, graphPaths, queue) = (e, p, q)"
    by (cases "expand_neighbors expandFactor totalLimit item neighbors 0 (expanded, graphPaths, queue)")
  from expand_neighbors_progress [OF st] show ?case by (auto simp: st)
qed auto

definition graphExpansion ::
  "ui_env \<Rightarrow> string list \<Rightarrow> int \<Rightarrow> QueryExec \<Rightarrow> QueryExec \<times> string list \<times> (string \<times> string list) list" where
  "graphExpansion env candidates expandFactor ex =
     (let cfg = ex_config ex; maxHops = (if xq_MaxGraphHops cfg < 1 then 1 else xq_MaxGraphHops cfg);
          (ex, expanded, graphPaths) = graph_loop env maxHops expandFactor (xq_MaxCandidates cfg) ex (seed_queue candidates)
      in (ex, env_rng env expanded, graphPaths))"

text \<open>The weight of an edge, in either direction.\<close>

definition edge_to :: "string \<Rightarrow> GraphEdge list option \<Rightarrow> fl option" where
  "edge_to to edges =
     map_option (\<lambda>edge. fl_of_bits64 (Weight edge)) (List.find (\<lambda>edge. ToEntity edge = to) (case edges of None \<Rightarrow> [] | Some es \<Rightarrow> es))"

fun reverse_weight :: "string \<Rightarrow> string \<Rightarrow> string list \<Rightarrow> QueryExec \<Rightarrow> QueryExec \<times> fl" where
  "reverse_weight from to [] ex = (ex, fl_of_rat F64 (1 / 2))"
| "reverse_weight from to (neighbor # ns) ex =
     (if neighbor = to then
        let (ex, reverseEdges) = on_index (unified_GetOutgoingEdges to) ex
        in case edge_to from reverseEdges of Some weight \<Rightarrow> (ex, weight) | None \<Rightarrow> reverse_weight from to ns ex
      else reverse_weight from to ns ex)"

definition getEdgeWeight :: "string \<Rightarrow> string \<Rightarrow> QueryExec \<Rightarrow> QueryExec \<times> fl" where
  "getEdgeWeight from to ex =
     (let (ex, edges) = on_index (unified_GetOutgoingEdges from) ex
      in case edge_to to edges of
           Some weight \<Rightarrow> (ex, weight)
         | None \<Rightarrow> (let (ex, incomingEdges) = on_index (unified_GetIncomingNeighbors from) ex
                    in reverse_weight from to incomingEdges ex))"

fun computePathWeights :: "string list \<Rightarrow> QueryExec \<Rightarrow> QueryExec \<times> fl list" where
  "computePathWeights (from # to # path) ex =
     (let (ex, weight) = getEdgeWeight from to ex; (ex, weights) = computePathWeights (to # path) ex in (ex, weight # weights))"
| "computePathWeights path ex = (ex, [])"

record ScoredResult =
  sq_EntityID :: string
  sq_Score :: fl
  sq_Entity :: UnifiedEntity

fun unifiedScoring ::
  "ui_env \<Rightarrow> float32 list \<Rightarrow> string list \<Rightarrow> (string \<times> string list) list \<Rightarrow> QueryExec \<Rightarrow> (QueryExec \<times> ScoredResult list) go" where
  "unifiedScoring env queryVector [] graphPaths ex = Inr (ex, [])"
| "unifiedScoring env queryVector (entityID # ids) graphPaths ex =
     rbind (on_index_go (unified_getEntity env entityID) ex) (\<lambda>(ex, ent).
       case ent of
         None \<Rightarrow> unifiedScoring env queryVector ids graphPaths ex
       | Some e \<Rightarrow>
           let path = (case map_of graphPaths entityID of None \<Rightarrow> [] | Some p \<Rightarrow> p);
               (ex, weights) = computePathWeights path ex;
               cand = \<lparr>cd_EntityID = entityID, cd_QueryVector = queryVector, cd_Entity = Some e, cd_GraphPath = path,
                       cd_GraphWeights = weights\<rparr>;
               score = Score (env_exp env) (ex_scorer ex) cand
           in rbind (unifiedScoring env queryVector ids graphPaths ex) (\<lambda>(ex, results).
                Inr (ex, \<lparr>sq_EntityID = entityID, sq_Score = score, sq_Entity = e\<rparr> # results)))"

definition higher_score :: "ScoredResult \<Rightarrow> ScoredResult \<Rightarrow> bool" where
  "higher_score a b \<longleftrightarrow> fl_gt (sq_Score a) (sq_Score b)"

definition topKSelection :: "ScoredResult list \<Rightarrow> int \<Rightarrow> ScoredResult list go" where
  "topKSelection results k = first_k (sort_Slice higher_score results) k"

subsection \<open>A query\<close>

definition expand_factor :: "ExecutorQueryConfig \<Rightarrow> int \<Rightarrow> int" where
  "expand_factor cfg expandFactor =
     (let expandFactor = (if expandFactor \<le> 0 then xq_DefaultExpandFactor cfg else expandFactor)
      in if expandFactor > xq_MaxGraphHops cfg then xq_MaxGraphHops cfg else expandFactor)"

definition QueryWithOptions ::
  "ui_env \<Rightarrow> float32 list \<Rightarrow> int \<Rightarrow> int \<Rightarrow> QueryExec \<Rightarrow> (QueryExec \<times> ScoredResult list) go" where
  "QueryWithOptions env queryVector k expandFactor ex =
     (let expandFactor = expand_factor (ex_config ex) expandFactor;
          (ex, startTime) = exec_now env ex;
          ex = trace ''query_start'' startTime 0
                 [(''k'', k), (''expandFactor'', expandFactor), (''vectorDim'', int (length queryVector))] ex;
          (ex, annStart) = exec_now env ex
      in rbind (rwrap ''ANN search failed'' (annSearch env queryVector (wrap64 (k * expandFactor)) ex)) (\<lambda>(ex, annCandidates).
     let ex = trace_since env ''ann_search'' annStart [(''candidates'', int (length annCandidates))] ex;
         (ex, graphStart) = exec_now env ex;
         (ex, expandedCandidates, graphPaths) = graphExpansion env annCandidates expandFactor ex;
         ex = trace_since env ''graph_expansion'' graphStart [(''expanded'', int (length expandedCandidates))] ex;
         (ex, scoringStart) = exec_now env ex
     in rbind (unifiedScoring env queryVector expandedCandidates graphPaths ex) (\<lambda>(ex, scoredResults).
     let ex = trace_since env ''unified_scoring'' scoringStart [(''scored'', int (length scoredResults))] ex;
         (ex, selectionStart) = exec_now env ex
     in rbind (topKSelection scoredResults k) (\<lambda>topK.
     let ex = trace_since env ''topk_selection'' selectionStart [(''results'', int (length topK))] ex;
         ex = trace_since env ''query_complete'' startTime [(''totalResults'', int (length topK))] ex
     in Inr (ex, topK)))))"

definition executor_Query :: "ui_env \<Rightarrow> float32 list \<Rightarrow> int \<Rightarrow> QueryExec \<Rightarrow> (QueryExec \<times> ScoredResult list) go" where
  "executor_Query env queryVector k = QueryWithOptions env queryVector k 2"

section \<open>What the expansion reaches\<close>

text \<open>An edge of the graph cache, in either direction. Reading the cache can only lose edges, to its bound.\<close>

definition graph_linked :: "GraphCache \<Rightarrow> string \<Rightarrow> string \<Rightarrow> bool" where
  "graph_linked gc a b \<longleftrightarrow>
     b \<in> ToEntity ` set (edges_at (gc_outgoingEdges gc) a) \<or> b \<in> FromEntity ` set (edges_at (gc_incomingEdges gc) a)"

lemma edges_at_delete: "set (edges_at (AList.delete k m) a) \<subseteq> set (edges_at m a)"
  by (auto simp: edges_at_def map_of_alist_delete delete_conv' split: option.splits if_splits)

lemma touch_linked: "graph_linked (touchEntity e gc) a b \<Longrightarrow> graph_linked gc a b"
  using edges_at_delete [of "last (gc_lruList gc)"]
  by (auto simp: graph_linked_def touchEntity_def evictLRU_def Let_def split: if_splits)

lemma GetNeighbors_linked:
  assumes "gc_GetNeighbors rng e gc = (gc', ns)" "reorders rng"
  shows "\<forall>b\<in>set ns. graph_linked gc e b" and "graph_linked gc' a b \<Longrightarrow> graph_linked gc a b"
  using assms touch_linked [of e gc a b]
  by (auto simp: gc_GetNeighbors_def Let_def reorders_set graph_linked_def split: if_splits)

text \<open>A path of at most \<open>maxHops\<close> links from a seed.\<close>

definition hop_path :: "GraphCache \<Rightarrow> string set \<Rightarrow> int \<Rightarrow> string \<Rightarrow> string list \<Rightarrow> bool" where
  "hop_path gc seeds maxHops x p \<longleftrightarrow>
     p \<noteq> [] \<and> hd p \<in> seeds \<and> last p = x \<and> successively (graph_linked gc) p \<and> int (length p) \<le> maxHops + 1"

definition expansion_ok :: "GraphCache \<Rightarrow> string set \<Rightarrow> int \<Rightarrow> int \<Rightarrow> expansion \<Rightarrow> bool" where
  "expansion_ok gc seeds maxHops bound = (\<lambda>(expanded, paths, queue).
     distinct expanded \<and> seeds \<subseteq> set expanded \<and> int (length expanded) \<le> bound \<and>
     (\<forall>x\<in>set expanded. \<exists>p. map_of paths x = Some p \<and> hop_path gc seeds maxHops x p) \<and>
     (\<forall>item\<in>set queue. hop_path gc seeds maxHops (qi_id item) (qi_path item) \<and>
        int (length (qi_path item)) = qi_depth item + 1))"

lemma expand_neighbors_ok:
  assumes "expansion_ok gc seeds maxHops bound (expanded, paths, queue)" "totalLimit \<le> bound"
    and "hop_path gc seeds maxHops (qi_id item) (qi_path item)" "int (length (qi_path item)) = qi_depth item + 1"
    and "qi_depth item < maxHops" "\<forall>b\<in>set ns. graph_linked gc (qi_id item) b"
  shows "expansion_ok gc seeds maxHops bound (expand_neighbors expandFactor totalLimit item ns taken (expanded, paths, queue))"
  using assms
proof (induction ns arbitrary: taken expanded paths queue)
  case (Cons n ns)
  show ?case
  proof (cases "n \<in> set expanded \<or> expandFactor \<le> taken \<or> totalLimit \<le> int (length expanded)")
    case True
    with Cons show ?thesis by auto
  next
    case False
    have "qi_path item \<noteq> []" "last (qi_path item) = qi_id item" using Cons.prems(3) by (simp_all add: hop_path_def)
    then have new: "hop_path gc seeds maxHops n (qi_path item @ [n])"
      using Cons.prems(3-6) by (auto simp: hop_path_def successively_append_iff)
    have "expansion_ok gc seeds maxHops bound (expanded @ [n], AList.update n (qi_path item @ [n]) paths,
        queue @ [\<lparr>qi_id = n, qi_depth = qi_depth item + 1, qi_path = qi_path item @ [n]\<rparr>])"
      using Cons.prems(1,2,4) False new by (auto simp: expansion_ok_def map_of_alist_update)
    from Cons.IH [OF this Cons.prems(2-5)] Cons.prems(6) False show ?thesis by (simp add: Let_def)
  qed
qed simp

lemma index_GetNeighbors:
  assumes "on_index (unified_GetNeighbors env e) ex = (ex', ns)" "reorders (env_rng env)"
  shows "\<forall>b\<in>set ns. graph_linked (ui_graphCache (ex_index ex)) e b"
    and "graph_linked (ui_graphCache (ex_index ex')) a b \<Longrightarrow> graph_linked (ui_graphCache (ex_index ex)) a b"
    and "ui_hnswIndex (ex_index ex') = ui_hnswIndex (ex_index ex)" "ex_config ex' = ex_config ex"
proof -
  obtain gc' where g: "gc_GetNeighbors (env_rng env) e (ui_graphCache (ex_index ex)) = (gc', ns)"
      "ex' = ex\<lparr>ex_index := (ex_index ex)\<lparr>ui_graphCache := gc'\<rparr>\<rparr>"
    using assms(1) by (auto simp: on_index_def unified_GetNeighbors_def on_graph_def Let_def split: prod.splits)
  note l = GetNeighbors_linked [OF g(1) assms(2)]
  show "\<forall>b\<in>set ns. graph_linked (ui_graphCache (ex_index ex)) e b"
    and "graph_linked (ui_graphCache (ex_index ex')) a b \<Longrightarrow> graph_linked (ui_graphCache (ex_index ex)) a b"
    and "ui_hnswIndex (ex_index ex') = ui_hnswIndex (ex_index ex)" "ex_config ex' = ex_config ex"
    using l by (simp_all add: g(2))
qed

lemma graph_loop_ok:
  assumes "reorders (env_rng env)" "totalLimit \<le> bound"
  shows "expansion_ok gc seeds maxHops bound st \<Longrightarrow>
    (\<forall>a b. graph_linked (ui_graphCache (ex_index ex)) a b \<longrightarrow> graph_linked gc a b) \<Longrightarrow>
    graph_loop env maxHops expandFactor totalLimit ex st = (ex', expanded', paths') \<Longrightarrow>
    expansion_ok gc seeds maxHops bound (expanded', paths', []) \<and>
    ui_hnswIndex (ex_index ex') = ui_hnswIndex (ex_index ex) \<and> ex_config ex' = ex_config ex"
  using assms
proof (induction env maxHops expandFactor totalLimit ex st rule: graph_loop.induct)
  case (1 env maxHops expandFactor totalLimit ex expanded paths)
  then show ?case by simp
next
  case (2 env maxHops expandFactor totalLimit ex expanded paths item queue)
  have ok: "expansion_ok gc seeds maxHops bound (expanded, paths, queue)"
      "hop_path gc seeds maxHops (qi_id item) (qi_path item)" "int (length (qi_path item)) = qi_depth item + 1"
    using "2.prems"(1) by (auto simp: expansion_ok_def)
  show ?case
  proof (cases "maxHops \<le> qi_depth item")
    case True
    with "2.prems" "2.IH"(1) ok(1) show ?thesis by simp
  next
    case False
    obtain ex1 ns where n: "on_index (unified_GetNeighbors env (qi_id item)) ex = (ex1, ns)" by fastforce
    note keep = index_GetNeighbors [OF n "2.prems"(4)]
    have "\<forall>b\<in>set ns. graph_linked gc (qi_id item) b" using keep(1) "2.prems"(2) by blast
    then have "expansion_ok gc seeds maxHops bound
        (expand_neighbors expandFactor totalLimit item ns 0 (expanded, paths, queue))"
      using False by (intro expand_neighbors_ok [OF ok(1) "2.prems"(5) ok(2,3)]) simp_all
    moreover have "\<forall>a b. graph_linked (ui_graphCache (ex_index ex1)) a b \<longrightarrow> graph_linked gc a b"
      using keep(2) "2.prems"(2) by blast
    moreover have "graph_loop env maxHops expandFactor totalLimit ex1
        (expand_neighbors expandFactor totalLimit item ns 0 (expanded, paths, queue)) = (ex', expanded', paths')"
      using "2.prems"(3) False n by simp
    ultimately show ?thesis
      using "2.IH"(2) [OF False n [symmetric] refl _ _ _ "2.prems"(4,5)] keep(3,4) by simp
  qed
qed

lemma seeds_ok:
  assumes "0 \<le> maxHops"
  shows "expansion_ok gc (set candidates) maxHops (int (length (remdups candidates))) (seed_queue candidates)"
proof -
  have "map_of (fold (\<lambda>cand. AList.update cand [cand]) cs m) x = (if x \<in> set cs then Some [x] else map_of m x)" for cs :: "string list" and x m
    by (induction cs arbitrary: m) auto
  then have "map_of (fold (\<lambda>cand. AList.update cand [cand]) candidates []) x = Some [x]" if "x \<in> set candidates" for x
    using that by simp
  with assms show ?thesis
    by (auto simp: expansion_ok_def seed_queue_def hop_path_def)
qed

lemma expansion_ok_mono: "expansion_ok gc seeds maxHops b st \<Longrightarrow> b \<le> b' \<Longrightarrow> expansion_ok gc seeds maxHops b' st"
  by (auto simp: expansion_ok_def)

lemma graph_expansion_ends:
  assumes "reorders (env_rng env)"
  shows "\<exists>ex' ids paths. graphExpansion env candidates expandFactor ex = (ex', ids, paths) \<and>
     distinct ids \<and> set candidates \<subseteq> set ids \<and>
     int (length ids) \<le> max (xq_MaxCandidates (ex_config ex)) (int (length (remdups candidates))) \<and>
     (\<forall>x\<in>set ids. \<exists>p. map_of paths x = Some p \<and>
        hop_path (ui_graphCache (ex_index ex)) (set candidates) (max 1 (xq_MaxGraphHops (ex_config ex))) x p)"
proof -
  let ?gc = "ui_graphCache (ex_index ex)" and ?hops = "if xq_MaxGraphHops (ex_config ex) < 1 then 1 else xq_MaxGraphHops (ex_config ex)"
  let ?limit = "xq_MaxCandidates (ex_config ex)"
  let ?bound = "max ?limit (int (length (remdups candidates)))"
  obtain ex' expanded paths where l: "graph_loop env ?hops expandFactor ?limit ex (seed_queue candidates) = (ex', expanded, paths)"
    by (metis prod_cases3)
  have "expansion_ok ?gc (set candidates) ?hops ?bound (seed_queue candidates)"
    by (rule expansion_ok_mono [OF seeds_ok]) simp_all
  then have ok: "expansion_ok ?gc (set candidates) ?hops ?bound (expanded, paths, [])"
    using graph_loop_ok [OF assms _ _ _ l] by simp
  have g: "graphExpansion env candidates expandFactor ex = (ex', env_rng env expanded, paths)"
    using l by (simp add: graphExpansion_def Let_def)
  have hops: "?hops = max 1 (xq_MaxGraphHops (ex_config ex))" by simp
  have "distinct (env_rng env expanded)" "set candidates \<subseteq> set (env_rng env expanded)"
      "int (length (env_rng env expanded)) \<le> ?bound"
    using ok by (simp_all only: expansion_ok_def prod.case reorders_set [OF assms] reorders_distinct [OF assms] reorders_length [OF assms])
  moreover have "\<forall>x\<in>set (env_rng env expanded). \<exists>p. map_of paths x = Some p \<and> hop_path ?gc (set candidates) ?hops x p"
    using ok unfolding expansion_ok_def prod.case reorders_set [OF assms] by (elim conjE)
  ultimately show ?thesis using g unfolding hops by blast
qed

text \<open>The expansion over the graph ends and returns distinct entities, the candidates among them, never more than the
  larger of \<open>MaxCandidates\<close> and the candidates; each comes with a path from a candidate to it over at most
  \<open>MaxGraphHops\<close> edges of the graph (one, if the setting is below one).\<close>

theorem graph_expansion_bounded:
  assumes "reorders (env_rng env)"
  shows "\<exists>ex' ids paths. graphExpansion env candidates expandFactor ex = (ex', ids, paths) \<and>
     distinct ids \<and> set candidates \<subseteq> set ids \<and>
     int (length ids) \<le> max (xq_MaxCandidates (ex_config ex)) (int (length (remdups candidates))) \<and>
     (\<forall>x\<in>set ids. \<exists>p. map_of paths x = Some p \<and>
        hop_path (ui_graphCache (ex_index ex)) (set candidates) (max 1 (xq_MaxGraphHops (ex_config ex))) x p)"
  using assms by (rule graph_expansion_ends)

section \<open>Answers of a query\<close>

lemma exec_frame:
  "exec_now env ex = (ex', t) \<Longrightarrow> ui_hnswIndex (ex_index ex') = ui_hnswIndex (ex_index ex) \<and> ex_config ex' = ex_config ex"
  "ui_hnswIndex (ex_index (trace stage start d details ex)) = ui_hnswIndex (ex_index ex)"
  "ex_config (trace stage start d details ex) = ex_config ex"
  by (auto simp: exec_now_def on_index_def clock_tick_def trace_def)

lemma unifiedScoring_total:
  "\<exists>ex' rs. unifiedScoring env q ids paths ex = Inr (ex', rs) \<and> subseq (map sq_EntityID rs) ids"
proof (induction ids arbitrary: ex)
  case Nil
  then show ?case by simp
next
  case (Cons x ids)
  obtain idx ent where e: "unified_getEntity env x (ex_index ex) = Inr (idx, ent)" using getEntity_total by blast
  let ?ex = "ex\<lparr>ex_index := idx\<rparr>"
  show ?case
  proof (cases ent)
    case None
    with e Cons.IH [of ?ex] show ?thesis by (auto simp: on_index_go_def)
  next
    case (Some f)
    obtain ex1 ws where w: "computePathWeights (case map_of paths x of None \<Rightarrow> [] | Some p \<Rightarrow> p) ?ex = (ex1, ws)" by fastforce
    with e Some Cons.IH [of ex1] show ?thesis by (auto simp: on_index_go_def Let_def)
  qed
qed

lemma annSearch_total:
  assumes "hnsw_ok (ui_hnswIndex (ex_index ex))" "reorders (env_rng env)"
    and "1 \<le> xq_DefaultK (ex_config ex)" "xq_DefaultK (ex_config ex) \<le> 10000" "xq_MaxCandidates (ex_config ex) \<le> 100000"
  shows "\<exists>ex' ids. annSearch env q n ex = Inr (ex', ids) \<and> ui_hnswIndex (ex_index ex') = ui_hnswIndex (ex_index ex) \<and>
     ex_config ex' = ex_config ex \<and> distinct ids \<and>
     int (length ids) \<le> max (xq_DefaultK (ex_config ex)) (min n (xq_MaxCandidates (ex_config ex)))"
proof -
  let ?D = "xq_DefaultK (ex_config ex)" and ?M = "xq_MaxCandidates (ex_config ex)"
  define k where "k = max ?D (min n ?M)"
  define ef where "ef = max k ?M"
  have b: "0 \<le> k" "k \<le> 100000" "0 \<le> ef" "ef \<le> 100000" using assms(3-5) by (auto simp: k_def ef_def)
  then have "0 \<le> k * ef" "k * ef \<le> 100000 * 100000" by (simp, intro mult_mono) simp_all
  then have "0 \<le> wrap64 (k * ef)" by (subst wrap64_id) simp_all
  from unified_Search_total [OF assms(1,2) b(1) this, of q] obtain idx ids where
    s: "unified_Search env q k ef (ex_index ex) = Inr (idx, ids)" "ui_hnswIndex idx = ui_hnswIndex (ex_index ex)" "distinct ids"
      "int (length ids) \<le> k" by blast
  have "annSearch env q n ex = on_index_go (unified_Search env q k ef) ex"
    unfolding annSearch_def Let_def k_def ef_def by (auto simp: max_def min_def intro!: arg_cong2 [where f = on_index_go] arg_cong2 [where f = "unified_Search env q"])
  with s show ?thesis by (simp add: on_index_go_def k_def)
qed

text \<open>Without a factor the expansion adds nothing.\<close>

lemma expand_neighbors_none:
  "f \<le> taken \<Longrightarrow> expand_neighbors f limit item ns taken st = st"
  by (induction f limit item ns taken st rule: expand_neighbors.induct) auto

lemma graph_loop_none:
  "f \<le> 0 \<Longrightarrow> \<exists>ex'. graph_loop env hops f limit ex st = (ex', fst st, fst (snd st))"
proof (induction env hops f limit ex st rule: graph_loop.induct)
  case (2 env hops f limit ex expanded paths item queue)
  then show ?case
    by (cases "on_index (unified_GetNeighbors env (qi_id item)) ex") (auto simp: expand_neighbors_none)
qed simp

lemma graphExpansion_none:
  assumes "f \<le> 0"
  shows "\<exists>ex' paths. graphExpansion env cs f ex = (ex', env_rng env (remdups cs), paths)"
  using graph_loop_none [OF assms, of env "if xq_MaxGraphHops (ex_config ex) < 1 then 1 else xq_MaxGraphHops (ex_config ex)"
      "xq_MaxCandidates (ex_config ex)" ex "seed_queue cs"]
  by (auto simp: graphExpansion_def Let_def seed_queue_def simp del: graph_loop.simps)

text \<open>The stages of a query, each of which succeeds.\<close>

lemma query_stages:
  fixes ex :: QueryExec and expandFactor :: int
  assumes "hnsw_ok (ui_hnswIndex (ex_index ex))" "reorders (env_rng env)" "0 \<le> k"
    and "1 \<le> xq_DefaultK (ex_config ex)" "xq_DefaultK (ex_config ex) \<le> 10000" "xq_MaxCandidates (ex_config ex) \<le> 100000"
  defines "f \<equiv> expand_factor (ex_config ex) expandFactor"
  obtains ex' ids cs rs where
    "QueryWithOptions env q k expandFactor ex = Inr (ex', take (nat k) (sort_Slice higher_score rs))"
    "distinct ids" "int (length ids) \<le> max (xq_DefaultK (ex_config ex)) (min (wrap64 (k * f)) (xq_MaxCandidates (ex_config ex)))"
    "\<exists>ex1 ex2 paths. graphExpansion env ids f ex1 = (ex2, cs, paths)" "distinct cs" "subseq (map sq_EntityID rs) cs"
proof -
  let ?cfg = "ex_config ex"
  obtain ex1 t1 where n1: "exec_now env ex = (ex1, t1)" by fastforce
  define ex2 where "ex2 = trace ''query_start'' t1 0 [(''k'', k), (''expandFactor'', f), (''vectorDim'', int (length q))] ex1"
  obtain ex3 t3 where n3: "exec_now env ex2 = (ex3, t3)" by fastforce
  have fr: "ui_hnswIndex (ex_index ex3) = ui_hnswIndex (ex_index ex)" "ex_config ex3 = ?cfg"
    using exec_frame(1) [OF n1] exec_frame(1) [OF n3] by (simp_all add: ex2_def exec_frame)
  obtain ex4 ids where ann: "annSearch env q (wrap64 (k * f)) ex3 = Inr (ex4, ids)" "distinct ids"
      "int (length ids) \<le> max (xq_DefaultK ?cfg) (min (wrap64 (k * f)) (xq_MaxCandidates ?cfg))"
    using annSearch_total [of ex3 env q "wrap64 (k * f)"] assms fr by auto
  define ex5 where "ex5 = trace_since env ''ann_search'' t3 [(''candidates'', int (length ids))] ex4"
  obtain ex6 t6 where n6: "exec_now env ex5 = (ex6, t6)" by fastforce
  obtain ex7 cs paths where g: "graphExpansion env ids f ex6 = (ex7, cs, paths)" "distinct cs"
    using graph_expansion_ends [OF assms(2)] by blast
  define ex8 where "ex8 = trace_since env ''graph_expansion'' t6 [(''expanded'', int (length cs))] ex7"
  obtain ex9 t9 where n9: "exec_now env ex8 = (ex9, t9)" by fastforce
  obtain ex10 rs where sc: "unifiedScoring env q cs paths ex9 = Inr (ex10, rs)" "subseq (map sq_EntityID rs) cs"
    using unifiedScoring_total by blast
  define top where "top = take (nat k) (sort_Slice higher_score rs)"
  have topK: "topKSelection rs k = Inr top"
    using assms(3) by (auto simp: topKSelection_def first_k_def top_def)
  have "\<exists>ex'. QueryWithOptions env q k expandFactor ex = Inr (ex', top)"
    unfolding QueryWithOptions_def f_def [symmetric]
    by (simp add: Let_def n1 n3 ann(1) n6 g(1) n9 sc(1) topK flip: ex2_def ex5_def ex8_def split: prod.split)
  then show thesis using that ann(2,3) g sc(2) unfolding top_def by blast
qed

lemma query_ends:
  assumes "hnsw_ok (ui_hnswIndex (ex_index ex))" "reorders (env_rng env)" "0 \<le> k"
    and "1 \<le> xq_DefaultK (ex_config ex)" "xq_DefaultK (ex_config ex) \<le> 10000"
    and "1 \<le> xq_MaxCandidates (ex_config ex)" "xq_MaxCandidates (ex_config ex) \<le> 100000"
  shows "\<exists>ex' rs. QueryWithOptions env q k expandFactor ex = Inr (ex', rs) \<and> int (length rs) \<le> k \<and>
     distinct (map sq_EntityID rs) \<and>
     (xq_MaxGraphHops (ex_config ex) = 0 \<longrightarrow> 0 \<le> xq_DefaultExpandFactor (ex_config ex) \<longrightarrow>
        int (length rs) \<le> xq_DefaultK (ex_config ex))"
proof -
  let ?cfg = "ex_config ex"
  obtain ex' ids cs rs where q: "QueryWithOptions env q k expandFactor ex = Inr (ex', take (nat k) (sort_Slice higher_score rs))"
      "distinct ids" "int (length ids) \<le> max (xq_DefaultK ?cfg) (min (wrap64 (k * expand_factor ?cfg expandFactor)) (xq_MaxCandidates ?cfg))"
      "\<exists>ex1 ex2 paths. graphExpansion env ids (expand_factor ?cfg expandFactor) ex1 = (ex2, cs, paths)" "distinct cs"
      "subseq (map sq_EntityID rs) cs"
    by (rule query_stages [OF assms(1-5,7)])
  define top where "top = take (nat k) (sort_Slice higher_score rs)"
  have "distinct (map sq_EntityID top)"
    using subseq_distinct [OF q(6,5)] by (simp add: top_def take_map [symmetric] distinct_take)
  moreover have "int (length rs) \<le> xq_DefaultK ?cfg" if "xq_MaxGraphHops ?cfg = 0" "0 \<le> xq_DefaultExpandFactor ?cfg"
  proof -
    have f: "expand_factor ?cfg expandFactor = 0" using that by (auto simp: expand_factor_def Let_def)
    obtain e1 e2 paths where "graphExpansion env ids (expand_factor ?cfg expandFactor) e1 = (e2, cs, paths)" using q(4) by blast
    with f graphExpansion_none [of 0 env ids e1] have "cs = env_rng env (remdups ids)" by auto
    then have "length cs = length ids" using q(2) by (simp add: reorders_length [OF assms(2)] distinct_remdups_id)
    moreover have "length rs \<le> length cs" using list_emb_length [OF q(6)] by simp
    moreover have "int (length ids) \<le> xq_DefaultK ?cfg" using q(3) assms(4) by (simp add: f wrap64_id)
    ultimately show ?thesis by linarith
  qed
  moreover have "int (length top) \<le> k" "length top \<le> length rs" using assms(3) by (simp_all add: top_def)
  ultimately show ?thesis using q(1) unfolding top_def [symmetric] by fastforce
qed

text \<open>C34. On a well-formed vector index a query with validated settings ends without a panic and returns at most \<open>k\<close>
  results for distinct entities, none of them more than once. When the setting for graph hops is zero, as in the server,
  which does not pass it on, there are never more than \<open>DefaultK\<close> results, however many were asked for.\<close>

theorem query_answers:
  assumes "hnsw_ok (ui_hnswIndex (ex_index ex))" "reorders (env_rng env)" "0 \<le> k"
    and "1 \<le> xq_DefaultK (ex_config ex)" "xq_DefaultK (ex_config ex) \<le> 10000"
    and "1 \<le> xq_MaxCandidates (ex_config ex)" "xq_MaxCandidates (ex_config ex) \<le> 100000"
  shows "\<exists>ex' rs. QueryWithOptions env q k expandFactor ex = Inr (ex', rs) \<and> int (length rs) \<le> k \<and>
     distinct (map sq_EntityID rs) \<and>
     (xq_MaxGraphHops (ex_config ex) = 0 \<longrightarrow> 0 \<le> xq_DefaultExpandFactor (ex_config ex) \<longrightarrow>
        int (length rs) \<le> xq_DefaultK (ex_config ex))"
  by (rule query_ends [OF assms])

section \<open>A query of two nodes\<close>

definition sample_executor :: QueryExec where
  "sample_executor = NewQueryExec sample_ui_env sample_index
     (executor_DefaultConfig\<lparr>xq_MaxGraphHops := 2\<rparr>)"

lemma sample_executor_simps:
  "ui_hnswIndex (ex_index sample_executor) = sample_hnsw" "ex_config sample_executor = executor_DefaultConfig\<lparr>xq_MaxGraphHops := 2\<rparr>"
  by (simp_all add: sample_executor_def NewQueryExec_def clock_tick_def sample_index_def)

lemma query_answers_witness:
  "\<exists>ex' rs. QueryWithOptions sample_ui_env [0x3f800000] 5 2 sample_executor = Inr (ex', rs) \<and> length rs \<le> 5"
proof -
  have "hnsw_ok (ui_hnswIndex (ex_index sample_executor))" by (simp add: sample_executor_simps sample_hnsw_ok)
  from query_answers [OF this sample_reorders, of 5 "[0x3f800000]" 2] show ?thesis
    by (auto simp: sample_executor_simps executor_DefaultConfig_def)
qed

lemma graph_expansion_bounded_witness:
  "\<exists>ex' ids paths. graphExpansion sample_ui_env [''doc1''] 2 sample_executor = (ex', ids, paths) \<and> ''doc1'' \<in> set ids \<and> length ids \<le> 1000"
  using graph_expansion_bounded [OF sample_reorders, of "[''doc1'']" 2 sample_executor]
  by (auto simp: sample_executor_simps executor_DefaultConfig_def)

end
