(* ===== verification/Llm_Extractor.thy ===== *)
theory Llm_Extractor
  imports Alli_Prelude
begin

text \<open>
  Entity extraction by a language model, \<^verbatim>\<open>src/core/llm/extractor.go\<close>, and the backends of
  \<^verbatim>\<open>src/core/llm/backends.go\<close>. The JSON decoder is a parameter, None where it fails; a backend is its
  method \<^verbatim>\<open>Generate\<close> on a state of its own; the pause between attempts is left out. Strings are bytes: the loop over runes finds
  the braces at the same places, since no other character of UTF-8 contains their bytes.
\<close>

section \<open>Finding the JSON text in a response\<close>

text \<open>The index of the first occurrence, None for -1.\<close>

fun findString :: "string \<Rightarrow> string \<Rightarrow> nat option" where
  "findString s substr =
     (if prefix substr s then Some 0
      else case s of [] \<Rightarrow> None | c # cs \<Rightarrow> map_option Suc (findString cs substr))"

declare findString.simps [simp del]

lemma findString_Some:
  "findString s substr = Some i \<Longrightarrow> i + length substr \<le> length s \<and> prefix substr (drop i s)"
proof (induction s arbitrary: i)
  case Nil
  then show ?case by (auto simp: findString.simps [of "[]"] split: if_splits)
next
  case (Cons c cs)
  then show ?case
    by (auto simp: findString.simps [of "c # cs"] dest: prefix_length_le split: if_splits)
qed

lemma findString_None: "findString s substr = None \<longleftrightarrow> \<not> sublist substr s"
proof (induction s)
  case Nil
  then show ?case by (auto simp: findString.simps [of "[]"])
next
  case (Cons c cs)
  then show ?case by (auto simp: findString.simps [of "c # cs"] sublist_Cons_right)
qed

lemma findString_before: "findString s substr = Some i \<Longrightarrow> j < i \<Longrightarrow> \<not> prefix substr (drop j s)"
proof (induction s arbitrary: i j)
  case Nil
  then show ?case by (auto simp: findString.simps [of "[]"] split: if_splits)
next
  case (Cons c cs)
  then show ?case by (cases j) (auto simp: findString.simps [of "c # cs"] split: if_splits)
qed

text \<open>
  The two loops over code blocks differ in the opening they look for only; each either drops the markers of a
  block, or a last opening without an end.
\<close>

datatype fence = Json_Fence | Plain_Fence

fun fence_text :: "fence \<Rightarrow> string" where
  "fence_text Json_Fence = ''```json''"
| "fence_text Plain_Fence = ''```''"

lemma fence_text_pos [simp]: "0 < length (fence_text f)" "fence_text f \<noteq> []"
  by (cases f; simp)+

function strip_blocks :: "fence \<Rightarrow> string \<Rightarrow> string" where
  "strip_blocks f result =
     (case findString result (fence_text f) of
        None \<Rightarrow> result
      | Some start \<Rightarrow>
          let n = length (fence_text f)
          in (case findString (drop (start + n) result) ''```'' of
                None \<Rightarrow> take start result @ drop (start + n) result
              | Some finish \<Rightarrow>
                  let content = take finish (drop (start + n) result)
                  in strip_blocks f (take start result @ content @ drop (start + n + finish + 3) result)))"
  by pat_completeness auto

termination
proof (relation "measure (\<lambda>(f, result). length result)")
  fix f result start n finish content
  assume a: "findString result (fence_text f) = Some start" "n = length (fence_text f)"
    "findString (drop (start + n) result) ''```'' = Some finish" "content = take finish (drop (start + n) result)"
  have "start + n \<le> length result" using findString_Some [OF a(1)] a(2) by simp
  moreover have "finish + 3 \<le> length (drop (start + n) result)" using findString_Some [OF a(3)] by simp
  ultimately show "((f, take start result @ content @ drop (start + n + finish + 3) result), f, result)
      \<in> measure (\<lambda>(f, result). length result)"
    using a(2,4) by simp
qed simp

declare strip_blocks.simps [simp del]

definition removeMarkdownCodeBlocks :: "string \<Rightarrow> string" where
  "removeMarkdownCodeBlocks text = strip_blocks Plain_Fence (strip_blocks Json_Fence text)"

text \<open>The bounds of the first object, by the depth of its braces; \<open>None\<close> is -1.\<close>

fun object_bounds :: "string \<Rightarrow> nat \<Rightarrow> nat option \<Rightarrow> int \<Rightarrow> (nat \<times> nat) option" where
  "object_bounds [] i start depth = None"
| "object_bounds (char # cs) i start depth =
     (if char = CHR ''{'' then
        object_bounds cs (i + 1) (if start = None then Some i else start) (depth + 1)
      else if char = CHR ''}'' then
        (let depth = depth - 1
         in case start of
              Some st \<Rightarrow> if depth = 0 then Some (st, i + 1) else object_bounds cs (i + 1) start depth
            | None \<Rightarrow> object_bounds cs (i + 1) start depth)
      else object_bounds cs (i + 1) start depth)"

definition extractJSON :: "string \<Rightarrow> string" where
  "extractJSON response =
     (let response = removeMarkdownCodeBlocks response
      in case object_bounds response 0 None 0 of
           Some (start, finish) \<Rightarrow> take (finish - start) (drop start response)
         | None \<Rightarrow> response)"

section \<open>The graph of a response\<close>

record ExtractedEntity =
  xe_ID :: string
  xe_Type :: string
  xe_Name :: string
  xe_Description :: string
  xe_Properties :: "(string \<times> string) list"

record ExtractedRelation =
  xr_FromID :: string
  xr_ToID :: string
  xr_Relation :: string
  xr_Weight :: float64

record EntityGraph =
  eg_Entities :: "ExtractedEntity list"
  eg_Relations :: "ExtractedRelation list"

fun validate_entities :: "ExtractedEntity list \<Rightarrow> string set \<Rightarrow> string set go" where
  "validate_entities [] entityIDs = Inr entityIDs"
| "validate_entities (e # es) entityIDs =
     (if xe_ID e = [] then Inl (Fail ''entity missing ID'')
      else if xe_ID e \<in> entityIDs then Inl (Fail ''duplicate entity ID: %s'')
      else validate_entities es (insert (xe_ID e) entityIDs))"

fun validate_relations :: "ExtractedRelation list \<Rightarrow> string set \<Rightarrow> unit go" where
  "validate_relations [] entityIDs = Inr ()"
| "validate_relations (r # rs) entityIDs =
     (if xr_FromID r = [] \<or> xr_ToID r = [] then Inl (Fail ''relation missing from_id or to_id'')
      else if xr_FromID r \<notin> entityIDs then Inl (Fail ''relation references non-existent entity: %s'')
      else if xr_ToID r \<notin> entityIDs then Inl (Fail ''relation references non-existent entity: %s'')
      else if xr_Relation r = [] then Inl (Fail ''relation missing relation type'')
      else validate_relations rs entityIDs)"

definition validateGraph :: "EntityGraph \<Rightarrow> unit go" where
  "validateGraph graph =
     rbind (validate_entities (eg_Entities graph) {}) (\<lambda>entityIDs. validate_relations (eg_Relations graph) entityIDs)"

definition parseResponse :: "(string \<Rightarrow> EntityGraph option) \<Rightarrow> string \<Rightarrow> EntityGraph go" where
  "parseResponse unmarshal response =
     (case unmarshal (extractJSON response) of
        None \<Rightarrow> Inl (Fail ''failed to parse JSON: %w'')
      | Some graph \<Rightarrow>
          (case rwrap ''graph validation failed'' (validateGraph graph) of
             Inl e \<Rightarrow> Inl e
           | Inr _ \<Rightarrow> Inr graph))"

section \<open>Extraction\<close>

text \<open>A backend: its method on a state. The default of the prompt is a long literal, a parameter here.\<close>

type_synonym 's backend = "string \<Rightarrow> 's \<Rightarrow> 's \<times> string go"

record 's Extractor_Config =
  xc_Backend :: "'s backend"
  xc_MaxRetries :: int
  xc_RetryDelay :: int
  xc_Schema :: string
  xc_ExtractionPrompt :: string

definition llm_DefaultConfig :: "string \<Rightarrow> 's backend \<Rightarrow> 's Extractor_Config" where
  "llm_DefaultConfig defaultExtractionPrompt backend =
     \<lparr>xc_Backend = backend, xc_MaxRetries = 3, xc_RetryDelay = 1000000000, xc_Schema = [],
      xc_ExtractionPrompt = defaultExtractionPrompt\<rparr>"

definition buildPrompt :: "string \<Rightarrow> 's Extractor_Config \<Rightarrow> string \<Rightarrow> string" where
  "buildPrompt defaultExtractionPrompt e text =
     (if xc_ExtractionPrompt e \<noteq> [] then xc_ExtractionPrompt e @ ''\<newline>\<newline>Text:\<newline>'' @ text
      else defaultExtractionPrompt @ ''\<newline>\<newline>Text:\<newline>'' @ text)"

text \<open>A placeholder in the source: every schema accepts every graph.\<close>

definition validateSchema :: "'s Extractor_Config \<Rightarrow> EntityGraph \<Rightarrow> unit go" where
  "validateSchema e graph = (if xc_Schema e = [] then Inr () else Inr ())"

text \<open>The attempts of a prompt, from number \<open>attempt\<close> on.\<close>

function extract_loop ::
  "(string \<Rightarrow> EntityGraph option) \<Rightarrow> 's Extractor_Config \<Rightarrow> string \<Rightarrow> int \<Rightarrow> 's \<Rightarrow> 's \<times> EntityGraph go" where
  "extract_loop unmarshal e prompt attempt s =
     (if attempt \<le> xc_MaxRetries e then
        (case xc_Backend e prompt s of
           (s, Inl genErr) \<Rightarrow> (s, rwrap ''LLM generation failed'' (Inl genErr))
         | (s, Inr response) \<Rightarrow>
             (case parseResponse unmarshal response of
                Inr graph \<Rightarrow>
                  if xc_Schema e \<noteq> [] \<and> validateSchema e graph \<noteq> Inr ()
                  then extract_loop unmarshal e prompt (attempt + 1) s
                  else (s, Inr graph)
              | Inl err \<Rightarrow>
                  if attempt = xc_MaxRetries e then (s, rwrap ''failed after %d attempts'' (Inl err))
                  else extract_loop unmarshal e prompt (attempt + 1) s))
      else (s, Inl (Fail ''unexpected error in retry loop'')))"
  by pat_completeness auto
termination by (relation "measure (\<lambda>(_, e, _, attempt, _). nat (xc_MaxRetries e + 1 - attempt))") auto

declare extract_loop.simps [simp del]

definition Extract ::
  "string \<Rightarrow> (string \<Rightarrow> EntityGraph option) \<Rightarrow> 's Extractor_Config \<Rightarrow> string \<Rightarrow> 's \<Rightarrow> 's \<times> EntityGraph go" where
  "Extract defaultExtractionPrompt unmarshal e text s =
     extract_loop unmarshal e (buildPrompt defaultExtractionPrompt e text) 0 s"


section \<open>What is found in a response\<close>

lemma strip_plain:
  "strip_blocks Plain_Fence result =
     (case findString result ''```'' of
        None \<Rightarrow> result
      | Some start \<Rightarrow>
          (case findString (drop (start + 3) result) ''```'' of
             None \<Rightarrow> take start result @ drop (start + 3) result
           | Some finish \<Rightarrow> strip_blocks Plain_Fence
               (take start result @ take finish (drop (start + 3) result) @ drop (start + 3 + finish + 3) result)))"
proof -
  have len: "length ''```'' = 3" by simp
  show ?thesis by (subst strip_blocks.simps) (simp only: fence_text.simps Let_def len)
qed

lemma no_fence_left: "\<not> sublist ''```'' (strip_blocks Plain_Fence result)"
proof (induction result rule: measure_induct_rule [of length])
  case (less result)
  show ?case
  proof (cases "findString result ''```''")
    case None
    then have "strip_blocks Plain_Fence result = result" by (simp add: strip_plain [of result])
    with None show ?thesis using findString_None [of result "''```''"] by simp
  next
    case (Some start)
    show ?thesis
    proof (cases "findString (drop (start + 3) result) ''```''")
      case None
      have at_start: "prefix ''```'' (drop start result)" and le: "start + 3 \<le> length result"
        using findString_Some [OF Some] by simp_all
      have "\<not> sublist ''```'' (take start result @ drop (start + 3) result)"
      proof
        assume "sublist ''```'' (take start result @ drop (start + 3) result)"
        then consider (in_before) "sublist ''```'' (take start result)" | (in_after) "sublist ''```'' (drop (start + 3) result)"
          | (across) xs ys where "''```'' = xs @ ys" "suffix xs (take start result)" "prefix ys (drop (start + 3) result)"
          by (auto simp: sublist_append)
        then show False
        proof cases
          case in_before
          then obtain us vs where uv: "take start result = us @ ''```'' @ vs" by (auto simp: sublist_def)
          then have "length (take start result) = length (us @ ''```'' @ vs)" by (rule arg_cong)
          with le have "length us + 3 \<le> start" by simp
          moreover have "prefix ''```'' (drop (length us) result)"
          proof -
            have "result = take start result @ drop start result" by simp
            then have "drop (length us) result = ''```'' @ vs @ drop start result"
              using uv by (metis append.assoc append_eq_conv_conj)
            then show ?thesis by simp
          qed
          ultimately show False using findString_before [OF Some, of "length us"] by simp
        next
          case in_after
          with None show False by (simp add: findString_None)
        next
          case across
          show False
          proof (cases xs rule: rev_cases)
            case Nil
            with across have "prefix ''```'' (drop (start + 3) result)" by simp
            with None show False by (simp add: findString_None prefix_imp_sublist)
          next
            case (snoc xs' c)
            with across(1) have "c = CHR ''`''" by (cases xs') (auto simp: Cons_eq_append_conv append_eq_Cons_conv)
            with snoc across(2) obtain us where us: "take start result = us @ ''`''" by (auto simp: suffix_def)
            then have "length (take start result) = length (us @ ''`'')" by (rule arg_cong)
            with le have len: "length us + 1 = start" by simp
            have "result = us @ ''`'' @ drop start result" using us by (metis append.assoc append_take_drop_id)
            then have "drop (length us) result = ''`'' @ drop start result" by (metis append_eq_conv_conj)
            with at_start have "prefix ''```'' (drop (length us) result)" by (auto simp: prefix_def)
            with findString_before [OF Some, of "length us"] len show False by simp
          qed
        qed
      qed
      moreover have "strip_blocks Plain_Fence result = take start result @ drop (start + 3) result"
        by (simp only: strip_plain [of result] Some None option.case)
      ultimately show ?thesis by simp
    next
      case (Some finish)
      let ?next = "take start result @ take finish (drop (start + 3) result) @ drop (start + 3 + finish + 3) result"
      have "start + 3 \<le> length result" "finish + 3 \<le> length (drop (start + 3) result)"
        using findString_Some [OF \<open>findString result ''```'' = Some start\<close>] findString_Some [OF Some] by simp_all
      then have "length ?next < length result" by simp
      moreover have "strip_blocks Plain_Fence result = strip_blocks Plain_Fence ?next"
        by (simp only: strip_plain [of result] Some \<open>findString result ''```'' = Some start\<close> option.case)
      ultimately show ?thesis using less by simp
    qed
  qed
qed

lemma removeMarkdown_clean: "\<not> sublist ''```'' (removeMarkdownCodeBlocks text)"
  by (simp add: removeMarkdownCodeBlocks_def no_fence_left)

text \<open>Braces that close for the first time at the end, from depth \<open>d\<close>.\<close>

fun closes :: "string \<Rightarrow> int \<Rightarrow> bool" where
  "closes [] d \<longleftrightarrow> False"
| "closes (c # cs) d \<longleftrightarrow>
     (if c = CHR ''{'' then closes cs (d + 1)
      else if c = CHR ''}'' then (if d = 1 then cs = [] else closes cs (d - 1))
      else closes cs d)"

definition one_object :: "string \<Rightarrow> bool" where
  "one_object obj \<longleftrightarrow> (\<exists>rest. obj = CHR ''{'' # rest \<and> closes rest 1)"

lemma object_bounds_closes:
  "closes rest d \<Longrightarrow> object_bounds (rest @ post) i (Some st) d = Some (st, i + length rest)"
  by (induction rest d arbitrary: i rule: closes.induct) (auto split: if_splits)

lemma object_bounds_skip:
  "CHR ''{'' \<notin> set pre \<Longrightarrow> CHR ''}'' \<notin> set pre \<Longrightarrow> object_bounds (pre @ cs) i None d = object_bounds cs (i + length pre) None d"
  by (induction pre arbitrary: i) auto

lemma extractJSON_object:
  assumes "removeMarkdownCodeBlocks response = pre @ obj @ post" and "one_object obj"
    and "CHR ''{'' \<notin> set pre" and "CHR ''}'' \<notin> set pre"
  shows "extractJSON response = obj"
proof -
  obtain rest where obj: "obj = CHR ''{'' # rest" "closes rest 1" using assms(2) by (auto simp: one_object_def)
  have "object_bounds (removeMarkdownCodeBlocks response) 0 None 0 = Some (length pre, length pre + length obj)"
    using assms(1,3,4) obj by (simp add: object_bounds_skip object_bounds_closes)
  with assms(1) show ?thesis by (simp add: extractJSON_def)
qed

lemma findString_absent: "CHR ''`'' \<notin> set s \<Longrightarrow> substr \<noteq> [] \<Longrightarrow> hd substr = CHR ''`'' \<Longrightarrow> findString s substr = None"
  by (auto simp: findString_None sublist_def neq_Nil_conv)

lemma findString_first:
  "CHR ''`'' \<notin> set pre \<Longrightarrow> substr \<noteq> [] \<Longrightarrow> hd substr = CHR ''`'' \<Longrightarrow> findString (pre @ substr @ post) substr = Some (length pre)"
proof (induction pre)
  case Nil
  then show ?case by (simp add: findString.simps [of "substr @ post"])
next
  case (Cons c cs)
  then have "\<not> prefix substr ((c # cs) @ substr @ post)" by (cases substr) auto
  with Cons show ?case by (simp add: findString.simps [of "c # cs @ substr @ post"])
qed

lemma strip_unfenced: "CHR ''`'' \<notin> set s \<Longrightarrow> strip_blocks f s = s"
  by (cases f) (simp_all add: strip_blocks.simps [of _ s] findString_absent)

text \<open>A block is replaced by its content, with or without the name of the language.\<close>

lemma strip_fenced:
  assumes "CHR ''`'' \<notin> set (pre @ body @ post)"
  shows "removeMarkdownCodeBlocks (pre @ ''```json'' @ body @ ''```'' @ post) = pre @ body @ post"
proof -
  have "findString (pre @ ''```json'' @ body @ ''```'' @ post) ''```json'' = Some (length pre)"
    using findString_first [of pre "''```json''" "body @ ''```'' @ post"] assms by simp
  moreover have "findString (body @ ''```'' @ post) ''```'' = Some (length body)"
    using findString_first [of body "''```''" post] assms by simp
  ultimately have "strip_blocks Json_Fence (pre @ ''```json'' @ body @ ''```'' @ post) = strip_blocks Json_Fence (pre @ body @ post)"
    by (subst strip_blocks.simps) (simp add: Let_def numeral_eq_Suc)
  with assms show ?thesis by (simp add: removeMarkdownCodeBlocks_def strip_unfenced)
qed

section \<open>What an accepted graph satisfies\<close>

definition graph_ok :: "EntityGraph \<Rightarrow> bool" where
  "graph_ok g \<longleftrightarrow>
     (let ids = map xe_ID (eg_Entities g)
      in distinct ids \<and> [] \<notin> set ids \<and>
         (\<forall>r\<in>set (eg_Relations g). xr_FromID r \<in> set ids \<and> xr_ToID r \<in> set ids \<and> xr_Relation r \<noteq> []))"

lemma validate_entities_ok:
  "validate_entities es seen = Inr ids \<longleftrightarrow>
     ids = seen \<union> xe_ID ` set es \<and> distinct (map xe_ID es) \<and> [] \<notin> xe_ID ` set es \<and> xe_ID ` set es \<inter> seen = {}"
  by (induction es arbitrary: seen) auto

lemma validate_relations_ok:
  "validate_relations rs ids = Inr () \<longleftrightarrow>
     (\<forall>r\<in>set rs. xr_FromID r \<noteq> [] \<and> xr_ToID r \<noteq> [] \<and> xr_FromID r \<in> ids \<and> xr_ToID r \<in> ids \<and> xr_Relation r \<noteq> [])"
  by (induction rs) auto

lemma validateGraph_ok: "validateGraph g = Inr () \<longleftrightarrow> graph_ok g"
  by (auto simp: validateGraph_def rbind_eq_Inr validate_entities_ok validate_relations_ok graph_ok_def) metis+

lemma parseResponse_ok:
  "parseResponse unmarshal response = Inr g \<longleftrightarrow> unmarshal (extractJSON response) = Some g \<and> graph_ok g"
  by (cases "unmarshal (extractJSON response)"; cases "validateGraph (the (unmarshal (extractJSON response)))")
     (auto simp: parseResponse_def rwrap_def simp flip: validateGraph_ok split: go_error.splits)

section \<open>The attempts\<close>

text \<open>The state after some calls of the backend with the same prompt, and its next answer.\<close>

primrec after_calls :: "'s backend \<Rightarrow> string \<Rightarrow> nat \<Rightarrow> 's \<Rightarrow> 's" where
  "after_calls gen prompt 0 s = s"
| "after_calls gen prompt (Suc n) s = after_calls gen prompt n (fst (gen prompt s))"

definition reply :: "'s backend \<Rightarrow> string \<Rightarrow> nat \<Rightarrow> 's \<Rightarrow> string go" where
  "reply gen prompt n s = snd (gen prompt (after_calls gen prompt n s))"

lemma reply_Suc: "reply gen prompt (Suc n) s = reply gen prompt n (fst (gen prompt s))"
  by (simp add: reply_def)

lemma extract_loop_attempts:
  assumes "attempt \<le> xc_MaxRetries e"
  shows "\<exists>n. attempt + int n \<le> xc_MaxRetries e \<and>
    (\<forall>m<n. \<exists>t err. reply (xc_Backend e) prompt m s = Inr t \<and> parseResponse unmarshal t = Inl err) \<and>
    extract_loop unmarshal e prompt attempt s =
      (after_calls (xc_Backend e) prompt (Suc n) s,
       case reply (xc_Backend e) prompt n s of
         Inl genErr \<Rightarrow> rwrap ''LLM generation failed'' (Inl genErr)
       | Inr t \<Rightarrow> (case parseResponse unmarshal t of
           Inr g \<Rightarrow> Inr g | Inl err \<Rightarrow> rwrap ''failed after %d attempts'' (Inl err))) \<and>
    (\<forall>t err. reply (xc_Backend e) prompt n s = Inr t \<longrightarrow> parseResponse unmarshal t = Inl err \<longrightarrow> attempt + int n = xc_MaxRetries e)"
  using assms
proof (induction "nat (xc_MaxRetries e - attempt)" arbitrary: attempt s)
  case 0
  then have last: "attempt = xc_MaxRetries e" by simp
  show ?case
    by (rule exI [of _ 0])
       (simp add: last extract_loop.simps [of unmarshal e prompt] reply_def validateSchema_def split: prod.splits sum.splits)
next
  case (Suc k)
  obtain s' r where g: "xc_Backend e prompt s = (s', r)" by fastforce
  show ?case
  proof (cases "\<exists>t err. r = Inr t \<and> parseResponse unmarshal t = Inl err")
    case True
    then obtain t err where r: "r = Inr t" "parseResponse unmarshal t = Inl err" by blast
    from Suc have less: "attempt \<le> xc_MaxRetries e" "attempt \<noteq> xc_MaxRetries e" by auto
    have step: "extract_loop unmarshal e prompt attempt s = extract_loop unmarshal e prompt (attempt + 1) s'"
      using less g r by (simp add: extract_loop.simps [of unmarshal e prompt attempt s])
    have "k = nat (xc_MaxRetries e - (attempt + 1))" "attempt + 1 \<le> xc_MaxRetries e" using Suc.hyps(2) less by auto
    from Suc.hyps(1) [OF this, of s'] obtain n where n: "attempt + 1 + int n \<le> xc_MaxRetries e"
      and early: "\<forall>m<n. \<exists>t err. reply (xc_Backend e) prompt m s' = Inr t \<and> parseResponse unmarshal t = Inl err"
      and res: "extract_loop unmarshal e prompt (attempt + 1) s' = (after_calls (xc_Backend e) prompt (Suc n) s',
       case reply (xc_Backend e) prompt n s' of
         Inl genErr \<Rightarrow> rwrap ''LLM generation failed'' (Inl genErr)
       | Inr t \<Rightarrow> (case parseResponse unmarshal t of
           Inr g \<Rightarrow> Inr g | Inl err \<Rightarrow> rwrap ''failed after %d attempts'' (Inl err)))"
      and lst: "\<forall>t err. reply (xc_Backend e) prompt n s' = Inr t \<longrightarrow> parseResponse unmarshal t = Inl err \<longrightarrow>
        attempt + 1 + int n = xc_MaxRetries e"
      by blast
    have s': "fst (xc_Backend e prompt s) = s'" by (simp add: g)
    have "\<forall>m<Suc n. \<exists>t err. reply (xc_Backend e) prompt m s = Inr t \<and> parseResponse unmarshal t = Inl err"
      using early r by (simp add: All_less_Suc2 reply_Suc s') (simp add: reply_def g)
    then show ?thesis
      using n res lst by (intro exI [of _ "Suc n"]) (simp add: step reply_Suc s' algebra_simps)
  next
    case False
    then show ?thesis
      using Suc.prems g
      by (intro exI [of _ 0])
         (auto simp: extract_loop.simps [of unmarshal e prompt attempt s] reply_def validateSchema_def split: sum.splits)
  qed
qed

section \<open>Backends\<close>

text \<open>
  A request to a model: its address, the headers set and the JSON value of its body (an object by its
  fields). The HTTP client answers with a status and a body, or an error; the addresses it accepts and the
  decoders are parameters.
\<close>

datatype json = J_String string | J_Bool bool | J_Zero | J_Array "json list" | J_Object "(string \<times> json) list"

record api_request =
  ap_URL :: string
  ap_Headers :: "(string \<times> string) list"
  ap_Body :: json

record 's http_client =
  hc_valid_url :: "string \<Rightarrow> bool"
  hc_Timeout :: int
  hc_Do :: "int \<Rightarrow> api_request \<Rightarrow> 's \<Rightarrow> 's \<times> (nat \<times> bytes) go"

definition post_request :: "'s http_client \<Rightarrow> api_request \<Rightarrow> 's \<Rightarrow> 's \<times> bytes go" where
  "post_request client req s =
     (if \<not> hc_valid_url client (ap_URL req) then (s, Inl (Fail ''failed to create request''))
      else case hc_Do client (hc_Timeout client) req s of
        (s, Inl err) \<Rightarrow> (s, rwrap ''request failed'' (Inl err))
      | (s, Inr (StatusCode, body)) \<Rightarrow>
          if StatusCode \<noteq> 200 then (s, Inl (Fail ''API error (status %d): %s'')) else (s, Inr body))"

definition decode_body :: "(bytes \<Rightarrow> 'a option) \<Rightarrow> bytes \<Rightarrow> 'a go" where
  "decode_body decode body =
     (case decode body of None \<Rightarrow> Inl (Fail ''failed to decode response'') | Some r \<Rightarrow> Inr r)"

abbreviation "millisecond \<equiv> (1000000 :: int)"
abbreviation "second \<equiv> (1000000000 :: int)"

record 's OpenAIBackend =
  ob_APIKey :: string
  ob_BaseURL :: string
  ob_Model :: string
  ob_Client :: "'s http_client"

definition NewOpenAIBackend :: "'s http_client \<Rightarrow> string \<Rightarrow> string \<Rightarrow> string \<Rightarrow> 's OpenAIBackend" where
  "NewOpenAIBackend http APIKey BaseURL Model =
     \<lparr>ob_APIKey = APIKey, ob_BaseURL = (if BaseURL = [] then ''https://api.openai.com/v1'' else BaseURL),
      ob_Model = (if Model = [] then ''gpt-3.5-turbo'' else Model), ob_Client = http\<lparr>hc_Timeout := 30 * second\<rparr>\<rparr>"

definition OpenAI_Generate :: "(bytes \<Rightarrow> string list option) \<Rightarrow> 's OpenAIBackend \<Rightarrow> 's backend" where
  "OpenAI_Generate choices b prompt s =
     (case post_request (ob_Client b)
             \<lparr>ap_URL = ob_BaseURL b @ ''/chat/completions'',
              ap_Headers = [(''Content-Type'', ''application/json''), (''Authorization'', ''Bearer '' @ ob_APIKey b)],
              ap_Body = J_Object [(''model'', J_String (ob_Model b)),
                (''messages'', J_Array [J_Object [(''role'', J_String ''user''), (''content'', J_String prompt)]]),
                (''temperature'', J_Zero),
                (''response_format'', J_Object [(''type'', J_String ''json_object'')])]\<rparr> s of
        (s, r) \<Rightarrow> (s, rbind r (\<lambda>body. rbind (decode_body choices body) (\<lambda>Choices.
          if length Choices = 0 then Inl (Fail ''no choices in response'') else Inr (Choices ! 0)))))"

record 's OllamaBackend =
  lb_BaseURL :: string
  lb_Model :: string
  lb_Client :: "'s http_client"

definition NewOllamaBackend :: "'s http_client \<Rightarrow> string \<Rightarrow> string \<Rightarrow> 's OllamaBackend" where
  "NewOllamaBackend http BaseURL Model =
     \<lparr>lb_BaseURL = (if BaseURL = [] then ''http://localhost:11434'' else BaseURL),
      lb_Model = (if Model = [] then ''llama2'' else Model), lb_Client = http\<lparr>hc_Timeout := 60 * second\<rparr>\<rparr>"

definition Ollama_Generate :: "(bytes \<Rightarrow> string option) \<Rightarrow> 's OllamaBackend \<Rightarrow> 's backend" where
  "Ollama_Generate response b prompt s =
     (case post_request (lb_Client b)
             \<lparr>ap_URL = lb_BaseURL b @ ''/api/generate'', ap_Headers = [(''Content-Type'', ''application/json'')],
              ap_Body = J_Object [(''model'', J_String (lb_Model b)), (''prompt'', J_String prompt),
                (''stream'', J_Bool False), (''format'', J_String ''json'')]\<rparr> s of
        (s, r) \<Rightarrow> (s, rbind r (decode_body response)))"

record 's LocalLLMBackend =
  cb_BaseURL :: string
  cb_Client :: "'s http_client"

definition NewLocalLLMBackend :: "'s http_client \<Rightarrow> string \<Rightarrow> 's LocalLLMBackend" where
  "NewLocalLLMBackend http BaseURL =
     \<lparr>cb_BaseURL = (if BaseURL = [] then ''http://localhost:8080'' else BaseURL),
      cb_Client = http\<lparr>hc_Timeout := 60 * second\<rparr>\<rparr>"

definition Local_Generate :: "(bytes \<Rightarrow> string option) \<Rightarrow> 's LocalLLMBackend \<Rightarrow> 's backend" where
  "Local_Generate response b prompt s =
     (case post_request (cb_Client b)
             \<lparr>ap_URL = cb_BaseURL b @ ''/generate'', ap_Headers = [(''Content-Type'', ''application/json'')],
              ap_Body = J_Object [(''prompt'', J_String prompt)]\<rparr> s of
        (s, r) \<Rightarrow> (s, rbind r (decode_body response)))"

record MockBackend =
  mk_Responses :: "string list"
  mk_Index :: nat

definition NewMockBackend :: MockBackend where
  "NewMockBackend = \<lparr>mk_Responses = [], mk_Index = 0\<rparr>"

definition AddResponse :: "string \<Rightarrow> MockBackend \<Rightarrow> MockBackend" where
  "AddResponse response b = b\<lparr>mk_Responses := mk_Responses b @ [response]\<rparr>"

definition Mock_Generate :: "MockBackend backend" where
  "Mock_Generate prompt b =
     (if mk_Index b \<ge> length (mk_Responses b) then (b, Inl (Fail ''no more mock responses''))
      else (b\<lparr>mk_Index := mk_Index b + 1\<rparr>, Inr (mk_Responses b ! mk_Index b)))"

section \<open>Properties\<close>

text \<open>C38. An extraction asks the model at most once more than its retries. It stops at the first generation that fails, which it does not
  retry, or at the first response that holds a graph whose ids are distinct and not empty and whose
  relations name its entities; that graph is the result. When every response is malformed, the error of the last one is.\<close>

theorem extract_answers:
  assumes "0 \<le> xc_MaxRetries e" and "p = buildPrompt dflt e text"
  shows "\<exists>n. int n \<le> xc_MaxRetries e \<and>
    (\<forall>m<n. \<exists>t err. reply (xc_Backend e) p m s = Inr t \<and> parseResponse unmarshal t = Inl err) \<and>
    fst (Extract dflt unmarshal e text s) = after_calls (xc_Backend e) p (Suc n) s \<and>
    (case reply (xc_Backend e) p n s of
       Inl genErr \<Rightarrow> snd (Extract dflt unmarshal e text s) = rwrap ''LLM generation failed'' (Inl genErr)
     | Inr t \<Rightarrow> (case parseResponse unmarshal t of
         Inr g \<Rightarrow> snd (Extract dflt unmarshal e text s) = Inr g \<and> graph_ok g \<and> unmarshal (extractJSON t) = Some g
       | Inl err \<Rightarrow> int n = xc_MaxRetries e \<and>
           snd (Extract dflt unmarshal e text s) = rwrap ''failed after %d attempts'' (Inl err)))"
proof -
  obtain n where n: "0 + int n \<le> xc_MaxRetries e"
    and early: "\<forall>m<n. \<exists>t err. reply (xc_Backend e) p m s = Inr t \<and> parseResponse unmarshal t = Inl err"
    and res: "extract_loop unmarshal e p 0 s = (after_calls (xc_Backend e) p (Suc n) s,
       case reply (xc_Backend e) p n s of
         Inl genErr \<Rightarrow> rwrap ''LLM generation failed'' (Inl genErr)
       | Inr t \<Rightarrow> (case parseResponse unmarshal t of
           Inr g \<Rightarrow> Inr g | Inl err \<Rightarrow> rwrap ''failed after %d attempts'' (Inl err)))"
    and lst: "\<forall>t err. reply (xc_Backend e) p n s = Inr t \<longrightarrow> parseResponse unmarshal t = Inl err \<longrightarrow> 0 + int n = xc_MaxRetries e"
    using extract_loop_attempts [OF assms(1), of p s unmarshal] by blast
  show ?thesis
    using n early res lst assms(2)
    by (intro exI [of _ n]) (auto simp: Extract_def dest: parseResponse_ok [THEN iffD1] simp del: after_calls.simps split: sum.splits)
qed

definition sample_graph :: EntityGraph where
  "sample_graph = \<lparr>eg_Entities = [\<lparr>xe_ID = ''a'', xe_Type = ''person'', xe_Name = ''Ann'', xe_Description = [], xe_Properties = []\<rparr>],
     eg_Relations = []\<rparr>"

definition sample_extractor :: "MockBackend Extractor_Config" where
  "sample_extractor = llm_DefaultConfig ''Extract entities'' Mock_Generate"

definition sample_replies :: MockBackend where
  "sample_replies = AddResponse ''{}'' (AddResponse ''no'' NewMockBackend)"

lemma extract_answers_witness:
  "snd (Extract ''Extract'' (\<lambda>t. if t = ''{}'' then Some sample_graph else None) sample_extractor ''Ann'' sample_replies)
     = Inr sample_graph \<and> graph_ok sample_graph"
proof -
  let ?u = "\<lambda>t. if t = ''{}'' then Some sample_graph else None"
  let ?p = "buildPrompt ''Extract'' sample_extractor ''Ann''"
  have j: "extractJSON ''no'' = ''no''" "extractJSON ''{}'' = ''{}''"
    by (simp_all add: extractJSON_def removeMarkdownCodeBlocks_def strip_unfenced)
  have ok: "graph_ok sample_graph" by (simp add: graph_ok_def sample_graph_def)
  have mr: "xc_MaxRetries sample_extractor = 3" "xc_Backend sample_extractor = Mock_Generate"
    by (simp_all add: sample_extractor_def llm_DefaultConfig_def)
  have mr0: "0 \<le> xc_MaxRetries sample_extractor" by (simp add: mr)
  have r: "reply Mock_Generate ?p 0 sample_replies = Inr ''no''" "reply Mock_Generate ?p 1 sample_replies = Inr ''{}''"
    by (simp_all add: reply_def Mock_Generate_def sample_replies_def AddResponse_def NewMockBackend_def)
  have p: "\<exists>e. parseResponse ?u ''no'' = Inl e" "parseResponse ?u ''{}'' = Inr sample_graph"
    using ok by (simp_all add: parseResponse_ok j) (simp add: parseResponse_def j)
  obtain n where n: "int n \<le> 3"
    and early: "\<forall>m<n. \<exists>t err. reply Mock_Generate ?p m sample_replies = Inr t \<and> parseResponse ?u t = Inl err"
    and res: "case reply Mock_Generate ?p n sample_replies of
       Inl genErr \<Rightarrow> snd (Extract ''Extract'' ?u sample_extractor ''Ann'' sample_replies) = rwrap ''LLM generation failed'' (Inl genErr)
     | Inr t \<Rightarrow> (case parseResponse ?u t of
         Inr g \<Rightarrow> snd (Extract ''Extract'' ?u sample_extractor ''Ann'' sample_replies) = Inr g \<and> graph_ok g \<and> ?u (extractJSON t) = Some g
       | Inl err \<Rightarrow> int n = 3 \<and>
           snd (Extract ''Extract'' ?u sample_extractor ''Ann'' sample_replies) = rwrap ''failed after %d attempts'' (Inl err))"
    using extract_answers [OF mr0 refl, of "''Extract''" "''Ann''" sample_replies ?u, unfolded mr]
    by (elim exE conjE) (rule that)
  have "n = 1"
  proof (rule antisym)
    show "n \<le> 1"
    proof (rule ccontr)
      assume "\<not> n \<le> 1"
      then show False using early [rule_format, of 1] r p by auto
    qed
    show "1 \<le> n" using res r p by (cases n) auto
  qed
  then show ?thesis using res r p by simp
qed

text \<open>The object of a fenced response is found, whatever stands around it, as long as no brace precedes it.\<close>

lemma fenced_object:
  assumes "CHR ''`'' \<notin> set (pre @ obj @ post)" and "one_object obj" and "CHR ''{'' \<notin> set pre" and "CHR ''}'' \<notin> set pre"
  shows "extractJSON (pre @ ''```json'' @ obj @ ''```'' @ post) = obj"
  using extractJSON_object [OF strip_fenced [OF assms(1)] assms(2-4)] .

text \<open>Braces inside string values count: an object is cut at one, and braces of a preceding text hide it.\<close>

lemma brace_in_value: "extractJSON ''{a:}}'' = ''{a:}''"
  by (simp add: extractJSON_def removeMarkdownCodeBlocks_def strip_unfenced)

lemma brace_before: "extractJSON ''} {a}'' = ''} {a}''"
  by (simp add: extractJSON_def removeMarkdownCodeBlocks_def strip_unfenced)

end
