(* ===== verification/Ai_Providers.thy ===== *)
theory Ai_Providers
  imports Llm_Extractor Config_Fields
begin

text \<open>
  Secrets (\<^verbatim>\<open>src/core/security/secrets/provider.go\<close>), embedders and the factory of AI providers
  (\<^verbatim>\<open>src/core/ai\<close>), and what \<^verbatim>\<open>src/cmd/allidbd/main.go\<close> starts of them. The environment is a function from names to
  values, empty where a variable is not set. The numbers of a response are taken as the decoder of the standard library
  gives them.
\<close>

section \<open>Secrets\<close>

record EnvProvider =
  ep_cache :: "(string \<times> string) list"
  ep_required :: "string list"

definition isSupportedSecret :: "string \<Rightarrow> bool" where
  "isSupportedSecret name \<longleftrightarrow> name \<in> {''OPENAI_API_KEY'', ''AZURE_OPENAI_KEY'', ''CUSTOM_AI_KEY''}"

fun require_all :: "string list \<Rightarrow> string list \<Rightarrow> string list go" where
  "require_all [] required = Inr required"
| "require_all (name # names) required =
     (if \<not> isSupportedSecret name then Inl (Fail ''unsupported required secret name: %s'')
      else require_all names (List.insert name required))"

fun load_required :: "(string \<Rightarrow> string) \<Rightarrow> string list \<Rightarrow> EnvProvider \<Rightarrow> EnvProvider go" where
  "load_required env [] provider = Inr provider"
| "load_required env (name # names) provider =
     (let val = env name
      in if val = [] then Inl (Fail ''required secret %s is missing from environment'')
         else load_required env names (provider\<lparr>ep_cache := AList.update name val (ep_cache provider)\<rparr>))"

definition NewEnvProvider :: "(string \<Rightarrow> string) \<Rightarrow> string list \<Rightarrow> EnvProvider go" where
  "NewEnvProvider env requiredSecrets =
     rbind (require_all requiredSecrets []) (\<lambda>required.
     load_required env required \<lparr>ep_cache = [], ep_required = required\<rparr>)"

definition GetSecret :: "(string \<Rightarrow> string) \<Rightarrow> string \<Rightarrow> EnvProvider \<Rightarrow> EnvProvider \<times> string go" where
  "GetSecret env name p =
     (if \<not> isSupportedSecret name then (p, Inl (Fail ''unsupported secret name: %s''))
      else case map_of (ep_cache p) name of
        Some val \<Rightarrow> (p, Inr val)
      | None \<Rightarrow>
          (let val = env name; isRequired = (name \<in> set (ep_required p))
           in if val = [] then
                (if isRequired then (p, Inl (Fail ''required secret %s is missing from environment''))
                 else (p, Inl (Fail ''secret %s not found in environment'')))
              else (p\<lparr>ep_cache := AList.update name val (ep_cache p)\<rparr>, Inr val)))"

definition GetSecretName :: "string \<Rightarrow> string" where
  "GetSecretName secretType =
     (case map_of [(''openai'', ''OPENAI_API_KEY''), (''azure_openai'', ''AZURE_OPENAI_KEY''), (''custom_ai'', ''CUSTOM_AI_KEY'')]
        secretType of Some name \<Rightarrow> name | None \<Rightarrow> [])"

definition RedactSecret :: "string \<Rightarrow> string" where
  "RedactSecret secret =
     (if secret = [] then ''[EMPTY]''
      else if length secret \<le> 8 then ''[REDACTED]''
      else take 4 secret @ ''...'' @ drop (length secret - 4) secret)"

section \<open>Embedders\<close>

text \<open>
  The four embedders hold the same fields; the ones without a key leave it empty. Their configurations are
  the arguments of their constructors.
\<close>

record 's embedder =
  em_apiKey :: string
  em_baseURL :: string
  em_model :: string
  em_dim :: int
  em_client :: "'s http_client"

definition or_default :: "'a \<Rightarrow> 'a \<Rightarrow> 'a \<Rightarrow> 'a" where
  "or_default zero dflt x = (if x = zero then dflt else x)"

definition NewOpenAIEmbedder :: "'s http_client \<Rightarrow> string \<Rightarrow> string \<Rightarrow> int \<Rightarrow> int \<Rightarrow> 's embedder" where
  "NewOpenAIEmbedder http APIKey Model Dim Timeout =
     \<lparr>em_apiKey = APIKey, em_baseURL = ''https://api.openai.com/v1'', em_model = Model, em_dim = Dim,
      em_client = http\<lparr>hc_Timeout := or_default 0 (30 * second) Timeout\<rparr>\<rparr>"

definition NewOllamaEmbedder :: "'s http_client \<Rightarrow> string \<Rightarrow> string \<Rightarrow> int \<Rightarrow> int \<Rightarrow> 's embedder" where
  "NewOllamaEmbedder http BaseURL Model Dim Timeout =
     \<lparr>em_apiKey = [], em_baseURL = or_default [] ''http://localhost:11434'' BaseURL, em_model = Model, em_dim = Dim,
      em_client = http\<lparr>hc_Timeout := or_default 0 (60 * second) Timeout\<rparr>\<rparr>"

definition NewLocalEmbedder :: "'s http_client \<Rightarrow> string \<Rightarrow> string \<Rightarrow> int \<Rightarrow> int \<Rightarrow> 's embedder" where
  "NewLocalEmbedder http BaseURL Model Dim Timeout =
     \<lparr>em_apiKey = [], em_baseURL = or_default [] ''http://localhost:8080'' BaseURL, em_model = Model, em_dim = Dim,
      em_client = http\<lparr>hc_Timeout := or_default 0 (60 * second) Timeout\<rparr>\<rparr>"

definition NewCustomEmbedder :: "'s http_client \<Rightarrow> string \<Rightarrow> string \<Rightarrow> int \<Rightarrow> int \<Rightarrow> 's embedder" where
  "NewCustomEmbedder http APIKey Model Dim Timeout =
     \<lparr>em_apiKey = APIKey, em_baseURL = ''https://api.custom-ai.com/v1'', em_model = Model, em_dim = Dim,
      em_client = http\<lparr>hc_Timeout := or_default 0 (30 * second) Timeout\<rparr>\<rparr>"

text \<open>A vector in single precision.\<close>

definition to_float32 :: "fl list \<Rightarrow> fl list" where
  "to_float32 v = map (fl_conv F32) v"

definition OpenAI_Embed :: "(bytes \<Rightarrow> fl list list option) \<Rightarrow> 's embedder \<Rightarrow> string \<Rightarrow> 's \<Rightarrow> 's \<times> fl list go" where
  "OpenAI_Embed data e text s =
     (case post_request (em_client e)
             \<lparr>ap_URL = em_baseURL e @ ''/embeddings'',
              ap_Headers = [(''Content-Type'', ''application/json''), (''Authorization'', ''Bearer '' @ em_apiKey e)],
              ap_Body = J_Object [(''model'', J_String (em_model e)), (''input'', J_String text)]\<rparr> s of
        (s, r) \<Rightarrow> (s, rbind r (\<lambda>body. rbind (decode_body data body) (\<lambda>Data.
          if length Data = 0 then Inl (Fail ''no embeddings in response'') else Inr (to_float32 (Data ! 0))))))"

definition Ollama_Embed :: "(bytes \<Rightarrow> fl list option) \<Rightarrow> 's embedder \<Rightarrow> string \<Rightarrow> 's \<Rightarrow> 's \<times> fl list go" where
  "Ollama_Embed embedding e text s =
     (case post_request (em_client e)
             \<lparr>ap_URL = em_baseURL e @ ''/api/embeddings'', ap_Headers = [(''Content-Type'', ''application/json'')],
              ap_Body = J_Object [(''model'', J_String (em_model e)), (''prompt'', J_String text)]\<rparr> s of
        (s, r) \<Rightarrow> (s, rbind r (\<lambda>body. rbind (decode_body embedding body) (\<lambda>v. Inr (to_float32 v)))))"

definition Local_Embed :: "(bytes \<Rightarrow> fl list option) \<Rightarrow> 's embedder \<Rightarrow> string \<Rightarrow> 's \<Rightarrow> 's \<times> fl list go" where
  "Local_Embed embedding e text s =
     (case post_request (em_client e)
             \<lparr>ap_URL = em_baseURL e @ ''/embeddings'', ap_Headers = [(''Content-Type'', ''application/json'')],
              ap_Body = J_Object [(''model'', J_String (em_model e)), (''input'', J_String text)]\<rparr> s of
        (s, r) \<Rightarrow> (s, rbind r (\<lambda>body. rbind (decode_body embedding body) (\<lambda>v. Inr (to_float32 v)))))"

definition Custom_Embed :: "(bytes \<Rightarrow> fl list list option) \<Rightarrow> 's embedder \<Rightarrow> string \<Rightarrow> 's \<Rightarrow> 's \<times> fl list go" where
  "Custom_Embed data e text s =
     (case post_request (em_client e)
             \<lparr>ap_URL = em_baseURL e @ ''/embeddings'',
              ap_Headers = (''Content-Type'', ''application/json'') #
                (if em_apiKey e \<noteq> [] then [(''Authorization'', ''Bearer '' @ em_apiKey e)] else []),
              ap_Body = J_Object [(''model'', J_String (em_model e)), (''input'', J_String text)]\<rparr> s of
        (s, r) \<Rightarrow> (s, rbind r (\<lambda>body. rbind (decode_body data body) (\<lambda>Data.
          if length Data = 0 then Inl (Fail ''no embeddings in response'') else Inr (to_float32 (Data ! 0))))))"

definition Dimension :: "'s embedder \<Rightarrow> int" where
  "Dimension e = em_dim e"

section \<open>The factory\<close>

datatype 's Embedder = OpenAI_Embedder "'s embedder" | Ollama_Embedder "'s embedder" | Local_Embedder "'s embedder"
  | Custom_Embedder "'s embedder"

datatype 's llm_backend = OpenAI_LLM "'s OpenAIBackend" | Ollama_LLM "'s OllamaBackend" | Local_LLM "'s LocalLLMBackend"

record 's llmAdapter =
  la_backend :: "'s llm_backend"
  la_temperature :: fl

text \<open>The decoders of the responses of all models.\<close>

record response_decoder =
  rd_choices :: "bytes \<Rightarrow> string list option"
  rd_response :: "bytes \<Rightarrow> string option"
  rd_data :: "bytes \<Rightarrow> fl list list option"
  rd_embedding :: "bytes \<Rightarrow> fl list option"

fun Embed :: "response_decoder \<Rightarrow> 's Embedder \<Rightarrow> string \<Rightarrow> 's \<Rightarrow> 's \<times> fl list go" where
  "Embed rd (OpenAI_Embedder e) = OpenAI_Embed (rd_data rd) e"
| "Embed rd (Ollama_Embedder e) = Ollama_Embed (rd_embedding rd) e"
| "Embed rd (Local_Embedder e) = Local_Embed (rd_embedding rd) e"
| "Embed rd (Custom_Embedder e) = Custom_Embed (rd_data rd) e"

fun llm_Complete :: "response_decoder \<Rightarrow> 's llmAdapter \<Rightarrow> 's backend" where
  "llm_Complete rd a =
     (case la_backend a of
        OpenAI_LLM b \<Rightarrow> OpenAI_Generate (rd_choices rd) b
      | Ollama_LLM b \<Rightarrow> Ollama_Generate (rd_response rd) b
      | Local_LLM b \<Rightarrow> Local_Generate (rd_response rd) b)"

text \<open>
  A factory is its configuration and its provider of secrets, whose cache changes; the HTTP client of the
  process and the environment are arguments.
\<close>

record Factory =
  fa_config :: AIConfig
  fa_secretProvider :: EnvProvider

definition NewFactory :: "AIConfig \<Rightarrow> EnvProvider \<Rightarrow> Factory" where
  "NewFactory aiConfig secretProvider = \<lparr>fa_config = aiConfig, fa_secretProvider = secretProvider\<rparr>"

definition with_secret :: "(string \<Rightarrow> string) \<Rightarrow> string \<Rightarrow> string \<Rightarrow> (string \<Rightarrow> 'a) \<Rightarrow> Factory \<Rightarrow> Factory \<times> 'a go" where
  "with_secret env name msg mk f =
     (case GetSecret env name (fa_secretProvider f) of
        (p, r) \<Rightarrow> (f\<lparr>fa_secretProvider := p\<rparr>, rbind (rwrap msg r) (\<lambda>apiKey. Inr (mk apiKey))))"

definition createOpenAIEmbedder ::
  "(string \<Rightarrow> string) \<Rightarrow> 's http_client \<Rightarrow> string \<Rightarrow> int \<Rightarrow> int \<Rightarrow> Factory \<Rightarrow> Factory \<times> 's Embedder go" where
  "createOpenAIEmbedder env http model dims timeout =
     with_secret env ''OPENAI_API_KEY'' ''failed to get OpenAI API key''
       (\<lambda>apiKey. OpenAI_Embedder (NewOpenAIEmbedder http apiKey model dims timeout))"

definition createOllamaEmbedder :: "'s http_client \<Rightarrow> string \<Rightarrow> int \<Rightarrow> int \<Rightarrow> Factory \<Rightarrow> Factory \<times> 's Embedder go" where
  "createOllamaEmbedder http model dims timeout f =
     (f, Inr (Ollama_Embedder (NewOllamaEmbedder http ''http://localhost:11434'' model dims timeout)))"

definition createLocalEmbedder :: "'s http_client \<Rightarrow> string \<Rightarrow> int \<Rightarrow> int \<Rightarrow> Factory \<Rightarrow> Factory \<times> 's Embedder go" where
  "createLocalEmbedder http model dims timeout f =
     (f, Inr (Local_Embedder (NewLocalEmbedder http ''http://localhost:8080'' model dims timeout)))"

definition createCustomEmbedder ::
  "(string \<Rightarrow> string) \<Rightarrow> 's http_client \<Rightarrow> string \<Rightarrow> int \<Rightarrow> int \<Rightarrow> Factory \<Rightarrow> Factory \<times> 's Embedder go" where
  "createCustomEmbedder env http model dims timeout =
     with_secret env ''CUSTOM_AI_KEY'' ''failed to get custom AI key''
       (\<lambda>apiKey. Custom_Embedder (NewCustomEmbedder http apiKey model dims timeout))"

definition CreateEmbedder :: "(string \<Rightarrow> string) \<Rightarrow> 's http_client \<Rightarrow> Factory \<Rightarrow> Factory \<times> 's Embedder go" where
  "CreateEmbedder env http f =
     (let c = ai_Embeddings (fa_config f); provider = emb_Provider c; model = emb_Model c; dims = emb_Dim c;
          timeout = wrap64 (emb_TimeoutMs c * millisecond)
      in if provider = ''openai'' then createOpenAIEmbedder env http model dims timeout f
         else if provider = ''ollama'' then createOllamaEmbedder http model dims timeout f
         else if provider = ''local'' then createLocalEmbedder http model dims timeout f
         else if provider = ''custom'' then createCustomEmbedder env http model dims timeout f
         else (f, Inl (Fail ''unsupported embeddings provider: %s'')))"

definition set_timeout :: "int \<Rightarrow> 's http_client \<Rightarrow> 's http_client" where
  "set_timeout timeout client = (if timeout > 0 then client\<lparr>hc_Timeout := timeout\<rparr> else client)"

definition createOpenAILLM ::
  "(string \<Rightarrow> string) \<Rightarrow> 's http_client \<Rightarrow> string \<Rightarrow> fl \<Rightarrow> int \<Rightarrow> Factory \<Rightarrow> Factory \<times> 's llmAdapter go" where
  "createOpenAILLM env http model temperature timeout =
     with_secret env ''OPENAI_API_KEY'' ''failed to get OpenAI API key''
       (\<lambda>apiKey. let backend = NewOpenAIBackend http apiKey ''https://api.openai.com/v1'' model;
                     backend = backend\<lparr>ob_Client := set_timeout timeout (ob_Client backend)\<rparr>
                 in \<lparr>la_backend = OpenAI_LLM backend, la_temperature = temperature\<rparr>)"

definition createOllamaLLM :: "'s http_client \<Rightarrow> string \<Rightarrow> fl \<Rightarrow> int \<Rightarrow> Factory \<Rightarrow> Factory \<times> 's llmAdapter go" where
  "createOllamaLLM http model temperature timeout f =
     (let backend = NewOllamaBackend http ''http://localhost:11434'' model;
          backend = backend\<lparr>lb_Client := set_timeout timeout (lb_Client backend)\<rparr>
      in (f, Inr \<lparr>la_backend = Ollama_LLM backend, la_temperature = temperature\<rparr>))"

definition createLocalLLM :: "'s http_client \<Rightarrow> string \<Rightarrow> fl \<Rightarrow> int \<Rightarrow> Factory \<Rightarrow> Factory \<times> 's llmAdapter go" where
  "createLocalLLM http model temperature timeout f =
     (let backend = NewLocalLLMBackend http ''http://localhost:8080'';
          backend = backend\<lparr>cb_Client := set_timeout timeout (cb_Client backend)\<rparr>
      in (f, Inr \<lparr>la_backend = Local_LLM backend, la_temperature = temperature\<rparr>))"

definition createCustomLLM ::
  "(string \<Rightarrow> string) \<Rightarrow> 's http_client \<Rightarrow> string \<Rightarrow> fl \<Rightarrow> int \<Rightarrow> Factory \<Rightarrow> Factory \<times> 's llmAdapter go" where
  "createCustomLLM env http model temperature timeout =
     with_secret env ''CUSTOM_AI_KEY'' ''failed to get custom AI key''
       (\<lambda>apiKey. let backend = NewOpenAIBackend http apiKey ''https://api.custom-ai.com/v1'' model;
                     backend = backend\<lparr>ob_Client := set_timeout timeout (ob_Client backend)\<rparr>
                 in \<lparr>la_backend = OpenAI_LLM backend, la_temperature = temperature\<rparr>)"

definition CreateLLM :: "(string \<Rightarrow> string) \<Rightarrow> 's http_client \<Rightarrow> Factory \<Rightarrow> Factory \<times> 's llmAdapter go" where
  "CreateLLM env http f =
     (let c = ai_LLM (fa_config f); provider = llm_Provider c; model = llm_Model c; temperature = llm_Temperature c;
          timeout = wrap64 (llm_TimeoutMs c * millisecond)
      in if provider = ''openai'' then createOpenAILLM env http model temperature timeout f
         else if provider = ''ollama'' then createOllamaLLM http model temperature timeout f
         else if provider = ''local'' then createLocalLLM http model temperature timeout f
         else if provider = ''custom'' then createCustomLLM env http model temperature timeout f
         else (f, Inl (Fail ''unsupported LLM provider: %s'')))"

definition CreateEntityExtractor ::
  "string \<Rightarrow> response_decoder \<Rightarrow> (string \<Rightarrow> string) \<Rightarrow> 's http_client \<Rightarrow> Factory \<Rightarrow> Factory \<times> 's Extractor_Config go" where
  "CreateEntityExtractor dflt rd env http f =
     (if \<not> extract_Enabled (ai_EntityExtraction (fa_config f)) then (f, Inl (Fail ''entity extraction is not enabled''))
      else case CreateLLM env http f of
        (f, llm) \<Rightarrow>
          (f, rbind (rwrap ''failed to create LLM for extractor'' llm) (\<lambda>llmClient.
             let extractorConfig = llm_DefaultConfig dflt (llm_Complete rd llmClient)
             in Inr (extractorConfig\<lparr>xc_MaxRetries := extract_MaxRetries (ai_EntityExtraction (fa_config f))\<rparr>))))"

section \<open>What the server starts\<close>

definition required_secrets :: "AIConfig \<Rightarrow> string list" where
  "required_secrets c =
     (if emb_Provider (ai_Embeddings c) = ''openai'' \<or> llm_Provider (ai_LLM c) = ''openai'' then [''OPENAI_API_KEY''] else []) @
     (if emb_Provider (ai_Embeddings c) = ''custom'' \<or> llm_Provider (ai_LLM c) = ''custom'' then [''CUSTOM_AI_KEY''] else [])"

definition secret_provider :: "(string \<Rightarrow> string) \<Rightarrow> AIConfig \<Rightarrow> EnvProvider go" where
  "secret_provider env c =
     (case NewEnvProvider env (required_secrets c) of Inr p \<Rightarrow> Inr p | Inl err \<Rightarrow> NewEnvProvider env [])"

definition created :: "'a go \<Rightarrow> 'a option" where
  "created r = (case r of Inr x \<Rightarrow> Some x | Inl _ \<Rightarrow> None)"

record 's providers =
  pr_embedder :: "'s Embedder option"
  pr_llmClient :: "'s llmAdapter option"
  pr_entityExtractor :: "'s Extractor_Config option"

definition start_providers ::
  "string \<Rightarrow> response_decoder \<Rightarrow> (string \<Rightarrow> string) \<Rightarrow> 's http_client \<Rightarrow> AIConfig \<Rightarrow> 's providers go" where
  "start_providers dflt rd env http c =
     rbind (secret_provider env c) (\<lambda>p.
       let f = NewFactory c p;
           (f, embedder) = (if emb_Provider (ai_Embeddings c) \<noteq> [] then map_prod id created (CreateEmbedder env http f) else (f, None));
           (f, llmClient) = (if llm_Provider (ai_LLM c) \<noteq> [] then map_prod id created (CreateLLM env http f) else (f, None));
           (f, entityExtractor) = (if extract_Enabled (ai_EntityExtraction c)
             then map_prod id created (CreateEntityExtractor dflt rd env http f) else (f, None))
       in Inr \<lparr>pr_embedder = embedder, pr_llmClient = llmClient, pr_entityExtractor = entityExtractor\<rparr>)"

section \<open>Secrets come from the environment\<close>

definition provider_ok :: "(string \<Rightarrow> string) \<Rightarrow> EnvProvider \<Rightarrow> bool" where
  "provider_ok env p \<longleftrightarrow> (\<forall>n v. map_of (ep_cache p) n = Some v \<longrightarrow> v = env n \<and> v \<noteq> [])"

lemma provider_ok_update:
  "provider_ok env p \<Longrightarrow> env n \<noteq> [] \<Longrightarrow> provider_ok env (p\<lparr>ep_cache := AList.update n (env n) (ep_cache p)\<rparr>)"
  by (auto simp: provider_ok_def update_conv')

lemma load_required_spec:
  "provider_ok env p \<Longrightarrow>
     (case load_required env names p of Inr p' \<Rightarrow> provider_ok env p' \<and> (\<forall>n\<in>set names. env n \<noteq> [])
      | Inl e \<Rightarrow> (\<exists>n\<in>set names. env n = []))"
proof (induction names arbitrary: p)
  case (Cons n names)
  show ?case
  proof (cases "env n = []")
    case False
    have "case load_required env names (p\<lparr>ep_cache := AList.update n (env n) (ep_cache p)\<rparr>) of
        Inr p' \<Rightarrow> provider_ok env p' \<and> (\<forall>n\<in>set names. env n \<noteq> []) | Inl e \<Rightarrow> (\<exists>n\<in>set names. env n = [])"
      by (rule Cons.IH [OF provider_ok_update [OF Cons.prems False]])
    with False show ?thesis by (simp add: Let_def split: sum.splits)
  qed simp
qed simp

lemma require_all_ok: "list_all isSupportedSecret names \<Longrightarrow> require_all names req = Inr (fold List.insert names req)"
  by (induction names arbitrary: req) auto

lemma secret_provider_ok: "\<exists>p. secret_provider env c = Inr p \<and> provider_ok env p"
proof -
  have none: "NewEnvProvider env [] = Inr \<lparr>ep_cache = [], ep_required = []\<rparr>" by (simp add: NewEnvProvider_def)
  have "list_all isSupportedSecret (required_secrets c)" by (simp add: required_secrets_def isSupportedSecret_def)
  then show ?thesis
    using load_required_spec [of env "\<lparr>ep_cache = [], ep_required = fold List.insert (required_secrets c) []\<rparr>"
        "fold List.insert (required_secrets c) []"]
    by (auto simp: secret_provider_def none NewEnvProvider_def require_all_ok provider_ok_def split: sum.splits)
qed

lemma GetSecret_env:
  assumes "provider_ok env p" and "isSupportedSecret n"
  shows "provider_ok env (fst (GetSecret env n p)) \<and>
    (if env n \<noteq> [] then snd (GetSecret env n p) = Inr (env n) else \<exists>e. snd (GetSecret env n p) = Inl e)"
  using assms by (auto simp: GetSecret_def provider_ok_def Let_def update_conv' split: option.splits)

lemma with_secret_env:
  assumes "provider_ok env (fa_secretProvider f)" and "isSupportedSecret n"
  shows "provider_ok env (fa_secretProvider (fst (with_secret env n msg mk f))) \<and>
    fa_config (fst (with_secret env n msg mk f)) = fa_config f \<and>
    created (snd (with_secret env n msg mk f)) = (if env n \<noteq> [] then Some (mk (env n)) else None)"
  using GetSecret_env [OF assms]
  by (auto simp: with_secret_def created_def rbind_def split: prod.splits sum.splits if_splits)

section \<open>Providers of a valid configuration\<close>

definition secret_present :: "(string \<Rightarrow> string) \<Rightarrow> string \<Rightarrow> bool" where
  "secret_present env provider \<longleftrightarrow>
     (provider = ''openai'' \<longrightarrow> env ''OPENAI_API_KEY'' \<noteq> []) \<and> (provider = ''custom'' \<longrightarrow> env ''CUSTOM_AI_KEY'' \<noteq> [])"

lemma supported [simp]: "isSupportedSecret ''OPENAI_API_KEY''" "isSupportedSecret ''CUSTOM_AI_KEY''"
  by (simp_all add: isSupportedSecret_def)

lemma created_Inr [simp]: "created (Inr x) = Some x"
  by (simp add: created_def)

lemmas embedder_defs = createOpenAIEmbedder_def createOllamaEmbedder_def createLocalEmbedder_def createCustomEmbedder_def
lemmas llm_defs = createOpenAILLM_def createOllamaLLM_def createLocalLLM_def createCustomLLM_def

lemma CreateEmbedder_spec:
  assumes "provider_ok env (fa_secretProvider f)" and "emb_Provider (ai_Embeddings (fa_config f)) \<in> validProviders"
  shows "provider_ok env (fa_secretProvider (fst (CreateEmbedder env http f))) \<and>
    fa_config (fst (CreateEmbedder env http f)) = fa_config f \<and>
    (created (snd (CreateEmbedder env http f)) \<noteq> None) = secret_present env (emb_Provider (ai_Embeddings (fa_config f)))"
  using assms by (auto simp: CreateEmbedder_def Let_def embedder_defs with_secret_env secret_present_def validProviders_def)

text \<open>Which client a factory creates depends on its configuration and the environment only.\<close>

definition llm_of :: "(string \<Rightarrow> string) \<Rightarrow> 's http_client \<Rightarrow> AIConfig \<Rightarrow> 's llmAdapter option" where
  "llm_of env http c = created (snd (CreateLLM env http (NewFactory c \<lparr>ep_cache = [], ep_required = []\<rparr>)))"

lemma provider_ok_empty: "provider_ok env \<lparr>ep_cache = [], ep_required = []\<rparr>"
  by (simp add: provider_ok_def)

lemma CreateLLM_spec:
  assumes "provider_ok env (fa_secretProvider f)"
  shows "provider_ok env (fa_secretProvider (fst (CreateLLM env http f))) \<and>
    fa_config (fst (CreateLLM env http f)) = fa_config f \<and>
    created (snd (CreateLLM env http f)) = llm_of env http (fa_config f)"
  using assms
  by (auto simp: CreateLLM_def Let_def llm_defs with_secret_env llm_of_def NewFactory_def provider_ok_empty)

lemma llm_of_present:
  "llm_Provider (ai_LLM c) \<in> validProviders \<Longrightarrow> (llm_of env http c \<noteq> None) = secret_present env (llm_Provider (ai_LLM c))"
  by (auto simp: llm_of_def CreateLLM_def Let_def llm_defs with_secret_env NewFactory_def provider_ok_empty secret_present_def
      validProviders_def)

lemma created_rbind: "created (rbind (rwrap msg r) (\<lambda>x. Inr (g x))) = map_option g (created r)"
  by (auto simp: created_def rbind_def rwrap_def split: sum.splits go_error.splits)

lemma valid_ai:
  assumes "validateAI cfg = Inr ()"
  shows "emb_Provider (ai_Embeddings (cfg_AI cfg)) \<in> validProviders \<and> llm_Provider (ai_LLM (cfg_AI cfg)) \<in> validProviders \<and>
    (extract_Enabled (ai_EntityExtraction (cfg_AI cfg)) \<longrightarrow> extract_MaxRetries (ai_EntityExtraction (cfg_AI cfg)) \<in> {0..10})"
  using assms by (auto simp: validateAI_def Let_def rbind_eq_Inr refuse_ok split: if_splits)

text \<open>C39. On a valid configuration every provider the server starts needs nothing but its own secret: the embedder is there exactly when the
  environment has the key of its provider, if it needs one, and so is the model, whatever is missing
  for the other; the entity extractor uses a model of the same settings, is there exactly when it is enabled and the model is, and retries at most ten times.\<close>

theorem providers_started:
  assumes "Validate cfg h = (h', Inr ())" and "c = cfg_AI cfg"
  shows "\<exists>ps. start_providers dflt rd env http c = Inr ps \<and>
    (pr_embedder ps \<noteq> None) = secret_present env (emb_Provider (ai_Embeddings c)) \<and>
    (pr_llmClient ps \<noteq> None) = secret_present env (llm_Provider (ai_LLM c)) \<and>
    pr_entityExtractor ps =
      (if extract_Enabled (ai_EntityExtraction c)
       then map_option (\<lambda>m. (llm_DefaultConfig dflt (llm_Complete rd m))\<lparr>xc_MaxRetries := extract_MaxRetries (ai_EntityExtraction c)\<rparr>)
              (pr_llmClient ps)
       else None) \<and>
    (\<forall>x. pr_entityExtractor ps = Some x \<longrightarrow> 0 \<le> xc_MaxRetries x \<and> xc_MaxRetries x \<le> 10)"
proof -
  have v: "emb_Provider (ai_Embeddings c) \<in> validProviders" "llm_Provider (ai_LLM c) \<in> validProviders"
    "extract_Enabled (ai_EntityExtraction c) \<longrightarrow> extract_MaxRetries (ai_EntityExtraction c) \<in> {0..10}"
    using assms Validate_ok [of cfg h] valid_ai [of cfg] by auto
  obtain p where p: "secret_provider env c = Inr p" "provider_ok env p" using secret_provider_ok by blast
  obtain f1 em where f1: "CreateEmbedder env http (NewFactory c p) = (f1, em)" by fastforce
  obtain f2 lm where f2: "CreateLLM env http f1 = (f2, lm)" by fastforce
  obtain f3 lm' where f3: "CreateLLM env http f2 = (f3, lm')" by fastforce
  have f1': "provider_ok env (fa_secretProvider f1)" "fa_config f1 = c"
    "(created em \<noteq> None) = secret_present env (emb_Provider (ai_Embeddings c))"
    using CreateEmbedder_spec [of env "NewFactory c p" http] p v f1 by (simp_all add: NewFactory_def)
  have f2': "provider_ok env (fa_secretProvider f2)" "fa_config f2 = c" "created lm = llm_of env http c"
    using CreateLLM_spec [of env f1 http] f1' f2 by simp_all
  have f3': "created lm' = llm_of env http c" using CreateLLM_spec [of env f2 http] f2' f3 by simp
  have nonempty: "emb_Provider (ai_Embeddings c) \<noteq> []" "llm_Provider (ai_LLM c) \<noteq> []"
    using v by (auto simp: validProviders_def)
  have x: "created (snd (CreateEntityExtractor dflt rd env http f2)) =
    (if extract_Enabled (ai_EntityExtraction c)
     then map_option (\<lambda>m. (llm_DefaultConfig dflt (llm_Complete rd m))\<lparr>xc_MaxRetries := extract_MaxRetries (ai_EntityExtraction c)\<rparr>)
            (llm_of env http c)
     else None)"
    using CreateLLM_spec [of env f2 http] f2' f3 f3'
    by (simp add: CreateEntityExtractor_def Let_def created_rbind) (simp add: created_def)
  have "start_providers dflt rd env http c = Inr \<lparr>pr_embedder = created em, pr_llmClient = llm_of env http c,
      pr_entityExtractor = (if extract_Enabled (ai_EntityExtraction c) then created (snd (CreateEntityExtractor dflt rd env http f2)) else None)\<rparr>"
    by (simp add: start_providers_def p nonempty f1 f2 f2'(3) prod.case_eq_if map_prod_def split: prod.split)
  with f1'(3) llm_of_present [OF v(2)] v(3) show ?thesis by (auto simp: x)
qed

definition sample_http :: "unit http_client" where
  "sample_http = \<lparr>hc_valid_url = (\<lambda>u. True), hc_Timeout = 0, hc_Do = (\<lambda>t r s. (s, Inr (200, [])))\<rparr>"

lemma providers_started_witness:
  "\<exists>ps. start_providers ''Extract'' \<lparr>rd_choices = (\<lambda>b. None), rd_response = (\<lambda>b. None), rd_data = (\<lambda>b. None), rd_embedding = (\<lambda>b. None)\<rparr>
      (\<lambda>n. if n = ''OPENAI_API_KEY'' then ''sk'' else []) sample_http (cfg_AI sample_config_loaded) = Inr ps \<and>
    (pr_embedder ps \<noteq> None) =
      secret_present (\<lambda>n. if n = ''OPENAI_API_KEY'' then ''sk'' else []) (emb_Provider (ai_Embeddings (cfg_AI sample_config_loaded)))"
  using providers_started [OF sample_valid refl, of "''Extract''"
      "\<lparr>rd_choices = (\<lambda>b. None), rd_response = (\<lambda>b. None), rd_data = (\<lambda>b. None), rd_embedding = (\<lambda>b. None)\<rparr>"
      "\<lambda>n. if n = ''OPENAI_API_KEY'' then ''sk'' else []" sample_http]
  by blast

end
