(* ===== verification/Http_Gateway.thy ===== *)
theory Http_Gateway
  imports Grpc_Server Soft_Float
begin

text \<open>
  The REST gateway, \<^verbatim>\<open>src/api/http/handlers.go\<close>, with the mux and the authentication that
  \<^verbatim>\<open>src/cmd/allidbd/main.go\<close> puts before it and the gRPC server behind it. A request is its method, path,
  headers and body; the JSON decoder of the standard library is a parameter (one function per request type, None where it fails). A
  response is a status with a text, a message or an error object. The gRPC client is a record of its methods on
  the state of the server; \<open>None\<close> stands for a panic there, which ends the process that both run in.
\<close>

section \<open>Requests and responses\<close>

record http_request =
  hr_Method :: string
  hr_Path :: string
  hr_Header :: "string \<Rightarrow> string"
  hr_Body :: "bytes option"

record put_json =
  pj_Entity :: "PbEntity option"
  pj_ConsistencyLevel :: string
  pj_TraceID :: string

record batch_json =
  bj_Entities :: "PbEntity option list"
  bj_ConsistencyLevel :: string
  bj_TraceID :: string

record query_json =
  qj_QueryVector :: "float32 list"
  qj_K :: int
  qj_ExpandFactor :: int
  qj_TraceID :: string
  qj_ConsistencyLevel :: string

record json_decoder =
  jd_put :: "bytes \<Rightarrow> put_json option"
  jd_batch :: "bytes \<Rightarrow> batch_json option"
  jd_query :: "bytes \<Rightarrow> query_json option"

type_synonym query_reply = "PbQueryResult list \<times> string \<times> 32 word"
type_synonym health_reply = "bool \<times> string \<times> 64 word \<times> string"

datatype http_body = Plain_Text string | Json_Put string | Json_Batch BatchResponse | Json_Query query_reply
  | Json_Health health_reply | Json_Error string code

type_synonym http_response = "nat \<times> http_body"

definition http_Error :: "string \<Rightarrow> nat \<Rightarrow> http_response" where
  "http_Error msg status = (status, Plain_Text msg)"

text \<open>What \<^verbatim>\<open>encoding/json\<close> refuses: a float that is NaN or infinite. Nothing is written then.\<close>

definition floats_encode :: "float64 list \<Rightarrow> float32 list \<Rightarrow> bool" where
  "floats_encode xs ys = (list_all (\<lambda>x. is_finite (fl_of_bits64 x)) xs \<and> list_all (\<lambda>y. is_finite (fl_of_bits32 y)) ys)"

definition entity_encodes :: "PbEntity \<Rightarrow> bool" where
  "entity_encodes p = floats_encode
     (pb_Importance p # map pb_Weight (List.map_filter id (pb_IncomingEdges p @ pb_OutgoingEdges p)))
     (concat (map pb_Vector (List.map_filter id (pb_Embeddings p))))"

fun json_encodes :: "http_body \<Rightarrow> bool" where
  "json_encodes (Json_Query (results, trace, n)) =
     list_all (\<lambda>r. floats_encode [pqr_Score r] [] \<and> (case pqr_Entity r of None \<Rightarrow> True | Some p \<Rightarrow> entity_encodes p)) results"
| "json_encodes _ = True"

text \<open>The status is written before the value is encoded, so it stays when the encoder fails.\<close>

definition writeJSONResponse :: "nat \<Rightarrow> http_body \<Rightarrow> http_response" where
  "writeJSONResponse statusCode data =
     (if json_encodes data then (statusCode, data)
      else (statusCode, snd (http_Error ''Failed to encode response'' 500)))"

section \<open>Calling the gRPC service\<close>

type_synonym metadata = "string \<Rightarrow> string list"

datatype call_error = Plain_Err string | Status_Err code string

type_synonym 'a answer = "(call_error + 'a) option"

record 's AlliDBClient =
  cl_PutEntity :: "metadata \<Rightarrow> ctx \<Rightarrow> PutRequest \<Rightarrow> 's \<Rightarrow> 's \<times> string answer"
  cl_BatchPutEntities :: "metadata \<Rightarrow> ctx \<Rightarrow> BatchRequest \<Rightarrow> 's \<Rightarrow> 's \<times> BatchResponse answer"
  cl_Query :: "metadata \<Rightarrow> ctx \<Rightarrow> QueryRequest \<Rightarrow> 's \<Rightarrow> 's \<times> query_reply answer"
  cl_HealthCheck :: "metadata \<Rightarrow> ctx \<Rightarrow> 's \<Rightarrow> 's \<times> health_reply answer"

text \<open>
  The address or the connection of the configuration; \<open>dial\<close> opens one. The client of a connection is
  what \<^verbatim>\<open>NewAlliDBClient\<close> makes of it.
\<close>

definition NewGateway :: "(string \<Rightarrow> 'conn go) \<Rightarrow> ('conn \<Rightarrow> 's AlliDBClient) \<Rightarrow> string \<Rightarrow> 'conn option \<Rightarrow> 's AlliDBClient go" where
  "NewGateway dial client GRPCAddress GRPCConn =
     (case GRPCConn of
        Some conn \<Rightarrow> Inr (client conn)
      | None \<Rightarrow> if GRPCAddress \<noteq> [] then rbind (dial GRPCAddress) (\<lambda>conn. Inr (client conn))
                else Inl (Fail ''either GRPCAddress or GRPCConn must be provided''))"

definition parseConsistencyLevel :: "string \<Rightarrow> int" where
  "parseConsistencyLevel level =
     (if level = ''ONE'' \<or> level = ''one'' then CONSISTENCY_ONE
      else if level = ''QUORUM'' \<or> level = ''quorum'' then CONSISTENCY_QUORUM
      else if level = ''ALL'' \<or> level = ''all'' then CONSISTENCY_ALL
      else CONSISTENCY_QUORUM)"

text \<open>
  The outgoing metadata hold the API key of the request, if it has one. The tenant is put into the context of
  the client.
\<close>

definition createGRPCContext :: "http_request \<Rightarrow> ctx \<Rightarrow> string \<Rightarrow> metadata \<times> ctx" where
  "createGRPCContext r c tenantID =
     (let apiKey = hr_Header r ''X-ALLIDB-API-KEY'';
          md = (\<lambda>_. []);
          md = (if apiKey \<noteq> [] then md(''x-allidb-api-key'' := [apiKey]) else md)
      in (md, if tenantID \<noteq> [] then WithTenantID c tenantID else c))"

fun grpcToHTTPStatus :: "code \<Rightarrow> nat" where
  "grpcToHTTPStatus OK = 200"
| "grpcToHTTPStatus Canceled = 408"
| "grpcToHTTPStatus Unknown = 500"
| "grpcToHTTPStatus InvalidArgument = 400"
| "grpcToHTTPStatus DeadlineExceeded = 504"
| "grpcToHTTPStatus NotFound = 404"
| "grpcToHTTPStatus AlreadyExists = 409"
| "grpcToHTTPStatus PermissionDenied = 403"
| "grpcToHTTPStatus ResourceExhausted = 429"
| "grpcToHTTPStatus FailedPrecondition = 412"
| "grpcToHTTPStatus Aborted = 409"
| "grpcToHTTPStatus OutOfRange = 400"
| "grpcToHTTPStatus Unimplemented = 501"
| "grpcToHTTPStatus Internal = 500"
| "grpcToHTTPStatus Unavailable = 503"
| "grpcToHTTPStatus DataLoss = 500"
| "grpcToHTTPStatus Unauthenticated = 401"
| "grpcToHTTPStatus (Other_Code n) = 500"

definition writeGRPCError :: "call_error \<Rightarrow> http_response" where
  "writeGRPCError err =
     (case err of
        Plain_Err e \<Rightarrow> http_Error ''Internal server error: '' 500
      | Status_Err c msg \<Rightarrow> writeJSONResponse (grpcToHTTPStatus c) (Json_Error msg c))"

text \<open>What a handler writes for the outcome of its call; nothing when the process is gone.\<close>

definition answer_call :: "('a \<Rightarrow> http_response) \<Rightarrow> 's \<times> 'a answer \<Rightarrow> 's \<times> http_response option" where
  "answer_call ok = map_prod id (map_option (\<lambda>r. case r of Inl err \<Rightarrow> writeGRPCError err | Inr resp \<Rightarrow> ok resp))"

section \<open>Handlers\<close>

definition PutEntityHandler ::
  "json_decoder \<Rightarrow> 's AlliDBClient \<Rightarrow> http_request \<Rightarrow> ctx \<Rightarrow> 's \<Rightarrow> 's \<times> http_response option" where
  "PutEntityHandler jd cl r c s =
     (if hr_Method r \<noteq> ''POST'' then (s, Some (http_Error ''Method not allowed'' 405))
      else case hr_Body r of
        None \<Rightarrow> (s, Some (http_Error ''Failed to read request body'' 400))
      | Some body \<Rightarrow>
          (case jd_put jd body of
             None \<Rightarrow> (s, Some (http_Error ''Invalid JSON: '' 400))
           | Some req \<Rightarrow>
               if pj_Entity req = None then (s, Some (http_Error ''entity is required'' 400))
               else
                 let consistencyLevel = parseConsistencyLevel (pj_ConsistencyLevel req);
                     grpcReq = \<lparr>put_Entity = pj_Entity req, put_Level = consistencyLevel\<rparr>;
                     (tenantID, ok) = TenantFromContext c
                 in if \<not> ok then (s, Some (http_Error ''Tenant not found in context'' 500))
                    else let (md, c) = createGRPCContext r c tenantID
                         in answer_call (\<lambda>grpcResp. writeJSONResponse 200 (Json_Put grpcResp))
                              (cl_PutEntity cl md c grpcReq s)))"

definition BatchPutEntitiesHandler ::
  "json_decoder \<Rightarrow> 's AlliDBClient \<Rightarrow> http_request \<Rightarrow> ctx \<Rightarrow> 's \<Rightarrow> 's \<times> http_response option" where
  "BatchPutEntitiesHandler jd cl r c s =
     (if hr_Method r \<noteq> ''POST'' then (s, Some (http_Error ''Method not allowed'' 405))
      else case hr_Body r of
        None \<Rightarrow> (s, Some (http_Error ''Failed to read request body'' 400))
      | Some body \<Rightarrow>
          (case jd_batch jd body of
             None \<Rightarrow> (s, Some (http_Error ''Invalid JSON: '' 400))
           | Some req \<Rightarrow>
               if length (bj_Entities req) = 0 then (s, Some (http_Error ''at least one entity is required'' 400))
               else
                 let consistencyLevel = parseConsistencyLevel (bj_ConsistencyLevel req);
                     grpcReq = \<lparr>bat_Entities = bj_Entities req, bat_Level = consistencyLevel\<rparr>;
                     (tenantID, ok) = TenantFromContext c
                 in if \<not> ok then (s, Some (http_Error ''Tenant not found in context'' 500))
                    else let (md, c) = createGRPCContext r c tenantID
                         in answer_call
                              (\<lambda>grpcResp. let statusCode = (if \<not> bat_Success grpcResp then 206 else 200)
                                          in writeJSONResponse statusCode (Json_Batch grpcResp))
                              (cl_BatchPutEntities cl md c grpcReq s)))"

definition QueryHandler ::
  "json_decoder \<Rightarrow> 's AlliDBClient \<Rightarrow> http_request \<Rightarrow> ctx \<Rightarrow> 's \<Rightarrow> 's \<times> http_response option" where
  "QueryHandler jd cl r c s =
     (if hr_Method r \<noteq> ''POST'' then (s, Some (http_Error ''Method not allowed'' 405))
      else case hr_Body r of
        None \<Rightarrow> (s, Some (http_Error ''Failed to read request body'' 400))
      | Some body \<Rightarrow>
          (case jd_query jd body of
             None \<Rightarrow> (s, Some (http_Error ''Invalid JSON: '' 400))
           | Some req \<Rightarrow>
               if length (qj_QueryVector req) = 0 then (s, Some (http_Error ''query_vector is required'' 400))
               else
                 let req = (if qj_K req \<le> 0 then req\<lparr>qj_K := 10\<rparr> else req);
                     req = (if qj_ExpandFactor req \<le> 0 then req\<lparr>qj_ExpandFactor := 2\<rparr> else req);
                     consistencyLevel = parseConsistencyLevel (qj_ConsistencyLevel req);
                     grpcReq = \<lparr>qry_Vector = qj_QueryVector req, qry_K = qj_K req, qry_ExpandFactor = qj_ExpandFactor req,
                                qry_TraceId = qj_TraceID req, qry_Level = consistencyLevel\<rparr>;
                     (tenantID, ok) = TenantFromContext c
                 in if \<not> ok then (s, Some (http_Error ''Tenant not found in context'' 500))
                    else let (md, c) = createGRPCContext r c tenantID
                         in answer_call (\<lambda>grpcResp. writeJSONResponse 200 (Json_Query grpcResp))
                              (cl_Query cl md c grpcReq s)))"

definition HealthCheckHandler ::
  "'s AlliDBClient \<Rightarrow> http_request \<Rightarrow> ctx \<Rightarrow> 's \<Rightarrow> 's \<times> http_response option" where
  "HealthCheckHandler cl r c s =
     (if hr_Method r \<noteq> ''GET'' then (s, Some (http_Error ''Method not allowed'' 405))
      else answer_call
             (\<lambda>grpcResp. let statusCode = (if \<not> fst grpcResp then 503 else 200)
                         in writeJSONResponse statusCode (Json_Health grpcResp))
             (cl_HealthCheck cl (\<lambda>_. []) c s))"

text \<open>The routes of the mux are exact paths; any other path is not found.\<close>

definition RegisterRoutes ::
  "json_decoder \<Rightarrow> 's AlliDBClient \<Rightarrow> http_request \<Rightarrow> ctx \<Rightarrow> 's \<Rightarrow> 's \<times> http_response option" where
  "RegisterRoutes jd cl r =
     (if hr_Path r = ''/entity'' then PutEntityHandler jd cl r
      else if hr_Path r = ''/entities/batch'' then BatchPutEntitiesHandler jd cl r
      else if hr_Path r = ''/query'' then QueryHandler jd cl r
      else if hr_Path r = ''/health'' then HealthCheckHandler cl r
      else (\<lambda>c s. (s, Some (http_Error ''404 page not found'' 404))))"

section \<open>The gateway as the server sets it up\<close>

text \<open>
  With authentication the middleware stands before the mux; the request's context holds no tenant of its own. The
  header of the middleware is the fixed one, whatever the configuration names.
\<close>

definition http_handler ::
  "bool \<Rightarrow> APIKeyStore \<Rightarrow> json_decoder \<Rightarrow> 's AlliDBClient \<Rightarrow> http_request \<Rightarrow> 's \<Rightarrow> 's \<times> http_response option" where
  "http_handler auth_enabled keys jd cl r s =
     (if auth_enabled then
        (case HTTPAuthMiddleware keys (\<lambda>c. RegisterRoutes jd cl r c s) (hr_Header r) None of
           Rejected status msg \<Rightarrow> (s, Some (http_Error msg status))
         | Handled res \<Rightarrow> res)
      else RegisterRoutes jd cl r None s)"

definition answer_of_rpc :: "'a rpc \<Rightarrow> 'a answer" where
  "answer_of_rpc r = (case r of Inl RpcPanic \<Rightarrow> None | Inl (Status c msg) \<Rightarrow> Some (Inl (Status_Err c msg)) | Inr x \<Rightarrow> Some (Inr x))"

text \<open>
  A call over the connection: the metadata arrive, the client's context does not. The interceptor
  runs before the handler when authentication is on; its status 16 is Unauthenticated.
\<close>

definition grpc_call ::
  "bool \<Rightarrow> APIKeyStore \<Rightarrow> (ctx \<Rightarrow> 's \<times> 'a rpc) \<Rightarrow> metadata \<Rightarrow> 's \<Rightarrow> 's \<times> 'a answer" where
  "grpc_call auth_enabled keys handler md s =
     (if auth_enabled then
        (case GRPCAuthInterceptor keys handler (Some md) None of
           Rejected status msg \<Rightarrow> (s, Some (Inl (Status_Err Unauthenticated msg)))
         | Handled res \<Rightarrow> map_prod id answer_of_rpc res)
      else map_prod id answer_of_rpc (handler None))"

text \<open>
  The server behind the connection. What marshalling makes of a request is a parameter: a nil element of a
  list of messages, for one, arrives as an empty message.
\<close>

record transport =
  tr_put :: "PutRequest \<Rightarrow> PutRequest"
  tr_batch :: "BatchRequest \<Rightarrow> BatchRequest"
  tr_query :: "QueryRequest \<Rightarrow> QueryRequest"

record ('c, 'i) server_parts =
  sv_svc :: "'c CoordinatorService"
  sv_indexer :: "'i indexer"
  sv_now :: "nat \<Rightarrow> nat \<Rightarrow> time"
  sv_exec :: "'c \<times> 'i \<Rightarrow> float32 list \<Rightarrow> int \<Rightarrow> int \<Rightarrow> QueryResult list go"
  sv_coordinator_set :: bool
  sv_executor_set :: bool

definition server_client ::
  "bool \<Rightarrow> APIKeyStore \<Rightarrow> transport \<Rightarrow> ('c, 'i) server_parts \<Rightarrow> ('c \<times> 'i) AlliDBClient" where
  "server_client auth_enabled keys tr sv =
     \<lparr>cl_PutEntity = (\<lambda>md _ req s. grpc_call auth_enabled keys
        (\<lambda>c. rpc_PutEntity (sv_svc sv) (sv_indexer sv) (sv_now sv 0) c (tr_put tr req) s) md s),
      cl_BatchPutEntities = (\<lambda>md _ req s. grpc_call auth_enabled keys
        (\<lambda>c. rpc_BatchPutEntities (sv_svc sv) (sv_indexer sv) (sv_now sv) c (tr_batch tr req) s) md s),
      cl_Query = (\<lambda>md _ req s. grpc_call auth_enabled keys (\<lambda>c. (s, rpc_Query (sv_exec sv s) c (tr_query tr req))) md s),
      cl_HealthCheck = (\<lambda>md _ s. grpc_call auth_enabled keys
        (\<lambda>c. (s, Inr (rpc_HealthCheck (sv_coordinator_set sv) (sv_executor_set sv) (sv_now sv 0 0)))) md s)\<rparr>"

definition serve_http ::
  "bool \<Rightarrow> APIKeyStore \<Rightarrow> json_decoder \<Rightarrow> transport \<Rightarrow> ('c, 'i) server_parts \<Rightarrow> http_request \<Rightarrow> 'c \<times> 'i \<Rightarrow>
     ('c \<times> 'i) \<times> http_response option" where
  "serve_http auth_enabled keys jd tr sv = http_handler auth_enabled keys jd (server_client auth_enabled keys tr sv)"

section \<open>What passes the gateway\<close>

abbreviation http_key :: "http_request \<Rightarrow> string" where
  "http_key r \<equiv> hr_Header r ''X-ALLIDB-API-KEY''"

text \<open>A request without a known key is refused before any route, and nothing changes.\<close>

lemma serve_unauthenticated:
  "http_key r = [] \<or> map_of keys (http_key r) = None \<Longrightarrow>
     serve_http True keys jd tr sv r s =
       (s, Some (401, Plain_Text (if http_key r = [] then ''Missing API key'' else ''Invalid API key'')))"
  by (auto simp: serve_http_def http_handler_def HTTPAuthMiddleware_def HTTPAuthMiddlewareWithHeader_def APIKeyHeader_def http_Error_def)

lemma serve_authenticated:
  "http_key r \<noteq> [] \<Longrightarrow> map_of keys (http_key r) = Some t \<Longrightarrow>
     serve_http True keys jd tr sv r s = RegisterRoutes jd (server_client True keys tr sv) r (Some t) s"
  by (simp add: serve_http_def http_handler_def HTTPAuthMiddleware_def HTTPAuthMiddlewareWithHeader_def APIKeyHeader_def WithTenantID_def)

text \<open>The key is checked again behind the connection and gives the same tenant.\<close>

lemma grpc_call_key:
  "http_key r \<noteq> [] \<Longrightarrow> map_of keys (http_key r) = Some t \<Longrightarrow>
     grpc_call True keys handler (fst (createGRPCContext r c t')) s = map_prod id answer_of_rpc (handler (Some t))"
  by (simp add: grpc_call_def GRPCAuthInterceptor_def createGRPCContext_def Let_def WithTenantID_def)

lemma grpc_call_no_key:
  "grpc_call True keys handler (\<lambda>_. []) s = (s, Some (Inl (Status_Err Unauthenticated ''missing API key'')))"
  by (simp add: grpc_call_def GRPCAuthInterceptor_def)

text \<open>The response for the outcome of a put.\<close>

definition put_response :: "string rpc \<Rightarrow> http_response option" where
  "put_response r =
     (case r of
        Inr eid \<Rightarrow> Some (200, Json_Put eid)
      | Inl RpcPanic \<Rightarrow> None
      | Inl (Status c msg) \<Rightarrow> Some (grpcToHTTPStatus c, Json_Error msg c))"

lemma answer_put: "answer_call (\<lambda>x. writeJSONResponse 200 (Json_Put x)) (map_prod id answer_of_rpc res) = map_prod id put_response res"
  by (cases res)
     (auto simp: answer_call_def answer_of_rpc_def put_response_def writeGRPCError_def writeJSONResponse_def
       split: sum.splits rpc_error.splits)

lemma tenant_ctx [simp]: "t \<noteq> [] \<Longrightarrow> TenantFromContext (Some t) = (t, True)" "TenantFromContext None = ([], False)"
  "TenantFromContext (Some []) = ([], False)"
  by (simp_all add: TenantFromContext_def ctx_GetTenantID_def)

lemma put_handler_call:
  assumes "hr_Method r = ''POST''" and "hr_Body r = Some b" and "jd_put jd b = Some req" and "pj_Entity req \<noteq> None" and "t \<noteq> []"
  shows "PutEntityHandler jd cl r (Some t) s =
    answer_call (\<lambda>x. writeJSONResponse 200 (Json_Put x))
      (cl_PutEntity cl (fst (createGRPCContext r (Some t) t)) (snd (createGRPCContext r (Some t) t))
         \<lparr>put_Entity = pj_Entity req, put_Level = parseConsistencyLevel (pj_ConsistencyLevel req)\<rparr> s)"
  using assms by (auto simp: PutEntityHandler_def Let_def split: prod.splits)


text \<open>The state changes through the handlers of writes only.\<close>

lemma put_handler_frame:
  assumes "fst (PutEntityHandler jd cl r c s) \<noteq> s"
  shows "hr_Method r = ''POST'' \<and> (\<exists>t b req. c = Some t \<and> t \<noteq> [] \<and> hr_Body r = Some b \<and> jd_put jd b = Some req \<and> pj_Entity req \<noteq> None)"
proof (cases "\<exists>t. c = Some t \<and> t \<noteq> []")
  case True
  with assms show ?thesis by (auto simp: PutEntityHandler_def split: option.splits if_splits)
next
  case False
  then have "\<not> snd (TenantFromContext c)" by (cases c) auto
  with assms show ?thesis by (auto simp: PutEntityHandler_def Let_def split: option.splits if_splits prod.splits)
qed

lemma batch_handler_call:
  assumes "hr_Method r = ''POST''" and "hr_Body r = Some b" and "jd_batch jd b = Some req" and "bj_Entities req \<noteq> []" and "t \<noteq> []"
  shows "fst (BatchPutEntitiesHandler jd cl r (Some t) s) =
    fst (cl_BatchPutEntities cl (fst (createGRPCContext r (Some t) t)) (snd (createGRPCContext r (Some t) t))
         \<lparr>bat_Entities = bj_Entities req, bat_Level = parseConsistencyLevel (bj_ConsistencyLevel req)\<rparr> s)"
  using assms by (simp add: BatchPutEntitiesHandler_def Let_def answer_call_def split: prod.splits)

lemma batch_handler_frame:
  assumes "fst (BatchPutEntitiesHandler jd cl r c s) \<noteq> s"
  shows "hr_Method r = ''POST'' \<and> (\<exists>t b req. c = Some t \<and> t \<noteq> [] \<and> hr_Body r = Some b \<and> jd_batch jd b = Some req \<and> bj_Entities req \<noteq> [])"
proof (cases "\<exists>t. c = Some t \<and> t \<noteq> []")
  case True
  with assms show ?thesis by (auto simp: BatchPutEntitiesHandler_def split: option.splits if_splits)
next
  case False
  then have "\<not> snd (TenantFromContext c)" by (cases c) auto
  with assms show ?thesis by (auto simp: BatchPutEntitiesHandler_def Let_def split: option.splits if_splits prod.splits)
qed

lemma reads_frame:
  "fst (QueryHandler jd (server_client a keys tr sv) r c s) = s"
  "fst (HealthCheckHandler (server_client a keys tr sv) r c s) = s"
  by (auto simp: QueryHandler_def HealthCheckHandler_def server_client_def grpc_call_def GRPCAuthInterceptor_def answer_call_def Let_def
      split: option.splits prod.splits)

text \<open>A put changes nothing unless its entity names the caller's tenant; neither does a batch of entities of others.\<close>

lemma rpc_put_frame:
  assumes "fst (rpc_PutEntity svc idx now (Some t) req (c, i)) \<noteq> (c, i)"
  shows "\<exists>p. put_Entity req = Some p \<and> pb_TenantId p = t"
proof (cases "put_Entity req")
  case None
  with assms show ?thesis by (simp add: rpc_PutEntity_def split: sum.splits)
next
  case (Some p)
  with assms show ?thesis by (cases "pb_TenantId p = t") (auto simp: rpc_PutEntity_def split: sum.splits if_splits)
qed

lemma batch_loop_frame:
  "\<forall>p. Some p \<in> set ps \<longrightarrow> pb_TenantId p \<noteq> t \<Longrightarrow> fst (batch_loop svc idx now t config ps n acc (c, i)) = (c, i)"
proof (induction ps arbitrary: n acc)
  case (Cons x ps)
  then show ?case by (cases x) auto
qed simp

lemma rpc_batch_frame:
  assumes "fst (rpc_BatchPutEntities svc idx now (Some t) req (c, i)) \<noteq> (c, i)"
  shows "\<exists>p. Some p \<in> set (bat_Entities req) \<and> pb_TenantId p = t"
proof (rule ccontr)
  assume "\<nexists>p. Some p \<in> set (bat_Entities req) \<and> pb_TenantId p = t"
  then have f: "fst (batch_loop svc idx now t config (bat_Entities req) n acc (c, i)) = (c, i)" for config n acc
    by (intro batch_loop_frame) blast
  let ?loop = "batch_loop svc idx now t (getCoordinatorConfig (cs_GetConfig svc c) (bat_Level req)) (bat_Entities req) 0
      \<lparr>ba_failures = 0, ba_ids = [], ba_lastErr = []\<rparr> (c, i)"
  obtain r where "?loop = ((c, i), r)" using f by (metis prod.collapse)
  then have "fst (rpc_BatchPutEntities svc idx now (Some t) req (c, i)) = (c, i)"
    by (simp add: rpc_BatchPutEntities_def Let_def split: sum.split)
  with assms show False by simp
qed


definition refused :: "'s \<Rightarrow> 's \<times> http_response option \<Rightarrow> bool" where
  "refused s res \<longleftrightarrow> (\<exists>status msg. res = (s, Some (status, Plain_Text msg)) \<and> status \<in> {400, 405, 500})"

lemma no_tenant_refused:
  "refused s (PutEntityHandler jd cl r None s)"
  "refused s (BatchPutEntitiesHandler jd cl r None s)"
  "refused s (QueryHandler jd cl r None s)"
  by (simp_all add: PutEntityHandler_def BatchPutEntitiesHandler_def QueryHandler_def refused_def http_Error_def Let_def split: option.split)

text \<open>C37. Neither setting of authentication serves all routes. Without it the three routes of entities and queries
  refuse every request, the well-formed ones with an internal error, since nothing gives them a tenant; with it
  the health route, which sends no key on, answers no request, whatever its key.\<close>

theorem gateway_split:
  "(hr_Path r \<in> {''/entity'', ''/entities/batch'', ''/query''} \<longrightarrow>
      (\<exists>status msg. serve_http False keys jd tr sv r s = (s, Some (status, Plain_Text msg)) \<and> status \<in> {400, 405, 500})) \<and>
   (hr_Path r = ''/health'' \<longrightarrow>
      (\<exists>resp. serve_http True keys jd tr sv r s = (s, Some resp) \<and> fst resp \<in> {401, 405}))"
proof (intro conjI impI)
  assume "hr_Path r \<in> {''/entity'', ''/entities/batch'', ''/query''}"
  then have "refused s (serve_http False keys jd tr sv r s)"
    using no_tenant_refused [of s jd "server_client False keys tr sv" r] by (auto simp: serve_http_def http_handler_def RegisterRoutes_def)
  then show "\<exists>status msg. serve_http False keys jd tr sv r s = (s, Some (status, Plain_Text msg)) \<and> status \<in> {400, 405, 500}"
    by (simp add: refused_def)
next
  assume health: "hr_Path r = ''/health''"
  show "\<exists>resp. serve_http True keys jd tr sv r s = (s, Some resp) \<and> fst resp \<in> {401, 405}"
  proof (cases "http_key r = [] \<or> map_of keys (http_key r) = None")
    case True
    then show ?thesis by (simp add: serve_unauthenticated)
  next
    case False
    then obtain t where "http_key r \<noteq> []" "map_of keys (http_key r) = Some t" by auto
    then show ?thesis
      by (simp add: serve_authenticated health RegisterRoutes_def HealthCheckHandler_def server_client_def grpc_call_no_key
          answer_call_def writeGRPCError_def writeJSONResponse_def http_Error_def)
  qed
qed

text \<open>A result the encoder refuses is reported as a success: the status was written before.\<close>

lemma unencodable_is_200: "\<not> json_encodes body \<Longrightarrow> writeJSONResponse 200 body = (200, Plain_Text ''Failed to encode response'')"
  by (simp add: writeJSONResponse_def http_Error_def)

section \<open>A put and two requests without an answer\<close>

definition counting_service :: "nat CoordinatorService" where
  "counting_service = \<lparr>cs_Write = (\<lambda>key val n. (n + 1, Inr ())), cs_GetConfig = (\<lambda>n. majority_config 1 1),
     cs_UpdateConfig = (\<lambda>config n. n)\<rparr>"

definition sample_parts :: "(nat, unit) server_parts" where
  "sample_parts = \<lparr>sv_svc = counting_service, sv_indexer = None, sv_now = (\<lambda>i n. 100), sv_exec = (\<lambda>s q k e. Inr []),
     sv_coordinator_set = True, sv_executor_set = True\<rparr>"

definition sample_transport :: transport where
  "sample_transport = \<lparr>tr_put = id, tr_batch = id, tr_query = id\<rparr>"

definition sample_decoder :: json_decoder where
  "sample_decoder = \<lparr>jd_put = (\<lambda>b. Some \<lparr>pj_Entity = put_Entity sample_put, pj_ConsistencyLevel = ''ALL'', pj_TraceID = []\<rparr>),
     jd_batch = (\<lambda>b. None), jd_query = (\<lambda>b. None)\<rparr>"

definition sample_request :: "string \<Rightarrow> string \<Rightarrow> http_request" where
  "sample_request meth path = \<lparr>hr_Method = meth, hr_Path = path,
     hr_Header = (\<lambda>h. if h = ''X-ALLIDB-API-KEY'' then ''k1'' else []), hr_Body = Some []\<rparr>"

lemma sample_key [simp]: "http_key (sample_request meth path) = ''k1''" "hr_Method (sample_request meth path) = meth"
  "hr_Path (sample_request meth path) = path" "hr_Body (sample_request meth path) = Some []"
  by (simp_all add: sample_request_def)


lemma sample_put_counts: "fst (rpc_PutEntity counting_service None (\<lambda>n. 100) (Some ''acme'') sample_put (0, ())) = (1, ())"
proof -
  have p: "pb_TenantId (entityToProto sample_entity) = ''acme''" "pb_EntityId (entityToProto sample_entity) = ''doc1''"
    by (simp_all add: entityToProto_fields)
  have "rpc_tenant (Some ''acme'') = Inr ''acme''" by simp
  then show ?thesis
    by (simp add: rpc_PutEntity_def sample_put_def p counting_service_def entity_ToBytes_enc index_add_def rpc_status_def Let_def
        del: rpc_tenant_Inr)
qed


lemma gateway_split_witness:
  "(\<exists>status msg. serve_http False [] sample_decoder sample_transport sample_parts (sample_request ''POST'' ''/entity'') (0, ()) =
      ((0, ()), Some (status, Plain_Text msg)) \<and> status \<in> {400, 405, 500}) \<and>
   (\<exists>resp. serve_http True [(''k1'', ''acme'')] sample_decoder sample_transport sample_parts (sample_request ''GET'' ''/health'') (0, ()) =
      ((0, ()), Some resp) \<and> fst resp \<in> {401, 405})"
  using gateway_split [of "sample_request ''POST'' ''/entity''" "[]" sample_decoder sample_transport sample_parts "(0, ())"]
    gateway_split [of "sample_request ''GET'' ''/health''" "[(''k1'', ''acme'')]" sample_decoder sample_transport sample_parts "(0, ())"]
  by simp

end
