(* ===== verification/Tls_Config.thy ===== *)
theory Tls_Config
  imports Alli_Prelude
begin

text \<open>
  The TLS settings of \<^verbatim>\<open>src/core/security/tls/config.go\<close> and the use \<^verbatim>\<open>src/cmd/allidbd/main.go\<close> makes of
  them. Loading a key pair, reading a file and parsing certificates are parameters.
\<close>

section \<open>Settings\<close>

datatype client_auth = NoClientCert | VerifyClientCertIfGiven | RequireAndVerifyClientCert

text \<open>The fields of the library's configuration that this code sets; the server's name stays empty.\<close>

record ('cert, 'pool) tls_Config =
  tc_Certificates :: "'cert list"
  tc_MinVersion :: nat
  tc_MaxVersion :: nat
  tc_ClientCAs :: "'pool option"
  tc_RootCAs :: "'pool option"
  tc_ClientAuth :: client_auth
  tc_CipherSuites :: "nat list"
  tc_ServerName :: string
  tc_InsecureSkipVerify :: bool

definition zero_tls_Config :: "('cert, 'pool) tls_Config" where
  "zero_tls_Config = \<lparr>tc_Certificates = [], tc_MinVersion = 0, tc_MaxVersion = 0, tc_ClientCAs = None, tc_RootCAs = None,
     tc_ClientAuth = NoClientCert, tc_CipherSuites = [], tc_ServerName = [], tc_InsecureSkipVerify = False\<rparr>"

record tls_settings =
  ts_CertFile :: string
  ts_KeyFile :: string
  ts_CAFile :: string
  ts_ClientCertFile :: string
  ts_ClientKeyFile :: string
  ts_ClientCAFile :: string
  ts_RequireClientCert :: bool
  ts_OptionalClientTLS :: bool
  ts_MinVersion :: nat
  ts_MaxVersion :: nat
  ts_CipherSuites :: "nat list"
  ts_InsecureSkipVerify :: bool

definition zero_settings :: tls_settings where
  "zero_settings = \<lparr>ts_CertFile = [], ts_KeyFile = [], ts_CAFile = [], ts_ClientCertFile = [], ts_ClientKeyFile = [],
     ts_ClientCAFile = [], ts_RequireClientCert = False, ts_OptionalClientTLS = False, ts_MinVersion = 0, ts_MaxVersion = 0,
     ts_CipherSuites = [], ts_InsecureSkipVerify = False\<rparr>"

abbreviation "VersionTLS12 \<equiv> (0x0303 :: nat)"
abbreviation "VersionTLS13 \<equiv> (0x0304 :: nat)"

definition tls_DefaultConfig :: tls_settings where
  "tls_DefaultConfig = zero_settings\<lparr>ts_MinVersion := VersionTLS12, ts_MaxVersion := VersionTLS13\<rparr>"

text \<open>What the settings read from the disk.\<close>

record ('cert, 'pool) pem =
  pem_KeyPair :: "string \<Rightarrow> string \<Rightarrow> 'cert option"
  pem_ReadFile :: "string \<Rightarrow> bytes option"
  pem_CertPool :: "bytes \<Rightarrow> 'pool option"

definition read_pool :: "('cert, 'pool) pem \<Rightarrow> string \<Rightarrow> string \<Rightarrow> string \<Rightarrow> 'pool go" where
  "read_pool io path read_msg parse_msg =
     (case pem_ReadFile io path of
        None \<Rightarrow> Inl (Fail read_msg)
      | Some bs \<Rightarrow> (case pem_CertPool io bs of None \<Rightarrow> Inl (Fail parse_msg) | Some p \<Rightarrow> Inr p))"

definition ServerConfig :: "('cert, 'pool) pem \<Rightarrow> tls_settings \<Rightarrow> ('cert, 'pool) tls_Config go" where
  "ServerConfig io c =
     (if ts_CertFile c = [] \<or> ts_KeyFile c = [] then Inl (Fail ''server certificate and key files are required'')
      else case pem_KeyPair io (ts_CertFile c) (ts_KeyFile c) of
        None \<Rightarrow> Inl (Fail ''failed to load server certificate'')
      | Some cert \<Rightarrow>
          let config = zero_tls_Config\<lparr>tc_Certificates := [cert], tc_MinVersion := ts_MinVersion c, tc_MaxVersion := ts_MaxVersion c\<rparr>
          in rbind
               (if ts_CAFile c \<noteq> [] then
                  rbind (read_pool io (ts_CAFile c) ''failed to read CA certificate'' ''failed to parse CA certificate'') (\<lambda>pool.
                  let config = config\<lparr>tc_ClientCAs := Some pool\<rparr>
                  in Inr (if ts_RequireClientCert c then config\<lparr>tc_ClientAuth := RequireAndVerifyClientCert\<rparr>
                          else if ts_OptionalClientTLS c then config\<lparr>tc_ClientAuth := VerifyClientCertIfGiven\<rparr>
                          else config\<lparr>tc_ClientAuth := RequireAndVerifyClientCert\<rparr>))
                else if ts_RequireClientCert c then Inl (Fail ''CA file is required when RequireClientCert is true'')
                else Inr config)
               (\<lambda>config. Inr (if length (ts_CipherSuites c) > 0 then config\<lparr>tc_CipherSuites := ts_CipherSuites c\<rparr> else config)))"

definition ClientConfig :: "('cert, 'pool) pem \<Rightarrow> tls_settings \<Rightarrow> ('cert, 'pool) tls_Config go" where
  "ClientConfig io c =
     (let config = zero_tls_Config\<lparr>tc_MinVersion := ts_MinVersion c, tc_MaxVersion := ts_MaxVersion c\<rparr>
      in rbind
           (if ts_ClientCertFile c \<noteq> [] \<and> ts_ClientKeyFile c \<noteq> [] then
              (case pem_KeyPair io (ts_ClientCertFile c) (ts_ClientKeyFile c) of
                 None \<Rightarrow> Inl (Fail ''failed to load client certificate'')
               | Some cert \<Rightarrow> Inr (config\<lparr>tc_Certificates := [cert]\<rparr>))
            else Inr config) (\<lambda>config.
         rbind
           (if ts_ClientCAFile c \<noteq> [] then
              rbind (read_pool io (ts_ClientCAFile c) ''failed to read client CA certificate'' ''failed to parse client CA certificate'')
                (\<lambda>pool. Inr (config\<lparr>tc_RootCAs := Some pool\<rparr>))
            else Inr config) (\<lambda>config.
         let config = (if ts_InsecureSkipVerify c then config\<lparr>tc_InsecureSkipVerify := True\<rparr> else config)
         in Inr (if length (ts_CipherSuites c) > 0 then config\<lparr>tc_CipherSuites := ts_CipherSuites c\<rparr> else config))))"

definition MTLSConfig :: "string \<Rightarrow> string \<Rightarrow> string \<Rightarrow> tls_settings" where
  "MTLSConfig certFile keyFile caFile =
     zero_settings\<lparr>ts_CertFile := certFile, ts_KeyFile := keyFile, ts_CAFile := caFile, ts_ClientCertFile := certFile,
       ts_ClientKeyFile := keyFile, ts_ClientCAFile := caFile, ts_RequireClientCert := True, ts_OptionalClientTLS := False,
       ts_MinVersion := VersionTLS12, ts_MaxVersion := VersionTLS13\<rparr>"

definition ServerOnlyConfig :: "string \<Rightarrow> string \<Rightarrow> tls_settings" where
  "ServerOnlyConfig certFile keyFile =
     zero_settings\<lparr>ts_CertFile := certFile, ts_KeyFile := keyFile, ts_RequireClientCert := False, ts_OptionalClientTLS := False,
       ts_MinVersion := VersionTLS12, ts_MaxVersion := VersionTLS13\<rparr>"

definition OptionalClientTLSConfig :: "string \<Rightarrow> string \<Rightarrow> string \<Rightarrow> tls_settings" where
  "OptionalClientTLSConfig certFile keyFile caFile =
     zero_settings\<lparr>ts_CertFile := certFile, ts_KeyFile := keyFile, ts_CAFile := caFile, ts_RequireClientCert := False,
       ts_OptionalClientTLS := True, ts_MinVersion := VersionTLS12, ts_MaxVersion := VersionTLS13\<rparr>"

definition LoadServerConfig :: "('cert, 'pool) pem \<Rightarrow> string \<Rightarrow> string \<Rightarrow> string \<Rightarrow> bool \<Rightarrow> ('cert, 'pool) tls_Config go" where
  "LoadServerConfig io certFile keyFile caFile requireClientCert =
     ServerConfig io (zero_settings\<lparr>ts_CertFile := certFile, ts_KeyFile := keyFile, ts_CAFile := caFile,
       ts_RequireClientCert := requireClientCert, ts_MinVersion := VersionTLS12, ts_MaxVersion := VersionTLS13\<rparr>)"

definition LoadClientConfig :: "('cert, 'pool) pem \<Rightarrow> string \<Rightarrow> string \<Rightarrow> string \<Rightarrow> ('cert, 'pool) tls_Config go" where
  "LoadClientConfig io clientCertFile clientKeyFile clientCAFile =
     ClientConfig io (zero_settings\<lparr>ts_ClientCertFile := clientCertFile, ts_ClientKeyFile := clientKeyFile,
       ts_ClientCAFile := clientCAFile, ts_MinVersion := VersionTLS12, ts_MaxVersion := VersionTLS13\<rparr>)"

definition LoadMTLSConfig ::
  "('cert, 'pool) pem \<Rightarrow> string \<Rightarrow> string \<Rightarrow> string \<Rightarrow> (('cert, 'pool) tls_Config \<times> ('cert, 'pool) tls_Config) go" where
  "LoadMTLSConfig io certFile keyFile caFile =
     rbind (rwrap ''failed to load server config'' (LoadServerConfig io certFile keyFile caFile True)) (\<lambda>serverConfig.
     rbind (rwrap ''failed to load client config'' (LoadClientConfig io certFile keyFile caFile)) (\<lambda>clientConfig.
     Inr (serverConfig, clientConfig)))"

section \<open>The server's own settings\<close>

text \<open>The settings \<^verbatim>\<open>main\<close> makes of its configuration, with and without a CA.\<close>

definition server_tls :: "string \<Rightarrow> string \<Rightarrow> string \<Rightarrow> tls_settings" where
  "server_tls certFile keyFile caFile =
     zero_settings\<lparr>ts_CertFile := certFile, ts_KeyFile := keyFile, ts_CAFile := caFile, ts_RequireClientCert := False,
       ts_OptionalClientTLS := False\<rparr>"

text \<open>
  A client handshake of the TLS library is refused at once unless the configuration names the server or skips
  verification, as its documentation says.
\<close>

definition handshake_starts :: "('cert, 'pool) tls_Config \<Rightarrow> bool" where
  "handshake_starts config \<longleftrightarrow> tc_ServerName config \<noteq> [] \<or> tc_InsecureSkipVerify config"

lemma ServerConfig_ok:
  assumes "ServerConfig io c = Inr config"
  shows "(\<exists>cert. pem_KeyPair io (ts_CertFile c) (ts_KeyFile c) = Some cert \<and> tc_Certificates config = [cert]) \<and>
    tc_MinVersion config = ts_MinVersion c \<and> tc_MaxVersion config = ts_MaxVersion c \<and>
    tc_ServerName config = [] \<and> \<not> tc_InsecureSkipVerify config \<and> tc_RootCAs config = None \<and>
    tc_ClientAuth config =
      (if ts_CAFile c = [] then NoClientCert
       else if \<not> ts_RequireClientCert c \<and> ts_OptionalClientTLS c then VerifyClientCertIfGiven
       else RequireAndVerifyClientCert)"
  using assms
  by (auto simp: ServerConfig_def Let_def rbind_eq_Inr zero_tls_Config_def split: if_splits option.splits)

text \<open>Whoever is asked for a certificate must show a valid one: with mutual TLS both ends present the certificate and verify the other against the
  CA. A server with a CA and neither flag, as the program itself starts it, demands client certificates as
  well, and the configuration of its own gossip connections, which it shares, lets no client handshake start.\<close>

theorem tls_roles:
  "(\<forall>srv cl. LoadMTLSConfig io cert key ca = Inr (srv, cl) \<longrightarrow> cert \<noteq> [] \<longrightarrow> key \<noteq> [] \<longrightarrow> ca \<noteq> [] \<longrightarrow>
      tc_ClientAuth srv = RequireAndVerifyClientCert \<and> tc_ClientCAs srv \<noteq> None \<and> tc_RootCAs cl = tc_ClientCAs srv \<and>
      tc_Certificates cl = tc_Certificates srv \<and> \<not> tc_InsecureSkipVerify cl) \<and>
   (\<forall>config. ServerConfig io (server_tls cert key ca) = Inr config \<longrightarrow>
      tc_ClientAuth config = (if ca = [] then NoClientCert else RequireAndVerifyClientCert) \<and> \<not> handshake_starts config)"
proof (intro conjI allI impI)
  fix srv cl
  assume m: "LoadMTLSConfig io cert key ca = Inr (srv, cl)" and "cert \<noteq> []" "key \<noteq> []" "ca \<noteq> []"
  show "tc_ClientAuth srv = RequireAndVerifyClientCert" "tc_ClientCAs srv \<noteq> None" "tc_RootCAs cl = tc_ClientCAs srv"
    "tc_Certificates cl = tc_Certificates srv" "\<not> tc_InsecureSkipVerify cl"
    using m \<open>cert \<noteq> []\<close> \<open>key \<noteq> []\<close> \<open>ca \<noteq> []\<close>
    by (auto simp: LoadMTLSConfig_def LoadServerConfig_def LoadClientConfig_def ServerConfig_def ClientConfig_def Let_def
        rbind_eq_Inr zero_settings_def zero_tls_Config_def read_pool_def split: option.splits)
next
  fix config
  assume "ServerConfig io (server_tls cert key ca) = Inr config"
  from ServerConfig_ok [OF this]
  show "tc_ClientAuth config = (if ca = [] then NoClientCert else RequireAndVerifyClientCert)" "\<not> handshake_starts config"
    by (simp_all add: server_tls_def zero_settings_def handshake_starts_def)
qed

end
