(* ===== verification/Observability.thy ===== *)
theory Observability
  imports Soft_Float Alli_Prelude
begin

text \<open>
  Metrics, logging and tracing, \<^verbatim>\<open>src/core/observability\<close>. The registry keeps its metrics in a heap, since
  callers hold pointers to them; counters are 64 bits wide and wrap. The order in which a map is ranged over and
  the clock are arguments; the outcome of JSON encoding is a parameter.
\<close>

section \<open>Metrics\<close>

type_synonym labels = "(string \<times> string) list"

datatype MetricType = MetricTypeCounter | MetricTypeGauge | MetricTypeHistogram

record Metric =
  me_Name :: string
  me_Type :: MetricType
  me_Value :: fl
  me_Labels :: labels
  me_Timestamp :: time

record Counter =
  ct_name :: string
  ct_labels :: labels
  ct_value :: "64 word"

record Gauge =
  ga_name :: string
  ga_labels :: labels
  ga_value :: "64 word"

record Histogram =
  hi_name :: string
  hi_labels :: labels
  hi_buckets :: "fl list"
  hi_values :: "64 word list"

text \<open>Each map of the registry sends a key to a place in the list of the metrics made so far.\<close>

record 'm store =
  st_keys :: "(string \<times> nat) list"
  st_cells :: "'m list"

record MetricsRegistry =
  mr_counters :: "Counter store"
  mr_gauges :: "Gauge store"
  mr_histograms :: "Histogram store"

definition NewMetricsRegistry :: MetricsRegistry where
  "NewMetricsRegistry = (let e = \<lparr>st_keys = [], st_cells = []\<rparr> in
     \<lparr>mr_counters = e, mr_gauges = \<lparr>st_keys = [], st_cells = []\<rparr>, mr_histograms = \<lparr>st_keys = [], st_cells = []\<rparr>\<rparr>)"

text \<open>The key of a metric follows the order in which its labels come out of their map.\<close>

definition metricKey :: "(labels \<Rightarrow> labels) \<Rightarrow> string \<Rightarrow> labels \<Rightarrow> string" where
  "metricKey order name labels =
     (if length labels = 0 then name
      else fold (\<lambda>(k, v) key. key @ '':'' @ k @ ''='' @ v) (order labels) name)"

definition find_or_make :: "string \<Rightarrow> 'm \<Rightarrow> 'm store \<Rightarrow> 'm store \<times> nat" where
  "find_or_make key fresh s =
     (case map_of (st_keys s) key of
        Some i \<Rightarrow> (s, i)
      | None \<Rightarrow>
          (s\<lparr>st_keys := AList.update key (length (st_cells s)) (st_keys s), st_cells := st_cells s @ [fresh]\<rparr>, length (st_cells s)))"

definition registry_Counter :: "(labels \<Rightarrow> labels) \<Rightarrow> string \<Rightarrow> labels \<Rightarrow> MetricsRegistry \<Rightarrow> MetricsRegistry \<times> nat" where
  "registry_Counter order name labels r =
     (let key = metricKey order name labels;
          (s, i) = find_or_make key \<lparr>ct_name = name, ct_labels = labels, ct_value = 0\<rparr> (mr_counters r)
      in (r\<lparr>mr_counters := s\<rparr>, i))"

definition registry_Gauge :: "(labels \<Rightarrow> labels) \<Rightarrow> string \<Rightarrow> labels \<Rightarrow> MetricsRegistry \<Rightarrow> MetricsRegistry \<times> nat" where
  "registry_Gauge order name labels r =
     (let key = metricKey order name labels;
          (s, i) = find_or_make key \<lparr>ga_name = name, ga_labels = labels, ga_value = 0\<rparr> (mr_gauges r)
      in (r\<lparr>mr_gauges := s\<rparr>, i))"

definition registry_Histogram ::
  "(labels \<Rightarrow> labels) \<Rightarrow> string \<Rightarrow> labels \<Rightarrow> fl list \<Rightarrow> MetricsRegistry \<Rightarrow> MetricsRegistry \<times> nat" where
  "registry_Histogram order name labels buckets r =
     (let key = metricKey order name labels;
          (s, i) = find_or_make key
            \<lparr>hi_name = name, hi_labels = labels, hi_buckets = buckets, hi_values = replicate (length buckets + 1) 0\<rparr> (mr_histograms r)
      in (r\<lparr>mr_histograms := s\<rparr>, i))"

definition counter_Inc :: "Counter \<Rightarrow> Counter" where
  "counter_Inc c = c\<lparr>ct_value := ct_value c + 1\<rparr>"

definition counter_Add :: "64 word \<Rightarrow> Counter \<Rightarrow> Counter" where
  "counter_Add delta c = c\<lparr>ct_value := ct_value c + delta\<rparr>"

definition counter_Get :: "Counter \<Rightarrow> 64 word" where
  "counter_Get c = ct_value c"

text \<open>
  A gauge keeps thousandths. A float outside the range of an int64, infinite or not a number has a value
  that Go leaves to the machine: \<open>machine\<close>.
\<close>

definition to_int64 :: "(fl \<Rightarrow> 64 word) \<Rightarrow> fl \<Rightarrow> 64 word" where
  "to_int64 machine x =
     (case x of
        Finite s a \<Rightarrow>
          (let n = (if s then - \<lfloor>a\<rfloor> else \<lfloor>a\<rfloor>)
           in if - (2 ^ 63) \<le> n \<and> n < 2 ^ 63 then word_of_int n else machine x)
      | _ \<Rightarrow> machine x)"

definition thousandths :: "(fl \<Rightarrow> 64 word) \<Rightarrow> fl \<Rightarrow> 64 word" where
  "thousandths machine v = to_int64 machine (fl_mul F64 v (Finite False 1000))"

definition gauge_Set :: "(fl \<Rightarrow> 64 word) \<Rightarrow> fl \<Rightarrow> Gauge \<Rightarrow> Gauge" where
  "gauge_Set machine v g = g\<lparr>ga_value := thousandths machine v\<rparr>"

definition gauge_Add :: "(fl \<Rightarrow> 64 word) \<Rightarrow> fl \<Rightarrow> Gauge \<Rightarrow> Gauge" where
  "gauge_Add machine delta g = g\<lparr>ga_value := ga_value g + thousandths machine delta\<rparr>"

definition of_int64 :: "64 word \<Rightarrow> fl" where
  "of_int64 w = fl_of_rat F64 (of_int (sint w))"

definition gauge_Get :: "Gauge \<Rightarrow> fl" where
  "gauge_Get g = fl_div F64 (of_int64 (ga_value g)) (Finite False 1000)"

definition fl_le :: "fl \<Rightarrow> fl \<Rightarrow> bool" where
  "fl_le x y \<longleftrightarrow> fl_lt x y \<or> fl_eq x y"

fun bucket_of :: "fl list \<Rightarrow> fl \<Rightarrow> nat" where
  "bucket_of [] v = 0"
| "bucket_of (bucket # buckets) v = (if fl_le v bucket then 0 else Suc (bucket_of buckets v))"

definition histogram_Observe :: "fl \<Rightarrow> Histogram \<Rightarrow> Histogram" where
  "histogram_Observe v h =
     (let bucketIndex = bucket_of (hi_buckets h) v
      in h\<lparr>hi_values := (hi_values h)[bucketIndex := hi_values h ! bucketIndex + 1]\<rparr>)"

definition histogram_Get :: "Histogram \<Rightarrow> 64 word list" where
  "histogram_Get h = hi_values h"

definition GetAllMetrics :: "((string \<times> nat) list \<Rightarrow> (string \<times> nat) list) \<Rightarrow> time \<Rightarrow> MetricsRegistry \<Rightarrow> Metric list" where
  "GetAllMetrics order now r =
     map (\<lambda>(key, i). let counter = st_cells (mr_counters r) ! i in
            \<lparr>me_Name = ct_name counter, me_Type = MetricTypeCounter, me_Value = of_int64 (counter_Get counter),
             me_Labels = ct_labels counter, me_Timestamp = now\<rparr>) (order (st_keys (mr_counters r))) @
     map (\<lambda>(key, i). let gauge = st_cells (mr_gauges r) ! i in
            \<lparr>me_Name = ga_name gauge, me_Type = MetricTypeGauge, me_Value = gauge_Get gauge,
             me_Labels = ga_labels gauge, me_Timestamp = now\<rparr>) (order (st_keys (mr_gauges r))) @
     map (\<lambda>(key, i). let hist = st_cells (mr_histograms r) ! i in
            \<lparr>me_Name = hi_name hist, me_Type = MetricTypeHistogram,
             me_Value = of_int64 (fold (\<lambda>v sm. sm + v) (histogram_Get hist) 0),
             me_Labels = hi_labels hist, me_Timestamp = now\<rparr>) (order (st_keys (mr_histograms r)))"

text \<open>What callers do with a metric they hold.\<close>

definition on_cell :: "nat \<Rightarrow> ('m \<Rightarrow> 'm) \<Rightarrow> 'm store \<Rightarrow> 'm store" where
  "on_cell i f s = s\<lparr>st_cells := (st_cells s)[i := f (st_cells s ! i)]\<rparr>"

section \<open>Logging\<close>

datatype LogLevel = LogLevelDebug | LogLevelInfo | LogLevelWarn | LogLevelError

fun level_number :: "LogLevel \<Rightarrow> nat" where
  "level_number LogLevelDebug = 0"
| "level_number LogLevelInfo = 1"
| "level_number LogLevelWarn = 2"
| "level_number LogLevelError = 3"

fun level_String :: "LogLevel \<Rightarrow> string" where
  "level_String LogLevelDebug = ''DEBUG''"
| "level_String LogLevelInfo = ''INFO''"
| "level_String LogLevelWarn = ''WARN''"
| "level_String LogLevelError = ''ERROR''"

type_synonym 'v log_fields = "(string \<times> 'v) list"

record 'v LogEntry =
  le_Timestamp :: time
  le_Level :: string
  le_Message :: string
  le_Fields :: "'v log_fields"

text \<open>A logger writes to one of the process's outputs; what it writes is the entry or, when it cannot be encoded, a plain line.\<close>

datatype 'v log_line = Log_Json "'v LogEntry" | Log_Plain string string

record 'v Logger =
  lg_minLevel :: LogLevel
  lg_fields :: "'v log_fields"

definition DefaultLoggerConfig :: "'v Logger" where
  "DefaultLoggerConfig = \<lparr>lg_minLevel = LogLevelInfo, lg_fields = []\<rparr>"

definition log_merge_fields :: "'v log_fields \<Rightarrow> 'v log_fields \<Rightarrow> 'v log_fields" where
  "log_merge_fields old new =
     fold (\<lambda>(k, v). AList.update k v) new (fold (\<lambda>(k, v). AList.update k v) old [])"

definition WithFields :: "'v log_fields \<Rightarrow> 'v Logger \<Rightarrow> 'v Logger" where
  "WithFields fs l = \<lparr>lg_minLevel = lg_minLevel l, lg_fields = log_merge_fields (lg_fields l) fs\<rparr>"

definition WithField :: "string \<Rightarrow> 'v \<Rightarrow> 'v Logger \<Rightarrow> 'v Logger" where
  "WithField key v l = WithFields [(key, v)] l"

definition log_entry ::
  "('v LogEntry \<Rightarrow> bool) \<Rightarrow> time \<Rightarrow> 'v Logger \<Rightarrow> LogLevel \<Rightarrow> string \<Rightarrow> 'v log_fields \<Rightarrow> 'v log_line list \<Rightarrow> 'v log_line list" where
  "log_entry encodes now l level msg fs out =
     (if level_number level < level_number (lg_minLevel l) then out
      else
        let allFields = log_merge_fields (lg_fields l) fs;
            entry = \<lparr>le_Timestamp = now, le_Level = level_String level, le_Message = msg, le_Fields = allFields\<rparr>
        in out @ [if encodes entry then Log_Json entry else Log_Plain (level_String level) msg])"

text \<open>The fields argument is variadic: its first element counts. An error adds its text to the caller's own map
  (a nil map given explicitly is not distinguished from an empty one).\<close>

definition first_fields :: "'v log_fields list \<Rightarrow> 'v log_fields" where
  "first_fields fs = (case fs of f # _ \<Rightarrow> f | [] \<Rightarrow> [])"

definition log_Error ::
  "('v LogEntry \<Rightarrow> bool) \<Rightarrow> (string \<Rightarrow> 'v) \<Rightarrow> time \<Rightarrow> 'v Logger \<Rightarrow> string \<Rightarrow> string option \<Rightarrow> 'v log_fields list \<Rightarrow>
     'v log_line list \<Rightarrow> 'v log_line list" where
  "log_Error encodes text now l msg err fs out =
     (let f = first_fields fs;
          f = (case err of Some e \<Rightarrow> AList.update ''error'' (text e) f | None \<Rightarrow> f)
      in log_entry encodes now l LogLevelError msg f out)"

definition log_at ::
  "LogLevel \<Rightarrow> ('v LogEntry \<Rightarrow> bool) \<Rightarrow> time \<Rightarrow> 'v Logger \<Rightarrow> string \<Rightarrow> 'v log_fields list \<Rightarrow> 'v log_line list \<Rightarrow> 'v log_line list" where
  "log_at level encodes now l msg fs out = log_entry encodes now l level msg (first_fields fs) out"

definition log_FromContext :: "'v Logger \<Rightarrow> 'v Logger option \<Rightarrow> 'v Logger" where
  "log_FromContext dflt ctx = (case ctx of Some logger \<Rightarrow> logger | None \<Rightarrow> dflt)"

text \<open>The level the configuration names, of \<^verbatim>\<open>src/cmd/allidbd/main.go\<close>.\<close>

definition upper_ascii :: "string \<Rightarrow> string" where
  "upper_ascii s = map (\<lambda>c. if of_char c \<in> {97 .. (122 :: nat)} then char_of (of_char c - (32 :: nat)) else c) s"

definition parseLogLevel :: "string \<Rightarrow> LogLevel" where
  "parseLogLevel level =
     (let u = upper_ascii level
      in if u = ''DEBUG'' then LogLevelDebug else if u = ''INFO'' then LogLevelInfo
         else if u = ''WARN'' then LogLevelWarn else if u = ''ERROR'' then LogLevelError else LogLevelInfo)"

section \<open>Tracing\<close>

text \<open>A context holds the place of its span. The bytes of an id are random, None where the generator fails.\<close>

record 'v SpanLog =
  sl_Timestamp :: time
  sl_Fields :: "'v log_fields"

record 'v Span =
  sp_TraceID :: string
  sp_SpanID :: string
  sp_ParentID :: string
  sp_Name :: string
  sp_StartTime :: time
  sp_EndTime :: "time option"
  sp_Duration :: int
  sp_Tags :: "(string \<times> string) list"
  sp_Logs :: "'v SpanLog list"

type_synonym 'v Tracer = "'v Span store"

definition NewTracer :: "'v Tracer" where
  "NewTracer = \<lparr>st_keys = [], st_cells = []\<rparr>"

definition hex_digit :: "nat \<Rightarrow> char" where
  "hex_digit n = (''0123456789abcdef'' ! n)"

definition hex_EncodeToString :: "bytes \<Rightarrow> string" where
  "hex_EncodeToString bs = concat (map (\<lambda>b. [hex_digit (unat b div 16), hex_digit (unat b mod 16)]) bs)"

fun hex_nat :: "nat \<Rightarrow> string" where
  "hex_nat n = (if n < 16 then [hex_digit n] else hex_nat (n div 16) @ [hex_digit (n mod 16)])"

text \<open>The clock is read once per span, and its nanoseconds are positive in this century.\<close>

definition generateID :: "bytes option \<Rightarrow> time \<Rightarrow> string" where
  "generateID random now =
     (case random of None \<Rightarrow> hex_nat (nat now) | Some bs \<Rightarrow> hex_EncodeToString bs)"

definition StartSpan ::
  "(nat \<Rightarrow> bytes option) \<Rightarrow> time \<Rightarrow> nat option \<Rightarrow> string \<Rightarrow> 'v Tracer \<Rightarrow> 'v Tracer \<times> nat" where
  "StartSpan random now ctx name t =
     (let (traceID, parentID) =
            (case ctx of
               Some i \<Rightarrow> (sp_TraceID (st_cells t ! i), sp_SpanID (st_cells t ! i))
             | None \<Rightarrow> (generateID (random 16) now, []));
          spanID = generateID (random 8) now;
          span = \<lparr>sp_TraceID = traceID, sp_SpanID = spanID, sp_ParentID = parentID, sp_Name = name, sp_StartTime = now,
                  sp_EndTime = None, sp_Duration = 0, sp_Tags = [], sp_Logs = []\<rparr>
      in (t\<lparr>st_keys := AList.update spanID (length (st_cells t)) (st_keys t), st_cells := st_cells t @ [span]\<rparr>, length (st_cells t)))"

definition span_Finish :: "time \<Rightarrow> 'v Span \<Rightarrow> 'v Span" where
  "span_Finish now s = s\<lparr>sp_EndTime := Some now, sp_Duration := now - sp_StartTime s\<rparr>"

definition SetTag :: "string \<Rightarrow> string \<Rightarrow> 'v Span \<Rightarrow> 'v Span" where
  "SetTag key v s = s\<lparr>sp_Tags := AList.update key v (sp_Tags s)\<rparr>"

definition span_Log :: "time \<Rightarrow> 'v log_fields \<Rightarrow> 'v Span \<Rightarrow> 'v Span" where
  "span_Log now fs s = s\<lparr>sp_Logs := sp_Logs s @ [\<lparr>sl_Timestamp = now, sl_Fields = fs\<rparr>]\<rparr>"

definition GetAllSpans :: "((string \<times> nat) list \<Rightarrow> (string \<times> nat) list) \<Rightarrow> 'v Tracer \<Rightarrow> 'v Span list" where
  "GetAllSpans order t = map (\<lambda>(k, i). st_cells t ! i) (order (st_keys t))"

definition GetSpansByTraceID :: "((string \<times> nat) list \<Rightarrow> (string \<times> nat) list) \<Rightarrow> string \<Rightarrow> 'v Tracer \<Rightarrow> 'v Span list" where
  "GetSpansByTraceID order traceID t =
     fold (\<lambda>(k, i) spans. if sp_TraceID (st_cells t ! i) = traceID then spans @ [st_cells t ! i] else spans) (order (st_keys t)) []"

definition TraceIDFromContext :: "'v Tracer \<Rightarrow> nat option \<Rightarrow> string" where
  "TraceIDFromContext t ctx = (case ctx of Some i \<Rightarrow> sp_TraceID (st_cells t ! i) | None \<Rightarrow> [])"

section \<open>Keys and places\<close>

definition store_ok :: "'m store \<Rightarrow> bool" where
  "store_ok s \<longleftrightarrow> distinct (map fst (st_keys s)) \<and> (\<forall>k i. map_of (st_keys s) k = Some i \<longrightarrow> i < length (st_cells s)) \<and>
     (\<forall>k k' i. map_of (st_keys s) k = Some i \<longrightarrow> map_of (st_keys s) k' = Some i \<longrightarrow> k = k')"

lemma store_ok_empty: "store_ok \<lparr>st_keys = [], st_cells = []\<rparr>"
  by (simp add: store_ok_def)

lemma find_or_make_ok:
  assumes "store_ok s" and "find_or_make key fresh s = (s', i)"
  shows "store_ok s' \<and> map_of (st_keys s') key = Some i \<and> i < length (st_cells s') \<and>
    (\<forall>k j. map_of (st_keys s) k = Some j \<longrightarrow> map_of (st_keys s') k = Some j \<and> st_cells s' ! j = st_cells s ! j) \<and>
    (map_of (st_keys s) key = None \<longrightarrow> st_cells s' ! i = fresh)"
proof (cases "map_of (st_keys s) key")
  case (Some j)
  with assms show ?thesis by (auto simp: find_or_make_def store_ok_def)
next
  case None
  define n where "n = length (st_cells s)"
  have s': "s' = s\<lparr>st_keys := AList.update key n (st_keys s), st_cells := st_cells s @ [fresh]\<rparr>" and i: "i = n"
    using assms(2) None by (auto simp: find_or_make_def n_def)
  have keys: "map_of (st_keys s') k = (if k = key then Some n else map_of (st_keys s) k)" for k
    by (simp add: s' update_conv')
  have old: "j < n" if "map_of (st_keys s) k = Some j" for k j
    using assms(1) that by (simp add: store_ok_def n_def)
  have "j < length (st_cells s')" if "map_of (st_keys s') k = Some j" for k j
    using that old [of k j] by (simp add: keys s' flip: n_def split: if_splits)
  moreover have "k = k'" if "map_of (st_keys s') k = Some j" "map_of (st_keys s') k' = Some j" for k k' j
    using that old assms(1) unfolding keys store_ok_def by (metis less_irrefl option.inject)
  moreover have "distinct (map fst (st_keys s'))"
    using assms(1) by (simp add: s' store_ok_def distinct_update)
  ultimately have "store_ok s'" unfolding store_ok_def by blast
  with None show ?thesis using old by (auto simp: keys i s' nth_append simp flip: n_def)
qed

lemma on_cell_ok: "store_ok s \<Longrightarrow> store_ok (on_cell i f s)"
  by (simp add: store_ok_def on_cell_def)

text \<open>An observation falls into a bucket, so the index stays inside, and every bound before its bucket is below the value.\<close>

lemma bucket_of_le: "bucket_of buckets v \<le> length buckets"
  by (induction buckets) auto

lemma bucket_of_first:
  "i < bucket_of buckets v \<Longrightarrow> \<not> fl_le v (buckets ! i)"
  "bucket_of buckets v < length buckets \<Longrightarrow> fl_le v (buckets ! bucket_of buckets v)"
proof -
  show "i < bucket_of buckets v \<Longrightarrow> \<not> fl_le v (buckets ! i)"
    by (induction buckets arbitrary: i) (auto simp: less_Suc_eq_0_disj split: if_splits)
  show "bucket_of buckets v < length buckets \<Longrightarrow> fl_le v (buckets ! bucket_of buckets v)"
    by (induction buckets) auto
qed

lemma sum_list_inc: "k < length xs \<Longrightarrow> sum_list (xs[k := xs ! k + 1]) = sum_list xs + (1 :: 64 word)"
  by (induction xs arbitrary: k) (auto simp: algebra_simps split: nat.splits)

lemma observe_counts:
  "length (hi_values h) = length (hi_buckets h) + 1 \<Longrightarrow>
     sum_list (hi_values (histogram_Observe v h)) = sum_list (hi_values h) + 1 \<and>
     length (hi_values (histogram_Observe v h)) = length (hi_buckets (histogram_Observe v h)) + 1"
  using bucket_of_le [of "hi_buckets h" v]
  by (simp add: histogram_Observe_def Let_def sum_list_inc)

lemma sum_fold: "fold (\<lambda>v sm. sm + v) vs acc = acc + sum_list (vs :: 64 word list)"
  by (induction vs arbitrary: acc) (simp_all add: algebra_simps)

section \<open>Counting\<close>

text \<open>A caller that asks for a counter and increments it.\<close>

definition count_event :: "(labels \<Rightarrow> labels) \<times> string \<times> labels \<Rightarrow> MetricsRegistry \<Rightarrow> MetricsRegistry" where
  "count_event ev r = (case ev of (order, name, labels) \<Rightarrow>
     (case registry_Counter order name labels r of (r, i) \<Rightarrow> r\<lparr>mr_counters := on_cell i counter_Inc (mr_counters r)\<rparr>))"

definition event_key :: "(labels \<Rightarrow> labels) \<times> string \<times> labels \<Rightarrow> string" where
  "event_key ev = (case ev of (order, name, labels) \<Rightarrow> metricKey order name labels)"

text \<open>The count under a key, zero when there is no such counter.\<close>

definition count_of :: "MetricsRegistry \<Rightarrow> string \<Rightarrow> 64 word" where
  "count_of r key = (case map_of (st_keys (mr_counters r)) key of Some i \<Rightarrow> ct_value (st_cells (mr_counters r) ! i) | None \<Rightarrow> 0)"

lemma count_event_step:
  assumes "store_ok (mr_counters r)"
  shows "store_ok (mr_counters (count_event ev r)) \<and>
    count_of (count_event ev r) key = count_of r key + (if event_key ev = key then 1 else 0)"
proof -
  obtain order name labels where ev: "ev = (order, name, labels)" by (cases ev) auto
  obtain s i where s: "find_or_make (event_key ev) \<lparr>ct_name = name, ct_labels = labels, ct_value = 0\<rparr> (mr_counters r) = (s, i)"
    by fastforce
  note f = find_or_make_ok [OF assms s]
  have r: "mr_counters (count_event ev r) = on_cell i counter_Inc s"
    using s by (simp add: ev count_event_def registry_Counter_def event_key_def)
  have "store_ok s" using f by simp
  moreover have "count_of (count_event ev r) key = count_of r key + (if event_key ev = key then 1 else 0)"
  proof (cases "event_key ev = key")
    case True
    then show ?thesis
      using f by (cases "map_of (st_keys (mr_counters r)) key") (auto simp: count_of_def r on_cell_def counter_Inc_def)
  next
    case False
    have keys: "map_of (st_keys s) key = map_of (st_keys (mr_counters r)) key"
      using s False by (auto simp: find_or_make_def update_conv' split: option.splits)
    have apart: "j \<noteq> i" if "map_of (st_keys s) key = Some j" for j
      using f False that unfolding store_ok_def by blast
    show ?thesis
    proof (cases "map_of (st_keys s) key")
      case (Some a)
      with keys have "map_of (st_keys (mr_counters r)) key = Some a" by simp
      with Some f apart [OF Some] False show ?thesis by (simp add: count_of_def r on_cell_def)
    qed (use keys False in \<open>simp add: count_of_def r on_cell_def\<close>)
  qed
  ultimately show ?thesis by (simp add: r on_cell_ok)
qed

lemma counts_from:
  "store_ok (mr_counters r) \<Longrightarrow> store_ok (mr_counters (fold count_event evs r)) \<and>
     count_of (fold count_event evs r) key = count_of r key + word_of_nat (length (filter (\<lambda>ev. event_key ev = key) evs))"
proof (induction evs arbitrary: r)
  case (Cons ev evs)
  then show ?case using count_event_step [OF Cons.prems, of ev] by (simp add: algebra_simps)
qed simp

lemma single_label_key: "length labels \<le> 1 \<Longrightarrow> reorders order \<Longrightarrow> metricKey order name labels = metricKey id name labels"
  using reorders_length [of order labels] reorders_set [of order labels]
  by (cases labels; cases "order labels") (auto simp: metricKey_def)

text \<open>Counters count: whatever events were recorded, in whatever order their labels came out of their maps,
  the counter under a key holds the number of the events whose key it is, modulo \<open>2 ^ 64\<close>; events of one name with at most one label
  always share their counter, but with two labels one name and one set of labels has two keys, so its events are counted apart.\<close>

theorem metrics_count:
  "count_of (fold count_event evs NewMetricsRegistry) key = word_of_nat (length (filter (\<lambda>ev. event_key ev = key) evs)) \<and>
   (\<exists>order order'. reorders order \<and> reorders order' \<and>
      event_key (order, ''rpc'', [(''a'', ''1''), (''b'', ''2'')]) \<noteq> event_key (order', ''rpc'', [(''a'', ''1''), (''b'', ''2'')]))"
proof -
  have "store_ok (mr_counters NewMetricsRegistry)" "count_of NewMetricsRegistry key = 0"
    by (simp_all add: NewMetricsRegistry_def store_ok_empty count_of_def Let_def)
  moreover have "reorders (id :: labels \<Rightarrow> labels)" "reorders (rev :: labels \<Rightarrow> labels)"
    by (simp_all add: reorders_def)
  moreover have "event_key (id, ''rpc'', [(''a'', ''1''), (''b'', ''2'')]) \<noteq> event_key (rev, ''rpc'', [(''a'', ''1''), (''b'', ''2'')])"
    by (simp add: event_key_def metricKey_def)
  ultimately show ?thesis using counts_from [of NewMetricsRegistry evs key] by auto
qed

text \<open>A name can spell another metric's labels.\<close>

lemma metric_key_clash: "metricKey id ''a'' [(''b'', ''c'')] = metricKey id ''a:b=c'' []"
  by (simp add: metricKey_def)

section \<open>Levels and traces\<close>

lemma log_below_level: "level_number level < level_number (lg_minLevel l) \<Longrightarrow> log_at level encodes now l msg fs out = out"
  by (simp add: log_at_def log_entry_def)

text \<open>The fields of an entry override those of its logger.\<close>

lemma log_merge_fields_map: "map_of (log_merge_fields old new) = map_of (rev old) ++ map_of (rev new)"
proof -
  have step: "map_of (fold (\<lambda>(k, v). AList.update k v) kvs al) = map_of al ++ map_of (rev kvs)" for kvs and al :: "(string \<times> 'a) list"
    by (induction kvs arbitrary: al) (auto simp: update_conv' map_add_def fun_eq_iff split: option.splits)
  show ?thesis by (simp add: log_merge_fields_def step)
qed

text \<open>A span started under another belongs to its trace and names it as its parent.\<close>

lemma child_span:
  "StartSpan random now (Some i) name t = (t', j) \<Longrightarrow> i < length (st_cells t) \<Longrightarrow>
     TraceIDFromContext t' (Some j) = TraceIDFromContext t (Some i) \<and>
     sp_ParentID (st_cells t' ! j) = sp_SpanID (st_cells t ! i) \<and> st_cells t' ! i = st_cells t ! i"
  by (auto simp: StartSpan_def TraceIDFromContext_def Let_def nth_append)

lemma spans_of_trace: "GetSpansByTraceID order tid t = filter (\<lambda>s. sp_TraceID s = tid) (GetAllSpans order t)"
proof -
  have step: "fold (\<lambda>(k, i) spans. if sp_TraceID (st_cells t ! i) = tid then spans @ [st_cells t ! i] else spans) ks acc =
      acc @ filter (\<lambda>s. sp_TraceID s = tid) (map (\<lambda>(k, i). st_cells t ! i) ks)" for ks acc
    by (induction ks arbitrary: acc) auto
  show ?thesis unfolding GetSpansByTraceID_def GetAllSpans_def step by simp
qed

end
