(* ===== verification/Server_Wiring.thy ===== *)
theory Server_Wiring
  imports Query_Executor Entropy Handoff_Store Config_Fields Observability Storage_Service
begin

text \<open>
  How \<^verbatim>\<open>src/cmd/allidbd/main.go\<close> derives the settings of its components from the loaded
  configuration, and what a valid configuration gives them. Durations are 64-bit nanoseconds. Directories, sockets,
  signals and the order of shutdown are left out.
\<close>

section \<open>Settings of the components\<close>

abbreviation duration_ms :: "int \<Rightarrow> int" where
  "duration_ms n \<equiv> wrap64 (n * 1000000)"

abbreviation duration_min :: "int \<Rightarrow> int" where
  "duration_min n \<equiv> wrap64 (n * 60000000000)"

definition server_level :: "Config \<Rightarrow> LogLevel" where
  "server_level cfg = parseLogLevel (obs_LogLevel (cfg_Observability cfg))"

definition server_dirs :: "Config \<Rightarrow> string \<times> string \<times> string" where
  "server_dirs cfg = (let dataDir = node_DataDir (cfg_Node cfg) in (dataDir @ ''/wal'', dataDir @ ''/sstables'', dataDir @ ''/handoff''))"

definition server_engine :: "Config \<Rightarrow> EngineConfig" where
  "server_engine cfg = (let s = cfg_Storage cfg in
     NewEngineConfigFromConfig (wal_MaxFileMB (storage_WAL s)) (wal_Fsync (storage_WAL s))
       (memtable_MaxMB (storage_Memtable s)) (compaction_MaxConcurrent (storage_Compaction s)))"

text \<open>The flag of the tenant guard is the one of authentication.\<close>

definition server_guard :: "Config \<Rightarrow> TenantGuard" where
  "server_guard cfg = \<lparr>failHard = auth_Enabled (security_Auth (cfg_Security cfg))\<rparr>"

definition server_keys :: "Config \<Rightarrow> APIKeyStore" where
  "server_keys cfg = fold (\<lambda>k. AddKey (apikey_Key k) (apikey_TenantID k)) (auth_StaticAPIKeys (security_Auth (cfg_Security cfg))) NewAPIKeyStore"

definition server_gossip :: "Config \<Rightarrow> GossipConfig" where
  "server_gossip cfg = (let k = cfg_Cluster cfg in
     \<lparr>LocalNodeID = node_ID (cfg_Node cfg), LocalAddress = node_ListenAddress (cfg_Node cfg),
      LocalPort = cluster_GossipPort k, SeedNodes = cluster_SeedNodes k,
      GossipInterval = duration_ms (cluster_GossipIntervalMs k), FailureTimeout = duration_ms (cluster_FailureTimeoutMs k),
      CleanupInterval = duration_ms (cluster_CleanupIntervalMs k), Fanout = cluster_Fanout k\<rparr>)"

definition server_handoff :: "Config \<Rightarrow> HintConfig" where
  "server_handoff cfg = (let h = repair_HintedHandoff (cfg_Repair cfg) in
     \<lparr>hc_DataDir = snd (snd (server_dirs cfg)), hc_MaxSize = wrap64 (handoff_MaxSizeMB h * 1024 * 1024),
      hc_MaxTTL = duration_min (handoff_TTLMinutes h), hc_FlushInterval = duration_ms (handoff_FlushIntervalMs h)\<rparr>)"

definition server_coordinator :: "Config \<Rightarrow> Gossip \<Rightarrow> Coordinator" where
  "server_coordinator cfg g =
     start_coordinator (cluster_VirtualNodesPerNode (cfg_Cluster cfg)) (cluster_ReplicationFactor (cfg_Cluster cfg))
       (query_TimeoutMs (cfg_Query cfg)) (node_ID (cfg_Node cfg)) g"

definition server_index :: "Config \<Rightarrow> UnifiedConfig" where
  "server_index cfg = (let x = cfg_Index cfg; h = index_HNSW x in
     \<lparr>uc_HNSWConfig = \<lparr>hc_M = hnsw_M h, hc_Ef = hnsw_EfSearch h, hc_EfConstruction = hnsw_EfConstruction h,
                       hc_ShardCount = hnsw_ShardCount h\<rparr>,
      uc_GraphCacheSize = index_GraphCacheSize x, uc_EntityCacheSize = index_EntityCacheSize x,
      uc_SSTableDir = fst (snd (server_dirs cfg)), uc_SSTablePrefix = ''sstable'',
      uc_ReloadInterval = duration_ms (index_ReloadIntervalMs x)\<rparr>)"

text \<open>The fields the literal leaves out are zero, the limit of graph hops among them.\<close>

definition server_query :: "Config \<Rightarrow> ExecutorQueryConfig" where
  "server_query cfg = (let q = cfg_Query cfg in
     \<lparr>xq_ScoringWeights = DefaultScoringWeights, xq_DefaultK = query_DefaultK q, xq_DefaultExpandFactor = query_MaxGraphHops q,
      xq_MaxCandidates = query_MaxCandidates q, xq_DefaultConsistency = '''', xq_MaxGraphHops = 0, xq_Timeout = 0,
      xq_EnableTracing = (obs_LogLevel (cfg_Observability cfg) = ''DEBUG'')\<rparr>)"

text \<open>The orchestrator runs whether or not the configuration enables anti-entropy.\<close>

definition server_orchestrator :: "Config \<Rightarrow> Orchestrator" where
  "server_orchestrator cfg = NewOrchestrator (duration_min (entropy_IntervalMinutes (repair_AntiEntropy (cfg_Repair cfg))))"

text \<open>The index and the query executor on a directory of tables.\<close>

definition server_executor :: "ui_env \<Rightarrow> Config \<Rightarrow> sst_dir \<Rightarrow> QueryExec go" where
  "server_executor env cfg dir =
     rbind (unified_New env (server_index cfg) dir) (\<lambda>idx. Inr (NewQueryExec env idx (server_query cfg)))"

section \<open>What a valid configuration gives\<close>

lemma valid_query:
  "validateQuery cfg = Inr () \<Longrightarrow>
     query_DefaultK (cfg_Query cfg) \<in> {1..10000} \<and> query_MaxCandidates (cfg_Query cfg) \<in> {1..100000} \<and> 0 \<le> query_MaxGraphHops (cfg_Query cfg)"
  by (auto simp: validateQuery_def Let_def simp del: refuse.simps)

lemma valid_cluster: "validateCluster cfg = Inr () \<Longrightarrow> cluster_ReplicationFactor (cfg_Cluster cfg) \<in> {1..10}"
  by (auto simp: validateCluster_def Let_def rbind_eq_Inr cluster_bounds_def simp del: refuse.simps)

lemma valid_repair:
  assumes "validateRepair cfg = Inr ()"
  shows "(handoff_Enabled (repair_HintedHandoff (cfg_Repair cfg)) \<longrightarrow>
      handoff_MaxSizeMB (repair_HintedHandoff (cfg_Repair cfg)) \<in> {1..1048576} \<and>
      handoff_TTLMinutes (repair_HintedHandoff (cfg_Repair cfg)) \<in> {1..10080}) \<and>
    (entropy_Enabled (repair_AntiEntropy (cfg_Repair cfg)) \<longrightarrow>
      entropy_IntervalMinutes (repair_AntiEntropy (cfg_Repair cfg)) \<in> {1..10080})"
  using assms by (auto simp: validateRepair_def Let_def rbind_eq_Inr simp del: refuse.simps split: if_splits)

lemma valid_level:
  "validateObservability cfg = Inr () \<Longrightarrow> level_String (server_level cfg) = obs_LogLevel (cfg_Observability cfg)"
  by (auto simp: validateObservability_def server_level_def parseLogLevel_def upper_ascii_def Let_def simp del: refuse.simps)

lemma start_executor:
  "\<exists>ex. server_executor env cfg [] = Inr ex \<and> hnsw_ok (ui_hnswIndex (ex_index ex)) \<and> ex_config ex = server_query cfg"
  by (simp add: server_executor_def unified_New_def reloadSSTables_def rebuildIndexes_def unified_glob_def glob_names_def
      clock_tick_def NewQueryExec_def hnsw_New_ok Let_def)

lemma coordinator_quorums:
  "co_config (server_coordinator cfg g) =
     majority_config (cluster_ReplicationFactor (cfg_Cluster cfg)) (query_TimeoutMs (cfg_Query cfg))"
  by (simp add: server_coordinator_def start_coordinator_def NewCoordinator_def)

text \<open>C40. A valid configuration gives the server working parts. The quorums are majorities that overlap; the hint store
  has, when handoff is enabled, the size and the lifetime the file says, without overflow; logging has the level named.
  Queries: the executor's settings are those of the file, the executor started on an empty directory has them and a
  well-formed vector index, and every executor with them and a well-formed vector index (whatever it holds: additions keep
  it well-formed) answers every query without a panic, with at most \<open>k\<close> and at most \<open>default_k\<close> distinct
  results. Two parts fail all the same: with two replicas or more every write is rejected, and with
  anti-entropy disabled an interval that was not checked can still panic.\<close>

theorem server_settings:
  assumes "Validate cfg h = (h', Inr ())" and "reorders (env_rng env)"
    and "c = co_config (server_coordinator cfg g)" and "hint = repair_HintedHandoff (cfg_Repair cfg)"
    and "ent = repair_AntiEntropy (cfg_Repair cfg)"
  shows "1 \<le> ReadQuorum c \<and> ReadQuorum c \<le> ReplicaCount c \<and> ReadQuorum c + WriteQuorum c > ReplicaCount c \<and>
    (handoff_Enabled hint \<longrightarrow> hc_MaxSize (server_handoff cfg) = handoff_MaxSizeMB hint * 2 ^ 20 \<and>
       hc_MaxTTL (server_handoff cfg) = handoff_TTLMinutes hint * 60 * 10 ^ 9 \<and> 0 < hc_MaxTTL (server_handoff cfg)) \<and>
    level_String (server_level cfg) = obs_LogLevel (cfg_Observability cfg) \<and>
    xq_DefaultK (server_query cfg) = query_DefaultK (cfg_Query cfg) \<and>
    xq_MaxCandidates (server_query cfg) = query_MaxCandidates (cfg_Query cfg) \<and>
    (\<exists>ex. server_executor env cfg [] = Inr ex \<and> ex_config ex = server_query cfg \<and> hnsw_ok (ui_hnswIndex (ex_index ex))) \<and>
    (\<forall>ex q k expandFactor. ex_config ex = server_query cfg \<longrightarrow> hnsw_ok (ui_hnswIndex (ex_index ex)) \<longrightarrow> 0 \<le> k \<longrightarrow>
       (\<exists>ex' rs. QueryWithOptions env q k expandFactor ex = Inr (ex', rs) \<and> distinct (map sq_EntityID rs) \<and>
          int (length rs) \<le> k \<and> int (length rs) \<le> query_DefaultK (cfg_Query cfg))) \<and>
    (2 \<le> cluster_ReplicationFactor (cfg_Cluster cfg) \<longrightarrow>
       coord_Write wr order (server_coordinator cfg g) key val w = (w, Inl (Fail ''insufficient alive replicas''))) \<and>
    (entropy_Enabled ent \<longrightarrow> or_Start (server_orchestrator cfg) \<noteq> Inl Panic) \<and>
    (entropy_IntervalMinutes ent = 0 \<longrightarrow> or_Start (server_orchestrator cfg) = Inl Panic)"
proof -
  have v: "validateQuery cfg = Inr ()" "validateCluster cfg = Inr ()" "validateRepair cfg = Inr ()" "validateObservability cfg = Inr ()"
    using assms(1) Validate_ok [of cfg h] by auto
  note q = valid_query [OF v(1)] and rf = valid_cluster [OF v(2)] and rep = valid_repair [OF v(3)]
  have quorums: "1 \<le> ReadQuorum c \<and> ReadQuorum c \<le> ReplicaCount c \<and> ReadQuorum c + WriteQuorum c > ReplicaCount c"
    using rf by (simp add: assms(3) coordinator_quorums majority_config_def) linarith
  have hints: "hc_MaxSize (server_handoff cfg) = handoff_MaxSizeMB hint * 2 ^ 20 \<and>
      hc_MaxTTL (server_handoff cfg) = handoff_TTLMinutes hint * 60 * 10 ^ 9 \<and> 0 < hc_MaxTTL (server_handoff cfg)"
    if "handoff_Enabled hint"
  proof -
    have "handoff_MaxSizeMB hint \<in> {1..1048576}" "handoff_TTLMinutes hint \<in> {1..10080}" using rep that assms(4) by auto
    then show ?thesis by (simp add: server_handoff_def Let_def wrap64_id flip: assms(4))
  qed
  have start: "\<exists>ex. server_executor env cfg [] = Inr ex \<and> ex_config ex = server_query cfg \<and>
      hnsw_ok (ui_hnswIndex (ex_index ex))"
    using start_executor by blast
  have queries: "\<exists>ex' rs. QueryWithOptions env qv k expandFactor ex = Inr (ex', rs) \<and> distinct (map sq_EntityID rs) \<and>
      int (length rs) \<le> k \<and> int (length rs) \<le> query_DefaultK (cfg_Query cfg)"
    if "ex_config ex = server_query cfg" "hnsw_ok (ui_hnswIndex (ex_index ex))" "0 \<le> k" for ex qv k expandFactor
    using query_ends [OF that(2) assms(2) that(3), of qv expandFactor] q
    by (simp add: that(1) server_query_def Let_def) blast
  have settings: "xq_DefaultK (server_query cfg) = query_DefaultK (cfg_Query cfg)"
      "xq_MaxCandidates (server_query cfg) = query_MaxCandidates (cfg_Query cfg)"
    by (simp_all add: server_query_def Let_def)
  have entropy: "or_Start (server_orchestrator cfg) \<noteq> Inl Panic" if "entropy_Enabled ent"
  proof -
    have "entropy_IntervalMinutes ent \<in> {1..10080}" using rep that assms(5) by auto
    then show ?thesis by (simp add: server_orchestrator_def or_Start_def NewOrchestrator_def wrap64_id flip: assms(5))
  qed
  have stopped: "or_Start (server_orchestrator cfg) = Inl Panic" if "entropy_IntervalMinutes ent = 0"
    using that by (simp add: server_orchestrator_def or_Start_def NewOrchestrator_def wrap64_id flip: assms(5))
  show ?thesis
    using quorums hints valid_level [OF v(4)] settings start queries entropy stopped
    by (intro conjI allI impI) (simp_all add: server_coordinator_def lone_ring_rejects [THEN conjunct1])
qed

text \<open>The wired settings over an index of two linked nodes.\<close>

lemma server_settings_witness:
  "\<exists>ex' rs. QueryWithOptions sample_ui_env [0x3f800000] 5 2
       (NewQueryExec sample_ui_env sample_index (server_query sample_config_loaded)) = Inr (ex', rs) \<and>
     distinct (map sq_EntityID rs) \<and> length rs \<le> 5"
proof -
  let ?ex = "NewQueryExec sample_ui_env sample_index (server_query sample_config_loaded)"
  have "\<forall>ex q k expandFactor. ex_config ex = server_query sample_config_loaded \<longrightarrow>
       hnsw_ok (ui_hnswIndex (ex_index ex)) \<longrightarrow> 0 \<le> k \<longrightarrow>
       (\<exists>ex' rs. QueryWithOptions sample_ui_env q k expandFactor ex = Inr (ex', rs) \<and> distinct (map sq_EntityID rs) \<and>
          int (length rs) \<le> k \<and> int (length rs) \<le> query_DefaultK (cfg_Query sample_config_loaded))"
    using server_settings [OF sample_valid sample_reorders refl refl refl, where g = "NewGossip 0 (gossip_DefaultConfig ''n7'' ''h'' 1)"
        and wr = mock_Write and order = "\<lambda>n. [0..<n]" and key = "''k''" and val = None and w = NewMockReplicaClient]
    by (elim conjE)
  note * = spec [OF spec [OF spec [OF spec [OF this, of ?ex], of "[0x3f800000]"], of 5], of 2]
  have "ex_config ?ex = server_query sample_config_loaded" "hnsw_ok (ui_hnswIndex (ex_index ?ex))"
    by (simp_all add: NewQueryExec_def clock_tick_def sample_index_def sample_hnsw_ok)
  with * obtain ex' rs where "QueryWithOptions sample_ui_env [0x3f800000] 5 2 ?ex = Inr (ex', rs)"
      "distinct (map sq_EntityID rs)" "int (length rs) \<le> 5" by auto
  then show ?thesis by (intro exI conjI) simp_all
qed

end
