(* ===== verification/Spec2Isabelle.thy ===== *)
theory Spec2Isabelle
  imports Storage_Service Dispatcher Repair Entropy Graph_Cache Grpc_Server Config_Fields Query_Executor Ai_Providers Http_Gateway Tls_Config Server_Wiring
begin

text \<open>
  A model of AlliDB, a multi-tenant store of entities with vectors, graph edges and text chunks,
  written in Go. Paths below are under \<^verbatim>\<open>src/\<close>.

  \<^bold>\<open>The program and its theories.\<close>

  \<^item> Data: \<open>Entity_Codec\<close> (\<^verbatim>\<open>core/entity\<close>): entities, edges, chunks, their updates
    and binary form. \<open>Soft_Float\<close> holds the floating-point arithmetic the program computes with, as exact
    rationals that are rounded.
  \<^item> Configuration (\<^verbatim>\<open>core/config\<close>): \<open>Config_Model\<close> has the structs, their defaults and their reflection,
    \<open>Config_Validate\<close> every check of the validation, \<open>Config_Load\<close> merging and loading, \<open>Config_Fields\<close> the
    environment variables and what loading gives.
  \<^item> Storage, from the bottom up: \<open>Memtable\<close>, \<open>Wal\<close> (files, records, replay, and the writer
    goroutine as a step relation), \<open>Sstable\<close> (format, writer, reader, merge reader), \<open>Compaction\<close>
    (planner, executor, IO limiter, job manager), all under \<^verbatim>\<open>core/storage\<close>; \<open>Scheduling\<close> holds
    the two interfaces that compaction and repair share. \<open>Tenancy\<close> is
    \<^verbatim>\<open>core/security/auth\<close>, \<^verbatim>\<open>core/security/tenant\<close> and \<^verbatim>\<open>core/storage/guard.go\<close>.
    \<open>Storage_Service\<close> (\<^verbatim>\<open>cmd/allidbd/storage_service.go\<close>) composes them: a put is
    guarded, logged, put into the memtable and flushed; reads and scans merge memtable and tables.
  \<^item> Cluster: \<open>Hash_Ring\<close>, \<open>Gossip\<close>, \<open>Handoff_Store\<close>, \<open>Coordinator\<close> (quorum reads and writes over
    ring and gossip, with the wrapper that stores hints and the in-memory client of
    \<^verbatim>\<open>cmd/allidbd/main.go\<close>), \<open>Dispatcher\<close> (replay of hints through the coordinator), under
    \<^verbatim>\<open>core/cluster\<close>; \<open>Repair\<close> (read repair), \<open>Merkle\<close> and \<open>Entropy\<close> (anti-entropy), under
    \<^verbatim>\<open>core/cluster/repair\<close>.
  \<^item> Index (\<^verbatim>\<open>core/index\<close>): \<open>Graph_Cache\<close>; the vector index in \<open>Hnsw\<close> (the program), \<open>Hnsw_Graph\<close>
    (what a layer search visits), \<open>Hnsw_Add\<close> (what an addition changes), \<open>Hnsw_Greedy\<close> (local optima) and \<open>Hnsw_Index\<close>
    (histories and searches); \<open>Unified_Index\<close> loads tables into both and searches them.
    \<open>Query_Executor\<close> (\<^verbatim>\<open>core/query\<close>) runs a query over the unified index.
  \<^item> Interface: \<open>Grpc_Server\<close> (\<^verbatim>\<open>api/grpc/server.go\<close>) and \<open>Http_Gateway\<close>
    (\<^verbatim>\<open>api/http/handlers.go\<close>), which calls it over a connection.
  \<^item> Models and secrets: \<open>Llm_Extractor\<close> (\<^verbatim>\<open>core/llm\<close>) and \<open>Ai_Providers\<close> (\<^verbatim>\<open>core/ai\<close>,
    \<^verbatim>\<open>core/security/secrets\<close>); \<open>Tls_Config\<close> (\<^verbatim>\<open>core/security/tls\<close>);
    \<open>Observability\<close> (\<^verbatim>\<open>core/observability\<close>).
  \<^item> \<open>Server_Wiring\<close>: the settings that \<^verbatim>\<open>cmd/allidbd/main.go\<close> derives from the configuration.

  \<^bold>\<open>How state and operations correspond.\<close> A struct is a record with the fields of the source, a Go map an
  association list (the order of its entries is the order of a \<^verbatim>\<open>range\<close> loop, which Go leaves open) or
  a partial function where no loop ranges over it; objects reached through shared pointers (the nodes of the vector index, metrics, spans) lie in
  a list or map of cells and are named by their place. A method is a function from the state to the new state and its result; a
  method that holds its mutex throughout is one step. Errors are values (\<open>'a go\<close>: a panic, an error
  by its format string, or a result). Where goroutines interleave, the steps are explicit: the writer of the log
  (\<open>wal_step\<close>), the network of gossip nodes, the flush racing with puts, puts that change the shared quorums, the goroutines of a write as an order of the replicas.
  The clock, random draws, iteration orders of maps and the bytes the source reads from disk are arguments. A string is the list of its bytes. An int is unbounded where the
  program's sizes keep it far below \<open>2 ^ 63\<close>, and a word or wrapped where the code computes with untrusted
  numbers (offsets in files, versions, hashes, checksums, durations of the configuration, the counters of the
  compaction's IO limiter).

  \<^bold>\<open>Interfaces.\<close> Each locale is interpreted on the definitions of the components that provide it, and properties
  rest on the facts of these interpretations: \<open>codec\<close>, \<open>sort_order\<close> (tables by size, floats, distances of the vector
  index), \<open>wal_entry\<close>, \<open>prio_queue\<close>, \<open>window_limiter\<close>, \<open>replica_client\<close>, \<open>work_list\<close> and
  \<open>coordinator_service\<close> (what the gRPC server needs of a coordinator). What the program takes from libraries and remote services stays an argument: JSON and YAML
  decoding, the HTTP client and the transport of gRPC, certificates, the exponential and logarithm.

  \<^bold>\<open>What is shown.\<close> For every component: the functional behaviour of its operations on every branch
  (lookups, merges, owners, quorums, traversals, vector searches, queries, retries), the invariants of its state, round trips of its encodings, bounds of
  its limiters; then compositions: restart after any runs, quorum overlap, replay of hints, repair
  of divergent replicas, isolation of tenants, a put over HTTP as a put of the service, a
  validated configuration as one whose components work. Where the code departs from what its comments promise,
  the behaviour it does have is proved (the names of these theorems say what goes wrong).

  \<^bold>\<open>Bounds and fuel.\<close> Loops are structural recursions or have a termination proof (traversals by the entities
  not yet visited, layer searches by the nodes not yet visited, markdown fences by the length of the text, retries by the attempts left, SHA-1 and SHA-256 by their rounds). Fuel occurs only where the source
  bounds the loop itself (the replay loop gives up after one attempt) or where it may wait
  forever; there the statement is that it does. Encodings assume the fields fit their 32-bit lengths.

  \<^bold>\<open>Not modelled.\<close> Sockets, timers, signals and the order of shutdown, and the text of log lines; the JSON
  text of the standard library (its values are modelled); what language models and embedding services answer; the load generators under
  \<^verbatim>\<open>benchmark\<close>; code generated from the protocol buffers beyond the messages' fields.
\<close>

section \<open>Compaction under the server's settings\<close>

lemma fst_set_delete: "fst ` set (AList.delete k al) = fst ` set al - {k}"
  using arg_cong [OF delete_keys [of k al], of set] by simp

lemma dir_after_compaction:
  fixes dir :: sst_dir
  shows "fst ` set (fold AList.delete paths (AList.update out f dir)) = insert out (fst ` set dir) - set paths"
proof -
  have "fst ` set (fold AList.delete paths al) = fst ` set al - set paths" for al :: sst_dir
    by (induction paths arbitrary: al) (auto simp: fst_set_delete)
  then show ?thesis by (simp add: dom_update)
qed

lemma map_of_fold_delete:
  "map_of (fold AList.delete ks al) k = (if k \<in> set ks then None else map_of al k)"
  by (induction ks arbitrary: al) (auto simp: delete_conv)

text \<open>C11. With the settings the server derives for its compaction manager, the executor's file prefix
  is empty. A compaction of any of the tables that reads find (which are the ones its planner picks) succeeds: it
  writes the merged table to a new file and deletes its inputs, but no read looks for the name of
  that file, so the tables left to read are exactly those not compacted. After compacting all
  tables every table lookup finds nothing, whatever the output holds.\<close>

theorem engine_compaction_hides_tables:
  assumes "e = NewExecutor (mc_ExecutorConfig (engine_CompactionConfig cfg)) dir"
    and "list_all input_ok rowss" and "paths \<noteq> []" and "set paths \<subseteq> set (table_files dir)"
    and "list_all2 (\<lambda>path rows. \<exists>t. map_of dir path = Some (table_enc rows, t)) paths rowss"
  shows "\<exists>e' dir' out. Compact e dir now paths = (e', dir', Inr out) \<and>
           map_of dir' out = Some (table_enc (compacted rowss), now) \<and> out \<notin> set (table_files dir') \<and>
           (\<forall>path \<in> set paths. map_of dir' path = None) \<and>
           set (table_files dir') = set (table_files dir) - set paths \<and>
           (set paths = set (table_files dir) \<longrightarrow>
              latestFromSSTables eid t (s\<lparr>ss_dir := dir'\<rparr>) = Inr (None, 0))"
proof -
  let ?out = "numbered_name (ex_sstablePrefix e) ''.sst'' (output_seq e dir paths)"
  let ?dir' = "fold AList.delete paths (AList.update ?out (table_enc (compacted rowss), now) dir)"
  obtain e' where c: "Compact e dir now paths = (e', ?dir', Inr ?out)"
    using Compact_tables [OF assms(2,3,5), of e now] by (auto simp: Let_def)
  have "ex_sstablePrefix e = []"
    by (simp add: assms(1) NewExecutor_def engine_CompactionConfig_def)
  then have unread: "\<not> prefix ''sstable-'' ?out"
    by (simp add: numbered_name_def)
  then have rest: "set (table_files ?dir') = set (table_files dir) - set paths" and "?out \<notin> set (table_files ?dir')"
      "?out \<notin> set (table_files dir)"
    using dir_after_compaction [of paths ?out "(table_enc (compacted rowss), now)" dir]
    by (auto simp: table_files_def glob_names_def)
  moreover from this(3) assms(4) have "?out \<notin> set paths" by blast
  moreover have "latestFromSSTables eid t (s\<lparr>ss_dir := ?dir'\<rparr>) = Inr (None, 0)" if "set paths = set (table_files dir)"
  proof -
    from rest that have "table_files ?dir' = []" by simp
    then show ?thesis by (simp add: latestFromSSTables_def)
  qed
  ultimately show ?thesis using c by (intro exI conjI) (assumption | simp add: map_of_fold_delete)+
qed

lemma engine_compaction_hides_tables_witness:
  "\<exists>e' dir' out. Compact (NewExecutor (mc_ExecutorConfig (engine_CompactionConfig sample_config)) (ss_dir sample_flushed))
       (ss_dir sample_flushed) 9 [flush_path 2] = (e', dir', Inr out) \<and>
     map_of dir' out = Some (table_enc (compacted [snapshot_rows [(''doc1'', [sample_entity])]]), 9) \<and>
     latestFromSSTables ''doc1'' ''acme'' (sample_flushed\<lparr>ss_dir := dir'\<rparr>) = Inr (None, 0)"
proof -
  let ?rows = "snapshot_rows [(''doc1'', [sample_entity])]"
  have "input_ok ?rows"
    using sample_snapshot(1) snapshot_rows_sorted by (simp add: input_ok_def snapshot_ok_def)
  with engine_compaction_hides_tables [of _ sample_config "ss_dir sample_flushed" "[?rows]" "[flush_path 2]" 9 "''doc1''" "''acme''" sample_flushed]
  show ?thesis by (auto simp: sample_flushed_def table_files_one)
qed

end
